(* ===== verification/Std_Containers.thy ===== *)
theory Std_Containers
  imports Monkas_Prelude
begin

text \<open>
  What the program uses of \<open>std::set\<close> and \<open>std::map\<close>: containers kept in ascending order of a
  key under a comparison (\<open>operator<=>\<close> of the element type), without two elements of
  equivalent key. They are lists here, in iteration order. \<open>std::set<network::Interface>\<close>
  compares interfaces by their index only, so the key is a function of the element and need not
  determine it.

  The two locales \<open>keyed_set\<close> and \<open>keyed_map\<close> state what the clients rely on; the lists are
  interpreted as instances of them at the end of the theory.
\<close>

section \<open>Ordered lists\<close>

definition ordered_by :: "('a \<Rightarrow> 'k::linorder) \<Rightarrow> 'a list \<Rightarrow> bool" where
  "ordered_by key xs \<longleftrightarrow> sorted_wrt (<) (map key xs)"

lemma ordered_by_Nil [simp]: "ordered_by key []"
  by (simp add: ordered_by_def)

lemma ordered_by_Cons [simp]:
  "ordered_by key (x # xs) \<longleftrightarrow> (\<forall>y\<in>set xs. key x < key y) \<and> ordered_by key xs"
  by (auto simp: ordered_by_def)

lemma ordered_by_distinct: "ordered_by key xs \<Longrightarrow> distinct (map key xs)"
  by (induction xs) auto

lemma ordered_by_unique_key:
  "ordered_by key xs \<Longrightarrow> x \<in> set xs \<Longrightarrow> y \<in> set xs \<Longrightarrow> key x = key y \<Longrightarrow> x = y"
  by (induction xs) force+

lemma ordered_by_set_eq:
  assumes "ordered_by key xs" and "ordered_by key ys" and "set xs = set ys"
  shows "xs = ys"
  using assms
proof (induction xs arbitrary: ys)
  case Nil
  then show ?case by simp
next
  case (Cons x xs)
  then obtain y ys' where ys: "ys = y # ys'"
    by (cases ys) auto
  have "x = y"
    using Cons.prems unfolding ys
    by (metis less_not_sym list.set_intros(1) ordered_by_Cons set_ConsD)
  moreover have "x \<notin> set xs" and "y \<notin> set ys'"
    using Cons.prems unfolding ys by auto
  ultimately have "set xs = set ys'"
    using Cons.prems(3) unfolding ys by auto
  then show ?case
    using Cons \<open>x = y\<close> unfolding ys by auto
qed

section \<open>std::set\<close>

fun set_contains :: "('a \<Rightarrow> 'k) \<Rightarrow> 'k \<Rightarrow> 'a list \<Rightarrow> bool" where
  "set_contains key k [] = False"
| "set_contains key k (x # xs) = (key x = k \<or> set_contains key k xs)"

text \<open>\<open>insert\<close> and \<open>emplace\<close> leave the set as it is when an equivalent element is present.\<close>

fun set_insert :: "('a \<Rightarrow> 'k::linorder) \<Rightarrow> 'a \<Rightarrow> 'a list \<Rightarrow> 'a list" where
  "set_insert key x [] = [x]"
| "set_insert key x (y # ys) =
     (if key x < key y then x # y # ys
      else if key x = key y then y # ys
      else y # set_insert key x ys)"

text \<open>\<open>erase\<close> by key, and the number of elements it removes (0 or 1).\<close>

fun set_erase :: "('a \<Rightarrow> 'k) \<Rightarrow> 'k \<Rightarrow> 'a list \<Rightarrow> 'a list" where
  "set_erase key k [] = []"
| "set_erase key k (x # xs) = (if key x = k then xs else x # set_erase key k xs)"

definition set_erase_count :: "('a \<Rightarrow> 'k) \<Rightarrow> 'k \<Rightarrow> 'a list \<Rightarrow> nat" where
  "set_erase_count key k xs = (if set_contains key k xs then 1 else 0)"

lemma set_contains_iff: "set_contains key k xs \<longleftrightarrow> k \<in> key ` set xs"
  by (induction xs) auto

lemma set_insert_present:
  "ordered_by key xs \<Longrightarrow> key x \<in> key ` set xs \<Longrightarrow> set_insert key x xs = xs"
  by (induction xs) auto

lemma set_insert_absent:
  "key x \<notin> key ` set xs \<Longrightarrow> set (set_insert key x xs) = insert x (set xs)"
  by (induction xs) auto

lemma set_insert_subset: "set (set_insert key x xs) \<subseteq> insert x (set xs)"
  by (induction xs) auto

lemma ordered_by_insert: "ordered_by key xs \<Longrightarrow> ordered_by key (set_insert key x xs)"
proof (induction xs)
  case (Cons y ys)
  then show ?case
    using set_insert_subset [of key x ys] by (auto dest: order.strict_trans)
qed simp

lemma set_set_erase: "ordered_by key xs \<Longrightarrow> set (set_erase key k xs) = {x \<in> set xs. key x \<noteq> k}"
  by (induction xs) auto

lemma set_erase_subset: "set (set_erase key k xs) \<subseteq> set xs"
  by (induction xs) auto

lemma ordered_by_erase: "ordered_by key xs \<Longrightarrow> ordered_by key (set_erase key k xs)"
  using set_erase_subset by (induction xs) fastforce+

lemma set_erase_absent: "k \<notin> key ` set xs \<Longrightarrow> set_erase key k xs = xs"
  by (induction xs) auto

lemma length_set_insert:
  "ordered_by key xs \<Longrightarrow>
   length (set_insert key x xs) = (if set_contains key (key x) xs then length xs else Suc (length xs))"
  by (induction xs) (auto simp: set_contains_iff)

lemma length_set_erase: "length (set_erase key k xs) = length xs - set_erase_count key k xs"
  by (induction xs)
    (auto simp: set_erase_count_def set_contains_iff dest!: length_pos_if_in_set)

lemma erase_insert_present:
  assumes "ordered_by id xs" and "x \<in> set xs"
  shows "set_insert id x (set_erase id x xs) = xs"
proof (rule ordered_by_set_eq [of id])
  have "x \<notin> set (set_erase id x xs)"
    using assms by (simp add: set_set_erase)
  then show "set (set_insert id x (set_erase id x xs)) = set xs"
    using assms by (subst set_insert_absent) (auto simp: set_set_erase)
qed (use assms in \<open>auto intro: ordered_by_insert ordered_by_erase\<close>)

section \<open>std::map\<close>

type_synonym ('k, 'v) std_map = "('k \<times> 'v) list"

fun map_find :: "'k \<Rightarrow> ('k, 'v) std_map \<Rightarrow> 'v option" where
  "map_find k [] = None"
| "map_find k ((j, v) # m) = (if j = k then Some v else map_find k m)"

definition map_contains :: "'k \<Rightarrow> ('k, 'v) std_map \<Rightarrow> bool" where
  "map_contains k m = (map_find k m \<noteq> None)"

text \<open>Assignment through \<open>operator[]\<close>: overwrite the value of the key, or insert it in order.\<close>

fun map_put :: "'k::linorder \<Rightarrow> 'v \<Rightarrow> ('k, 'v) std_map \<Rightarrow> ('k, 'v) std_map" where
  "map_put k v [] = [(k, v)]"
| "map_put k v ((j, w) # m) =
     (if k < j then (k, v) # (j, w) # m
      else if k = j then (k, v) # m
      else (j, w) # map_put k v m)"

definition map_erase :: "'k \<Rightarrow> ('k, 'v) std_map \<Rightarrow> ('k, 'v) std_map" where
  "map_erase k m = set_erase fst k m"

definition map_wf :: "('k::linorder, 'v) std_map \<Rightarrow> bool" where
  "map_wf m = ordered_by fst m"

lemma map_find_map_of: "map_find k m = map_of m k"
  by (induction m) auto

lemma map_find_Some_in: "map_find k m = Some v \<Longrightarrow> (k, v) \<in> set m"
  by (simp add: map_find_map_of map_of_SomeD)

lemma map_find_iff: "map_wf m \<Longrightarrow> map_find k m = Some v \<longleftrightarrow> (k, v) \<in> set m"
  using ordered_by_distinct [of fst m] by (simp add: map_wf_def map_find_map_of)

lemma map_find_None: "map_find k m = None \<longleftrightarrow> k \<notin> fst ` set m"
  by (simp add: map_find_map_of map_of_eq_None_iff)

lemma map_contains_iff: "map_contains k m \<longleftrightarrow> k \<in> fst ` set m"
  by (simp add: map_contains_def map_find_None)

lemma map_find_put:
  "map_wf m \<Longrightarrow> map_find j (map_put k v m) = (if j = k then Some v else map_find j m)"
  by (induction m) (auto simp: map_wf_def map_find_None split: if_splits)

lemma map_put_keys: "fst ` set (map_put k v m) = insert k (fst ` set m)"
  by (induction k v m rule: map_put.induct) (simp_all add: insert_commute)

lemma map_wf_put: "map_wf m \<Longrightarrow> map_wf (map_put k v m)"
proof (induction m)
  case (Cons a m)
  obtain j w where a: "a = (j, w)" by (cases a)
  have "\<forall>y\<in>set (map_put k v m). j < fst y" if "j < k"
    using that Cons.prems map_put_keys [of k v m] unfolding a map_wf_def
    by (metis (no_types, lifting) fst_conv image_eqI insert_iff image_iff ordered_by_Cons)
  then show ?case
    using Cons unfolding a by (auto simp: map_wf_def)
qed (simp add: map_wf_def)

lemma map_find_erase:
  "map_wf m \<Longrightarrow> map_find j (map_erase k m) = (if j = k then None else map_find j m)"
  by (induction m) (auto simp: map_wf_def map_erase_def map_find_None split: if_splits)

lemma map_wf_erase: "map_wf m \<Longrightarrow> map_wf (map_erase k m)"
  by (simp add: map_wf_def map_erase_def ordered_by_erase)

lemma length_map_put:
  "map_wf m \<Longrightarrow> length (map_put k v m) = (if map_contains k m then length m else Suc (length m))"
proof (induction k v m rule: map_put.induct)
  case (2 k v j w m)
  then have "k < j \<Longrightarrow> k \<notin> fst ` set m"
    by (auto simp: map_wf_def dest: order.strict_trans)
  with 2 show ?case
    by (auto simp: map_contains_def map_find_None map_wf_def split: if_splits)
qed (simp add: map_contains_def)

section \<open>The contracts the clients use\<close>

text \<open>
  A set of elements that are equivalent when their keys are equal. \<open>elems_refresh\<close> is the
  erase-then-insert of an element the tracker uses to refresh an address.
\<close>

locale keyed_set =
  fixes key :: "'e \<Rightarrow> 'k"
    and elems :: "'s \<Rightarrow> 'e set"
    and contains :: "'k \<Rightarrow> 's \<Rightarrow> bool"
    and ins :: "'e \<Rightarrow> 's \<Rightarrow> 's"
    and era :: "'k \<Rightarrow> 's \<Rightarrow> 's"
    and valid :: "'s \<Rightarrow> bool"
  assumes contains_elems: "valid s \<Longrightarrow> contains k s \<longleftrightarrow> k \<in> key ` elems s"
    and ins_valid: "valid s \<Longrightarrow> valid (ins e s)"
    and era_valid: "valid s \<Longrightarrow> valid (era k s)"
    and elems_ins: "valid s \<Longrightarrow>
      elems (ins e s) = (if key e \<in> key ` elems s then elems s else insert e (elems s))"
    and elems_era: "valid s \<Longrightarrow> elems (era k s) = {e \<in> elems s. key e \<noteq> k}"
    and key_unique: "valid s \<Longrightarrow> inj_on key (elems s)"
begin

lemma contains_ins: "valid s \<Longrightarrow> contains k (ins e s) \<longleftrightarrow> k = key e \<or> contains k s"
  by (auto simp: contains_elems ins_valid elems_ins)

lemma contains_era: "valid s \<Longrightarrow> contains k (era j s) \<longleftrightarrow> k \<noteq> j \<and> contains k s"
  by (auto simp: contains_elems era_valid elems_era)

lemma elems_refresh:
  "valid s \<Longrightarrow> elems (ins e (era (key e) s)) = insert e {x \<in> elems s. key x \<noteq> key e}"
  by (subst elems_ins) (auto simp: era_valid elems_era)

lemma era_ins_absent: "valid s \<Longrightarrow> \<not> contains (key e) s \<Longrightarrow> elems (era (key e) (ins e s)) = elems s"
  by (auto simp: contains_elems ins_valid elems_era elems_ins image_iff)

end

text \<open>A map, and how a property of all its entries passes through its operations.\<close>

locale keyed_map =
  fixes find :: "'k \<Rightarrow> 'm \<Rightarrow> 'v option"
    and put :: "'k \<Rightarrow> 'v \<Rightarrow> 'm \<Rightarrow> 'm"
    and era :: "'k \<Rightarrow> 'm \<Rightarrow> 'm"
    and valid :: "'m \<Rightarrow> bool"
  assumes find_put: "valid m \<Longrightarrow> find j (put k v m) = (if j = k then Some v else find j m)"
    and find_era: "valid m \<Longrightarrow> find j (era k m) = (if j = k then None else find j m)"
    and put_valid: "valid m \<Longrightarrow> valid (put k v m)"
    and era_valid: "valid m \<Longrightarrow> valid (era k m)"
begin

lemma all_put:
  assumes "valid m" and "\<And>j w. find j m = Some w \<Longrightarrow> P j w" and "P k v"
    and "find j (put k v m) = Some w"
  shows "P j w"
  using assms by (auto simp: find_put split: if_splits)

lemma all_era:
  assumes "valid m" and "\<And>j w. find j m = Some w \<Longrightarrow> P j w" and "find j (era k m) = Some w"
  shows "P j w"
  using assms by (auto simp: find_era split: if_splits)

lemma find_put_put: "valid m \<Longrightarrow> find j (put k w (put k v m)) = find j (put k w m)"
  by (simp add: find_put put_valid)

lemma find_era_put: "valid m \<Longrightarrow> find j (era k (put k v m)) = find j (era k m)"
  by (simp add: find_era find_put put_valid)

end

interpretation ord_set: keyed_set key set "set_contains key" "set_insert key" "set_erase key"
    "ordered_by key" for key :: "'a \<Rightarrow> 'k::linorder"
  by unfold_locales
    (auto simp: set_contains_iff ordered_by_insert ordered_by_erase set_insert_present
      set_insert_absent set_set_erase inj_on_def dest: ordered_by_unique_key)

interpretation ord_map: keyed_map map_find map_put map_erase map_wf
  by unfold_locales (simp_all add: map_find_put map_find_erase map_wf_put map_wf_erase)

end
