(* ===== verification/Ethernet_Address.thy ===== *)
theory Ethernet_Address
  imports Std_Containers "HOL-Library.List_Lexorder"
begin

unbundle bit_operations_syntax

text \<open>
  \<open>ethernet::Address\<close> (include/monkas/ethernet/Address.hpp, src/ethernet/Address.cpp): six bytes
  in a \<open>std::array\<close>, compared lexicographically, and their text in hexadecimal. A
  \<open>std::array<uint8_t, N>\<close> is a list of bytes; \<open>eth_wf\<close> says that it has the array's length.
\<close>

section \<open>The address\<close>

definition ADDR_LEN :: nat where
  "ADDR_LEN = 6"

datatype eth_address = Eth_Address (eth_bytes: "u8 list")

definition eth_wf :: "eth_address \<Rightarrow> bool" where
  "eth_wf a \<longleftrightarrow> length (eth_bytes a) = ADDR_LEN"

definition eth_default :: eth_address where
  "eth_default = Eth_Address (replicate ADDR_LEN 0)"

definition eth_allZeroes :: "eth_address \<Rightarrow> bool" where
  "eth_allZeroes a = list_all (\<lambda>byte. byte = 0) (eth_bytes a)"

definition eth_isBroadcast :: "eth_address \<Rightarrow> bool" where
  "eth_isBroadcast a = list_all (\<lambda>byte. byte = 0xFF) (eth_bytes a)"

definition eth_less_eq :: "eth_address \<Rightarrow> eth_address \<Rightarrow> bool" where
  "eth_less_eq a b \<longleftrightarrow> eth_bytes a \<le> eth_bytes b"

definition eth_less :: "eth_address \<Rightarrow> eth_address \<Rightarrow> bool" where
  "eth_less a b \<longleftrightarrow> eth_bytes a < eth_bytes b"

instantiation eth_address :: linorder
begin

definition less_eq_eth_address :: "eth_address \<Rightarrow> eth_address \<Rightarrow> bool" where
  "a \<le> b \<longleftrightarrow> eth_less_eq a b"

definition less_eth_address :: "eth_address \<Rightarrow> eth_address \<Rightarrow> bool" where
  "a < b \<longleftrightarrow> eth_less a b"

instance
  by standard
    (auto simp: less_eq_eth_address_def less_eth_address_def eth_less_eq_def eth_less_def
      eth_address.expand)

end

section \<open>Printing\<close>

text \<open>
  \<open>toString\<close> writes into a 17-character buffer at a running index \<open>idx\<close>; \<open>i\<close> counts the octets
  so that no colon follows the last one. A write outside the buffer would be undefined
  behaviour, which the model reports as \<open>Out_of_bounds\<close>.
\<close>

definition buf_write :: "string \<Rightarrow> nat \<Rightarrow> char \<Rightarrow> failure + string" where
  "buf_write buf idx c = (if idx < length buf then Inr (buf[idx := c]) else Inl Out_of_bounds)"

fun eth_toString_loop :: "u8 list \<Rightarrow> string \<Rightarrow> nat \<Rightarrow> nat \<Rightarrow> failure + string" where
  "eth_toString_loop [] buf idx i = Inr buf"
| "eth_toString_loop (octet # octets) buf idx i =
     res_bind (buf_write buf idx (hex_digit (unat (drop_bit 4 octet)))) (\<lambda>buf.
     res_bind (buf_write buf (idx + 1) (hex_digit (unat (octet AND 0xF)))) (\<lambda>buf.
     if i < ADDR_LEN - 1
     then res_bind (buf_write buf (idx + 2) CHR '':'') (\<lambda>buf.
          eth_toString_loop octets buf (idx + 3) (i + 1))
     else eth_toString_loop octets buf (idx + 2) (i + 1)))"

definition eth_toString :: "eth_address \<Rightarrow> failure + string" where
  "eth_toString a = eth_toString_loop (eth_bytes a) (replicate 17 CHR 0x00) 0 0"

section \<open>Lemmas\<close>

lemma eth_wf_default: "eth_wf eth_default"
  by (simp add: eth_wf_def eth_default_def)

lemma hi_nibble: "unat (drop_bit 4 (b :: u8)) = unat b div 16"
  by (simp add: drop_bit_eq_div unat_div)

lemma lo_nibble: "unat ((b :: u8) AND 0xF) = unat b mod 16"
proof -
  have "b AND 0xF = take_bit 4 b"
    by (simp add: take_bit_eq_mask mask_eq_exp_minus_1)
  then show ?thesis
    by (simp add: take_bit_eq_mod unat_mod)
qed

text \<open>The text the loop has written so far, and what each octet adds to it.\<close>

lemma buf_write_append: "buf_write (pre @ x # rest) (length pre) c = Inr (pre @ c # rest)"
  by (simp add: buf_write_def)

lemma buf_write_append2:
  "buf_write (pre @ x # y # rest) (Suc (length pre)) c = Inr (pre @ x # c # rest)"
  using buf_write_append [of "pre @ [x]" y rest c] by simp

lemma buf_write_append3:
  "buf_write (pre @ x # y # z # rest) (Suc (Suc (length pre))) c = Inr (pre @ x # y # c # rest)"
  using buf_write_append [of "pre @ [x, y]" z rest c] by simp

lemmas buf_writes = buf_write_append buf_write_append2 buf_write_append3

lemma eth_toString_loop_writes:
  "i + length bs = ADDR_LEN \<Longrightarrow> bs \<noteq> [] \<Longrightarrow> length rest = 3 * length bs - 1 \<Longrightarrow>
   eth_toString_loop bs (pre @ rest) (length pre) i = Inr (pre @ join '':'' (map hex2 bs))"
proof (induction bs arbitrary: pre rest i)
  case (Cons b bs)
  then obtain x y rest' where rest: "rest = x # y # rest'"
    and len: "length rest' = 3 * length bs"
    by (cases rest; cases "tl rest") (auto split: if_splits)
  show ?case
  proof (cases bs)
    case Nil
    with Cons.prems(1) len show ?thesis
      unfolding rest by (simp add: buf_writes ADDR_LEN_def hi_nibble lo_nibble hex2_def)
  next
    case bs: (Cons b' bs')
    with len obtain z rest'' where rest': "rest' = z # rest''"
      and len': "length rest'' = 3 * length bs - 1"
      by (cases rest') auto
    have i: "i < ADDR_LEN - 1"
      using bs Cons.prems by auto
    let ?pre = "pre @ hex2 b @ '':''"
    have "eth_toString_loop bs (?pre @ rest'') (length ?pre) (i + 1) = Inr (?pre @ join '':'' (map hex2 bs))"
      by (rule Cons.IH) (use bs len' Cons.prems in auto)
    moreover have "bs \<noteq> []"
      using bs by simp
    then have "join '':'' (map hex2 (b # bs)) = hex2 b @ '':'' @ join '':'' (map hex2 bs)"
      by (simp add: join_Cons)
    ultimately show ?thesis
      using i unfolding rest rest'
      by (simp add: buf_writes hi_nibble lo_nibble hex2_def [of b] numeral_3_eq_3)
  qed
qed simp

lemma eth_toString_join:
  assumes "eth_wf a"
  shows "eth_toString a = Inr (join '':'' (map hex2 (eth_bytes a)))"
proof -
  have "length (eth_bytes a) = 6"
    using assms by (simp add: eth_wf_def ADDR_LEN_def)
  then show ?thesis
    using eth_toString_loop_writes [of 0 "eth_bytes a" "replicate 17 CHR 0x00" "[]"]
    by (force simp: eth_toString_def ADDR_LEN_def)
qed

section \<open>Properties\<close>

text \<open>
  On every six-byte address the buffer loop of \<open>ethernet::Address::toString\<close> stays inside its
  17 characters, fills all of them, and writes the octets as two hexadecimal digits each,
  separated by colons.
\<close>

theorem eth_toString_spec:
  assumes "eth_wf a"
  shows "eth_toString a = Inr (join '':'' (map hex2 (eth_bytes a))) \<and>
    length (join '':'' (map hex2 (eth_bytes a))) = 17"
proof
  show "eth_toString a = Inr (join '':'' (map hex2 (eth_bytes a)))"
    using assms by (rule eth_toString_join)
  have "length (eth_bytes a) = 6"
    using assms by (simp add: eth_wf_def ADDR_LEN_def)
  then show "length (join '':'' (map hex2 (eth_bytes a))) = 17"
    using length_join_fixed [of "map hex2 (eth_bytes a)" 2 "'':''"] by force
qed

theorem eth_toString_spec_witness:
  "eth_toString (Eth_Address [1, 2, 3, 4, 5, 0x1A]) = Inr ''01:02:03:04:05:1a''"
  using eth_toString_spec [of "Eth_Address [1, 2, 3, 4, 5, 0x1A]"]
  by (simp add: eth_wf_def ADDR_LEN_def hex2_def hex_digit_def hex_digits_def)

text \<open>
  The text identifies the address: two six-byte addresses with the same \<open>toString\<close> are equal,
  so nothing is lost when an address is logged.
\<close>

theorem eth_toString_injective:
  assumes "eth_wf a" and "eth_wf b" and "eth_toString a = eth_toString b"
  shows "a = b"
proof -
  have len: "length (eth_bytes a) = ADDR_LEN" "length (eth_bytes b) = ADDR_LEN"
    using assms by (simp_all add: eth_wf_def)
  have "join '':'' (map hex2 (eth_bytes a)) = join '':'' (map hex2 (eth_bytes b))"
    using assms by (simp add: eth_toString_join)
  then have "map hex2 (eth_bytes a) = map hex2 (eth_bytes b)"
    by (rule join_inj_fixed [where k = 2]) (use len in auto)
  then have "eth_bytes a = eth_bytes b"
    by (rule map_injective) (simp add: inj_def hex2_inj)
  then show ?thesis
    by (rule eth_address.expand)
qed

theorem eth_toString_injective_witness:
  "eth_toString (Eth_Address [1, 2, 3, 4, 5, 6]) \<noteq> eth_toString (Eth_Address [1, 2, 3, 4, 5, 7])"
  using eth_toString_injective [of "Eth_Address [1, 2, 3, 4, 5, 6]" "Eth_Address [1, 2, 3, 4, 5, 7]"]
  by (auto simp: eth_wf_def ADDR_LEN_def)

end
