(* ===== verification/IP_Address.thy ===== *)
theory IP_Address
  imports Std_Containers "HOL-Library.List_Lexorder" "HOL-Library.Product_Lexorder"
begin

unbundle bit_operations_syntax

text \<open>
  \<open>ip::Address\<close> (include/monkas/ip/Address.hpp, src/ip/Address.cpp): a \<open>std::variant\<close> of the
  four bytes of an IPv4 and the sixteen bytes of an IPv6 address, the predicates that classify
  it, its order, and its text. The text conversions \<open>inet_ntop\<close> and \<open>inet_pton\<close> of the C library
  are the parameter \<open>inet_api\<close>; what the code relies on of them is the locale \<open>inet_text\<close>.
\<close>

section \<open>The address\<close>

datatype Family = IPv4 | IPv6

definition AF_UNSPEC :: int where "AF_UNSPEC = 0"
definition AF_INET :: int where "AF_INET = 2"
definition AF_INET6 :: int where "AF_INET6 = 10"

fun asLinuxAf :: "Family \<Rightarrow> int" where
  "asLinuxAf IPv4 = AF_INET"
| "asLinuxAf IPv6 = AF_INET6"

fun Family_text :: "Family \<Rightarrow> string" where
  "Family_text IPv4 = ''inet''"
| "Family_text IPv6 = ''inet6''"

definition IPV4_ADDR_LEN :: nat where "IPV4_ADDR_LEN = 4"
definition IPV6_ADDR_LEN :: nat where "IPV6_ADDR_LEN = 16"

datatype ip_address = V4 (ip_bytes: "u8 list") | V6 (ip_bytes: "u8 list")

fun ip_wf :: "ip_address \<Rightarrow> bool" where
  "ip_wf (V4 addr) = (length addr = IPV4_ADDR_LEN)"
| "ip_wf (V6 addr) = (length addr = IPV6_ADDR_LEN)"

text \<open>The default constructor value-initialises the first alternative: 0.0.0.0.\<close>

definition ip_default :: ip_address where
  "ip_default = V4 (replicate IPV4_ADDR_LEN 0)"

definition ip_isV4 :: "ip_address \<Rightarrow> bool" where
  "ip_isV4 a = (case a of V4 _ \<Rightarrow> True | V6 _ \<Rightarrow> False)"

definition ip_isV6 :: "ip_address \<Rightarrow> bool" where
  "ip_isV6 a = (case a of V4 _ \<Rightarrow> False | V6 _ \<Rightarrow> True)"

fun ip_family :: "ip_address \<Rightarrow> Family" where
  "ip_family (V4 _) = IPv4"
| "ip_family (V6 _) = IPv6"

fun ip_isMulticast :: "ip_address \<Rightarrow> bool" where
  "ip_isMulticast (V4 addr) = (addr ! 0 \<ge> 224 \<and> addr ! 0 \<le> 239)"
| "ip_isMulticast (V6 addr) = (addr ! 0 = 0xff)"

fun ip_isUnicastLinkLocal :: "ip_address \<Rightarrow> bool" where
  "ip_isUnicastLinkLocal (V4 addr) = (addr ! 0 = 169 \<and> addr ! 1 = 254)"
| "ip_isUnicastLinkLocal (V6 addr) = (addr ! 0 = 0xfe \<and> addr ! 1 AND 0xc0 = 0x80)"

definition ip_isUniqueLocal :: "ip_address \<Rightarrow> bool" where
  "ip_isUniqueLocal a = (if \<not> ip_isV6 a then False else ip_bytes a ! 0 AND 0xFE = 0xFC)"

fun ip_isLoopback :: "ip_address \<Rightarrow> bool" where
  "ip_isLoopback (V4 addr) = (addr ! 0 = 127)"
| "ip_isLoopback (V6 addr) =
     (list_all (\<lambda>b. b = 0) (butlast addr) \<and> addr ! (IPV6_ADDR_LEN - 1) = 1)"

definition ip_isBroadcast :: "ip_address \<Rightarrow> bool" where
  "ip_isBroadcast a = (if \<not> ip_isV4 a then False else list_all (\<lambda>byte. byte = 0xFF) (ip_bytes a))"

text \<open>
  The defaulted \<open>operator<=>\<close> of the variant compares the index of the alternative first, then
  the bytes lexicographically.
\<close>

fun ip_index :: "ip_address \<Rightarrow> nat" where
  "ip_index (V4 _) = 0"
| "ip_index (V6 _) = 1"

definition ip_less_eq :: "ip_address \<Rightarrow> ip_address \<Rightarrow> bool" where
  "ip_less_eq a b \<longleftrightarrow> (ip_index a, ip_bytes a) \<le> (ip_index b, ip_bytes b)"

definition ip_less :: "ip_address \<Rightarrow> ip_address \<Rightarrow> bool" where
  "ip_less a b \<longleftrightarrow> (ip_index a, ip_bytes a) < (ip_index b, ip_bytes b)"

lemmas ip_order_defs = ip_less_eq_def ip_less_def

instantiation ip_address :: linorder
begin

definition less_eq_ip_address :: "ip_address \<Rightarrow> ip_address \<Rightarrow> bool" where
  "a \<le> b \<longleftrightarrow> ip_less_eq a b"

definition less_ip_address :: "ip_address \<Rightarrow> ip_address \<Rightarrow> bool" where
  "a < b \<longleftrightarrow> ip_less a b"

instance
proof
  fix a b :: ip_address
  show "a \<le> b \<Longrightarrow> b \<le> a \<Longrightarrow> a = b"
    by (cases a; cases b) (auto simp: less_eq_ip_address_def ip_order_defs)
qed (auto simp: less_eq_ip_address_def less_ip_address_def ip_order_defs)

end

section \<open>Text\<close>

text \<open>
  \<open>inet_pton af src\<close> is the parsed bytes when the C function returns 1. \<open>inet_ntop af bytes
  size\<close> is the text it writes into a buffer of that size, \<open>None\<close> when it fails and leaves the
  zeroed buffer as it was.
\<close>

record inet_api =
  inet_pton :: "int \<Rightarrow> string \<Rightarrow> u8 list option"
  inet_ntop :: "int \<Rightarrow> u8 list \<Rightarrow> nat \<Rightarrow> string option"

definition INET_ADDRSTRLEN :: nat where "INET_ADDRSTRLEN = 16"
definition INET6_ADDRSTRLEN :: nat where "INET6_ADDRSTRLEN = 46"

definition ntop_text :: "string option \<Rightarrow> string" where
  "ntop_text r = (case r of None \<Rightarrow> [] | Some s \<Rightarrow> c_str s)"

fun ip_toString :: "inet_api \<Rightarrow> ip_address \<Rightarrow> string" where
  "ip_toString I (V4 addr) = ntop_text (inet_ntop I AF_INET addr INET_ADDRSTRLEN)"
| "ip_toString I (V6 addr) = ntop_text (inet_ntop I AF_INET6 addr INET6_ADDRSTRLEN)"

definition ip_fromString :: "inet_api \<Rightarrow> string \<Rightarrow> failure + ip_address" where
  "ip_fromString I address =
     (case inet_pton I AF_INET (c_str address) of
        Some addr \<Rightarrow> Inr (V4 addr)
      | None \<Rightarrow>
          (case inet_pton I AF_INET6 (c_str address) of
             Some addr \<Rightarrow> Inr (V6 addr)
           | None \<Rightarrow> Inl (Invalid_argument (''Failed to parse address '' @ [CHR 0x27] @ address @ [CHR 0x27]
                        @ '': Invalid format or unsupported address family''))))"

section \<open>What the code relies on of the C library\<close>

text \<open>
  The documented behaviour: \<open>inet_pton\<close> writes as many bytes as the family has, a buffer of
  \<open>INET_ADDRSTRLEN\<close> or \<open>INET6_ADDRSTRLEN\<close> characters is large enough for every address, the
  text of an address reads back as that address, and the text of an IPv6 address is no
  dotted-decimal IPv4 address.
\<close>

locale inet_text =
  fixes I :: inet_api
  assumes pton4_length: "inet_pton I AF_INET s = Some addr \<Longrightarrow> length addr = IPV4_ADDR_LEN"
    and pton6_length: "inet_pton I AF_INET6 s = Some addr \<Longrightarrow> length addr = IPV6_ADDR_LEN"
    and ntop4: "length addr = IPV4_ADDR_LEN \<Longrightarrow>
      \<exists>s. inet_ntop I AF_INET addr INET_ADDRSTRLEN = Some s \<and> CHR 0x00 \<notin> set s \<and>
          inet_pton I AF_INET s = Some addr"
    and ntop6: "length addr = IPV6_ADDR_LEN \<Longrightarrow>
      \<exists>s. inet_ntop I AF_INET6 addr INET6_ADDRSTRLEN = Some s \<and> CHR 0x00 \<notin> set s \<and>
          inet_pton I AF_INET6 s = Some addr \<and> inet_pton I AF_INET s = None"
begin

lemma fromString_wf: "ip_fromString I s = Inr a \<Longrightarrow> ip_wf a"
  by (auto simp: ip_fromString_def dest: pton4_length pton6_length split: option.splits)

lemma fromString_toString: "ip_wf a \<Longrightarrow> ip_fromString I (ip_toString I a) = Inr a"
  by (cases a) (auto simp: ip_fromString_def ntop_text_def c_str_id dest!: ntop4 ntop6)

lemma fromString_fails:
  "(\<exists>e. ip_fromString I s = Inl e) \<longleftrightarrow>
   inet_pton I AF_INET (c_str s) = None \<and> inet_pton I AF_INET6 (c_str s) = None"
  by (auto simp: ip_fromString_def split: option.splits)

end

section \<open>Network prefixes\<close>

text \<open>
  The specification of the predicates: membership in a network, by comparing the leading bits
  of the big-endian value of the address.
\<close>

fun be_value :: "u8 list \<Rightarrow> nat" where
  "be_value [] = 0"
| "be_value (b # bs) = unat b * 256 ^ length bs + be_value bs"

definition in_network :: "ip_address \<Rightarrow> ip_address \<Rightarrow> nat \<Rightarrow> bool" where
  "in_network a net plen \<longleftrightarrow>
     ip_family a = ip_family net \<and>
     be_value (ip_bytes a) div 2 ^ (8 * length (ip_bytes net) - plen) =
     be_value (ip_bytes net) div 2 ^ (8 * length (ip_bytes net) - plen)"

lemma be_value_bound: "be_value bs < 256 ^ length bs"
proof (induction bs)
  case (Cons b bs)
  have "unat b * 256 ^ length bs + be_value bs < (unat b + 1) * 256 ^ length bs"
    using Cons by simp
  also have "\<dots> \<le> 256 * 256 ^ length bs"
    using unat_u8_bound [of b] by (intro mult_right_mono) auto
  finally show ?case by simp
qed simp

lemma be_value_append: "be_value (xs @ ys) = be_value xs * 256 ^ length ys + be_value ys"
  by (induction xs) (auto simp: algebra_simps power_add)

lemma be_value_prefix: "be_value (xs @ ys) div 2 ^ (8 * length ys + k) = be_value xs div 2 ^ k"
proof -
  have "(2::nat) ^ (8 * length ys + k) = 256 ^ length ys * 2 ^ k"
    by (simp add: power_add power_mult)
  then have "be_value (xs @ ys) div 2 ^ (8 * length ys + k)
      = be_value (xs @ ys) div 256 ^ length ys div 2 ^ k"
    by (simp add: div_mult2_eq)
  also have "be_value (xs @ ys) div 256 ^ length ys = be_value xs"
    using be_value_bound [of ys] by (simp add: be_value_append)
  finally show ?thesis .
qed

lemma digit_unique:
  fixes a b p r s :: nat
  assumes "a * p + r = b * p + s" and "r < p" and "s < p"
  shows "a = b" and "r = s"
proof -
  have "(a * p + r) div p = a" and "(b * p + s) div p = b"
    using assms(2,3) by simp_all
  then show "a = b"
    using assms(1) by metis
  then show "r = s"
    using assms(1) by simp
qed

lemma be_value_inj: "length xs = length ys \<Longrightarrow> be_value xs = be_value ys \<Longrightarrow> xs = ys"
proof (induction xs ys rule: list_induct2)
  case (Cons x xs y ys)
  note digits = digit_unique [of "unat x" "256 ^ length xs" "be_value xs" "unat y" "be_value ys"]
  have "unat x = unat y" and "be_value xs = be_value ys"
    using digits be_value_bound [of xs] be_value_bound [of ys] Cons.prems Cons.hyps
    by simp_all
  then show ?case
    using Cons.IH by (simp add: word_unat_eq_iff)
qed simp

text \<open>Splitting the bytes of an address where a prefix ends.\<close>

lemma V4_bytes: "length addr = IPV4_ADDR_LEN \<Longrightarrow> \<exists>a b c d. addr = [a, b, c, d]"
  by (auto simp: IPV4_ADDR_LEN_def length_Suc_conv eval_nat_numeral)

lemma V6_bytes: "length addr = IPV6_ADDR_LEN \<Longrightarrow> \<exists>a b rest. addr = a # b # rest \<and> length rest = 14"
  by (auto simp: IPV6_ADDR_LEN_def length_Suc_conv eval_nat_numeral)

lemma in_network_families [simp]: "\<not> in_network (V4 x) (V6 y) plen" "\<not> in_network (V6 x) (V4 y) plen"
  by (simp_all add: in_network_def)

text \<open>A prefix of at most eight or sixteen bits looks at the first one or two bytes.\<close>

lemma be_value_first:
  assumes "length x = n" and "k \<le> 8"
  shows "be_value (a # x) div 2 ^ (8 * Suc n - k) = unat a div 2 ^ (8 - k)"
proof -
  have "8 * Suc n - k = 8 * length x + (8 - k)"
    using assms by simp
  then have "be_value (a # x) div 2 ^ (8 * Suc n - k) = be_value ([a] @ x) div 2 ^ (8 * length x + (8 - k))"
    by (simp only: append.simps)
  then show ?thesis
    unfolding be_value_prefix by simp
qed

lemma be_value_second:
  assumes "length x = n" and "k \<le> 16"
  shows "be_value (a # a' # x) div 2 ^ (8 * Suc (Suc n) - k) = (unat a * 256 + unat a') div 2 ^ (16 - k)"
proof -
  have "8 * Suc (Suc n) - k = 8 * length x + (16 - k)"
    using assms by simp
  then have "be_value (a # a' # x) div 2 ^ (8 * Suc (Suc n) - k)
      = be_value ([a, a'] @ x) div 2 ^ (8 * length x + (16 - k))"
    by (simp only: append.simps)
  then show ?thesis
    unfolding be_value_prefix by simp
qed

text \<open>The same as membership, for an address of each family.\<close>

lemma in_network_first:
  assumes "length x = length y" and "k \<le> 8"
  shows "in_network (V4 (a # x)) (V4 (b # y)) k \<longleftrightarrow> unat a div 2 ^ (8 - k) = unat b div 2 ^ (8 - k)"
    and "in_network (V6 (a # x)) (V6 (b # y)) k \<longleftrightarrow> unat a div 2 ^ (8 - k) = unat b div 2 ^ (8 - k)"
  using be_value_first [OF assms, of a] be_value_first [OF refl assms(2), where x = y and a = b]
  by (simp_all only: in_network_def ip_address.sel ip_family.simps list.size add_Suc_right add_0_right simp_thms)

lemma in_network_second:
  assumes "length x = length y" and "k \<le> 16"
  shows "in_network (V4 (a # a' # x)) (V4 (b # b' # y)) k \<longleftrightarrow>
      (unat a * 256 + unat a') div 2 ^ (16 - k) = (unat b * 256 + unat b') div 2 ^ (16 - k)"
    and "in_network (V6 (a # a' # x)) (V6 (b # b' # y)) k \<longleftrightarrow>
      (unat a * 256 + unat a') div 2 ^ (16 - k) = (unat b * 256 + unat b') div 2 ^ (16 - k)"
  using be_value_second [OF assms, of a a'] be_value_second [OF refl assms(2), where x = y and a = b and a' = b']
  by (simp_all only: in_network_def ip_address.sel ip_family.simps list.size add_Suc_right add_0_right simp_thms)

lemma in_network_full:
  assumes "length (ip_bytes a) = length (ip_bytes net)" and "ip_family a = ip_family net"
  shows "in_network a net (8 * length (ip_bytes net)) \<longleftrightarrow> a = net"
  using assms by (cases a; cases net) (auto simp: in_network_def dest: be_value_inj)

section \<open>Properties\<close>

text \<open>The networks of the predicates, as the address registries name them.\<close>

definition net6 :: "u8 \<Rightarrow> u8 \<Rightarrow> ip_address" where
  "net6 a b = V6 (a # b # replicate 14 0)"

lemmas network_facts = in_network_first in_network_second net6_def word_le_nat_alt word_unat_eq_iff

lemma u8_all:
  assumes "list_all (\<lambda>n. P (word_of_nat n)) [0..<256]"
  shows "P (b :: u8)"
proof -
  have "unat b \<in> set [0..<256]"
    using unat_u8_bound [of b] by simp
  with assms have "P (word_of_nat (unat b))"
    unfolding list_all_iff by (rule bspec)
  then show ?thesis by simp
qed

lemma and_c0: "unat ((b :: u8) AND 0xc0) = 128 \<longleftrightarrow> unat b div 64 = 2"
  by (rule u8_all [of _ b]) code_simp

lemma and_fe: "unat ((b :: u8) AND 0xFE) = 252 \<longleftrightarrow> unat b div 2 = 126"
  by (rule u8_all [of _ b]) code_simp

lemma two_bytes:
  "unat (a :: u8) * 256 + unat (b :: u8) = 43518 \<longleftrightarrow> unat a = 169 \<and> unat b = 254"
  "(unat a * 256 + unat b) div 64 = 1018 \<longleftrightarrow> unat a = 254 \<and> unat b div 64 = 2"
proof -
  show "unat a * 256 + unat b = 43518 \<longleftrightarrow> unat a = 169 \<and> unat b = 254"
    using digit_unique [of "unat a" 256 "unat b" 169 254] unat_u8_bound [of b] by auto
  have "unat b div 64 < 4"
    using unat_u8_bound [of b] by (simp add: less_mult_imp_div_less)
  moreover have "(unat a * 256 + unat b) div 64 = unat a * 4 + unat b div 64"
    using div_mult_self1 [of 64 "unat b" "unat a * 4"] by (simp add: add.commute)
  moreover have "A * 4 + d = 1018 \<longleftrightarrow> A = 254 \<and> d = 2" if "d < 4" for A d :: nat
    using that by presburger
  ultimately show "(unat a * 256 + unat b) div 64 = 1018 \<longleftrightarrow> unat a = 254 \<and> unat b div 64 = 2"
    by metis
qed

lemma multicast_network:
  "ip_wf a \<Longrightarrow> ip_isMulticast a \<longleftrightarrow> in_network a (V4 [224, 0, 0, 0]) 4 \<or> in_network a (net6 0xff 0) 8"
  by (cases a) (auto simp: network_facts dest!: V4_bytes V6_bytes)

lemma linkLocal_network:
  "ip_wf a \<Longrightarrow> ip_isUnicastLinkLocal a \<longleftrightarrow>
     in_network a (V4 [169, 254, 0, 0]) 16 \<or> in_network a (net6 0xfe 0x80) 10"
  by (cases a) (auto simp: network_facts and_c0 two_bytes dest!: V4_bytes V6_bytes)

lemma uniqueLocal_network: "ip_wf a \<Longrightarrow> ip_isUniqueLocal a \<longleftrightarrow> in_network a (net6 0xfc 0) 7"
  by (cases a) (auto simp: ip_isUniqueLocal_def ip_isV6_def network_facts and_fe dest!: V6_bytes)

lemma loopback_network:
  "ip_wf a \<Longrightarrow> ip_isLoopback a \<longleftrightarrow>
     in_network a (V4 [127, 0, 0, 0]) 8 \<or> in_network a (V6 (replicate 15 0 @ [1])) 128"
proof (cases a)
  case (V4 addr)
  moreover assume "ip_wf a"
  ultimately show ?thesis
    by (auto simp: network_facts dest!: V4_bytes)
next
  case (V6 addr)
  moreover assume "ip_wf a"
  ultimately have len: "length addr = 16"
    by (simp add: IPV6_ADDR_LEN_def)
  then obtain front b where addr: "addr = front @ [b]" and front: "length front = 15"
    by (cases addr rule: rev_cases) auto
  have "list_all (\<lambda>b. b = 0) front \<longleftrightarrow> front = replicate 15 0"
    using front by (auto simp: list_all_iff intro: replicate_eqI)
  then have "ip_isLoopback a \<longleftrightarrow> a = V6 (replicate 15 0 @ [1])"
    using front by (simp add: V6 addr IPV6_ADDR_LEN_def nth_append)
  also have "\<dots> \<longleftrightarrow> in_network a (V6 (replicate 15 0 @ [1])) 128"
    using in_network_full [of a "V6 (replicate 15 0 @ [1])"] len by (simp add: V6)
  finally show ?thesis by (simp add: V6)
qed

lemma broadcast_network: "ip_wf a \<Longrightarrow> ip_isBroadcast a \<longleftrightarrow> in_network a (V4 [255, 255, 255, 255]) 32"
proof (cases a)
  case (V4 addr)
  moreover assume "ip_wf a"
  ultimately obtain x y z w where addr: "addr = [x, y, z, w]"
    by (auto dest!: V4_bytes)
  then show ?thesis
    using in_network_full [of a "V4 [255, 255, 255, 255]"]
    by (auto simp: V4 ip_isBroadcast_def ip_isV4_def)
qed (simp add: ip_isBroadcast_def ip_isV4_def)

text \<open>
  (C21) The classification of an address is membership in the registered networks: multicast is
  224.0.0.0/4 and ff00::/8, unicast link-local 169.254.0.0/16 and fe80::/10, unique local
  fc00::/7, loopback 127.0.0.0/8 and ::1/128, broadcast 255.255.255.255/32. The masks and octet
  comparisons of the code test exactly the leading bits of those prefixes.
\<close>

theorem ip_classification_networks:
  assumes "ip_wf a"
  shows "(ip_isMulticast a \<longleftrightarrow> in_network a (V4 [224, 0, 0, 0]) 4 \<or> in_network a (net6 0xff 0) 8) \<and>
    (ip_isUnicastLinkLocal a \<longleftrightarrow> in_network a (V4 [169, 254, 0, 0]) 16 \<or> in_network a (net6 0xfe 0x80) 10) \<and>
    (ip_isUniqueLocal a \<longleftrightarrow> in_network a (net6 0xfc 0) 7) \<and>
    (ip_isLoopback a \<longleftrightarrow> in_network a (V4 [127, 0, 0, 0]) 8 \<or> in_network a (V6 (replicate 15 0 @ [1])) 128) \<and>
    (ip_isBroadcast a \<longleftrightarrow> in_network a (V4 [255, 255, 255, 255]) 32)"
  using assms multicast_network linkLocal_network uniqueLocal_network loopback_network broadcast_network
  by blast

theorem ip_classification_networks_witness:
  "ip_wf (net6 0xfe 0xbf) \<and> in_network (net6 0xfe 0xbf) (net6 0xfe 0x80) 10"
proof -
  have wf: "ip_wf (net6 0xfe 0xbf)"
    by (simp add: net6_def IPV6_ADDR_LEN_def)
  moreover have "ip_isUnicastLinkLocal (net6 0xfe 0xbf)"
    by (simp add: net6_def)
  ultimately show ?thesis
    using ip_classification_networks [OF wf] by (simp add: net6_def)
qed

end
