(* ===== verification/Inet_Reference.thy ===== *)
theory Inet_Reference
  imports IP_Address
begin

text \<open>
  A concrete \<open>inet_api\<close>: dotted-decimal text for IPv4, eight hexadecimal groups for IPv6. It
  follows the POSIX text forms without the \<open>::\<close> abbreviation, is shown to satisfy the locale
  \<open>inet_text\<close>, and is the instance the witnesses of the address properties evaluate. The
  program's own definitions take any \<open>inet_api\<close>.
\<close>

section \<open>Separated text\<close>

fun split_on :: "char \<Rightarrow> string \<Rightarrow> string list" where
  "split_on c [] = [[]]"
| "split_on c (x # xs) =
     (if x = c then [] # split_on c xs
      else case split_on c xs of [] \<Rightarrow> [[x]] | y # ys \<Rightarrow> (x # y) # ys)"

lemma split_on_plain: "c \<notin> set x \<Longrightarrow> split_on c x = [x]"
  by (induction x) auto

lemma split_on_sep: "c \<notin> set x \<Longrightarrow> split_on c (x @ c # ys) = x # split_on c ys"
  by (induction x) auto

lemma split_on_join:
  "xs \<noteq> [] \<Longrightarrow> \<forall>x\<in>set xs. c \<notin> set x \<Longrightarrow> split_on c (join [c] xs) = xs"
proof (induction xs)
  case (Cons x xs)
  then show ?case
    by (cases "xs = []") (auto simp: join_Cons split_on_plain split_on_sep)
qed simp

section \<open>The two text forms\<close>

definition digit_value :: "char \<Rightarrow> nat option" where
  "digit_value c =
     (let n = of_char c :: nat in
      if 48 \<le> n \<and> n \<le> 57 then Some (n - 48)
      else if 97 \<le> n \<and> n \<le> 102 then Some (n - 87)
      else if 65 \<le> n \<and> n \<le> 70 then Some (n - 55)
      else None)"

fun digits_value :: "nat \<Rightarrow> nat \<Rightarrow> string \<Rightarrow> nat option" where
  "digits_value base v [] = Some v"
| "digits_value base v (c # cs) =
     (case digit_value c of
        None \<Rightarrow> None
      | Some d \<Rightarrow> if d < base then digits_value base (base * v + d) cs else None)"

definition dec_octet :: "string \<Rightarrow> u8 option" where
  "dec_octet s =
     (if s = [] \<or> 3 < length s then None
      else case digits_value 10 0 s of
             None \<Rightarrow> None
           | Some v \<Rightarrow> if v < 256 then Some (word_of_nat v) else None)"

definition hex_group :: "string \<Rightarrow> u8 list option" where
  "hex_group s =
     (if s = [] \<or> 4 < length s then None
      else case digits_value 16 0 s of
             None \<Rightarrow> None
           | Some v \<Rightarrow> Some [word_of_nat (v div 256), word_of_nat (v mod 256)])"

fun all_some :: "'a option list \<Rightarrow> 'a list option" where
  "all_some [] = Some []"
| "all_some (x # xs) =
     (case x of None \<Rightarrow> None | Some y \<Rightarrow> (case all_some xs of None \<Rightarrow> None | Some ys \<Rightarrow> Some (y # ys)))"

fun byte_pairs :: "u8 list \<Rightarrow> string list" where
  "byte_pairs (a # b # bs) = (hex2 a @ hex2 b) # byte_pairs bs"
| "byte_pairs bs = []"

definition ref_pton :: "int \<Rightarrow> string \<Rightarrow> u8 list option" where
  "ref_pton af s =
     (if af = AF_INET then
        (let parts = split_on CHR ''.'' s
         in if length parts = 4 then all_some (map dec_octet parts) else None)
      else if af = AF_INET6 then
        (let parts = split_on CHR '':'' s
         in if length parts = 8 then map_option concat (all_some (map hex_group parts)) else None)
      else None)"

definition ref_ntop :: "int \<Rightarrow> u8 list \<Rightarrow> nat \<Rightarrow> string option" where
  "ref_ntop af addr sz =
     (let s = (if af = AF_INET then join ''.'' (map (\<lambda>b. dec_of_nat (unat b)) addr)
               else join '':'' (byte_pairs addr))
      in if length s < sz then Some s else None)"

definition ref_inet :: inet_api where
  "ref_inet = \<lparr>inet_pton = ref_pton, inet_ntop = ref_ntop\<rparr>"

section \<open>The laws\<close>

lemma digit_value_hex: "n < 16 \<Longrightarrow> digit_value (hex_digit n) = Some n"
proof -
  have "list_all (\<lambda>n. digit_value (hex_digit n) = Some n) [0..<16]"
    by code_simp
  then show "n < 16 \<Longrightarrow> digit_value (hex_digit n) = Some n"
    by (simp add: list_all_iff)
qed

lemma hex_digit_char: "n < 16 \<Longrightarrow> hex_digit n \<notin> {CHR ''.'', CHR '':'', CHR 0x00}"
proof -
  have "list_all (\<lambda>n. hex_digit n \<notin> {CHR ''.'', CHR '':'', CHR 0x00}) [0..<16]"
    by code_simp
  then show "n < 16 \<Longrightarrow> hex_digit n \<notin> {CHR ''.'', CHR '':'', CHR 0x00}"
    unfolding list_all_iff by simp
qed

lemma digits_value_append:
  "digits_value base v (xs @ ys) =
     (case digits_value base v xs of None \<Rightarrow> None | Some w \<Rightarrow> digits_value base w ys)"
  by (induction xs arbitrary: v) (auto split: option.splits)

lemma dec_of_nat_value: "digits_value 10 0 (dec_of_nat n) = Some n"
proof (induction n rule: dec_of_nat.induct)
  case (1 n)
  then show ?case
    by (subst dec_of_nat.simps) (simp add: digit_value_hex digits_value_append)
qed

lemma dec_of_nat_chars: "set (dec_of_nat n) \<inter> {CHR ''.'', CHR '':'', CHR 0x00} = {}"
proof (induction n rule: dec_of_nat.induct)
  case (1 n)
  have "n mod 10 < 16"
    using mod_less_divisor [of 10 n] by linarith
  then show ?case
    using 1 hex_digit_char [of n] hex_digit_char [of "n mod 10"]
    by (subst dec_of_nat.simps) auto
qed

lemma dec_of_nat_length: "n < 10 ^ k \<Longrightarrow> length (dec_of_nat n) \<le> max 1 k"
proof (induction k arbitrary: n)
  case (Suc k)
  show ?case
  proof (cases "n < 10")
    case False
    then have "length (dec_of_nat (n div 10)) \<le> max 1 k" and "1 \<le> k"
      using Suc.IH [of "n div 10"] Suc.prems by (auto simp: Suc_le_eq intro: gr0I)
    with False show ?thesis
      by (subst dec_of_nat.simps) auto
  qed (subst dec_of_nat.simps, simp)
qed (subst dec_of_nat.simps, simp)

lemma dec_of_nat_nonempty: "dec_of_nat n \<noteq> []"
  by (subst dec_of_nat.simps) simp

lemma octet_text:
  "dec_octet (dec_of_nat (unat (b :: u8))) = Some b \<and> length (dec_of_nat (unat b)) \<le> 3 \<and>
   CHR ''.'' \<notin> set (dec_of_nat (unat b)) \<and> CHR 0x00 \<notin> set (dec_of_nat (unat b))"
  using dec_of_nat_length [of "unat b" 3] dec_of_nat_chars [of "unat b"] unat_u8_bound [of b]
  by (auto simp: dec_octet_def dec_of_nat_value dec_of_nat_nonempty)

lemma hex2_text:
  "digits_value 16 v (hex2 b) = Some (256 * v + unat b)"
  "CHR ''.'' \<notin> set (hex2 b)" "CHR '':'' \<notin> set (hex2 b)" "CHR 0x00 \<notin> set (hex2 b)"
proof -
  have n: "unat b div 16 < 16" "unat b mod 16 < 16"
    using unat_u8_bound [of b] by auto
  then show "digits_value 16 v (hex2 b) = Some (256 * v + unat b)"
    by (simp add: hex2_def digit_value_hex algebra_simps)
  show "CHR ''.'' \<notin> set (hex2 b)" "CHR '':'' \<notin> set (hex2 b)" "CHR 0x00 \<notin> set (hex2 b)"
    using hex_digit_char [OF n(1)] hex_digit_char [OF n(2)] by (auto simp: hex2_def)
qed

lemma all_some_map: "(\<And>x. x \<in> set xs \<Longrightarrow> f x = Some (g x)) \<Longrightarrow> all_some (map f xs) = Some (map g xs)"
  by (induction xs) auto

lemma all_some_length: "all_some xs = Some ys \<Longrightarrow> length ys = length xs"
  by (induction xs arbitrary: ys) (auto split: option.splits)

lemma hex_group_pair: "hex_group (hex2 a @ hex2 b) = Some [a, b]"
  using unat_u8_bound [of a] unat_u8_bound [of b]
  by (simp add: hex_group_def digits_value_append hex2_text) (simp add: hex2_def)

lemma hex_groups_length:
  "all_some (map hex_group xs) = Some gs \<Longrightarrow> length (concat gs) = 2 * length xs"
  by (induction xs arbitrary: gs) (auto simp: hex_group_def split: option.splits if_splits)

lemma byte_pairs_groups:
  "even (length bs) \<Longrightarrow> map_option concat (all_some (map hex_group (byte_pairs bs))) = Some bs"
  by (induction bs rule: byte_pairs.induct) (auto simp: hex_group_pair split: option.splits)

lemma byte_pairs_shape:
  "even (length bs) \<Longrightarrow> length (byte_pairs bs) = length bs div 2"
  "\<forall>s\<in>set (byte_pairs bs). length s = 4 \<and> CHR ''.'' \<notin> set s \<and> CHR '':'' \<notin> set s \<and> CHR 0x00 \<notin> set s"
  by (induction bs rule: byte_pairs.induct) (auto simp: hex2_text)

lemma set_join: "set (join sep xs) \<subseteq> set sep \<union> (\<Union>x\<in>set xs. set x)"
  by (induction xs) (auto simp: join_Cons split: if_splits)

lemma length_join_le:
  "\<forall>x\<in>set xs. length x \<le> k \<Longrightarrow> length (join sep xs) \<le> length xs * (k + length sep)"
  by (induction xs) (auto simp: join_Cons)

lemma ref_pton4_text: "length addr = 4 \<Longrightarrow> ref_pton AF_INET (join ''.'' (map (\<lambda>b. dec_of_nat (unat b)) addr)) = Some addr"
proof -
  assume len: "length addr = 4"
  then have "split_on CHR ''.'' (join ''.'' (map (\<lambda>b. dec_of_nat (unat b)) addr)) = map (\<lambda>b. dec_of_nat (unat b)) addr"
    by (intro split_on_join) (auto simp: octet_text)
  moreover have "all_some (map (\<lambda>b. dec_octet (dec_of_nat (unat b))) addr) = Some (map (\<lambda>b. b) addr)"
    by (rule all_some_map) (simp add: octet_text)
  ultimately show ?thesis
    using len by (simp add: ref_pton_def o_def)
qed

lemma ref_pton6_text:
  assumes "length addr = 16"
  shows "ref_pton AF_INET6 (join '':'' (byte_pairs addr)) = Some addr"
    and "ref_pton AF_INET (join '':'' (byte_pairs addr)) = None"
proof -
  have ne: "byte_pairs addr \<noteq> []"
    using byte_pairs_shape(1) [of addr] assms by force
  have "split_on CHR '':'' (join '':'' (byte_pairs addr)) = byte_pairs addr"
    by (rule split_on_join) (use ne byte_pairs_shape(2) [of addr] in auto)
  then show "ref_pton AF_INET6 (join '':'' (byte_pairs addr)) = Some addr"
    using byte_pairs_shape(1) [of addr] byte_pairs_groups [of addr] assms
    by (simp add: ref_pton_def AF_INET_def AF_INET6_def)
  have "CHR ''.'' \<notin> set (join '':'' (byte_pairs addr))"
    using set_join [of "'':''" "byte_pairs addr"] byte_pairs_shape(2) [of addr] by fastforce
  then show "ref_pton AF_INET (join '':'' (byte_pairs addr)) = None"
    by (simp add: ref_pton_def split_on_plain)
qed

interpretation ref_inet: inet_text ref_inet
proof unfold_locales
  fix s addr
  show "inet_pton ref_inet AF_INET s = Some addr \<Longrightarrow> length addr = IPV4_ADDR_LEN"
    by (auto simp: ref_inet_def ref_pton_def IPV4_ADDR_LEN_def Let_def split: if_splits dest!: all_some_length)
  show "inet_pton ref_inet AF_INET6 s = Some addr \<Longrightarrow> length addr = IPV6_ADDR_LEN"
    by (auto simp: ref_inet_def ref_pton_def IPV6_ADDR_LEN_def AF_INET_def AF_INET6_def Let_def
        split: if_splits dest!: hex_groups_length)
next
  fix addr :: "u8 list"
  assume len: "length addr = IPV4_ADDR_LEN"
  let ?s = "join ''.'' (map (\<lambda>b. dec_of_nat (unat b)) addr)"
  have "length ?s < INET_ADDRSTRLEN"
  proof -
    obtain a b c d where "addr = [a, b, c, d]"
      using len by (auto dest!: V4_bytes)
    then show ?thesis
      using octet_text [of a] octet_text [of b] octet_text [of c] octet_text [of d]
      by (simp add: INET_ADDRSTRLEN_def)
  qed
  moreover have "CHR 0x00 \<notin> set ?s"
    using set_join [of "''.''" "map (\<lambda>b. dec_of_nat (unat b)) addr"] octet_text by fastforce
  ultimately show "\<exists>s. inet_ntop ref_inet AF_INET addr INET_ADDRSTRLEN = Some s \<and> CHR 0x00 \<notin> set s \<and>
      inet_pton ref_inet AF_INET s = Some addr"
    using ref_pton4_text [of addr] len by (simp add: ref_inet_def ref_ntop_def Let_def IPV4_ADDR_LEN_def)
next
  fix addr :: "u8 list"
  assume "length addr = IPV6_ADDR_LEN"
  then have len: "length addr = 16"
    by (simp add: IPV6_ADDR_LEN_def)
  let ?s = "join '':'' (byte_pairs addr)"
  have "length ?s \<le> length (byte_pairs addr) * (4 + length '':'')"
    using byte_pairs_shape(2) [of addr] by (intro length_join_le) auto
  then have "length ?s < INET6_ADDRSTRLEN"
    using byte_pairs_shape(1) [of addr] len by (simp add: INET6_ADDRSTRLEN_def)
  moreover have "CHR 0x00 \<notin> set ?s"
    using set_join [of "'':''" "byte_pairs addr"] byte_pairs_shape(2) [of addr] by fastforce
  ultimately show "\<exists>s. inet_ntop ref_inet AF_INET6 addr INET6_ADDRSTRLEN = Some s \<and> CHR 0x00 \<notin> set s \<and>
      inet_pton ref_inet AF_INET6 s = Some addr \<and> inet_pton ref_inet AF_INET s = None"
    using ref_pton6_text [OF len]
    by (simp add: ref_inet_def ref_ntop_def Let_def AF_INET_def AF_INET6_def)
qed

section \<open>Properties\<close>

text \<open>
  \<open>fromString\<close> returns only addresses with the array length of their family, and throws
  \<open>invalid_argument\<close> exactly when the text before the first NUL is an address of neither family.
\<close>

theorem ip_fromString_total:
  assumes "inet_text I"
  shows "(case ip_fromString I s of
      Inr a \<Rightarrow> ip_wf a
    | Inl e \<Rightarrow> (\<exists>msg. e = Invalid_argument msg) \<and>
        inet_pton I AF_INET (c_str s) = None \<and> inet_pton I AF_INET6 (c_str s) = None)"
proof (cases "ip_fromString I s")
  case (Inl e)
  then show ?thesis by (auto simp: ip_fromString_def split: option.splits)
next
  case (Inr a)
  then show ?thesis using inet_text.fromString_wf [OF assms] by simp
qed

theorem ip_fromString_total_witness:
  "\<exists>msg. ip_fromString ref_inet ''garbage'' = Inl (Invalid_argument msg)"
proof -
  have "inet_pton ref_inet AF_INET ''garbage'' = None \<and> inet_pton ref_inet AF_INET6 ''garbage'' = None"
    by (simp add: ref_inet_def ref_pton_def)
  then have "\<not> (\<exists>a. ip_fromString ref_inet ''garbage'' = Inr a)"
    by (simp add: ip_fromString_def c_str_def)
  then show ?thesis
    using ip_fromString_total [OF ref_inet.inet_text_axioms, of "''garbage''"]
    by (cases "ip_fromString ref_inet ''garbage''") auto
qed

end
