(* ===== verification/Network_Interface.thy ===== *)
theory Network_Interface
  imports Std_Containers
begin

text \<open>
  \<open>network::Interface\<close> (include/monkas/network/Interface.hpp, src/network/Interface.cpp): the
  index and the name of a network interface. Interfaces are compared by index alone, so a renamed
  interface is equal to itself and a \<open>std::set<Interface>\<close> holds one entry per index. The two
  calls into the operating system are the parameter \<open>if_api\<close>.
\<close>

section \<open>The interface\<close>

record interface =
  if_index :: u32
  if_name :: string

definition if_equal :: "interface \<Rightarrow> interface \<Rightarrow> bool" where
  "if_equal a b \<longleftrightarrow> if_index a = if_index b"

definition if_less :: "interface \<Rightarrow> interface \<Rightarrow> bool" where
  "if_less a b \<longleftrightarrow> if_index a < if_index b"

definition if_text :: "interface \<Rightarrow> string" where
  "if_text i = dec_of_nat (unat (if_index i)) @ '': '' @ if_name i @ '':''"

text \<open>\<open>std::set<network::Interface>\<close>\<close>

type_synonym interfaces = "interface list"

definition interfaces_wf :: "interfaces \<Rightarrow> bool" where
  "interfaces_wf s = ordered_by if_index s"

definition interfaces_contains :: "interface \<Rightarrow> interfaces \<Rightarrow> bool" where
  "interfaces_contains i s = set_contains if_index (if_index i) s"

definition interfaces_emplace :: "u32 \<Rightarrow> string \<Rightarrow> interfaces \<Rightarrow> interfaces" where
  "interfaces_emplace index name s = set_insert if_index \<lparr>if_index = index, if_name = name\<rparr> s"

section \<open>Lookup by name and by index\<close>

text \<open>
  \<open>if_nametoindex\<close> gives the index, 0 with \<open>errno\<close> on failure; \<open>if_indextoname\<close> gives the name,
  or the \<open>errno\<close> of a null result.
\<close>

record if_api =
  if_nametoindex :: "string \<Rightarrow> u32 \<times> int"
  if_indextoname :: "u32 \<Rightarrow> int + string"

definition if_fromName :: "if_api \<Rightarrow> string \<Rightarrow> failure + interface" where
  "if_fromName os name =
     (case if_nametoindex os (c_str name) of
        (idx, err) \<Rightarrow>
          if idx = 0
          then Inl (System_error err (''if_nametoindex('' @ [CHR 0x22] @ name @ [CHR 0x22] @ '') failed''))
          else Inr \<lparr>if_index = idx, if_name = name\<rparr>)"

definition if_fromIndex :: "if_api \<Rightarrow> u32 \<Rightarrow> failure + interface" where
  "if_fromIndex os index =
     (case if_indextoname os index of
        Inl err \<Rightarrow> Inl (System_error err (''if_indextoname('' @ dec_of_nat (unat index) @ '') failed''))
      | Inr intfName \<Rightarrow> Inr \<lparr>if_index = index, if_name = c_str intfName\<rparr>)"

text \<open>The two calls describe one table of interfaces, in which no name is bound to index 0.\<close>

definition if_api_consistent :: "if_api \<Rightarrow> bool" where
  "if_api_consistent os \<longleftrightarrow>
     (\<forall>name idx err. if_nametoindex os name = (idx, err) \<longrightarrow> idx \<noteq> 0 \<longrightarrow> if_indextoname os idx = Inr name)"

section \<open>Properties\<close>

lemma interfaces_contains_iff: "interfaces_contains i s \<longleftrightarrow> if_index i \<in> if_index ` set s"
  by (simp add: interfaces_contains_def set_contains_iff)

lemma interfaces_wf_emplace: "interfaces_wf s \<Longrightarrow> interfaces_wf (interfaces_emplace index name s)"
  by (simp add: interfaces_wf_def interfaces_emplace_def ordered_by_insert)

text \<open>
  Looking an interface up by name and its index up again gives the same interface, and both
  lookups throw \<open>system_error\<close> with the \<open>errno\<close> of the call that failed.
\<close>

theorem if_lookup_roundtrip:
  assumes "if_api_consistent os" and "CHR 0x00 \<notin> set name"
  shows "(case if_fromName os name of
      Inr i \<Rightarrow> if_name i = name \<and> if_index i \<noteq> 0 \<and> if_fromIndex os (if_index i) = Inr i
    | Inl e \<Rightarrow> \<exists>msg. e = System_error (snd (if_nametoindex os name)) msg)"
  using assms
  by (auto simp: if_fromName_def if_fromIndex_def if_api_consistent_def c_str_id split: prod.splits)

definition ref_if_api :: if_api where
  "ref_if_api =
     \<lparr>if_nametoindex = (\<lambda>name. if name = ''lo'' then (1, 0) else if name = ''eth0'' then (2, 0) else (0, 19)),
      if_indextoname = (\<lambda>idx. if idx = 1 then Inr ''lo'' else if idx = 2 then Inr ''eth0'' else Inl 6)\<rparr>"

theorem if_lookup_roundtrip_witness:
  "if_fromIndex ref_if_api 2 = Inr \<lparr>if_index = 2, if_name = ''eth0''\<rparr>"
proof -
  have "if_api_consistent ref_if_api"
    by (auto simp: if_api_consistent_def ref_if_api_def split: if_splits)
  moreover have "if_fromName ref_if_api ''eth0'' = Inr \<lparr>if_index = 2, if_name = ''eth0''\<rparr>"
    by (simp add: if_fromName_def ref_if_api_def c_str_def)
  ultimately show ?thesis
    using if_lookup_roundtrip [of ref_if_api "''eth0''"] by simp
qed

text \<open>
  A set of interfaces is keyed by index: \<open>contains\<close> and \<open>emplace\<close> do not look at the name, an
  entry that is present keeps the name it was first inserted with, and any other index is
  unaffected.
\<close>

theorem interfaces_keyed_by_index:
  assumes "interfaces_wf s"
  shows "(interfaces_contains i (interfaces_emplace index name s) \<longleftrightarrow>
      if_index i = index \<or> interfaces_contains i s) \<and>
    (index \<in> if_index ` set s \<longrightarrow> interfaces_emplace index name s = s) \<and>
    interfaces_wf (interfaces_emplace index name s)"
proof -
  let ?e = "\<lparr>if_index = index, if_name = name\<rparr>"
  have "interfaces_contains i (interfaces_emplace index name s) \<longleftrightarrow>
      if_index i = index \<or> interfaces_contains i s"
    using assms ord_set.contains_ins [where key = if_index and s = s and e = ?e]
    by (simp add: interfaces_wf_def interfaces_contains_def interfaces_emplace_def)
  moreover have "index \<in> if_index ` set s \<longrightarrow> interfaces_emplace index name s = s"
    using assms set_insert_present [of if_index s ?e]
    by (simp add: interfaces_wf_def interfaces_emplace_def)
  ultimately show ?thesis
    using assms interfaces_wf_emplace by blast
qed

theorem interfaces_keyed_by_index_witness:
  "interfaces_emplace 1 ''renamed'' [\<lparr>if_index = 1, if_name = ''some''\<rparr>] = [\<lparr>if_index = 1, if_name = ''some''\<rparr>]"
  using interfaces_keyed_by_index [of "[\<lparr>if_index = 1, if_name = ''some''\<rparr>]" _ 1 "''renamed''"]
  by (simp add: interfaces_wf_def)

end
