(* ===== verification/Netlink_Attributes.thy ===== *)
theory Netlink_Attributes
  imports Ethernet_Address IP_Address
begin

text \<open>
  \<open>monitor::Attributes\<close> (src/monitor/Attributes.hpp, src/monitor/Attributes.cpp): the attributes
  of one netlink message, collected by type into a vector of pointers, and the typed getters over
  it. The library \<open>libmnl\<close> that walks, validates and reads the attributes is the parameter
  \<open>libmnl\<close>; what the code relies on of it is the locale \<open>mnl_attributes\<close>.
\<close>

section \<open>Messages, attributes and libmnl\<close>

record nlmsghdr =
  nlmsg_type :: u16
  nlmsg_flags :: u16
  nlmsg_seq :: u32
  nlmsg_pid :: u32
  nlmsg_payload :: "u8 list"

record nlattr =
  nla_type :: u16
  nla_payload :: "u8 list"

datatype mnl_attr_data_type =
  MNL_TYPE_UNSPEC | MNL_TYPE_U8 | MNL_TYPE_U16 | MNL_TYPE_U32 | MNL_TYPE_U64 | MNL_TYPE_STRING

definition MNL_CB_ERROR :: int where "MNL_CB_ERROR = -1"
definition MNL_CB_STOP :: int where "MNL_CB_STOP = 0"
definition MNL_CB_OK :: int where "MNL_CB_OK = 1"

text \<open>
  \<open>mnl_attrs n offset\<close> is the sequence of attributes \<open>mnl_attr_parse\<close> visits in message \<open>n\<close>
  behind \<open>offset\<close> bytes of header. \<open>mnl_attr_get_str\<close> is the C string at the payload, wherever it ends: the
  code does not ask for a NUL within it, and what a text without one runs into is not modelled.
\<close>

record libmnl =
  mnl_attrs :: "nlmsghdr \<Rightarrow> u32 \<Rightarrow> nlattr list"
  mnl_attr_get_type :: "nlattr \<Rightarrow> u16"
  mnl_attr_type_valid :: "nlattr \<Rightarrow> u16 \<Rightarrow> int"
  mnl_attr_validate :: "nlattr \<Rightarrow> mnl_attr_data_type \<Rightarrow> int"
  mnl_attr_validate2 :: "nlattr \<Rightarrow> mnl_attr_data_type \<Rightarrow> nat \<Rightarrow> int"
  mnl_attr_get_str :: "nlattr \<Rightarrow> string"
  mnl_attr_get_u8 :: "nlattr \<Rightarrow> u8"
  mnl_attr_get_u16 :: "nlattr \<Rightarrow> u16"
  mnl_attr_get_u32 :: "nlattr \<Rightarrow> u32"
  mnl_attr_get_u64 :: "nlattr \<Rightarrow> u64"
  mnl_attr_get_payload :: "nlattr \<Rightarrow> u8 list"

section \<open>The attribute vector\<close>

text \<open>\<open>std::vector<const nlattr*>\<close>, with \<open>None\<close> for the null pointer.\<close>

type_synonym attrs = "nlattr option list"

definition attrs_has :: "attrs \<Rightarrow> u16 \<Rightarrow> bool" where
  "attrs_has attrs type \<longleftrightarrow> unat type < length attrs \<and> attrs ! unat type \<noteq> None"

definition getTypedAttribute ::
  "libmnl \<Rightarrow> attrs \<Rightarrow> u16 \<Rightarrow> mnl_attr_data_type \<Rightarrow> (nlattr \<Rightarrow> 'a) \<Rightarrow> 'a option" where
  "getTypedAttribute M attrs type mnlType getter =
     (if \<not> attrs_has attrs type then None
      else let attr = the (attrs ! unat type) in
        if mnl_attr_validate M attr mnlType < 0 then None
        else Some (getter attr))"

text \<open>
  The payload is copied into an array of \<open>n\<close> bytes with \<open>copy_n\<close>; reading past its end is
  reported as \<open>Out_of_bounds\<close>.
\<close>

definition getPayload :: "libmnl \<Rightarrow> nat \<Rightarrow> attrs \<Rightarrow> u16 \<Rightarrow> failure + u8 list option" where
  "getPayload M n attrs type =
     (if \<not> attrs_has attrs type then Inr None
      else let attr = the (attrs ! unat type) in
        if mnl_attr_validate2 M attr MNL_TYPE_UNSPEC n < 0 then Inr None
        else let payload = mnl_attr_get_payload M attr in
          if length payload < n then Inl Out_of_bounds
          else Inr (Some (take n payload)))"

section \<open>Parsing\<close>

text \<open>The vector with the two statistics counters the callback increments.\<close>

type_synonym parse_state = "attrs \<times> u64 \<times> u64"

definition parseAttribute :: "libmnl \<Rightarrow> nlattr \<Rightarrow> parse_state \<Rightarrow> failure + parse_state" where
  "parseAttribute M a st =
     (case st of (attrs, seenCounter, unknownCounter) \<Rightarrow>
        let type = mnl_attr_get_type M a;
            maxType = (word_of_nat (length attrs - 1) :: u16);
            typeValid = mnl_attr_type_valid M a maxType
        in if typeValid > 0
           then (if unat type < length attrs
                 then Inr (attrs[unat type := Some a], seenCounter + 1, unknownCounter)
                 else Inl Out_of_bounds)
           else Inr (attrs, seenCounter, unknownCounter + 1))"

definition dispatchMnlAttributeCallback ::
  "libmnl \<Rightarrow> nlattr \<Rightarrow> parse_state \<Rightarrow> failure + (int \<times> parse_state)" where
  "dispatchMnlAttributeCallback M attr st =
     res_bind (parseAttribute M attr st) (\<lambda>st. Inr (MNL_CB_OK, st))"

text \<open>\<open>mnl_attr_parse\<close> calls the callback on each attribute while it returns more than
  \<open>MNL_CB_STOP\<close>.\<close>

fun mnl_attr_parse ::
  "(nlattr \<Rightarrow> 's \<Rightarrow> failure + (int \<times> 's)) \<Rightarrow> nlattr list \<Rightarrow> 's \<Rightarrow> failure + 's" where
  "mnl_attr_parse cb [] st = Inr st"
| "mnl_attr_parse cb (a # as) st =
     res_bind (cb a st) (\<lambda>(ret, st). if ret \<le> MNL_CB_STOP then Inr st else mnl_attr_parse cb as st)"

definition Attributes_parse ::
  "libmnl \<Rightarrow> nlmsghdr \<Rightarrow> u32 \<Rightarrow> u16 \<Rightarrow> u64 \<Rightarrow> u64 \<Rightarrow> failure + parse_state" where
  "Attributes_parse M n offset maxType seenCounter unknownCounter =
     mnl_attr_parse (dispatchMnlAttributeCallback M) (mnl_attrs M n offset)
       (replicate (unat maxType + 1) None, seenCounter, unknownCounter)"

section \<open>Getters\<close>

definition getString :: "libmnl \<Rightarrow> attrs \<Rightarrow> u16 \<Rightarrow> string option" where
  "getString M as type = getTypedAttribute M as type MNL_TYPE_STRING (mnl_attr_get_str M)"

definition getU8 :: "libmnl \<Rightarrow> attrs \<Rightarrow> u16 \<Rightarrow> u8 option" where
  "getU8 M as type = getTypedAttribute M as type MNL_TYPE_U8 (mnl_attr_get_u8 M)"

definition getU16 :: "libmnl \<Rightarrow> attrs \<Rightarrow> u16 \<Rightarrow> u16 option" where
  "getU16 M as type = getTypedAttribute M as type MNL_TYPE_U16 (mnl_attr_get_u16 M)"

definition getU32 :: "libmnl \<Rightarrow> attrs \<Rightarrow> u16 \<Rightarrow> u32 option" where
  "getU32 M as type = getTypedAttribute M as type MNL_TYPE_U32 (mnl_attr_get_u32 M)"

definition getU64 :: "libmnl \<Rightarrow> attrs \<Rightarrow> u16 \<Rightarrow> u64 option" where
  "getU64 M as type = getTypedAttribute M as type MNL_TYPE_U64 (mnl_attr_get_u64 M)"

definition getEthernetAddress :: "libmnl \<Rightarrow> attrs \<Rightarrow> u16 \<Rightarrow> failure + eth_address option" where
  "getEthernetAddress M as type =
     res_bind (getPayload M ADDR_LEN as type) (\<lambda>arr. Inr (map_option Eth_Address arr))"

definition getIpV6Address :: "libmnl \<Rightarrow> attrs \<Rightarrow> u16 \<Rightarrow> failure + ip_address option" where
  "getIpV6Address M as type =
     res_bind (getPayload M IPV6_ADDR_LEN as type) (\<lambda>arr. Inr (map_option V6 arr))"

definition getIpV4Address :: "libmnl \<Rightarrow> attrs \<Rightarrow> u16 \<Rightarrow> failure + ip_address option" where
  "getIpV4Address M as type =
     res_bind (getPayload M IPV4_ADDR_LEN as type) (\<lambda>arr. Inr (map_option V4 arr))"

section \<open>What the code relies on of libmnl\<close>

text \<open>
  The documented behaviour: \<open>mnl_attr_type_valid\<close> is positive exactly for types up to the maximum,
  and \<open>mnl_attr_validate2\<close> with an expected length refuses an attribute of another length.
\<close>

locale mnl_attributes =
  fixes M :: libmnl
  assumes type_valid_iff: "0 < mnl_attr_type_valid M a maxType \<longleftrightarrow> mnl_attr_get_type M a \<le> maxType"
    and validate2_length: "0 \<le> mnl_attr_validate2 M a MNL_TYPE_UNSPEC n \<Longrightarrow> 0 < n \<Longrightarrow>
      length (mnl_attr_get_payload M a) = n"
begin

lemma getPayload_ok:
  assumes "0 < n"
  shows "\<exists>r. getPayload M n as t = Inr r \<and> (\<forall>bs. r = Some bs \<longrightarrow> length bs = n)"
proof (cases "attrs_has as t \<and> 0 \<le> mnl_attr_validate2 M (the (as ! unat t)) MNL_TYPE_UNSPEC n")
  case True
  then show ?thesis
    using validate2_length [OF _ assms, of "the (as ! unat t)"] by (auto simp: getPayload_def Let_def)
next
  case False
  then show ?thesis
    by (auto simp: getPayload_def Let_def)
qed

lemma getEthernetAddress_ok: "\<exists>r. getEthernetAddress M as t = Inr r \<and> pred_option eth_wf r"
  using getPayload_ok [of ADDR_LEN as t]
  by (auto simp: getEthernetAddress_def ADDR_LEN_def eth_wf_def pred_option_def)

lemma getIpV4Address_ok: "\<exists>r. getIpV4Address M as t = Inr r \<and> pred_option ip_wf r \<and> pred_option ip_isV4 r"
  using getPayload_ok [of IPV4_ADDR_LEN as t]
  by (auto simp: getIpV4Address_def IPV4_ADDR_LEN_def ip_isV4_def pred_option_def)

lemma getIpV6Address_ok: "\<exists>r. getIpV6Address M as t = Inr r \<and> pred_option ip_wf r \<and> pred_option ip_isV6 r"
  using getPayload_ok [of IPV6_ADDR_LEN as t]
  by (auto simp: getIpV6Address_def IPV6_ADDR_LEN_def ip_isV6_def pred_option_def)

lemma parseAttribute_ok:
  assumes "length as = unat (maxType :: u16) + 1"
  shows "parseAttribute M a (as, seen, unknown) =
    (if mnl_attr_get_type M a \<le> maxType
     then Inr (as[unat (mnl_attr_get_type M a) := Some a], seen + 1, unknown)
     else Inr (as, seen, unknown + 1))"
  using assms by (simp add: parseAttribute_def Let_def type_valid_iff word_le_nat_alt)

lemma parse_step:
  assumes "length as = unat (maxType :: u16) + 1"
  shows "mnl_attr_parse (dispatchMnlAttributeCallback M) (a # xs) (as, seen, unknown) =
    (if mnl_attr_get_type M a \<le> maxType
     then mnl_attr_parse (dispatchMnlAttributeCallback M) xs
       (as[unat (mnl_attr_get_type M a) := Some a], seen + 1, unknown)
     else mnl_attr_parse (dispatchMnlAttributeCallback M) xs (as, seen, unknown + 1))"
  by (simp add: dispatchMnlAttributeCallback_def [of M a] parseAttribute_ok [OF assms]
      MNL_CB_OK_def MNL_CB_STOP_def)

text \<open>The vector and the counters after the attributes \<open>xs\<close> were visited.\<close>

lemma parse_loop:
  assumes "length as = unat (maxType :: u16) + 1"
  shows "\<exists>as'. mnl_attr_parse (dispatchMnlAttributeCallback M) xs (as, seen, unknown) =
      Inr (as', seen + word_of_nat (length (filter (\<lambda>a. mnl_attr_get_type M a \<le> maxType) xs)),
           unknown + word_of_nat (length (filter (\<lambda>a. \<not> mnl_attr_get_type M a \<le> maxType) xs))) \<and>
    length as' = length as \<and>
    (\<forall>t \<le> maxType. as' ! unat t =
      (case filter (\<lambda>a. mnl_attr_get_type M a = t) xs of [] \<Rightarrow> as ! unat t | ys \<Rightarrow> Some (last ys)))"
  using assms
proof (induction xs arbitrary: as seen unknown)
  case (Cons a xs)
  let ?t = "mnl_attr_get_type M a"
  show ?case
  proof (cases "?t \<le> maxType")
    case True
    let ?as = "as[unat ?t := Some a]"
    have "length ?as = unat maxType + 1"
      using Cons.prems by simp
    from Cons.IH [OF this, of "seen + 1" unknown] obtain as' where IH:
      "mnl_attr_parse (dispatchMnlAttributeCallback M) xs (?as, seen + 1, unknown) =
         Inr (as', seen + 1 + word_of_nat (length (filter (\<lambda>a. mnl_attr_get_type M a \<le> maxType) xs)),
           unknown + word_of_nat (length (filter (\<lambda>a. \<not> mnl_attr_get_type M a \<le> maxType) xs)))"
      "length as' = length ?as"
      "\<forall>t \<le> maxType. as' ! unat t =
        (case filter (\<lambda>a. mnl_attr_get_type M a = t) xs of [] \<Rightarrow> ?as ! unat t | ys \<Rightarrow> Some (last ys))"
      by blast
    have "unat ?t < length as"
      using True Cons.prems by (simp add: word_le_nat_alt)
    then have "?as ! unat t = (if t = ?t then Some a else as ! unat t)" for t
      by (auto simp: nth_list_update word_unat_eq_iff)
    with IH True show ?thesis
      unfolding parse_step [OF Cons.prems]
      by (intro exI [of _ as']) (auto simp: add.assoc split: list.splits)
  next
    case False
    have "t \<noteq> ?t" if "t \<le> maxType" for t
      using that False by auto
    with False Cons.IH [OF Cons.prems, of seen "unknown + 1"] show ?thesis
      unfolding parse_step [OF Cons.prems]
      by (fastforce simp: add.assoc)
  qed
qed simp

end

end
