(* ===== verification/Netlink_Wire.thy ===== *)
theory Netlink_Wire
  imports Netlink_Attributes
begin

unbundle bit_operations_syntax

text \<open>
  A concrete \<open>libmnl\<close> over the little-endian wire format of netlink attributes: a four-byte header
  (length, type) before each payload, padded to four bytes. It is shown to satisfy the locale
  \<open>mnl_attributes\<close> and is the instance the witnesses evaluate; the program's own definitions take
  any \<open>libmnl\<close>. The properties of \<open>Attributes\<close> close the theory.
\<close>

section \<open>The wire format\<close>

fun le_value :: "u8 list \<Rightarrow> nat" where
  "le_value [] = 0"
| "le_value (b # bs) = unat b + 256 * le_value bs"

definition align4 :: "nat \<Rightarrow> nat" where
  "align4 n = (n + 3) div 4 * 4"

lemma align4_ge: "n \<le> align4 n"
  by (simp add: align4_def)

function wire_attrs :: "u8 list \<Rightarrow> nlattr list" where
  "wire_attrs bs =
     (let len = le_value (take 2 bs) in
      if length bs < 4 \<or> len < 4 \<or> length bs < len then []
      else \<lparr>nla_type = word_of_nat (le_value (take 2 (drop 2 bs))), nla_payload = take (len - 4) (drop 4 bs)\<rparr>
             # wire_attrs (drop (align4 len) bs))"
  by pat_completeness auto
termination
proof (relation "measure length")
  fix bs :: "u8 list" and len
  assume "\<not> (length bs < 4 \<or> len < 4 \<or> length bs < len)"
  moreover have "0 < align4 len" if "4 \<le> len"
    using align4_ge [of len] that by linarith
  ultimately show "(drop (align4 len) bs, bs) \<in> measure length"
    by auto
qed simp

declare wire_attrs.simps [simp del]

definition wire_type :: "nlattr \<Rightarrow> u16" where
  "wire_type a = nla_type a AND 0x3fff"

fun type_length :: "mnl_attr_data_type \<Rightarrow> nat" where
  "type_length MNL_TYPE_U8 = 1"
| "type_length MNL_TYPE_U16 = 2"
| "type_length MNL_TYPE_U32 = 4"
| "type_length MNL_TYPE_U64 = 8"
| "type_length _ = 0"

definition wire_validate2 :: "nlattr \<Rightarrow> mnl_attr_data_type \<Rightarrow> nat \<Rightarrow> int" where
  "wire_validate2 a type n =
     (if length (nla_payload a) < n \<or> (type = MNL_TYPE_STRING \<and> nla_payload a = []) \<or>
         (0 < n \<and> n < length (nla_payload a))
      then -1 else 0)"

definition wire_mnl :: libmnl where
  "wire_mnl =
     \<lparr>mnl_attrs = (\<lambda>n offset. wire_attrs (drop (align4 (unat offset)) (nlmsg_payload n))),
      mnl_attr_get_type = wire_type,
      mnl_attr_type_valid = (\<lambda>a maxType. if maxType < wire_type a then -1 else 1),
      mnl_attr_validate = (\<lambda>a type. wire_validate2 a type (type_length type)),
      mnl_attr_validate2 = wire_validate2,
      mnl_attr_get_str = (\<lambda>a. map (\<lambda>b. char_of (unat b)) (takeWhile (\<lambda>b. b \<noteq> 0) (nla_payload a))),
      mnl_attr_get_u8 = (\<lambda>a. word_of_nat (le_value (take 1 (nla_payload a)))),
      mnl_attr_get_u16 = (\<lambda>a. word_of_nat (le_value (take 2 (nla_payload a)))),
      mnl_attr_get_u32 = (\<lambda>a. word_of_nat (le_value (take 4 (nla_payload a)))),
      mnl_attr_get_u64 = (\<lambda>a. word_of_nat (le_value (take 8 (nla_payload a)))),
      mnl_attr_get_payload = nla_payload\<rparr>"

interpretation wire: mnl_attributes wire_mnl
  by unfold_locales (auto simp: wire_mnl_def wire_validate2_def not_less split: if_splits)

section \<open>Properties of Attributes\<close>

text \<open>
  (C19) \<open>Attributes::parse\<close> never writes outside its vector, whatever the message holds. The vector
  has one slot per type up to \<open>maxType\<close>, and a slot holds the last attribute of its type in the
  message, or null when there is none. Every attribute of the message is counted once, as seen
  when its type is at most \<open>maxType\<close> and as unknown otherwise.
\<close>

theorem Attributes_parse_spec:
  assumes "mnl_attributes M"
  shows "\<exists>attrs. Attributes_parse M n offset maxType seen unknown =
      Inr (attrs,
        seen + word_of_nat (length (filter (\<lambda>a. mnl_attr_get_type M a \<le> maxType) (mnl_attrs M n offset))),
        unknown + word_of_nat (length (filter (\<lambda>a. \<not> mnl_attr_get_type M a \<le> maxType) (mnl_attrs M n offset)))) \<and>
    length attrs = unat maxType + 1 \<and>
    (\<forall>t \<le> maxType. attrs ! unat t =
      (case filter (\<lambda>a. mnl_attr_get_type M a = t) (mnl_attrs M n offset) of
         [] \<Rightarrow> None
       | xs \<Rightarrow> Some (last xs)))"
proof -
  have "replicate (unat maxType + 1) None ! unat t = None" if "t \<le> maxType" for t
    using that by (simp add: word_le_nat_alt del: replicate_Suc replicate.simps)
  then show ?thesis
    using mnl_attributes.parse_loop [OF assms, of "replicate (unat maxType + 1) None" maxType
        "mnl_attrs M n offset" seen unknown]
    unfolding Attributes_parse_def by (fastforce split: list.splits)
qed

definition sample_attrs :: nlmsghdr where
  "sample_attrs =
     \<lparr>nlmsg_type = 16, nlmsg_flags = 0, nlmsg_seq = 0, nlmsg_pid = 0,
      nlmsg_payload = [5, 0, 2, 0, 7, 0, 0, 0,  5, 0, 9, 0, 1, 0, 0, 0,  5, 0, 2, 0, 8]\<rparr>"

lemma sample_attrs_wire:
  "mnl_attrs wire_mnl sample_attrs 0 =
     [\<lparr>nla_type = 2, nla_payload = [7]\<rparr>, \<lparr>nla_type = 9, nla_payload = [1]\<rparr>,
      \<lparr>nla_type = 2, nla_payload = [8]\<rparr>]"
  by code_simp

theorem Attributes_parse_spec_witness:
  "\<exists>attrs. Attributes_parse wire_mnl sample_attrs 0 3 0 0 = Inr (attrs, 2, 1) \<and>
     attrs ! 2 = Some \<lparr>nla_type = 2, nla_payload = [8]\<rparr> \<and> attrs ! 3 = None"
proof -
  have types: "mnl_attr_get_type wire_mnl = wire_type"
    by (simp add: wire_mnl_def)
  obtain attrs where "Attributes_parse wire_mnl sample_attrs 0 3 0 0 = Inr (attrs, 2, 1)"
    and all: "\<forall>t \<le> 3. attrs ! unat t =
      (case filter (\<lambda>a. mnl_attr_get_type wire_mnl a = t) (mnl_attrs wire_mnl sample_attrs 0) of
         [] \<Rightarrow> None
       | xs \<Rightarrow> Some (last xs))"
    using Attributes_parse_spec [OF wire.mnl_attributes_axioms, of sample_attrs 0 3 0 0]
    by (auto simp: sample_attrs_wire types wire_type_def)
  moreover have "attrs ! 2 = Some \<lparr>nla_type = 2, nla_payload = [8]\<rparr>" and "attrs ! 3 = None"
    using all [rule_format, of 2] all [rule_format, of 3]
    by (simp_all add: sample_attrs_wire types wire_type_def)
  ultimately show ?thesis by blast
qed

text \<open>
  (C20) The address getters never read past the payload of an attribute, and what they return has the
  length of its array and the family asked for: six bytes for an Ethernet address, four for an
  IPv4 and sixteen for an IPv6 address. An attribute that is missing or of another length gives
  no value.
\<close>

theorem Attributes_getters_safe:
  assumes "mnl_attributes M"
  shows "(\<exists>r. getEthernetAddress M as t = Inr r \<and> pred_option eth_wf r) \<and>
    (\<exists>r. getIpV4Address M as t = Inr r \<and> pred_option (\<lambda>a. ip_wf a \<and> ip_isV4 a) r) \<and>
    (\<exists>r. getIpV6Address M as t = Inr r \<and> pred_option (\<lambda>a. ip_wf a \<and> ip_isV6 a) r)"
  using mnl_attributes.getEthernetAddress_ok [OF assms, of as t]
    mnl_attributes.getIpV4Address_ok [OF assms, of as t]
    mnl_attributes.getIpV6Address_ok [OF assms, of as t]
  by (auto simp: pred_option_def)

theorem Attributes_getters_safe_witness:
  "\<exists>r. getEthernetAddress wire_mnl [Some \<lparr>nla_type = 0, nla_payload = [1, 2, 3, 4, 5, 6]\<rparr>] 0 = Inr r
     \<and> r = Some (Eth_Address [1, 2, 3, 4, 5, 6]) \<and> pred_option eth_wf r"
proof -
  let ?as = "[Some \<lparr>nla_type = 0, nla_payload = [1, 2, 3, 4, 5, 6]\<rparr>]"
  have "getEthernetAddress wire_mnl ?as 0 = Inr (Some (Eth_Address [1, 2, 3, 4, 5, 6]))"
    by (simp add: getEthernetAddress_def getPayload_def attrs_has_def wire_mnl_def
        wire_validate2_def ADDR_LEN_def)
  then show ?thesis
    using Attributes_getters_safe [OF wire.mnl_attributes_axioms, of ?as 0] by simp
qed

end
