(* ===== verification/Flag_Set.thy ===== *)
theory Flag_Set
  imports Monkas_Prelude
begin

unbundle bit_operations_syntax

text \<open>
  \<open>util::FlagSet<Enum>\<close> (include/monkas/util/FlagSet.hpp): a \<open>std::bitset<FLAG_COUNT>\<close> indexed
  by the enumerators of a scoped enumeration. The bitset is an \<open>'n word\<close> whose width is
  \<open>FLAG_COUNT\<close>, an enumerator is its underlying value. \<open>set\<close>, \<open>reset\<close> and \<open>test\<close> of a
  \<open>std::bitset\<close> throw \<open>std::out_of_range\<close> at a position past the end, which the enumerator
  \<open>FlagsCount\<close> is.
\<close>

section \<open>Operations\<close>

definition fs_empty :: "'n::len word" where
  "fs_empty = 0"

definition fs_from_u32 :: "u32 \<Rightarrow> 'n::len word" where
  "fs_from_u32 bits = ucast bits"

definition fs_toU32 :: "'n::len word \<Rightarrow> u32" where
  "fs_toU32 w = ucast w"

definition fs_size :: "'n::len word \<Rightarrow> nat" where
  "fs_size w = LENGTH('n)"

definition fs_positions :: "'n::len word \<Rightarrow> nat list" where
  "fs_positions w = filter (bit w) [0..<LENGTH('n)]"

definition fs_count :: "'n::len word \<Rightarrow> nat" where
  "fs_count w = length (fs_positions w)"

definition fs_none :: "'n::len word \<Rightarrow> bool" where
  "fs_none w \<longleftrightarrow> w = 0"

definition fs_any :: "'n::len word \<Rightarrow> bool" where
  "fs_any w \<longleftrightarrow> w \<noteq> 0"

definition fs_set :: "nat \<Rightarrow> 'n::len word \<Rightarrow> failure + 'n word" where
  "fs_set flag w = (if flag < LENGTH('n) then Inr (set_bit flag w) else Inl Out_of_range)"

definition fs_reset :: "nat \<Rightarrow> 'n::len word \<Rightarrow> failure + 'n word" where
  "fs_reset flag w = (if flag < LENGTH('n) then Inr (unset_bit flag w) else Inl Out_of_range)"

definition fs_reset_all :: "'n::len word \<Rightarrow> 'n word" where
  "fs_reset_all w = 0"

definition fs_test :: "nat \<Rightarrow> 'n::len word \<Rightarrow> failure + bool" where
  "fs_test flag w = (if flag < LENGTH('n) then Inr (bit w flag) else Inl Out_of_range)"

text \<open>
  \<open>toString\<close>: a loop over the positions with a \<open>first\<close> flag and an output stream; the printed
  name of an enumerator is its \<open>operator<<\<close>, given as \<open>name\<close>.
\<close>

fun fs_toString_loop :: "(nat \<Rightarrow> string) \<Rightarrow> (nat \<Rightarrow> bool) \<Rightarrow> nat list \<Rightarrow> bool \<Rightarrow> string \<Rightarrow> bool \<times> string" where
  "fs_toString_loop name on [] first oss = (first, oss)"
| "fs_toString_loop name on (i # is) first oss =
     (if on i
      then fs_toString_loop name on is False ((if first then oss else oss @ ''|'') @ name i)
      else fs_toString_loop name on is first oss)"

definition fs_toString :: "(nat \<Rightarrow> string) \<Rightarrow> 'n::len word \<Rightarrow> string" where
  "fs_toString name w =
     (case fs_toString_loop name (bit w) [0..<LENGTH('n)] True [] of
        (first, oss) \<Rightarrow> if first then ''None'' else oss)"

text \<open>\<open>operator<=>\<close> compares the values of \<open>to_ulong\<close>.\<close>

definition fs_less :: "'n::len word \<Rightarrow> 'n word \<Rightarrow> bool" where
  "fs_less a b \<longleftrightarrow> fs_toU32 a < fs_toU32 b"

section \<open>Basic facts\<close>

lemma fs_test_in_range [res_simps]: "flag < LENGTH('n) \<Longrightarrow> fs_test flag (w :: 'n::len word) = Inr (bit w flag)"
  by (simp add: fs_test_def)

lemma fs_set_in_range [res_simps]: "flag < LENGTH('n) \<Longrightarrow> fs_set flag (w :: 'n::len word) = Inr (set_bit flag w)"
  by (simp add: fs_set_def)

lemma fs_reset_in_range [res_simps]:
  "flag < LENGTH('n) \<Longrightarrow> fs_reset flag (w :: 'n::len word) = Inr (unset_bit flag w)"
  by (simp add: fs_reset_def)

lemma set_fs_positions: "set (fs_positions w) = {i. bit w i}"
  by (auto simp: fs_positions_def dest: bit_imp_le_length)

lemma distinct_fs_positions: "distinct (fs_positions w)"
  by (simp add: fs_positions_def)

lemma fs_count_card: "fs_count w = card {i. bit w i}"
  by (metis distinct_card distinct_fs_positions fs_count_def set_fs_positions)

lemma finite_bits [simp]: "finite {i. bit (w :: 'n::len word) i}"
  by (metis List.finite_set set_fs_positions)

lemma fs_positions_empty: "fs_positions w = [] \<longleftrightarrow> w = 0"
proof -
  have "fs_positions w = [] \<longleftrightarrow> {i. bit w i} = {}"
    by (simp flip: set_fs_positions)
  also have "\<dots> \<longleftrightarrow> w = 0"
    by (auto simp: bit_eq_iff dest: bit_imp_le_length)
  finally show ?thesis .
qed

lemma fs_none_count: "fs_none w \<longleftrightarrow> fs_count w = 0"
  by (simp add: fs_none_def fs_count_def fs_positions_empty)

lemma fs_any_iff: "fs_any w \<longleftrightarrow> (\<exists>i. bit w i)"
  by (auto simp: fs_any_def bit_eq_iff dest: bit_imp_le_length)

lemma fs_count_set_bit:
  assumes "flag < LENGTH('n)"
  shows "fs_count (set_bit flag (w :: 'n::len word)) = (if bit w flag then fs_count w else Suc (fs_count w))"
proof -
  have "{i. bit (set_bit flag w) i} = insert flag {i. bit w i}"
    using assms by (auto simp: bit_set_bit_iff)
  then show ?thesis
    by (simp add: fs_count_card insert_absorb)
qed

lemma fs_count_unset_bit:
  "fs_count (unset_bit flag (w :: 'n::len word)) = (if bit w flag then fs_count w - 1 else fs_count w)"
proof -
  have "{i. bit (unset_bit flag w) i} = {i. bit w i} - {flag}"
    by (auto simp: bit_unset_bit_iff)
  then show ?thesis
    by (simp add: fs_count_card)
qed

lemma fs_count_le: "fs_count (w :: 'n::len word) \<le> LENGTH('n)"
  by (simp add: fs_count_def fs_positions_def order.trans [OF length_filter_le])

section \<open>The contract of a flag set\<close>

text \<open>
  What the users of a flag set rely on: it is a finite set of positions below a capacity, and a
  position past it makes the operation throw and changes nothing.
\<close>

locale flag_store =
  fixes capacity :: nat
    and members :: "'w \<Rightarrow> nat set"
    and test :: "nat \<Rightarrow> 'w \<Rightarrow> failure + bool"
    and put :: "nat \<Rightarrow> 'w \<Rightarrow> failure + 'w"
    and drop :: "nat \<Rightarrow> 'w \<Rightarrow> failure + 'w"
  assumes members_bound: "i \<in> members w \<Longrightarrow> i < capacity"
    and test_ok: "i < capacity \<Longrightarrow> test i w = Inr (i \<in> members w)"
    and put_ok: "i < capacity \<Longrightarrow> \<exists>w'. put i w = Inr w' \<and> members w' = insert i (members w)"
    and drop_ok: "i < capacity \<Longrightarrow> \<exists>w'. drop i w = Inr w' \<and> members w' = members w - {i}"
    and test_past: "capacity \<le> i \<Longrightarrow> test i w = Inl Out_of_range"
    and put_past: "capacity \<le> i \<Longrightarrow> put i w = Inl Out_of_range"
    and drop_past: "capacity \<le> i \<Longrightarrow> drop i w = Inl Out_of_range"
begin

lemma put_members: "put i w = Inr w' \<Longrightarrow> i < capacity \<and> members w' = insert i (members w)"
  using put_ok [of i w] put_past [of i w] by (cases "i < capacity") auto

lemma drop_members: "drop i w = Inr w' \<Longrightarrow> i < capacity \<and> members w' = members w - {i}"
  using drop_ok [of i w] drop_past [of i w] by (cases "i < capacity") auto

lemma test_put:
  "put i w = Inr w' \<Longrightarrow> j < capacity \<Longrightarrow> test j w' = Inr (j = i \<or> j \<in> members w)"
  by (auto simp: test_ok dest: put_members)

lemma test_drop:
  "drop i w = Inr w' \<Longrightarrow> j < capacity \<Longrightarrow> test j w' = Inr (j \<noteq> i \<and> j \<in> members w)"
  by (auto simp: test_ok dest: drop_members)

lemma throws_iff:
  "(test i w = Inl Out_of_range \<longleftrightarrow> capacity \<le> i) \<and>
   (put i w = Inl Out_of_range \<longleftrightarrow> capacity \<le> i) \<and>
   (drop i w = Inl Out_of_range \<longleftrightarrow> capacity \<le> i)"
  using test_ok [of i w] put_ok [of i w] drop_ok [of i w]
    test_past [of i w] put_past [of i w] drop_past [of i w]
  by (cases "i < capacity") auto

end

definition fs_members :: "'n::len word \<Rightarrow> nat set" where
  "fs_members w = {i. bit w i}"

interpretation fs: flag_store "LENGTH('n)" "fs_members :: 'n::len word \<Rightarrow> nat set"
    fs_test fs_set fs_reset
  by unfold_locales
    (auto simp: fs_members_def fs_test_def fs_set_def fs_reset_def bit_set_bit_iff
      bit_unset_bit_iff dest: bit_imp_le_length)

section \<open>Properties\<close>

lemma fs_toString_loop_join:
  "fs_toString_loop name on ks first oss =
     (case filter on ks of
        [] \<Rightarrow> (first, oss)
      | is \<Rightarrow> (False, (if first then oss else oss @ ''|'') @ join ''|'' (map name is)))"
  by (induction ks arbitrary: first oss) (auto simp: join_Cons split: list.splits)

text \<open>
  \<open>FlagSet::toString\<close> prints the names of exactly the flags that are set, in ascending order
  of their position and separated by \<open>|\<close>, and \<open>None\<close> for the empty set.
\<close>

theorem fs_toString_spec:
  "fs_toString name w = (if fs_none w then ''None'' else join ''|'' (map name (fs_positions w)))"
  unfolding fs_toString_def fs_toString_loop_join fs_none_def fs_positions_empty [symmetric]
  by (simp add: fs_positions_def split: list.splits)

text \<open>
  The constructor from \<open>uint32_t\<close> drops the bits at and above \<open>FLAG_COUNT\<close> and keeps the
  others, so that \<open>toU32\<close> gives the argument back masked.
\<close>

theorem fs_from_u32_truncates:
  assumes "LENGTH('n) \<le> 32"
  shows "fs_toU32 (fs_from_u32 bits :: 'n::len word) = bits AND mask LENGTH('n) \<and>
    (i \<in> fs_members (fs_from_u32 bits :: 'n::len word) \<longleftrightarrow> i < LENGTH('n) \<and> bit bits i)"
  using assms
  by (auto simp: fs_toU32_def fs_from_u32_def fs_members_def bit_eq_iff bit_simps
      dest: bit_imp_le_length)

theorem fs_from_u32_truncates_witness:
  "LENGTH(12) \<le> 32 \<and> fs_toU32 (fs_from_u32 0x18080 :: 12 word) = 0x080"
  using fs_from_u32_truncates [where 'n = 12, of "0x18080" 0] by (simp add: mask_eq_exp_minus_1)

end
