(* ===== verification/Network_Address.thy ===== *)
theory Network_Address
  imports IP_Address Flag_Set "HOL-Library.Option_ord"
begin

text \<open>
  \<open>network::Address\<close> (include/monkas/network/Address.hpp, src/network/Address.cpp): an address as
  it is assigned to an interface, with its broadcast address, prefix length, scope, flags and
  assignment protocol, its order, and its text. A scoped enumeration that is only ever built from
  its enumerators is a datatype; one that the code casts from a received byte is a wrapper of
  that byte, since such a cast keeps values without a name.
\<close>

section \<open>Enumerations\<close>

datatype Scope = Global | Site | Link | Host | Nowhere

fun Scope_underlying :: "Scope \<Rightarrow> nat" where
  "Scope_underlying Global = 0"
| "Scope_underlying Site = 1"
| "Scope_underlying Link = 2"
| "Scope_underlying Host = 3"
| "Scope_underlying Nowhere = 4"

fun Scope_text :: "Scope \<Rightarrow> string" where
  "Scope_text Site = ''site''"
| "Scope_text Link = ''link''"
| "Scope_text Host = ''host''"
| "Scope_text Nowhere = ''nowhere''"
| "Scope_text Global = ''global''"

definition RT_SCOPE_UNIVERSE :: u8 where "RT_SCOPE_UNIVERSE = 0"
definition RT_SCOPE_SITE :: u8 where "RT_SCOPE_SITE = 200"
definition RT_SCOPE_LINK :: u8 where "RT_SCOPE_LINK = 253"
definition RT_SCOPE_HOST :: u8 where "RT_SCOPE_HOST = 254"
definition RT_SCOPE_NOWHERE :: u8 where "RT_SCOPE_NOWHERE = 255"

definition fromRtnlScope :: "u8 \<Rightarrow> Scope" where
  "fromRtnlScope rtnlScope =
     (if rtnlScope = RT_SCOPE_SITE then Site
      else if rtnlScope = RT_SCOPE_LINK then Link
      else if rtnlScope = RT_SCOPE_HOST then Host
      else if rtnlScope = RT_SCOPE_NOWHERE then Nowhere
      else Global)"

datatype AddressFlag =
    AFlag_Temporary
  | AFlag_NoDuplicateAddressDetection
  | AFlag_Optimistic
  | AFlag_HomeAddress
  | AFlag_DuplicateAddressDetectionFailed
  | AFlag_Deprecated
  | AFlag_Tentative
  | AFlag_Permanent
  | AFlag_ManagedTemporaryAddress
  | AFlag_NoPrefixRoute
  | AFlag_MulticastAutoJoin
  | AFlag_StablePrivacy
  | AFlag_FlagsCount

text \<open>\<open>FlagSet<AddressFlag>\<close>: the enumerator \<open>FlagsCount\<close> has the value 12.\<close>

type_synonym AddressFlags = "12 word"

definition AddressFlag_enumerators :: "AddressFlag list" where
  "AddressFlag_enumerators =
     [AFlag_Temporary, AFlag_NoDuplicateAddressDetection, AFlag_Optimistic, AFlag_HomeAddress,
      AFlag_DuplicateAddressDetectionFailed, AFlag_Deprecated, AFlag_Tentative, AFlag_Permanent,
      AFlag_ManagedTemporaryAddress, AFlag_NoPrefixRoute, AFlag_MulticastAutoJoin,
      AFlag_StablePrivacy]"

fun AddressFlag_underlying :: "AddressFlag \<Rightarrow> nat" where
  "AddressFlag_underlying AFlag_Temporary = 0"
| "AddressFlag_underlying AFlag_NoDuplicateAddressDetection = 1"
| "AddressFlag_underlying AFlag_Optimistic = 2"
| "AddressFlag_underlying AFlag_HomeAddress = 3"
| "AddressFlag_underlying AFlag_DuplicateAddressDetectionFailed = 4"
| "AddressFlag_underlying AFlag_Deprecated = 5"
| "AddressFlag_underlying AFlag_Tentative = 6"
| "AddressFlag_underlying AFlag_Permanent = 7"
| "AddressFlag_underlying AFlag_ManagedTemporaryAddress = 8"
| "AddressFlag_underlying AFlag_NoPrefixRoute = 9"
| "AddressFlag_underlying AFlag_MulticastAutoJoin = 10"
| "AddressFlag_underlying AFlag_StablePrivacy = 11"
| "AddressFlag_underlying AFlag_FlagsCount = 12"

fun AddressFlag_text :: "AddressFlag \<Rightarrow> string" where
  "AddressFlag_text AFlag_Temporary = ''Temporary''"
| "AddressFlag_text AFlag_NoDuplicateAddressDetection = ''NoDuplicateAddressDetection''"
| "AddressFlag_text AFlag_Optimistic = ''Optimistic''"
| "AddressFlag_text AFlag_HomeAddress = ''HomeAddress''"
| "AddressFlag_text AFlag_DuplicateAddressDetectionFailed = ''DuplicateAddressDetectionFailed''"
| "AddressFlag_text AFlag_Deprecated = ''Deprecated''"
| "AddressFlag_text AFlag_Tentative = ''Tentative''"
| "AddressFlag_text AFlag_Permanent = ''Permanent''"
| "AddressFlag_text AFlag_ManagedTemporaryAddress = ''ManagedTemporaryAddress''"
| "AddressFlag_text AFlag_NoPrefixRoute = ''NoPrefixRoute''"
| "AddressFlag_text AFlag_MulticastAutoJoin = ''MulticastAutoJoin''"
| "AddressFlag_text AFlag_StablePrivacy = ''StablePrivacy''"
| "AddressFlag_text AFlag_FlagsCount = ''Unknown AddressFlag: 0x'' @ hex2 12"

definition AddressFlags_text :: "AddressFlags \<Rightarrow> string" where
  "AddressFlags_text = fs_toString (\<lambda>i. AddressFlag_text (AddressFlag_enumerators ! i))"

datatype AddressAssignmentProtocol = Protocol (Protocol_underlying: u8)

definition Prot_Unspecified :: AddressAssignmentProtocol where "Prot_Unspecified = Protocol 0"
definition Prot_KernelLoopback :: AddressAssignmentProtocol where "Prot_KernelLoopback = Protocol 1"
definition Prot_KernelRouterAdvertisement :: AddressAssignmentProtocol where
  "Prot_KernelRouterAdvertisement = Protocol 2"
definition Prot_KernelLinkLocal :: AddressAssignmentProtocol where "Prot_KernelLinkLocal = Protocol 3"

definition Protocol_text :: "AddressAssignmentProtocol \<Rightarrow> string" where
  "Protocol_text a =
     (if a = Prot_Unspecified then ''Unspecified''
      else if a = Prot_KernelLoopback then ''KernelLoopback''
      else if a = Prot_KernelRouterAdvertisement then ''KernelRouterAdvertisement''
      else if a = Prot_KernelLinkLocal then ''KernelLinkLocal''
      else ''Unknown AddressAssignmentProtocol: 0x'' @ hex2 (Protocol_underlying a))"

section \<open>The address\<close>

record net_address =
  m_ip :: ip_address
  m_brd :: "ip_address option"
  m_prefixlen :: u8
  m_scope :: Scope
  m_flags :: AddressFlags
  m_prot :: AddressAssignmentProtocol

definition net_default :: net_address where
  "net_default =
     \<lparr>m_ip = ip_default, m_brd = None, m_prefixlen = 0, m_scope = Nowhere, m_flags = fs_empty,
      m_prot = Prot_Unspecified\<rparr>"

definition net_family :: "net_address \<Rightarrow> Family" where
  "net_family a = ip_family (m_ip a)"

definition net_isV4 :: "net_address \<Rightarrow> bool" where
  "net_isV4 a = ip_isV4 (m_ip a)"

definition net_isV6 :: "net_address \<Rightarrow> bool" where
  "net_isV6 a = ip_isV6 (m_ip a)"

definition net_wf :: "net_address \<Rightarrow> bool" where
  "net_wf a \<longleftrightarrow> ip_wf (m_ip a) \<and> pred_option ip_wf (m_brd a)"

text \<open>
  The defaulted \<open>operator<=>\<close> compares the members in the order they are declared; the flags are
  compared by \<open>to_ulong\<close>, the enumerations by their underlying values.
\<close>

definition net_key ::
  "'a net_address_scheme \<Rightarrow> ip_address \<times> ip_address option \<times> u8 \<times> nat \<times> u32 \<times> u8" where
  "net_key a =
     (m_ip a, m_brd a, m_prefixlen a, Scope_underlying (m_scope a), fs_toU32 (m_flags a),
      Protocol_underlying (m_prot a))"

lemma Scope_underlying_inj: "Scope_underlying a = Scope_underlying b \<longleftrightarrow> a = b"
  by (cases a; cases b) simp_all

lemma fs_toU32_inj: "LENGTH('n) \<le> 32 \<Longrightarrow> fs_toU32 (a :: 'n::len word) = fs_toU32 b \<longleftrightarrow> a = b"
  by (auto simp: fs_toU32_def bit_eq_iff bit_simps dest: bit_imp_le_length)

lemma net_key_inj: "net_key a = net_key b \<Longrightarrow> net_address.more a = net_address.more b \<Longrightarrow> a = b"
  by (simp add: net_key_def Scope_underlying_inj fs_toU32_inj net_address.equality
      AddressAssignmentProtocol.expand)

definition net_less_eq ::
  "'a::linorder net_address_scheme \<Rightarrow> 'a net_address_scheme \<Rightarrow> bool" where
  "net_less_eq a b \<longleftrightarrow> (net_key a, net_address.more a) \<le> (net_key b, net_address.more b)"

definition net_less ::
  "'a::linorder net_address_scheme \<Rightarrow> 'a net_address_scheme \<Rightarrow> bool" where
  "net_less a b \<longleftrightarrow> (net_key a, net_address.more a) < (net_key b, net_address.more b)"

instantiation net_address_ext :: (linorder) linorder
begin

definition less_eq_net_address_ext ::
  "'a net_address_scheme \<Rightarrow> 'a net_address_scheme \<Rightarrow> bool" where
  "a \<le> b \<longleftrightarrow> net_less_eq a b"

definition less_net_address_ext ::
  "'a net_address_scheme \<Rightarrow> 'a net_address_scheme \<Rightarrow> bool" where
  "a < b \<longleftrightarrow> net_less a b"

lemmas net_order_defs =
  less_eq_net_address_ext_def less_net_address_ext_def net_less_eq_def net_less_def

instance
proof
  fix a b c :: "'a net_address_scheme"
  show "a < b \<longleftrightarrow> a \<le> b \<and> \<not> b \<le> a"
    unfolding net_order_defs by (rule less_le_not_le)
  show "a \<le> a"
    unfolding net_order_defs by (rule order.refl)
  show "a \<le> b \<Longrightarrow> b \<le> c \<Longrightarrow> a \<le> c"
    unfolding net_order_defs by (rule order.trans)
  show "a \<le> b \<or> b \<le> a"
    unfolding net_order_defs by (rule linear)
  assume "a \<le> b" and "b \<le> a"
  then have "(net_key a, net_address.more a) = (net_key b, net_address.more b)"
    unfolding net_order_defs by (rule order.antisym)
  then show "a = b"
    by (auto intro: net_key_inj)
qed

end

section \<open>Printing\<close>

definition net_toString :: "inet_api \<Rightarrow> net_address \<Rightarrow> string" where
  "net_toString I a =
     Family_text (net_family a) @ '' '' @ ip_toString I (m_ip a) @ ''/'' @ dec_of_nat (unat (m_prefixlen a))
     @ '' scope '' @ Scope_text (m_scope a)
     @ (case m_brd a of None \<Rightarrow> [] | Some brd \<Rightarrow> '' brd '' @ ip_toString I brd)
     @ (if fs_any (m_flags a) then '' <'' @ AddressFlags_text (m_flags a) @ ''>'' else [])
     @ (if m_prot a \<noteq> Prot_Unspecified then '' proto '' @ Protocol_text (m_prot a) else [])"

section \<open>Properties\<close>

text \<open>
  \<open>fromRtnlScope\<close> maps the five scope values of rtnetlink to the scopes of that name, and every
  other byte, user-defined scopes included, to \<open>Global\<close>.
\<close>

theorem fromRtnlScope_spec:
  "fromRtnlScope s =
     (case List.find (\<lambda>p. fst p = s)
        [(RT_SCOPE_UNIVERSE, Global), (RT_SCOPE_SITE, Site), (RT_SCOPE_LINK, Link),
         (RT_SCOPE_HOST, Host), (RT_SCOPE_NOWHERE, Nowhere)] of
        Some p \<Rightarrow> snd p
      | None \<Rightarrow> Global)"
  by (auto simp: fromRtnlScope_def RT_SCOPE_UNIVERSE_def RT_SCOPE_SITE_def RT_SCOPE_LINK_def
      RT_SCOPE_HOST_def RT_SCOPE_NOWHERE_def)

text \<open>The bits of \<open>ifa_flags\<close>, by their names in linux/if_addr.h.\<close>

fun ifa_flag :: "AddressFlag \<Rightarrow> u32" where
  "ifa_flag AFlag_Temporary = 0x01"
| "ifa_flag AFlag_NoDuplicateAddressDetection = 0x02"
| "ifa_flag AFlag_Optimistic = 0x04"
| "ifa_flag AFlag_DuplicateAddressDetectionFailed = 0x08"
| "ifa_flag AFlag_HomeAddress = 0x10"
| "ifa_flag AFlag_Deprecated = 0x20"
| "ifa_flag AFlag_Tentative = 0x40"
| "ifa_flag AFlag_Permanent = 0x80"
| "ifa_flag AFlag_ManagedTemporaryAddress = 0x100"
| "ifa_flag AFlag_NoPrefixRoute = 0x200"
| "ifa_flag AFlag_MulticastAutoJoin = 0x400"
| "ifa_flag AFlag_StablePrivacy = 0x800"
| "ifa_flag AFlag_FlagsCount = 0"

fun exchanged :: "AddressFlag \<Rightarrow> AddressFlag" where
  "exchanged AFlag_HomeAddress = AFlag_DuplicateAddressDetectionFailed"
| "exchanged AFlag_DuplicateAddressDetectionFailed = AFlag_HomeAddress"
| "exchanged f = f"

lemma ifa_flag_bit:
  "f \<noteq> AFlag_FlagsCount \<Longrightarrow> ifa_flag (exchanged f) = 2 ^ AddressFlag_underlying f \<and> AddressFlag_underlying f < 12"
  by (cases f) simp_all

text \<open>
  (C22) Whatever word of flags the kernel sends with an address, \<open>AddressFlags(flags)\<close> holds an
  enumerator exactly if the kernel's flag of that name is set in the word, for ten of the twelve flags.
  The other two are exchanged: an address whose duplicate address detection failed
  (\<open>IFA_F_DADFAILED\<close>, 0x08) is reported as \<open>HomeAddress\<close>, and a home address
  (\<open>IFA_F_HOMEADDRESS\<close>, 0x10) as \<open>DuplicateAddressDetectionFailed\<close>. Nothing else of the word is kept.
\<close>

theorem address_flags_against_kernel:
  assumes "f \<noteq> AFlag_FlagsCount"
  shows "fs_test (AddressFlag_underlying f) (fs_from_u32 w :: AddressFlags) =
      Inr (w AND ifa_flag (exchanged f) \<noteq> 0) \<and>
    fs_toU32 (fs_from_u32 w :: AddressFlags) = w AND 0xFFF"
proof
  have "fs_test (AddressFlag_underlying f) (fs_from_u32 w :: AddressFlags) = Inr (bit w (AddressFlag_underlying f))"
    using ifa_flag_bit [OF assms] by (simp add: fs_test_in_range fs_from_u32_def bit_simps)
  also have "bit w (AddressFlag_underlying f) \<longleftrightarrow> w AND ifa_flag (exchanged f) \<noteq> 0"
    using ifa_flag_bit [OF assms] and_exp_eq_0_iff_not_bit [of w "AddressFlag_underlying f"] by simp
  finally show "fs_test (AddressFlag_underlying f) (fs_from_u32 w :: AddressFlags) =
      Inr (w AND ifa_flag (exchanged f) \<noteq> 0)" .
  have "mask 12 = (0xFFF :: u32)" by (simp add: mask_eq_exp_minus_1)
  then show "fs_toU32 (fs_from_u32 w :: AddressFlags) = w AND 0xFFF"
    by (auto simp: fs_toU32_def fs_from_u32_def bit_eq_iff bit_simps simp flip: \<open>mask 12 = 0xFFF\<close>)
qed

theorem address_flags_against_kernel_witness:
  "fs_test (AddressFlag_underlying AFlag_HomeAddress) (fs_from_u32 0x80048 :: AddressFlags) = Inr True \<and>
   fs_test (AddressFlag_underlying AFlag_DuplicateAddressDetectionFailed) (fs_from_u32 0x80048 :: AddressFlags) = Inr False \<and>
   fs_test (AddressFlag_underlying AFlag_Tentative) (fs_from_u32 0x80048 :: AddressFlags) = Inr True"
  using address_flags_against_kernel [of AFlag_HomeAddress "0x80048"]
    address_flags_against_kernel [of AFlag_DuplicateAddressDetectionFailed "0x80048"]
    address_flags_against_kernel [of AFlag_Tentative "0x80048"] by simp

end
