(* ===== verification/Status_Tracker.thy ===== *)
theory Status_Tracker
  imports Ethernet_Address Network_Address
begin

unbundle bit_operations_syntax

text \<open>
  \<open>monitor::NetworkInterfaceStatusTracker\<close>
  (include/monkas/monitor/NetworkInterfaceStatusTracker.hpp,
  src/monitor/NetworkInterfaceStatusTracker.cpp): what the monitor knows of one interface, the
  flags of the aspects that changed since they were last cleared, the time of the last change,
  and the statistics counters. Every operation takes the reading of \<open>steady_clock::now()\<close> (in
  nanoseconds) where the code may read the clock, and returns the updated tracker; the counters
  are 64-bit words. Log output is left out.
\<close>

section \<open>Enumerations\<close>

datatype OperationalState = OperState (OperState_underlying: u8)

definition Oper_Unknown :: OperationalState where "Oper_Unknown = OperState 0"
definition Oper_NotPresent :: OperationalState where "Oper_NotPresent = OperState 1"
definition Oper_Down :: OperationalState where "Oper_Down = OperState 2"
definition Oper_LowerLayerDown :: OperationalState where "Oper_LowerLayerDown = OperState 3"
definition Oper_Testing :: OperationalState where "Oper_Testing = OperState 4"
definition Oper_Dormant :: OperationalState where "Oper_Dormant = OperState 5"
definition Oper_Up :: OperationalState where "Oper_Up = OperState 6"

definition OperationalState_text :: "OperationalState \<Rightarrow> string" where
  "OperationalState_text o' =
     (if o' = Oper_NotPresent then ''NotPresent''
      else if o' = Oper_Down then ''Down''
      else if o' = Oper_LowerLayerDown then ''LowerLayerDown''
      else if o' = Oper_Testing then ''Testing''
      else if o' = Oper_Dormant then ''Dormant''
      else if o' = Oper_Up then ''Up''
      else if o' = Oper_Unknown then ''Unknown''
      else ''Unknown OperationalState('' @ hex2 (OperState_underlying o') @ '')'')"

datatype GatewayClearReason = LinkDown | RouteDeleted | AllIPv4AddressesRemoved

fun GatewayClearReason_text :: "GatewayClearReason \<Rightarrow> string" where
  "GatewayClearReason_text LinkDown = ''LinkDown''"
| "GatewayClearReason_text RouteDeleted = ''RouteDeleted''"
| "GatewayClearReason_text AllIPv4AddressesRemoved = ''AllIPv4AddressesRemoved''"

datatype LinkFlag =
    LFlag_Up | LFlag_Broadcast | LFlag_Debug | LFlag_Loopback | LFlag_PointToPoint
  | LFlag_NoTrailers | LFlag_Running | LFlag_NoArp | LFlag_Promiscuous | LFlag_AllMulticast
  | LFlag_Master | LFlag_Slave | LFlag_Multicast | LFlag_PortSet | LFlag_AutoMedia
  | LFlag_Dynamic | LFlag_LowerUp | LFlag_Dormant | LFlag_Echo | LFlag_FlagsCount

text \<open>\<open>FlagSet<LinkFlag>\<close>: the enumerators have the values 0 to 18, \<open>FlagsCount\<close> is 19.\<close>

type_synonym LinkFlags = "19 word"

definition LinkFlag_enumerators :: "LinkFlag list" where
  "LinkFlag_enumerators =
     [LFlag_Up, LFlag_Broadcast, LFlag_Debug, LFlag_Loopback, LFlag_PointToPoint,
      LFlag_NoTrailers, LFlag_Running, LFlag_NoArp, LFlag_Promiscuous, LFlag_AllMulticast,
      LFlag_Master, LFlag_Slave, LFlag_Multicast, LFlag_PortSet, LFlag_AutoMedia,
      LFlag_Dynamic, LFlag_LowerUp, LFlag_Dormant, LFlag_Echo]"

fun LinkFlag_text :: "LinkFlag \<Rightarrow> string" where
  "LinkFlag_text LFlag_Up = ''Up''"
| "LinkFlag_text LFlag_Broadcast = ''Broadcast''"
| "LinkFlag_text LFlag_Debug = ''Debug''"
| "LinkFlag_text LFlag_Loopback = ''Loopback''"
| "LinkFlag_text LFlag_PointToPoint = ''PointToPoint''"
| "LinkFlag_text LFlag_NoTrailers = ''NoTrailers''"
| "LinkFlag_text LFlag_Running = ''Running''"
| "LinkFlag_text LFlag_NoArp = ''NoArp''"
| "LinkFlag_text LFlag_Promiscuous = ''Promiscuous''"
| "LinkFlag_text LFlag_AllMulticast = ''AllMulticast''"
| "LinkFlag_text LFlag_Master = ''Master''"
| "LinkFlag_text LFlag_Slave = ''Slave''"
| "LinkFlag_text LFlag_Multicast = ''Multicast''"
| "LinkFlag_text LFlag_PortSet = ''PortSet''"
| "LinkFlag_text LFlag_AutoMedia = ''AutoMedia''"
| "LinkFlag_text LFlag_Dynamic = ''Dynamic''"
| "LinkFlag_text LFlag_LowerUp = ''LowerUp''"
| "LinkFlag_text LFlag_Dormant = ''Dormant''"
| "LinkFlag_text LFlag_Echo = ''Echo''"
| "LinkFlag_text LFlag_FlagsCount = ''Unknown LinkFlag: 0x'' @ hex2 19"

definition LinkFlags_text :: "LinkFlags \<Rightarrow> string" where
  "LinkFlags_text l = ''<'' @ fs_toString (\<lambda>i. LinkFlag_text (LinkFlag_enumerators ! i)) l @ ''>''"

datatype ChangedFlag =
    Changed_Name
  | Changed_LinkFlags
  | Changed_OperationalState
  | Changed_MacAddress
  | Changed_BroadcastAddress
  | Changed_GatewayAddress
  | Changed_NetworkAddresses
  | Changed_FlagsCount

type_synonym ChangedFlags = "7 word"

fun ChangedFlag_underlying :: "ChangedFlag \<Rightarrow> nat" where
  "ChangedFlag_underlying Changed_Name = 0"
| "ChangedFlag_underlying Changed_LinkFlags = 1"
| "ChangedFlag_underlying Changed_OperationalState = 2"
| "ChangedFlag_underlying Changed_MacAddress = 3"
| "ChangedFlag_underlying Changed_BroadcastAddress = 4"
| "ChangedFlag_underlying Changed_GatewayAddress = 5"
| "ChangedFlag_underlying Changed_NetworkAddresses = 6"
| "ChangedFlag_underlying Changed_FlagsCount = 7"

definition ChangedFlag_enumerators :: "ChangedFlag list" where
  "ChangedFlag_enumerators =
     [Changed_Name, Changed_LinkFlags, Changed_OperationalState, Changed_MacAddress,
      Changed_BroadcastAddress, Changed_GatewayAddress, Changed_NetworkAddresses]"

fun ChangedFlag_text :: "ChangedFlag \<Rightarrow> string" where
  "ChangedFlag_text Changed_Name = ''NameChanged''"
| "ChangedFlag_text Changed_LinkFlags = ''LinkFlagsChanged''"
| "ChangedFlag_text Changed_OperationalState = ''OperationalStateChanged''"
| "ChangedFlag_text Changed_MacAddress = ''MacAddressChanged''"
| "ChangedFlag_text Changed_BroadcastAddress = ''BroadcastAddressChanged''"
| "ChangedFlag_text Changed_GatewayAddress = ''GatewayAddressChanged''"
| "ChangedFlag_text Changed_NetworkAddresses = ''NetworkAddressesChanged''"
| "ChangedFlag_text Changed_FlagsCount = ''Unknown ChangedFlag: 0x'' @ hex2 7"

definition ChangedFlags_text :: "ChangedFlags \<Rightarrow> string" where
  "ChangedFlags_text = fs_toString (\<lambda>i. ChangedFlag_text (ChangedFlag_enumerators ! i))"

section \<open>The tracker\<close>

record nerdstats =
  nameChanges :: u64
  linkFlagChanges :: u64
  operationalStateChanges :: u64
  macAddressChanges :: u64
  broadcastAddressChanges :: u64
  gatewayAddressChanges :: u64
  gatewayAddressClears :: u64
  networkAddressesNoChangeUpdates :: u64
  networkAddressesAdded :: u64
  networkAddressesRemoved :: u64
  changedFlagChanges :: u64
  changedFlagChecks :: u64
  changedFlagClears :: u64

definition nerdstats_zero :: nerdstats where
  "nerdstats_zero =
     \<lparr>nameChanges = 0, linkFlagChanges = 0, operationalStateChanges = 0, macAddressChanges = 0,
      broadcastAddressChanges = 0, gatewayAddressChanges = 0, gatewayAddressClears = 0,
      networkAddressesNoChangeUpdates = 0, networkAddressesAdded = 0, networkAddressesRemoved = 0,
      changedFlagChanges = 0, changedFlagChecks = 0, changedFlagClears = 0\<rparr>"

text \<open>\<open>m_networkAddresses\<close> is a \<open>std::set<network::Address>\<close>, in ascending order.\<close>

record tracker =
  m_name :: string
  m_macAddress :: eth_address
  m_broadcastAddress :: eth_address
  m_operationalState :: OperationalState
  m_networkAddresses :: "net_address list"
  m_gateway :: "ip_address option"
  m_lastChanged :: int
  m_changedFlags :: ChangedFlags
  m_linkFlags :: LinkFlags
  m_nerdstats :: nerdstats

definition tracker_new :: "int \<Rightarrow> tracker" where
  "tracker_new now =
     \<lparr>m_name = [], m_macAddress = eth_default, m_broadcastAddress = eth_default,
      m_operationalState = Oper_Unknown, m_networkAddresses = [], m_gateway = None,
      m_lastChanged = now, m_changedFlags = fs_empty, m_linkFlags = fs_empty,
      m_nerdstats = nerdstats_zero\<rparr>"

definition hasName :: "tracker \<Rightarrow> bool" where
  "hasName t \<longleftrightarrow> m_name t \<noteq> []"

text \<open>Incrementing one counter of the statistics: \<open>bump nameChanges_update t\<close>.\<close>

definition bump :: "((u64 \<Rightarrow> u64) \<Rightarrow> nerdstats \<Rightarrow> nerdstats) \<Rightarrow> tracker \<Rightarrow> tracker" where
  "bump counter_update t = t\<lparr>m_nerdstats := counter_update (\<lambda>c. c + 1) (m_nerdstats t)\<rparr>"

definition touch :: "int \<Rightarrow> ChangedFlag \<Rightarrow> tracker \<Rightarrow> failure + tracker" where
  "touch now flag t =
     res_bind (fs_test (ChangedFlag_underlying flag) (m_changedFlags t)) (\<lambda>already.
     if \<not> already
     then res_bind (fs_set (ChangedFlag_underlying flag) (m_changedFlags t)) (\<lambda>flags.
       Inr (bump changedFlagChanges_update (t\<lparr>m_lastChanged := now, m_changedFlags := flags\<rparr>)))
     else Inr t)"

definition setName :: "int \<Rightarrow> string \<Rightarrow> tracker \<Rightarrow> failure + tracker" where
  "setName now name t =
     (if m_name t \<noteq> name
      then res_bind (touch now Changed_Name (t\<lparr>m_name := name\<rparr>)) (\<lambda>t.
        Inr (bump nameChanges_update t))
      else Inr t)"

definition setOperationalState :: "int \<Rightarrow> OperationalState \<Rightarrow> tracker \<Rightarrow> failure + tracker" where
  "setOperationalState now operationalState t =
     (if m_operationalState t \<noteq> operationalState
      then res_bind (touch now Changed_OperationalState (t\<lparr>m_operationalState := operationalState\<rparr>)) (\<lambda>t.
        Inr (bump operationalStateChanges_update t))
      else Inr t)"

definition setMacAddress :: "int \<Rightarrow> eth_address \<Rightarrow> tracker \<Rightarrow> failure + tracker" where
  "setMacAddress now address t =
     (if m_macAddress t \<noteq> address \<or> eth_allZeroes address
      then res_bind (touch now Changed_MacAddress (t\<lparr>m_macAddress := address\<rparr>)) (\<lambda>t.
        Inr (bump macAddressChanges_update t))
      else Inr t)"

definition setBroadcastAddress :: "int \<Rightarrow> eth_address \<Rightarrow> tracker \<Rightarrow> failure + tracker" where
  "setBroadcastAddress now address t =
     (if m_broadcastAddress t \<noteq> address \<or> eth_allZeroes address
      then res_bind (touch now Changed_BroadcastAddress (t\<lparr>m_broadcastAddress := address\<rparr>)) (\<lambda>t.
        Inr (bump broadcastAddressChanges_update t))
      else Inr t)"

definition setGatewayAddress :: "int \<Rightarrow> ip_address \<Rightarrow> tracker \<Rightarrow> failure + tracker" where
  "setGatewayAddress now gateway t =
     (if m_gateway t \<noteq> Some gateway
      then res_bind (touch now Changed_GatewayAddress (t\<lparr>m_gateway := Some gateway\<rparr>)) (\<lambda>t.
        Inr (bump gatewayAddressChanges_update t))
      else Inr t)"

text \<open>The code assigns a default-constructed address; the reason is only logged.\<close>

definition clearGatewayAddress :: "int \<Rightarrow> GatewayClearReason \<Rightarrow> tracker \<Rightarrow> failure + tracker" where
  "clearGatewayAddress now r t =
     (if m_gateway t \<noteq> None
      then res_bind (touch now Changed_GatewayAddress (t\<lparr>m_gateway := Some ip_default\<rparr>)) (\<lambda>t.
        Inr (bump gatewayAddressClears_update t))
      else Inr t)"

definition addNetworkAddress :: "int \<Rightarrow> net_address \<Rightarrow> tracker \<Rightarrow> failure + tracker" where
  "addNetworkAddress now address t =
     (let erased = set_erase_count id address (m_networkAddresses t);
          t = t\<lparr>m_networkAddresses := set_erase id address (m_networkAddresses t)\<rparr>;
          t = t\<lparr>m_networkAddresses := set_insert id address (m_networkAddresses t)\<rparr>
      in if erased = 0
         then res_bind (touch now Changed_NetworkAddresses t) (\<lambda>t.
           Inr (bump networkAddressesAdded_update t))
         else Inr (bump networkAddressesNoChangeUpdates_update t))"

definition removeNetworkAddress :: "int \<Rightarrow> net_address \<Rightarrow> tracker \<Rightarrow> failure + tracker" where
  "removeNetworkAddress now address t =
     (let res = set_erase_count id address (m_networkAddresses t);
          t = t\<lparr>m_networkAddresses := set_erase id address (m_networkAddresses t)\<rparr>;
          t = t\<lparr>m_nerdstats := networkAddressesRemoved_update (\<lambda>c. c + word_of_nat res) (m_nerdstats t)\<rparr>
      in if res > 0
         then res_bind (touch now Changed_NetworkAddresses t) (\<lambda>t.
           if length (filter (\<lambda>a. net_family a = IPv4) (m_networkAddresses t)) = 0
           then clearGatewayAddress now AllIPv4AddressesRemoved t
           else Inr t)
         else Inr t)"

definition updateLinkFlags :: "int \<Rightarrow> LinkFlags \<Rightarrow> tracker \<Rightarrow> failure + tracker" where
  "updateLinkFlags now flags t =
     (if m_linkFlags t \<noteq> flags
      then res_bind (touch now Changed_LinkFlags (t\<lparr>m_linkFlags := flags\<rparr>)) (\<lambda>t.
        Inr (bump linkFlagChanges_update t))
      else Inr t)"

text \<open>\<open>duration_cast\<close> to milliseconds truncates towards zero.\<close>

definition age :: "int \<Rightarrow> tracker \<Rightarrow> int" where
  "age now t =
     (let d = now - m_lastChanged t in if 0 \<le> d then d div 1000000 else - ((- d) div 1000000))"

text \<open>The two queries count themselves in a mutable member, so they return the tracker too.\<close>

definition hasChanges :: "tracker \<Rightarrow> bool \<times> tracker" where
  "hasChanges t = (let t = bump changedFlagChecks_update t in (fs_any (m_changedFlags t), t))"

definition isChanged :: "ChangedFlag \<Rightarrow> tracker \<Rightarrow> failure + (bool \<times> tracker)" where
  "isChanged flag t =
     (let t = bump changedFlagChecks_update t in
      res_bind (fs_test (ChangedFlag_underlying flag) (m_changedFlags t)) (\<lambda>b. Inr (b, t)))"

definition clearFlag :: "ChangedFlag \<Rightarrow> tracker \<Rightarrow> failure + tracker" where
  "clearFlag flag t =
     res_bind (fs_test (ChangedFlag_underlying flag) (m_changedFlags t)) (\<lambda>b.
     if b
     then res_bind (fs_reset (ChangedFlag_underlying flag) (m_changedFlags t)) (\<lambda>flags.
       Inr (bump changedFlagClears_update (t\<lparr>m_changedFlags := flags\<rparr>)))
     else Inr t)"

definition clearChangedFlags :: "tracker \<Rightarrow> tracker" where
  "clearChangedFlags t =
     t\<lparr>m_nerdstats := changedFlagClears_update (\<lambda>c. c + word_of_nat (fs_count (m_changedFlags t))) (m_nerdstats t),
       m_changedFlags := fs_reset_all (m_changedFlags t)\<rparr>"

section \<open>Printing\<close>

definition tracker_text :: "inet_api \<Rightarrow> int \<Rightarrow> tracker \<Rightarrow> failure + string" where
  "tracker_text I now t =
     res_bind (eth_toString (m_macAddress t)) (\<lambda>mac.
     res_bind (eth_toString (m_broadcastAddress t)) (\<lambda>brd.
     Inr (m_name t @ '' '' @ LinkFlags_text (m_linkFlags t) @ '' mac '' @ mac @ '' brd '' @ brd
       @ (if m_networkAddresses t \<noteq> []
          then '' ['' @ join '', '' (map (net_toString I) (m_networkAddresses t)) @ '']'' else [])
       @ (case m_gateway t of None \<Rightarrow> [] | Some g \<Rightarrow> '' default via '' @ ip_toString I g)
       @ '' op '' @ OperationalState_text (m_operationalState t)
       @ ''('' @ dec_of_nat (unat (OperState_underlying (m_operationalState t))) @ '')''
       @ '' age '' @ (if age now t < 0 then ''-'' else []) @ dec_of_nat (nat \<bar>age now t\<bar>)
       @ '' changed '' @ ChangedFlags_text (m_changedFlags t))))"

end
