(* ===== verification/Monitor_State.thy ===== *)
theory Monitor_State
  imports Status_Tracker Netlink_Attributes Network_Interface
begin

unbundle bit_operations_syntax

text \<open>
  The state of \<open>monitor::NetworkMonitor\<close> (include/monkas/monitor/NetworkMonitor.hpp) and of the
  world it acts on. The members of the class are the record \<open>monitor\<close>; \<open>system\<close> adds what stands
  outside it: the datagrams the socket will deliver, the clock, and the trace of the requests sent
  and the subscriber callbacks made. The kernel headers, libmnl and the subscribers are the
  parameter \<open>environment\<close>.
\<close>

section \<open>Kernel constants\<close>

definition RTM_NEWLINK :: u16 where "RTM_NEWLINK = 16"
definition RTM_DELLINK :: u16 where "RTM_DELLINK = 17"
definition RTM_GETLINK :: u16 where "RTM_GETLINK = 18"
definition RTM_NEWADDR :: u16 where "RTM_NEWADDR = 20"
definition RTM_DELADDR :: u16 where "RTM_DELADDR = 21"
definition RTM_GETADDR :: u16 where "RTM_GETADDR = 22"
definition RTM_NEWROUTE :: u16 where "RTM_NEWROUTE = 24"
definition RTM_DELROUTE :: u16 where "RTM_DELROUTE = 25"
definition RTM_GETROUTE :: u16 where "RTM_GETROUTE = 26"

lemmas RTM_defs = RTM_NEWLINK_def RTM_DELLINK_def RTM_GETLINK_def RTM_NEWADDR_def RTM_DELADDR_def
  RTM_GETADDR_def RTM_NEWROUTE_def RTM_DELROUTE_def RTM_GETROUTE_def

definition IFLA_ADDRESS :: u16 where "IFLA_ADDRESS = 1"
definition IFLA_BROADCAST :: u16 where "IFLA_BROADCAST = 2"
definition IFLA_IFNAME :: u16 where "IFLA_IFNAME = 3"
definition IFLA_OPERSTATE :: u16 where "IFLA_OPERSTATE = 16"
definition IFLA_EXT_MASK :: u16 where "IFLA_EXT_MASK = 29"
definition IFA_ADDRESS :: u16 where "IFA_ADDRESS = 1"
definition IFA_LOCAL :: u16 where "IFA_LOCAL = 2"
definition IFA_LABEL :: u16 where "IFA_LABEL = 3"
definition IFA_BROADCAST :: u16 where "IFA_BROADCAST = 4"
definition IFA_FLAGS :: u16 where "IFA_FLAGS = 8"
definition IFA_PROTO :: u16 where "IFA_PROTO = 11"
definition RTA_OIF :: u16 where "RTA_OIF = 4"
definition RTA_GATEWAY :: u16 where "RTA_GATEWAY = 5"

definition ARPHRD_ETHER :: u16 where "ARPHRD_ETHER = 1"
definition ARPHRD_IEEE80211 :: u16 where "ARPHRD_IEEE80211 = 801"
definition RTNH_F_LINKDOWN :: u32 where "RTNH_F_LINKDOWN = 16"
definition IFAPROT_UNSPEC :: u8 where "IFAPROT_UNSPEC = 0"
definition NLM_F_REQUEST :: u16 where "NLM_F_REQUEST = 1"
definition NLM_F_DUMP :: u16 where "NLM_F_DUMP = 0x300"
definition RTEXT_FILTER_SKIP_STATS :: u32 where "RTEXT_FILTER_SKIP_STATS = 8"

definition EPROTO :: int where "EPROTO = 71"
definition EINTR :: int where "EINTR = 4"
definition EAGAIN :: int where "EAGAIN = 11"
definition EBUSY :: int where "EBUSY = 16"

text \<open>The fixed headers of the three kinds of messages; \<open>sizeof\<close> each is the attribute offset.\<close>

record ifinfomsg =
  ifi_type :: u16
  ifi_index :: u32
  ifi_flags :: u32

record ifaddrmsg =
  ifa_family :: u8
  ifa_prefixlen :: u8
  ifa_flags :: u8
  ifa_scope :: u8
  ifa_index :: u32

record rtmsg =
  rtm_family :: u8
  rtm_flags :: u32

definition sizeof_ifinfomsg :: u32 where "sizeof_ifinfomsg = 16"
definition sizeof_ifaddrmsg :: u32 where "sizeof_ifaddrmsg = 8"
definition sizeof_rtmsg :: u32 where "sizeof_rtmsg = 12"

section \<open>Options, states, statistics\<close>

datatype RuntimeFlag =
    RFlag_StatsForNerds
  | RFlag_PreferredFamilyV4
  | RFlag_PreferredFamilyV6
  | RFlag_IncludeNonIeee802
  | RFlag_DumpPackets
  | RFlag_NonBlocking
  | RFlag_FlagsCount

type_synonym RuntimeFlags = "6 word"

fun RuntimeFlag_underlying :: "RuntimeFlag \<Rightarrow> nat" where
  "RuntimeFlag_underlying RFlag_StatsForNerds = 0"
| "RuntimeFlag_underlying RFlag_PreferredFamilyV4 = 1"
| "RuntimeFlag_underlying RFlag_PreferredFamilyV6 = 2"
| "RuntimeFlag_underlying RFlag_IncludeNonIeee802 = 3"
| "RuntimeFlag_underlying RFlag_DumpPackets = 4"
| "RuntimeFlag_underlying RFlag_NonBlocking = 5"
| "RuntimeFlag_underlying RFlag_FlagsCount = 6"

datatype CacheState = EnumeratingLinks | EnumeratingAddresses | EnumeratingRoutes | WaitingForChanges

record statistics =
  startTime :: int
  bytesSent :: u64
  bytesReceived :: u64
  packetsSent :: u64
  packetsReceived :: u64
  msgsReceived :: u64
  msgsDiscarded :: u64
  seenAttributes :: u64
  unknownAttributes :: u64
  addressMessagesSeen :: u64
  linkMessagesSeen :: u64
  routeMessagesSeen :: u64

section \<open>Requests and notifications\<close>

text \<open>A dump request as it lies in the send buffer: header, \<open>rtgen_family\<close>, attributes.\<close>

record request =
  rq_type :: u16
  rq_flags :: u16
  rq_seq :: u32
  rq_family :: int
  rq_attributes :: "(u16 \<times> u32) list"

datatype notification =
    Interface_added interface
  | Interface_removed interface
  | Interface_name_changed interface
  | Link_flags_changed interface LinkFlags
  | Operational_state_changed interface OperationalState
  | Network_addresses_changed interface "net_address list"
  | Gateway_address_changed interface "ip_address option"
  | Mac_address_changed interface eth_address
  | Broadcast_address_changed interface eth_address

text \<open>A \<open>SubscriberPtr\<close>: \<open>None\<close> is the null pointer.\<close>

type_synonym subscriber = "nat option"

datatype event = Sent request | Notified nat notification

section \<open>The monitor and its world\<close>

text \<open>
  \<open>m_subscribers\<close> is an \<open>unordered_map\<close>: an association list in iteration order. The receive
  buffer holds the last datagram only while it is processed and is an argument of the loop. The
  send buffer is zero until the first request.
\<close>

record monitor =
  m_socket_open :: bool
  m_sendBuffer :: "request option"
  m_running :: bool
  m_portid :: u32
  m_sequenceNumber :: u32
  m_trackers :: "(u32, tracker) std_map"
  m_cacheState :: CacheState
  m_stats :: statistics
  m_runtimeOptions :: RuntimeFlags
  m_subscribers :: "(subscriber \<times> interfaces) list"

text \<open>
  One return of \<open>mnl_socket_recvfrom\<close>: a datagram (of zero bytes when the result is 0), received at
  a time, or a negative result. When nothing is left in the inbox the socket blocks, or fails if it does
  not block.
\<close>

datatype reception = Received int "u8 list" | Receive_failed

record system = monitor +
  inbox :: "reception list"
  clock :: int
  events :: "event list"

text \<open>
  What ends a run of \<open>mnl_cb_run\<close> behind the last message it hands to the callback: the end of the
  datagram, a control message that ends the dump, or an error with its \<open>errno\<close>.
\<close>

datatype verdict = Plan_ok | Plan_stop | Plan_error int

text \<open>
  The parameters. \<open>cb_plan buf seq portid\<close> are the messages of a datagram that \<open>mnl_cb_run\<close> hands
  to the callback and the verdict behind them. \<open>sendto\<close> is the result of sending a request,
  \<open>calls_stop k n\<close> tells whether subscriber \<open>k\<close> calls \<open>stop()\<close> from its callback for \<open>n\<close>.
  Subscribers change nothing else of the monitor from within a callback: the code iterates over
  the map of subscribers while it calls them.
\<close>

record environment =
  env_mnl :: libmnl
  cb_plan :: "u8 list \<Rightarrow> u32 \<Rightarrow> u32 \<Rightarrow> nlmsghdr list \<times> verdict"
  get_ifinfo :: "nlmsghdr \<Rightarrow> ifinfomsg"
  get_ifaddr :: "nlmsghdr \<Rightarrow> ifaddrmsg"
  get_rtmsg :: "nlmsghdr \<Rightarrow> rtmsg"
  IFLA_MAX :: u16
  IFA_MAX :: u16
  RTA_MAX :: u16
  sendto :: "request \<Rightarrow> int"
  calls_stop :: "nat \<Rightarrow> notification \<Rightarrow> bool"

section \<open>Small operations\<close>

definition test_option :: "RuntimeFlag \<Rightarrow> system \<Rightarrow> failure + bool" where
  "test_option flag sy = fs_test (RuntimeFlag_underlying flag) (m_runtimeOptions sy)"

definition count_stat :: "((u64 \<Rightarrow> u64) \<Rightarrow> statistics \<Rightarrow> statistics) \<Rightarrow> system \<Rightarrow> system" where
  "count_stat counter_update sy = sy\<lparr>m_stats := counter_update (\<lambda>c. c + 1) (m_stats sy)\<rparr>"

definition isEnumerating :: "system \<Rightarrow> bool" where
  "isEnumerating sy \<longleftrightarrow> m_cacheState sy \<noteq> WaitingForChanges"

definition isEnumeratingLinks :: "system \<Rightarrow> bool" where
  "isEnumeratingLinks sy \<longleftrightarrow> m_cacheState sy = EnumeratingLinks"

definition isEnumeratingAddresses :: "system \<Rightarrow> bool" where
  "isEnumeratingAddresses sy \<longleftrightarrow> m_cacheState sy = EnumeratingAddresses"

definition isEnumeratingRoutes :: "system \<Rightarrow> bool" where
  "isEnumeratingRoutes sy \<longleftrightarrow> m_cacheState sy = EnumeratingRoutes"

definition stop :: "system \<Rightarrow> system" where
  "stop sy = sy\<lparr>m_socket_open := False, m_running := False\<rparr>"

definition interfacesFromCache :: "system \<Rightarrow> interfaces" where
  "interfacesFromCache sy =
     fold (\<lambda>(index, tracker) intfs. interfaces_emplace index (m_name tracker) intfs) (m_trackers sy) []"

text \<open>A virtual call on a subscriber.\<close>

definition call_subscriber :: "environment \<Rightarrow> subscriber \<Rightarrow> notification \<Rightarrow> system \<Rightarrow> failure + system" where
  "call_subscriber E sub n sy =
     (case sub of
        None \<Rightarrow> Inl Null_deref
      | Some k \<Rightarrow>
          let sy = sy\<lparr>events := events sy @ [Notified k n]\<rparr>
          in Inr (if calls_stop E k n then stop sy else sy))"

end
