(* ===== verification/Monitor_Notify.thy ===== *)
theory Monitor_Notify
  imports Monitor_State
begin

text \<open>
  How \<open>NetworkMonitor\<close> talks to its subscribers (src/monitor/NetworkMonitor.cpp): the three
  \<open>notifyChanges\<close>, \<open>notifyInterfaceAdded\<close>, \<open>notifyInterfaceRemoved\<close>, and the subscription
  functions. \<open>isChanged\<close> counts itself in the tracker, so the functions return the tracker too.
\<close>

section \<open>Notification of changes\<close>

text \<open>One \<open>if (forceNotify || tracker.isChanged(flag)) subscriber->on...\<close>.\<close>

definition notify_aspect ::
  "environment \<Rightarrow> subscriber \<Rightarrow> bool \<Rightarrow> ChangedFlag \<Rightarrow> (tracker \<Rightarrow> notification) \<Rightarrow>
   tracker \<times> system \<Rightarrow> failure + tracker \<times> system" where
  "notify_aspect E sub forceNotify flag note st =
     (case st of (tracker, sy) \<Rightarrow>
        res_bind (if forceNotify then Inr (True, tracker) else isChanged flag tracker) (\<lambda>(b, tracker).
        if b then res_bind (call_subscriber E sub (note tracker) sy) (\<lambda>sy. Inr (tracker, sy))
        else Inr (tracker, sy)))"

definition notifyChanges_tracker ::
  "environment \<Rightarrow> subscriber \<Rightarrow> interface \<Rightarrow> bool \<Rightarrow> tracker \<times> system \<Rightarrow> failure + tracker \<times> system" where
  "notifyChanges_tracker E sub intf forceNotify st =
     res_bind (notify_aspect E sub forceNotify Changed_Name
       (\<lambda>_. Interface_name_changed intf) st) (\<lambda>st.
     res_bind (notify_aspect E sub forceNotify Changed_OperationalState
       (\<lambda>t. Operational_state_changed intf (m_operationalState t)) st) (\<lambda>st.
     res_bind (notify_aspect E sub forceNotify Changed_NetworkAddresses
       (\<lambda>t. Network_addresses_changed intf (m_networkAddresses t)) st) (\<lambda>st.
     res_bind (notify_aspect E sub forceNotify Changed_GatewayAddress
       (\<lambda>t. Gateway_address_changed intf (m_gateway t)) st) (\<lambda>st.
     res_bind (notify_aspect E sub forceNotify Changed_MacAddress
       (\<lambda>t. Mac_address_changed intf (m_macAddress t)) st) (\<lambda>st.
     res_bind (notify_aspect E sub forceNotify Changed_BroadcastAddress
       (\<lambda>t. Broadcast_address_changed intf (m_broadcastAddress t)) st) (\<lambda>st.
     notify_aspect E sub forceNotify Changed_LinkFlags
       (\<lambda>t. Link_flags_changed intf (m_linkFlags t)) st))))))"

text \<open>The inner loop of \<open>notifyChanges()\<close>, over the subscribers.\<close>

fun notify_subscribers ::
  "environment \<Rightarrow> interface \<Rightarrow> (subscriber \<times> interfaces) list \<Rightarrow> tracker \<times> system \<Rightarrow>
   failure + tracker \<times> system" where
  "notify_subscribers E intf [] st = Inr st"
| "notify_subscribers E intf ((sub, intfs) # subs) st =
     res_bind (if interfaces_contains intf intfs then notifyChanges_tracker E sub intf False st
               else Inr st)
       (notify_subscribers E intf subs)"

text \<open>The outer loop, over the trackers, which it updates in place.\<close>

fun notify_trackers ::
  "environment \<Rightarrow> (subscriber \<times> interfaces) list \<Rightarrow> (u32, tracker) std_map \<Rightarrow> system \<Rightarrow>
   failure + (u32, tracker) std_map \<times> system" where
  "notify_trackers E subs [] sy = Inr ([], sy)"
| "notify_trackers E subs ((index, tracker) # ts) sy =
     (let intf = \<lparr>if_index = index, if_name = m_name tracker\<rparr> in
      res_bind (notify_subscribers E intf subs (tracker, sy)) (\<lambda>(tracker, sy).
      res_bind (notify_trackers E subs ts sy) (\<lambda>(ts, sy).
      Inr ((index, clearChangedFlags tracker) # ts, sy))))"

definition notifyChanges :: "environment \<Rightarrow> system \<Rightarrow> failure + system" where
  "notifyChanges E sy =
     (if m_subscribers sy = [] then Inr sy
      else res_bind (notify_trackers E (m_subscribers sy) (m_trackers sy) sy) (\<lambda>(ts, sy).
        Inr (sy\<lparr>m_trackers := ts\<rparr>)))"

text \<open>
  \<open>notifyChanges(subscriber, intfs)\<close>: everything there is to know of the interfaces subscribed to.
  The trackers are const here, and a forced notification does not query the flags.
\<close>

fun notify_all ::
  "environment \<Rightarrow> subscriber \<Rightarrow> interfaces \<Rightarrow> (u32, tracker) std_map \<Rightarrow> system \<Rightarrow> failure + system" where
  "notify_all E sub intfs [] sy = Inr sy"
| "notify_all E sub intfs ((index, tracker) # ts) sy =
     (let intf = \<lparr>if_index = index, if_name = m_name tracker\<rparr> in
      res_bind (if interfaces_contains intf intfs
                then res_bind (notifyChanges_tracker E sub intf True (tracker, sy)) (\<lambda>(_, sy). Inr sy)
                else Inr sy)
        (notify_all E sub intfs ts))"

definition notifyChanges_subscriber :: "environment \<Rightarrow> subscriber \<Rightarrow> interfaces \<Rightarrow> system \<Rightarrow> failure + system" where
  "notifyChanges_subscriber E sub intfs sy =
     (if sub = None \<or> intfs = [] then Inr sy else notify_all E sub intfs (m_trackers sy) sy)"

section \<open>Interfaces that come and go\<close>

fun notify_each :: "environment \<Rightarrow> (subscriber \<times> interfaces) list \<Rightarrow> notification \<Rightarrow> system \<Rightarrow> failure + system" where
  "notify_each E [] n sy = Inr sy"
| "notify_each E ((sub, _) # subs) n sy = res_bind (call_subscriber E sub n sy) (notify_each E subs n)"

definition notifyInterfaceAdded :: "environment \<Rightarrow> interface \<Rightarrow> system \<Rightarrow> failure + system" where
  "notifyInterfaceAdded E intf sy = notify_each E (m_subscribers sy) (Interface_added intf) sy"

definition notifyInterfaceRemoved :: "environment \<Rightarrow> interface \<Rightarrow> system \<Rightarrow> failure + system" where
  "notifyInterfaceRemoved E intf sy = notify_each E (m_subscribers sy) (Interface_removed intf) sy"

section \<open>Subscriptions\<close>

text \<open>\<open>m_subscribers[subscriber] = interfaces\<close>\<close>

fun subs_put :: "subscriber \<Rightarrow> interfaces \<Rightarrow> (subscriber \<times> interfaces) list \<Rightarrow> (subscriber \<times> interfaces) list" where
  "subs_put s i [] = [(s, i)]"
| "subs_put s i ((s', i') # subs) = (if s' = s then (s, i) # subs else (s', i') # subs_put s i subs)"

fun subs_erase :: "subscriber \<Rightarrow> (subscriber \<times> interfaces) list \<Rightarrow> (subscriber \<times> interfaces) list" where
  "subs_erase s [] = []"
| "subs_erase s ((s', i') # subs) = (if s' = s then subs else (s', i') # subs_erase s subs)"

definition subscribe :: "environment \<Rightarrow> interfaces \<Rightarrow> subscriber \<Rightarrow> system \<Rightarrow> failure + system" where
  "subscribe E interfaces sub sy =
     (if interfaces = [] then Inr sy
      else notifyChanges_subscriber E sub interfaces
        (sy\<lparr>m_subscribers := subs_put sub interfaces (m_subscribers sy)\<rparr>))"

definition unsubscribe :: "subscriber \<Rightarrow> system \<Rightarrow> system" where
  "unsubscribe sub sy =
     (if sub = None then sy
      else if map_of (m_subscribers sy) sub \<noteq> None
      then sy\<lparr>m_subscribers := subs_erase sub (m_subscribers sy)\<rparr>
      else sy)"

definition updateSubscription :: "environment \<Rightarrow> interfaces \<Rightarrow> subscriber \<Rightarrow> system \<Rightarrow> failure + system" where
  "updateSubscription E interfaces sub sy =
     (if sub = None then Inr sy
      else if interfaces = [] then Inr (unsubscribe sub sy)
      else if map_of (m_subscribers sy) sub \<noteq> None
      then notifyChanges_subscriber E sub interfaces
        (sy\<lparr>m_subscribers := subs_put sub interfaces (m_subscribers sy)\<rparr>)
      else Inr sy)"

end
