(* ===== verification/Tracker_Facts.thy ===== *)
theory Tracker_Facts
  imports Status_Tracker
begin

unbundle bit_operations_syntax

text \<open>
  The lemmas about the status tracker: what each setter does to the aspect it sets, to the change
  flags and to the counters. The locale \<open>tracked_setter\<close> is the contract the six setters share;
  \<open>tracked\<close> relates a tracker to a later one in which no change has gone unflagged, and
  \<open>tracker_inv\<close> is the invariant every operation keeps.
\<close>

named_theorems tracker_simps \<open>effects of the tracker operations on fields\<close>

section \<open>Change flags\<close>

definition changed :: "ChangedFlag \<Rightarrow> tracker \<Rightarrow> bool" where
  "changed f t \<longleftrightarrow> bit (m_changedFlags t) (ChangedFlag_underlying f)"

text \<open>The result of \<open>touch\<close> for a flag below \<open>FlagsCount\<close>.\<close>

definition touched :: "int \<Rightarrow> ChangedFlag \<Rightarrow> tracker \<Rightarrow> tracker" where
  "touched now f t =
     (if changed f t then t
      else bump changedFlagChanges_update
        (t\<lparr>m_lastChanged := now, m_changedFlags := set_bit (ChangedFlag_underlying f) (m_changedFlags t)\<rparr>))"

lemma ChangedFlag_range: "ChangedFlag_underlying f < 7 \<longleftrightarrow> f \<noteq> Changed_FlagsCount"
  by (cases f) auto

lemma ChangedFlag_underlying_inj: "ChangedFlag_underlying f = ChangedFlag_underlying g \<longleftrightarrow> f = g"
  by (cases f; cases g) auto

lemma touch_ok: "f \<noteq> Changed_FlagsCount \<Longrightarrow> touch now f t = Inr (touched now f t)"
  by (simp add: touch_def touched_def changed_def fs_test_in_range fs_set_in_range ChangedFlag_range)

lemma touch_throws: "touch now Changed_FlagsCount t = Inl Out_of_range"
  by (simp add: touch_def fs_test_def)

lemma changed_FlagsCount: "\<not> changed Changed_FlagsCount t"
  using bit_imp_le_length [of "m_changedFlags t" 7] by (auto simp: changed_def)

lemma changed_touched: "f \<noteq> Changed_FlagsCount \<Longrightarrow> changed g (touched now f t) \<longleftrightarrow> g = f \<or> changed g t"
  using ChangedFlag_range [of f]
  by (auto simp: touched_def changed_def bump_def bit_set_bit_iff ChangedFlag_underlying_inj)

lemma touched_fields [tracker_simps]:
  "m_name (touched now f t) = m_name t"
  "m_macAddress (touched now f t) = m_macAddress t"
  "m_broadcastAddress (touched now f t) = m_broadcastAddress t"
  "m_operationalState (touched now f t) = m_operationalState t"
  "m_networkAddresses (touched now f t) = m_networkAddresses t"
  "m_gateway (touched now f t) = m_gateway t"
  "m_linkFlags (touched now f t) = m_linkFlags t"
  by (simp_all add: touched_def bump_def)

lemma bump_fields [tracker_simps]:
  "m_name (bump cu t) = m_name t"
  "m_macAddress (bump cu t) = m_macAddress t"
  "m_broadcastAddress (bump cu t) = m_broadcastAddress t"
  "m_operationalState (bump cu t) = m_operationalState t"
  "m_networkAddresses (bump cu t) = m_networkAddresses t"
  "m_gateway (bump cu t) = m_gateway t"
  "m_linkFlags (bump cu t) = m_linkFlags t"
  "m_changedFlags (bump cu t) = m_changedFlags t"
  "m_lastChanged (bump cu t) = m_lastChanged t"
  "m_nerdstats (bump cu t) = cu (\<lambda>c. c + 1) (m_nerdstats t)"
  by (simp_all add: bump_def)

lemma changed_bump [tracker_simps]: "changed f (bump cu t) = changed f t"
  by (simp add: changed_def tracker_simps)

section \<open>Aspects of an interface\<close>

text \<open>What a change flag is about: the value the subscribers are told.\<close>

datatype aspect =
    Name_is string
  | LinkFlags_are LinkFlags
  | OperationalState_is OperationalState
  | MacAddress_is eth_address
  | BroadcastAddress_is eth_address
  | GatewayAddress_is "ip_address option"
  | NetworkAddresses_are "net_address list"
  | Nothing

fun aspect_of :: "ChangedFlag \<Rightarrow> tracker \<Rightarrow> aspect" where
  "aspect_of Changed_Name t = Name_is (m_name t)"
| "aspect_of Changed_LinkFlags t = LinkFlags_are (m_linkFlags t)"
| "aspect_of Changed_OperationalState t = OperationalState_is (m_operationalState t)"
| "aspect_of Changed_MacAddress t = MacAddress_is (m_macAddress t)"
| "aspect_of Changed_BroadcastAddress t = BroadcastAddress_is (m_broadcastAddress t)"
| "aspect_of Changed_GatewayAddress t = GatewayAddress_is (m_gateway t)"
| "aspect_of Changed_NetworkAddresses t = NetworkAddresses_are (m_networkAddresses t)"
| "aspect_of Changed_FlagsCount t = Nothing"

lemma aspect_touched [tracker_simps]: "aspect_of g (touched now f t) = aspect_of g t"
  by (cases g) (simp_all add: tracker_simps)

lemma aspect_bump [tracker_simps]: "aspect_of g (bump cu t) = aspect_of g t"
  by (cases g) (simp_all add: tracker_simps)

definition tracked :: "tracker \<Rightarrow> tracker \<Rightarrow> bool" where
  "tracked t t' \<longleftrightarrow>
     (\<forall>f. aspect_of f t' \<noteq> aspect_of f t \<longrightarrow> changed f t') \<and> (\<forall>f. changed f t \<longrightarrow> changed f t')"

lemma tracked_refl: "tracked t t"
  by (simp add: tracked_def)

lemma tracked_trans: "tracked t u \<Longrightarrow> tracked u v \<Longrightarrow> tracked t v"
  by (metis tracked_def)

lemma tracked_unflagged: "tracked t t' \<Longrightarrow> \<not> changed f t' \<Longrightarrow> aspect_of f t' = aspect_of f t"
  by (auto simp: tracked_def)

lemma tracked_touched:
  assumes "f \<noteq> Changed_FlagsCount" and "m_changedFlags u = m_changedFlags t"
    and "\<And>g. g \<noteq> f \<Longrightarrow> aspect_of g u = aspect_of g t"
  shows "tracked t (touched now f u)"
  using assms by (auto simp: tracked_def changed_touched tracker_simps) (auto simp: changed_def)

lemma tracked_bump: "tracked t (bump cu u) \<longleftrightarrow> tracked t u"
  by (simp add: tracked_def tracker_simps)

section \<open>The invariant\<close>

text \<open>
  The addresses are a \<open>std::set\<close> of well-formed addresses, and the counters add up: the flags
  that are set are those raised and not yet cleared, the addresses those added and not removed.
\<close>

definition flags_balanced :: "tracker \<Rightarrow> bool" where
  "flags_balanced t \<longleftrightarrow>
     changedFlagChanges (m_nerdstats t) =
     changedFlagClears (m_nerdstats t) + word_of_nat (fs_count (m_changedFlags t))"

definition addresses_balanced :: "tracker \<Rightarrow> bool" where
  "addresses_balanced t \<longleftrightarrow>
     networkAddressesAdded (m_nerdstats t) =
     networkAddressesRemoved (m_nerdstats t) + word_of_nat (length (m_networkAddresses t))"

definition tracker_wf :: "tracker \<Rightarrow> bool" where
  "tracker_wf t \<longleftrightarrow>
     eth_wf (m_macAddress t) \<and> eth_wf (m_broadcastAddress t) \<and>
     ordered_by id (m_networkAddresses t) \<and> (\<forall>a\<in>set (m_networkAddresses t). net_wf a) \<and>
     pred_option ip_wf (m_gateway t)"

definition tracker_inv :: "tracker \<Rightarrow> bool" where
  "tracker_inv t \<longleftrightarrow> tracker_wf t \<and> flags_balanced t \<and> addresses_balanced t"

lemma ip_wf_default: "ip_wf ip_default"
  by (simp add: ip_default_def)

lemma fs_count_empty [simp]: "fs_count (fs_empty :: 'n::len word) = 0"
  by (simp add: fs_count_card fs_empty_def)

lemma tracker_inv_new: "tracker_inv (tracker_new now)"
  by (simp add: tracker_inv_def tracker_wf_def flags_balanced_def addresses_balanced_def
      tracker_new_def nerdstats_zero_def eth_wf_default)

lemma not_changed_new: "\<not> changed f (tracker_new now)"
  by (simp add: changed_def tracker_new_def fs_empty_def)

lemma flags_balanced_touched:
  assumes "f \<noteq> Changed_FlagsCount"
  shows "flags_balanced (touched now f t) \<longleftrightarrow> flags_balanced t"
  using assms ChangedFlag_range [of f]
  by (auto simp: flags_balanced_def touched_def changed_def bump_def fs_count_set_bit)

lemma addresses_balanced_touched [tracker_simps]:
  "addresses_balanced (touched now f t) \<longleftrightarrow> addresses_balanced t"
  by (simp add: addresses_balanced_def touched_def bump_def)

lemma tracker_wf_touched [tracker_simps]: "tracker_wf (touched now f t) \<longleftrightarrow> tracker_wf t"
  by (simp add: tracker_wf_def tracker_simps)

lemma tracker_wf_bump [tracker_simps]: "tracker_wf (bump cu t) \<longleftrightarrow> tracker_wf t"
  by (simp add: tracker_wf_def tracker_simps)

text \<open>Counters that take no part in the two balances.\<close>

definition neutral_counter :: "((u64 \<Rightarrow> u64) \<Rightarrow> nerdstats \<Rightarrow> nerdstats) \<Rightarrow> bool" where
  "neutral_counter cu \<longleftrightarrow>
     (\<forall>g s. changedFlagChanges (cu g s) = changedFlagChanges s \<and>
            changedFlagClears (cu g s) = changedFlagClears s \<and>
            networkAddressesAdded (cu g s) = networkAddressesAdded s \<and>
            networkAddressesRemoved (cu g s) = networkAddressesRemoved s)"

lemma neutral_counters:
  "neutral_counter nameChanges_update" "neutral_counter linkFlagChanges_update"
  "neutral_counter operationalStateChanges_update" "neutral_counter macAddressChanges_update"
  "neutral_counter broadcastAddressChanges_update" "neutral_counter gatewayAddressChanges_update"
  "neutral_counter gatewayAddressClears_update" "neutral_counter changedFlagChecks_update"
  "neutral_counter networkAddressesNoChangeUpdates_update"
  by (simp_all add: neutral_counter_def)

lemma tracker_inv_bump: "neutral_counter cu \<Longrightarrow> tracker_inv (bump cu t) \<longleftrightarrow> tracker_inv t"
  by (simp add: tracker_inv_def tracker_simps flags_balanced_def addresses_balanced_def neutral_counter_def)

lemma tracker_inv_touched:
  "f \<noteq> Changed_FlagsCount \<Longrightarrow> tracker_inv (touched now f t) \<longleftrightarrow> tracker_inv t"
  by (simp add: tracker_inv_def tracker_simps flags_balanced_touched)

end
