(* ===== verification/Tracker_Operations.thy ===== *)
theory Tracker_Operations
  imports Tracker_Facts
begin

unbundle bit_operations_syntax

text \<open>
  The operations of the status tracker as the monitor uses them. The six setters share the contract
  \<open>tracked_setter\<close>; clearing the gateway and the two address operations have lemmas of their own.
  Then \<open>tracker_op\<close> lists every operation of the class that changes it, \<open>tracker_run\<close> runs a
  sequence of them, and \<open>link_view\<close> is the abstract state they are shown to implement.
\<close>

section \<open>The contract of the setters\<close>

text \<open>
  A setter compares, stores, touches its flag and counts. \<open>store\<close> is what it does to the member,
  \<open>differs\<close> the comparison, \<open>valid\<close> the arguments the code can pass.
\<close>

locale tracked_setter =
  fixes op :: "int \<Rightarrow> 'a \<Rightarrow> tracker \<Rightarrow> failure + tracker"
    and flag :: ChangedFlag
    and store :: "'a \<Rightarrow> tracker \<Rightarrow> tracker"
    and counter :: "(u64 \<Rightarrow> u64) \<Rightarrow> nerdstats \<Rightarrow> nerdstats"
    and differs :: "'a \<Rightarrow> tracker \<Rightarrow> bool"
    and valid :: "'a \<Rightarrow> bool"
  assumes op_eq: "op now v t =
      (if differs v t then Inr (bump counter (touched now flag (store v t))) else Inr t)"
    and flag_real: "flag \<noteq> Changed_FlagsCount"
    and counter_neutral: "neutral_counter counter"
    and store_bookkeeping: "m_changedFlags (store v t) = m_changedFlags t"
      "m_nerdstats (store v t) = m_nerdstats t" "m_networkAddresses (store v t) = m_networkAddresses t"
    and store_frame: "g \<noteq> flag \<Longrightarrow> aspect_of g (store v t) = aspect_of g t"
    and store_same: "\<not> differs v t \<Longrightarrow> store v t = t"
    and store_wf: "valid v \<Longrightarrow> tracker_wf t \<Longrightarrow> tracker_wf (store v t)"
begin

definition result :: "int \<Rightarrow> 'a \<Rightarrow> tracker \<Rightarrow> tracker" where
  "result now v t = (if differs v t then bump counter (touched now flag (store v t)) else t)"

lemma op_ok: "op now v t = Inr (result now v t)"
  by (simp add: op_eq result_def)

lemma result_aspect: "aspect_of g (result now v t) = aspect_of g (store v t)"
  by (simp add: result_def tracker_simps store_same)

lemma result_changed: "changed g (result now v t) \<longleftrightarrow> g = flag \<and> differs v t \<or> changed g t"
  using changed_touched [OF flag_real, of g now "store v t"]
  by (auto simp: result_def tracker_simps) (auto simp: changed_def store_bookkeeping)

lemma result_tracked: "tracked t (result now v t)"
proof -
  have "tracked t (touched now flag (store v t))"
    by (rule tracked_touched) (simp_all add: flag_real store_bookkeeping store_frame)
  then show ?thesis
    by (simp add: result_def tracked_bump tracked_refl)
qed

lemma result_inv: "valid v \<Longrightarrow> tracker_inv t \<Longrightarrow> tracker_inv (result now v t)"
  using store_wf [of v t]
  by (simp add: result_def tracker_inv_bump counter_neutral tracker_inv_touched flag_real)
    (simp add: tracker_inv_def flags_balanced_def addresses_balanced_def store_bookkeeping)

end

text \<open>Comparing aspects flag by flag.\<close>

lemma aspect_of_eq_iff:
  "aspect_of g u = aspect_of g t \<longleftrightarrow>
     (case g of
        Changed_Name \<Rightarrow> m_name u = m_name t
      | Changed_LinkFlags \<Rightarrow> m_linkFlags u = m_linkFlags t
      | Changed_OperationalState \<Rightarrow> m_operationalState u = m_operationalState t
      | Changed_MacAddress \<Rightarrow> m_macAddress u = m_macAddress t
      | Changed_BroadcastAddress \<Rightarrow> m_broadcastAddress u = m_broadcastAddress t
      | Changed_GatewayAddress \<Rightarrow> m_gateway u = m_gateway t
      | Changed_NetworkAddresses \<Rightarrow> m_networkAddresses u = m_networkAddresses t
      | Changed_FlagsCount \<Rightarrow> True)"
  by (cases g) auto

lemmas setter_facts = touch_ok neutral_counters tracker_wf_def aspect_of_eq_iff ip_wf_default

interpretation name_setter: tracked_setter setName Changed_Name
    "\<lambda>name t. t\<lparr>m_name := name\<rparr>" nameChanges_update "\<lambda>name t. m_name t \<noteq> name" "\<lambda>name. True"
  by unfold_locales (auto simp: setName_def setter_facts split: ChangedFlag.splits)

interpretation oper_setter: tracked_setter setOperationalState Changed_OperationalState
    "\<lambda>op t. t\<lparr>m_operationalState := op\<rparr>" operationalStateChanges_update
    "\<lambda>op t. m_operationalState t \<noteq> op" "\<lambda>op. True"
  by unfold_locales (auto simp: setOperationalState_def setter_facts split: ChangedFlag.splits)

interpretation mac_setter: tracked_setter setMacAddress Changed_MacAddress
    "\<lambda>a t. t\<lparr>m_macAddress := a\<rparr>" macAddressChanges_update
    "\<lambda>a t. m_macAddress t \<noteq> a \<or> eth_allZeroes a" eth_wf
  by unfold_locales (auto simp: setMacAddress_def setter_facts split: ChangedFlag.splits)

interpretation brd_setter: tracked_setter setBroadcastAddress Changed_BroadcastAddress
    "\<lambda>a t. t\<lparr>m_broadcastAddress := a\<rparr>" broadcastAddressChanges_update
    "\<lambda>a t. m_broadcastAddress t \<noteq> a \<or> eth_allZeroes a" eth_wf
  by unfold_locales (auto simp: setBroadcastAddress_def setter_facts split: ChangedFlag.splits)

interpretation gw_setter: tracked_setter setGatewayAddress Changed_GatewayAddress
    "\<lambda>a t. t\<lparr>m_gateway := Some a\<rparr>" gatewayAddressChanges_update
    "\<lambda>a t. m_gateway t \<noteq> Some a" ip_wf
  by unfold_locales (auto simp: setGatewayAddress_def setter_facts split: ChangedFlag.splits)

interpretation flags_setter: tracked_setter updateLinkFlags Changed_LinkFlags
    "\<lambda>f t. t\<lparr>m_linkFlags := f\<rparr>" linkFlagChanges_update "\<lambda>f t. m_linkFlags t \<noteq> f" "\<lambda>f. True"
  by unfold_locales (auto simp: updateLinkFlags_def setter_facts split: ChangedFlag.splits)

text \<open>Clearing the gateway obeys the same contract, with a store that depends on the tracker.\<close>

interpretation gw_clear: tracked_setter clearGatewayAddress Changed_GatewayAddress
    "\<lambda>r t. if m_gateway t \<noteq> None then t\<lparr>m_gateway := Some ip_default\<rparr> else t"
    gatewayAddressClears_update "\<lambda>r t. m_gateway t \<noteq> None" "\<lambda>r. True"
  by unfold_locales (auto simp: clearGatewayAddress_def setter_facts split: ChangedFlag.splits)

section \<open>Adding and removing addresses\<close>

lemma add_present:
  assumes "ordered_by id (m_networkAddresses t)" and "a \<in> set (m_networkAddresses t)"
  shows "addNetworkAddress now a t = Inr (bump networkAddressesNoChangeUpdates_update t)"
  using assms
  by (simp add: addNetworkAddress_def set_erase_count_def set_contains_iff erase_insert_present)

lemma add_absent:
  assumes "a \<notin> set (m_networkAddresses t)"
  shows "addNetworkAddress now a t =
    Inr (bump networkAddressesAdded_update (touched now Changed_NetworkAddresses
      (t\<lparr>m_networkAddresses := set_insert id a (m_networkAddresses t)\<rparr>)))"
  using assms
  by (simp add: addNetworkAddress_def set_erase_count_def set_contains_iff set_erase_absent touch_ok)

lemma remove_absent:
  assumes "a \<notin> set (m_networkAddresses t)"
  shows "removeNetworkAddress now a t = Inr t"
  using assms
  by (simp add: removeNetworkAddress_def set_erase_count_def set_contains_iff set_erase_absent)

text \<open>The tracker after an address that was present has left, before the gateway is looked at.\<close>

definition removed :: "int \<Rightarrow> net_address \<Rightarrow> tracker \<Rightarrow> tracker" where
  "removed now a t = touched now Changed_NetworkAddresses
     (t\<lparr>m_networkAddresses := set_erase id a (m_networkAddresses t),
        m_nerdstats := networkAddressesRemoved_update (\<lambda>c. c + 1) (m_nerdstats t)\<rparr>)"

lemma remove_present:
  assumes "a \<in> set (m_networkAddresses t)"
  shows "removeNetworkAddress now a t =
    (if \<forall>b\<in>set (set_erase id a (m_networkAddresses t)). net_family b \<noteq> IPv4
     then clearGatewayAddress now AllIPv4AddressesRemoved (removed now a t)
     else Inr (removed now a t))"
  using assms
  by (simp add: removeNetworkAddress_def set_erase_count_def set_contains_iff touch_ok removed_def
      tracker_simps filter_empty_conv Let_def)

lemma removed_tracked: "tracked t (removed now a t)"
  unfolding removed_def
  by (rule tracked_touched) (auto simp: aspect_of_eq_iff split: ChangedFlag.splits)

lemma removed_fields:
  "m_networkAddresses (removed now a t) = set_erase id a (m_networkAddresses t)"
  "m_gateway (removed now a t) = m_gateway t"
  "g \<noteq> Changed_NetworkAddresses \<Longrightarrow> aspect_of g (removed now a t) = aspect_of g t"
  "changed g (removed now a t) \<longleftrightarrow> g = Changed_NetworkAddresses \<or> changed g t"
  by (simp_all add: removed_def tracker_simps changed_touched)
    (auto simp: aspect_of_eq_iff changed_def split: ChangedFlag.splits)

lemma removed_inv:
  assumes "tracker_inv t" and "a \<in> set (m_networkAddresses t)"
  shows "tracker_inv (removed now a t)"
proof -
  have "length (m_networkAddresses t) = Suc (length (set_erase id a (m_networkAddresses t)))"
    using assms(2) length_set_erase [of id a "m_networkAddresses t"]
    by (auto simp: set_erase_count_def set_contains_iff dest: length_pos_if_in_set)
  then show ?thesis
    using assms set_erase_subset [of id a "m_networkAddresses t"]
    unfolding removed_def
    by (auto simp: tracker_inv_touched)
      (auto simp: tracker_inv_def tracker_wf_def flags_balanced_def addresses_balanced_def
        ordered_by_erase)
qed

lemma touched_address_counters [tracker_simps]:
  "networkAddressesAdded (m_nerdstats (touched now f t)) = networkAddressesAdded (m_nerdstats t)"
  "networkAddressesRemoved (m_nerdstats (touched now f t)) = networkAddressesRemoved (m_nerdstats t)"
  by (simp_all add: touched_def bump_def)

lemma flags_balanced_added:
  "flags_balanced (bump networkAddressesAdded_update t) \<longleftrightarrow> flags_balanced t"
  by (simp add: flags_balanced_def tracker_simps)

lemma added_inv:
  assumes "tracker_inv t" and "net_wf a" and "a \<notin> set (m_networkAddresses t)"
  shows "tracker_inv (bump networkAddressesAdded_update (touched now Changed_NetworkAddresses
    (t\<lparr>m_networkAddresses := set_insert id a (m_networkAddresses t)\<rparr>)))"
  unfolding tracker_inv_def
proof (intro conjI)
  let ?u = "t\<lparr>m_networkAddresses := set_insert id a (m_networkAddresses t)\<rparr>"
  have ord: "ordered_by id (m_networkAddresses t)"
    using assms(1) by (simp add: tracker_inv_def tracker_wf_def)
  show "tracker_wf (bump networkAddressesAdded_update (touched now Changed_NetworkAddresses ?u))"
    using assms set_insert_subset [of id a "m_networkAddresses t"]
    by (auto simp: tracker_simps tracker_inv_def) (auto simp: tracker_wf_def ordered_by_insert)
  show "flags_balanced (bump networkAddressesAdded_update (touched now Changed_NetworkAddresses ?u))"
    using assms(1)
    by (simp add: flags_balanced_added flags_balanced_touched) (simp add: tracker_inv_def flags_balanced_def)
  show "addresses_balanced (bump networkAddressesAdded_update (touched now Changed_NetworkAddresses ?u))"
    using assms length_set_insert [OF ord, of a]
    by (simp add: addresses_balanced_def tracker_simps tracker_inv_def set_contains_iff)
qed

lemma add_effect:
  assumes "tracker_wf t"
  obtains t' where "addNetworkAddress now a t = Inr t'" and "tracked t t'"
    and "set (m_networkAddresses t') = insert a (set (m_networkAddresses t))"
    and "\<And>g. g \<noteq> Changed_NetworkAddresses \<Longrightarrow> aspect_of g t' = aspect_of g t"
    and "\<And>g. changed g t' \<Longrightarrow> changed g t \<or> aspect_of g t' \<noteq> aspect_of g t"
    and "net_wf a \<Longrightarrow> tracker_inv t \<Longrightarrow> tracker_inv t'"
proof (cases "a \<in> set (m_networkAddresses t)")
  case True
  with assms show ?thesis
    by (intro that [of "bump networkAddressesNoChangeUpdates_update t"])
      (auto simp: add_present tracker_wf_def tracker_simps tracked_bump tracked_refl
        tracker_inv_bump neutral_counters)
next
  case False
  let ?u = "t\<lparr>m_networkAddresses := set_insert id a (m_networkAddresses t)\<rparr>"
  let ?r = "bump networkAddressesAdded_update (touched now Changed_NetworkAddresses ?u)"
  have "tracked t (touched now Changed_NetworkAddresses ?u)"
    by (rule tracked_touched) (auto simp: aspect_of_eq_iff split: ChangedFlag.splits)
  moreover have "set (set_insert id a (m_networkAddresses t)) = insert a (set (m_networkAddresses t))"
    using False by (simp add: set_insert_absent)
  moreover have "changed g ?r \<longleftrightarrow> g = Changed_NetworkAddresses \<or> changed g t" for g
    using changed_touched [of Changed_NetworkAddresses g now ?u]
    by (auto simp: tracker_simps) (auto simp: changed_def)
  moreover have "m_networkAddresses ?r \<noteq> m_networkAddresses t"
    using False calculation(2) by (auto simp: tracker_simps)
  ultimately show ?thesis
    using False
    by (intro that [of ?r])
      (auto simp: add_absent added_inv tracker_simps tracked_bump aspect_of_eq_iff split: ChangedFlag.splits)
qed

section \<open>Clearing flags\<close>

definition flag_cleared :: "ChangedFlag \<Rightarrow> tracker \<Rightarrow> tracker" where
  "flag_cleared f t =
     (if changed f t
      then bump changedFlagClears_update
        (t\<lparr>m_changedFlags := unset_bit (ChangedFlag_underlying f) (m_changedFlags t)\<rparr>)
      else t)"

lemma clearFlag_ok: "f \<noteq> Changed_FlagsCount \<Longrightarrow> clearFlag f t = Inr (flag_cleared f t)"
  by (simp add: clearFlag_def flag_cleared_def changed_def fs_test_in_range fs_reset_in_range
      ChangedFlag_range)

lemma flag_cleared_aspect [tracker_simps]: "aspect_of g (flag_cleared f t) = aspect_of g t"
  by (simp add: flag_cleared_def tracker_simps) (simp add: aspect_of_eq_iff split: ChangedFlag.splits)

lemma flag_cleared_changed: "changed g (flag_cleared f t) \<longleftrightarrow> g \<noteq> f \<and> changed g t"
  using ChangedFlag_range [of f] changed_FlagsCount [of t]
  by (auto simp: flag_cleared_def tracker_simps)
    (auto simp: changed_def bit_unset_bit_iff ChangedFlag_underlying_inj)

lemma flag_cleared_inv:
  assumes "tracker_inv t"
  shows "tracker_inv (flag_cleared f t)"
proof (cases "changed f t")
  case True
  let ?u = "t\<lparr>m_changedFlags := unset_bit (ChangedFlag_underlying f) (m_changedFlags t)\<rparr>"
  from True have "f \<noteq> Changed_FlagsCount"
    using changed_FlagsCount by auto
  moreover have "0 < fs_count (m_changedFlags t)"
    using True by (auto simp: fs_count_card card_gt_0_iff changed_def)
  ultimately have "Suc (fs_count (m_changedFlags ?u)) = fs_count (m_changedFlags t)"
    using True fs_count_unset_bit [of "ChangedFlag_underlying f" "m_changedFlags t"]
    by (simp add: changed_def ChangedFlag_range)
  then have "(word_of_nat (fs_count (m_changedFlags t)) :: u64) = word_of_nat (fs_count (m_changedFlags ?u)) + 1"
    by (metis of_nat_Suc add.commute)
  with True assms show ?thesis
    by (simp add: flag_cleared_def tracker_inv_def tracker_simps)
      (simp add: tracker_wf_def flags_balanced_def addresses_balanced_def bump_def)
qed (use assms in \<open>simp add: flag_cleared_def\<close>)

lemma clearChangedFlags_aspect [tracker_simps]: "aspect_of g (clearChangedFlags t) = aspect_of g t"
  by (simp add: clearChangedFlags_def aspect_of_eq_iff split: ChangedFlag.splits)

lemma clearChangedFlags_changed: "\<not> changed g (clearChangedFlags t)"
  by (simp add: clearChangedFlags_def changed_def fs_reset_all_def)

lemma fs_count_reset_all [simp]: "fs_count (fs_reset_all w) = 0"
  by (simp add: fs_count_card fs_reset_all_def)

lemma clearChangedFlags_inv: "tracker_inv t \<Longrightarrow> tracker_inv (clearChangedFlags t)"
  by (simp add: tracker_inv_def tracker_wf_def flags_balanced_def addresses_balanced_def
      clearChangedFlags_def)

lemma isChanged_ok: "f \<noteq> Changed_FlagsCount \<Longrightarrow>
    isChanged f t = Inr (changed f t, bump changedFlagChecks_update t)"
  by (simp add: isChanged_def changed_def tracker_simps fs_test_in_range ChangedFlag_range)

section \<open>Sequences of operations\<close>

text \<open>The operations of the class that change it, the two counting queries included.\<close>

datatype tracker_op =
    Op_setName string
  | Op_setOperationalState OperationalState
  | Op_setMacAddress eth_address
  | Op_setBroadcastAddress eth_address
  | Op_setGatewayAddress ip_address
  | Op_clearGatewayAddress GatewayClearReason
  | Op_addNetworkAddress net_address
  | Op_removeNetworkAddress net_address
  | Op_updateLinkFlags LinkFlags
  | Op_hasChanges
  | Op_isChanged ChangedFlag
  | Op_clearFlag ChangedFlag
  | Op_clearChangedFlags

fun tracker_apply :: "int \<Rightarrow> tracker_op \<Rightarrow> tracker \<Rightarrow> failure + tracker" where
  "tracker_apply now (Op_setName n) t = setName now n t"
| "tracker_apply now (Op_setOperationalState op) t = setOperationalState now op t"
| "tracker_apply now (Op_setMacAddress a) t = setMacAddress now a t"
| "tracker_apply now (Op_setBroadcastAddress a) t = setBroadcastAddress now a t"
| "tracker_apply now (Op_setGatewayAddress a) t = setGatewayAddress now a t"
| "tracker_apply now (Op_clearGatewayAddress r) t = clearGatewayAddress now r t"
| "tracker_apply now (Op_addNetworkAddress a) t = addNetworkAddress now a t"
| "tracker_apply now (Op_removeNetworkAddress a) t = removeNetworkAddress now a t"
| "tracker_apply now (Op_updateLinkFlags f) t = updateLinkFlags now f t"
| "tracker_apply now Op_hasChanges t = Inr (snd (hasChanges t))"
| "tracker_apply now (Op_isChanged f) t = map_sum id snd (isChanged f t)"
| "tracker_apply now (Op_clearFlag f) t = clearFlag f t"
| "tracker_apply now Op_clearChangedFlags t = Inr (clearChangedFlags t)"

text \<open>A run is a list of operations, each with the clock reading it takes.\<close>

fun tracker_run :: "(int \<times> tracker_op) list \<Rightarrow> tracker \<Rightarrow> failure + tracker" where
  "tracker_run [] t = Inr t"
| "tracker_run ((now, op) # ops) t = res_bind (tracker_apply now op t) (tracker_run ops)"

fun op_valid :: "tracker_op \<Rightarrow> bool" where
  "op_valid (Op_setMacAddress a) = eth_wf a"
| "op_valid (Op_setBroadcastAddress a) = eth_wf a"
| "op_valid (Op_setGatewayAddress a) = ip_wf a"
| "op_valid (Op_addNetworkAddress a) = net_wf a"
| "op_valid (Op_isChanged f) = (f \<noteq> Changed_FlagsCount)"
| "op_valid (Op_clearFlag f) = (f \<noteq> Changed_FlagsCount)"
| "op_valid _ = True"

fun op_clears :: "ChangedFlag \<Rightarrow> tracker_op \<Rightarrow> bool" where
  "op_clears g (Op_clearFlag f) = (g = f)"
| "op_clears g Op_clearChangedFlags = True"
| "op_clears g _ = False"

section \<open>The abstract view\<close>

text \<open>
  What an interface looks like to a subscriber, with the addresses as a mathematical set, and what
  each operation is supposed to do to it.
\<close>

record link_view =
  lv_name :: string
  lv_linkFlags :: LinkFlags
  lv_operationalState :: OperationalState
  lv_macAddress :: eth_address
  lv_broadcastAddress :: eth_address
  lv_gateway :: "ip_address option"
  lv_addresses :: "net_address set"

definition view_of :: "tracker \<Rightarrow> link_view" where
  "view_of t =
     \<lparr>lv_name = m_name t, lv_linkFlags = m_linkFlags t, lv_operationalState = m_operationalState t,
      lv_macAddress = m_macAddress t, lv_broadcastAddress = m_broadcastAddress t,
      lv_gateway = m_gateway t, lv_addresses = set (m_networkAddresses t)\<rparr>"

definition drop_gateway :: "link_view \<Rightarrow> link_view" where
  "drop_gateway v = v\<lparr>lv_gateway := map_option (\<lambda>_. ip_default) (lv_gateway v)\<rparr>"

fun view_step :: "tracker_op \<Rightarrow> link_view \<Rightarrow> link_view" where
  "view_step (Op_setName n) v = v\<lparr>lv_name := n\<rparr>"
| "view_step (Op_setOperationalState op) v = v\<lparr>lv_operationalState := op\<rparr>"
| "view_step (Op_setMacAddress a) v = v\<lparr>lv_macAddress := a\<rparr>"
| "view_step (Op_setBroadcastAddress a) v = v\<lparr>lv_broadcastAddress := a\<rparr>"
| "view_step (Op_setGatewayAddress a) v = v\<lparr>lv_gateway := Some a\<rparr>"
| "view_step (Op_clearGatewayAddress r) v = drop_gateway v"
| "view_step (Op_addNetworkAddress a) v = v\<lparr>lv_addresses := insert a (lv_addresses v)\<rparr>"
| "view_step (Op_removeNetworkAddress a) v =
     (let u = v\<lparr>lv_addresses := lv_addresses v - {a}\<rparr> in
      if a \<in> lv_addresses v \<and> (\<forall>b\<in>lv_addresses u. net_family b \<noteq> IPv4) then drop_gateway u else u)"
| "view_step (Op_updateLinkFlags f) v = v\<lparr>lv_linkFlags := f\<rparr>"
| "view_step _ v = v"

section \<open>What every operation guarantees\<close>

text \<open>
  One operation on a good tracker: it returns, keeps the invariant, does to the view what it is
  supposed to, raises the flag of every aspect it changes, and drops a flag only when it is a
  clearing operation.
\<close>

definition zero_aspect :: "aspect \<Rightarrow> bool" where
  "zero_aspect a \<longleftrightarrow>
     a \<in> {MacAddress_is eth_default, BroadcastAddress_is eth_default, GatewayAddress_is (Some ip_default)}"

definition good_step :: "tracker_op \<Rightarrow> tracker \<Rightarrow> tracker \<Rightarrow> bool" where
  "good_step op t t' \<longleftrightarrow>
     tracker_inv t' \<and> view_of t' = view_step op (view_of t) \<and>
     (\<forall>g. \<not> op_clears g op \<longrightarrow>
        (changed g t \<longrightarrow> changed g t') \<and> (aspect_of g t' \<noteq> aspect_of g t \<longrightarrow> changed g t')) \<and>
     (\<forall>g. changed g t' \<longrightarrow> changed g t \<or> aspect_of g t' \<noteq> aspect_of g t \<or> zero_aspect (aspect_of g t'))"

lemma eth_allZeroes_default: "eth_wf a \<Longrightarrow> eth_allZeroes a \<longleftrightarrow> a = eth_default"
  by (cases a) (auto simp: eth_wf_def eth_allZeroes_def eth_default_def list_eq_iff_nth_eq list_all_length)

lemma view_of_neutral [tracker_simps]:
  "view_of (bump cu t) = view_of t" "view_of (touched now f t) = view_of t"
  "view_of (flag_cleared f t) = view_of t" "view_of (clearChangedFlags t) = view_of t"
  by (simp_all add: view_of_def tracker_simps)
    (simp_all add: flag_cleared_def bump_def clearChangedFlags_def)

lemma good_step_quiet:
  assumes "tracker_inv t'" and "view_of t' = view_step op (view_of t)"
    and "\<And>g. aspect_of g t' = aspect_of g t" and "\<And>g. changed g t' \<longleftrightarrow> \<not> op_clears g op \<and> changed g t"
  shows "good_step op t t'"
  using assms by (simp add: good_step_def)

context tracked_setter
begin

lemma op_good:
  assumes "valid v" and "tracker_inv t" and "view_of (store v t) = view_step op' (view_of t)"
    and "differs v t \<Longrightarrow>
      aspect_of flag (store v t) \<noteq> aspect_of flag t \<or> zero_aspect (aspect_of flag (store v t))"
  shows "\<exists>t'. op now v t = Inr t' \<and> good_step op' t t'"
proof -
  have "view_of (result now v t) = view_of (store v t)"
    by (simp add: result_def tracker_simps store_same)
  then show ?thesis
    using assms result_inv [of v t now] result_tracked [of t now v]
    by (auto simp: op_ok good_step_def tracked_def result_changed result_aspect)
qed

lemma op_frame:
  assumes "op now v t = Inr t'" and "g \<noteq> flag"
  shows "aspect_of g t' = aspect_of g t" and "changed g t' \<longleftrightarrow> changed g t"
  using assms by (auto simp: op_ok result_aspect store_frame result_changed)

end

lemmas setters_ok =
  name_setter.op_ok oper_setter.op_ok mac_setter.op_ok brd_setter.op_ok gw_setter.op_ok
  flags_setter.op_ok gw_clear.op_ok

lemma setters_good:
  assumes "tracker_inv t"
  shows "\<exists>t'. setName now n t = Inr t' \<and> good_step (Op_setName n) t t'"
    and "\<exists>t'. setOperationalState now op t = Inr t' \<and> good_step (Op_setOperationalState op) t t'"
    and "eth_wf a \<Longrightarrow> \<exists>t'. setMacAddress now a t = Inr t' \<and> good_step (Op_setMacAddress a) t t'"
    and "eth_wf a \<Longrightarrow> \<exists>t'. setBroadcastAddress now a t = Inr t' \<and> good_step (Op_setBroadcastAddress a) t t'"
    and "ip_wf g \<Longrightarrow> \<exists>t'. setGatewayAddress now g t = Inr t' \<and> good_step (Op_setGatewayAddress g) t t'"
    and "\<exists>t'. updateLinkFlags now f t = Inr t' \<and> good_step (Op_updateLinkFlags f) t t'"
    and "\<exists>t'. clearGatewayAddress now r t = Inr t' \<and> good_step (Op_clearGatewayAddress r) t t'"
  by (rule name_setter.op_good oper_setter.op_good mac_setter.op_good brd_setter.op_good
      gw_setter.op_good flags_setter.op_good gw_clear.op_good;
    use assms in \<open>auto simp: view_of_def drop_gateway_def zero_aspect_def eth_allZeroes_default\<close>)+

lemma add_good:
  assumes "tracker_inv t" and "net_wf a"
  shows "\<exists>t'. addNetworkAddress now a t = Inr t' \<and> good_step (Op_addNetworkAddress a) t t'"
proof -
  have "tracker_wf t" using assms(1) by (simp add: tracker_inv_def)
  from add_effect [OF this, of now a] obtain t' where t': "addNetworkAddress now a t = Inr t'"
    "tracked t t'" "set (m_networkAddresses t') = insert a (set (m_networkAddresses t))"
    "\<And>g. g \<noteq> Changed_NetworkAddresses \<Longrightarrow> aspect_of g t' = aspect_of g t"
    "\<And>g. changed g t' \<Longrightarrow> changed g t \<or> aspect_of g t' \<noteq> aspect_of g t" "tracker_inv t'"
    using assms by metis
  moreover have "view_of t' = view_step (Op_addNetworkAddress a) (view_of t)"
    using t'(3) t'(4) [of Changed_Name] t'(4) [of Changed_LinkFlags]
      t'(4) [of Changed_OperationalState] t'(4) [of Changed_MacAddress]
      t'(4) [of Changed_BroadcastAddress] t'(4) [of Changed_GatewayAddress]
    by (simp add: view_of_def)
  ultimately show ?thesis
    by (auto simp: good_step_def tracked_def)
qed

lemma removed_view:
  assumes "tracker_wf t"
  shows "view_of (removed now a t) = (view_of t)\<lparr>lv_addresses := set (m_networkAddresses t) - {a}\<rparr>"
  using assms
  by (auto simp: removed_def tracker_simps) (auto simp: view_of_def tracker_wf_def set_set_erase)

lemma remove_good:
  assumes inv: "tracker_inv t"
  shows "\<exists>t'. removeNetworkAddress now a t = Inr t' \<and> good_step (Op_removeNetworkAddress a) t t'"
proof (cases "a \<in> set (m_networkAddresses t)")
  case False
  with inv show ?thesis
    by (auto simp: remove_absent good_step_def view_of_def)
next
  case True
  have wf: "tracker_wf t" using inv by (simp add: tracker_inv_def)
  let ?r = "removed now a t"
  have r: "tracker_inv ?r" "tracked t ?r"
    using True inv by (simp_all add: removed_inv removed_tracked)
  obtain c where c: "clearGatewayAddress now AllIPv4AddressesRemoved ?r = Inr c"
    "good_step (Op_clearGatewayAddress AllIPv4AddressesRemoved) ?r c"
    using setters_good(7) [OF r(1)] by blast
  have lost: "set_erase id a (m_networkAddresses t) \<noteq> m_networkAddresses t"
    using True wf by (metis (mono_tags, lifting) id_apply mem_Collect_eq set_set_erase tracker_wf_def)
  then have raised: "changed g ?r \<Longrightarrow> changed g t \<or> aspect_of g ?r \<noteq> aspect_of g t" for g
    by (auto simp: removed_fields aspect_of_eq_iff split: ChangedFlag.splits)
  have left: "set (set_erase id a (m_networkAddresses t)) = set (m_networkAddresses t) - {a}"
    using wf by (auto simp: tracker_wf_def set_set_erase)
  have "tracked ?r c"
    using c(2) by (simp add: good_step_def tracked_def)
  with r(2) have "tracked t c" by (rule tracked_trans)
  moreover have "changed g c \<Longrightarrow> changed g t \<or> aspect_of g c \<noteq> aspect_of g t \<or> zero_aspect (aspect_of g c)" for g
  proof (cases "g = Changed_GatewayAddress")
    case True
    then show "changed g c \<Longrightarrow> ?thesis"
      using c(2) raised [of g] by (auto simp: good_step_def removed_fields)
  next
    case False
    then show "changed g c \<Longrightarrow> ?thesis"
      using gw_clear.op_frame [OF c(1)] raised [of g] by auto
  qed
  ultimately show ?thesis
    using True r raised c lost
    by (auto simp: remove_present good_step_def removed_view [OF wf] left tracked_def
        view_of_def [of t] removed_fields Let_def)
qed

lemma apply_good:
  assumes "tracker_inv t" and "op_valid op"
  shows "\<exists>t'. tracker_apply now op t = Inr t' \<and> good_step op t t'"
proof (cases op)
  case (Op_clearFlag f)
  with assms show ?thesis
    by (auto simp: clearFlag_ok tracker_simps flag_cleared_inv flag_cleared_changed intro!: good_step_quiet)
next
  case (Op_isChanged f)
  with assms show ?thesis
    by (auto simp: isChanged_ok tracker_simps tracker_inv_bump neutral_counters intro!: good_step_quiet)
next
  case Op_hasChanges
  with assms show ?thesis
    by (auto simp: hasChanges_def Let_def tracker_simps tracker_inv_bump neutral_counters intro!: good_step_quiet)
next
  case Op_clearChangedFlags
  with assms show ?thesis
    by (auto simp: tracker_simps clearChangedFlags_inv clearChangedFlags_changed intro!: good_step_quiet)
qed (use assms in \<open>auto simp: setters_good add_good remove_good\<close>)

lemma run_good:
  assumes "tracker_inv t" and "\<forall>p\<in>set ops. op_valid (snd p)"
  shows "\<exists>t'. tracker_run ops t = Inr t' \<and> tracker_inv t' \<and>
    view_of t' = fold view_step (map snd ops) (view_of t) \<and>
    (\<forall>g. (\<forall>p\<in>set ops. \<not> op_clears g (snd p)) \<longrightarrow>
      (changed g t \<longrightarrow> changed g t') \<and> (aspect_of g t' \<noteq> aspect_of g t \<longrightarrow> changed g t'))"
  using assms
proof (induction ops arbitrary: t)
  case (Cons p ops)
  obtain now op where p: "p = (now, op)" by (cases p)
  from Cons.prems p obtain u where u: "tracker_apply now op t = Inr u" "good_step op t u"
    using apply_good [of t op now] by auto
  with Cons.IH [of u] Cons.prems obtain t' where t': "tracker_run ops u = Inr t'" "tracker_inv t'"
    "view_of t' = fold view_step (map snd ops) (view_of u)"
    "\<forall>g. (\<forall>p\<in>set ops. \<not> op_clears g (snd p)) \<longrightarrow>
      (changed g u \<longrightarrow> changed g t') \<and> (aspect_of g t' \<noteq> aspect_of g u \<longrightarrow> changed g t')"
    by (auto simp: good_step_def)
  have "(changed g t \<longrightarrow> changed g t') \<and> (aspect_of g t' \<noteq> aspect_of g t \<longrightarrow> changed g t')"
    if "\<forall>q\<in>set (p # ops). \<not> op_clears g (snd q)" for g
  proof -
    have "\<not> op_clears g op" and "\<forall>q\<in>set ops. \<not> op_clears g (snd q)"
      using that p by auto
    then show ?thesis
      using u(2) t'(4) unfolding good_step_def by metis
  qed
  with u t' p show ?case
    by (auto simp: good_step_def)
qed simp

section \<open>Properties\<close>

definition sample_net :: net_address where
  "sample_net =
     \<lparr>m_ip = V4 [10, 0, 0, 2], m_brd = Some (V4 [10, 0, 0, 255]), m_prefixlen = 24, m_scope = Global,
      m_flags = 0x80, m_prot = Protocol 0\<rparr>"

definition sample_ops :: "(int \<times> tracker_op) list" where
  "sample_ops =
     [(1, Op_setName ''eth0''), (2, Op_addNetworkAddress sample_net),
      (3, Op_setGatewayAddress (V4 [10, 0, 0, 1])), (4, Op_removeNetworkAddress sample_net)]"

lemma sample_ops_valid: "\<forall>p\<in>set sample_ops. op_valid (snd p)"
  by (simp add: sample_ops_def sample_net_def net_wf_def IPV4_ADDR_LEN_def)

text \<open>
  (C6) No change goes unflagged. Whatever operations run on a tracker, in any order, an aspect
  (name, link flags, operational state, MAC or broadcast address, gateway, addresses) that ends up
  different from what it was has its change flag set, unless the run cleared that flag; and a flag
  that was set stays set.
\<close>

theorem changes_are_flagged:
  assumes "tracker_inv t" and "\<forall>p\<in>set ops. op_valid (snd p)" and "\<forall>p\<in>set ops. \<not> op_clears g (snd p)"
  shows "\<exists>t'. tracker_run ops t = Inr t' \<and>
    (aspect_of g t' \<noteq> aspect_of g t \<or> changed g t \<longrightarrow> changed g t')"
  using run_good [OF assms(1,2)] assms(3) by blast

theorem changes_are_flagged_witness:
  "\<exists>t'. tracker_run sample_ops (tracker_new 0) = Inr t' \<and>
    (aspect_of Changed_GatewayAddress t' \<noteq> GatewayAddress_is None \<longrightarrow> changed Changed_GatewayAddress t')"
proof -
  have "aspect_of Changed_GatewayAddress (tracker_new 0) = GatewayAddress_is None"
    by (simp add: tracker_new_def)
  moreover have "\<forall>p\<in>set sample_ops. \<not> op_clears Changed_GatewayAddress (snd p)"
    by (simp add: sample_ops_def)
  ultimately show ?thesis
    using changes_are_flagged [OF tracker_inv_new sample_ops_valid] by metis
qed

text \<open>
  (C5) The tracker implements the abstract view of an interface: after any sequence of operations the
  view is what the specification \<open>view_step\<close> makes of it. In particular an address is present exactly
  when it was added and not removed since, and the gateway is dropped exactly when asked for or
  when the removal of an address leaves no IPv4 address. Dropping leaves the default-constructed
  address 0.0.0.0 in place of a known gateway, not an absent one.
\<close>

theorem tracker_implements_view:
  assumes "tracker_inv t" and "\<forall>p\<in>set ops. op_valid (snd p)"
  shows "\<exists>t'. tracker_run ops t = Inr t' \<and> view_of t' = fold view_step (map snd ops) (view_of t)"
  using run_good [OF assms] by blast

theorem tracker_implements_view_witness:
  "\<exists>t'. tracker_run sample_ops (tracker_new 0) = Inr t' \<and> lv_name (view_of t') = ''eth0'' \<and>
     lv_addresses (view_of t') = {} \<and> lv_gateway (view_of t') = Some (V4 [0, 0, 0, 0])"
  using tracker_implements_view [OF tracker_inv_new sample_ops_valid, of 0]
  by (auto simp: sample_ops_def view_of_def tracker_new_def drop_gateway_def ip_default_def
      IPV4_ADDR_LEN_def eval_nat_numeral Let_def)

text \<open>
  (C18) Every sequence of operations returns and keeps the invariant: the addresses stay an ordered
  set of well-formed addresses, the flags set are those raised minus those cleared
  (\<open>changedFlagChanges\<close> and \<open>changedFlagClears\<close>), and the addresses present are those added minus
  those removed, modulo the 64 bits of the counters.
\<close>

theorem tracker_run_invariant:
  assumes "tracker_inv t" and "\<forall>p\<in>set ops. op_valid (snd p)"
  shows "\<exists>t'. tracker_run ops t = Inr t' \<and> tracker_inv t'"
  using run_good [OF assms] by blast

theorem tracker_run_invariant_witness:
  "\<exists>t'. tracker_run sample_ops (tracker_new 0) = Inr t' \<and> addresses_balanced t' \<and> flags_balanced t'"
  using tracker_run_invariant [OF tracker_inv_new sample_ops_valid, of 0]
  by (auto simp: tracker_inv_def)

text \<open>
  A flag is not raised without a reason: after one operation, a flag that was clear is set only
  when its aspect differs from before, or when the operation assigned the zero value again (an
  all-zero hardware address, or a cleared gateway that was already 0.0.0.0).
\<close>

theorem flags_have_reasons:
  assumes "tracker_inv t" and "op_valid op"
  shows "\<exists>t'. tracker_apply now op t = Inr t' \<and>
    (changed g t' \<longrightarrow> changed g t \<or> aspect_of g t' \<noteq> aspect_of g t \<or> zero_aspect (aspect_of g t'))"
  using apply_good [OF assms] unfolding good_step_def by blast

theorem flags_have_reasons_witness:
  "\<exists>t'. tracker_apply 1 (Op_setName ''a'') (tracker_new 0) = Inr t' \<and> \<not> changed Changed_LinkFlags t'"
proof -
  have valid: "op_valid (Op_setName ''a'')" by simp
  obtain t' where t': "tracker_apply 1 (Op_setName ''a'') (tracker_new 0) = Inr t'"
    and reason: "changed Changed_LinkFlags t' \<longrightarrow> changed Changed_LinkFlags (tracker_new 0) \<or>
      aspect_of Changed_LinkFlags t' \<noteq> aspect_of Changed_LinkFlags (tracker_new 0) \<or>
      zero_aspect (aspect_of Changed_LinkFlags t')"
    using flags_have_reasons [OF tracker_inv_new [of 0] valid, where now = 1 and g = Changed_LinkFlags]
    by blast
  have "aspect_of Changed_LinkFlags t' = aspect_of Changed_LinkFlags (tracker_new 0)"
    using name_setter.op_frame(1) [of 1 "''a''" "tracker_new 0" t' Changed_LinkFlags] t' by simp
  with t' reason show ?thesis
    by (auto simp: not_changed_new zero_aspect_def)
qed

text \<open>
  Which operations throw: exactly the queries and clears of the enumerator \<open>FlagsCount\<close>, which
  lies past the end of the flag set, with \<open>std::out_of_range\<close>. No setter throws.
\<close>

theorem tracker_throws:
  "tracker_apply now op t = Inl e \<longleftrightarrow>
     e = Out_of_range \<and> (op = Op_isChanged Changed_FlagsCount \<or> op = Op_clearFlag Changed_FlagsCount)"
proof -
  have "addNetworkAddress now a t \<noteq> Inl e" for a
    by (simp add: addNetworkAddress_def touch_ok Let_def)
  moreover have "removeNetworkAddress now a t \<noteq> Inl e" for a
    by (simp add: removeNetworkAddress_def touch_ok Let_def gw_clear.op_ok)
  moreover have "clearFlag f t = (if f = Changed_FlagsCount then Inl Out_of_range else Inr (flag_cleared f t))" for f
    by (simp add: clearFlag_ok) (simp add: clearFlag_def fs_test_def)
  moreover have "isChanged f t =
      (if f = Changed_FlagsCount then Inl Out_of_range else Inr (changed f t, bump changedFlagChecks_update t))" for f
    by (simp add: isChanged_ok) (simp add: isChanged_def fs_test_def Let_def)
  ultimately show ?thesis
    by (cases op) (auto simp: setters_ok hasChanges_def Let_def)
qed

text \<open>
  \<open>age\<close> counts from the change that first raised a flag: \<open>touch\<close> stores the clock reading
  only when the flag was clear, sets exactly its own flag and changes no aspect; on \<open>FlagsCount\<close>
  it throws. Changing an aspect again while its flag is still set leaves the time alone.
\<close>

theorem touch_records_first_change:
  "case touch now f t of
     Inl e \<Rightarrow> e = Out_of_range \<and> f = Changed_FlagsCount
   | Inr t' \<Rightarrow> f \<noteq> Changed_FlagsCount \<and>
       m_lastChanged t' = (if changed f t then m_lastChanged t else now) \<and>
       (\<forall>g. changed g t' \<longleftrightarrow> g = f \<or> changed g t) \<and> (\<forall>g. aspect_of g t' = aspect_of g t)"
proof (cases "f = Changed_FlagsCount")
  case True
  then show ?thesis by (simp add: touch_throws)
next
  case False
  then have "m_lastChanged (touched now f t) = (if changed f t then m_lastChanged t else now)"
    by (simp add: touched_def bump_def)
  with False show ?thesis
    by (simp add: touch_ok changed_touched tracker_simps)
qed

end
