(* ===== verification/Observer.thy ===== *)
theory Observer
  imports Monitor_Notify Tracker_Operations
begin

text \<open>
  What a subscriber knows. A subscriber that applies the notifications it receives, in order, to a
  table of its own arrives at its \<open>beliefs\<close> about each interface; the lemmas give the exact
  sequence of calls each notification function makes and what they do to the beliefs.
\<close>

section \<open>Beliefs\<close>

type_synonym beliefs = "u32 \<Rightarrow> ChangedFlag \<Rightarrow> aspect"

text \<open>A new interface has default values until told otherwise, but for its name.\<close>

definition newcomer :: "string \<Rightarrow> ChangedFlag \<Rightarrow> aspect" where
  "newcomer name = (\<lambda>g. aspect_of g (tracker_new 0))(Changed_Name := Name_is name)"

fun learn :: "notification \<Rightarrow> beliefs \<Rightarrow> beliefs" where
  "learn (Interface_added i) b = b(if_index i := newcomer (if_name i))"
| "learn (Interface_removed i) b = b(if_index i := (\<lambda>_. Nothing))"
| "learn (Interface_name_changed i) b =
     b(if_index i := (b (if_index i))(Changed_Name := Name_is (if_name i)))"
| "learn (Link_flags_changed i f) b =
     b(if_index i := (b (if_index i))(Changed_LinkFlags := LinkFlags_are f))"
| "learn (Operational_state_changed i op) b =
     b(if_index i := (b (if_index i))(Changed_OperationalState := OperationalState_is op))"
| "learn (Network_addresses_changed i as) b =
     b(if_index i := (b (if_index i))(Changed_NetworkAddresses := NetworkAddresses_are as))"
| "learn (Gateway_address_changed i g) b =
     b(if_index i := (b (if_index i))(Changed_GatewayAddress := GatewayAddress_is g))"
| "learn (Mac_address_changed i a) b =
     b(if_index i := (b (if_index i))(Changed_MacAddress := MacAddress_is a))"
| "learn (Broadcast_address_changed i a) b =
     b(if_index i := (b (if_index i))(Changed_BroadcastAddress := BroadcastAddress_is a))"

fun about :: "notification \<Rightarrow> interface" where
  "about (Interface_added i) = i"
| "about (Interface_removed i) = i"
| "about (Interface_name_changed i) = i"
| "about (Link_flags_changed i _) = i"
| "about (Operational_state_changed i _) = i"
| "about (Network_addresses_changed i _) = i"
| "about (Gateway_address_changed i _) = i"
| "about (Mac_address_changed i _) = i"
| "about (Broadcast_address_changed i _) = i"

text \<open>The notifications one subscriber received, all of them or those about one interface.\<close>

fun heard :: "nat \<Rightarrow> event list \<Rightarrow> notification list" where
  "heard k [] = []"
| "heard k (Sent _ # evs) = heard k evs"
| "heard k (Notified j n # evs) = (if j = k then n # heard k evs else heard k evs)"

text \<open>The requests in a trace.\<close>

fun requests :: "event list \<Rightarrow> request list" where
  "requests [] = []"
| "requests (Sent rq # evs) = rq # requests evs"
| "requests (Notified k n # evs) = requests evs"

definition heard_of :: "nat \<Rightarrow> u32 \<Rightarrow> event list \<Rightarrow> notification list" where
  "heard_of k index evs = filter (\<lambda>n. if_index (about n) = index) (heard k evs)"

definition believes :: "nat \<Rightarrow> event list \<Rightarrow> beliefs" where
  "believes k evs = fold learn (heard k evs) (\<lambda>_ _. Nothing)"

lemma heard_append [simp]: "heard k (xs @ ys) = heard k xs @ heard k ys"
  by (induction k xs rule: heard.induct) auto

lemma heard_notified [simp]: "heard k (map (Notified j) ns) = (if j = k then ns else [])"
  by (induction ns) auto

lemma requests_append [simp]: "requests (xs @ ys) = requests xs @ requests ys"
  by (induction xs rule: requests.induct) auto

lemma requests_notified [simp]: "requests (map (Notified k) ns) = []"
  by (induction ns) auto

lemma heard_of_append: "heard_of k i (xs @ ys) = heard_of k i xs @ heard_of k i ys"
  by (simp add: heard_of_def)

lemma learn_other: "if_index (about n) \<noteq> i \<Longrightarrow> learn n b i = b i"
  by (cases n) auto

lemma learn_local:
  assumes "b i = c i"
  shows "learn n b i = learn n c i"
proof (cases "if_index (about n) = i")
  case True
  with assms show ?thesis by (cases n) simp_all
qed (simp add: learn_other assms)

lemma fold_learn_local: "b i = c i \<Longrightarrow> fold learn ns b i = fold learn ns c i"
proof (induction ns arbitrary: b c)
  case (Cons n ns)
  have "learn n b i = learn n c i"
    using Cons.prems by (rule learn_local)
  from Cons.IH [of "learn n b" "learn n c", OF this] show ?case by simp
qed simp

text \<open>Only what was heard about an interface matters for the beliefs about it.\<close>

lemma fold_learn_filter:
  "fold learn ns b i = fold learn (filter (\<lambda>n. if_index (about n) = i) ns) b i"
proof (induction ns arbitrary: b)
  case (Cons n ns)
  show ?case
  proof (cases "if_index (about n) = i")
    case False
    then have "fold learn ns (learn n b) i = fold learn ns b i"
      by (intro fold_learn_local learn_other)
    with False Cons show ?thesis by simp
  qed (simp add: Cons)
qed simp

lemma believes_append:
  "believes k (evs @ evs') i = fold learn (heard_of k i evs') (believes k evs) i"
  by (simp add: believes_def heard_of_def fold_learn_filter [symmetric])

section \<open>The notifications about one interface\<close>

text \<open>The calls \<open>notifyChanges(subscriber, intf, tracker, force)\<close> makes, in the code's order.\<close>

definition note_list :: "interface \<Rightarrow> tracker \<Rightarrow> (ChangedFlag \<times> notification) list" where
  "note_list intf t =
     [(Changed_Name, Interface_name_changed intf),
      (Changed_OperationalState, Operational_state_changed intf (m_operationalState t)),
      (Changed_NetworkAddresses, Network_addresses_changed intf (m_networkAddresses t)),
      (Changed_GatewayAddress, Gateway_address_changed intf (m_gateway t)),
      (Changed_MacAddress, Mac_address_changed intf (m_macAddress t)),
      (Changed_BroadcastAddress, Broadcast_address_changed intf (m_broadcastAddress t)),
      (Changed_LinkFlags, Link_flags_changed intf (m_linkFlags t))]"

definition news :: "bool \<Rightarrow> interface \<Rightarrow> tracker \<Rightarrow> notification list" where
  "news force intf t = map snd (filter (\<lambda>p. force \<or> changed (fst p) t) (note_list intf t))"

lemma note_list_about: "p \<in> set (note_list intf t) \<Longrightarrow> about (snd p) = intf"
  by (auto simp: note_list_def)

lemma news_about: "n \<in> set (news force intf t) \<Longrightarrow> about n = intf"
  by (auto simp: news_def dest!: note_list_about)

lemma news_quiet: "\<not> force \<Longrightarrow> (\<And>g. \<not> changed g t) \<Longrightarrow> news force intf t = []"
  by (simp add: news_def)

lemma learn_news:
  assumes "if_name intf = m_name t"
  shows "fold learn (news force intf t) b (if_index intf) g =
    (if g \<noteq> Changed_FlagsCount \<and> (force \<or> changed g t) then aspect_of g t else b (if_index intf) g)"
  using assms changed_FlagsCount [of t] by (cases g) (simp_all add: news_def note_list_def)

text \<open>Queries change nothing but their own counter.\<close>

definition checked :: "tracker \<Rightarrow> tracker \<Rightarrow> bool" where
  "checked t t' \<longleftrightarrow>
     (\<exists>n. t' = t\<lparr>m_nerdstats := changedFlagChecks_update (\<lambda>c. c + n) (m_nerdstats t)\<rparr>)"

lemma checked_refl: "checked t t"
  unfolding checked_def by (intro exI [of _ 0]) simp

lemma checked_bump: "checked t (bump changedFlagChecks_update t)"
  unfolding checked_def bump_def by blast

lemma checked_trans: "checked t u \<Longrightarrow> checked u v \<Longrightarrow> checked t v"
  unfolding checked_def by (auto simp: comp_def add.assoc)

lemma checked_facts:
  assumes "checked t t'"
  shows "aspect_of g t' = aspect_of g t" and "changed g t' \<longleftrightarrow> changed g t"
    and "m_name t' = m_name t" and "view_of t' = view_of t" and "tracker_inv t' \<longleftrightarrow> tracker_inv t"
    and "note_list intf t' = note_list intf t"
proof -
  from assms obtain n
    where t': "t' = t\<lparr>m_nerdstats := changedFlagChecks_update (\<lambda>c. c + n) (m_nerdstats t)\<rparr>"
    by (auto simp: checked_def)
  show "aspect_of g t' = aspect_of g t"
    unfolding t' by (cases g) simp_all
  show "changed g t' \<longleftrightarrow> changed g t" and "m_name t' = m_name t" and "view_of t' = view_of t"
    and "note_list intf t' = note_list intf t"
    unfolding t' by (simp_all add: changed_def view_of_def note_list_def)
  show "tracker_inv t' \<longleftrightarrow> tracker_inv t"
    unfolding t' by (simp add: tracker_inv_def tracker_wf_def flags_balanced_def addresses_balanced_def)
qed

lemma checked_news: "checked t t' \<Longrightarrow> news force intf t' = news force intf t"
  by (simp add: news_def checked_facts)

section \<open>Effects of the notification functions\<close>

text \<open>
  Nothing of the monitor changes but the trace of calls, and the socket and the run flag when a
  subscriber calls \<open>stop()\<close>.
\<close>

fun stops :: "environment \<Rightarrow> event list \<Rightarrow> bool" where
  "stops E [] = False"
| "stops E (Sent _ # evs) = stops E evs"
| "stops E (Notified k n # evs) = (calls_stop E k n \<or> stops E evs)"

lemma stops_append [simp]: "stops E (xs @ ys) \<longleftrightarrow> stops E xs \<or> stops E ys"
  by (induction E xs rule: stops.induct) auto

definition quiet :: "environment \<Rightarrow> event list \<Rightarrow> system \<Rightarrow> system \<Rightarrow> bool" where
  "quiet E evs sy sy' \<longleftrightarrow>
     sy' = (if stops E evs then stop (sy\<lparr>events := events sy @ evs\<rparr>) else sy\<lparr>events := events sy @ evs\<rparr>)"

lemma quiet_Nil: "quiet E [] sy sy"
  by (simp add: quiet_def)

lemma quiet_trans: "quiet E a x y \<Longrightarrow> quiet E b y z \<Longrightarrow> quiet E (a @ b) x z"
  by (auto simp: quiet_def stop_def)

lemma quiet_fields:
  assumes "quiet E evs sy sy'"
  shows "events sy' = events sy @ evs" and "m_trackers sy' = m_trackers sy"
    and "m_subscribers sy' = m_subscribers sy" and "clock sy' = clock sy" and "inbox sy' = inbox sy"
    and "m_cacheState sy' = m_cacheState sy" and "m_sequenceNumber sy' = m_sequenceNumber sy"
    and "m_sendBuffer sy' = m_sendBuffer sy" and "m_runtimeOptions sy' = m_runtimeOptions sy"
    and "m_stats sy' = m_stats sy" and "m_portid sy' = m_portid sy"
  using assms by (simp_all add: quiet_def stop_def)

lemma call_ok: "\<exists>sy'. call_subscriber E (Some k) n sy = Inr sy' \<and> quiet E [Notified k n] sy sy'"
  by (simp add: call_subscriber_def quiet_def Let_def)


text \<open>One aspect, then a sequence of aspects, which is what \<open>notifyChanges\<close> is.\<close>

lemma notify_aspect_ok:
  assumes "checked t u" and "f \<noteq> Changed_FlagsCount" and "\<And>v. checked t v \<Longrightarrow> mk v = mk t"
  shows "returns (notify_aspect E (Some k) force f mk (u, sy)) (\<lambda>(u', sy').
    checked t u' \<and> quiet E (if force \<or> changed f t then [Notified k (mk t)] else []) sy sy')"
proof -
  let ?v = "if force then u else bump changedFlagChecks_update u"
  have v: "checked t ?v"
    using assms(1) checked_trans [OF assms(1) checked_bump] by simp
  have "(if force then Inr (True, u) else isChanged f u) = Inr (force \<or> changed f t, ?v)"
    using assms(2) checked_facts(2) [OF assms(1)] by (simp add: isChanged_ok)
  moreover obtain sy' where "call_subscriber E (Some k) (mk t) sy = Inr sy'" "quiet E [Notified k (mk t)] sy sy'"
    using call_ok by blast
  ultimately show ?thesis
    using v assms(3) [OF v] by (cases force) (simp_all add: notify_aspect_def quiet_Nil)
qed

fun notify_seq ::
  "environment \<Rightarrow> subscriber \<Rightarrow> bool \<Rightarrow> (ChangedFlag \<times> (tracker \<Rightarrow> notification)) list \<Rightarrow>
   tracker \<times> system \<Rightarrow> failure + tracker \<times> system" where
  "notify_seq E sub force [] st = Inr st"
| "notify_seq E sub force ((f, mk) # xs) st =
     res_bind (notify_aspect E sub force f mk st) (notify_seq E sub force xs)"

definition note_makers :: "interface \<Rightarrow> (ChangedFlag \<times> (tracker \<Rightarrow> notification)) list" where
  "note_makers intf =
     [(Changed_Name, \<lambda>_. Interface_name_changed intf),
      (Changed_OperationalState, \<lambda>t. Operational_state_changed intf (m_operationalState t)),
      (Changed_NetworkAddresses, \<lambda>t. Network_addresses_changed intf (m_networkAddresses t)),
      (Changed_GatewayAddress, \<lambda>t. Gateway_address_changed intf (m_gateway t)),
      (Changed_MacAddress, \<lambda>t. Mac_address_changed intf (m_macAddress t)),
      (Changed_BroadcastAddress, \<lambda>t. Broadcast_address_changed intf (m_broadcastAddress t)),
      (Changed_LinkFlags, \<lambda>t. Link_flags_changed intf (m_linkFlags t))]"

lemma notifyChanges_tracker_seq:
  "notifyChanges_tracker E sub intf force st = notify_seq E sub force (note_makers intf) st"
proof -
  have "notify_seq E sub force [] = Inr"
    and "\<And>f mk xs. notify_seq E sub force ((f, mk) # xs) =
      (\<lambda>st. res_bind (notify_aspect E sub force f mk st) (notify_seq E sub force xs))"
    by (simp_all add: fun_eq_iff)
  then show ?thesis
    by (simp only: notifyChanges_tracker_def note_makers_def res_bind_return)
qed

lemma note_makers_list: "map (\<lambda>(f, mk). (f, mk t)) (note_makers intf) = note_list intf t"
  by (simp add: note_makers_def note_list_def)

lemma note_makers_checked:
  assumes "(f, mk) \<in> set (note_makers intf)"
  shows "f \<noteq> Changed_FlagsCount" and "checked t u \<Longrightarrow> mk u = mk t"
  using assms by (auto simp: note_makers_def checked_def)

lemma notify_seq_ok:
  assumes "\<And>f mk. (f, mk) \<in> set xs \<Longrightarrow> f \<noteq> Changed_FlagsCount \<and> (\<forall>u. checked t u \<longrightarrow> mk u = mk t)"
    and "checked t u"
  shows "returns (notify_seq E (Some k) force xs (u, sy)) (\<lambda>(t', sy').
    checked t t' \<and> quiet E (map (Notified k) (map snd (filter (\<lambda>p. force \<or> changed (fst p) t)
      (map (\<lambda>(f, mk). (f, mk t)) xs)))) sy sy')"
  using assms
proof (induction xs arbitrary: u sy)
  case Nil
  then show ?case by (simp add: quiet_Nil)
next
  case (Cons x xs)
  obtain f mk where x: "x = (f, mk)" by (cases x)
  let ?evs = "if force \<or> changed f t then [Notified k (mk t)] else []"
  have "returns (notify_aspect E (Some k) force f mk (u, sy)) (\<lambda>(u', sy'). checked t u' \<and> quiet E ?evs sy sy')"
    using Cons.prems x by (intro notify_aspect_ok) auto
  then obtain u' sy' where 1: "notify_aspect E (Some k) force f mk (u, sy) = Inr (u', sy')"
    "checked t u'" "quiet E ?evs sy sy'"
    by (auto simp: returns_def)
  have "returns (notify_seq E (Some k) force xs (u', sy')) (\<lambda>(t', sy''). checked t t' \<and>
      quiet E (map (Notified k) (map snd (filter (\<lambda>p. force \<or> changed (fst p) t)
        (map (\<lambda>(f, mk). (f, mk t)) xs)))) sy' sy'')"
    using Cons.prems(1) 1(2) by (intro Cons.IH) auto
  then obtain t' sy'' where 2: "notify_seq E (Some k) force xs (u', sy') = Inr (t', sy'')" "checked t t'"
    "quiet E (map (Notified k) (map snd (filter (\<lambda>p. force \<or> changed (fst p) t)
        (map (\<lambda>(f, mk). (f, mk t)) xs)))) sy' sy''"
    by (auto simp: returns_def)
  from quiet_trans [OF 1(3) 2(3)] 1(1) 2(1,2) x show ?case
    by (cases "force \<or> changed f t") (simp_all add: returns_def)
qed

lemma notifyChanges_tracker_ok:
  assumes "checked t u"
  shows "returns (notifyChanges_tracker E (Some k) intf force (u, sy)) (\<lambda>(t', sy').
    checked t t' \<and> quiet E (map (Notified k) (news force intf t)) sy sy')"
  using notify_seq_ok [of "note_makers intf" t u E k force sy] assms note_makers_checked
  unfolding notifyChanges_tracker_seq note_makers_list news_def by blast

section \<open>All subscribers, all interfaces\<close>

definition subs_wf :: "(subscriber \<times> interfaces) list \<Rightarrow> bool" where
  "subs_wf subs \<longleftrightarrow> distinct (map fst subs) \<and> None \<notin> fst ` set subs"

definition subscribed :: "nat \<Rightarrow> u32 \<Rightarrow> (subscriber \<times> interfaces) list \<Rightarrow> bool" where
  "subscribed k index subs \<longleftrightarrow>
     (case map_of subs (Some k) of None \<Rightarrow> False | Some intfs \<Rightarrow> index \<in> if_index ` set intfs)"

lemma subs_wf_Cons: "subs_wf ((s, intfs) # subs) \<longleftrightarrow> s \<noteq> None \<and> s \<notin> fst ` set subs \<and> subs_wf subs"
  by (auto simp: subs_wf_def)

text \<open>The calls for one interface, subscriber by subscriber.\<close>

definition fan_out :: "interface \<Rightarrow> notification list \<Rightarrow> (subscriber \<times> interfaces) list \<Rightarrow> event list" where
  "fan_out intf ns subs =
     concat (map (\<lambda>(s, intfs). if interfaces_contains intf intfs then map (Notified (the s)) ns else []) subs)"

lemma fan_out_heard_none: "Some k \<notin> fst ` set subs \<Longrightarrow> None \<notin> fst ` set subs \<Longrightarrow> heard k (fan_out intf ns subs) = []"
  by (induction subs) (auto simp: fan_out_def)

lemma fan_out_heard:
  "subs_wf subs \<Longrightarrow>
   heard k (fan_out intf ns subs) = (if subscribed k (if_index intf) subs then ns else [])"
proof (induction subs)
  case (Cons x subs)
  obtain s intfs where x: "x = (s, intfs)" by (cases x)
  with Cons.prems obtain j where j: "s = Some j"
    by (auto simp: subs_wf_Cons)
  show ?case
  proof (cases "j = k")
    case True
    with Cons.prems x j have "heard k (fan_out intf ns subs) = []"
      by (intro fan_out_heard_none) (auto simp: subs_wf_def)
    with True x j show ?thesis
      by (auto simp: fan_out_def subscribed_def interfaces_contains_iff)
  next
    case False
    with Cons x j show ?thesis
      by (auto simp: fan_out_def subscribed_def subs_wf_Cons)
  qed
qed (simp add: fan_out_def subscribed_def)

lemma requests_fan_out [simp]: "requests (fan_out intf ns subs) = []"
  by (induction subs) (auto simp: fan_out_def)

lemma notify_subscribers_ok:
  assumes "subs_wf subs" and "checked t u"
  shows "returns (notify_subscribers E intf subs (u, sy)) (\<lambda>(t', sy').
    checked t t' \<and> quiet E (fan_out intf (news False intf t) subs) sy sy')"
  using assms
proof (induction subs arbitrary: u sy)
  case Nil
  then show ?case by (simp add: fan_out_def quiet_Nil)
next
  case (Cons x subs)
  obtain k intfs where x: "x = (Some k, intfs)"
    using Cons.prems(1) by (cases x) (auto simp: subs_wf_Cons)
  let ?evs = "if interfaces_contains intf intfs then map (Notified k) (news False intf t) else []"
  have "returns (if interfaces_contains intf intfs then notifyChanges_tracker E (Some k) intf False (u, sy)
      else Inr (u, sy)) (\<lambda>(t', sy'). checked t t' \<and> quiet E ?evs sy sy')"
    using notifyChanges_tracker_ok [OF Cons.prems(2), of E k intf False sy] Cons.prems(2)
    by (simp add: quiet_Nil)
  then obtain u' sy' where 1: "(if interfaces_contains intf intfs
      then notifyChanges_tracker E (Some k) intf False (u, sy) else Inr (u, sy)) = Inr (u', sy')"
    "checked t u'" "quiet E ?evs sy sy'"
    unfolding returns_def by blast
  have "subs_wf subs"
    using Cons.prems(1) x by (simp add: subs_wf_Cons)
  from Cons.IH [OF this 1(2), of sy'] show ?case
    unfolding x notify_subscribers.simps 1(1)
    using quiet_trans [OF 1(3)] by (auto simp: fan_out_def returns_def)
qed

text \<open>What \<open>notifyChanges()\<close> leaves of a tracker: the flags are gone, the rest is as before.\<close>

definition cleared :: "tracker \<Rightarrow> tracker \<Rightarrow> bool" where
  "cleared t t' \<longleftrightarrow> (\<exists>u. checked t u \<and> t' = clearChangedFlags u)"

lemma cleared_facts:
  assumes "cleared t t'"
  shows "aspect_of g t' = aspect_of g t" and "\<not> changed g t'" and "view_of t' = view_of t"
    and "tracker_inv t \<Longrightarrow> tracker_inv t'"
  using assms
  by (auto simp: cleared_def tracker_simps clearChangedFlags_changed checked_facts intro: clearChangedFlags_inv)

text \<open>The calls of one round of \<open>notifyChanges()\<close>.\<close>

definition round_calls :: "(subscriber \<times> interfaces) list \<Rightarrow> (u32, tracker) std_map \<Rightarrow> event list" where
  "round_calls subs ts =
     concat (map (\<lambda>(i, t). fan_out \<lparr>if_index = i, if_name = m_name t\<rparr>
       (news False \<lparr>if_index = i, if_name = m_name t\<rparr> t) subs) ts)"

lemma requests_round [simp]: "requests (round_calls subs ts) = []"
  by (induction ts) (auto simp: round_calls_def)

lemma notify_trackers_ok:
  assumes "subs_wf subs"
  shows "returns (notify_trackers E subs ts sy) (\<lambda>(ts', sy').
    list_all2 (\<lambda>(i, t) (j, t'). j = i \<and> cleared t t') ts ts' \<and> quiet E (round_calls subs ts) sy sy')"
proof (induction ts arbitrary: sy)
  case Nil
  then show ?case by (simp add: round_calls_def quiet_Nil)
next
  case (Cons x ts)
  obtain i t where x: "x = (i, t)" by (cases x)
  let ?intf = "\<lparr>if_index = i, if_name = m_name t\<rparr>"
  obtain t' sy' where 1: "notify_subscribers E ?intf subs (t, sy) = Inr (t', sy')" "checked t t'"
    "quiet E (fan_out ?intf (news False ?intf t) subs) sy sy'"
    using notify_subscribers_ok [OF assms checked_refl, of E ?intf t sy] by (auto simp: returns_def)
  obtain ts' sy'' where 2: "notify_trackers E subs ts sy' = Inr (ts', sy'')"
    "list_all2 (\<lambda>(i, t) (j, t'). j = i \<and> cleared t t') ts ts'" "quiet E (round_calls subs ts) sy' sy''"
    using Cons.IH [of sy'] by (auto simp: returns_def)
  have "cleared t (clearChangedFlags t')"
    using 1(2) by (auto simp: cleared_def)
  with 1(1) 2(1,2) quiet_trans [OF 1(3) 2(3)] x show ?case
    by (simp add: round_calls_def returns_def Let_def)
qed

lemma round_calls_heard:
  assumes "subs_wf subs" and "distinct (map fst ts)"
  shows "heard_of k i (round_calls subs ts) =
    (case map_of ts i of
       Some t \<Rightarrow> if subscribed k i subs then news False \<lparr>if_index = i, if_name = m_name t\<rparr> t else []
     | None \<Rightarrow> [])"
  using assms(2)
proof (induction ts)
  case (Cons x ts)
  obtain j t where x: "x = (j, t)" by (cases x)
  let ?intf = "\<lparr>if_index = j, if_name = m_name t\<rparr>"
  have "filter (\<lambda>n. if_index (about n) = i) (news False ?intf t) = (if j = i then news False ?intf t else [])"
    by (auto simp: news_about filter_empty_conv intro: filter_True)
  then have "heard_of k i (fan_out ?intf (news False ?intf t) subs) =
      (if j = i \<and> subscribed k i subs then news False ?intf t else [])"
    by (auto simp: heard_of_def fan_out_heard [OF assms(1)])
  moreover have "map_of ts j = None"
    using Cons.prems x by (auto simp: map_of_eq_None_iff)
  ultimately show ?case
    using Cons x by (auto simp: round_calls_def heard_of_append)
qed (simp add: round_calls_def heard_of_def)

end
