(* ===== verification/Monitor_Messages.thy ===== *)
theory Monitor_Messages
  imports Monitor_Notify
begin

unbundle bit_operations_syntax

text \<open>
  What \<open>NetworkMonitor\<close> does with one netlink message (src/monitor/NetworkMonitor.cpp):
  \<open>ensureNameCurrent\<close>, the three \<open>parse...Message\<close> functions and \<open>mnlMessageCallback\<close>.
\<close>

section \<open>Trackers\<close>

text \<open>
  An update through the reference \<open>auto& cacheEntry\<close> of an interface that has a tracker. The clock
  is read where the tracker operation reads it.
\<close>

definition with_tracker ::
  "u32 \<Rightarrow> (int \<Rightarrow> tracker \<Rightarrow> failure + tracker) \<Rightarrow> system \<Rightarrow> failure + system" where
  "with_tracker index f sy =
     (case map_find index (m_trackers sy) of
        None \<Rightarrow> Inl Null_deref
      | Some t \<Rightarrow> res_bind (f (clock sy) t) (\<lambda>t.
          Inr (sy\<lparr>m_trackers := map_put index t (m_trackers sy)\<rparr>)))"

text \<open>The same under \<open>if (const auto itr = m_trackers.find(...); itr != m_trackers.end())\<close>.\<close>

definition if_tracker ::
  "u32 \<Rightarrow> (int \<Rightarrow> tracker \<Rightarrow> failure + tracker) \<Rightarrow> system \<Rightarrow> failure + system" where
  "if_tracker index f sy =
     (if map_contains index (m_trackers sy) then with_tracker index f sy else Inr sy)"

text \<open>A setter under \<open>if (opt.has_value())\<close>.\<close>

fun when_some :: "'a option \<Rightarrow> ('a \<Rightarrow> 's \<Rightarrow> failure + 's) \<Rightarrow> 's \<Rightarrow> failure + 's" where
  "when_some None f s = Inr s"
| "when_some (Some x) f s = f x s"

definition ensureNameCurrent :: "environment \<Rightarrow> u32 \<Rightarrow> string option \<Rightarrow> system \<Rightarrow> failure + system" where
  "ensureNameCurrent E ifIndex name sy =
     (let before = length (m_trackers sy);
          sy = (if map_contains ifIndex (m_trackers sy) then sy
                else sy\<lparr>m_trackers := map_put ifIndex (tracker_new (clock sy)) (m_trackers sy)\<rparr>) in
      res_bind (when_some name (\<lambda>n. with_tracker ifIndex (\<lambda>now. setName now n)) sy) (\<lambda>sy.
      if before \<noteq> length (m_trackers sy)
      then (case map_find ifIndex (m_trackers sy) of
              None \<Rightarrow> Inl Null_deref
            | Some cacheEntry \<Rightarrow>
                notifyInterfaceAdded E \<lparr>if_index = ifIndex, if_name = m_name cacheEntry\<rparr> sy)
      else Inr sy))"

section \<open>The three kinds of messages\<close>

text \<open>\<open>Attributes::parse\<close> with the two counters of \<open>m_stats\<close>.\<close>

definition parse_attributes :: "environment \<Rightarrow> nlmsghdr \<Rightarrow> u32 \<Rightarrow> u16 \<Rightarrow> system \<Rightarrow> failure + attrs \<times> system" where
  "parse_attributes E n offset maxType sy =
     res_bind (Attributes_parse (env_mnl E) n offset maxType
         (seenAttributes (m_stats sy)) (unknownAttributes (m_stats sy))) (\<lambda>(attributes, seen, unknown).
     Inr (attributes, sy\<lparr>m_stats := (m_stats sy)\<lparr>seenAttributes := seen, unknownAttributes := unknown\<rparr>\<rparr>))"

definition discard :: "system \<Rightarrow> system" where
  "discard sy = count_stat msgsDiscarded_update sy"

definition parseLinkMessage :: "environment \<Rightarrow> nlmsghdr \<Rightarrow> ifinfomsg \<Rightarrow> system \<Rightarrow> failure + system" where
  "parseLinkMessage E nlhdr ifi sy =
     (let M = env_mnl E; sy = count_stat linkMessagesSeen_update sy in
      res_bind (parse_attributes E nlhdr sizeof_ifinfomsg (IFLA_MAX E) sy) (\<lambda>(attributes, sy).
      let itfName = getString M attributes IFLA_IFNAME in
      res_bind (test_option RFlag_IncludeNonIeee802 sy) (\<lambda>includeAll.
      if ifi_type ifi \<noteq> ARPHRD_ETHER \<and> ifi_type ifi \<noteq> ARPHRD_IEEE80211 \<and> \<not> includeAll
      then Inr (discard sy)
      else if nlmsg_type nlhdr = RTM_DELLINK
      then notifyInterfaceRemoved E
        \<lparr>if_index = ifi_index ifi, if_name = (case itfName of None \<Rightarrow> ''unknown'' | Some n \<Rightarrow> n)\<rparr>
        (sy\<lparr>m_trackers := map_erase (ifi_index ifi) (m_trackers sy)\<rparr>)
      else
        res_bind (ensureNameCurrent E (ifi_index ifi) itfName sy) (\<lambda>sy.
        res_bind (with_tracker (ifi_index ifi)
          (\<lambda>now. updateLinkFlags now (fs_from_u32 (ifi_flags ifi))) sy) (\<lambda>sy.
        res_bind (when_some (getU8 M attributes IFLA_OPERSTATE)
          (\<lambda>op. with_tracker (ifi_index ifi) (\<lambda>now. setOperationalState now (OperState op))) sy) (\<lambda>sy.
        res_bind (getEthernetAddress M attributes IFLA_ADDRESS) (\<lambda>macAddressOpt.
        res_bind (when_some macAddressOpt
          (\<lambda>a. with_tracker (ifi_index ifi) (\<lambda>now. setMacAddress now a)) sy) (\<lambda>sy.
        res_bind (getEthernetAddress M attributes IFLA_BROADCAST) (\<lambda>broadcastAddressOpt.
        when_some broadcastAddressOpt
          (\<lambda>a. with_tracker (ifi_index ifi) (\<lambda>now. setBroadcastAddress now a)) sy))))))))) "

definition parseAddressMessage :: "environment \<Rightarrow> nlmsghdr \<Rightarrow> ifaddrmsg \<Rightarrow> system \<Rightarrow> failure + system" where
  "parseAddressMessage E nlhdr ifa sy =
     (let M = env_mnl E; sy = count_stat addressMessagesSeen_update sy in
      if \<not> map_contains (ifa_index ifa) (m_trackers sy) then Inr (discard sy)
      else
        res_bind (test_option RFlag_PreferredFamilyV4 sy) (\<lambda>v4.
        if v4 \<and> uint (ifa_family ifa) \<noteq> AF_INET then Inr (discard sy)
        else
        res_bind (test_option RFlag_PreferredFamilyV6 sy) (\<lambda>v6.
        if v6 \<and> uint (ifa_family ifa) \<noteq> AF_INET6 then Inr (discard sy)
        else
        res_bind (parse_attributes E nlhdr sizeof_ifaddrmsg (IFA_MAX E) sy) (\<lambda>(attributes, sy).
        let flags = (ucast (ifa_flags ifa) :: u32); address = ip_default; prot = IFAPROT_UNSPEC in
        res_bind (ensureNameCurrent E (ifa_index ifa) (getString M attributes IFA_LABEL) sy) (\<lambda>sy.
        let flags = (case getU32 M attributes IFA_FLAGS of None \<Rightarrow> flags | Some f \<Rightarrow> f);
            prot = (case getU8 M attributes IFA_PROTO of None \<Rightarrow> prot | Some p \<Rightarrow> p) in
        res_bind (getIpV4Address M attributes IFA_BROADCAST) (\<lambda>broadcast.
        res_bind (getIpV4Address M attributes IFA_LOCAL) (\<lambda>localV4Opt.
        let address = (case localV4Opt of None \<Rightarrow> address | Some a \<Rightarrow> a) in
        res_bind (getIpV6Address M attributes IFA_ADDRESS) (\<lambda>addressV6Opt.
        let address = (case addressV6Opt of None \<Rightarrow> address | Some a \<Rightarrow> a);
            networkAddress =
              \<lparr>m_ip = address, m_brd = broadcast, m_prefixlen = ifa_prefixlen ifa,
               m_scope = fromRtnlScope (ifa_scope ifa), m_flags = fs_from_u32 flags,
               m_prot = Protocol prot\<rparr> in
        if nlmsg_type nlhdr = RTM_NEWADDR
        then with_tracker (ifa_index ifa) (\<lambda>now. addNetworkAddress now networkAddress) sy
        else if nlmsg_type nlhdr = RTM_DELADDR
        then with_tracker (ifa_index ifa) (\<lambda>now. removeNetworkAddress now networkAddress) sy
        else Inr sy))))))))"

definition parseRouteMessage :: "environment \<Rightarrow> nlmsghdr \<Rightarrow> rtmsg \<Rightarrow> system \<Rightarrow> failure + system" where
  "parseRouteMessage E nlhdr rtm sy =
     (let M = env_mnl E; sy = count_stat routeMessagesSeen_update sy in
      if uint (rtm_family rtm) \<noteq> AF_INET then Inr (discard sy)
      else
        res_bind (test_option RFlag_PreferredFamilyV6 sy) (\<lambda>v6.
        if v6 \<and> uint (rtm_family rtm) \<noteq> AF_INET6 then Inr (discard sy)
        else
        res_bind (parse_attributes E nlhdr sizeof_rtmsg (RTA_MAX E) sy) (\<lambda>(attributes, sy).
        let ifIndexOpt = getU32 M attributes RTA_OIF in
        res_bind (getIpV4Address M attributes RTA_GATEWAY) (\<lambda>gatewayV4Opt.
        if nlmsg_type nlhdr = RTM_DELROUTE
        then (case ifIndexOpt of
            None \<Rightarrow> Inr sy
          | Some ifIndex \<Rightarrow>
              if rtm_flags rtm AND RTNH_F_LINKDOWN \<noteq> 0
              then if_tracker ifIndex (\<lambda>now. clearGatewayAddress now LinkDown) sy
              else if gatewayV4Opt \<noteq> None
              then if_tracker ifIndex (\<lambda>now. clearGatewayAddress now RouteDeleted) sy
              else Inr sy)
        else (case (ifIndexOpt, gatewayV4Opt) of
            (Some ifIndex, Some gateway) \<Rightarrow> if_tracker ifIndex (\<lambda>now. setGatewayAddress now gateway) sy
          | _ \<Rightarrow> Inr sy)))))"

section \<open>The message callback\<close>

definition mnlMessageCallback :: "environment \<Rightarrow> nlmsghdr \<Rightarrow> system \<Rightarrow> failure + int \<times> system" where
  "mnlMessageCallback E n sy =
     (if \<not> m_socket_open sy then Inr (MNL_CB_STOP, sy)
      else
        let sy = count_stat msgsReceived_update sy; t = nlmsg_type n in
        res_bind
          (if t = RTM_NEWLINK \<or> t = RTM_DELLINK then parseLinkMessage E n (get_ifinfo E n) sy
           else if t = RTM_NEWADDR \<or> t = RTM_DELADDR then parseAddressMessage E n (get_ifaddr E n) sy
           else if t = RTM_NEWROUTE \<or> t = RTM_DELROUTE then parseRouteMessage E n (get_rtmsg E n) sy
           else Inr sy) (\<lambda>sy.
        Inr (MNL_CB_OK, sy)))"

text \<open>
  \<open>mnl_cb_run\<close>: the callback runs on each message of the plan until it returns \<open>MNL_CB_STOP\<close> or
  less; behind the last message the verdict of the datagram decides. The result comes with
  \<open>errno\<close>.
\<close>

fun cb_messages :: "(nlmsghdr \<Rightarrow> 's \<Rightarrow> failure + int \<times> 's) \<Rightarrow> nlmsghdr list \<Rightarrow> 's \<Rightarrow> failure + int \<times> 's" where
  "cb_messages cb [] st = Inr (MNL_CB_OK, st)"
| "cb_messages cb (n # ns) st =
     res_bind (cb n st) (\<lambda>(ret, st). if ret \<le> MNL_CB_STOP then Inr (ret, st) else cb_messages cb ns st)"

fun verdict_result :: "verdict \<Rightarrow> int \<times> int" where
  "verdict_result Plan_ok = (MNL_CB_OK, 0)"
| "verdict_result Plan_stop = (MNL_CB_STOP, 0)"
| "verdict_result (Plan_error errno) = (MNL_CB_ERROR, errno)"

definition mnl_cb_run ::
  "environment \<Rightarrow> u8 list \<Rightarrow> u32 \<Rightarrow> u32 \<Rightarrow> (nlmsghdr \<Rightarrow> 's \<Rightarrow> failure + int \<times> 's) \<Rightarrow> 's \<Rightarrow>
   failure + (int \<times> int) \<times> 's" where
  "mnl_cb_run E buf seq portid cb st =
     (case cb_plan E buf seq portid of (msgs, verdict) \<Rightarrow>
        res_bind (cb_messages cb msgs st) (\<lambda>(ret, st).
        Inr (if ret \<le> MNL_CB_STOP then (ret, 0) else verdict_result verdict, st)))"

end
