(* ===== verification/Monitor_Loop.thy ===== *)
theory Monitor_Loop
  imports Monitor_Messages
begin

unbundle bit_operations_syntax

text \<open>
  The control flow of \<open>NetworkMonitor\<close> (src/monitor/NetworkMonitor.cpp): dump requests and their
  sequence numbers, the result of \<open>mnl_cb_run\<close>, the receive loop, \<open>enumerateInterfaces\<close>, \<open>run\<close>
  and the constructor. The loops take fuel; a call returns, blocks in \<open>recvfrom\<close> because the inbox
  is empty (unless the socket is one that does not block), ends in an exception, undefined behaviour or \<open>abort\<close>, or runs out of fuel.
\<close>

datatype 'a outcome = Returned 'a | Blocked system | Failed failure | Out_of_fuel

definition out_bind :: "'a outcome \<Rightarrow> ('a \<Rightarrow> 'b outcome) \<Rightarrow> 'b outcome" where
  "out_bind m f =
     (case m of Returned x \<Rightarrow> f x | Blocked sy \<Rightarrow> Blocked sy | Failed e \<Rightarrow> Failed e | Out_of_fuel \<Rightarrow> Out_of_fuel)"

lemma out_bind_simps [simp]:
  "out_bind (Returned x) f = f x" "out_bind (Blocked sy) f = Blocked sy"
  "out_bind (Failed e) f = Failed e" "out_bind Out_of_fuel f = Out_of_fuel"
  by (simp_all add: out_bind_def)

definition lift :: "failure + 'a \<Rightarrow> 'a outcome" where
  "lift m = (case m of Inl e \<Rightarrow> Failed e | Inr x \<Rightarrow> Returned x)"

lemma lift_simps [simp]: "lift (Inl e) = Failed e" "lift (Inr x) = Returned x"
  by (simp_all add: lift_def)

section \<open>Dump requests\<close>

definition toRtnlGroupFlag :: "nat \<Rightarrow> u32" where
  "toRtnlGroupFlag grp = push_bit (grp - 1) 1"

definition shouldRetryDump :: "int \<Rightarrow> bool" where
  "shouldRetryDump err \<longleftrightarrow> err = EPROTO \<or> err = EINTR \<or> err = EAGAIN \<or> err = EBUSY"

definition nextDumpRequestSequenceNumber :: "system \<Rightarrow> u32 \<times> system" where
  "nextDumpRequestSequenceNumber sy =
     (let seq = m_sequenceNumber sy + 1;
          seq = (if seq = 0 then 1 else seq)
      in (seq, sy\<lparr>m_sequenceNumber := seq\<rparr>))"

text \<open>
  \<open>mnl_socket_sendto\<close> on the send buffer, and the statistics. The socket is dereferenced, so a
  closed (null) socket is undefined behaviour.
\<close>

definition send :: "environment \<Rightarrow> request \<Rightarrow> system \<Rightarrow> failure + system" where
  "send E rq sy =
     (if \<not> m_socket_open sy then Inl Null_deref
      else let ret = sendto E rq in
        if ret < 0 then Inl (Abort ''mnl_socket_sendto'')
        else let sy = count_stat packetsSent_update (sy\<lparr>events := events sy @ [Sent rq]\<rparr>) in
          Inr (sy\<lparr>m_stats := bytesSent_update (\<lambda>c. c + word_of_int ret) (m_stats sy)\<rparr>))"

definition sendDumpRequest :: "environment \<Rightarrow> u16 \<Rightarrow> system \<Rightarrow> failure + system" where
  "sendDumpRequest E msgType sy =
     (case nextDumpRequestSequenceNumber sy of (seq, sy) \<Rightarrow>
        let nlh = \<lparr>rq_type = msgType, rq_flags = NLM_F_REQUEST OR NLM_F_DUMP, rq_seq = seq,
                   rq_family = AF_UNSPEC, rq_attributes = [(IFLA_EXT_MASK, RTEXT_FILTER_SKIP_STATS)]\<rparr>
        in send E nlh (sy\<lparr>m_sendBuffer := Some nlh\<rparr>))"

text \<open>
  The mode of the socket, which the constructor opened with \<open>SOCK_NONBLOCK\<close> exactly if the option is
  set; no operation changes the options. With nothing left to deliver \<open>recvfrom\<close> waits, or fails with
  \<open>EAGAIN\<close> when the socket does not block.
\<close>

definition non_blocking :: "system \<Rightarrow> bool" where
  "non_blocking sy \<longleftrightarrow> bit (m_runtimeOptions sy) (RuntimeFlag_underlying RFlag_NonBlocking)"

text \<open>
  Draining the socket until \<open>recvfrom\<close> returns no data: the rest of the inbox, or \<open>None\<close> when the
  call blocks. The first argument is the mode.
\<close>

fun drain :: "bool \<Rightarrow> reception list \<Rightarrow> reception list option" where
  "drain nonblock [] = (if nonblock then Some [] else None)"
| "drain nonblock (Receive_failed # rs) = Some rs"
| "drain nonblock (Received now buf # rs) = (if buf = [] then Some rs else drain nonblock rs)"

definition retryLastDumpRequestWithNewSequenceNumber :: "environment \<Rightarrow> system \<Rightarrow> system outcome" where
  "retryLastDumpRequestWithNewSequenceNumber E sy =
     (if \<not> m_socket_open sy then Failed Null_deref
      else case drain (non_blocking sy) (inbox sy) of
        None \<Rightarrow> Blocked (sy\<lparr>inbox := []\<rparr>)
      | Some rest \<Rightarrow>
          let sy = sy\<lparr>inbox := rest\<rparr> in
          (case m_sendBuffer sy of
             None \<Rightarrow> Returned sy
           | Some nlh \<Rightarrow>
               if rq_flags nlh AND NLM_F_DUMP = 0 \<or> rq_flags nlh AND NLM_F_REQUEST = 0 then Returned sy
               else (case nextDumpRequestSequenceNumber sy of (seq, sy) \<Rightarrow>
                 let nlh = nlh\<lparr>rq_seq := seq\<rparr> in
                 lift (send E nlh (sy\<lparr>m_sendBuffer := Some nlh\<rparr>)))))"

section \<open>The receive loop\<close>

definition handleCallbackResult :: "environment \<Rightarrow> int \<Rightarrow> int \<Rightarrow> system \<Rightarrow> (bool \<times> system) outcome" where
  "handleCallbackResult E callbackResult errno sy =
     (if callbackResult = MNL_CB_ERROR
      then if isEnumerating sy
        then if shouldRetryDump errno
          then out_bind (retryLastDumpRequestWithNewSequenceNumber E sy) (\<lambda>sy. Returned (True, sy))
          else Failed (Abort ''mnl_cb_run unexpected MNL_CB_ERROR while enumerating'')
        else Failed (Abort ''mnl_cb_run unexpected MNL_CB_ERROR while not enumerating'')
      else if callbackResult = MNL_CB_STOP
      then if isEnumeratingLinks sy
        then lift (res_bind (sendDumpRequest E RTM_GETADDR (sy\<lparr>m_cacheState := EnumeratingAddresses\<rparr>))
          (\<lambda>sy. Inr (False, sy)))
        else if isEnumeratingAddresses sy
        then lift (res_bind (sendDumpRequest E RTM_GETROUTE (sy\<lparr>m_cacheState := EnumeratingRoutes\<rparr>))
          (\<lambda>sy. Inr (False, sy)))
        else if isEnumeratingRoutes sy
        then Returned (True, sy\<lparr>m_cacheState := WaitingForChanges\<rparr>)
        else if m_socket_open sy
        then Failed (Abort ''Unexpected MNL_CB_STOP'')
        else Returned (True, sy)
      else Returned (False, sy))"

definition updateStats :: "nat \<Rightarrow> system \<Rightarrow> system" where
  "updateStats receiveResult sy =
     (let sy = count_stat packetsReceived_update sy in
      sy\<lparr>m_stats := bytesReceived_update (\<lambda>c. c + word_of_nat receiveResult) (m_stats sy)\<rparr>)"

text \<open>One datagram: from \<open>updateStats\<close> to the end of the loop body, or to its \<open>break\<close>.\<close>

definition process_datagram :: "environment \<Rightarrow> u8 list \<Rightarrow> system \<Rightarrow> (bool \<times> system) outcome" where
  "process_datagram E buf sy =
     (let sy = updateStats (length buf) sy;
          seqNo = (if isEnumerating sy then m_sequenceNumber sy else 0) in
      out_bind (lift (mnl_cb_run E buf seqNo (m_portid sy) (mnlMessageCallback E) sy)) (\<lambda>((ret, errno), sy).
      out_bind (handleCallbackResult E ret errno sy) (\<lambda>(done, sy).
      if done then Returned (True, sy)
      else out_bind (lift (notifyChanges E sy)) (\<lambda>sy. Returned (False, sy)))))"

text \<open>
  \<open>mnl_socket_recvfrom\<close> on an open socket. With an empty inbox it blocks, or fails at once with
  \<open>EAGAIN\<close> on a socket that does not block.
\<close>

definition recvfrom :: "system \<Rightarrow> (u8 list option \<times> system) outcome" where
  "recvfrom sy =
     (case inbox sy of
        [] \<Rightarrow> if non_blocking sy then Returned (None, sy) else Blocked sy
      | Receive_failed # rs \<Rightarrow> Returned (None, sy\<lparr>inbox := rs\<rparr>)
      | Received now buf # rs \<Rightarrow>
          Returned (if buf = [] then None else Some buf, sy\<lparr>inbox := rs, clock := now\<rparr>))"

text \<open>
  \<open>while (receiveResult > 0)\<close>: the argument is the receive buffer when the result was positive.
  When a callback has closed the socket, the loop runs again on the same buffer.
\<close>

fun receive_loop :: "environment \<Rightarrow> nat \<Rightarrow> u8 list option \<Rightarrow> system \<Rightarrow> system outcome" where
  "receive_loop E 0 received sy = Out_of_fuel"
| "receive_loop E (Suc fuel) received sy =
     (case received of
        None \<Rightarrow> Returned sy
      | Some buf \<Rightarrow>
          out_bind (process_datagram E buf sy) (\<lambda>(done, sy).
          if done then Returned sy
          else if m_socket_open sy
          then out_bind (recvfrom sy) (\<lambda>(received, sy). receive_loop E fuel received sy)
          else receive_loop E fuel received sy))"

definition receiveAndProcess :: "environment \<Rightarrow> nat \<Rightarrow> system \<Rightarrow> system outcome" where
  "receiveAndProcess E fuel sy =
     (if \<not> m_socket_open sy then Returned sy
      else out_bind (recvfrom sy) (\<lambda>(received, sy). receive_loop E fuel received sy))"

section \<open>Enumeration and running\<close>

fun enumerate_loop :: "environment \<Rightarrow> nat \<Rightarrow> system \<Rightarrow> system outcome" where
  "enumerate_loop E 0 sy = Out_of_fuel"
| "enumerate_loop E (Suc fuel) sy =
     (if m_cacheState sy = WaitingForChanges then Returned sy
      else out_bind (receiveAndProcess E fuel sy) (enumerate_loop E fuel))"

definition enumerateInterfaces :: "environment \<Rightarrow> nat \<Rightarrow> system \<Rightarrow> (interfaces \<times> system) outcome" where
  "enumerateInterfaces E fuel sy =
     (if m_cacheState sy = WaitingForChanges then Returned (interfacesFromCache sy, sy)
      else out_bind (lift (sendDumpRequest E RTM_GETLINK sy)) (\<lambda>sy.
        out_bind (enumerate_loop E fuel sy) (\<lambda>sy. Returned (interfacesFromCache sy, sy))))"

fun run_loop :: "environment \<Rightarrow> nat \<Rightarrow> system \<Rightarrow> system outcome" where
  "run_loop E 0 sy = Out_of_fuel"
| "run_loop E (Suc fuel) sy =
     (if \<not> m_running sy then Returned sy
      else out_bind (receiveAndProcess E fuel sy) (run_loop E fuel))"

definition run :: "environment \<Rightarrow> nat \<Rightarrow> system \<Rightarrow> system outcome" where
  "run E fuel sy =
     (if \<not> m_socket_open sy then Returned sy
      else out_bind (enumerateInterfaces E fuel (sy\<lparr>m_running := True\<rparr>)) (\<lambda>(_, sy). run_loop E fuel sy))"

section \<open>Construction\<close>

text \<open>The multicast groups of linux/rtnetlink.h.\<close>

definition RTNLGRP_LINK :: nat where "RTNLGRP_LINK = 1"
definition RTNLGRP_NOTIFY :: nat where "RTNLGRP_NOTIFY = 2"
definition RTNLGRP_IPV4_IFADDR :: nat where "RTNLGRP_IPV4_IFADDR = 5"
definition RTNLGRP_IPV4_ROUTE :: nat where "RTNLGRP_IPV4_ROUTE = 7"
definition RTNLGRP_IPV6_IFADDR :: nat where "RTNLGRP_IPV6_IFADDR = 9"
definition RTNLGRP_IPV6_ROUTE :: nat where "RTNLGRP_IPV6_ROUTE = 11"

definition monitor_groups :: "RuntimeFlags \<Rightarrow> failure + u32" where
  "monitor_groups options =
     (let groups = toRtnlGroupFlag RTNLGRP_LINK OR toRtnlGroupFlag RTNLGRP_NOTIFY in
      res_bind (fs_test (RuntimeFlag_underlying RFlag_PreferredFamilyV6) options) (\<lambda>v6.
      let groups = (if \<not> v6
        then groups OR toRtnlGroupFlag RTNLGRP_IPV4_IFADDR OR toRtnlGroupFlag RTNLGRP_IPV4_ROUTE
        else groups) in
      res_bind (fs_test (RuntimeFlag_underlying RFlag_PreferredFamilyV4) options) (\<lambda>v4.
      Inr (if \<not> v4
        then groups OR toRtnlGroupFlag RTNLGRP_IPV6_IFADDR OR toRtnlGroupFlag RTNLGRP_IPV6_ROUTE
        else groups))))"

text \<open>
  The socket calls of the constructor: opening (blocking or not), reading the port id of the socket
  that is not bound yet, and binding to the groups.
\<close>

record socket_api =
  socket_open2 :: "bool \<Rightarrow> bool"
  socket_get_portid :: u32
  socket_bind :: "u32 \<Rightarrow> int"

definition statistics_zero :: "int \<Rightarrow> statistics" where
  "statistics_zero now =
     \<lparr>startTime = now, bytesSent = 0, bytesReceived = 0, packetsSent = 0, packetsReceived = 0,
      msgsReceived = 0, msgsDiscarded = 0, seenAttributes = 0, unknownAttributes = 0,
      addressMessagesSeen = 0, linkMessagesSeen = 0, routeMessagesSeen = 0\<rparr>"

definition monitor_new :: "socket_api \<Rightarrow> reception list \<Rightarrow> int \<Rightarrow> RuntimeFlags \<Rightarrow> failure + system" where
  "monitor_new os rs now options =
     res_bind (fs_test (RuntimeFlag_underlying RFlag_NonBlocking) options) (\<lambda>nonBlocking.
     if \<not> socket_open2 os nonBlocking then Inl (Abort ''mnl_socket_open2'')
     else res_bind (monitor_groups options) (\<lambda>groups.
       if socket_bind os groups < 0 then Inl (Abort ''mnl_socket_bind'')
       else Inr
         \<lparr>m_socket_open = True, m_sendBuffer = None, m_running = False,
          m_portid = socket_get_portid os, m_sequenceNumber = 0, m_trackers = [],
          m_cacheState = EnumeratingLinks, m_stats = statistics_zero now, m_runtimeOptions = options,
          m_subscribers = [], inbox = rs, clock = now, events = []\<rparr>))"

end
