(* ===== verification/Monitor_Invariant.thy ===== *)
theory Monitor_Invariant
  imports Observer Monitor_Loop Netlink_Wire
begin

unbundle bit_operations_syntax

text \<open>
  The invariant of the running monitor, \<open>sys_inv\<close>: good trackers in an ordered map, no null
  subscriber, and coherence, which says that what a subscriber does not believe correctly about an
  interface it subscribed to is flagged as changed. Every operation on messages, subscriptions and
  notifications returns and keeps it, under the laws of libmnl.
\<close>

section \<open>Coherence\<close>

definition informed :: "nat \<Rightarrow> u32 \<Rightarrow> tracker \<Rightarrow> event list \<Rightarrow> bool" where
  "informed k i t evs \<longleftrightarrow>
     (\<forall>g. g \<noteq> Changed_FlagsCount \<longrightarrow> changed g t \<or> believes k evs i g = aspect_of g t)"

definition coherent :: "system \<Rightarrow> bool" where
  "coherent sy \<longleftrightarrow>
     (\<forall>k i t. map_find i (m_trackers sy) = Some t \<longrightarrow> subscribed k i (m_subscribers sy) \<longrightarrow>
        informed k i t (events sy))"

definition trackers_inv :: "(u32, tracker) std_map \<Rightarrow> bool" where
  "trackers_inv ts \<longleftrightarrow> map_wf ts \<and> (\<forall>i t. map_find i ts = Some t \<longrightarrow> tracker_inv t)"

definition sys_inv :: "system \<Rightarrow> bool" where
  "sys_inv sy \<longleftrightarrow> trackers_inv (m_trackers sy) \<and> subs_wf (m_subscribers sy) \<and> coherent sy"

text \<open>What message handling leaves alone; the socket closes only when a subscriber calls \<open>stop\<close>.\<close>

definition never_stops :: "environment \<Rightarrow> bool" where
  "never_stops E \<longleftrightarrow> (\<forall>k n. \<not> calls_stop E k n)"

definition same_control :: "environment \<Rightarrow> system \<Rightarrow> system \<Rightarrow> bool" where
  "same_control E sy sy' \<longleftrightarrow>
     m_cacheState sy' = m_cacheState sy \<and> m_sequenceNumber sy' = m_sequenceNumber sy \<and>
     m_sendBuffer sy' = m_sendBuffer sy \<and> m_portid sy' = m_portid sy \<and>
     m_runtimeOptions sy' = m_runtimeOptions sy \<and> m_subscribers sy' = m_subscribers sy \<and>
     inbox sy' = inbox sy \<and> clock sy' = clock sy \<and>
     requests (events sy') = requests (events sy) \<and>
     (m_socket_open sy' \<longrightarrow> m_socket_open sy) \<and> (m_running sy' \<longrightarrow> m_running sy) \<and>
     (m_subscribers sy = [] \<or> never_stops E \<longrightarrow> m_socket_open sy' = m_socket_open sy \<and> m_running sy' = m_running sy)"

lemma same_control_refl: "same_control E sy sy"
  by (simp add: same_control_def)

lemma same_control_trans: "same_control E a b \<Longrightarrow> same_control E b c \<Longrightarrow> same_control E a c"
  unfolding same_control_def by auto

lemma stops_never: "never_stops E \<Longrightarrow> \<not> stops E evs"
  by (induction E evs rule: stops.induct) (auto simp: never_stops_def)

lemma quiet_control:
  "quiet E evs sy sy' \<Longrightarrow> requests evs = [] \<Longrightarrow> evs = [] \<or> m_subscribers sy \<noteq> [] \<Longrightarrow> same_control E sy sy'"
  using stops_never [of E evs] by (auto simp: same_control_def quiet_def stop_def split: if_splits)

lemma informed_quiet:
  "heard_of k i evs' = [] \<Longrightarrow> informed k i t (evs @ evs') \<longleftrightarrow> informed k i t evs"
  by (simp add: informed_def believes_append)

lemma informed_aspects:
  assumes "informed k i t evs" and "\<And>g. changed g t \<Longrightarrow> changed g t'"
    and "\<And>g. aspect_of g t' \<noteq> aspect_of g t \<Longrightarrow> changed g t'"
  shows "informed k i t' evs"
  using assms unfolding informed_def by metis

section \<open>Notification\<close>

lemma map_find_all2:
  assumes "list_all2 (\<lambda>(i, t) (j, t'). j = i \<and> R t t') ts ts'"
  shows "map fst ts' = map fst ts" and "map_find i ts' = Some t' \<Longrightarrow> \<exists>t. map_find i ts = Some t \<and> R t t'"
    and "map_find i ts = Some t \<Longrightarrow> \<exists>t'. map_find i ts' = Some t' \<and> R t t'"
  using assms by (induction ts ts' rule: list_all2_induct) (auto split: prod.splits if_splits)

lemma map_wf_keys: "map fst ts' = map fst ts \<Longrightarrow> map_wf ts' \<longleftrightarrow> map_wf ts"
  by (simp add: map_wf_def ordered_by_def)

text \<open>
  One round of \<open>notifyChanges()\<close>: each subscriber hears exactly the changes of the interfaces it
  subscribed to, no flag is left, and the trackers are otherwise as before.
\<close>

definition notified_round :: "environment \<Rightarrow> system \<Rightarrow> system \<Rightarrow> bool" where
  "notified_round E sy sy' \<longleftrightarrow>
     (if m_subscribers sy = [] then sy' = sy
      else quiet E (round_calls (m_subscribers sy) (m_trackers sy)) sy (sy'\<lparr>m_trackers := m_trackers sy\<rparr>) \<and>
        list_all2 (\<lambda>(i, t) (j, t'). j = i \<and> cleared t t') (m_trackers sy) (m_trackers sy'))"

lemma notifyChanges_round:
  assumes "subs_wf (m_subscribers sy)"
  shows "returns (notifyChanges E sy) (notified_round E sy)"
proof (cases "m_subscribers sy = []")
  case True
  then show ?thesis by (simp add: notifyChanges_def notified_round_def)
next
  case False
  obtain ts' sy' where 1: "notify_trackers E (m_subscribers sy) (m_trackers sy) sy = Inr (ts', sy')"
    "list_all2 (\<lambda>(i, t) (j, t'). j = i \<and> cleared t t') (m_trackers sy) ts'"
    "quiet E (round_calls (m_subscribers sy) (m_trackers sy)) sy sy'"
    using notify_trackers_ok [OF assms, of E "m_trackers sy" sy] by (auto simp: returns_def)
  have "sy'\<lparr>m_trackers := m_trackers sy\<rparr> = sy'"
    using 1(3) by (simp add: quiet_def stop_def)
  with 1 False show ?thesis
    by (simp add: notifyChanges_def notified_round_def)
qed

lemma round_informed:
  assumes "informed k i t evs" and "subscribed k i subs" and "map_find i ts = Some t" and "map_wf ts"
    and "subs_wf subs" and "g \<noteq> Changed_FlagsCount"
  shows "believes k (evs @ round_calls subs ts) i g = aspect_of g t"
proof -
  have "distinct (map fst ts)"
    using assms(4) by (simp add: map_wf_def ordered_by_distinct)
  then have "heard_of k i (round_calls subs ts) = news False \<lparr>if_index = i, if_name = m_name t\<rparr> t"
    using assms by (simp add: round_calls_heard map_find_map_of)
  then show ?thesis
    using assms(1,6) learn_news [of "\<lparr>if_index = i, if_name = m_name t\<rparr>" t False "believes k evs" g]
    by (auto simp: believes_append informed_def)
qed

lemma notifyChanges_inv:
  assumes "sys_inv sy"
  shows "returns (notifyChanges E sy) (\<lambda>sy'. notified_round E sy sy' \<and> sys_inv sy' \<and> same_control E sy sy')"
proof (rule returns_mono [OF notifyChanges_round])
  show subs: "subs_wf (m_subscribers sy)"
    using assms by (simp add: sys_inv_def)
  fix sy' assume round: "notified_round E sy sy'"
  have "sys_inv sy' \<and> same_control E sy sy'"
  proof (cases "m_subscribers sy = []")
    case True
    with round assms show ?thesis by (simp add: notified_round_def same_control_refl)
  next
    case False
    let ?evs = "round_calls (m_subscribers sy) (m_trackers sy)"
    from round False have q: "quiet E ?evs sy (sy'\<lparr>m_trackers := m_trackers sy\<rparr>)"
      and ts: "list_all2 (\<lambda>(i, t) (j, t'). j = i \<and> cleared t t') (m_trackers sy) (m_trackers sy')"
      by (simp_all add: notified_round_def)
    have wf: "map_wf (m_trackers sy)" and inv: "\<And>i t. map_find i (m_trackers sy) = Some t \<Longrightarrow> tracker_inv t"
      using assms by (simp_all add: sys_inv_def trackers_inv_def)
    have "trackers_inv (m_trackers sy')"
      using map_find_all2 [OF ts] wf inv map_wf_keys [of "m_trackers sy'" "m_trackers sy"]
      unfolding trackers_inv_def by (metis cleared_facts(4))
    moreover have fields: "events sy' = events sy @ ?evs" "m_subscribers sy' = m_subscribers sy"
      using quiet_fields [OF q] by simp_all
    moreover have "coherent sy'"
      unfolding coherent_def
    proof (intro allI impI)
      fix k i t'
      assume "map_find i (m_trackers sy') = Some t'" and sub: "subscribed k i (m_subscribers sy')"
      then obtain t where t: "map_find i (m_trackers sy) = Some t" "cleared t t'"
        using map_find_all2 [OF ts] by blast
      then have "informed k i t (events sy)"
        using assms sub fields by (auto simp: sys_inv_def coherent_def)
      then show "informed k i t' (events sy')"
        using round_informed [of k i t "events sy" "m_subscribers sy" "m_trackers sy"] t sub wf subs
          cleared_facts(1) [OF t(2)] fields
        by (simp add: informed_def)
    qed
    moreover have "same_control E sy sy'"
      using quiet_control [OF q] False by (simp add: same_control_def)
    ultimately show ?thesis
      using subs by (simp add: sys_inv_def)
  qed
  with round show "notified_round E sy sy' \<and> sys_inv sy' \<and> same_control E sy sy'" by simp
qed

section \<open>Calls to every subscriber\<close>

definition to_all :: "(subscriber \<times> interfaces) list \<Rightarrow> notification \<Rightarrow> event list" where
  "to_all subs n = map (\<lambda>(s, _). Notified (the s) n) subs"

lemma notify_each_ok:
  assumes "subs_wf subs"
  shows "returns (notify_each E subs n sy) (quiet E (to_all subs n) sy)"
  using assms
proof (induction subs arbitrary: sy)
  case Nil
  then show ?case by (simp add: to_all_def quiet_Nil)
next
  case (Cons x subs)
  obtain k intfs where x: "x = (Some k, intfs)"
    using Cons.prems(1) by (cases x) (auto simp: subs_wf_Cons)
  obtain sy' where 1: "call_subscriber E (Some k) n sy = Inr sy'" "quiet E [Notified k n] sy sy'"
    using call_ok by blast
  have "subs_wf subs"
    using Cons.prems x by (simp add: subs_wf_Cons)
  from Cons.IH [OF this, of sy'] quiet_trans [OF 1(2)] show ?case
    using 1(1) x by (auto simp: to_all_def returns_def)
qed

lemma to_all_heard:
  assumes "subs_wf subs"
  shows "heard_of k i (to_all subs n) =
    (if Some k \<in> fst ` set subs \<and> if_index (about n) = i then [n] else [])"
proof -
  have "heard k (to_all subs n) = (if Some k \<in> fst ` set subs then [n] else [])"
    using assms
  proof (induction subs)
    case (Cons x subs)
    obtain j intfs where "x = (Some j, intfs)"
      using Cons.prems(1) by (cases x) (auto simp: subs_wf_Cons)
    with Cons show ?case
      by (auto simp: to_all_def subs_wf_Cons)
  qed (simp add: to_all_def)
  then show ?thesis by (simp add: heard_of_def)
qed

lemma requests_to_all [simp]: "requests (to_all subs n) = []"
  by (induction subs) (auto simp: to_all_def)

lemma to_all_Nil: "to_all subs n = [] \<longleftrightarrow> subs = []"
  by (simp add: to_all_def)

lemma subscribed_in: "subscribed k i subs \<Longrightarrow> Some k \<in> fst ` set subs"
  by (auto simp: subscribed_def split: option.splits dest: map_of_SomeD intro: image_eqI [where x = "(Some k, _)"])

section \<open>The cache the monitor keeps\<close>

text \<open>The monitor's knowledge as a map from interface indices to views.\<close>

type_synonym cache = "u32 \<rightharpoonup> link_view"

definition cache_of :: "system \<Rightarrow> cache" where
  "cache_of sy = (\<lambda>i. map_option view_of (map_find i (m_trackers sy)))"

definition blank_view :: link_view where
  "blank_view = view_of (tracker_new 0)"

datatype change = Appear u32 | Change u32 tracker_op | Vanish u32

fun apply_change :: "change \<Rightarrow> cache \<Rightarrow> cache" where
  "apply_change (Appear i) c = (if c i = None then c(i \<mapsto> blank_view) else c)"
| "apply_change (Change i op) c = c(i := map_option (view_step op) (c i))"
| "apply_change (Vanish i) c = c(i := None)"

text \<open>A step of the monitor that keeps the invariant and makes these changes to the cache.\<close>

definition effect :: "environment \<Rightarrow> change list \<Rightarrow> system \<Rightarrow> system \<Rightarrow> bool" where
  "effect E chs sy sy' \<longleftrightarrow>
     sys_inv sy' \<and> same_control E sy sy' \<and> cache_of sy' = fold apply_change chs (cache_of sy)"

lemma effect_Nil: "sys_inv sy \<Longrightarrow> effect E [] sy sy"
  by (simp add: effect_def same_control_refl)

lemma effect_trans: "effect E xs a b \<Longrightarrow> effect E ys b c \<Longrightarrow> effect E (xs @ ys) a c"
  unfolding effect_def by (auto intro: same_control_trans)

lemma effect_inv: "effect E chs sy sy' \<Longrightarrow> sys_inv sy'"
  by (simp add: effect_def)

lemma effect_bind:
  assumes "returns m (effect E xs sy)" and "\<And>sy'. effect E xs sy sy' \<Longrightarrow> returns (f sy') (effect E ys sy')"
  shows "returns (res_bind m f) (effect E (xs @ ys) sy)"
  using assms(1)
proof (rule returns_bind)
  fix sy' assume xs: "effect E xs sy sy'"
  from assms(2) [OF xs] show "returns (f sy') (effect E (xs @ ys) sy)"
    by (rule returns_mono) (rule effect_trans [OF xs])
qed

lemma effect_stats:
  "sys_inv sy \<Longrightarrow> effect E [] sy (sy\<lparr>m_stats := st\<rparr>)"
  by (simp add: effect_def same_control_def sys_inv_def coherent_def cache_of_def)

section \<open>Updating one tracker\<close>

definition plain_op :: "tracker_op \<Rightarrow> bool" where
  "plain_op op \<longleftrightarrow> op_valid op \<and> (\<forall>g. \<not> op_clears g op)"

lemma cache_dom: "cache_of sy i = None \<longleftrightarrow> \<not> map_contains i (m_trackers sy)"
  by (simp add: cache_of_def map_contains_def)

lemma with_tracker_effect:
  assumes "sys_inv sy" and "cache_of sy i \<noteq> None" and "plain_op op"
    and "f = (\<lambda>now. tracker_apply now op)"
  shows "returns (with_tracker i f sy) (effect E [Change i op] sy)"
proof -
  from assms(2) obtain t where t: "map_find i (m_trackers sy) = Some t"
    by (auto simp: cache_of_def)
  have wf: "map_wf (m_trackers sy)" and inv: "\<And>j u. map_find j (m_trackers sy) = Some u \<Longrightarrow> tracker_inv u"
    using assms(1) by (auto simp: sys_inv_def trackers_inv_def)
  obtain t' where t': "f (clock sy) t = Inr t'" "good_step op t t'"
    using apply_good [of t op "clock sy"] inv [OF t] assms(3,4) by (auto simp: plain_op_def)
  let ?sy = "sy\<lparr>m_trackers := map_put i t' (m_trackers sy)\<rparr>"
  have keep: "changed g t \<Longrightarrow> changed g t'" "aspect_of g t' \<noteq> aspect_of g t \<Longrightarrow> changed g t'" for g
    using t'(2) assms(3) by (auto simp: good_step_def plain_op_def)
  have "trackers_inv (m_trackers ?sy)"
    using wf inv t'(2) by (auto simp: trackers_inv_def good_step_def map_wf_put map_find_put split: if_splits)
  moreover have "coherent ?sy"
    using assms(1) t keep wf
    by (auto simp: sys_inv_def coherent_def map_find_put split: if_splits intro: informed_aspects [of _ _ t])
  moreover have "cache_of ?sy = apply_change (Change i op) (cache_of sy)"
    using t t'(2) wf by (auto simp: cache_of_def map_find_put good_step_def fun_eq_iff)
  ultimately show ?thesis
    using t t'(1) assms(1)
    by (simp add: with_tracker_def effect_def sys_inv_def same_control_def)
qed

lemma if_tracker_effect:
  assumes "sys_inv sy" and "plain_op op" and "f = (\<lambda>now. tracker_apply now op)"
  shows "returns (if_tracker i f sy) (effect E [Change i op] sy)"
proof (cases "cache_of sy i = None")
  case True
  then have "apply_change (Change i op) (cache_of sy) = cache_of sy"
    by (auto simp: fun_eq_iff)
  with True assms(1) show ?thesis
    by (simp add: if_tracker_def cache_dom effect_def same_control_refl)
next
  case False
  with with_tracker_effect [OF assms(1) False assms(2,3)] show ?thesis
    by (simp add: if_tracker_def cache_dom)
qed

section \<open>Interfaces that appear and vanish\<close>

text \<open>
  A tracker may be replaced by a newly made one: whoever hears \<open>Interface_added\<close> holds the right
  beliefs about it, for the name is announced and everything else has its default value.
\<close>

definition rename_op :: "u32 \<Rightarrow> string option \<Rightarrow> change list" where
  "rename_op i name = (case name of None \<Rightarrow> [] | Some n \<Rightarrow> [Change i (Op_setName n)])"

lemma plain_ops [simp]:
  "plain_op (Op_setName n)" "plain_op (Op_setOperationalState op)"
  "plain_op (Op_setMacAddress a) \<longleftrightarrow> eth_wf a" "plain_op (Op_setBroadcastAddress a) \<longleftrightarrow> eth_wf a"
  "plain_op (Op_setGatewayAddress g) \<longleftrightarrow> ip_wf g" "plain_op (Op_clearGatewayAddress r)"
  "plain_op (Op_addNetworkAddress x) \<longleftrightarrow> net_wf x" "plain_op (Op_removeNetworkAddress x)"
  "plain_op (Op_updateLinkFlags f)"
  by (simp_all add: plain_op_def)

lemma view_of_new: "view_of (tracker_new now) = blank_view"
  by (simp add: view_of_def tracker_new_def blank_view_def)

lemma named_new:
  obtains t where "setName now n (tracker_new now') = Inr t" and "tracker_inv t" and "m_name t = n"
    and "\<And>g. newcomer n g = aspect_of g t"
    and "view_of t = view_step (Op_setName n) blank_view"
proof -
  obtain t where t: "setName now n (tracker_new now') = Inr t" "good_step (Op_setName n) (tracker_new now') t"
    using setters_good(1) [OF tracker_inv_new] by blast
  have frame: "aspect_of g t = aspect_of g (tracker_new now')" if "g \<noteq> Changed_Name" for g
    using name_setter.op_frame(1) [OF t(1) that] .
  have view: "view_of t = view_step (Op_setName n) blank_view"
    using t(2) by (simp add: good_step_def view_of_new)
  moreover have "m_name t = lv_name (view_of t)"
    by (simp add: view_of_def)
  ultimately have name: "m_name t = n"
    by simp
  have "newcomer n g = aspect_of g t" for g
  proof (cases "g = Changed_Name")
    case False
    moreover have "aspect_of g (tracker_new 0) = aspect_of g (tracker_new now')"
      by (cases g) (simp_all add: tracker_new_def)
    ultimately show ?thesis
      using frame by (simp add: newcomer_def)
  qed (simp add: newcomer_def name)
  with t view name that show ?thesis
    by (auto simp: good_step_def)
qed

text \<open>Announcing a tracker that has just been put into the map.\<close>

lemma announce:
  assumes "sys_inv sy" and "map_find i (m_trackers sy) = None" and "tracker_inv t" and "m_name t = n"
    and "\<And>g. newcomer n g = aspect_of g t" and "view_of t = v"
  shows "returns (notifyInterfaceAdded E \<lparr>if_index = i, if_name = n\<rparr> (sy\<lparr>m_trackers := map_put i t (m_trackers sy)\<rparr>))
    (\<lambda>sy'. sys_inv sy' \<and> same_control E sy sy' \<and> cache_of sy' = (cache_of sy)(i \<mapsto> v) \<and>
      m_stats sy' = m_stats sy \<and>
      events sy' = events sy @ to_all (m_subscribers sy) (Interface_added \<lparr>if_index = i, if_name = n\<rparr>))"
proof -
  let ?u = "sy\<lparr>m_trackers := map_put i t (m_trackers sy)\<rparr>"
  let ?n = "Interface_added \<lparr>if_index = i, if_name = n\<rparr>"
  have wf: "map_wf (m_trackers sy)" and inv: "\<And>j u. map_find j (m_trackers sy) = Some u \<Longrightarrow> tracker_inv u"
    and subs: "subs_wf (m_subscribers sy)"
    using assms(1) by (auto simp: sys_inv_def trackers_inv_def)
  obtain sy' where sy': "notifyInterfaceAdded E \<lparr>if_index = i, if_name = n\<rparr> ?u = Inr sy'"
    "quiet E (to_all (m_subscribers sy) ?n) ?u sy'"
    using notify_each_ok [of "m_subscribers ?u" E ?n ?u] subs
    by (auto simp: notifyInterfaceAdded_def returns_def)
  note f = quiet_fields [OF sy'(2)]
  have "trackers_inv (m_trackers sy')"
    using wf inv assms(3) f by (auto simp: trackers_inv_def map_wf_put map_find_put split: if_splits)
  moreover have "coherent sy'"
    unfolding coherent_def
  proof (intro allI impI)
    fix k j u
    assume u: "map_find j (m_trackers sy') = Some u" and sub: "subscribed k j (m_subscribers sy')"
    show "informed k j u (events sy')"
    proof (cases "j = i")
      case True
      then have "heard_of k j (to_all (m_subscribers sy) ?n) = [?n]"
        using sub f subs by (simp add: to_all_heard subscribed_in)
      with True u assms(5) f wf show ?thesis
        by (simp add: informed_def believes_append map_find_put)
    next
      case False
      then have "heard_of k j (to_all (m_subscribers sy) ?n) = []"
        using subs by (simp add: to_all_heard)
      with False u sub f wf assms(1) show ?thesis
        by (simp add: informed_quiet map_find_put sys_inv_def coherent_def)
    qed
  qed
  moreover have "same_control E sy sy'"
    using quiet_control [OF sy'(2)] by (simp add: same_control_def to_all_Nil)
  moreover have "cache_of sy' = (cache_of sy)(i \<mapsto> v)"
    using f wf assms(6) by (auto simp: cache_of_def map_find_put fun_eq_iff)
  ultimately show ?thesis
    using sy'(1) f subs by (simp add: sys_inv_def)
qed

text \<open>The changes \<open>ensureNameCurrent\<close> makes, and the calls: one per subscriber for a new tracker.\<close>

definition added_calls :: "system \<Rightarrow> u32 \<Rightarrow> string option \<Rightarrow> event list" where
  "added_calls sy i name =
     (if cache_of sy i = None
      then to_all (m_subscribers sy)
        (Interface_added \<lparr>if_index = i, if_name = (case name of None \<Rightarrow> [] | Some n \<Rightarrow> n)\<rparr>)
      else [])"

lemma length_put_new: "map_wf m \<Longrightarrow> map_find i m = None \<Longrightarrow> length (map_put i t m) = Suc (length m)"
  by (simp add: length_map_put map_contains_def)

lemma length_put_same: "map_wf m \<Longrightarrow> map_find i m \<noteq> None \<Longrightarrow> length (map_put i t m) = length m"
  by (simp add: length_map_put map_contains_def)

lemma map_put_put: "map_wf m \<Longrightarrow> map_put i u (map_put i t m) = map_put i u m"
  by (induction i t m rule: map_put.induct) (auto simp: map_wf_def)

lemma ensureNameCurrent_new:
  assumes "sys_inv sy" and "cache_of sy i = None"
  shows "returns (ensureNameCurrent E i name sy) (\<lambda>sy'.
    effect E (Appear i # rename_op i name) sy sy' \<and> events sy' = events sy @ added_calls sy i name)"
proof -
  have wf: "map_wf (m_trackers sy)" and none: "map_find i (m_trackers sy) = None"
    using assms by (auto simp: sys_inv_def trackers_inv_def cache_of_def)
  let ?new = "tracker_new (clock sy)"
  show ?thesis
  proof (cases name)
    case None
    have "newcomer [] g = aspect_of g ?new" for g
      by (cases g) (simp_all add: newcomer_def tracker_new_def)
    from announce [OF assms(1) none tracker_inv_new _ this view_of_new, of E] None assms(2)
    show ?thesis
      by (auto simp: ensureNameCurrent_def map_contains_def none length_put_new [OF wf none]
          map_find_put [OF wf] rename_op_def effect_def added_calls_def returns_def tracker_new_def)
  next
    case (Some n)
    obtain t where t: "setName (clock sy) n ?new = Inr t" "tracker_inv t" "m_name t = n"
      "\<And>g. newcomer n g = aspect_of g t" "view_of t = view_step (Op_setName n) blank_view"
      using named_new by blast
    have "ensureNameCurrent E i name sy =
        notifyInterfaceAdded E \<lparr>if_index = i, if_name = n\<rparr> (sy\<lparr>m_trackers := map_put i t (m_trackers sy)\<rparr>)"
      using Some t(1,3) none
      by (simp add: ensureNameCurrent_def map_contains_def with_tracker_def map_find_put wf map_put_put
          length_put_new)
    with announce [OF assms(1) none t(2-5), of E] Some assms(2) show ?thesis
      by (auto simp: rename_op_def effect_def added_calls_def returns_def fun_eq_iff)
  qed
qed

lemma with_tracker_events: "with_tracker i f sy = Inr sy' \<Longrightarrow>
    events sy' = events sy \<and> map_contains i (m_trackers sy)"
  by (auto simp: with_tracker_def res_bind_eq_Inr map_contains_def split: option.splits)

lemma ensureNameCurrent_old:
  assumes "sys_inv sy" and "cache_of sy i \<noteq> None"
  shows "returns (ensureNameCurrent E i name sy) (\<lambda>sy'.
    effect E (Appear i # rename_op i name) sy sy' \<and> events sy' = events sy @ added_calls sy i name)"
proof -
  have wf: "map_wf (m_trackers sy)" and some: "map_contains i (m_trackers sy)"
    using assms by (auto simp: sys_inv_def trackers_inv_def cache_dom)
  show ?thesis
  proof (cases name)
    case None
    with assms some show ?thesis
      by (auto simp: ensureNameCurrent_def rename_op_def effect_def same_control_refl added_calls_def)
  next
    case (Some n)
    have "(\<lambda>now. setName now n) = (\<lambda>now. tracker_apply now (Op_setName n))"
      by (simp add: fun_eq_iff)
    from with_tracker_effect [OF assms plain_ops(1) this] obtain sy'
      where sy': "with_tracker i (\<lambda>now. setName now n) sy = Inr sy'"
        "effect E [Change i (Op_setName n)] sy sy'"
      unfolding returns_def by blast
    have "length (m_trackers sy') = length (m_trackers sy)"
      using sy'(1) some wf
      by (auto simp: with_tracker_def res_bind_eq_Inr length_put_same split: option.splits)
    with Some sy' some assms(2) with_tracker_events [OF sy'(1)] show ?thesis
      by (auto simp: ensureNameCurrent_def rename_op_def effect_def added_calls_def)
  qed
qed

lemma ensureNameCurrent_effect:
  assumes "sys_inv sy"
  shows "returns (ensureNameCurrent E i name sy) (\<lambda>sy'.
    effect E (Appear i # rename_op i name) sy sy' \<and> events sy' = events sy @ added_calls sy i name)"
  using ensureNameCurrent_new [OF assms] ensureNameCurrent_old [OF assms] by blast

text \<open>An interface that is gone: every subscriber hears of it, whether it had a tracker or not.\<close>

lemma removed_effect:
  assumes "sys_inv sy"
  shows "returns (notifyInterfaceRemoved E \<lparr>if_index = i, if_name = n\<rparr>
      (sy\<lparr>m_trackers := map_erase i (m_trackers sy)\<rparr>))
    (\<lambda>sy'. effect E [Vanish i] sy sy' \<and>
      events sy' = events sy @ to_all (m_subscribers sy) (Interface_removed \<lparr>if_index = i, if_name = n\<rparr>))"
proof -
  let ?u = "sy\<lparr>m_trackers := map_erase i (m_trackers sy)\<rparr>"
  let ?n = "Interface_removed \<lparr>if_index = i, if_name = n\<rparr>"
  have wf: "map_wf (m_trackers sy)" and inv: "\<And>j u. map_find j (m_trackers sy) = Some u \<Longrightarrow> tracker_inv u"
    and subs: "subs_wf (m_subscribers sy)"
    using assms(1) by (auto simp: sys_inv_def trackers_inv_def)
  obtain sy' where sy': "notifyInterfaceRemoved E \<lparr>if_index = i, if_name = n\<rparr> ?u = Inr sy'"
    "quiet E (to_all (m_subscribers sy) ?n) ?u sy'"
    using notify_each_ok [of "m_subscribers ?u" E ?n ?u] subs
    by (auto simp: notifyInterfaceRemoved_def returns_def)
  note f = quiet_fields [OF sy'(2)]
  have "trackers_inv (m_trackers sy')"
    using wf inv f by (auto simp: trackers_inv_def map_wf_erase map_find_erase split: if_splits)
  moreover have "informed k j u (events sy')"
    if "map_find j (m_trackers sy') = Some u" and "subscribed k j (m_subscribers sy')" for k j u
  proof -
    have "j \<noteq> i" and "map_find j (m_trackers sy) = Some u"
      using that(1) f wf by (auto simp: map_find_erase split: if_splits)
    moreover from this have "heard_of k j (to_all (m_subscribers sy) ?n) = []"
      using subs by (simp add: to_all_heard)
    ultimately show ?thesis
      using that(2) f assms by (simp add: informed_quiet sys_inv_def coherent_def)
  qed
  moreover have "same_control E sy sy'"
    using quiet_control [OF sy'(2)] by (simp add: same_control_def to_all_Nil)
  moreover have "cache_of sy' = (cache_of sy)(i := None)"
    using f wf by (auto simp: cache_of_def map_find_erase fun_eq_iff)
  ultimately show ?thesis
    using sy'(1) f subs by (simp add: sys_inv_def effect_def coherent_def)
qed

end
