(* ===== verification/Message_Meaning.thy ===== *)
theory Message_Meaning
  imports Monitor_Invariant
begin

unbundle bit_operations_syntax

text \<open>
  What a netlink message means for the cache: \<open>meaning\<close> reads a message into a list of changes,
  under the options of the monitor, and the message callback is shown to make exactly these
  changes while it keeps the invariant. The attributes it reads are those of \<open>Attributes::parse\<close>.
\<close>

section \<open>Attributes without the counters\<close>

definition attributes_of :: "libmnl \<Rightarrow> nlmsghdr \<Rightarrow> u32 \<Rightarrow> u16 \<Rightarrow> attrs" where
  "attributes_of M n offset maxType =
     (case Attributes_parse M n offset maxType 0 0 of Inr (as, _) \<Rightarrow> as | Inl _ \<Rightarrow> [])"

context mnl_attributes
begin

lemma parse_attributes_of:
  "\<exists>s u. Attributes_parse M n offset maxType seen unknown = Inr (attributes_of M n offset maxType, s, u)"
proof -
  let ?init = "replicate (unat maxType + 1) None :: attrs"
  let ?xs = "mnl_attrs M n offset"
  have len: "length ?init = unat maxType + 1" by simp
  from parse_loop [OF len, of ?xs seen unknown] obtain as s u where
    1: "Attributes_parse M n offset maxType seen unknown = Inr (as, s, u)" "length as = unat maxType + 1"
    and as: "\<forall>t \<le> maxType. as ! unat t = (case filter (\<lambda>a. mnl_attr_get_type M a = t) ?xs of
      [] \<Rightarrow> ?init ! unat t | ys \<Rightarrow> Some (last ys))"
    unfolding Attributes_parse_def len by blast
  from parse_loop [OF len, of ?xs 0 0] obtain bs s' u' where
    2: "Attributes_parse M n offset maxType 0 0 = Inr (bs, s', u')" "length bs = unat maxType + 1"
    and bs: "\<forall>t \<le> maxType. bs ! unat t = (case filter (\<lambda>a. mnl_attr_get_type M a = t) ?xs of
      [] \<Rightarrow> ?init ! unat t | ys \<Rightarrow> Some (last ys))"
    unfolding Attributes_parse_def len by blast
  have "as = bs"
  proof (rule nth_equalityI)
    fix j assume j: "j < length as"
    have "unat maxType < 2 ^ LENGTH(16)"
      by (rule unsigned_less)
    then have "j < 2 ^ LENGTH(16)"
      using j 1(2) by linarith
    then have "unat (word_of_nat j :: u16) = j"
      by (simp add: unsigned_of_nat take_bit_nat_eq_self)
    moreover from this have "(word_of_nat j :: u16) \<le> maxType"
      using j 1(2) by (simp add: word_le_nat_alt)
    ultimately show "as ! j = bs ! j"
      using as bs by metis
  qed (simp add: 1(2) 2(2))
  with 1 2 show ?thesis
    by (simp add: attributes_of_def)
qed

end

section \<open>The meaning of a message\<close>

definition opt_change :: "'a option \<Rightarrow> (u32 \<Rightarrow> 'a \<Rightarrow> change) \<Rightarrow> u32 \<Rightarrow> change list" where
  "opt_change v mk i = (case v of None \<Rightarrow> [] | Some x \<Rightarrow> [mk i x])"

text \<open>A getter that must not fail; \<open>None\<close> stands for a missing attribute.\<close>

fun got :: "failure + 'a option \<Rightarrow> 'a option" where
  "got (Inr r) = r"
| "got (Inl e) = None"

definition link_meaning :: "environment \<Rightarrow> RuntimeFlags \<Rightarrow> nlmsghdr \<Rightarrow> ifinfomsg \<Rightarrow> change list" where
  "link_meaning E options n ifi =
     (let M = env_mnl E; as = attributes_of M n sizeof_ifinfomsg (IFLA_MAX E); i = ifi_index ifi in
      if ifi_type ifi \<notin> {ARPHRD_ETHER, ARPHRD_IEEE80211} \<and>
         \<not> bit options (RuntimeFlag_underlying RFlag_IncludeNonIeee802) then []
      else if nlmsg_type n = RTM_DELLINK then [Vanish i]
      else [Appear i] @ rename_op i (getString M as IFLA_IFNAME) @
        [Change i (Op_updateLinkFlags (fs_from_u32 (ifi_flags ifi)))] @
        opt_change (getU8 M as IFLA_OPERSTATE) (\<lambda>i op. Change i (Op_setOperationalState (OperState op))) i @
        opt_change (got (getEthernetAddress M as IFLA_ADDRESS)) (\<lambda>i a. Change i (Op_setMacAddress a)) i @
        opt_change (got (getEthernetAddress M as IFLA_BROADCAST)) (\<lambda>i a. Change i (Op_setBroadcastAddress a)) i)"

text \<open>
  The address of an address message: an IPv6 \<open>IFA_ADDRESS\<close>, else an IPv4 \<open>IFA_LOCAL\<close>, else the
  default 0.0.0.0.
\<close>

definition message_address :: "environment \<Rightarrow> attrs \<Rightarrow> ifaddrmsg \<Rightarrow> net_address" where
  "message_address E as ifa =
     (let M = env_mnl E in
      \<lparr>m_ip = (case got (getIpV6Address M as IFA_ADDRESS) of Some a \<Rightarrow> a
               | None \<Rightarrow> (case got (getIpV4Address M as IFA_LOCAL) of Some a \<Rightarrow> a | None \<Rightarrow> ip_default)),
       m_brd = got (getIpV4Address M as IFA_BROADCAST),
       m_prefixlen = ifa_prefixlen ifa,
       m_scope = fromRtnlScope (ifa_scope ifa),
       m_flags = fs_from_u32 (case getU32 M as IFA_FLAGS of Some f \<Rightarrow> f | None \<Rightarrow> ucast (ifa_flags ifa)),
       m_prot = Protocol (case getU8 M as IFA_PROTO of Some p \<Rightarrow> p | None \<Rightarrow> IFAPROT_UNSPEC)\<rparr>)"

definition family_preferred :: "RuntimeFlags \<Rightarrow> u8 \<Rightarrow> bool" where
  "family_preferred options family \<longleftrightarrow>
     \<not> (bit options (RuntimeFlag_underlying RFlag_PreferredFamilyV4) \<and> uint family \<noteq> AF_INET) \<and>
     \<not> (bit options (RuntimeFlag_underlying RFlag_PreferredFamilyV6) \<and> uint family \<noteq> AF_INET6)"

definition address_meaning :: "environment \<Rightarrow> RuntimeFlags \<Rightarrow> nlmsghdr \<Rightarrow> ifaddrmsg \<Rightarrow> change list" where
  "address_meaning E options n ifa =
     (let as = attributes_of (env_mnl E) n sizeof_ifaddrmsg (IFA_MAX E); i = ifa_index ifa in
      if \<not> family_preferred options (ifa_family ifa) then []
      else rename_op i (getString (env_mnl E) as IFA_LABEL) @
        (if nlmsg_type n = RTM_NEWADDR then [Change i (Op_addNetworkAddress (message_address E as ifa))]
         else if nlmsg_type n = RTM_DELADDR then [Change i (Op_removeNetworkAddress (message_address E as ifa))]
         else []))"

definition route_meaning :: "environment \<Rightarrow> RuntimeFlags \<Rightarrow> nlmsghdr \<Rightarrow> rtmsg \<Rightarrow> change list" where
  "route_meaning E options n rtm =
     (let M = env_mnl E; as = attributes_of M n sizeof_rtmsg (RTA_MAX E) in
      if uint (rtm_family rtm) \<noteq> AF_INET \<or> \<not> family_preferred options (rtm_family rtm) then []
      else case (getU32 M as RTA_OIF, got (getIpV4Address M as RTA_GATEWAY)) of
        (None, _) \<Rightarrow> []
      | (Some i, gateway) \<Rightarrow>
          if nlmsg_type n = RTM_DELROUTE
          then (if rtm_flags rtm AND RTNH_F_LINKDOWN \<noteq> 0 then [Change i (Op_clearGatewayAddress LinkDown)]
                else if gateway \<noteq> None then [Change i (Op_clearGatewayAddress RouteDeleted)]
                else [])
          else opt_change gateway (\<lambda>i g. Change i (Op_setGatewayAddress g)) i)"

definition meaning :: "environment \<Rightarrow> RuntimeFlags \<Rightarrow> nlmsghdr \<Rightarrow> change list" where
  "meaning E options n =
     (if nlmsg_type n \<in> {RTM_NEWLINK, RTM_DELLINK} then link_meaning E options n (get_ifinfo E n)
      else if nlmsg_type n \<in> {RTM_NEWADDR, RTM_DELADDR} then address_meaning E options n (get_ifaddr E n)
      else if nlmsg_type n \<in> {RTM_NEWROUTE, RTM_DELROUTE} then route_meaning E options n (get_rtmsg E n)
      else [])"

section \<open>The callback makes these changes\<close>

lemma test_option_ok: "flag \<noteq> RFlag_FlagsCount \<Longrightarrow>
    test_option flag sy = Inr (bit (m_runtimeOptions sy) (RuntimeFlag_underlying flag))"
  by (cases flag) (simp_all add: test_option_def fs_test_in_range)

text \<open>The tracker operations in the form the message handlers pass them.\<close>

lemma tracker_op_effects:
  assumes "sys_inv sy" and "cache_of sy i \<noteq> None"
  shows "returns (with_tracker i (\<lambda>now. updateLinkFlags now f) sy) (effect E [Change i (Op_updateLinkFlags f)] sy)"
    and "returns (with_tracker i (\<lambda>now. setOperationalState now op) sy) (effect E [Change i (Op_setOperationalState op)] sy)"
    and "eth_wf a \<Longrightarrow> returns (with_tracker i (\<lambda>now. setMacAddress now a) sy) (effect E [Change i (Op_setMacAddress a)] sy)"
    and "eth_wf a \<Longrightarrow> returns (with_tracker i (\<lambda>now. setBroadcastAddress now a) sy) (effect E [Change i (Op_setBroadcastAddress a)] sy)"
    and "net_wf x \<Longrightarrow> returns (with_tracker i (\<lambda>now. addNetworkAddress now x) sy) (effect E [Change i (Op_addNetworkAddress x)] sy)"
    and "returns (with_tracker i (\<lambda>now. removeNetworkAddress now x) sy) (effect E [Change i (Op_removeNetworkAddress x)] sy)"
  by (rule with_tracker_effect [OF assms]; simp add: fun_eq_iff)+

lemma gateway_effects:
  assumes "sys_inv sy"
  shows "returns (if_tracker i (\<lambda>now. clearGatewayAddress now r) sy) (effect E [Change i (Op_clearGatewayAddress r)] sy)"
    and "ip_wf g \<Longrightarrow> returns (if_tracker i (\<lambda>now. setGatewayAddress now g) sy) (effect E [Change i (Op_setGatewayAddress g)] sy)"
  by (rule if_tracker_effect [OF assms]; simp add: fun_eq_iff)+

text \<open>An entry stays through anything but a \<open>Vanish\<close>.\<close>

fun lasting :: "change \<Rightarrow> bool" where
  "lasting (Vanish i) = False"
| "lasting _ = True"

lemma lasting_keeps: "list_all lasting chs \<Longrightarrow> c i \<noteq> None \<Longrightarrow> fold apply_change chs c i \<noteq> None"
proof (induction chs arbitrary: c)
  case (Cons ch chs)
  from Cons.prems have "apply_change ch c i \<noteq> None"
    by (cases ch) (auto split: if_splits)
  with Cons show ?case by simp
qed simp

lemma effect_dom: "effect E chs sy sy' \<Longrightarrow> list_all lasting chs \<Longrightarrow> cache_of sy i \<noteq> None \<Longrightarrow> cache_of sy' i \<noteq> None"
  unfolding effect_def using lasting_keeps by metis

lemma when_some_effect:
  assumes "sys_inv sy" and "pred_option P v"
    and "\<And>x. P x \<Longrightarrow> returns (f x sy) (effect E [mk i x] sy)"
  shows "returns (when_some v f sy) (effect E (opt_change v mk i) sy)"
  using assms by (cases v) (auto simp: opt_change_def effect_Nil)

lemma parse_attributes_effect:
  assumes "mnl_attributes (env_mnl E)" and "sys_inv sy"
  obtains sy' where "parse_attributes E n offset maxType sy = Inr (attributes_of (env_mnl E) n offset maxType, sy')"
    and "effect E [] sy sy'"
proof -
  obtain s u where "Attributes_parse (env_mnl E) n offset maxType (seenAttributes (m_stats sy))
      (unknownAttributes (m_stats sy)) = Inr (attributes_of (env_mnl E) n offset maxType, s, u)"
    using mnl_attributes.parse_attributes_of [OF assms(1)] by blast
  with that effect_stats [OF assms(2)] show ?thesis
    by (simp add: parse_attributes_def)
qed

lemma effect_count: "sys_inv sy \<Longrightarrow> effect E [] sy (count_stat cu sy)"
  by (simp add: count_stat_def effect_stats)

lemma effect_options: "effect E chs sy sy' \<Longrightarrow> m_runtimeOptions sy' = m_runtimeOptions sy"
  by (simp add: effect_def same_control_def)

lemma effect_cong:
  assumes "effect E [] sy sy'" and "returns m (effect E chs sy')"
  shows "returns m (effect E chs sy)"
  using assms(2)
proof (rule returns_mono)
  fix x assume "effect E chs sy' x"
  with effect_trans [OF assms(1)] show "effect E chs sy x" by fastforce
qed

lemma got_Inr: "m = Inr r \<Longrightarrow> got m = r"
  by simp

text \<open>Sequencing for one interface that stays in the cache.\<close>

lemma tracker_chain:
  assumes "returns m (effect E xs sy)" and "cache_of sy i \<noteq> None" and "list_all lasting xs"
    and "\<And>sy'. sys_inv sy' \<Longrightarrow> cache_of sy' i \<noteq> None \<Longrightarrow> returns (f sy') (effect E ys sy')"
  shows "returns (res_bind m f) (effect E (xs @ ys) sy)"
  using assms by (intro effect_bind) (auto dest: effect_inv effect_dom)

lemma lasting_simps [simp]:
  "list_all lasting (rename_op i name)" "(\<And>x. lasting (mk i x)) \<Longrightarrow> list_all lasting (opt_change v mk i)"
  by (simp_all add: rename_op_def opt_change_def split: option.splits)

lemma named_chain:
  assumes "sys_inv sy" and "\<And>sy'. sys_inv sy' \<Longrightarrow> cache_of sy' i \<noteq> None \<Longrightarrow> returns (f sy') (effect E ys sy')"
  shows "returns (res_bind (ensureNameCurrent E i name sy) f) (effect E (Appear i # rename_op i name @ ys) sy)"
proof -
  have "cache_of sy' i \<noteq> None" if "effect E (Appear i # rename_op i name) sy sy'" for sy'
    using that lasting_keeps [of "rename_op i name" "apply_change (Appear i) (cache_of sy)" i]
    by (auto simp: effect_def split: if_splits)
  moreover have "returns (ensureNameCurrent E i name sy) (effect E (Appear i # rename_op i name) sy)"
    using ensureNameCurrent_effect [OF assms(1)] by (rule returns_mono) simp
  ultimately show ?thesis
    using effect_bind [of _ E "Appear i # rename_op i name" sy f ys] assms(2) effect_inv by fastforce
qed

lemma link_update_effect:
  assumes "sys_inv sy" and "cache_of sy i \<noteq> None" and "pred_option eth_wf mac" and "pred_option eth_wf brd"
  shows "returns
    (res_bind (with_tracker i (\<lambda>now. updateLinkFlags now f) sy) (\<lambda>sy.
     res_bind (when_some op (\<lambda>op. with_tracker i (\<lambda>now. setOperationalState now (OperState op))) sy) (\<lambda>sy.
     res_bind (when_some mac (\<lambda>a. with_tracker i (\<lambda>now. setMacAddress now a)) sy) (\<lambda>sy.
     when_some brd (\<lambda>a. with_tracker i (\<lambda>now. setBroadcastAddress now a)) sy))))
    (effect E ([Change i (Op_updateLinkFlags f)] @
      opt_change op (\<lambda>i op. Change i (Op_setOperationalState (OperState op))) i @
      opt_change mac (\<lambda>i a. Change i (Op_setMacAddress a)) i @
      opt_change brd (\<lambda>i a. Change i (Op_setBroadcastAddress a)) i) sy)"
  using assms
  by (intro tracker_chain [where i = i] tracker_op_effects when_some_effect [where P = eth_wf]
      when_some_effect [where P = "\<lambda>_. True"]) (auto simp: option.pred_True)

lemma parseLinkMessage_effect:
  assumes "mnl_attributes (env_mnl E)" and "sys_inv sy"
  shows "returns (parseLinkMessage E n ifi sy) (effect E (link_meaning E (m_runtimeOptions sy) n ifi) sy)"
proof -
  let ?M = "env_mnl E"
  let ?as = "attributes_of ?M n sizeof_ifinfomsg (IFLA_MAX E)"
  let ?i = "ifi_index ifi"
  have count: "effect E [] sy (count_stat linkMessagesSeen_update sy)"
    using assms(2) by (rule effect_count)
  obtain sy1 where sy1: "parse_attributes E n sizeof_ifinfomsg (IFLA_MAX E) (count_stat linkMessagesSeen_update sy) = Inr (?as, sy1)"
    and "effect E [] (count_stat linkMessagesSeen_update sy) sy1"
    using parse_attributes_effect [OF assms(1) effect_inv [OF count]] .
  with effect_trans [OF count] have e1: "effect E [] sy sy1" by fastforce
  have opts: "m_runtimeOptions sy1 = m_runtimeOptions sy"
    using e1 by (rule effect_options)
  have inv1: "sys_inv sy1" using e1 by (rule effect_inv)
  obtain mac brd where getters: "getEthernetAddress ?M ?as IFLA_ADDRESS = Inr mac" "pred_option eth_wf mac"
    "getEthernetAddress ?M ?as IFLA_BROADCAST = Inr brd" "pred_option eth_wf brd"
    using mnl_attributes.getEthernetAddress_ok [OF assms(1)] by metis
  let ?name = "getString ?M ?as IFLA_IFNAME"
  show ?thesis
  proof (rule effect_cong [OF e1])
    consider (other) "ifi_type ifi \<notin> {ARPHRD_ETHER, ARPHRD_IEEE80211}"
        "\<not> bit (m_runtimeOptions sy) (RuntimeFlag_underlying RFlag_IncludeNonIeee802)"
      | (gone) "ifi_type ifi \<in> {ARPHRD_ETHER, ARPHRD_IEEE80211} \<or>
          bit (m_runtimeOptions sy) (RuntimeFlag_underlying RFlag_IncludeNonIeee802)" "nlmsg_type n = RTM_DELLINK"
      | (update) "ifi_type ifi \<in> {ARPHRD_ETHER, ARPHRD_IEEE80211} \<or>
          bit (m_runtimeOptions sy) (RuntimeFlag_underlying RFlag_IncludeNonIeee802)" "nlmsg_type n \<noteq> RTM_DELLINK"
      by blast
    then show "returns (parseLinkMessage E n ifi sy) (effect E (link_meaning E (m_runtimeOptions sy) n ifi) sy1)"
    proof cases
      case other
      then show ?thesis
        by (simp add: parseLinkMessage_def sy1 test_option_ok opts link_meaning_def discard_def effect_count inv1)
    next
      case gone
      then show ?thesis
        using removed_effect [OF inv1, of E ?i]
        by (auto simp: parseLinkMessage_def sy1 test_option_ok opts link_meaning_def Let_def intro: returns_mono)
    next
      case update
      let ?rest = "\<lambda>sy. res_bind (with_tracker ?i (\<lambda>now. updateLinkFlags now (fs_from_u32 (ifi_flags ifi))) sy) (\<lambda>sy.
        res_bind (when_some (getU8 ?M ?as IFLA_OPERSTATE) (\<lambda>op. with_tracker ?i (\<lambda>now. setOperationalState now (OperState op))) sy) (\<lambda>sy.
        res_bind (when_some mac (\<lambda>a. with_tracker ?i (\<lambda>now. setMacAddress now a)) sy) (\<lambda>sy.
        when_some brd (\<lambda>a. with_tracker ?i (\<lambda>now. setBroadcastAddress now a)) sy)))"
      have "parseLinkMessage E n ifi sy = res_bind (ensureNameCurrent E ?i ?name sy1) ?rest"
        using update by (auto simp: parseLinkMessage_def sy1 test_option_ok opts Let_def getters)
      moreover have "returns (res_bind (ensureNameCurrent E ?i ?name sy1) ?rest)
          (effect E (Appear ?i # rename_op ?i ?name @ [Change ?i (Op_updateLinkFlags (fs_from_u32 (ifi_flags ifi)))] @
            opt_change (getU8 ?M ?as IFLA_OPERSTATE) (\<lambda>i op. Change i (Op_setOperationalState (OperState op))) ?i @
            opt_change mac (\<lambda>i a. Change i (Op_setMacAddress a)) ?i @
            opt_change brd (\<lambda>i a. Change i (Op_setBroadcastAddress a)) ?i) sy1)"
        by (rule named_chain [OF inv1], rule link_update_effect) (use getters in simp_all)
      moreover have "link_meaning E (m_runtimeOptions sy) n ifi =
          Appear ?i # rename_op ?i ?name @ [Change ?i (Op_updateLinkFlags (fs_from_u32 (ifi_flags ifi)))] @
            opt_change (getU8 ?M ?as IFLA_OPERSTATE) (\<lambda>i op. Change i (Op_setOperationalState (OperState op))) ?i @
            opt_change mac (\<lambda>i a. Change i (Op_setMacAddress a)) ?i @
            opt_change brd (\<lambda>i a. Change i (Op_setBroadcastAddress a)) ?i"
        using update by (simp add: link_meaning_def Let_def getters)
      ultimately show ?thesis by simp
    qed
  qed
qed

text \<open>Changes to an interface without an entry change nothing.\<close>

fun concerns :: "u32 \<Rightarrow> change \<Rightarrow> bool" where
  "concerns i (Change j op) = (j = i)"
| "concerns i _ = False"

lemma changes_to_nobody: "list_all (concerns i) chs \<Longrightarrow> c i = None \<Longrightarrow> fold apply_change chs c = c"
proof (induction chs)
  case (Cons ch chs)
  then have "apply_change ch c = c"
    by (cases ch) (auto simp: fun_eq_iff)
  with Cons show ?case by simp
qed simp

lemma address_meaning_concerns: "list_all (concerns (ifa_index ifa)) (address_meaning E options n ifa)"
  by (simp add: address_meaning_def Let_def rename_op_def split: option.splits)

lemma no_effect:
  assumes "sys_inv sy" and "fold apply_change chs (cache_of sy) = cache_of sy"
  shows "effect E chs sy sy"
  using assms by (simp add: effect_def same_control_refl)

lemma effect_same:
  "effect E [] sy sy' \<Longrightarrow> fold apply_change chs (cache_of sy) = cache_of sy \<Longrightarrow> effect E chs sy sy'"
  by (simp add: effect_def)

lemma effect_Appear: "cache_of sy i \<noteq> None \<Longrightarrow> effect E (Appear i # chs) sy = effect E chs sy"
  by (auto simp: effect_def fun_eq_iff)

lemma parseAddressMessage_effect:
  assumes "mnl_attributes (env_mnl E)" and "sys_inv sy"
  shows "returns (parseAddressMessage E n ifa sy) (effect E (address_meaning E (m_runtimeOptions sy) n ifa) sy)"
proof -
  let ?M = "env_mnl E" and ?i = "ifa_index ifa" and ?sy = "count_stat addressMessagesSeen_update sy"
  let ?as = "attributes_of ?M n sizeof_ifaddrmsg (IFA_MAX E)"
  have count: "effect E [] sy ?sy"
    using assms(2) by (rule effect_count)
  have inv: "sys_inv ?sy" using count by (rule effect_inv)
  have opts: "m_runtimeOptions ?sy = m_runtimeOptions sy"
    using count by (rule effect_options)
  have dom: "map_contains ?i (m_trackers ?sy) \<longleftrightarrow> cache_of sy ?i \<noteq> None"
    using count cache_dom [of ?sy ?i] by (auto simp: effect_def)
  have disc: "effect E [] sy (discard ?sy)"
    using effect_trans [OF count effect_count [OF inv]] by (simp add: discard_def)
  consider (unknown) "cache_of sy ?i = None"
    | (family) "cache_of sy ?i \<noteq> None" "\<not> family_preferred (m_runtimeOptions sy) (ifa_family ifa)"
    | (known) "cache_of sy ?i \<noteq> None" "family_preferred (m_runtimeOptions sy) (ifa_family ifa)"
    by blast
  then show ?thesis
  proof cases
    case unknown
    then have "fold apply_change (address_meaning E (m_runtimeOptions sy) n ifa) (cache_of sy) = cache_of sy"
      using address_meaning_concerns changes_to_nobody by blast
    with unknown disc dom show ?thesis
      by (simp add: parseAddressMessage_def effect_same)
  next
    case family
    with dom disc show ?thesis
      by (auto simp: parseAddressMessage_def test_option_ok opts family_preferred_def address_meaning_def Let_def)
  next
    case known
    obtain sy1 where sy1: "parse_attributes E n sizeof_ifaddrmsg (IFA_MAX E) ?sy = Inr (?as, sy1)"
      and "effect E [] ?sy sy1"
      using parse_attributes_effect [OF assms(1) inv] .
    with effect_trans [OF count] have e1: "effect E [] sy sy1" by fastforce
    have inv1: "sys_inv sy1" using e1 by (rule effect_inv)
    have dom1: "cache_of sy1 ?i \<noteq> None" using e1 known by (simp add: effect_def)
    obtain brd lcl v6 where getters: "getIpV4Address ?M ?as IFA_BROADCAST = Inr brd" "pred_option ip_wf brd"
      "getIpV4Address ?M ?as IFA_LOCAL = Inr lcl" "pred_option ip_wf lcl"
      "getIpV6Address ?M ?as IFA_ADDRESS = Inr v6" "pred_option ip_wf v6"
      using mnl_attributes.getIpV4Address_ok [OF assms(1)] mnl_attributes.getIpV6Address_ok [OF assms(1)]
      by metis
    let ?a = "message_address E ?as ifa"
    have a: "?a =
        \<lparr>m_ip = (case v6 of None \<Rightarrow> (case lcl of None \<Rightarrow> ip_default | Some a \<Rightarrow> a) | Some a \<Rightarrow> a),
         m_brd = brd, m_prefixlen = ifa_prefixlen ifa, m_scope = fromRtnlScope (ifa_scope ifa),
         m_flags = fs_from_u32 (case getU32 ?M ?as IFA_FLAGS of None \<Rightarrow> ucast (ifa_flags ifa) | Some f \<Rightarrow> f),
         m_prot = Protocol (case getU8 ?M ?as IFA_PROTO of None \<Rightarrow> IFAPROT_UNSPEC | Some p \<Rightarrow> p)\<rparr>"
      by (simp add: message_address_def Let_def getters cong: option.case_cong)
    have wf: "net_wf ?a"
      using getters by (auto simp: message_address_def net_wf_def ip_wf_default Let_def split: option.splits)
    let ?rest = "\<lambda>sy. if nlmsg_type n = RTM_NEWADDR then with_tracker ?i (\<lambda>now. addNetworkAddress now ?a) sy
      else if nlmsg_type n = RTM_DELADDR then with_tracker ?i (\<lambda>now. removeNetworkAddress now ?a) sy
      else Inr sy"
    have "(bit (m_runtimeOptions sy) (RuntimeFlag_underlying RFlag_PreferredFamilyV4) \<and> uint (ifa_family ifa) \<noteq> AF_INET) = False"
      "(bit (m_runtimeOptions sy) (RuntimeFlag_underlying RFlag_PreferredFamilyV6) \<and> uint (ifa_family ifa) \<noteq> AF_INET6) = False"
      using known(2) by (simp_all add: family_preferred_def)
    then have "parseAddressMessage E n ifa sy = res_bind (ensureNameCurrent E ?i (getString ?M ?as IFA_LABEL) sy1) ?rest"
      using known(1) dom unfolding a
      by (simp add: parseAddressMessage_def test_option_ok opts sy1 getters Let_def
          del: RuntimeFlag_underlying.simps de_Morgan_conj)
    moreover have "returns (res_bind (ensureNameCurrent E ?i (getString ?M ?as IFA_LABEL) sy1) ?rest)
      (effect E (Appear ?i # rename_op ?i (getString ?M ?as IFA_LABEL) @
        (if nlmsg_type n = RTM_NEWADDR then [Change ?i (Op_addNetworkAddress ?a)]
         else if nlmsg_type n = RTM_DELADDR then [Change ?i (Op_removeNetworkAddress ?a)] else [])) sy1)"
      by (rule named_chain [OF inv1]) (use wf in \<open>auto intro: tracker_op_effects effect_Nil\<close>)
    ultimately have "returns (parseAddressMessage E n ifa sy) (effect E (address_meaning E (m_runtimeOptions sy) n ifa) sy1)"
      using known dom1 by (simp add: effect_Appear address_meaning_def Let_def)
    then show ?thesis by (rule effect_cong [OF e1])
  qed
qed

lemma parseRouteMessage_effect:
  assumes "mnl_attributes (env_mnl E)" and "sys_inv sy"
  shows "returns (parseRouteMessage E n rtm sy) (effect E (route_meaning E (m_runtimeOptions sy) n rtm) sy)"
proof -
  let ?M = "env_mnl E" and ?sy = "count_stat routeMessagesSeen_update sy"
  let ?as = "attributes_of ?M n sizeof_rtmsg (RTA_MAX E)"
  have count: "effect E [] sy ?sy"
    using assms(2) by (rule effect_count)
  have inv: "sys_inv ?sy" using count by (rule effect_inv)
  have opts: "m_runtimeOptions ?sy = m_runtimeOptions sy"
    using count by (rule effect_options)
  have disc: "effect E [] sy (discard ?sy)"
    using effect_trans [OF count effect_count [OF inv]] by (simp add: discard_def)
  show ?thesis
  proof (cases "uint (rtm_family rtm) = AF_INET \<and> family_preferred (m_runtimeOptions sy) (rtm_family rtm)")
    case False
    with disc show ?thesis
      by (auto simp: parseRouteMessage_def test_option_ok opts family_preferred_def route_meaning_def Let_def)
  next
    case True
    obtain sy1 where sy1: "parse_attributes E n sizeof_rtmsg (RTA_MAX E) ?sy = Inr (?as, sy1)"
      and "effect E [] ?sy sy1"
      using parse_attributes_effect [OF assms(1) inv] .
    with effect_trans [OF count] have e1: "effect E [] sy sy1" by fastforce
    have inv1: "sys_inv sy1" using e1 by (rule effect_inv)
    obtain gw where gw: "getIpV4Address ?M ?as RTA_GATEWAY = Inr gw" "pred_option ip_wf gw"
      using mnl_attributes.getIpV4Address_ok [OF assms(1)] by metis
    have "\<not> bit (m_runtimeOptions sy) (RuntimeFlag_underlying RFlag_PreferredFamilyV6)"
      using True by (auto simp: family_preferred_def AF_INET_def AF_INET6_def)
    then have "returns (parseRouteMessage E n rtm sy) (effect E (route_meaning E (m_runtimeOptions sy) n rtm) sy1)"
      using True gw gateway_effects [OF inv1] effect_Nil [OF inv1]
      by (cases gw) (simp_all add: parseRouteMessage_def test_option_ok opts family_preferred_def sy1
          route_meaning_def Let_def opt_change_def split: option.splits)
    then show ?thesis by (rule effect_cong [OF e1])
  qed
qed

text \<open>The callback on an open socket.\<close>

lemma callback_effect:
  assumes "mnl_attributes (env_mnl E)" and "sys_inv sy" and "m_socket_open sy"
  shows "returns (mnlMessageCallback E n sy)
    (\<lambda>(ret, sy'). ret = MNL_CB_OK \<and> effect E (meaning E (m_runtimeOptions sy) n) sy sy')"
proof -
  let ?sy = "count_stat msgsReceived_update sy"
  have count: "effect E [] sy ?sy"
    using assms(2) by (rule effect_count)
  have opts: "m_runtimeOptions ?sy = m_runtimeOptions sy"
    using count by (rule effect_options)
  note parse = parseLinkMessage_effect parseAddressMessage_effect parseRouteMessage_effect
  have "returns (if nlmsg_type n = RTM_NEWLINK \<or> nlmsg_type n = RTM_DELLINK then parseLinkMessage E n (get_ifinfo E n) ?sy
      else if nlmsg_type n = RTM_NEWADDR \<or> nlmsg_type n = RTM_DELADDR then parseAddressMessage E n (get_ifaddr E n) ?sy
      else if nlmsg_type n = RTM_NEWROUTE \<or> nlmsg_type n = RTM_DELROUTE then parseRouteMessage E n (get_rtmsg E n) ?sy
      else Inr ?sy) (effect E (meaning E (m_runtimeOptions sy) n) ?sy)"
    using parse [OF assms(1) effect_inv [OF count], of n, unfolded opts] effect_Nil [OF effect_inv [OF count]]
    by (simp add: meaning_def)
  from effect_cong [OF count this] show ?thesis
    using assms(3) by (auto simp: mnlMessageCallback_def Let_def elim!: returnsE)
qed

end
