(* ===== verification/Subscriptions.thy ===== *)
theory Subscriptions
  imports Message_Meaning
begin

text \<open>
  Subscriptions keep the invariant: a new subscriber is briefed on every aspect of the interfaces it
  subscribes to that have a tracker, so that it starts with the right beliefs.
\<close>

section \<open>Briefing a subscriber\<close>

definition briefing :: "nat \<Rightarrow> interfaces \<Rightarrow> (u32, tracker) std_map \<Rightarrow> event list" where
  "briefing k intfs ts =
     concat (map (\<lambda>(i, t). if i \<in> if_index ` set intfs
       then map (Notified k) (news True \<lparr>if_index = i, if_name = m_name t\<rparr> t) else []) ts)"

lemma notify_all_ok: "returns (notify_all E (Some k) intfs ts sy) (quiet E (briefing k intfs ts) sy)"
proof (induction ts arbitrary: sy)
  case Nil
  then show ?case by (simp add: briefing_def quiet_Nil)
next
  case (Cons x ts)
  obtain i t where x: "x = (i, t)" by (cases x)
  let ?intf = "\<lparr>if_index = i, if_name = m_name t\<rparr>"
  let ?evs = "if i \<in> if_index ` set intfs then map (Notified k) (news True ?intf t) else []"
  have "returns (if interfaces_contains ?intf intfs
      then res_bind (notifyChanges_tracker E (Some k) ?intf True (t, sy)) (\<lambda>(_, sy). Inr sy)
      else Inr sy) (quiet E ?evs sy)"
    using notifyChanges_tracker_ok [OF checked_refl, of E k ?intf True t sy]
    by (auto simp: interfaces_contains_iff quiet_Nil elim!: returnsE)
  then obtain sy' where 1: "(if interfaces_contains ?intf intfs
      then res_bind (notifyChanges_tracker E (Some k) ?intf True (t, sy)) (\<lambda>(_, sy). Inr sy)
      else Inr sy) = Inr sy'" "quiet E ?evs sy sy'"
    unfolding returns_def by blast
  have "notify_all E (Some k) intfs (x # ts) sy = notify_all E (Some k) intfs ts sy'"
    using 1(1) x by (simp add: Let_def)
  with Cons.IH [of sy'] show ?case
    using quiet_trans [OF 1(2)] x by (auto simp: briefing_def returns_def)
qed

lemma briefing_heard:
  assumes "distinct (map fst ts)"
  shows "heard_of j i (briefing k intfs ts) =
    (if j = k \<and> i \<in> if_index ` set intfs
     then (case map_of ts i of Some t \<Rightarrow> news True \<lparr>if_index = i, if_name = m_name t\<rparr> t | None \<Rightarrow> [])
     else [])"
  using assms
proof (induction ts)
  case (Cons x ts)
  obtain l t where x: "x = (l, t)" by (cases x)
  let ?intf = "\<lparr>if_index = l, if_name = m_name t\<rparr>"
  have "filter (\<lambda>n. if_index (about n) = i) (news True ?intf t) = (if l = i then news True ?intf t else [])"
    by (auto simp: news_about filter_empty_conv intro: filter_True)
  then have "heard_of j i (map (Notified k) (news True ?intf t)) =
      (if j = k \<and> l = i then news True ?intf t else [])"
    by (auto simp: heard_of_def)
  moreover have "map_of ts l = None"
    using Cons.prems x by (auto simp: map_of_eq_None_iff)
  moreover have "heard_of j i [] = []"
    by (simp add: heard_of_def)
  ultimately show ?case
    using Cons x by (auto simp: briefing_def heard_of_append)
qed (simp add: briefing_def heard_of_def)

section \<open>The map of subscribers\<close>

lemma map_of_subs_put: "map_of (subs_put s i subs) = (map_of subs)(s \<mapsto> i)"
  by (induction s i subs rule: subs_put.induct) auto

lemma keys_subs_put: "fst ` set (subs_put s i subs) = insert s (fst ` set subs)"
  by (induction s i subs rule: subs_put.induct) auto

lemma subs_wf_put: "subs_wf subs \<Longrightarrow> s \<noteq> None \<Longrightarrow> subs_wf (subs_put s i subs)"
proof (induction s i subs rule: subs_put.induct)
  case (2 s i s' i' subs)
  then show ?case
    using keys_subs_put [of s i subs] by (auto simp: subs_wf_Cons)
qed (auto simp: subs_wf_def)

lemma keys_subs_erase: "k \<notin> fst ` set subs \<Longrightarrow> k \<notin> fst ` set (subs_erase s subs)"
  by (induction s subs rule: subs_erase.induct) auto

lemma subs_erase_spec:
  "subs_wf subs \<Longrightarrow> subs_wf (subs_erase s subs) \<and> map_of (subs_erase s subs) = (map_of subs)(s := None)"
proof (induction s subs rule: subs_erase.induct)
  case (2 s s' i' subs)
  then show ?case
    using keys_subs_erase [of s' subs s] by (auto simp: subs_wf_Cons fun_eq_iff map_of_eq_None_iff)
qed (simp add: subs_wf_def)

lemma subscribed_put:
  "subscribed k i (subs_put (Some j) intfs subs) \<longleftrightarrow>
     (if k = j then i \<in> if_index ` set intfs else subscribed k i subs)"
  by (simp add: subscribed_def map_of_subs_put)

lemma subscribed_erase: "subs_wf subs \<Longrightarrow> subscribed k i (subs_erase s subs) \<Longrightarrow> subscribed k i subs"
  using subs_erase_spec [of subs s] by (auto simp: subscribed_def split: if_splits)

section \<open>The subscription functions\<close>

text \<open>Replacing a subscriber's interfaces and briefing it.\<close>

definition briefed :: "environment \<Rightarrow> nat \<Rightarrow> interfaces \<Rightarrow> system \<Rightarrow> system \<Rightarrow> bool" where
  "briefed E k intfs sy sy' \<longleftrightarrow>
     quiet E (briefing k intfs (m_trackers sy)) (sy\<lparr>m_subscribers := subs_put (Some k) intfs (m_subscribers sy)\<rparr>) sy'"

lemma briefed_inv:
  assumes "sys_inv sy" and "briefed E k intfs sy sy'"
  shows "sys_inv sy'"
proof -
  let ?evs = "briefing k intfs (m_trackers sy)"
  note q = assms(2) [unfolded briefed_def]
  note f = quiet_fields [OF q]
  have dist: "distinct (map fst (m_trackers sy))"
    using assms(1) by (simp add: sys_inv_def trackers_inv_def map_wf_def ordered_by_distinct)
  have "informed j i t (events sy')"
    if t: "map_find i (m_trackers sy') = Some t" and sub: "subscribed j i (m_subscribers sy')" for j i t
  proof (cases "j = k")
    case True
    then have "heard_of j i ?evs = news True \<lparr>if_index = i, if_name = m_name t\<rparr> t"
      using sub t f by (simp add: briefing_heard [OF dist] subscribed_put map_find_map_of)
    then show ?thesis
      using f learn_news [of "\<lparr>if_index = i, if_name = m_name t\<rparr>" t True]
      by (simp add: informed_def believes_append)
  next
    case False
    then have "heard_of j i ?evs = []" and "subscribed j i (m_subscribers sy)"
      using sub f by (simp_all add: briefing_heard [OF dist] subscribed_put)
    then show ?thesis
      using t f assms(1) by (simp add: informed_quiet sys_inv_def coherent_def)
  qed
  then have "coherent sy'"
    by (simp add: coherent_def)
  then show ?thesis
    using assms(1) f by (simp add: sys_inv_def subs_wf_put)
qed

lemma subscribe_ok:
  "interfaces \<noteq> [] \<Longrightarrow> returns (subscribe E interfaces (Some k) sy) (briefed E k interfaces sy)"
  using notify_all_ok [of E k interfaces "m_trackers sy"]
  by (auto simp: subscribe_def notifyChanges_subscriber_def briefed_def [abs_def])

lemma subscribe_inv:
  assumes "sys_inv sy"
  shows "returns (subscribe E interfaces (Some k) sy) sys_inv"
proof (cases "interfaces = []")
  case True
  then show ?thesis using assms by (simp add: subscribe_def)
next
  case False
  from subscribe_ok [OF this] show ?thesis
    by (rule returns_mono) (rule briefed_inv [OF assms])
qed

lemma unsubscribe_inv: "sys_inv sy \<Longrightarrow> sys_inv (unsubscribe sub sy)"
  using subs_erase_spec [of "m_subscribers sy" sub]
  by (auto simp: unsubscribe_def sys_inv_def coherent_def dest: subscribed_erase)

lemma updateSubscription_inv:
  assumes "sys_inv sy"
  shows "returns (updateSubscription E interfaces sub sy) sys_inv"
proof (cases "sub = None \<or> interfaces = [] \<or> map_of (m_subscribers sy) sub = None")
  case True
  then show ?thesis
    using assms unsubscribe_inv [OF assms] by (auto simp: updateSubscription_def)
next
  case False
  then obtain k where k: "sub = Some k" by auto
  with False have "returns (updateSubscription E interfaces sub sy) (briefed E k interfaces sy)"
    using subscribe_ok [of interfaces E k sy] by (auto simp: updateSubscription_def subscribe_def)
  then show ?thesis
    by (rule returns_mono) (rule briefed_inv [OF assms])
qed

lemma stop_inv: "sys_inv sy \<Longrightarrow> sys_inv (stop sy)"
  by (simp add: stop_def sys_inv_def coherent_def)

end
