(* ===== verification/Monitor_Protocol.thy ===== *)
theory Monitor_Protocol
  imports Subscriptions
begin

unbundle bit_operations_syntax

text \<open>
  The receive loop and the enumeration protocol: what one datagram does, that the loops keep the
  invariant, terminate, and leave nothing but states reachable by the small steps of the monitor,
  and the sequence of dump requests.
\<close>

section \<open>One run over the messages of a datagram\<close>

definition messages_meaning :: "environment \<Rightarrow> RuntimeFlags \<Rightarrow> nlmsghdr list \<Rightarrow> change list" where
  "messages_meaning E options msgs = concat (map (meaning E options) msgs)"

lemma cb_messages_effect:
  assumes "mnl_attributes (env_mnl E)" and "sys_inv sy"
  shows "returns (cb_messages (mnlMessageCallback E) msgs sy) (\<lambda>(ret, sy').
    sys_inv sy' \<and> same_control E sy sy' \<and>
    (if ret = MNL_CB_OK then effect E (messages_meaning E (m_runtimeOptions sy) msgs) sy sy'
     else ret = MNL_CB_STOP \<and> \<not> m_socket_open sy'))"
  using assms(2)
proof (induction msgs arbitrary: sy)
  case Nil
  then show ?case
    by (simp add: messages_meaning_def effect_Nil same_control_refl)
next
  case (Cons n msgs)
  show ?case
  proof (cases "m_socket_open sy")
    case False
    then show ?thesis
      using Cons.prems
      by (simp add: mnlMessageCallback_def same_control_refl MNL_CB_OK_def MNL_CB_STOP_def)
  next
    case True
    obtain u where u: "mnlMessageCallback E n sy = Inr (MNL_CB_OK, u)"
      "effect E (meaning E (m_runtimeOptions sy) n) sy u"
      using callback_effect [OF assms(1) Cons.prems True, of n] by (auto simp: returns_def)
    have ctl: "same_control E sy u" and opts: "m_runtimeOptions u = m_runtimeOptions sy"
      using u(2) effect_options by (auto simp: effect_def)
    obtain ret sy' where r: "cb_messages (mnlMessageCallback E) msgs u = Inr (ret, sy')"
      "sys_inv sy'" "same_control E u sy'"
      "if ret = MNL_CB_OK then effect E (messages_meaning E (m_runtimeOptions u) msgs) u sy'
       else ret = MNL_CB_STOP \<and> \<not> m_socket_open sy'"
      using Cons.IH [OF effect_inv [OF u(2)]] by (auto simp: returns_def)
    have "cb_messages (mnlMessageCallback E) (n # msgs) sy = Inr (ret, sy')"
      using u(1) r(1) by (simp add: MNL_CB_OK_def MNL_CB_STOP_def)
    moreover have "effect E (messages_meaning E (m_runtimeOptions sy) (n # msgs)) sy sy'" if "ret = MNL_CB_OK"
      using that r(4) effect_trans [OF u(2)] by (simp add: messages_meaning_def opts)
    ultimately show ?thesis
      using r same_control_trans [OF ctl r(3)] by (auto split: if_splits)
  qed
qed

text \<open>The result of \<open>mnl_cb_run\<close>: a stop without a stopping verdict means that the socket is closed.\<close>

lemma cb_run_effect:
  assumes "mnl_attributes (env_mnl E)" and "sys_inv sy" and "cb_plan E buf seq portid = (msgs, verdict)"
  obtains (all) sy' where
      "mnl_cb_run E buf seq portid (mnlMessageCallback E) sy = Inr (verdict_result verdict, sy')"
      "effect E (messages_meaning E (m_runtimeOptions sy) msgs) sy sy'"
    | (stopped) sy' where
      "mnl_cb_run E buf seq portid (mnlMessageCallback E) sy = Inr ((MNL_CB_STOP, 0), sy')"
      "sys_inv sy'" "same_control E sy sy'" "\<not> m_socket_open sy'"
proof -
  obtain ret sy' where r: "cb_messages (mnlMessageCallback E) msgs sy = Inr (ret, sy')"
    "sys_inv sy'" "same_control E sy sy'"
    "if ret = MNL_CB_OK then effect E (messages_meaning E (m_runtimeOptions sy) msgs) sy sy'
     else ret = MNL_CB_STOP \<and> \<not> m_socket_open sy'"
    using cb_messages_effect [OF assms(1,2), of msgs] by (auto simp: returns_def)
  then show thesis
    using all stopped assms(3)
    by (cases "ret = MNL_CB_OK") (auto simp: mnl_cb_run_def MNL_CB_OK_def MNL_CB_STOP_def)
qed

lemma stays_open:
  "same_control E sy sy' \<Longrightarrow> m_subscribers sy = [] \<or> never_stops E \<Longrightarrow> m_socket_open sy' = m_socket_open sy"
  by (auto simp: same_control_def)

section \<open>Requests\<close>

lemma nextDumpRequestSequenceNumber_sys:
  "nextDumpRequestSequenceNumber sy = (seq, sy') \<Longrightarrow> sy' = sy\<lparr>m_sequenceNumber := seq\<rparr> \<and> seq \<noteq> 0"
  by (auto simp: nextDumpRequestSequenceNumber_def Let_def split: if_splits)

lemma believes_Sent [simp]: "believes k (evs @ [Sent rq]) = believes k evs"
  by (simp add: believes_def)

lemma informed_Sent [simp]: "informed k i t (evs @ [Sent rq]) = informed k i t evs"
  by (simp add: informed_def)

lemma send_inv: "send E rq sy = Inr sy' \<Longrightarrow> sys_inv sy \<Longrightarrow> sys_inv sy'"
  by (auto simp: send_def Let_def count_stat_def sys_inv_def coherent_def split: if_splits)

lemma sys_inv_control [simp]:
  "sys_inv (sy\<lparr>m_sequenceNumber := s\<rparr>) = sys_inv sy" "sys_inv (sy\<lparr>m_sendBuffer := b\<rparr>) = sys_inv sy"
  "sys_inv (sy\<lparr>m_cacheState := c\<rparr>) = sys_inv sy" "sys_inv (sy\<lparr>inbox := rs\<rparr>) = sys_inv sy"
  "sys_inv (sy\<lparr>clock := now\<rparr>) = sys_inv sy" "sys_inv (sy\<lparr>m_running := r\<rparr>) = sys_inv sy"
  "sys_inv (sy\<lparr>m_stats := st\<rparr>) = sys_inv sy" "sys_inv (sy\<lparr>m_socket_open := b'\<rparr>) = sys_inv sy"
  by (simp_all add: sys_inv_def coherent_def)

lemma sendDumpRequest_inv: "sys_inv sy \<Longrightarrow> sendDumpRequest E t sy = Inr sy' \<Longrightarrow> sys_inv sy'"
  by (auto simp: sendDumpRequest_def Let_def dest!: nextDumpRequestSequenceNumber_sys
      send_inv split: prod.splits)

section \<open>Reachable states\<close>

text \<open>
  The small steps of a monitor and its client: construction, the calls of the public interface that
  do not loop, and the steps the loops are made of (a request, a reception, a datagram). The kernel
  may deliver at any time. No client passes a null subscriber.
\<close>

inductive reachable :: "environment \<Rightarrow> system \<Rightarrow> bool" for E :: environment where
  new: "monitor_new os rs now options = Inr sy \<Longrightarrow> reachable E sy"
| subscribe: "reachable E sy \<Longrightarrow> subscribe E intfs (Some k) sy = Inr sy' \<Longrightarrow> reachable E sy'"
| update: "reachable E sy \<Longrightarrow> updateSubscription E intfs sub sy = Inr sy' \<Longrightarrow> reachable E sy'"
| unsubscribe: "reachable E sy \<Longrightarrow> reachable E (unsubscribe sub sy)"
| stop: "reachable E sy \<Longrightarrow> reachable E (stop sy)"
| deliver: "reachable E sy \<Longrightarrow> reachable E (sy\<lparr>inbox := rs\<rparr>)"
| start: "reachable E sy \<Longrightarrow> reachable E (sy\<lparr>m_running := True\<rparr>)"
| request: "reachable E sy \<Longrightarrow> sendDumpRequest E t sy = Inr sy' \<Longrightarrow> reachable E sy'"
| receive: "reachable E sy \<Longrightarrow> recvfrom sy = Returned (received, sy') \<Longrightarrow> reachable E sy'"
| datagram: "reachable E sy \<Longrightarrow> process_datagram E buf sy = Returned (done, sy') \<Longrightarrow> reachable E sy'"

text \<open>A property of the state an outcome leaves, when there is one.\<close>

fun leaves :: "('a \<Rightarrow> bool) \<Rightarrow> (system \<Rightarrow> bool) \<Rightarrow> 'a outcome \<Rightarrow> bool" where
  "leaves P Q (Returned x) = P x"
| "leaves P Q (Blocked sy) = Q sy"
| "leaves P Q _ = True"

lemma leaves_bind: "leaves P Q m \<Longrightarrow> (\<And>x. P x \<Longrightarrow> leaves R Q (f x)) \<Longrightarrow> leaves R Q (out_bind m f)"
  by (cases m) auto

lemma leaves_lift: "(\<And>x. m = Inr x \<Longrightarrow> P x) \<Longrightarrow> leaves P Q (lift m)"
  by (cases m) auto

lemma leaves_mono: "leaves P Q m \<Longrightarrow> (\<And>x. P x \<Longrightarrow> P' x) \<Longrightarrow> (\<And>x. Q x \<Longrightarrow> Q' x) \<Longrightarrow> leaves P' Q' m"
  by (cases m) auto

text \<open>
  What every part of the loop body does: the invariant and the options stay, the inbox only shrinks,
  and the socket and the run flag stay unless a subscriber calls \<open>stop\<close>.
\<close>

definition flows :: "environment \<Rightarrow> system \<Rightarrow> system \<Rightarrow> bool" where
  "flows E sy sy' \<longleftrightarrow>
     sys_inv sy' \<and> length (inbox sy') \<le> length (inbox sy) \<and> m_runtimeOptions sy' = m_runtimeOptions sy \<and>
     (m_socket_open sy' \<longrightarrow> m_socket_open sy) \<and> (m_running sy' \<longrightarrow> m_running sy) \<and>
     (never_stops E \<longrightarrow> m_socket_open sy' = m_socket_open sy \<and> m_running sy' = m_running sy)"

lemma flows_refl: "sys_inv sy \<Longrightarrow> flows E sy sy"
  by (simp add: flows_def)

lemma flows_trans: "flows E a b \<Longrightarrow> flows E b c \<Longrightarrow> flows E a c"
  unfolding flows_def by auto

lemma flows_inv: "flows E sy sy' \<Longrightarrow> sys_inv sy'"
  by (simp add: flows_def)

lemma control_flows: "sys_inv sy' \<Longrightarrow> same_control E sy sy' \<Longrightarrow> flows E sy sy'"
  unfolding flows_def same_control_def by auto

lemma send_flows: "sys_inv sy \<Longrightarrow> send E rq sy = Inr sy' \<Longrightarrow> flows E sy sy'"
  using send_inv [of E rq sy sy'] by (auto simp: flows_def send_def Let_def count_stat_def split: if_splits)

lemma sendDumpRequest_flows: "sys_inv sy \<Longrightarrow> sendDumpRequest E t sy = Inr sy' \<Longrightarrow> flows E sy sy'"
  by (auto simp: sendDumpRequest_def Let_def flows_def dest!: nextDumpRequestSequenceNumber_sys
      send_flows [rotated] split: prod.splits)

lemma drain_shorter: "drain b rs = Some rest \<Longrightarrow> length rest \<le> length rs"
  by (induction b rs rule: drain.induct) (auto split: if_splits)

lemma retry_flows:
  assumes "sys_inv sy"
  shows "leaves (flows E sy) (flows E sy) (retryLastDumpRequestWithNewSequenceNumber E sy)"
proof -
  have "flows E sy x" if "drain (non_blocking sy) (inbox sy) = Some rest" and "flows E (sy\<lparr>inbox := rest\<rparr>) x" for rest x
    using that drain_shorter [of "non_blocking sy" "inbox sy" rest] by (auto simp: flows_def)
  moreover have "flows E (sy\<lparr>inbox := rest\<rparr>) x" if "send E rq (sy\<lparr>inbox := rest, m_sequenceNumber := q, m_sendBuffer := b\<rparr>) = Inr x"
    for rest rq q b x
    using send_flows [OF _ that] assms by (auto simp: flows_def)
  moreover have "flows E (sy\<lparr>inbox := rest\<rparr>) (sy\<lparr>inbox := rest\<rparr>)" for rest
    using assms by (simp add: flows_def)
  moreover have "flows E sy (sy\<lparr>inbox := []\<rparr>)"
    using assms by (simp add: flows_def)
  ultimately show ?thesis
    by (auto simp: retryLastDumpRequestWithNewSequenceNumber_def Let_def
        dest!: nextDumpRequestSequenceNumber_sys intro!: leaves_lift split: option.splits prod.splits)
qed

lemma handleCallbackResult_flows:
  assumes "sys_inv sy"
  shows "leaves (\<lambda>(_, sy'). flows E sy sy') (flows E sy) (handleCallbackResult E ret errno sy)"
proof -
  have "leaves (\<lambda>(_, sy'). flows E sy sy') (flows E sy)
      (out_bind (retryLastDumpRequestWithNewSequenceNumber E sy) (\<lambda>sy. Returned (True, sy)))"
    by (rule leaves_bind [OF retry_flows [OF assms]]) simp
  moreover have "flows E sy x" if "flows E (sy\<lparr>m_cacheState := c\<rparr>) x" for c x
    using that by (auto simp: flows_def)
  then have "leaves (\<lambda>(_, sy'). flows E sy sy') (flows E sy)
      (lift (res_bind (sendDumpRequest E t (sy\<lparr>m_cacheState := c\<rparr>)) (\<lambda>sy. Inr (False, sy))))" for t c
    using assms sendDumpRequest_flows [of "sy\<lparr>m_cacheState := c\<rparr>" E t]
    by (auto intro!: leaves_lift simp: res_bind_eq_Inr)
  moreover have "flows E sy (sy\<lparr>m_cacheState := c\<rparr>)" for c
    using assms by (simp add: flows_def)
  ultimately show ?thesis
    using assms by (simp add: handleCallbackResult_def flows_refl)
qed

text \<open>A datagram, seen as its callback result followed by the tail of the loop body.\<close>

definition finish_datagram :: "environment \<Rightarrow> bool \<times> system \<Rightarrow> (bool \<times> system) outcome" where
  "finish_datagram E = (\<lambda>(done, sy).
     if done then Returned (True, sy) else out_bind (lift (notifyChanges E sy)) (\<lambda>sy. Returned (False, sy)))"

definition plan_of :: "environment \<Rightarrow> u8 list \<Rightarrow> system \<Rightarrow> nlmsghdr list \<times> verdict" where
  "plan_of E buf sy = cb_plan E buf (if isEnumerating sy then m_sequenceNumber sy else 0) (m_portid sy)"

lemma updateStats_flows: "sys_inv sy \<Longrightarrow> flows E sy (updateStats k sy) \<and> same_control E sy (updateStats k sy)"
  by (simp add: updateStats_def count_stat_def flows_def same_control_def)

lemma updateStats_effect: "sys_inv sy \<Longrightarrow> effect E [] sy (updateStats k sy)"
  by (simp add: updateStats_def count_stat_def effect_def same_control_def cache_of_def)

lemma plan_of_stats [simp]: "plan_of E buf (updateStats k sy) = plan_of E buf sy"
  by (simp add: plan_of_def updateStats_def count_stat_def isEnumerating_def)

lemma process_datagram_cases:
  assumes "mnl_attributes (env_mnl E)" and "sys_inv sy" and "plan_of E buf sy = (msgs, verdict)"
  obtains (all) v where "effect E (messages_meaning E (m_runtimeOptions sy) msgs) sy v"
      "process_datagram E buf sy = out_bind
        (handleCallbackResult E (fst (verdict_result verdict)) (snd (verdict_result verdict)) v) (finish_datagram E)"
    | (stopped) v where "sys_inv v" "same_control E sy v" "\<not> m_socket_open v"
      "process_datagram E buf sy = out_bind (handleCallbackResult E MNL_CB_STOP 0 v) (finish_datagram E)"
proof -
  let ?u = "updateStats (length buf) sy"
  let ?seq = "if isEnumerating ?u then m_sequenceNumber ?u else 0"
  have u: "effect E [] sy ?u" "same_control E sy ?u" "m_runtimeOptions ?u = m_runtimeOptions sy"
    using updateStats_effect [OF assms(2)] updateStats_flows [OF assms(2)] effect_options by blast+
  have plan: "cb_plan E buf ?seq (m_portid ?u) = (msgs, verdict)"
    using assms(3) plan_of_stats [of E buf "length buf" sy] by (simp add: plan_of_def)
  show thesis
  proof (rule cb_run_effect [OF assms(1) effect_inv [OF u(1)] plan])
    fix v assume v: "mnl_cb_run E buf ?seq (m_portid ?u) (mnlMessageCallback E) ?u = Inr (verdict_result verdict, v)"
      "effect E (messages_meaning E (m_runtimeOptions ?u) msgs) ?u v"
    have "process_datagram E buf sy = out_bind
        (handleCallbackResult E (fst (verdict_result verdict)) (snd (verdict_result verdict)) v) (finish_datagram E)"
      using v(1) by (simp add: process_datagram_def Let_def case_prod_beta finish_datagram_def)
    with effect_trans [OF u(1) v(2)] all u(3) show thesis by simp
  next
    fix v assume v: "mnl_cb_run E buf ?seq (m_portid ?u) (mnlMessageCallback E) ?u = Inr ((MNL_CB_STOP, 0), v)"
      "sys_inv v" "same_control E ?u v" "\<not> m_socket_open v"
    have "process_datagram E buf sy = out_bind (handleCallbackResult E MNL_CB_STOP 0 v) (finish_datagram E)"
      using v(1) by (simp add: process_datagram_def Let_def case_prod_beta finish_datagram_def)
    with stopped v same_control_trans [OF u(2) v(3)] show thesis by blast
  qed
qed

lemma finish_flows:
  assumes "sys_inv sy"
  shows "leaves (\<lambda>(_, sy'). flows E sy sy') (flows E sy) (finish_datagram E (b, sy))"
  using notifyChanges_inv [OF assms, of E] flows_refl [OF assms]
  by (auto simp: finish_datagram_def returns_def intro: control_flows)

lemma process_datagram_flows:
  assumes "mnl_attributes (env_mnl E)" and "sys_inv sy"
  shows "leaves (\<lambda>(_, sy'). flows E sy sy') (flows E sy) (process_datagram E buf sy)"
proof -
  have tail: "leaves (\<lambda>(_, sy'). flows E sy sy') (flows E sy)
      (out_bind (handleCallbackResult E ret errno v) (finish_datagram E))" if "flows E sy v" for ret errno v
  proof (rule leaves_bind)
    show "leaves (\<lambda>(_, sy'). flows E sy sy') (flows E sy) (handleCallbackResult E ret errno v)"
      by (rule leaves_mono [OF handleCallbackResult_flows [OF flows_inv [OF that]]])
        (auto intro: flows_trans [OF that])
    show "leaves (\<lambda>(_, sy'). flows E sy sy') (flows E sy) (finish_datagram E x)"
      if "case x of (_, sy') \<Rightarrow> flows E sy sy'" for x
      using that by (cases x) (auto intro: leaves_mono [OF finish_flows [OF flows_inv]] flows_trans)
  qed
  obtain msgs verdict where plan: "plan_of E buf sy = (msgs, verdict)"
    by (cases "plan_of E buf sy")
  show ?thesis
  proof (rule process_datagram_cases [OF assms plan])
    fix v assume "effect E (messages_meaning E (m_runtimeOptions sy) msgs) sy v"
      "process_datagram E buf sy = out_bind
        (handleCallbackResult E (fst (verdict_result verdict)) (snd (verdict_result verdict)) v) (finish_datagram E)"
    with tail [of v] show ?thesis
      by (simp add: effect_def control_flows)
  next
    fix v assume "sys_inv v" "same_control E sy v"
      "process_datagram E buf sy = out_bind (handleCallbackResult E MNL_CB_STOP 0 v) (finish_datagram E)"
    with tail [of v] show ?thesis
      by (simp add: control_flows)
  qed
qed

lemma process_datagram_inv:
  assumes "mnl_attributes (env_mnl E)" and "sys_inv sy"
  shows "leaves (\<lambda>(_, sy'). sys_inv sy') sys_inv (process_datagram E buf sy)"
  by (rule leaves_mono [OF process_datagram_flows [OF assms]]) (auto dest: flows_inv)

end
