(* ===== verification/Monitor_Runs.thy ===== *)
theory Monitor_Runs
  imports Monitor_Protocol
begin

unbundle bit_operations_syntax

text \<open>
  Whole runs of the monitor: every reachable state keeps the invariant, the loops visit reachable
  states only and end, and enumeration asks for links, addresses and routes in this order.
\<close>

section \<open>Reachable states keep the invariant\<close>

lemma monitor_new_inv: "monitor_new os rs now options = Inr sy \<Longrightarrow> sys_inv sy"
  by (auto simp: monitor_new_def res_bind_eq_Inr sys_inv_def trackers_inv_def map_wf_def subs_wf_def
      coherent_def split: if_splits)

lemma recvfrom_flows:
  assumes "sys_inv sy" and "recvfrom sy = Returned (received, sy')"
  shows "flows E sy sy'"
  using assms by (auto simp: recvfrom_def flows_def split: list.splits reception.splits if_splits)

inductive_cases reachable_cases: "reachable E sy"

lemma reachable_inv:
  assumes "mnl_attributes (env_mnl E)" and "reachable E sy"
  shows "sys_inv sy"
  using assms(2)
proof (induction rule: reachable.induct)
  case (new os rs now options sy)
  then show ?case by (rule monitor_new_inv)
next
  case (subscribe sy intfs k sy')
  then show ?case using subscribe_inv [of sy E intfs k] by (auto simp: returns_def)
next
  case (update sy intfs sub sy')
  then show ?case using updateSubscription_inv [of sy E intfs sub] by (auto simp: returns_def)
next
  case (request sy t sy')
  then show ?case using sendDumpRequest_inv by blast
next
  case (receive sy received sy')
  then show ?case using recvfrom_flows flows_inv by blast
next
  case (datagram sy buf d sy')
  then show ?case using process_datagram_inv [OF assms(1), of sy buf] by simp
qed (simp_all add: unsubscribe_inv stop_inv)

section \<open>The loops\<close>

lemma receive_loop_reachable:
  assumes "mnl_attributes (env_mnl E)" and "reachable E sy"
  shows "leaves (reachable E) sys_inv (receive_loop E fuel received sy)"
  using assms(2)
proof (induction fuel arbitrary: received sy)
  case (Suc fuel)
  show ?case
  proof (cases received)
    case (Some buf)
    have "leaves (\<lambda>(_, sy'). reachable E sy') sys_inv (process_datagram E buf sy)"
      using process_datagram_inv [OF assms(1) reachable_inv [OF assms(1) Suc.prems], of buf]
        reachable.datagram [OF Suc.prems, of buf]
      by (cases "process_datagram E buf sy") auto
    moreover have "leaves (reachable E) sys_inv
        (if d then Returned v else if m_socket_open v
         then out_bind (recvfrom v) (\<lambda>(received, sy). receive_loop E fuel received sy)
         else receive_loop E fuel received v)" if "reachable E v" for d v
    proof -
      have "leaves (\<lambda>(_, sy'). reachable E sy') sys_inv (recvfrom v)"
        using reachable.receive [OF that] reachable_inv [OF assms(1) that]
        by (auto simp: recvfrom_def split: list.splits reception.splits)
      with Suc.IH that show ?thesis
        by (auto intro: leaves_bind)
    qed
    ultimately show ?thesis
      using Some by (auto intro!: leaves_bind)
  qed (simp add: Suc.prems)
qed simp

lemma receiveAndProcess_reachable:
  assumes "mnl_attributes (env_mnl E)" and "reachable E sy"
  shows "leaves (reachable E) sys_inv (receiveAndProcess E fuel sy)"
proof -
  have "leaves (\<lambda>(_, sy'). reachable E sy') sys_inv (recvfrom sy)"
    using reachable.receive [OF assms(2)] reachable_inv [OF assms]
    by (auto simp: recvfrom_def split: list.splits reception.splits)
  with receive_loop_reachable [OF assms(1)] assms(2) show ?thesis
    by (auto simp: receiveAndProcess_def intro: leaves_bind)
qed

lemma enumerate_loop_reachable:
  assumes "mnl_attributes (env_mnl E)" and "reachable E sy"
  shows "leaves (reachable E) sys_inv (enumerate_loop E fuel sy)"
  using assms(2)
  by (induction fuel arbitrary: sy)
    (auto intro: leaves_bind receiveAndProcess_reachable [OF assms(1)])

lemma run_loop_reachable:
  assumes "mnl_attributes (env_mnl E)" and "reachable E sy"
  shows "leaves (reachable E) sys_inv (run_loop E fuel sy)"
  using assms(2)
  by (induction fuel arbitrary: sy)
    (auto intro: leaves_bind receiveAndProcess_reachable [OF assms(1)])

lemma enumerateInterfaces_reachable:
  assumes "mnl_attributes (env_mnl E)" and "reachable E sy"
  shows "leaves (\<lambda>(_, sy'). reachable E sy') sys_inv (enumerateInterfaces E fuel sy)"
proof -
  have "leaves (reachable E) sys_inv (lift (sendDumpRequest E RTM_GETLINK sy))"
    using reachable.request [OF assms(2)] by (auto intro: leaves_lift)
  moreover have "leaves (\<lambda>(_, sy'). reachable E sy') sys_inv
      (out_bind (enumerate_loop E fuel v) (\<lambda>sy. Returned (interfacesFromCache sy, sy)))" if "reachable E v" for v
    by (rule leaves_bind [OF enumerate_loop_reachable [OF assms(1) that]]) simp
  ultimately show ?thesis
    using assms(2) by (auto simp: enumerateInterfaces_def intro: leaves_bind)
qed

lemma run_reachable:
  assumes "mnl_attributes (env_mnl E)" and "reachable E sy"
  shows "leaves (reachable E) sys_inv (run E fuel sy)"
proof (cases "m_socket_open sy")
  case True
  have "leaves (\<lambda>(_, sy'). reachable E sy') sys_inv (enumerateInterfaces E fuel (sy\<lparr>m_running := True\<rparr>))"
    by (rule enumerateInterfaces_reachable [OF assms(1) reachable.start [OF assms(2)]])
  with True show ?thesis
    by (auto simp: run_def intro!: leaves_bind run_loop_reachable [OF assms(1)])
qed (simp add: run_def assms(2))

section \<open>Termination\<close>

text \<open>
  How a part of a run that no subscriber stops ends: with a result, waiting in \<open>recvfrom\<close> of a socket
  that blocks with everything read, or in an abort; it may run out of fuel only if there was not
  enough. No other failure and no undefined behaviour is possible.
\<close>

fun settles :: "bool \<Rightarrow> RuntimeFlags \<Rightarrow> ('a \<Rightarrow> bool) \<Rightarrow> 'a outcome \<Rightarrow> bool" where
  "settles enough opts P (Returned x) = P x"
| "settles enough opts P (Blocked v) = (\<not> bit opts (RuntimeFlag_underlying RFlag_NonBlocking) \<and> inbox v = [])"
| "settles enough opts P (Failed e) = (\<exists>msg. e = Abort msg)"
| "settles enough opts P Out_of_fuel = (\<not> enough)"

lemma settles_bind: "settles b opts P m \<Longrightarrow> (\<And>x. P x \<Longrightarrow> settles b opts Q (f x)) \<Longrightarrow> settles b opts Q (out_bind m f)"
  by (cases m) auto

lemma settles_mono: "settles b opts P m \<Longrightarrow> (\<And>x. P x \<Longrightarrow> Q x) \<Longrightarrow> settles b opts Q m"
  by (cases m) auto

lemma settles_leaves: "leaves P Q m \<Longrightarrow> settles b opts (\<lambda>_. True) m \<Longrightarrow> settles b opts P m"
  by (cases m) auto

lemma settles_lift: "(\<And>e. m = Inl e \<Longrightarrow> \<exists>msg. e = Abort msg) \<Longrightarrow> settles b opts (\<lambda>_. True) (lift m)"
  by (cases m) auto

lemma send_aborts: "send E rq sy = Inl e \<Longrightarrow> m_socket_open sy \<Longrightarrow> \<exists>msg. e = Abort msg"
  by (auto simp: send_def Let_def split: if_splits)

lemma sendDumpRequest_aborts: "sendDumpRequest E t sy = Inl e \<Longrightarrow> m_socket_open sy \<Longrightarrow> \<exists>msg. e = Abort msg"
  by (auto simp: sendDumpRequest_def Let_def dest!: nextDumpRequestSequenceNumber_sys
      intro: send_aborts split: prod.splits)

lemma drain_waits: "drain b rs = None \<Longrightarrow> \<not> b"
  by (induction b rs rule: drain.induct) (auto split: if_splits)

lemma retry_settles:
  "m_socket_open sy \<Longrightarrow> settles b (m_runtimeOptions sy) (\<lambda>_. True) (retryLastDumpRequestWithNewSequenceNumber E sy)"
  by (auto simp: retryLastDumpRequestWithNewSequenceNumber_def Let_def
      dest!: nextDumpRequestSequenceNumber_sys drain_waits simp: non_blocking_def
      intro!: settles_lift intro: send_aborts split: option.splits prod.splits)

lemma handleCallbackResult_settles:
  assumes "m_socket_open sy"
  shows "settles b (m_runtimeOptions sy) (\<lambda>_. True) (handleCallbackResult E ret errno sy)"
proof -
  have "settles b (m_runtimeOptions sy) (\<lambda>_. True)
      (out_bind (retryLastDumpRequestWithNewSequenceNumber E sy) (\<lambda>sy. Returned (True, sy)))"
    by (rule settles_bind [OF retry_settles [OF assms]]) simp
  moreover have "settles b (m_runtimeOptions sy) (\<lambda>_. True)
      (lift (res_bind (sendDumpRequest E t (sy\<lparr>m_cacheState := c\<rparr>)) (\<lambda>sy. Inr (False, sy))))" for t c
    using assms sendDumpRequest_aborts [of E t "sy\<lparr>m_cacheState := c\<rparr>"]
    by (cases "sendDumpRequest E t (sy\<lparr>m_cacheState := c\<rparr>)") auto
  ultimately show ?thesis
    using assms by (simp add: handleCallbackResult_def)
qed

definition calm :: "environment \<Rightarrow> bool" where
  "calm E \<longleftrightarrow> mnl_attributes (env_mnl E) \<and> never_stops E"

lemma calm_open: "calm E \<Longrightarrow> flows E sy v \<Longrightarrow> m_socket_open v = m_socket_open sy \<and> m_running v = m_running sy"
  by (simp add: calm_def flows_def)

lemma flows_shorter: "flows E sy v \<Longrightarrow> length (inbox v) \<le> length (inbox sy)"
  by (simp add: flows_def)

lemma flows_options: "flows E sy v \<Longrightarrow> m_runtimeOptions v = m_runtimeOptions sy"
  by (simp add: flows_def)

lemma process_datagram_settles:
  assumes "calm E" and "sys_inv sy" and "m_socket_open sy"
  shows "settles b (m_runtimeOptions sy) (\<lambda>(_, v). flows E sy v) (process_datagram E buf sy)"
proof (rule settles_leaves)
  have mnl: "mnl_attributes (env_mnl E)" using assms(1) by (simp add: calm_def)
  then show "leaves (\<lambda>(_, v). flows E sy v) (flows E sy) (process_datagram E buf sy)"
    by (rule process_datagram_flows [OF _ assms(2)])
  obtain msgs verdict where plan: "plan_of E buf sy = (msgs, verdict)"
    by (cases "plan_of E buf sy")
  show "settles b (m_runtimeOptions sy) (\<lambda>_. True) (process_datagram E buf sy)"
  proof (rule process_datagram_cases [OF mnl assms(2) plan])
    fix v assume "same_control E sy v" and "\<not> m_socket_open v"
    with assms(1,3) stays_open [of E sy v] show ?thesis by (simp add: calm_def)
  next
    fix v
    let ?h = "handleCallbackResult E (fst (verdict_result verdict)) (snd (verdict_result verdict)) v"
    assume v: "effect E (messages_meaning E (m_runtimeOptions sy) msgs) sy v"
      and run: "process_datagram E buf sy = out_bind ?h (finish_datagram E)"
    have ctl: "same_control E sy v" using v by (simp add: effect_def)
    then have opts: "m_runtimeOptions v = m_runtimeOptions sy" by (simp add: same_control_def)
    have op: "m_socket_open v" using stays_open [OF ctl] assms(1,3) by (simp add: calm_def)
    have "settles b (m_runtimeOptions sy) (\<lambda>(_, w). flows E v w) ?h"
      unfolding opts [symmetric]
      by (rule settles_leaves [OF handleCallbackResult_flows [OF effect_inv [OF v]] handleCallbackResult_settles [OF op]])
    moreover have "settles b (m_runtimeOptions sy) (\<lambda>_. True) (finish_datagram E x)"
      if "case x of (_, w) \<Rightarrow> flows E v w" for x
      using that notifyChanges_inv [OF flows_inv, of E v "snd x" E]
      by (cases x) (auto simp: finish_datagram_def returns_def)
    ultimately show ?thesis
      unfolding run by (rule settles_bind)
  qed
qed

lemma recvfrom_settles:
  assumes "sys_inv sy"
  shows "settles b (m_runtimeOptions sy)
    (\<lambda>(_, v). flows E sy v \<and> (non_blocking sy \<or> length (inbox v) < length (inbox sy))) (recvfrom sy)"
  using assms by (auto simp: recvfrom_def flows_def non_blocking_def split: list.splits reception.splits)

text \<open>Enough fuel, for a socket that blocks: each round of a loop consumes a reception.\<close>

definition enough :: "system \<Rightarrow> nat \<Rightarrow> bool" where
  "enough sy fuel \<longleftrightarrow> \<not> non_blocking sy \<and> length (inbox sy) < fuel"

text \<open>An open monitor that goes on from another one.\<close>

definition goes_on :: "environment \<Rightarrow> system \<Rightarrow> system \<Rightarrow> bool" where
  "goes_on E sy v \<longleftrightarrow> flows E sy v \<and> sys_inv v \<and> m_socket_open v \<and> m_runtimeOptions v = m_runtimeOptions sy \<and>
     m_running v = m_running sy"

lemma goes_on_flows: "calm E \<Longrightarrow> m_socket_open sy \<Longrightarrow> flows E sy v \<Longrightarrow> goes_on E sy v"
  using calm_open flows_inv flows_options by (auto simp: goes_on_def)

lemma goes_on_trans: "goes_on E sy v \<Longrightarrow> goes_on E v w \<Longrightarrow> goes_on E sy w"
  by (auto simp: goes_on_def intro: flows_trans)

lemma goes_on_enough:
  "goes_on E sy v \<Longrightarrow> enough sy fuel \<Longrightarrow> enough v fuel"
  "goes_on E sy v \<Longrightarrow> non_blocking v \<longleftrightarrow> non_blocking sy"
  by (auto simp: goes_on_def enough_def flows_def non_blocking_def)

lemma enough_Suc: "enough sy (Suc fuel) \<Longrightarrow> non_blocking sy \<or> length (inbox v) < length (inbox sy) \<Longrightarrow>
    goes_on E sy v \<Longrightarrow> enough v fuel"
  by (auto simp: goes_on_def enough_def non_blocking_def)

lemma receive_loop_settles:
  assumes "calm E" and "sys_inv sy" and "m_socket_open sy" and "b \<longrightarrow> enough sy fuel"
  shows "settles b (m_runtimeOptions sy) (goes_on E sy) (receive_loop E fuel received sy)"
  using assms(2-)
proof (induction fuel arbitrary: received sy)
  case (Suc fuel)
  note on = goes_on_flows [OF assms(1)]
  show ?case
  proof (cases received)
    case None
    then show ?thesis using on [OF Suc.prems(2) flows_refl [OF Suc.prems(1)]] by simp
  next
    case (Some buf)
    have next_round: "settles b (m_runtimeOptions sy) (goes_on E sy) (receive_loop E fuel rc w)"
      if v: "goes_on E sy v" and w: "flows E v w" "non_blocking v \<or> length (inbox w) < length (inbox v)" for rc v w
    proof -
      have vw: "goes_on E v w" using on [OF _ w(1)] v by (simp add: goes_on_def)
      have sw: "goes_on E sy w" by (rule goes_on_trans [OF v vw])
      have "b \<longrightarrow> enough w fuel"
        using Suc.prems(3) goes_on_enough(1) [OF v] enough_Suc [OF _ w(2) vw] by blast
      from Suc.IH [OF _ _ this, of rc] sw show ?thesis
        using goes_on_trans [OF sw] by (auto simp: goes_on_def [of E sy w] intro: settles_mono)
    qed
    have tail: "settles b (m_runtimeOptions sy) (goes_on E sy)
        (if d then Returned v else if m_socket_open v
         then out_bind (recvfrom v) (\<lambda>(received, sy). receive_loop E fuel received sy)
         else receive_loop E fuel received v)" if f: "flows E sy v" for d v
    proof -
      have v: "goes_on E sy v" by (rule on [OF Suc.prems(2) f])
      have "settles b (m_runtimeOptions sy)
          (\<lambda>(_, w). flows E v w \<and> (non_blocking v \<or> length (inbox w) < length (inbox v))) (recvfrom v)"
        using recvfrom_settles [OF flows_inv [OF f], of b E] flows_options [OF f] by simp
      then have "settles b (m_runtimeOptions sy) (goes_on E sy)
          (out_bind (recvfrom v) (\<lambda>(received, sy). receive_loop E fuel received sy))"
        by (rule settles_bind) (use next_round [OF v] in auto)
      with v show ?thesis by (auto simp: goes_on_def)
    qed
    show ?thesis
      unfolding Some receive_loop.simps option.case
      by (rule settles_bind [OF process_datagram_settles [OF assms(1) Suc.prems(1,2)]])
        (use tail Some in auto)
  qed
qed (simp add: enough_def)

lemma receiveAndProcess_settles:
  assumes "calm E" and "sys_inv sy" and "m_socket_open sy" and "b \<longrightarrow> enough sy (Suc fuel)"
  shows "settles b (m_runtimeOptions sy) (\<lambda>v. goes_on E sy v \<and> (b \<longrightarrow> enough v fuel)) (receiveAndProcess E fuel sy)"
proof -
  have "settles b (m_runtimeOptions sy) (\<lambda>v. goes_on E sy v \<and> (b \<longrightarrow> enough v fuel)) (receive_loop E fuel rc w)"
    if w: "flows E sy w" "non_blocking sy \<or> length (inbox w) < length (inbox sy)" for rc w
  proof -
    have sw: "goes_on E sy w" by (rule goes_on_flows [OF assms(1,3) w(1)])
    have enough: "b \<longrightarrow> enough w fuel" using assms(4) enough_Suc [OF _ w(2) sw] by blast
    from receive_loop_settles [OF assms(1) _ _ this, of rc] sw show ?thesis
      using goes_on_trans [OF sw] goes_on_enough(1) enough
      by (auto simp: goes_on_def [of E sy w] intro: settles_mono)
  qed
  then show ?thesis
    using assms(3) by (auto simp: receiveAndProcess_def intro!: settles_bind [OF recvfrom_settles [OF assms(2), of b E]])
qed

lemma enumerate_loop_settles:
  assumes "calm E" and "sys_inv sy" and "m_socket_open sy" and "b \<longrightarrow> enough sy fuel"
  shows "settles b (m_runtimeOptions sy) (goes_on E sy) (enumerate_loop E fuel sy)"
  using assms(2-)
proof (induction fuel arbitrary: sy)
  case (Suc fuel)
  have "settles b (m_runtimeOptions sy) (goes_on E sy) (enumerate_loop E fuel v)"
    if v: "goes_on E sy v \<and> (b \<longrightarrow> enough v fuel)" for v
    using Suc.IH [of v] v goes_on_trans [of E sy v] by (auto simp: goes_on_def [of E sy v] intro: settles_mono)
  from settles_bind [OF receiveAndProcess_settles [OF assms(1) Suc.prems] this] show ?case
    using goes_on_flows [OF assms(1) Suc.prems(2) flows_refl [OF Suc.prems(1)]] by simp
qed (simp add: enough_def)

lemma run_loop_settles:
  assumes "calm E" and "sys_inv sy" and "m_socket_open sy" and "b \<longrightarrow> enough sy fuel" and "m_running sy"
  shows "settles b (m_runtimeOptions sy) (\<lambda>_. False) (run_loop E fuel sy)"
  using assms(2-)
proof (induction fuel arbitrary: sy)
  case (Suc fuel)
  have "settles b (m_runtimeOptions sy) (\<lambda>_. False) (run_loop E fuel v)"
    if v: "goes_on E sy v \<and> (b \<longrightarrow> enough v fuel)" for v
    using Suc.IH [of v] v Suc.prems(4) by (auto simp: goes_on_def)
  from settles_bind [OF receiveAndProcess_settles [OF assms(1) Suc.prems(1-3)] this] show ?case
    using Suc.prems(4) by simp
qed (simp add: enough_def)

lemma run_settles:
  assumes "calm E" and "sys_inv sy" and "m_socket_open sy" and "b \<longrightarrow> enough sy fuel"
  shows "settles b (m_runtimeOptions sy) (\<lambda>_. False) (run E fuel sy)"
proof -
  let ?u = "sy\<lparr>m_running := True\<rparr>" and ?s = "settles b (m_runtimeOptions sy)"
  have u: "sys_inv ?u" "m_socket_open ?u" using assms(2,3) by simp_all
  note start = goes_on_flows [OF assms(1) u(2)]
  have loop: "?s (\<lambda>_. False) (run_loop E fuel v)" if v: "goes_on E ?u v" for v
    using run_loop_settles [OF assms(1), of v b fuel] v assms(4) goes_on_enough(1) [OF v, of fuel]
    by (auto simp: goes_on_def enough_def non_blocking_def)
  have enum: "?s (goes_on E ?u) (enumerate_loop E fuel v)" if v: "goes_on E ?u v" for v
  proof -
    have "b \<longrightarrow> enough v fuel"
      using assms(4) goes_on_enough(1) [OF v, of fuel] by (simp add: enough_def non_blocking_def)
    from enumerate_loop_settles [OF assms(1) _ _ this] v show ?thesis
      using goes_on_trans [OF v] by (auto simp: goes_on_def [of E ?u v] intro: settles_mono)
  qed
  have "?s (\<lambda>(_, v). goes_on E ?u v) (enumerateInterfaces E fuel ?u)"
  proof (cases "m_cacheState sy = WaitingForChanges")
    case True
    then show ?thesis using start [OF flows_refl [OF u(1)]] by (simp add: enumerateInterfaces_def)
  next
    case False
    have "?s (goes_on E ?u) (lift (sendDumpRequest E RTM_GETLINK ?u))"
      using sendDumpRequest_aborts [of E RTM_GETLINK ?u] u(2) start [OF sendDumpRequest_flows [OF u(1)]]
      by (cases "sendDumpRequest E RTM_GETLINK ?u") auto
    moreover have "?s (\<lambda>(_, v). goes_on E ?u v)
        (out_bind (enumerate_loop E fuel v) (\<lambda>sy. Returned (interfacesFromCache sy, sy)))" if "goes_on E ?u v" for v
      by (rule settles_bind [OF enum [OF that]]) simp
    ultimately show ?thesis
      using False by (auto simp: enumerateInterfaces_def intro: settles_bind)
  qed
  then show ?thesis
    using assms(3) loop by (auto simp: run_def intro: settles_bind)
qed

end
