(* ===== verification/Enumeration.thy ===== *)
theory Enumeration
  imports Monitor_Runs
begin

unbundle bit_operations_syntax

text \<open>
  The initial enumeration as a protocol: \<open>proto_step\<close> is the abstract machine over the stage, the
  sequence number, the cache and the requests sent, and the receive loop is shown to implement it on
  the datagrams of three complete dumps.
\<close>

section \<open>The abstract protocol\<close>

definition dump_request :: "u16 \<Rightarrow> u32 \<Rightarrow> request" where
  "dump_request t seq =
     \<lparr>rq_type = t, rq_flags = NLM_F_REQUEST OR NLM_F_DUMP, rq_seq = seq, rq_family = AF_UNSPEC,
      rq_attributes = [(IFLA_EXT_MASK, RTEXT_FILTER_SKIP_STATS)]\<rparr>"

definition next_seq :: "u32 \<Rightarrow> u32" where
  "next_seq s = (if s + 1 = 0 then 1 else s + 1)"

record proto =
  stage :: CacheState
  seqno :: u32
  known :: cache
  asked :: "request list"

definition proto_of :: "system \<Rightarrow> proto" where
  "proto_of sy =
     \<lparr>stage = m_cacheState sy, seqno = m_sequenceNumber sy, known = cache_of sy, asked = requests (events sy)\<rparr>"

definition ask :: "CacheState \<Rightarrow> u16 \<Rightarrow> proto \<Rightarrow> proto" where
  "ask st t p =
     p\<lparr>stage := st, seqno := next_seq (seqno p), asked := asked p @ [dump_request t (next_seq (seqno p))]\<rparr>"

fun stage_done :: "CacheState \<Rightarrow> proto \<Rightarrow> proto" where
  "stage_done EnumeratingLinks p = ask EnumeratingAddresses RTM_GETADDR p"
| "stage_done EnumeratingAddresses p = ask EnumeratingRoutes RTM_GETROUTE p"
| "stage_done EnumeratingRoutes p = p\<lparr>stage := WaitingForChanges\<rparr>"
| "stage_done WaitingForChanges p = p"

text \<open>One datagram of a dump: its messages, then the end of the dump if it holds it.\<close>

definition proto_step :: "environment \<Rightarrow> RuntimeFlags \<Rightarrow> nlmsghdr list \<times> verdict \<Rightarrow> proto \<Rightarrow> proto" where
  "proto_step E options reply p =
     (let p = p\<lparr>known := fold apply_change (messages_meaning E options (fst reply)) (known p)\<rparr> in
      if snd reply = Plan_stop then stage_done (stage p) p else p)"

definition plan_step :: "environment \<Rightarrow> RuntimeFlags \<Rightarrow> u32 \<Rightarrow> u8 list \<Rightarrow> proto \<Rightarrow> proto" where
  "plan_step E options portid buf p = proto_step E options (cb_plan E buf (seqno p) portid) p"

text \<open>
  The datagrams that complete the enumeration, no more and no less: each is answered for the current
  sequence number without an error, and three of them end a dump.
\<close>

fun advance :: "verdict \<Rightarrow> CacheState \<times> u32 \<Rightarrow> CacheState \<times> u32" where
  "advance Plan_stop (EnumeratingLinks, s) = (EnumeratingAddresses, next_seq s)"
| "advance Plan_stop (EnumeratingAddresses, s) = (EnumeratingRoutes, next_seq s)"
| "advance Plan_stop (EnumeratingRoutes, s) = (WaitingForChanges, s)"
| "advance _ at = at"

fun completes :: "environment \<Rightarrow> u32 \<Rightarrow> CacheState \<times> u32 \<Rightarrow> u8 list list \<Rightarrow> bool" where
  "completes E portid at [] = (fst at = WaitingForChanges)"
| "completes E portid at (buf # bufs) =
     (let verdict = snd (cb_plan E buf (snd at) portid) in
      fst at \<noteq> WaitingForChanges \<and> buf \<noteq> [] \<and> (verdict = Plan_ok \<or> verdict = Plan_stop) \<and>
      completes E portid (advance verdict at) bufs)"

fun dump_messages :: "environment \<Rightarrow> u32 \<Rightarrow> CacheState \<times> u32 \<Rightarrow> u8 list list \<Rightarrow> nlmsghdr list" where
  "dump_messages E portid at [] = []"
| "dump_messages E portid at (buf # bufs) =
     (case cb_plan E buf (snd at) portid of (msgs, verdict) \<Rightarrow>
        msgs @ dump_messages E portid (advance verdict at) bufs)"

definition position :: "proto \<Rightarrow> CacheState \<times> u32" where
  "position p = (stage p, seqno p)"

lemma position_sel [simp]: "fst (position p) = stage p" "snd (position p) = seqno p"
  by (simp_all add: position_def)

lemma position_step: "position (proto_step E options r p) = advance (snd r) (position p)"
  by (cases "snd r"; cases "stage p") (simp_all add: proto_step_def position_def Let_def ask_def)

lemma known_step: "known (proto_step E options r p) = fold apply_change (messages_meaning E options (fst r)) (known p)"
  by (cases "stage p") (simp_all add: proto_step_def Let_def ask_def)

lemma fold_known:
  "known (fold (plan_step E options portid) bufs p) =
     fold apply_change (messages_meaning E options (dump_messages E portid (position p) bufs)) (known p)"
proof (induction bufs arbitrary: p)
  case (Cons b bs)
  have "messages_meaning E options (xs @ ys) = messages_meaning E options xs @ messages_meaning E options ys" for xs ys
    by (simp add: messages_meaning_def)
  then show ?case
    using Cons [of "plan_step E options portid b p"]
    by (simp add: plan_step_def known_step position_step split: prod.splits)
qed (simp add: messages_meaning_def)

fun still_to_ask :: "CacheState \<times> u32 \<Rightarrow> request list" where
  "still_to_ask (EnumeratingLinks, s) =
     [dump_request RTM_GETADDR (next_seq s), dump_request RTM_GETROUTE (next_seq (next_seq s))]"
| "still_to_ask (EnumeratingAddresses, s) = [dump_request RTM_GETROUTE (next_seq s)]"
| "still_to_ask _ = []"

lemma asked_step: "asked (proto_step E options r p) @ still_to_ask (position (proto_step E options r p)) =
    asked p @ still_to_ask (position p)"
  by (cases "stage p") (auto simp: proto_step_def Let_def ask_def position_def)

lemma fold_asked:
  "completes E portid (position p) bufs \<Longrightarrow>
   asked (fold (plan_step E options portid) bufs p) = asked p @ still_to_ask (position p)"
proof (induction bufs arbitrary: p)
  case Nil
  then show ?case by (simp add: position_def)
next
  case (Cons b bs)
  let ?q = "plan_step E options portid b p"
  have "completes E portid (position ?q) bs"
    using Cons.prems by (simp add: plan_step_def position_step Let_def)
  from Cons.IH [OF this] show ?case
    using asked_step [of E options "cb_plan E b (seqno p) portid" p] by (simp add: plan_step_def)
qed

section \<open>Pieces\<close>

lemma next_seq_sys: "nextDumpRequestSequenceNumber sy =
    (next_seq (m_sequenceNumber sy), sy\<lparr>m_sequenceNumber := next_seq (m_sequenceNumber sy)\<rparr>)"
  by (simp add: nextDumpRequestSequenceNumber_def next_seq_def Let_def)

definition accepts :: "environment \<Rightarrow> bool" where
  "accepts E \<longleftrightarrow> (\<forall>rq. 0 \<le> sendto E rq)"

lemma sendDumpRequest_ok:
  assumes "accepts E" and "m_socket_open sy"
  obtains sy' where "sendDumpRequest E t sy = Inr sy'"
    and "proto_of sy' = ask (m_cacheState sy) t (proto_of sy)"
    and "m_socket_open sy'" and "inbox sy' = inbox sy" and "m_portid sy' = m_portid sy"
    and "m_runtimeOptions sy' = m_runtimeOptions sy"
    and "m_sendBuffer sy' = Some (dump_request t (next_seq (m_sequenceNumber sy)))"
    and "m_trackers sy' = m_trackers sy"
    and "events sy' = events sy @ [Sent (dump_request t (next_seq (m_sequenceNumber sy)))]"
  using assms
  by (simp add: sendDumpRequest_def next_seq_sys Let_def send_def accepts_def not_less count_stat_def
      proto_of_def ask_def dump_request_def cache_of_def)

text \<open>What stays when a datagram is processed without a retry.\<close>

definition steady :: "system \<Rightarrow> system \<Rightarrow> bool" where
  "steady sy sy' \<longleftrightarrow>
     inbox sy' = inbox sy \<and> m_portid sy' = m_portid sy \<and> m_runtimeOptions sy' = m_runtimeOptions sy"

lemma steady_refl: "steady sy sy"
  by (simp add: steady_def)

lemma steady_trans: "steady a b \<Longrightarrow> steady b c \<Longrightarrow> steady a c"
  by (simp add: steady_def)

lemma control_steady: "same_control E sy sy' \<Longrightarrow> steady sy sy'"
  by (simp add: same_control_def steady_def)

lemma effect_proto:
  "effect E chs sy sy' \<Longrightarrow> proto_of sy' = (proto_of sy)\<lparr>known := fold apply_change chs (known (proto_of sy))\<rparr>"
  by (simp add: effect_def same_control_def proto_of_def)

lemma round_cache:
  assumes "notified_round E sy sy'"
  shows "cache_of sy' = cache_of sy"
proof (cases "m_subscribers sy = []")
  case False
  with assms have ts: "list_all2 (\<lambda>(i, t) (j, t'). j = i \<and> cleared t t') (m_trackers sy) (m_trackers sy')"
    by (simp add: notified_round_def)
  show ?thesis
  proof
    fix i
    show "cache_of sy' i = cache_of sy i"
    proof (cases "map_find i (m_trackers sy)")
      case None
      then have "map_find i (m_trackers sy') = None"
        using map_find_all2(2) [OF ts, of i] by (cases "map_find i (m_trackers sy')") auto
      with None show ?thesis by (simp add: cache_of_def)
    next
      case (Some t)
      then show ?thesis
        using map_find_all2(3) [OF ts Some] by (auto simp: cache_of_def cleared_facts)
    qed
  qed
qed (use assms in \<open>simp add: notified_round_def\<close>)

lemma finish_ok:
  assumes "calm E" and "sys_inv sy"
  obtains sy' where "finish_datagram E (False, sy) = Returned (False, sy')" and "sys_inv sy'"
    and "proto_of sy' = proto_of sy" and "steady sy sy'" and "m_socket_open sy' = m_socket_open sy"
proof -
  obtain sy' where sy': "notifyChanges E sy = Inr sy'" "notified_round E sy sy'" "sys_inv sy'" "same_control E sy sy'"
    using notifyChanges_inv [OF assms(2), of E] by (auto simp: returns_def)
  have "proto_of sy' = proto_of sy"
    using sy'(4) round_cache [OF sy'(2)] by (simp add: proto_of_def same_control_def)
  moreover have "m_socket_open sy' = m_socket_open sy"
    using sy'(4) assms(1) by (simp add: stays_open calm_def)
  ultimately show thesis
    using that [of sy'] sy' control_steady [OF sy'(4)] by (simp add: finish_datagram_def)
qed

lemma sys_inv_sent:
  assumes "sys_inv sy" and "m_trackers sy' = m_trackers sy" and "m_subscribers sy' = m_subscribers sy"
    and "events sy' = events sy @ [Sent rq]"
  shows "sys_inv sy'"
  using assms by (simp add: sys_inv_def coherent_def)

lemma ask_stage:
  assumes "accepts E" and "m_socket_open sy" and "sys_inv sy"
  obtains sy' where "sendDumpRequest E t (sy\<lparr>m_cacheState := st\<rparr>) = Inr sy'"
    and "proto_of sy' = ask st t (proto_of sy)" and "sys_inv sy'" and "steady sy sy'" and "m_socket_open sy'"
proof -
  let ?u = "sy\<lparr>m_cacheState := st\<rparr>"
  have u: "m_socket_open ?u" using assms(2) by simp
  obtain sy' where sy': "sendDumpRequest E t ?u = Inr sy'" "proto_of sy' = ask (m_cacheState ?u) t (proto_of ?u)"
    "m_socket_open sy'" "inbox sy' = inbox ?u" "m_portid sy' = m_portid ?u"
    "m_runtimeOptions sy' = m_runtimeOptions ?u"
    by (rule sendDumpRequest_ok [OF assms(1) u])
  have "sys_inv sy'"
    using sendDumpRequest_inv [OF _ sy'(1)] assms(3) by simp
  with that sy' show thesis
    by (simp add: steady_def proto_of_def ask_def cache_of_def)
qed

text \<open>One datagram of a dump, from the callback result on.\<close>

definition stepped :: "environment \<Rightarrow> system \<Rightarrow> proto \<Rightarrow> (bool \<times> system) outcome \<Rightarrow> bool" where
  "stepped E sy p out \<longleftrightarrow>
     (\<exists>sy'. out = Returned (stage p = WaitingForChanges, sy') \<and> proto_of sy' = p \<and> sys_inv sy' \<and>
        steady sy sy' \<and> m_socket_open sy')"

lemma stepped_finish:
  assumes "calm E" and "sys_inv w" and "m_socket_open w" and "m_cacheState w \<noteq> WaitingForChanges"
  shows "stepped E w (proto_of w) (finish_datagram E (False, w))"
proof -
  obtain x where "finish_datagram E (False, w) = Returned (False, x)" "sys_inv x"
    "proto_of x = proto_of w" "steady w x" "m_socket_open x = m_socket_open w"
    by (rule finish_ok [OF assms(1,2)])
  with assms(3,4) show ?thesis
    by (simp add: stepped_def proto_of_def)
qed

lemma stepped_ok:
  assumes "calm E" and "sys_inv v" and "m_socket_open v" and "isEnumerating v"
  shows "stepped E v (proto_of v) (out_bind (handleCallbackResult E MNL_CB_OK 0 v) (finish_datagram E))"
  using stepped_finish [OF assms(1-3)] assms(4)
  by (simp add: handleCallbackResult_def MNL_CB_OK_def MNL_CB_ERROR_def MNL_CB_STOP_def isEnumerating_def)

lemma stepped_ask:
  assumes "calm E" and "accepts E" and "sys_inv v" and "m_socket_open v" and "st \<noteq> WaitingForChanges"
  shows "stepped E v (ask st t (proto_of v))
    (out_bind (lift (res_bind (sendDumpRequest E t (v\<lparr>m_cacheState := st\<rparr>)) (\<lambda>sy. Inr (False, sy)))) (finish_datagram E))"
proof -
  obtain w where w: "sendDumpRequest E t (v\<lparr>m_cacheState := st\<rparr>) = Inr w"
    "proto_of w = ask st t (proto_of v)" "sys_inv w" "steady v w" "m_socket_open w"
    by (rule ask_stage [OF assms(2,4,3)])
  have "m_cacheState w = st"
    using arg_cong [OF w(2), of stage] by (simp add: proto_of_def ask_def)
  with stepped_finish [OF assms(1) w(3,5)] w assms(5) show ?thesis
    by (auto simp: stepped_def intro: steady_trans)
qed

lemma stepped_stop:
  assumes "calm E" and "accepts E" and "sys_inv v" and "m_socket_open v" and "isEnumerating v"
  shows "stepped E v (stage_done (m_cacheState v) (proto_of v))
    (out_bind (handleCallbackResult E MNL_CB_STOP 0 v) (finish_datagram E))"
proof (cases "m_cacheState v")
  case EnumeratingLinks
  then show ?thesis
    using stepped_ask [OF assms(1-4), of EnumeratingAddresses RTM_GETADDR]
    by (simp add: handleCallbackResult_def MNL_CB_STOP_def MNL_CB_ERROR_def isEnumeratingLinks_def)
next
  case EnumeratingAddresses
  then show ?thesis
    using stepped_ask [OF assms(1-4), of EnumeratingRoutes RTM_GETROUTE]
    by (simp add: handleCallbackResult_def MNL_CB_STOP_def MNL_CB_ERROR_def isEnumeratingLinks_def
        isEnumeratingAddresses_def)
next
  case EnumeratingRoutes
  then show ?thesis
    using assms(3,4)
    by (simp add: handleCallbackResult_def MNL_CB_STOP_def MNL_CB_ERROR_def isEnumeratingLinks_def
        isEnumeratingAddresses_def isEnumeratingRoutes_def finish_datagram_def stepped_def proto_of_def
        steady_def cache_of_def)
qed (use assms(5) in \<open>simp add: isEnumerating_def\<close>)

lemma datagram_step:
  assumes "calm E" and "accepts E" and "sys_inv sy" and "m_socket_open sy"
    and "isEnumerating sy" and "plan_of E buf sy = (msgs, verdict)"
    and "verdict = Plan_ok \<or> verdict = Plan_stop"
  shows "stepped E sy (proto_step E (m_runtimeOptions sy) (msgs, verdict) (proto_of sy)) (process_datagram E buf sy)"
proof -
  have mnl: "mnl_attributes (env_mnl E)" using assms(1) by (simp add: calm_def)
  show ?thesis
  proof (rule process_datagram_cases [OF mnl assms(3,6)])
    fix v
    assume "sys_inv v" "same_control E sy v" "\<not> m_socket_open v"
    then show ?thesis
      using assms(1,4) stays_open [of E sy v] by (simp add: calm_def)
  next
    fix v
    assume v: "effect E (messages_meaning E (m_runtimeOptions sy) msgs) sy v"
      and run: "process_datagram E buf sy = out_bind
        (handleCallbackResult E (fst (verdict_result verdict)) (snd (verdict_result verdict)) v) (finish_datagram E)"
    have inv: "sys_inv v" and ctl: "same_control E sy v" using v by (simp_all add: effect_def)
    have op: "m_socket_open v"
      using stays_open [OF ctl] assms(1,4) by (simp add: calm_def)
    have st: "m_cacheState v = m_cacheState sy" using ctl by (simp add: same_control_def)
    then have en: "isEnumerating v" using assms(5) by (simp add: isEnumerating_def)
    have "proto_step E (m_runtimeOptions sy) (msgs, verdict) (proto_of sy) =
        (if verdict = Plan_stop then stage_done (m_cacheState v) (proto_of v) else proto_of v)"
      using effect_proto [OF v] st by (simp add: proto_step_def Let_def) (simp add: proto_of_def)
    moreover have "stepped E sy p out" if "stepped E v p out" for p out
      using that steady_trans [OF control_steady [OF ctl]] by (auto simp: stepped_def)
    ultimately show ?thesis
      using assms(7) run stepped_ok [OF assms(1) inv op en] stepped_stop [OF assms(1,2) inv op en] by auto
  qed
qed

section \<open>The loop over three dumps\<close>

definition received_at :: "(int \<times> u8 list) list \<Rightarrow> reception list" where
  "received_at ds = map (\<lambda>(t, b). Received t b) ds"

lemma stage_proto [simp]: "stage (proto_of sy) = m_cacheState sy" "seqno (proto_of sy) = m_sequenceNumber sy"
  by (simp_all add: proto_of_def)

lemma recvfrom_datagram:
  assumes "sys_inv sy" and "inbox sy = Received t b # rs" and "b \<noteq> []"
  shows "recvfrom sy = Returned (Some b, sy\<lparr>inbox := rs, clock := t\<rparr>)"
    and "sys_inv (sy\<lparr>inbox := rs, clock := t\<rparr>)"
    and "proto_of (sy\<lparr>inbox := rs, clock := t\<rparr>) = proto_of sy"
  using assms by (simp_all add: recvfrom_def proto_of_def cache_of_def)

lemma dump_datagram:
  assumes "calm E" and "accepts E" and "sys_inv sy" and "m_socket_open sy"
    and "completes E (m_portid sy) (position (proto_of sy)) (d # bufs)"
  obtains v where "process_datagram E d sy = Returned (bufs = [], v)"
    and "proto_of v = plan_step E (m_runtimeOptions sy) (m_portid sy) d (proto_of sy)"
    and "sys_inv v" and "steady sy v" and "m_socket_open v"
    and "completes E (m_portid v) (position (proto_of v)) bufs"
proof -
  obtain msgs verdict where plan: "plan_of E d sy = (msgs, verdict)" by (cases "plan_of E d sy")
  have en: "isEnumerating sy"
    using assms(5) by (simp add: isEnumerating_def Let_def)
  then have cb: "cb_plan E d (m_sequenceNumber sy) (m_portid sy) = (msgs, verdict)"
    using plan by (simp add: plan_of_def)
  have ok: "verdict = Plan_ok \<or> verdict = Plan_stop"
    using assms(5) cb by (simp add: Let_def)
  let ?p = "plan_step E (m_runtimeOptions sy) (m_portid sy) d (proto_of sy)"
  have p: "?p = proto_step E (m_runtimeOptions sy) (msgs, verdict) (proto_of sy)"
    using cb by (simp add: plan_step_def)
  have c: "completes E (m_portid sy) (position ?p) bufs"
    using assms(5) cb by (simp add: p position_step Let_def)
  then have "stage ?p = WaitingForChanges \<longleftrightarrow> bufs = []"
    by (cases bufs) (simp_all add: Let_def)
  with datagram_step [OF assms(1-4) en plan ok] c that show thesis
    by (auto simp: stepped_def p steady_def)
qed

lemma receive_dump:
  assumes "calm E" and "accepts E" and "sys_inv sy" and "m_socket_open sy"
    and "completes E (m_portid sy) (position (proto_of sy)) (d # map snd ds)"
    and "inbox sy = received_at ds @ rest" and "length ds < fuel"
  shows "\<exists>sy'. receive_loop E fuel (Some d) sy = Returned sy' \<and> sys_inv sy' \<and> m_socket_open sy' \<and>
    inbox sy' = rest \<and> m_cacheState sy' = WaitingForChanges \<and>
    proto_of sy' = fold (plan_step E (m_runtimeOptions sy) (m_portid sy)) (d # map snd ds) (proto_of sy)"
  using assms(3-)
proof (induction ds arbitrary: d sy fuel)
  case Nil
  obtain n where n: "fuel = Suc n" using Nil.prems(5) by (cases fuel) auto
  obtain v where v: "process_datagram E d sy = Returned (True, v)"
    "proto_of v = plan_step E (m_runtimeOptions sy) (m_portid sy) d (proto_of sy)"
    "sys_inv v" "steady sy v" "m_socket_open v" "completes E (m_portid v) (position (proto_of v)) []"
    using dump_datagram [OF assms(1,2) Nil.prems(1,2), of d "[]"] Nil.prems(3) by auto
  have "m_cacheState v = WaitingForChanges"
    using v(6) by simp
  with v show ?case
    using n Nil.prems(4) by (auto simp: steady_def received_at_def)
next
  case (Cons x ds)
  obtain t b where x: "x = (t, b)" by (cases x)
  obtain n where n: "fuel = Suc n" using Cons.prems(5) by (cases fuel) auto
  obtain v where v: "process_datagram E d sy = Returned (False, v)"
    "proto_of v = plan_step E (m_runtimeOptions sy) (m_portid sy) d (proto_of sy)"
    "sys_inv v" "steady sy v" "m_socket_open v"
    "completes E (m_portid v) (position (proto_of v)) (b # map snd ds)"
    using dump_datagram [OF assms(1,2) Cons.prems(1,2), of d "b # map snd ds"] Cons.prems(3) x by auto
  let ?u = "v\<lparr>inbox := received_at ds @ rest, clock := t\<rparr>"
  have "inbox v = Received t b # received_at ds @ rest" and b: "b \<noteq> []"
    using v(4,6) Cons.prems(4) x by (auto simp: steady_def received_at_def Let_def)
  note r = recvfrom_datagram [OF v(3) this]
  have "\<exists>sy'. receive_loop E n (Some b) ?u = Returned sy' \<and> sys_inv sy' \<and> m_socket_open sy' \<and>
    inbox sy' = rest \<and> m_cacheState sy' = WaitingForChanges \<and>
    proto_of sy' = fold (plan_step E (m_runtimeOptions ?u) (m_portid ?u)) (b # map snd ds) (proto_of ?u)"
    using v(5,6) Cons.prems(5) n by (intro Cons.IH r(2)) (simp_all only: r(3), simp_all)
  moreover have "m_runtimeOptions ?u = m_runtimeOptions sy" "m_portid ?u = m_portid sy"
    using v(4) by (simp_all add: steady_def)
  ultimately show ?case
    using n v(1,2,5) r(1,3) x by simp
qed

text \<open>Listing the cache.\<close>

lemma interfacesFromCache_spec:
  assumes "map_wf (m_trackers sy)"
  shows "interfacesFromCache sy = map (\<lambda>(i, t). \<lparr>if_index = i, if_name = m_name t\<rparr>) (m_trackers sy)"
proof -
  have "fold (\<lambda>(i, t) s. interfaces_emplace i (m_name t) s) ts acc =
      acc @ map (\<lambda>(i, t). \<lparr>if_index = i, if_name = m_name t\<rparr>) ts"
    if "map_wf ts" and "\<forall>x\<in>set acc. \<forall>y\<in>set ts. if_index x < fst y" for ts acc
    using that
  proof (induction ts arbitrary: acc)
    case (Cons x ts)
    obtain i t where x: "x = (i, t)" by (cases x)
    have last: "set_insert if_index e acc = acc @ [e]" if "\<forall>x\<in>set acc. if_index x < if_index e" for e acc
      using that by (induction acc) auto
    have "interfaces_emplace i (m_name t) acc = acc @ [\<lparr>if_index = i, if_name = m_name t\<rparr>]"
      using Cons.prems(2) x last [of acc "\<lparr>if_index = i, if_name = m_name t\<rparr>"]
      by (simp add: interfaces_emplace_def)
    moreover have "map_wf ts" and "\<forall>y\<in>set ts. i < fst y"
      using Cons.prems(1) x by (simp_all add: map_wf_def)
    ultimately show ?case
      using Cons x by simp
  qed simp
  from this [of "m_trackers sy" "[]"] assms show ?thesis
    by (simp add: interfacesFromCache_def)
qed

section \<open>The whole enumeration\<close>

text \<open>From the first request to the end, in terms of the abstract protocol.\<close>

lemma enumerate_protocol:
  assumes "calm E" and "accepts E" and "sys_inv sy" and "m_socket_open sy"
    and "m_cacheState sy = EnumeratingLinks"
    and "completes E (m_portid sy) (EnumeratingLinks, next_seq (m_sequenceNumber sy)) (map snd ds)"
    and "inbox sy = received_at ds @ rest" and "length ds < fuel"
  shows "\<exists>sy'. enumerateInterfaces E fuel sy = Returned (interfacesFromCache sy', sy') \<and> sys_inv sy' \<and>
    m_socket_open sy' \<and> inbox sy' = rest \<and> m_cacheState sy' = WaitingForChanges \<and>
    proto_of sy' = fold (plan_step E (m_runtimeOptions sy) (m_portid sy)) (map snd ds)
      (ask EnumeratingLinks RTM_GETLINK (proto_of sy))"
proof -
  have same: "sy\<lparr>m_cacheState := EnumeratingLinks\<rparr> = sy"
    using assms(5) by simp
  obtain u where u: "sendDumpRequest E RTM_GETLINK sy = Inr u"
    "proto_of u = ask EnumeratingLinks RTM_GETLINK (proto_of sy)" "sys_inv u" "steady sy u" "m_socket_open u"
    using ask_stage [OF assms(2,4,3), of RTM_GETLINK EnumeratingLinks] unfolding same by blast
  obtain t d ds' where ds: "ds = (t, d) # ds'"
    using assms(6) by (cases ds) auto
  obtain n k where n: "fuel = Suc n" "n = Suc k" and len: "length ds' < n"
    using assms(8) ds by (cases fuel; cases "fuel - 1") auto
  let ?v = "u\<lparr>inbox := received_at ds' @ rest, clock := t\<rparr>"
  have "inbox u = Received t d # received_at ds' @ rest" and "d \<noteq> []"
    using u(4) assms(6,7) ds by (simp_all add: steady_def received_at_def Let_def)
  note r = recvfrom_datagram [OF u(3) this]
  have at: "position (proto_of u) = (EnumeratingLinks, next_seq (m_sequenceNumber sy))"
    by (simp add: u(2)) (simp add: position_def ask_def)
  have st: "m_cacheState u = EnumeratingLinks"
    using at by (simp add: position_def)
  have "\<exists>sy'. receive_loop E n (Some d) ?v = Returned sy' \<and> sys_inv sy' \<and> m_socket_open sy' \<and>
    inbox sy' = rest \<and> m_cacheState sy' = WaitingForChanges \<and>
    proto_of sy' = fold (plan_step E (m_runtimeOptions ?v) (m_portid ?v)) (d # map snd ds') (proto_of ?v)"
    using u(4,5) at assms(6) ds len
    by (intro receive_dump [OF assms(1,2) r(2)]) (simp_all only: r(3), simp_all add: steady_def)
  then obtain sy' where sy': "receive_loop E n (Some d) ?v = Returned sy'" "sys_inv sy'" "m_socket_open sy'"
    "inbox sy' = rest" "m_cacheState sy' = WaitingForChanges"
    "proto_of sy' = fold (plan_step E (m_runtimeOptions ?v) (m_portid ?v)) (d # map snd ds') (proto_of ?v)"
    by blast
  have "enumerate_loop E fuel u = Returned sy'"
    using n st u(5) r(1) sy'(1,5) by (simp add: receiveAndProcess_def)
  then show ?thesis
    using u sy' ds assms(5) r(3) by (auto simp: enumerateInterfaces_def steady_def)
qed

text \<open>And in terms of the requests and the meaning of the messages.\<close>

lemma enumeration_result:
  assumes "calm E" and "accepts E" and "sys_inv sy" and "m_socket_open sy"
    and "m_cacheState sy = EnumeratingLinks" and "s = next_seq (m_sequenceNumber sy)"
    and "completes E (m_portid sy) (EnumeratingLinks, s) (map snd ds)"
    and "inbox sy = received_at ds @ rest" and "length ds < fuel"
  shows "\<exists>sy'. enumerateInterfaces E fuel sy =
      Returned (map (\<lambda>(i, t). \<lparr>if_index = i, if_name = m_name t\<rparr>) (m_trackers sy'), sy') \<and>
    sys_inv sy' \<and> m_socket_open sy' \<and> m_cacheState sy' = WaitingForChanges \<and> inbox sy' = rest \<and>
    cache_of sy' = fold apply_change (messages_meaning E (m_runtimeOptions sy)
      (dump_messages E (m_portid sy) (EnumeratingLinks, s) (map snd ds))) (cache_of sy) \<and>
    requests (events sy') = requests (events sy) @
      [dump_request RTM_GETLINK s, dump_request RTM_GETADDR (next_seq s),
       dump_request RTM_GETROUTE (next_seq (next_seq s))]"
proof -
  obtain sy' where sy': "enumerateInterfaces E fuel sy = Returned (interfacesFromCache sy', sy')" "sys_inv sy'"
    "m_socket_open sy'" "inbox sy' = rest" "m_cacheState sy' = WaitingForChanges"
    and p: "proto_of sy' = fold (plan_step E (m_runtimeOptions sy) (m_portid sy)) (map snd ds)
      (ask EnumeratingLinks RTM_GETLINK (proto_of sy))"
    using enumerate_protocol [OF assms(1-5) assms(7) [unfolded assms(6)] assms(8,9)] by blast
  let ?p = "ask EnumeratingLinks RTM_GETLINK (proto_of sy)"
  have at: "position ?p = (EnumeratingLinks, s)"
    by (simp add: position_def ask_def assms(6))
  have "cache_of sy' = known (proto_of sy')" and "requests (events sy') = asked (proto_of sy')"
    by (simp_all add: proto_of_def)
  moreover have "known ?p = cache_of sy" and "asked ?p = requests (events sy) @ [dump_request RTM_GETLINK s]"
    by (simp_all add: ask_def proto_of_def assms(6))
  moreover have "map_wf (m_trackers sy')"
    using sy'(2) by (simp add: sys_inv_def trackers_inv_def)
  ultimately show ?thesis
    using sy' assms(7) unfolding p by (simp add: fold_known fold_asked at interfacesFromCache_spec)
qed

end
