(* ===== verification/Sample_World.thy ===== *)
theory Sample_World
  imports Enumeration
begin

unbundle bit_operations_syntax

text \<open>
  A concrete environment for the witnesses: the little-endian wire format of netlink messages, the
  walk \<open>mnl_cb_run\<close> makes over a datagram, and a small host with one Ethernet interface. The
  definitions of the program take any environment; this one shows that the hypotheses on it can hold.
\<close>

section \<open>Reading messages\<close>

definition le_field :: "nat \<Rightarrow> nat \<Rightarrow> u8 list \<Rightarrow> nat" where
  "le_field from_byte bytes buf = le_value (take bytes (drop from_byte buf))"

definition wire_message :: "u8 list \<Rightarrow> nlmsghdr" where
  "wire_message buf =
     \<lparr>nlmsg_type = word_of_nat (le_field 4 2 buf), nlmsg_flags = word_of_nat (le_field 6 2 buf),
      nlmsg_seq = word_of_nat (le_field 8 4 buf), nlmsg_pid = word_of_nat (le_field 12 4 buf),
      nlmsg_payload = drop 16 (take (le_field 0 4 buf) buf)\<rparr>"

text \<open>
  The walk over a datagram: port id, sequence number and an interrupted dump are checked first;
  types below 16 are control messages (3 ends a dump, 2 is an error or an acknowledgement).
\<close>

function wire_plan :: "u8 list \<Rightarrow> u32 \<Rightarrow> u32 \<Rightarrow> nlmsghdr list \<times> verdict" where
  "wire_plan buf seq portid =
     (let len = le_field 0 4 buf; n = wire_message buf; rest = drop (align4 len) buf in
      if length buf < 16 \<or> len < 16 \<or> length buf < len then ([], Plan_ok)
      else if nlmsg_pid n \<noteq> 0 \<and> portid \<noteq> 0 \<and> nlmsg_pid n \<noteq> portid then ([], Plan_error 3)
      else if nlmsg_seq n \<noteq> 0 \<and> seq \<noteq> 0 \<and> nlmsg_seq n \<noteq> seq then ([], Plan_error EPROTO)
      else if nlmsg_flags n AND 0x10 \<noteq> 0 then ([], Plan_error EINTR)
      else if nlmsg_type n = 3 then ([], Plan_stop)
      else if nlmsg_type n = 2
      then (let err = le_field 16 4 buf in
            if err = 0 then ([], Plan_stop) else ([], Plan_error (2 ^ 32 - int err)))
      else case wire_plan rest seq portid of (msgs, verdict) \<Rightarrow>
        (if nlmsg_type n < 16 then (msgs, verdict) else (n # msgs, verdict)))"
  by pat_completeness auto
termination
proof (relation "measure (\<lambda>(buf, _, _). length buf)")
  fix buf :: "u8 list" and seq portid :: u32 and len rest
  assume "len = le_field 0 4 buf" "rest = drop (align4 len) buf"
    and "\<not> (length buf < 16 \<or> len < 16 \<or> length buf < len)"
  then have "0 < align4 len" and "0 < length buf" and "rest = drop (align4 len) buf"
    using align4_ge [of len] by linarith+
  then show "((rest, seq, portid), buf, seq, portid) \<in> measure (\<lambda>(buf, _, _). length buf)"
    by simp
qed simp

declare wire_plan.simps [simp del]

definition wire_env :: environment where
  "wire_env =
     \<lparr>env_mnl = wire_mnl, cb_plan = wire_plan,
      get_ifinfo = (\<lambda>n. let p = nlmsg_payload n in
        \<lparr>ifi_type = word_of_nat (le_field 2 2 p), ifi_index = word_of_nat (le_field 4 4 p),
         ifi_flags = word_of_nat (le_field 8 4 p)\<rparr>),
      get_ifaddr = (\<lambda>n. let p = nlmsg_payload n in
        \<lparr>ifa_family = word_of_nat (le_field 0 1 p), ifa_prefixlen = word_of_nat (le_field 1 1 p),
         ifa_flags = word_of_nat (le_field 2 1 p), ifa_scope = word_of_nat (le_field 3 1 p),
         ifa_index = word_of_nat (le_field 4 4 p)\<rparr>),
      get_rtmsg = (\<lambda>n. let p = nlmsg_payload n in
        \<lparr>rtm_family = word_of_nat (le_field 0 1 p), rtm_flags = word_of_nat (le_field 8 4 p)\<rparr>),
      IFLA_MAX = 30, IFA_MAX = 11, RTA_MAX = 10,
      sendto = (\<lambda>_. 40), calls_stop = (\<lambda>_ _. False)\<rparr>"

lemma wire_env_calm: "calm wire_env" and wire_env_accepts: "accepts wire_env"
  and wire_env_laws: "mnl_attributes (env_mnl wire_env)"
  using wire.mnl_attributes_axioms
  by (simp_all add: calm_def never_stops_def accepts_def wire_env_def)

section \<open>A host with one interface\<close>

definition sample_os :: socket_api where
  "sample_os = \<lparr>socket_open2 = (\<lambda>_. True), socket_get_portid = 0, socket_bind = (\<lambda>_. 0)\<rparr>"

text \<open>Interface 2, \<open>eth0\<close>, up; its address 10.0.0.1/24; its default gateway 10.0.0.254.\<close>

definition link_datagram :: "u8 \<Rightarrow> u8 list" where
  "link_datagram seq =
     [64, 0, 0, 0, 16, 0, 2, 0, seq, 0, 0, 0, 0, 0, 0, 0,
      0, 0, 1, 0, 2, 0, 0, 0, 0x43, 0x10, 0, 0, 0, 0, 0, 0,
      9, 0, 3, 0, 101, 116, 104, 48, 0, 0, 0, 0,
      5, 0, 16, 0, 6, 0, 0, 0,
      10, 0, 1, 0, 2, 0, 0, 0, 0, 9, 0, 0]"

definition address_datagram :: "u8 \<Rightarrow> u8 list" where
  "address_datagram seq =
     [32, 0, 0, 0, 20, 0, 2, 0, seq, 0, 0, 0, 0, 0, 0, 0,
      2, 24, 0x80, 0, 2, 0, 0, 0,
      8, 0, 2, 0, 10, 0, 0, 1]"

definition route_datagram :: "u8 \<Rightarrow> u8 list" where
  "route_datagram seq =
     [44, 0, 0, 0, 24, 0, 2, 0, seq, 0, 0, 0, 0, 0, 0, 0,
      2, 0, 0, 0, 254, 3, 0, 1, 0, 0, 0, 0,
      8, 0, 4, 0, 2, 0, 0, 0,
      8, 0, 5, 0, 10, 0, 0, 254]"

definition done_datagram :: "u8 \<Rightarrow> u8 list" where
  "done_datagram seq = [20, 0, 0, 0, 3, 0, 2, 0, seq, 0, 0, 0, 0, 0, 0, 0, 0, 0, 0, 0]"

definition sample_dump :: "(int \<times> u8 list) list" where
  "sample_dump =
     [(1, link_datagram 1), (2, done_datagram 1), (3, address_datagram 2 @ done_datagram 2),
      (4, route_datagram 3), (5, done_datagram 3)]"

definition eth0 :: interface where
  "eth0 = \<lparr>if_index = 2, if_name = ''eth0''\<rparr>"

definition sample_start :: system where
  "sample_start =
     \<lparr>m_socket_open = True, m_sendBuffer = None, m_running = False, m_portid = 0,
      m_sequenceNumber = 0, m_trackers = [], m_cacheState = EnumeratingLinks,
      m_stats = statistics_zero 0, m_runtimeOptions = 0, m_subscribers = [],
      inbox = received_at sample_dump, clock = 0, events = []\<rparr>"

lemma sample_new: "monitor_new sample_os (received_at sample_dump) 0 0 = Inr sample_start"
  by (simp add: monitor_new_def fs_test_in_range monitor_groups_def sample_os_def sample_start_def)

lemma sample_reachable: "reachable E sample_start"
  using reachable.new [OF sample_new] .

lemma sample_inv: "sys_inv sample_start"
  using monitor_new_inv [OF sample_new] .

definition sample_messages :: "nlmsghdr list" where
  "sample_messages = dump_messages wire_env 0 (EnumeratingLinks, 1) (map snd sample_dump)"

lemma sample_completes: "completes wire_env 0 (EnumeratingLinks, 1) (map snd sample_dump)"
  by code_simp

lemma sample_types: "map nlmsg_type sample_messages = [RTM_NEWLINK, RTM_NEWADDR, RTM_NEWROUTE]"
  by code_simp

end
