(* ===== verification/Notification_Properties.thy ===== *)
theory Notification_Properties
  imports Sample_World
begin

text \<open>
  What subscribers are told: the properties of \<open>subscribe\<close>, \<open>unsubscribe\<close>,
  \<open>updateSubscription\<close> and the notification functions of \<open>NetworkMonitor\<close>, over any reachable
  state of the monitor.
\<close>

section \<open>The sample host with a subscriber\<close>

text \<open>Subscriber 7 of \<open>eth0\<close>, and the state after the first datagram of the dump.\<close>

definition sample_asked :: system where
  "sample_asked = sample_start\<lparr>m_subscribers := [(Some 7, [eth0])]\<rparr>"

lemma sample_subscribe: "subscribe E [eth0] (Some 7) sample_start = Inr sample_asked"
  by (simp add: subscribe_def notifyChanges_subscriber_def sample_start_def sample_asked_def)

lemma sample_asked_reachable: "reachable E sample_asked"
  by (rule reachable.subscribe [OF sample_reachable sample_subscribe])

lemma sample_asked_simps [simp]:
  "m_trackers sample_asked = []" "m_subscribers sample_asked = [(Some 7, [eth0])]"
  "events sample_asked = []" "m_socket_open sample_asked"
  by (simp_all add: sample_asked_def sample_start_def)

fun outcome_state :: "(bool \<times> system) outcome \<Rightarrow> (bool \<times> system) option" where
  "outcome_state (Returned x) = Some x"
| "outcome_state _ = None"

text \<open>What is looked at of the state after a datagram: the name and the changed flags of interface 2.\<close>

definition summary :: "bool \<times> system \<Rightarrow> bool \<times> (string \<times> OperationalState \<times> 7 word) option \<times> bool" where
  "summary x =
     (fst x, map_option (\<lambda>t. (m_name t, m_operationalState t, m_changedFlags t)) (map_find 2 (m_trackers (snd x))),
      map_of (m_subscribers (snd x)) (Some 7) = Some [eth0])"

lemma summary_calc:
  "map_option summary (outcome_state (process_datagram wire_env (link_datagram 0) sample_asked)) =
     Some (False, Some (''eth0'', Oper_Up, 0), True)"
  by code_simp


lemma sample_seen:
  obtains sy t where "process_datagram wire_env (link_datagram 0) sample_asked = Returned (False, sy)"
    and "reachable wire_env sy" and "map_find 2 (m_trackers sy) = Some t" and "m_name t = ''eth0''"
    and "m_operationalState t = Oper_Up" and "m_changedFlags t = 0" and "subscribed 7 2 (m_subscribers sy)"
proof -
  obtain x where x: "outcome_state (process_datagram wire_env (link_datagram 0) sample_asked) = Some x"
    "summary x = (False, Some (''eth0'', Oper_Up, 0), True)"
    using summary_calc by auto
  then have run: "process_datagram wire_env (link_datagram 0) sample_asked = Returned (False, snd x)"
    by (cases "process_datagram wire_env (link_datagram 0) sample_asked") (auto simp: summary_def prod_eq_iff)
  moreover have "reachable wire_env (snd x)"
    by (rule reachable.datagram [OF sample_asked_reachable run])
  ultimately show thesis
    using that x(2) by (auto simp: summary_def subscribed_def eth0_def)
qed

lemma unflagged: "m_changedFlags t = 0 \<Longrightarrow> \<not> changed g t"
  by (simp add: changed_def)

section \<open>Coherence\<close>

text \<open>
  (C1) In every reachable state, a subscriber that applies the notifications it has received to a
  table of its own holds the right value of every aspect (name, operational state, addresses,
  gateway, MAC and broadcast address, link flags) of every interface it subscribed to, unless the
  tracker of the interface flags that aspect as changed, in which case the next notification
  delivers it. No update of the cache is ever lost to a subscriber.
\<close>

theorem subscribers_informed:
  assumes "mnl_attributes (env_mnl E)" and "reachable E sy"
    and "map_find i (m_trackers sy) = Some t" and "subscribed k i (m_subscribers sy)"
    and "g \<noteq> Changed_FlagsCount" and "\<not> changed g t"
  shows "believes k (events sy) i g = aspect_of g t"
  using reachable_inv [OF assms(1,2)] assms(3-) by (auto simp: sys_inv_def coherent_def informed_def)

theorem subscribers_informed_witness:
  "\<exists>sy. reachable wire_env sy \<and> subscribed 7 2 (m_subscribers sy) \<and>
     believes 7 (events sy) 2 Changed_Name = Name_is ''eth0'' \<and>
     believes 7 (events sy) 2 Changed_OperationalState = OperationalState_is Oper_Up"
proof -
  obtain sy t where sy: "reachable wire_env sy" "map_find 2 (m_trackers sy) = Some t" "m_name t = ''eth0''"
    "m_operationalState t = Oper_Up" "m_changedFlags t = 0" "subscribed 7 2 (m_subscribers sy)"
    by (rule sample_seen)
  note b = subscribers_informed [OF wire_env_laws sy(1,2,6) _ unflagged [OF sy(5)]]
  from b [of Changed_Name] b [of Changed_OperationalState] sy show ?thesis
    by auto
qed

text \<open>What is heard of a round, in the order it is heard.\<close>

definition heard_in_round :: "nat \<Rightarrow> system \<Rightarrow> notification list" where
  "heard_in_round k sy = concat (map (\<lambda>(i, t).
     if subscribed k i (m_subscribers sy) then news False \<lparr>if_index = i, if_name = m_name t\<rparr> t else []) (m_trackers sy))"

lemma heard_round_calls:
  "subs_wf subs \<Longrightarrow> heard k (round_calls subs ts) = concat (map (\<lambda>(i, t).
     if subscribed k i subs then news False \<lparr>if_index = i, if_name = m_name t\<rparr> t else []) ts)"
  by (induction ts) (auto simp: round_calls_def fan_out_heard)

lemma notifyChanges_heard:
  assumes "sys_inv sy"
  obtains sy' where "notifyChanges E sy = Inr sy'" and "sys_inv sy'" and "notified_round E sy sy'"
    and "\<And>k. heard k (events sy') = heard k (events sy) @ heard_in_round k sy"
    and "m_subscribers sy' = m_subscribers sy"
proof -
  obtain sy' where 1: "notifyChanges E sy = Inr sy'" "notified_round E sy sy'" "sys_inv sy'" "same_control E sy sy'"
    using notifyChanges_inv [OF assms, of E] by (auto simp: returns_def)
  have "heard k (events sy') = heard k (events sy) @ heard_in_round k sy" for k
  proof (cases "m_subscribers sy = []")
    case True
    with 1(2) show ?thesis by (simp add: notified_round_def heard_in_round_def subscribed_def)
  next
    case False
    then have "quiet E (round_calls (m_subscribers sy) (m_trackers sy)) sy (sy'\<lparr>m_trackers := m_trackers sy\<rparr>)"
      using 1(2) by (simp add: notified_round_def)
    from quiet_fields(1) [OF this] assms show ?thesis
      by (simp add: heard_round_calls heard_in_round_def sys_inv_def)
  qed
  with 1 that show thesis by (simp add: same_control_def)
qed

lemma round_clears:
  assumes "notified_round E sy sy'" and "m_subscribers sy \<noteq> []" and "map_find i (m_trackers sy') = Some t'"
  shows "\<not> changed g t'"
  using assms map_find_all2(2) [of cleared "m_trackers sy" "m_trackers sy'" i t']
  by (auto simp: notified_round_def cleared_facts)

lemma datagram_ends_notified:
  assumes "mnl_attributes (env_mnl E)" and "sys_inv sy" and "process_datagram E buf sy = Returned (False, sy')"
  obtains v where "sys_inv v" and "notifyChanges E v = Inr sy'"
proof -
  obtain msgs verdict where plan: "plan_of E buf sy = (msgs, verdict)" by (cases "plan_of E buf sy")
  obtain ret errno u where u: "sys_inv u"
    "process_datagram E buf sy = out_bind (handleCallbackResult E ret errno u) (finish_datagram E)"
    by (rule process_datagram_cases [OF assms(1,2) plan]) (auto dest: effect_inv)
  then obtain d v where v: "handleCallbackResult E ret errno u = Returned (d, v)"
    "finish_datagram E (d, v) = Returned (False, sy')"
    using assms(3) by (cases "handleCallbackResult E ret errno u") auto
  then have "notifyChanges E v = Inr sy'"
    by (cases "notifyChanges E v") (auto simp: finish_datagram_def split: if_splits)
  moreover have "sys_inv v"
    using handleCallbackResult_flows [OF u(1), of E ret errno] v(1) flows_inv by auto
  ultimately show thesis using that by blast
qed

text \<open>
  (C4) After each datagram that does not end the receive loop, every subscriber is up to date: its
  table agrees with the monitor's cache in every aspect of every interface it subscribed to that
  the monitor knows, and no change is left pending.
\<close>

theorem datagram_synchronises:
  assumes "mnl_attributes (env_mnl E)" and "reachable E sy"
    and "process_datagram E buf sy = Returned (False, sy')"
  shows "\<forall>k i g t. subscribed k i (m_subscribers sy') \<and> map_find i (m_trackers sy') = Some t \<and> g \<noteq> Changed_FlagsCount \<longrightarrow>
    \<not> changed g t \<and> believes k (events sy') i g = aspect_of g t"
proof (intro allI impI)
  fix k i g t
  assume a: "subscribed k i (m_subscribers sy') \<and> map_find i (m_trackers sy') = Some t \<and> g \<noteq> Changed_FlagsCount"
  obtain v where v: "sys_inv v" "notifyChanges E v = Inr sy'"
    using datagram_ends_notified [OF assms(1) reachable_inv [OF assms(1,2)] assms(3)] .
  obtain u where u: "notifyChanges E v = Inr u" "notified_round E v u" "m_subscribers u = m_subscribers v" "sys_inv u"
    using notifyChanges_heard [OF v(1)] .
  have "m_subscribers v \<noteq> []"
    using a u v(2) by (auto simp: subscribed_def)
  then have "\<not> changed g t"
    using round_clears [OF u(2), of i t g] a u(1) v(2) by simp
  with a u(1,4) v(2) show "\<not> changed g t \<and> believes k (events sy') i g = aspect_of g t"
    by (auto simp: sys_inv_def coherent_def informed_def)
qed

theorem datagram_synchronises_witness:
  "\<exists>sy. process_datagram wire_env (link_datagram 0) sample_asked = Returned (False, sy) \<and>
     believes 7 (events sy) 2 Changed_Name = Name_is ''eth0''"
proof -
  obtain sy t where sy: "process_datagram wire_env (link_datagram 0) sample_asked = Returned (False, sy)"
    "map_find 2 (m_trackers sy) = Some t" "m_name t = ''eth0''" "subscribed 7 2 (m_subscribers sy)"
    by (rule sample_seen)
  from datagram_synchronises [OF wire_env_laws sample_asked_reachable sy(1)] sy(2,4)
  have "believes 7 (events sy) 2 Changed_Name = aspect_of Changed_Name t"
    by blast
  with sy show ?thesis by auto
qed

section \<open>One round of notifications\<close>

text \<open>The state after the callback for the link message, with everything still to be told.\<close>

definition sample_link :: nlmsghdr where
  "sample_link = wire_message (link_datagram 0)"

lemma sample_pending:
  obtains sy where "mnlMessageCallback wire_env sample_link sample_asked = Inr (MNL_CB_OK, sy)"
    and "sys_inv sy" and "m_subscribers sy = [(Some 7, [eth0])]"
    and "heard_in_round 7 sy =
      [Interface_name_changed eth0, Operational_state_changed eth0 Oper_Up,
       Mac_address_changed eth0 (Eth_Address [2, 0, 0, 0, 0, 9]), Link_flags_changed eth0 0x1043]"
proof -
  have inv: "sys_inv sample_asked"
    by (rule reachable_inv [OF wire_env_laws sample_asked_reachable])
  obtain sy where sy: "mnlMessageCallback wire_env sample_link sample_asked = Inr (MNL_CB_OK, sy)"
    "effect wire_env (meaning wire_env (m_runtimeOptions sample_asked) sample_link) sample_asked sy"
    using callback_effect [OF wire_env_laws inv, of sample_link] by (auto simp: returns_def)
  have "(case mnlMessageCallback wire_env sample_link sample_asked of Inr (_, sy) \<Rightarrow> heard_in_round 7 sy | Inl _ \<Rightarrow> []) =
      [Interface_name_changed eth0, Operational_state_changed eth0 Oper_Up,
       Mac_address_changed eth0 (Eth_Address [2, 0, 0, 0, 0, 9]), Link_flags_changed eth0 0x1043]"
    by code_simp
  with that sy show thesis
    by (auto simp: effect_def same_control_def)
qed

text \<open>
  (C7) One round of \<open>notifyChanges()\<close> calls each subscriber exactly once for each changed aspect of
  each interface it subscribed to, interface by interface in ascending order and in the fixed order
  of the aspects, and calls it for nothing else. Afterwards no tracker has a changed flag, and the
  cache is as before; without subscribers nothing happens at all, so the flags stay for later.
\<close>

theorem notifyChanges_exact:
  assumes "sys_inv sy"
  shows "\<exists>sy'. notifyChanges E sy = Inr sy' \<and>
    (\<forall>k. heard k (events sy') = heard k (events sy) @ concat (map (\<lambda>(i, t).
       if subscribed k i (m_subscribers sy) then news False \<lparr>if_index = i, if_name = m_name t\<rparr> t else [])
       (m_trackers sy))) \<and>
    cache_of sy' = cache_of sy \<and>
    (if m_subscribers sy = [] then sy' = sy
     else \<forall>i t g. map_find i (m_trackers sy') = Some t \<longrightarrow> \<not> changed g t)"
proof -
  obtain sy' where sy': "notifyChanges E sy = Inr sy'" "notified_round E sy sy'"
    "\<And>k. heard k (events sy') = heard k (events sy) @ heard_in_round k sy"
    using notifyChanges_heard [OF assms] by metis
  moreover have "\<not> changed g t" if "m_subscribers sy \<noteq> []" and "map_find i (m_trackers sy') = Some t" for i t g
    using round_clears [OF sy'(2) that] .
  ultimately show ?thesis
    using round_cache [OF sy'(2)] by (auto simp: heard_in_round_def notified_round_def)
qed

theorem notifyChanges_exact_witness:
  "\<exists>sy sy'. sys_inv sy \<and> notifyChanges wire_env sy = Inr sy' \<and> heard 7 (events sy') = heard 7 (events sy) @
     [Interface_name_changed eth0, Operational_state_changed eth0 Oper_Up,
      Mac_address_changed eth0 (Eth_Address [2, 0, 0, 0, 0, 9]), Link_flags_changed eth0 0x1043]"
proof -
  obtain sy where sy: "sys_inv sy" "heard_in_round 7 sy =
      [Interface_name_changed eth0, Operational_state_changed eth0 Oper_Up,
       Mac_address_changed eth0 (Eth_Address [2, 0, 0, 0, 0, 9]), Link_flags_changed eth0 0x1043]"
    by (rule sample_pending)
  with notifyChanges_exact [OF sy(1), of wire_env] show ?thesis
    by (auto simp: heard_in_round_def)
qed

text \<open>
  The iteration order of the unordered map of subscribers does not matter: two monitors that
  differ only in the order of their subscribers tell each subscriber the same notifications in the
  same order and keep the same cache.
\<close>

theorem subscriber_order_irrelevant:
  assumes "sys_inv sy" and "subs_wf subs" and "map_of subs = map_of (m_subscribers sy)"
  shows "\<exists>u v. notifyChanges E sy = Inr u \<and> notifyChanges E (sy\<lparr>m_subscribers := subs\<rparr>) = Inr v \<and>
    (\<forall>k. heard k (events u) = heard k (events v)) \<and> cache_of u = cache_of v"
proof -
  let ?sy = "sy\<lparr>m_subscribers := subs\<rparr>"
  have same: "subscribed k i subs = subscribed k i (m_subscribers sy)" for k i
    using assms(3) by (simp add: subscribed_def)
  have inv: "sys_inv ?sy"
    using assms(1,2) by (simp add: sys_inv_def coherent_def same)
  have "heard_in_round k ?sy = heard_in_round k sy" for k
    by (simp add: heard_in_round_def same)
  moreover have "cache_of ?sy = cache_of sy"
    by (simp add: cache_of_def)
  moreover obtain u where "notifyChanges E sy = Inr u" "notified_round E sy u"
      "\<And>k. heard k (events u) = heard k (events sy) @ heard_in_round k sy"
    using notifyChanges_heard [OF assms(1)] by metis
  moreover obtain v where "notifyChanges E ?sy = Inr v" "notified_round E ?sy v"
      "\<And>k. heard k (events v) = heard k (events ?sy) @ heard_in_round k ?sy"
    using notifyChanges_heard [OF inv] by metis
  ultimately show ?thesis
    using round_cache [of E sy u] round_cache [of E ?sy v] by simp
qed

theorem subscriber_order_irrelevant_witness:
  "\<exists>sy u v. sys_inv sy \<and> notifyChanges wire_env (sy\<lparr>m_subscribers := [(Some 7, [eth0]), (Some 3, [eth0])]\<rparr>) = Inr u \<and>
     notifyChanges wire_env (sy\<lparr>m_subscribers := [(Some 3, [eth0]), (Some 7, [eth0])]\<rparr>) = Inr v \<and>
     heard 3 (events u) = heard 3 (events v)"
proof -
  let ?sy = "sample_start\<lparr>m_subscribers := [(Some 7, [eth0]), (Some 3, [eth0])]\<rparr>"
  have inv: "sys_inv ?sy"
    by (simp add: sys_inv_def coherent_def trackers_inv_def map_wf_def subs_wf_def sample_start_def)
  have "subs_wf [(Some 3, [eth0]), (Some 7, [eth0])]"
    and "map_of [(Some 3, [eth0]), (Some 7, [eth0])] = map_of (m_subscribers ?sy)"
    by (auto simp: subs_wf_def)
  from subscriber_order_irrelevant [OF inv this, of wire_env] sample_inv show ?thesis
    by auto
qed

section \<open>Subscriptions\<close>

lemma heard_briefing_other: "j \<noteq> k \<Longrightarrow> heard j (briefing k intfs ts) = []"
  by (induction ts) (auto simp: briefing_def)

text \<open>
  (C10) \<open>subscribe\<close> with a non-empty set of interfaces stores or replaces the subscriber's
  interfaces and at once tells it everything: afterwards the subscriber holds the right value of
  every aspect of every interface of the set that the monitor knows, pending changes included. No
  other subscriber is called, and the cache does not change.
\<close>

theorem subscribe_briefs:
  assumes "sys_inv sy" and "intfs \<noteq> []"
  shows "\<exists>sy'. subscribe E intfs (Some k) sy = Inr sy' \<and> sys_inv sy' \<and> m_trackers sy' = m_trackers sy \<and>
    map_of (m_subscribers sy') = (map_of (m_subscribers sy))(Some k \<mapsto> intfs) \<and>
    (\<forall>i t g. i \<in> if_index ` set intfs \<and> map_find i (m_trackers sy) = Some t \<and> g \<noteq> Changed_FlagsCount \<longrightarrow>
       believes k (events sy') i g = aspect_of g t) \<and>
    (\<forall>j. j \<noteq> k \<longrightarrow> heard j (events sy') = heard j (events sy))"
proof -
  obtain sy' where sy': "subscribe E intfs (Some k) sy = Inr sy'" "briefed E k intfs sy sy'"
    using subscribe_ok [OF assms(2), of E k sy] by (auto simp: returns_def)
  note f = quiet_fields [OF sy'(2) [unfolded briefed_def]]
  have dist: "distinct (map fst (m_trackers sy))"
    using assms(1) by (simp add: sys_inv_def trackers_inv_def map_wf_def ordered_by_distinct)
  have "believes k (events sy') i g = aspect_of g t"
    if "i \<in> if_index ` set intfs" and "map_find i (m_trackers sy) = Some t" and "g \<noteq> Changed_FlagsCount" for i t g
    using that f learn_news [of "\<lparr>if_index = i, if_name = m_name t\<rparr>" t True]
    by (simp add: believes_append briefing_heard [OF dist] map_find_map_of)
  with sy' f briefed_inv [OF assms(1) sy'(2)] show ?thesis
    by (simp add: map_of_subs_put heard_briefing_other)
qed

text \<open>The sample host after the first datagram, where nobody is subscribed to \<open>eth0\<close> but 7.\<close>

theorem subscribe_briefs_witness:
  "\<exists>sy sy'. sys_inv sy \<and> subscribe wire_env [eth0] (Some 4) sy = Inr sy' \<and>
     believes 4 (events sy') 2 Changed_OperationalState = OperationalState_is Oper_Up"
proof -
  obtain sy t where sy: "reachable wire_env sy" "map_find 2 (m_trackers sy) = Some t" "m_operationalState t = Oper_Up"
    by (rule sample_seen)
  note inv = reachable_inv [OF wire_env_laws sy(1)]
  have "(2::u32) \<in> if_index ` set [eth0]" by (simp add: eth0_def)
  with subscribe_briefs [OF inv, of "[eth0]" wire_env 4] sy inv show ?thesis
    by fastforce
qed

lemma heard_in_round_none: "map_of (m_subscribers sy) (Some k) = None \<Longrightarrow> heard_in_round k sy = []"
  by (auto simp: heard_in_round_def subscribed_def)

text \<open>
  Once \<open>unsubscribe\<close> has returned, a round of notifications makes no call to the subscriber, and
  every other subscriber hears what it would have heard anyway.
\<close>

theorem unsubscribe_silences:
  assumes "sys_inv sy"
  shows "\<exists>u v. notifyChanges E (unsubscribe (Some k) sy) = Inr u \<and> notifyChanges E sy = Inr v \<and>
    heard k (events u) = heard k (events sy) \<and> (\<forall>j. j \<noteq> k \<longrightarrow> heard j (events u) = heard j (events v))"
proof -
  let ?sy = "unsubscribe (Some k) sy"
  have subs: "map_of (m_subscribers ?sy) = (map_of (m_subscribers sy))(Some k := None)"
    "m_trackers ?sy = m_trackers sy" "events ?sy = events sy"
    using subs_erase_spec [of "m_subscribers sy" "Some k"] assms
    by (auto simp: unsubscribe_def sys_inv_def fun_eq_iff)
  have "heard_in_round j ?sy = heard_in_round j sy" if "j \<noteq> k" for j
    using that subs by (simp add: heard_in_round_def subscribed_def)
  moreover have "heard_in_round k ?sy = []"
    using subs by (simp add: heard_in_round_none)
  moreover obtain v where "notifyChanges E sy = Inr v"
      "\<And>k. heard k (events v) = heard k (events sy) @ heard_in_round k sy"
    using notifyChanges_heard [OF assms] by metis
  moreover obtain u where "notifyChanges E ?sy = Inr u"
      "\<And>j. heard j (events u) = heard j (events ?sy) @ heard_in_round j ?sy"
    using notifyChanges_heard [OF unsubscribe_inv [OF assms]] by metis
  ultimately show ?thesis
    using subs by simp
qed

theorem unsubscribe_silences_witness:
  "\<exists>sy u. sys_inv sy \<and> heard_in_round 7 sy \<noteq> [] \<and> notifyChanges wire_env (unsubscribe (Some 7) sy) = Inr u \<and>
     heard 7 (events u) = heard 7 (events sy)"
proof -
  obtain sy where sy: "sys_inv sy" "heard_in_round 7 sy =
      [Interface_name_changed eth0, Operational_state_changed eth0 Oper_Up,
       Mac_address_changed eth0 (Eth_Address [2, 0, 0, 0, 0, 9]), Link_flags_changed eth0 0x1043]"
    by (rule sample_pending)
  with unsubscribe_silences [OF sy(1), of wire_env 7] show ?thesis
    by auto
qed

text \<open>
  (C11) \<open>updateSubscription\<close> never adds a subscriber: for one that is not subscribed it does nothing.
  For one that is, an empty set unsubscribes it, and any other set replaces its interfaces and
  briefs it on them. The interfaces of the other subscribers stay, and they are not called.
\<close>

theorem updateSubscription_spec:
  assumes "sys_inv sy"
  shows "\<exists>sy'. updateSubscription E intfs (Some k) sy = Inr sy' \<and> sys_inv sy' \<and> m_trackers sy' = m_trackers sy \<and>
    map_of (m_subscribers sy') =
      (if map_of (m_subscribers sy) (Some k) = None then map_of (m_subscribers sy)
       else (map_of (m_subscribers sy))(Some k := if intfs = [] then None else Some intfs)) \<and>
    events sy' = events sy @
      (if map_of (m_subscribers sy) (Some k) = None then [] else briefing k intfs (m_trackers sy))"
proof (cases "map_of (m_subscribers sy) (Some k) = None \<or> intfs = []")
  case True
  have "briefing k [] ts = []" for ts
    by (induction ts) (auto simp: briefing_def)
  with True show ?thesis
    using assms unsubscribe_inv [OF assms, of "Some k"] subs_erase_spec [of "m_subscribers sy" "Some k"]
    by (auto simp: updateSubscription_def unsubscribe_def sys_inv_def)
next
  case False
  then obtain sy' where sy': "updateSubscription E intfs (Some k) sy = Inr sy'" "briefed E k intfs sy sy'"
    using subscribe_ok [of intfs E k sy] by (auto simp: updateSubscription_def subscribe_def returns_def)
  note f = quiet_fields [OF sy'(2) [unfolded briefed_def]]
  from False sy' f briefed_inv [OF assms sy'(2)] show ?thesis
    by (auto simp: map_of_subs_put)
qed

theorem updateSubscription_spec_witness:
  "\<exists>sy'. updateSubscription wire_env [] (Some 7) sample_asked = Inr sy' \<and>
     map_of (m_subscribers sy') (Some 7) = None \<and> events sy' = []"
proof -
  have "sys_inv sample_asked"
    by (rule reachable_inv [OF wire_env_laws sample_asked_reachable])
  from updateSubscription_spec [OF this, of wire_env "[]" 7] show ?thesis
    by (auto simp: briefing_def)
qed

lemma notify_each_null: "None \<in> fst ` set subs \<Longrightarrow> notify_each E subs n sy = Inl Null_deref"
proof (induction subs arbitrary: sy)
  case (Cons x subs)
  obtain s intfs where x: "x = (s, intfs)" by (cases x)
  show ?case
  proof (cases s)
    case None
    with x show ?thesis by (simp add: call_subscriber_def)
  next
    case (Some k)
    with Cons x show ?thesis
      using call_ok [of E k n sy] by auto
  qed
qed simp

text \<open>
  (C17) \<open>subscribe\<close> does not check its pointer, although \<open>unsubscribe\<close>, \<open>updateSubscription\<close> and the
  briefing do: a null subscriber is stored without an error, and the next interface that appears or
  vanishes dereferences the null pointer, whatever other subscribers there are.
\<close>

theorem subscribe_accepts_null:
  assumes "intfs \<noteq> []"
  shows "\<exists>sy'. subscribe E intfs None sy = Inr sy' \<and> notifyInterfaceAdded E intf sy' = Inl Null_deref \<and>
    notifyInterfaceRemoved E intf sy' = Inl Null_deref"
  using assms keys_subs_put [of None intfs "m_subscribers sy"] notify_each_null
  by (simp add: subscribe_def notifyChanges_subscriber_def notifyInterfaceAdded_def notifyInterfaceRemoved_def)

theorem subscribe_accepts_null_witness:
  "\<exists>sy'. subscribe wire_env [eth0] None sample_asked = Inr sy' \<and> notifyInterfaceAdded wire_env eth0 sy' = Inl Null_deref"
proof -
  have "[eth0] \<noteq> []" by simp
  from subscribe_accepts_null [OF this, of wire_env sample_asked eth0] show ?thesis by blast
qed

end
