(* ===== verification/Message_Properties.thy ===== *)
theory Message_Properties
  imports Sample_World
begin

text \<open>
  The properties of the message handlers of \<open>NetworkMonitor\<close>: what a netlink message does to the
  cache and what subscribers hear of interfaces that come and go.
\<close>

section \<open>Messages and the cache\<close>

text \<open>
  (C2) On an open socket the message callback always returns \<open>MNL_CB_OK\<close>: no message, whatever
  attributes it holds, makes it throw or dereference an interface that is not there. It keeps the
  invariant, sends nothing and changes no subscription, and its effect on the cache is the meaning of
  the message, which reads it as a list of changes under the monitor's options. (The fixed headers
  and the texts of attributes are read by total functions of the environment: that they end inside the
  message is not part of the statement.)
\<close>

theorem callback_refines_meaning:
  assumes "mnl_attributes (env_mnl E)" and "sys_inv sy" and "m_socket_open sy"
  shows "\<exists>sy'. mnlMessageCallback E n sy = Inr (MNL_CB_OK, sy') \<and> sys_inv sy' \<and>
    cache_of sy' = fold apply_change (meaning E (m_runtimeOptions sy) n) (cache_of sy) \<and>
    m_subscribers sy' = m_subscribers sy \<and> requests (events sy') = requests (events sy)"
  using callback_effect [OF assms, of n] by (auto simp: returns_def effect_def same_control_def)

lemma sample_meaning: "meaning wire_env 0 (sample_messages ! 0) =
    [Appear 2, Change 2 (Op_setName ''eth0''), Change 2 (Op_updateLinkFlags 0x1043),
     Change 2 (Op_setOperationalState Oper_Up), Change 2 (Op_setMacAddress (Eth_Address [2, 0, 0, 0, 0, 9]))]"
  by code_simp

theorem callback_refines_meaning_witness:
  "\<exists>sy v. mnlMessageCallback wire_env (sample_messages ! 0) sample_start = Inr (MNL_CB_OK, sy) \<and>
     cache_of sy 2 = Some v \<and> lv_name v = ''eth0''"
proof -
  have "m_socket_open sample_start" and "m_runtimeOptions sample_start = 0" and "cache_of sample_start = Map.empty"
    by (simp_all add: sample_start_def cache_of_def)
  with callback_refines_meaning [OF wire_env_laws sample_inv, of "sample_messages ! 0"] show ?thesis
    by (auto simp: sample_meaning)
qed

section \<open>Interfaces that appear and vanish\<close>

text \<open>
  \<open>ensureNameCurrent\<close> announces an interface exactly when it has just created its tracker: one
  \<open>onInterfaceAdded\<close> call to each subscriber, in their order, whatever interfaces they subscribed
  to, with the name of the message or the empty name. For a known interface it calls nobody and
  only brings the name up to date.
\<close>

theorem ensureNameCurrent_announces:
  assumes "sys_inv sy"
  shows "\<exists>sy'. ensureNameCurrent E i name sy = Inr sy' \<and> sys_inv sy' \<and>
    cache_of sy' = fold apply_change (Appear i # rename_op i name) (cache_of sy) \<and>
    events sy' = events sy @
      (if cache_of sy i = None
       then map (\<lambda>(s, _). Notified (the s)
         (Interface_added \<lparr>if_index = i, if_name = (case name of None \<Rightarrow> [] | Some n \<Rightarrow> n)\<rparr>)) (m_subscribers sy)
       else [])"
  using ensureNameCurrent_effect [OF assms, of E i name]
  by (auto simp: returns_def effect_def added_calls_def to_all_def)

definition sample_listener :: system where
  "sample_listener = sample_start\<lparr>m_subscribers := [(Some 7, [eth0])]\<rparr>"

lemma sample_listener_inv: "sys_inv sample_listener"
  using sample_inv by (simp add: sample_listener_def sys_inv_def coherent_def subs_wf_def sample_start_def)

theorem ensureNameCurrent_announces_witness:
  "\<exists>sy'. ensureNameCurrent wire_env 9 (Some ''lo'') sample_listener = Inr sy' \<and>
     events sy' = [Notified 7 (Interface_added \<lparr>if_index = 9, if_name = ''lo''\<rparr>)]"
proof -
  have "cache_of sample_listener 9 = None" and "events sample_listener = []"
    and "m_subscribers sample_listener = [(Some 7, [eth0])]"
    by (simp_all add: sample_listener_def sample_start_def cache_of_def)
  with ensureNameCurrent_announces [OF sample_listener_inv, of wire_env 9 "Some ''lo''"] show ?thesis
    by auto
qed

text \<open>Parsing attributes changes two counters only.\<close>

lemma parse_attributes_stats:
  assumes "mnl_attributes (env_mnl E)"
  obtains st where "parse_attributes E n offset maxType sy =
    Inr (attributes_of (env_mnl E) n offset maxType, sy\<lparr>m_stats := st\<rparr>)"
    and "msgsDiscarded st = msgsDiscarded (m_stats sy)"
proof -
  obtain s u where "Attributes_parse (env_mnl E) n offset maxType (seenAttributes (m_stats sy))
      (unknownAttributes (m_stats sy)) = Inr (attributes_of (env_mnl E) n offset maxType, s, u)"
    using mnl_attributes.parse_attributes_of [OF assms] by blast
  with that show thesis by (simp add: parse_attributes_def)
qed

text \<open>The interfaces a monitor minds: Ethernet and wireless ones, all with the option \<open>IncludeNonIeee802\<close>.\<close>

definition minded :: "system \<Rightarrow> ifinfomsg \<Rightarrow> bool" where
  "minded sy ifi \<longleftrightarrow> ifi_type ifi \<in> {ARPHRD_ETHER, ARPHRD_IEEE80211} \<or>
     bit (m_runtimeOptions sy) (RuntimeFlag_underlying RFlag_IncludeNonIeee802)"

text \<open>
  (C16) A link message that deletes an interface the monitor minds forgets all it knows of
  it, and each subscriber is told so exactly once, even if the monitor never knew the interface. The
  name told is that of the message, or \<open>unknown\<close> when it has none. A message about another interface
  (not Ethernet or wireless, without \<open>IncludeNonIeee802\<close>) is counted as discarded, forgets nothing and
  is told to nobody.
\<close>

theorem deleted_link_is_forgotten:
  assumes "mnl_attributes (env_mnl E)" and "sys_inv sy" and "nlmsg_type n = RTM_DELLINK"
  shows "\<exists>sy'. parseLinkMessage E n ifi sy = Inr sy' \<and> sys_inv sy' \<and>
    (if minded sy ifi
     then cache_of sy' = (cache_of sy)(ifi_index ifi := None) \<and>
       events sy' = events sy @ map (\<lambda>(s, _). Notified (the s)
         (Interface_removed \<lparr>if_index = ifi_index ifi, if_name =
           (case getString (env_mnl E) (attributes_of (env_mnl E) n sizeof_ifinfomsg (IFLA_MAX E)) IFLA_IFNAME of
              None \<Rightarrow> ''unknown'' | Some name \<Rightarrow> name)\<rparr>)) (m_subscribers sy)
     else m_trackers sy' = m_trackers sy \<and> events sy' = events sy \<and>
       msgsDiscarded (m_stats sy') = msgsDiscarded (m_stats sy) + 1)"
proof -
  let ?as = "attributes_of (env_mnl E) n sizeof_ifinfomsg (IFLA_MAX E)"
  let ?name = "case getString (env_mnl E) ?as IFLA_IFNAME of None \<Rightarrow> ''unknown'' | Some name \<Rightarrow> name"
  obtain st where parsed: "parse_attributes E n sizeof_ifinfomsg (IFLA_MAX E) (count_stat linkMessagesSeen_update sy) =
      Inr (?as, (count_stat linkMessagesSeen_update sy)\<lparr>m_stats := st\<rparr>)"
    and st: "msgsDiscarded st = msgsDiscarded (m_stats sy)"
    using parse_attributes_stats [OF assms(1), of n sizeof_ifinfomsg "IFLA_MAX E" "count_stat linkMessagesSeen_update sy"]
    by (auto simp: count_stat_def)
  from parsed have pa: "parse_attributes E n sizeof_ifinfomsg (IFLA_MAX E) (count_stat linkMessagesSeen_update sy) =
      Inr (?as, sy\<lparr>m_stats := st\<rparr>)"
    by (simp add: count_stat_def)
  have "effect E [] sy (sy\<lparr>m_stats := st\<rparr>)"
    by (rule effect_stats [OF assms(2)])
  note inv = effect_inv [OF this]
  obtain sy' where sy': "notifyInterfaceRemoved E \<lparr>if_index = ifi_index ifi, if_name = ?name\<rparr>
      (sy\<lparr>m_stats := st, m_trackers := map_erase (ifi_index ifi) (m_trackers sy)\<rparr>) = Inr sy'"
    "effect E [Vanish (ifi_index ifi)] (sy\<lparr>m_stats := st\<rparr>) sy'"
    "events sy' = events sy @ to_all (m_subscribers sy) (Interface_removed \<lparr>if_index = ifi_index ifi, if_name = ?name\<rparr>)"
    using removed_effect [OF inv, of E "ifi_index ifi" ?name] by (auto simp: returns_def)
  show ?thesis
  proof (cases "minded sy ifi")
    case True
    then have "parseLinkMessage E n ifi sy = Inr sy'"
      using pa sy'(1) assms(3) by (auto simp: parseLinkMessage_def Let_def test_option_ok minded_def)
    with True sy'(2,3) show ?thesis
      by (auto simp: effect_def to_all_def cache_of_def)
  next
    case False
    then have "parseLinkMessage E n ifi sy = Inr (discard (sy\<lparr>m_stats := st\<rparr>))"
      using pa by (auto simp: parseLinkMessage_def Let_def test_option_ok minded_def)
    moreover have "sys_inv (discard (sy\<lparr>m_stats := st\<rparr>))"
      using assms(2) by (simp add: discard_def count_stat_def)
    ultimately show ?thesis
      using False st by (simp add: discard_def count_stat_def)
  qed
qed

definition sample_gone :: nlmsghdr where
  "sample_gone = (sample_messages ! 0)\<lparr>nlmsg_type := RTM_DELLINK\<rparr>"

lemma sample_gone_name: "getString (env_mnl wire_env)
    (attributes_of (env_mnl wire_env) sample_gone sizeof_ifinfomsg (IFLA_MAX wire_env)) IFLA_IFNAME = Some ''eth0''"
  by code_simp

lemma sample_gone_ifinfo: "ifi_type (get_ifinfo wire_env sample_gone) = ARPHRD_ETHER"
    "ifi_index (get_ifinfo wire_env sample_gone) = 2"
  by code_simp+

lemma sample_gone_minded: "minded sample_listener (get_ifinfo wire_env sample_gone)"
  by (simp add: minded_def sample_gone_ifinfo)

text \<open>The same message about a tunnel (\<open>ARPHRD_TUNNEL\<close>, 768).\<close>

definition sample_tunnel :: ifinfomsg where
  "sample_tunnel = (get_ifinfo wire_env sample_gone)\<lparr>ifi_type := 768\<rparr>"

lemma sample_tunnel_unminded: "\<not> minded sample_listener sample_tunnel"
  by (simp add: minded_def sample_tunnel_def sample_listener_def sample_start_def ARPHRD_ETHER_def ARPHRD_IEEE80211_def)

theorem deleted_link_is_forgotten_witness:
  "(\<exists>sy'. parseLinkMessage wire_env sample_gone (get_ifinfo wire_env sample_gone) sample_listener = Inr sy' \<and>
     events sy' = [Notified 7 (Interface_removed eth0)]) \<and>
   (\<exists>sy'. parseLinkMessage wire_env sample_gone sample_tunnel sample_listener = Inr sy' \<and>
     m_trackers sy' = m_trackers sample_listener \<and> events sy' = [])"
proof -
  have "nlmsg_type sample_gone = RTM_DELLINK" by (simp add: sample_gone_def)
  note f = deleted_link_is_forgotten [OF wire_env_laws sample_listener_inv this]
  have "\<exists>sy'. parseLinkMessage wire_env sample_gone (get_ifinfo wire_env sample_gone) sample_listener = Inr sy' \<and>
     events sy' = [Notified 7 (Interface_removed eth0)]"
    using f [of "get_ifinfo wire_env sample_gone"] sample_gone_minded
    by (auto simp: sample_gone_ifinfo sample_gone_name sample_listener_def sample_start_def eth0_def)
  moreover have "\<exists>sy'. parseLinkMessage wire_env sample_gone sample_tunnel sample_listener = Inr sy' \<and>
     m_trackers sy' = m_trackers sample_listener \<and> events sy' = []"
    using f [of sample_tunnel] sample_tunnel_unminded
    by (auto simp: sample_listener_def sample_start_def)
  ultimately show ?thesis ..
qed

lemma dom_changes: "dom (fold apply_change chs c) \<subseteq> dom c \<union> {i. Appear i \<in> set chs}"
proof (induction chs arbitrary: c)
  case (Cons ch chs)
  have "dom (apply_change ch c) \<subseteq> dom c \<union> {i. ch = Appear i}"
    by (cases ch) (auto split: if_splits)
  with Cons [of "apply_change ch c"] show ?case by auto
qed simp

lemma opt_change_appear [simp]: "(\<And>x. mk i x \<noteq> Appear j) \<Longrightarrow> Appear j \<notin> set (opt_change v mk i)"
  by (cases v) (simp_all add: opt_change_def, metis)

lemma rename_appear [simp]: "Appear j \<notin> set (rename_op i v)"
  by (auto simp: rename_op_def split: option.splits)

lemma meaning_appear: "Appear i \<in> set (meaning E options n) \<Longrightarrow>
    nlmsg_type n = RTM_NEWLINK \<and> i = ifi_index (get_ifinfo E n)"
  by (auto simp: meaning_def link_meaning_def address_meaning_def route_meaning_def Let_def RTM_defs
      split: if_splits option.splits)

text \<open>
  Only a link message about a new or changed link gives an interface an entry in the cache, and
  only the interface it is about: address and route messages for unknown interfaces leave no trace.
  So every entry of the cache has its link flags from a link message of its own.
\<close>

theorem only_links_create_entries:
  assumes "mnl_attributes (env_mnl E)" and "sys_inv sy" and "mnlMessageCallback E n sy = Inr (ret, sy')"
    and "i \<in> dom (cache_of sy') - dom (cache_of sy)"
  shows "nlmsg_type n = RTM_NEWLINK \<and> i = ifi_index (get_ifinfo E n)"
proof (cases "m_socket_open sy")
  case True
  from callback_effect [OF assms(1,2) True, of n] assms(3)
  have "cache_of sy' = fold apply_change (meaning E (m_runtimeOptions sy) n) (cache_of sy)"
    by (simp add: effect_def)
  with dom_changes [of "meaning E (m_runtimeOptions sy) n" "cache_of sy"] assms(4)
  show ?thesis by (auto dest: meaning_appear)
next
  case False
  with assms(3,4) show ?thesis by (simp add: mnlMessageCallback_def)
qed

theorem only_links_create_entries_witness:
  "\<exists>sy'. mnlMessageCallback wire_env (sample_messages ! 0) sample_start = Inr (MNL_CB_OK, sy') \<and>
     2 \<in> dom (cache_of sy') \<and> nlmsg_type (sample_messages ! 0) = RTM_NEWLINK"
proof -
  have o: "m_socket_open sample_start" and c: "m_runtimeOptions sample_start = 0" "cache_of sample_start = Map.empty"
    by (simp_all add: sample_start_def cache_of_def)
  obtain sy' where sy': "mnlMessageCallback wire_env (sample_messages ! 0) sample_start = Inr (MNL_CB_OK, sy')"
    "cache_of sy' = fold apply_change (meaning wire_env 0 (sample_messages ! 0)) Map.empty"
    using callback_effect [OF wire_env_laws sample_inv o, of "sample_messages ! 0"] c
    by (auto simp: returns_def effect_def)
  then have "2 \<in> dom (cache_of sy')"
    by (auto simp: sample_meaning)
  with only_links_create_entries [OF wire_env_laws sample_inv sy'(1), of 2] sy'(1) c show ?thesis
    by simp
qed

end
