(* ===== verification/Protocol_Properties.thy ===== *)
theory Protocol_Properties
  imports Sample_World
begin

unbundle bit_operations_syntax

text \<open>
  The properties of the control flow of \<open>NetworkMonitor\<close>: enumeration, the receive loop, retries,
  sequence numbers, multicast groups and \<open>stop()\<close>.
\<close>

section \<open>Enumeration\<close>

text \<open>
  (C3) \<open>enumerateInterfaces\<close> on a fresh monitor asks the kernel for links, addresses and routes, in this
  order and with consecutive non-zero sequence numbers, each as soon as the dump before it has
  ended; when the third dump has ended it returns, with the cache holding the meaning of all messages of
  the three dumps in their order, the interfaces of the cache as its result, and every datagram
  behind the last dump still unread.
\<close>

theorem enumeration_completes:
  assumes "calm E" and "accepts E" and "sys_inv sy" and "m_socket_open sy"
    and "m_cacheState sy = EnumeratingLinks" and "s = next_seq (m_sequenceNumber sy)"
    and "completes E (m_portid sy) (EnumeratingLinks, s) (map snd ds)"
    and "inbox sy = received_at ds @ rest" and "length ds < fuel"
  shows "\<exists>sy'. enumerateInterfaces E fuel sy =
      Returned (map (\<lambda>(i, t). \<lparr>if_index = i, if_name = m_name t\<rparr>) (m_trackers sy'), sy') \<and>
    sys_inv sy' \<and> m_cacheState sy' = WaitingForChanges \<and> inbox sy' = rest \<and>
    cache_of sy' = fold apply_change (messages_meaning E (m_runtimeOptions sy)
      (dump_messages E (m_portid sy) (EnumeratingLinks, s) (map snd ds))) (cache_of sy) \<and>
    requests (events sy') = requests (events sy) @
      [dump_request RTM_GETLINK s, dump_request RTM_GETADDR (next_seq s),
       dump_request RTM_GETROUTE (next_seq (next_seq s))]"
  using enumeration_result [OF assms] by blast

lemma sample_start_simps:
  "m_socket_open sample_start" "m_cacheState sample_start = EnumeratingLinks" "m_sequenceNumber sample_start = 0"
  "m_portid sample_start = 0" "m_runtimeOptions sample_start = 0" "inbox sample_start = received_at sample_dump"
  "events sample_start = []" "cache_of sample_start = Map.empty" "length sample_dump = 5" "m_sendBuffer sample_start = None"
  by (simp_all add: sample_start_def cache_of_def sample_dump_def)

theorem enumeration_completes_witness:
  "\<exists>intfs sy'. enumerateInterfaces wire_env 6 sample_start = Returned (intfs, sy') \<and>
     requests (events sy') = [dump_request RTM_GETLINK 1, dump_request RTM_GETADDR 2, dump_request RTM_GETROUTE 3]"
proof -
  have s: "1 = next_seq (m_sequenceNumber sample_start)"
    by (simp add: next_seq_def sample_start_simps)
  have "completes wire_env (m_portid sample_start) (EnumeratingLinks, 1) (map snd sample_dump)"
    by (simp add: sample_start_simps sample_completes)
  moreover have "inbox sample_start = received_at sample_dump @ []" and "length sample_dump < 6"
    by (simp_all add: sample_start_simps)
  ultimately show ?thesis
    using enumeration_completes [OF wire_env_calm wire_env_accepts sample_inv sample_start_simps(1,2) s]
    by (fastforce simp: sample_start_simps next_seq_def)
qed

section \<open>Runs\<close>

text \<open>
  (C8) Unless a subscriber stops the monitor from a callback, \<open>run\<close> never returns. On the socket
  that blocks, which is the default, it gets on any finite input to the point where it waits in \<open>recvfrom\<close>
  with everything read, or it ends in an abort; as many iterations as there are receptions, and one more,
  are enough. With \<open>NonBlocking\<close> it never waits: no number of iterations is enough, it spins unless
  it aborts. No other failure is possible in either mode.
\<close>

theorem run_waits_or_aborts:
  assumes "calm E" and "reachable E sy" and "m_socket_open sy"
  shows "if non_blocking sy
    then run E fuel sy = Out_of_fuel \<or> (\<exists>msg. run E fuel sy = Failed (Abort msg))
    else length (inbox sy) < fuel \<longrightarrow>
      (\<exists>v. run E fuel sy = Blocked v \<and> inbox v = [] \<and> sys_inv v) \<or> (\<exists>msg. run E fuel sy = Failed (Abort msg))"
proof -
  have mnl: "mnl_attributes (env_mnl E)" using assms(1) by (simp add: calm_def)
  have "settles (enough sy fuel) (m_runtimeOptions sy) (\<lambda>_. False) (run E fuel sy)"
    by (rule run_settles [OF assms(1) reachable_inv [OF mnl assms(2)] assms(3)]) simp
  with run_reachable [OF mnl assms(2), of fuel] show ?thesis
    by (cases "run E fuel sy") (auto simp: enough_def non_blocking_def)
qed

text \<open>Runs of the sample host, evaluated.\<close>

fun blocked_state :: "'a outcome \<Rightarrow> system option" where
  "blocked_state (Blocked sy) = Some sy"
| "blocked_state _ = None"

lemma sample_run_calc:
  "map_option (\<lambda>sy. (m_cacheState sy, map fst (m_trackers sy), inbox sy)) (blocked_state (run wire_env 6 sample_start)) =
     Some (WaitingForChanges, [2], [])"
  by code_simp

lemma sample_run:
  obtains v where "run wire_env 6 sample_start = Blocked v" and "m_cacheState v = WaitingForChanges"
    and "map fst (m_trackers v) = [2]"
proof -
  obtain v where "blocked_state (run wire_env 6 sample_start) = Some v" "m_cacheState v = WaitingForChanges"
    "map fst (m_trackers v) = [2]"
    using sample_run_calc by auto
  with that show thesis
    by (cases "run wire_env 6 sample_start") auto
qed

definition sample_spinning :: system where
  "sample_spinning = sample_start\<lparr>m_runtimeOptions := 32\<rparr>"

lemma sample_spinning_reachable: "reachable E sample_spinning" "non_blocking sample_spinning" "m_socket_open sample_spinning"
proof -
  have "monitor_new sample_os (received_at sample_dump) 0 32 = Inr sample_spinning" by code_simp
  then show "reachable E sample_spinning" by (rule reachable.new)
  show "non_blocking sample_spinning" by code_simp
  show "m_socket_open sample_spinning" by (simp add: sample_spinning_def sample_start_simps)
qed

theorem run_waits_or_aborts_witness:
  "(\<exists>v. run wire_env 6 sample_start = Blocked v \<and> m_cacheState v = WaitingForChanges \<and> inbox v = [] \<and> sys_inv v) \<and>
   (\<forall>fuel. run wire_env fuel sample_spinning = Out_of_fuel \<or> (\<exists>msg. run wire_env fuel sample_spinning = Failed (Abort msg)))"
proof
  have "length (inbox sample_start) < 6" "\<not> non_blocking sample_start"
    by (simp_all add: sample_start_simps received_at_def non_blocking_def)
  with run_waits_or_aborts [OF wire_env_calm sample_reachable sample_start_simps(1), of 6] sample_run
  show "\<exists>v. run wire_env 6 sample_start = Blocked v \<and> m_cacheState v = WaitingForChanges \<and> inbox v = [] \<and> sys_inv v"
    by (metis outcome.distinct(7) outcome.inject(2))
  show "\<forall>fuel. run wire_env fuel sample_spinning = Out_of_fuel \<or> (\<exists>msg. run wire_env fuel sample_spinning = Failed (Abort msg))"
    using run_waits_or_aborts [OF wire_env_calm sample_spinning_reachable(1,3)] sample_spinning_reachable(2) by simp
qed

text \<open>
  Whatever the subscribers do in their callbacks, \<open>stop()\<close> included, a run from a reachable state
  visits states reachable by the small steps only: when it returns, the state is reachable again
  and keeps the invariant (ordered map of well-formed trackers, no null subscriber, coherence), and
  so does the state in which it waits for input.
\<close>

theorem run_keeps_invariant:
  assumes "mnl_attributes (env_mnl E)" and "reachable E sy"
  shows "(\<forall>sy'. run E fuel sy = Returned sy' \<longrightarrow> reachable E sy' \<and> sys_inv sy') \<and>
    (\<forall>sy'. run E fuel sy = Blocked sy' \<longrightarrow> sys_inv sy')"
  using run_reachable [OF assms, of fuel] reachable_inv [OF assms(1)] by (cases "run E fuel sy") auto

theorem run_keeps_invariant_witness:
  "\<exists>v. run wire_env 6 sample_start = Blocked v \<and> map fst (m_trackers v) = [2] \<and> sys_inv v"
  using sample_run run_keeps_invariant [OF wire_env_laws sample_reachable, of 6] by metis

section \<open>Errors and retries\<close>

text \<open>
  (C12) When \<open>mnl_cb_run\<close> reports an error behind the messages of a datagram, the messages count; then
  the monitor aborts, unless it is enumerating and the error number is one of EPROTO, EINTR, EAGAIN
  and EBUSY: in that case it drains the socket, repeats the last request and leaves the receive loop.
\<close>

theorem dump_errors_retry_or_abort:
  assumes "calm E" and "sys_inv sy" and "m_socket_open sy" and "plan_of E buf sy = (msgs, Plan_error err)"
  shows "\<exists>v. cache_of v = fold apply_change (messages_meaning E (m_runtimeOptions sy) msgs) (cache_of sy) \<and>
    inbox v = inbox sy \<and> m_sendBuffer v = m_sendBuffer sy \<and>
    process_datagram E buf sy =
      (if isEnumerating sy \<and> err \<in> {EPROTO, EINTR, EAGAIN, EBUSY}
       then out_bind (retryLastDumpRequestWithNewSequenceNumber E v) (\<lambda>sy'. Returned (True, sy'))
       else Failed (Abort (if isEnumerating sy then ''mnl_cb_run unexpected MNL_CB_ERROR while enumerating''
                           else ''mnl_cb_run unexpected MNL_CB_ERROR while not enumerating'')))"
proof -
  have mnl: "mnl_attributes (env_mnl E)" using assms(1) by (simp add: calm_def)
  show ?thesis
  proof (rule process_datagram_cases [OF mnl assms(2,4)])
    fix v
    assume "same_control E sy v" and "\<not> m_socket_open v"
    with assms(1,3) stays_open [of E sy v] show ?thesis by (simp add: calm_def)
  next
    fix v
    assume v: "effect E (messages_meaning E (m_runtimeOptions sy) msgs) sy v"
      and run: "process_datagram E buf sy = out_bind (handleCallbackResult E (fst (verdict_result (Plan_error err)))
        (snd (verdict_result (Plan_error err))) v) (finish_datagram E)"
    have ctl: "m_cacheState v = m_cacheState sy" "inbox v = inbox sy" "m_sendBuffer v = m_sendBuffer sy"
      using v by (simp_all add: effect_def same_control_def)
    have "out_bind (out_bind m (\<lambda>sy. Returned (True, sy))) (finish_datagram E) = out_bind m (\<lambda>sy'. Returned (True, sy'))" for m
      by (cases m) (simp_all add: finish_datagram_def)
    with run ctl have "process_datagram E buf sy =
      (if isEnumerating sy \<and> err \<in> {EPROTO, EINTR, EAGAIN, EBUSY}
       then out_bind (retryLastDumpRequestWithNewSequenceNumber E v) (\<lambda>sy'. Returned (True, sy'))
       else Failed (Abort (if isEnumerating sy then ''mnl_cb_run unexpected MNL_CB_ERROR while enumerating''
                           else ''mnl_cb_run unexpected MNL_CB_ERROR while not enumerating'')))"
      by (auto simp: handleCallbackResult_def shouldRetryDump_def isEnumerating_def)
    with v ctl show ?thesis by (auto simp: effect_def)
  qed
qed

text \<open>A datagram that answers request 9 reaches the monitor while it waits for replies to request 1.\<close>

definition sample_waiting :: system where
  "sample_waiting = sample_start\<lparr>m_sequenceNumber := 1, m_sendBuffer := Some (dump_request RTM_GETLINK 1)\<rparr>"

lemma sample_waiting_inv: "sys_inv sample_waiting"
  using sample_inv by (simp add: sample_waiting_def)

lemma sample_stale: "plan_of wire_env (done_datagram 9) sample_waiting = ([], Plan_error EPROTO)"
  by code_simp

theorem dump_errors_retry_or_abort_witness:
  "\<exists>v. process_datagram wire_env (done_datagram 9) sample_waiting =
     out_bind (retryLastDumpRequestWithNewSequenceNumber wire_env v) (\<lambda>sy'. Returned (True, sy')) \<and>
     inbox v = received_at sample_dump"
proof -
  have "m_socket_open sample_waiting" and "isEnumerating sample_waiting" and "inbox sample_waiting = received_at sample_dump"
    by (simp_all add: sample_waiting_def sample_start_simps isEnumerating_def)
  with dump_errors_retry_or_abort [OF wire_env_calm sample_waiting_inv _ sample_stale] show ?thesis
    by auto
qed

lemma drain_data: "\<forall>r\<in>set rs. \<exists>t b. r = Received t b \<and> b \<noteq> [] \<Longrightarrow> drain nonblock rs = (if nonblock then Some [] else None)"
  by (induction nonblock rs rule: drain.induct) auto

lemma drain_append:
  "\<forall>r\<in>set rs. \<exists>t b. r = Received t b \<and> b \<noteq> [] \<Longrightarrow> drain nonblock (rs @ Receive_failed # rest) = Some rest"
  by (induction nonblock rs rule: drain.induct) auto

text \<open>
  (C13) A retry throws away what the socket delivers until a reception fails, and then repeats the last dump
  request, the same but for a fresh sequence number. On a socket that only ever delivers data, as
  the blocking socket does that the monitor opens by default, there is no failed reception: the
  retry waits in \<open>recvfrom\<close> with everything discarded, and never repeats the request. With
  \<open>NonBlocking\<close> the empty socket is the failure.
\<close>

theorem retry_repeats_request:
  assumes "accepts E" and "m_socket_open sy" and "m_sendBuffer sy = Some (dump_request t s)"
    and "\<forall>r\<in>set rs. \<exists>now b. r = Received now b \<and> b \<noteq> []"
  shows "(\<exists>sy'. retryLastDumpRequestWithNewSequenceNumber E (sy\<lparr>inbox := rs @ Receive_failed # rest\<rparr>) = Returned sy' \<and>
      inbox sy' = rest \<and> m_cacheState sy' = m_cacheState sy \<and> m_trackers sy' = m_trackers sy \<and>
      m_sequenceNumber sy' = next_seq (m_sequenceNumber sy) \<and>
      events sy' = events sy @ [Sent (dump_request t (next_seq (m_sequenceNumber sy)))]) \<and>
    (if non_blocking sy
     then \<exists>sy'. retryLastDumpRequestWithNewSequenceNumber E (sy\<lparr>inbox := rs\<rparr>) = Returned sy' \<and>
      inbox sy' = [] \<and> m_cacheState sy' = m_cacheState sy \<and> m_trackers sy' = m_trackers sy \<and>
      m_sequenceNumber sy' = next_seq (m_sequenceNumber sy) \<and>
      events sy' = events sy @ [Sent (dump_request t (next_seq (m_sequenceNumber sy)))]
     else retryLastDumpRequestWithNewSequenceNumber E (sy\<lparr>inbox := rs\<rparr>) = Blocked (sy\<lparr>inbox := []\<rparr>))"
proof -
  have "(NLM_F_REQUEST OR NLM_F_DUMP) AND NLM_F_DUMP \<noteq> 0" "(NLM_F_REQUEST OR NLM_F_DUMP) AND NLM_F_REQUEST \<noteq> 0"
    by (simp_all add: NLM_F_REQUEST_def NLM_F_DUMP_def)
  moreover have "\<not> sendto E rq < 0" for rq using assms(1) by (simp add: accepts_def not_less)
  ultimately show ?thesis
    using assms(2,3)
    by (simp add: retryLastDumpRequestWithNewSequenceNumber_def drain_append [OF assms(4)] drain_data [OF assms(4)]
        next_seq_sys Let_def dump_request_def send_def count_stat_def non_blocking_def)
qed

theorem retry_repeats_request_witness:
  "retryLastDumpRequestWithNewSequenceNumber wire_env (sample_waiting\<lparr>inbox := [Received 1 [0]]\<rparr>) =
     Blocked (sample_waiting\<lparr>inbox := []\<rparr>) \<and>
   (\<exists>sy'. retryLastDumpRequestWithNewSequenceNumber wire_env (sample_waiting\<lparr>inbox := [Received 1 [0], Receive_failed]\<rparr>) =
     Returned sy' \<and> events sy' = [Sent (dump_request RTM_GETLINK 2)])"
proof -
  have w: "m_socket_open sample_waiting" "m_sendBuffer sample_waiting = Some (dump_request RTM_GETLINK 1)"
    "m_sequenceNumber sample_waiting = 1" "events sample_waiting = []"
    by (simp_all add: sample_waiting_def sample_start_simps)
  have "\<forall>r\<in>set [Received 1 [0]]. \<exists>now b. r = Received now b \<and> b \<noteq> []" "\<not> non_blocking sample_waiting"
    by (simp_all add: sample_waiting_def sample_start_simps non_blocking_def)
  from retry_repeats_request [OF wire_env_accepts w(1,2) this(1), of "[]"] this(2) w(3,4) show ?thesis
    by (auto simp: next_seq_def)
qed

section \<open>Sequence numbers\<close>

text \<open>Relates the sequence number expected of replies to the requests sent.\<close>

definition seq_ok :: "request list \<Rightarrow> request option \<Rightarrow> u32 \<Rightarrow> bool" where
  "seq_ok rqs buffer s \<longleftrightarrow>
     (\<forall>rq\<in>set rqs. rq_seq rq \<noteq> 0) \<and>
     (case buffer of
        None \<Rightarrow> rqs = [] \<and> s = 0
      | Some rq \<Rightarrow> rqs \<noteq> [] \<and> last rqs = rq \<and> s = rq_seq rq)"

definition seq_inv :: "system \<Rightarrow> bool" where
  "seq_inv sy \<longleftrightarrow> seq_ok (requests (events sy)) (m_sendBuffer sy) (m_sequenceNumber sy)"

lemma seq_ok_sent: "seq_ok rqs b s \<Longrightarrow> rq_seq rq \<noteq> 0 \<Longrightarrow> seq_ok (rqs @ [rq]) (Some rq) (rq_seq rq)"
  by (auto simp: seq_ok_def)

lemma control_seq_inv: "same_control E sy sy' \<Longrightarrow> seq_inv sy' = seq_inv sy"
  by (simp add: seq_inv_def same_control_def)

lemma requests_briefing [simp]: "requests (briefing k intfs ts) = []"
  by (induction ts) (auto simp: briefing_def)

lemma subscribe_seq_inv:
  assumes "subscribe E intfs (Some k) sy = Inr sy'" and "seq_inv sy"
  shows "seq_inv sy'"
proof (cases "intfs = []")
  case False
  then have "briefed E k intfs sy sy'"
    using subscribe_ok [of intfs E k sy] assms(1) by (simp add: returns_def)
  from quiet_fields [OF this [unfolded briefed_def]] assms(2) show ?thesis
    by (simp add: seq_inv_def)
qed (use assms in \<open>simp add: subscribe_def\<close>)

lemma updateSubscription_seq_inv:
  assumes "updateSubscription E intfs sub sy = Inr sy'" and "seq_inv sy"
  shows "seq_inv sy'"
proof (cases "sub \<noteq> None \<and> intfs \<noteq> [] \<and> map_of (m_subscribers sy) sub \<noteq> None")
  case True
  then obtain k where "sub = Some k" by auto
  with True assms subscribe_seq_inv [of E intfs k sy sy'] show ?thesis
    by (simp add: updateSubscription_def subscribe_def)
qed (use assms in \<open>auto simp: updateSubscription_def unsubscribe_def seq_inv_def split: if_splits\<close>)

lemma next_seq_nonzero: "next_seq s \<noteq> 0"
  by (simp add: next_seq_def)

lemma send_events: "send E rq sy = Inr sy' \<Longrightarrow>
    events sy' = events sy @ [Sent rq] \<and> m_sendBuffer sy' = m_sendBuffer sy \<and> m_sequenceNumber sy' = m_sequenceNumber sy"
  by (auto simp: send_def Let_def count_stat_def split: if_splits)

lemma sendDumpRequest_seq_inv: "seq_inv sy \<Longrightarrow> sendDumpRequest E t sy = Inr sy' \<Longrightarrow> seq_inv sy'"
  by (auto simp: sendDumpRequest_def next_seq_sys Let_def seq_inv_def seq_ok_def next_seq_nonzero dest!: send_events)

lemma retry_seq_inv: "seq_inv sy \<Longrightarrow> leaves seq_inv (\<lambda>_. True) (retryLastDumpRequestWithNewSequenceNumber E sy)"
  by (auto simp: retryLastDumpRequestWithNewSequenceNumber_def next_seq_sys Let_def seq_inv_def seq_ok_def next_seq_nonzero
      intro!: leaves_lift split: option.splits dest!: send_events)

lemma handleCallbackResult_seq_inv:
  assumes "seq_inv sy"
  shows "leaves (\<lambda>(_, sy'). seq_inv sy') (\<lambda>_. True) (handleCallbackResult E ret errno sy)"
proof -
  have c: "seq_inv (sy\<lparr>m_cacheState := c\<rparr>)" for c
    using assms by (simp add: seq_inv_def)
  have "leaves (\<lambda>(_, sy'). seq_inv sy') (\<lambda>_. True)
      (out_bind (retryLastDumpRequestWithNewSequenceNumber E sy) (\<lambda>sy. Returned (True, sy)))"
    by (rule leaves_bind [OF retry_seq_inv [OF assms]]) simp
  moreover have "leaves (\<lambda>(_, sy'). seq_inv sy') (\<lambda>_. True)
      (lift (res_bind (sendDumpRequest E t (sy\<lparr>m_cacheState := c\<rparr>)) (\<lambda>sy. Inr (False, sy))))" for t c
    using sendDumpRequest_seq_inv [OF c] by (auto simp: res_bind_eq_Inr intro!: leaves_lift)
  ultimately show ?thesis
    using assms c by (simp add: handleCallbackResult_def)
qed

lemma process_datagram_seq_inv:
  assumes "mnl_attributes (env_mnl E)" and "sys_inv sy" and "seq_inv sy"
    and "process_datagram E buf sy = Returned (d, sy')"
  shows "seq_inv sy'"
proof -
  obtain msgs verdict where plan: "plan_of E buf sy = (msgs, verdict)" by (cases "plan_of E buf sy")
  obtain ret errno u where u: "sys_inv u" "same_control E sy u"
    "process_datagram E buf sy = out_bind (handleCallbackResult E ret errno u) (finish_datagram E)"
    by (rule process_datagram_cases [OF assms(1,2) plan]) (auto simp: effect_def)
  obtain c v where v: "handleCallbackResult E ret errno u = Returned (c, v)" "finish_datagram E (c, v) = Returned (d, sy')"
    using assms(4) u(3) by (cases "handleCallbackResult E ret errno u") auto
  have "seq_inv v"
    using handleCallbackResult_seq_inv [of u E ret errno] v(1) control_seq_inv [OF u(2)] assms(3) by simp
  moreover have "sys_inv v"
    using handleCallbackResult_flows [OF u(1), of E ret errno] v(1) flows_inv by auto
  then have "same_control E v sy'" if "notifyChanges E v = Inr sy'"
    using that notifyChanges_inv [of v E] by (simp add: returns_def)
  ultimately show ?thesis
    using v(2) by (cases "notifyChanges E v") (auto simp: finish_datagram_def control_seq_inv split: if_splits)
qed

text \<open>
  (C9) In every reachable state the sequence number the monitor expects replies to carry while it
  enumerates is that of the last request it sent, and no request ever carried the number 0, which
  the kernel uses for messages that are not replies: the counter skips it when it wraps around.
\<close>

theorem expected_sequence_number:
  assumes "mnl_attributes (env_mnl E)" and "reachable E sy"
  shows "(\<forall>rq\<in>set (requests (events sy)). rq_seq rq \<noteq> 0) \<and>
    m_sequenceNumber sy = (if requests (events sy) = [] then 0 else rq_seq (last (requests (events sy))))"
proof -
  from assms(2) have "seq_inv sy"
  proof (induction rule: reachable.induct)
    case (new os rs now options sy)
    then show ?case by (auto simp: monitor_new_def res_bind_eq_Inr seq_inv_def seq_ok_def split: if_splits)
  next
    case (subscribe sy intfs k sy')
    then show ?case using subscribe_seq_inv by blast
  next
    case (update sy intfs sub sy')
    then show ?case using updateSubscription_seq_inv by blast
  next
    case (request sy t sy')
    then show ?case using sendDumpRequest_seq_inv by blast
  next
    case (receive sy received sy')
    then show ?case by (auto simp: recvfrom_def seq_inv_def split: list.splits reception.splits if_splits)
  next
    case (datagram sy buf d sy')
    then show ?case using process_datagram_seq_inv [OF assms(1) reachable_inv [OF assms(1)]] by blast
  qed (simp_all add: seq_inv_def unsubscribe_def stop_def)
  then show ?thesis
    by (auto simp: seq_inv_def seq_ok_def split: option.splits)
qed

theorem expected_sequence_number_witness:
  "\<exists>sy. sendDumpRequest wire_env RTM_GETLINK sample_start = Inr sy \<and> requests (events sy) = [dump_request RTM_GETLINK 1] \<and>
     m_sequenceNumber sy = 1"
proof -
  obtain sy where sy: "sendDumpRequest wire_env RTM_GETLINK sample_start = Inr sy"
    "events sy = events sample_start @ [Sent (dump_request RTM_GETLINK (next_seq (m_sequenceNumber sample_start)))]"
    using sendDumpRequest_ok [OF wire_env_accepts sample_start_simps(1), of RTM_GETLINK] by metis
  then have "requests (events sy) = [dump_request RTM_GETLINK 1]"
    by (simp add: sample_start_simps next_seq_def)
  with expected_sequence_number [OF wire_env_laws reachable.request [OF sample_reachable sy(1)]] sy(1) show ?thesis
    by (simp add: dump_request_def)
qed

section \<open>Multicast groups\<close>

text \<open>
  The monitor joins the link and notify groups always, the IPv4 address and route groups unless
  IPv6 is preferred, the IPv6 groups unless IPv4 is preferred, and no other group. So preferring
  both leaves it without any address or route messages.
\<close>

theorem monitor_groups_joined:
  "\<exists>groups. monitor_groups options = Inr groups \<and>
     (\<forall>n. bit groups n \<longleftrightarrow>
        Suc n \<in> {RTNLGRP_LINK, RTNLGRP_NOTIFY} \<or>
        Suc n \<in> {RTNLGRP_IPV4_IFADDR, RTNLGRP_IPV4_ROUTE} \<and> \<not> bit options (RuntimeFlag_underlying RFlag_PreferredFamilyV6) \<or>
        Suc n \<in> {RTNLGRP_IPV6_IFADDR, RTNLGRP_IPV6_ROUTE} \<and> \<not> bit options (RuntimeFlag_underlying RFlag_PreferredFamilyV4))"
proof -
  let ?f = toRtnlGroupFlag and ?v4 = "bit options (RuntimeFlag_underlying RFlag_PreferredFamilyV4)"
    and ?v6 = "bit options (RuntimeFlag_underlying RFlag_PreferredFamilyV6)"
  have b: "bit (?f grp) n \<longleftrightarrow> Suc n = grp" if "grp \<in> {1..32}" for grp n :: nat
    using that by (auto simp: toRtnlGroupFlag_def bit_simps)
  have "monitor_groups options = Inr (?f RTNLGRP_LINK OR ?f RTNLGRP_NOTIFY OR
      (if ?v6 then 0 else ?f RTNLGRP_IPV4_IFADDR OR ?f RTNLGRP_IPV4_ROUTE) OR
      (if ?v4 then 0 else ?f RTNLGRP_IPV6_IFADDR OR ?f RTNLGRP_IPV6_ROUTE))"
    by (simp add: monitor_groups_def fs_test_in_range Let_def or.assoc)
  moreover have "RTNLGRP_LINK \<in> {1..32}" "RTNLGRP_NOTIFY \<in> {1..32}" "RTNLGRP_IPV4_IFADDR \<in> {1..32}"
      "RTNLGRP_IPV4_ROUTE \<in> {1..32}" "RTNLGRP_IPV6_IFADDR \<in> {1..32}" "RTNLGRP_IPV6_ROUTE \<in> {1..32}"
    by (simp_all add: RTNLGRP_LINK_def RTNLGRP_NOTIFY_def RTNLGRP_IPV4_IFADDR_def RTNLGRP_IPV4_ROUTE_def
        RTNLGRP_IPV6_IFADDR_def RTNLGRP_IPV6_ROUTE_def)
  ultimately show ?thesis
    by (cases ?v4; cases ?v6) (auto simp: bit_or_iff b)
qed

section \<open>Stopping\<close>

text \<open>
  (C14) \<open>stop()\<close> is safe only when the monitor is not enumerating links or addresses. Once it has closed the
  socket during such a dump, the next datagram that holds a message or the end of the dump makes the
  monitor believe that the dump has ended and dereference the socket it no longer has. And
  \<open>enumerateInterfaces\<close> waits for the end of an enumeration that cannot come: on a closed socket its
  loop never ends.
\<close>

theorem stop_breaks_enumeration:
  assumes "m_cacheState sy \<in> {EnumeratingLinks, EnumeratingAddresses}"
    and "plan_of E buf sy = (msgs, verdict)" and "msgs \<noteq> [] \<or> verdict = Plan_stop"
  shows "process_datagram E buf (stop sy) = Failed Null_deref \<and> enumerate_loop E fuel (stop sy) = Out_of_fuel"
proof
  let ?sy = "updateStats (length buf) (stop sy)"
  have closed: "\<not> m_socket_open ?sy" and en: "isEnumerating ?sy"
    and plan: "cb_plan E buf (m_sequenceNumber ?sy) (m_portid ?sy) = (msgs, verdict)"
    using assms(1,2) by (auto simp: updateStats_def count_stat_def stop_def plan_of_def isEnumerating_def Let_def)
  have "cb_messages (mnlMessageCallback E) msgs ?sy = Inr (if msgs = [] then MNL_CB_OK else MNL_CB_STOP, ?sy)"
    using closed by (cases msgs) (simp_all add: mnlMessageCallback_def)
  then have "mnl_cb_run E buf (m_sequenceNumber ?sy) (m_portid ?sy) (mnlMessageCallback E) ?sy =
      Inr ((MNL_CB_STOP, 0), ?sy)"
    using plan assms(3) by (auto simp: mnl_cb_run_def MNL_CB_OK_def MNL_CB_STOP_def)
  then have run: "process_datagram E buf (stop sy) = out_bind (handleCallbackResult E MNL_CB_STOP 0 ?sy) (finish_datagram E)"
    by (simp add: process_datagram_def Let_def en finish_datagram_def)
  have "sendDumpRequest E t (?sy\<lparr>m_cacheState := c\<rparr>) = Inl Null_deref" for t c
    using closed by (simp add: sendDumpRequest_def next_seq_sys Let_def send_def)
  moreover have "m_cacheState ?sy = m_cacheState sy"
    by (simp add: updateStats_def count_stat_def stop_def Let_def)
  ultimately show "process_datagram E buf (stop sy) = Failed Null_deref"
    using assms(1) run
    by (auto simp: handleCallbackResult_def MNL_CB_STOP_def MNL_CB_ERROR_def isEnumeratingLinks_def isEnumeratingAddresses_def)
  have "m_cacheState (stop sy) \<noteq> WaitingForChanges" and "\<not> m_socket_open (stop sy)"
    using assms(1) by (auto simp: stop_def)
  then show "enumerate_loop E fuel (stop sy) = Out_of_fuel"
    by (induction fuel) (simp_all add: receiveAndProcess_def)
qed

theorem stop_breaks_enumeration_witness:
  "process_datagram wire_env (done_datagram 1) (stop sample_waiting) = Failed Null_deref \<and>
   enumerate_loop wire_env 100 (stop sample_waiting) = Out_of_fuel"
proof -
  have "m_cacheState sample_waiting \<in> {EnumeratingLinks, EnumeratingAddresses}"
    by (simp add: sample_waiting_def sample_start_simps)
  moreover have "plan_of wire_env (done_datagram 1) sample_waiting = ([], Plan_stop)"
    by code_simp
  ultimately show ?thesis
    using stop_breaks_enumeration [of sample_waiting wire_env "done_datagram 1" "[]" Plan_stop 100] by simp
qed

end
