(* ===== verification/Command_Line.thy ===== *)
theory Command_Line
  imports Monitor_Loop
begin

unbundle bit_operations_syntax

text \<open>
  The command line program (examples/cli/main.cpp): its flags and their validators, the options of the
  monitor they stand for, the loop that repeats the enumeration, \<open>main\<close>, and the lines the subscriber
  prints. The parser of the flags, the logger and the operating system are parameters; where the
  logger writes to changes nothing of the program and is left out.
\<close>

section \<open>Flags\<close>

record cli_flags =
  FLAGS_nerdstats :: bool
  FLAGS_dumppackets :: bool
  FLAGS_exit_after_enumeration :: bool
  FLAGS_include_non_ieee802 :: bool
  FLAGS_log_to_file :: bool
  FLAGS_family :: u32
  FLAGS_log_level :: string
  FLAGS_enum_loop :: u32
  FLAGS_loop_delay_us :: u64

definition cli_defaults :: cli_flags where
  "cli_defaults = \<lparr>FLAGS_nerdstats = False, FLAGS_dumppackets = False, FLAGS_exit_after_enumeration = False,
     FLAGS_include_non_ieee802 = False, FLAGS_log_to_file = False, FLAGS_family = 0, FLAGS_log_level = ''info'',
     FLAGS_enum_loop = 1, FLAGS_loop_delay_us = 100\<rparr>"

definition valid_family :: "u32 \<Rightarrow> bool" where
  "valid_family v \<longleftrightarrow> v = 0 \<or> v = 4 \<or> v = 6"

definition valid_loop_delay :: "u64 \<Rightarrow> bool" where
  "valid_loop_delay v \<longleftrightarrow> 50 \<le> v"

text \<open>The level of the logger: \<open>from_str\<close> of the library gives \<open>off\<close> for a name it does not know.\<close>

record 'l logger_api =
  level_from_str :: "string \<Rightarrow> 'l"
  level_off :: 'l
  level_info :: 'l

definition choose_level :: "'l logger_api \<Rightarrow> string \<Rightarrow> 'l" where
  "choose_level L name =
     (let name = map tolower name; level = level_from_str L name in
      if level = level_off L \<and> name \<noteq> ''off'' then level_info L else level)"

definition set_if :: "bool \<Rightarrow> RuntimeFlag \<Rightarrow> RuntimeFlags \<Rightarrow> failure + RuntimeFlags" where
  "set_if b flag options = (if b then fs_set (RuntimeFlag_underlying flag) options else Inr options)"

definition cli_options :: "cli_flags \<Rightarrow> failure + RuntimeFlags" where
  "cli_options f =
     res_bind (set_if (FLAGS_nerdstats f) RFlag_StatsForNerds fs_empty) (\<lambda>options.
     res_bind (set_if (FLAGS_dumppackets f) RFlag_DumpPackets options) (\<lambda>options.
     res_bind (set_if (FLAGS_family f = 4) RFlag_PreferredFamilyV4 options) (\<lambda>options.
     res_bind (set_if (FLAGS_family f = 6) RFlag_PreferredFamilyV6 options) (\<lambda>options.
     set_if (FLAGS_include_non_ieee802 f) RFlag_IncludeNonIeee802 options))))"

section \<open>What the subscriber prints\<close>

fun cli_text :: "inet_api \<Rightarrow> notification \<Rightarrow> failure + string" where
  "cli_text I (Interface_added iface) = Inr (''Interface added: '' @ if_text iface)"
| "cli_text I (Interface_removed iface) = Inr (''Interface removed: '' @ if_text iface)"
| "cli_text I (Interface_name_changed iface) = Inr (if_text iface @ '' changed name to '' @ if_name iface)"
| "cli_text I (Link_flags_changed iface flags) = Inr (if_text iface @ '' changed link flags to '' @ LinkFlags_text flags)"
| "cli_text I (Operational_state_changed iface state) =
     Inr (if_text iface @ '' changed operational state to '' @ OperationalState_text state)"
| "cli_text I (Network_addresses_changed iface addresses) =
     Inr (if_text iface @ '' changed addresses to '' @ join '', '' (map (net_toString I) addresses))"
| "cli_text I (Gateway_address_changed iface gateway) =
     Inr (if_text iface @ '' changed gateway address to '' @
       (case gateway of Some a \<Rightarrow> ip_toString I a | None \<Rightarrow> ''None''))"
| "cli_text I (Mac_address_changed iface mac) =
     res_bind (eth_toString mac) (\<lambda>t. Inr (if_text iface @ '' changed MAC address to '' @ t))"
| "cli_text I (Broadcast_address_changed iface brd) =
     res_bind (eth_toString brd) (\<lambda>t. Inr (if_text iface @ '' changed broadcast address to '' @ t))"

section \<open>main\<close>

text \<open>
  Every monitor the program makes has a socket of its own: \<open>world k\<close> is what the \<open>k\<close>-th one receives,
  and when it is made. \<open>fuel\<close> is for the loops of a monitor, the second number for the loop of the
  enumerations, whose counter is an unsigned integer; the result is the number of monitors made.
\<close>

fun cli_loop :: "environment \<Rightarrow> socket_api \<Rightarrow> (nat \<Rightarrow> reception list \<times> int) \<Rightarrow> nat \<Rightarrow> RuntimeFlags \<Rightarrow> u32 \<Rightarrow>
    nat \<Rightarrow> u32 \<Rightarrow> nat \<Rightarrow> nat outcome" where
  "cli_loop E os world fuel options enum_loop 0 loop k = Out_of_fuel"
| "cli_loop E os world fuel options enum_loop (Suc n) loop k =
     (if enum_loop = 0 \<or> 1 < loop
      then out_bind (lift (monitor_new os (fst (world k)) (snd (world k)) options)) (\<lambda>mon.
        out_bind (enumerateInterfaces E fuel mon) (\<lambda>_.
        cli_loop E os world fuel options enum_loop n (loop - 1) (k + 1)))
      else Returned k)"

definition cli_main :: "environment \<Rightarrow> socket_api \<Rightarrow> (nat \<Rightarrow> reception list \<times> int) \<Rightarrow> nat \<Rightarrow> nat \<Rightarrow> cli_flags \<Rightarrow>
    (int \<times> system) outcome" where
  "cli_main E os world fuel loops f =
     out_bind (lift (cli_options f)) (\<lambda>options.
     out_bind (if 1 < FLAGS_enum_loop f \<or> FLAGS_enum_loop f = 0
       then cli_loop E os world fuel options (FLAGS_enum_loop f) loops (FLAGS_enum_loop f) 0
       else Returned 0) (\<lambda>k.
     out_bind (lift (monitor_new os (fst (world k)) (snd (world k)) options)) (\<lambda>mon.
     out_bind (enumerateInterfaces E fuel mon) (\<lambda>(intfs, mon).
     out_bind (lift (subscribe E intfs (Some 0) mon)) (\<lambda>mon.
     out_bind (run E fuel (if FLAGS_exit_after_enumeration f then stop mon else mon)) (\<lambda>mon.
     Returned (0, mon)))))))"

end
