(* ===== verification/Command_Line_Properties.thy ===== *)
theory Command_Line_Properties
  imports Command_Line Sample_World
begin

text \<open>
  What the command line program promises: the flags stand for the options of the monitor of the same
  name, and with the flag to exit after the enumeration the program enumerates as often as asked,
  tells its subscriber everything the monitor knows and ends; an infinite loop never ends.
\<close>

section \<open>Options\<close>

lemma set_if_bits:
  assumes "RuntimeFlag_underlying flag < 6"
  shows "\<exists>options'. set_if b flag options = Inr options' \<and>
    (\<forall>n. bit options' n \<longleftrightarrow> bit options n \<or> (b \<and> n = RuntimeFlag_underlying flag))"
  using assms by (auto simp: set_if_def fs_set_in_range bit_set_bit_iff)

lemma cli_options_bits:
  "\<exists>options. cli_options f = Inr options \<and>
    fs_test (RuntimeFlag_underlying RFlag_StatsForNerds) options = Inr (FLAGS_nerdstats f) \<and>
    fs_test (RuntimeFlag_underlying RFlag_DumpPackets) options = Inr (FLAGS_dumppackets f) \<and>
    fs_test (RuntimeFlag_underlying RFlag_PreferredFamilyV4) options = Inr (FLAGS_family f = 4) \<and>
    fs_test (RuntimeFlag_underlying RFlag_PreferredFamilyV6) options = Inr (FLAGS_family f = 6) \<and>
    fs_test (RuntimeFlag_underlying RFlag_IncludeNonIeee802) options = Inr (FLAGS_include_non_ieee802 f) \<and>
    fs_test (RuntimeFlag_underlying RFlag_NonBlocking) options = Inr False"
proof -
  obtain o1 where 1: "set_if (FLAGS_nerdstats f) RFlag_StatsForNerds fs_empty = Inr o1"
    "\<forall>n. bit o1 n \<longleftrightarrow> bit (fs_empty :: RuntimeFlags) n \<or> (FLAGS_nerdstats f \<and> n = 0)"
    using set_if_bits [of RFlag_StatsForNerds "FLAGS_nerdstats f" fs_empty] by auto
  obtain o2 where 2: "set_if (FLAGS_dumppackets f) RFlag_DumpPackets o1 = Inr o2"
    "\<forall>n. bit o2 n \<longleftrightarrow> bit o1 n \<or> (FLAGS_dumppackets f \<and> n = 4)"
    using set_if_bits [of RFlag_DumpPackets "FLAGS_dumppackets f" o1] by auto
  obtain o3 where 3: "set_if (FLAGS_family f = 4) RFlag_PreferredFamilyV4 o2 = Inr o3"
    "\<forall>n. bit o3 n \<longleftrightarrow> bit o2 n \<or> (FLAGS_family f = 4 \<and> n = 1)"
    using set_if_bits [of RFlag_PreferredFamilyV4 "FLAGS_family f = 4" o2] by auto
  obtain o4 where 4: "set_if (FLAGS_family f = 6) RFlag_PreferredFamilyV6 o3 = Inr o4"
    "\<forall>n. bit o4 n \<longleftrightarrow> bit o3 n \<or> (FLAGS_family f = 6 \<and> n = 2)"
    using set_if_bits [of RFlag_PreferredFamilyV6 "FLAGS_family f = 6" o3] by auto
  obtain o5 where 5: "set_if (FLAGS_include_non_ieee802 f) RFlag_IncludeNonIeee802 o4 = Inr o5"
    "\<forall>n. bit o5 n \<longleftrightarrow> bit o4 n \<or> (FLAGS_include_non_ieee802 f \<and> n = 3)"
    using set_if_bits [of RFlag_IncludeNonIeee802 "FLAGS_include_non_ieee802 f" o4] by auto
  have "cli_options f = Inr o5"
    unfolding cli_options_def by (simp add: 1(1) 2(1) 3(1) 4(1) 5(1))
  then show ?thesis
    by (intro exI [of _ o5]) (simp add: fs_test_in_range 1(2) 2(2) 3(2) 4(2) 5(2) fs_empty_def)
qed

lemma cli_options_blocking: "cli_options f = Inr options \<Longrightarrow> fs_test (RuntimeFlag_underlying RFlag_NonBlocking) options = Inr False"
  using cli_options_bits [of f] by auto

text \<open>
  The options of the monitor are those the flags ask for, and no others: an option is set exactly
  if its flag is, the preferred family is IPv4 for 4, IPv6 for 6 and neither for 0, and the socket of
  the program always blocks.
\<close>

theorem cli_options_spec:
  "\<exists>options. cli_options f = Inr options \<and>
    fs_test (RuntimeFlag_underlying RFlag_StatsForNerds) options = Inr (FLAGS_nerdstats f) \<and>
    fs_test (RuntimeFlag_underlying RFlag_DumpPackets) options = Inr (FLAGS_dumppackets f) \<and>
    fs_test (RuntimeFlag_underlying RFlag_PreferredFamilyV4) options = Inr (FLAGS_family f = 4) \<and>
    fs_test (RuntimeFlag_underlying RFlag_PreferredFamilyV6) options = Inr (FLAGS_family f = 6) \<and>
    fs_test (RuntimeFlag_underlying RFlag_IncludeNonIeee802) options = Inr (FLAGS_include_non_ieee802 f) \<and>
    fs_test (RuntimeFlag_underlying RFlag_NonBlocking) options = Inr False"
  by (rule cli_options_bits)

section \<open>One monitor\<close>

text \<open>
  The operating system opens and binds sockets; \<open>ds\<close> are datagrams that complete the enumeration of a
  new monitor, and \<open>rest\<close> is what comes behind them.
\<close>

definition os_ready :: "socket_api \<Rightarrow> bool" where
  "os_ready os \<longleftrightarrow> socket_open2 os False \<and> (\<forall>groups. 0 \<le> socket_bind os groups)"

definition enumerable :: "environment \<Rightarrow> socket_api \<Rightarrow> nat \<Rightarrow> reception list \<Rightarrow> (int \<times> u8 list) list \<Rightarrow> reception list \<Rightarrow> bool" where
  "enumerable E os fuel rs ds rest \<longleftrightarrow> rs = received_at ds @ rest \<and> length ds < fuel \<and>
     completes E (socket_get_portid os) (EnumeratingLinks, 1) (map snd ds)"

lemma monitor_new_ready:
  assumes "os_ready os" and "fs_test (RuntimeFlag_underlying RFlag_NonBlocking) options = Inr False"
  shows "\<exists>mon. monitor_new os rs now options = Inr mon \<and> sys_inv mon \<and> m_socket_open mon \<and>
    m_cacheState mon = EnumeratingLinks \<and> m_sequenceNumber mon = 0 \<and> m_portid mon = socket_get_portid os \<and>
    m_runtimeOptions mon = options \<and> inbox mon = rs \<and> events mon = [] \<and> m_trackers mon = []"
proof -
  have "\<exists>groups. monitor_groups options = Inr groups"
    by (simp add: monitor_groups_def fs_test_in_range Let_def)
  then obtain groups where "monitor_groups options = Inr groups" by blast
  then obtain mon where mon: "monitor_new os rs now options = Inr mon"
    using assms by (simp add: monitor_new_def os_ready_def not_less)
  then have "m_socket_open mon \<and> m_cacheState mon = EnumeratingLinks \<and> m_sequenceNumber mon = 0 \<and>
      m_portid mon = socket_get_portid os \<and> m_runtimeOptions mon = options \<and> inbox mon = rs \<and> events mon = [] \<and> m_trackers mon = []"
    by (auto simp: monitor_new_def res_bind_eq_Inr split: if_splits)
  with mon monitor_new_inv [OF mon] show ?thesis by blast
qed

lemma one_enumeration:
  assumes "calm E" and "accepts E" and "os_ready os" and "enumerable E os fuel rs ds rest"
    and "fs_test (RuntimeFlag_underlying RFlag_NonBlocking) options = Inr False"
  shows "\<exists>mon sy. monitor_new os rs now options = Inr mon \<and>
    enumerateInterfaces E fuel mon = Returned (map (\<lambda>(i, t). \<lparr>if_index = i, if_name = m_name t\<rparr>) (m_trackers sy), sy) \<and>
    sys_inv sy \<and> m_socket_open sy \<and> m_cacheState sy = WaitingForChanges \<and> inbox sy = rest \<and>
    cache_of sy = fold apply_change (messages_meaning E options
      (dump_messages E (socket_get_portid os) (EnumeratingLinks, 1) (map snd ds))) Map.empty \<and>
    requests (events sy) = [dump_request RTM_GETLINK 1, dump_request RTM_GETADDR 2, dump_request RTM_GETROUTE 3]"
proof -
  obtain mon where mon: "monitor_new os rs now options = Inr mon" "sys_inv mon" "m_socket_open mon"
    "m_cacheState mon = EnumeratingLinks" "m_sequenceNumber mon = 0" "m_portid mon = socket_get_portid os"
    "m_runtimeOptions mon = options" "inbox mon = rs" "events mon = []" "m_trackers mon = []"
    using monitor_new_ready [OF assms(3,5)] by blast
  have e: "completes E (m_portid mon) (EnumeratingLinks, 1) (map snd ds)" "inbox mon = received_at ds @ rest" "length ds < fuel"
    "1 = next_seq (m_sequenceNumber mon)"
    using assms(4) mon by (simp_all add: enumerable_def next_seq_def)
  have "cache_of mon = Map.empty" by (simp add: cache_of_def mon(10))
  with enumeration_result [OF assms(1,2) mon(2-4) e(4,1,2,3)] obtain sy
    where "enumerateInterfaces E fuel mon = Returned (map (\<lambda>(i, t). \<lparr>if_index = i, if_name = m_name t\<rparr>) (m_trackers sy), sy)"
      "sys_inv sy" "m_socket_open sy" "m_cacheState sy = WaitingForChanges" "inbox sy = rest"
      "cache_of sy = fold apply_change (messages_meaning E options
        (dump_messages E (socket_get_portid os) (EnumeratingLinks, 1) (map snd ds))) Map.empty"
      "requests (events sy) = [dump_request RTM_GETLINK 1, dump_request RTM_GETADDR 2, dump_request RTM_GETROUTE 3]"
    by (auto simp: mon(6,7,9) next_seq_def)
  with mon(1) show ?thesis by blast
qed

text \<open>Where nobody stops the monitor, a subscription adds its briefing to the events and nothing else.\<close>

lemma calm_subscribe:
  assumes "calm E" and "intfs \<noteq> []"
  shows "subscribe E intfs (Some k) sy =
    Inr (sy\<lparr>m_subscribers := subs_put (Some k) intfs (m_subscribers sy), events := events sy @ briefing k intfs (m_trackers sy)\<rparr>)"
  using subscribe_ok [OF assms(2), of E k sy] assms(1)
  by (auto simp: returns_def briefed_def quiet_def calm_def stops_never)

section \<open>The program\<close>

lemma cli_loop_counts:
  assumes "calm E" and "accepts E" and "os_ready os"
    and "fs_test (RuntimeFlag_underlying RFlag_NonBlocking) options = Inr False"
  shows "n = unat loop \<Longrightarrow> 0 < n \<Longrightarrow> n \<le> loops \<Longrightarrow> enum_loop \<noteq> 0 \<Longrightarrow>
    \<forall>j. k \<le> j \<and> j < k + n - 1 \<longrightarrow> (\<exists>ds rest. enumerable E os fuel (fst (world j)) ds rest) \<Longrightarrow>
    cli_loop E os world fuel options enum_loop loops loop k = Returned (k + n - 1)"
proof (induction loops arbitrary: n loop k)
  case (Suc loops)
  show ?case
  proof (cases "n = 1")
    case True
    then have "\<not> 1 < loop" using Suc.prems(1) by (simp add: word_less_nat_alt)
    with True Suc.prems(4) show ?thesis by simp
  next
    case False
    then have more: "1 < loop" using Suc.prems(1,2) by (simp add: word_less_nat_alt)
    obtain ds rest where "enumerable E os fuel (fst (world k)) ds rest"
      using Suc.prems(2,5) False by (metis add_diff_cancel_left' le_refl Suc_lessI less_add_same_cancel1 Nat.add_diff_assoc Suc_leI One_nat_def zero_less_diff)
    with one_enumeration [OF assms(1-3) _ assms(4)] obtain mon sy where
      "monitor_new os (fst (world k)) (snd (world k)) options = Inr mon" "\<exists>r. enumerateInterfaces E fuel mon = Returned r"
      by blast
    then have "cli_loop E os world fuel options enum_loop (Suc loops) loop k =
        cli_loop E os world fuel options enum_loop loops (loop - 1) (k + 1)"
      using more by auto
    moreover have "n - 1 = unat (loop - 1)"
      using Suc.prems(1) more unat_sub [of 1 loop] by (simp add: word_less_nat_alt word_le_nat_alt)
    moreover have "\<forall>j. k + 1 \<le> j \<and> j < k + 1 + (n - 1) - 1 \<longrightarrow> (\<exists>ds rest. enumerable E os fuel (fst (world j)) ds rest)"
    proof (intro allI impI)
      fix j
      assume "k + 1 \<le> j \<and> j < k + 1 + (n - 1) - 1"
      then have "k \<le> j \<and> j < k + n - 1" by linarith
      then show "\<exists>ds rest. enumerable E os fuel (fst (world j)) ds rest" using Suc.prems(5) by blast
    qed
    moreover have "0 < n - 1" "n - 1 \<le> loops" using Suc.prems(2,3) False by simp_all
    ultimately show ?thesis
      using Suc.IH [of "n - 1" "loop - 1" "k + 1"] Suc.prems(4) by simp
  qed
qed simp

lemma run_stopped: "run E fuel (stop sy) = Returned (stop sy)"
  by (simp add: run_def stop_def)

text \<open>The briefing on all interfaces of the cache.\<close>

lemma briefing_informs:
  assumes "sys_inv sy" and "map_find i (m_trackers sy) = Some t" and "g \<noteq> Changed_FlagsCount"
  shows "believes k (events sy @ briefing k (map (\<lambda>(i, t). \<lparr>if_index = i, if_name = m_name t\<rparr>) (m_trackers sy)) (m_trackers sy)) i g =
    aspect_of g t"
proof -
  have dist: "distinct (map fst (m_trackers sy))"
    using assms(1) by (simp add: sys_inv_def trackers_inv_def map_wf_def ordered_by_distinct)
  moreover have m: "map_of (m_trackers sy) i = Some t"
    using assms(2) by (simp add: map_find_map_of)
  then have "i \<in> if_index ` set (map (\<lambda>(i, t). \<lparr>if_index = i, if_name = m_name t\<rparr>) (m_trackers sy))"
    by (force dest: map_of_SomeD)
  ultimately show ?thesis
    using assms(3) learn_news [of "\<lparr>if_index = i, if_name = m_name t\<rparr>" t True]
    by (simp add: believes_append briefing_heard m)
qed

lemma subscribe_to_all:
  assumes "calm E" and "intfs = map (\<lambda>(i, t). \<lparr>if_index = i, if_name = m_name t\<rparr>) (m_trackers sy)"
  shows "\<exists>sy'. subscribe E intfs (Some k) sy = Inr sy' \<and> m_trackers sy' = m_trackers sy \<and> inbox sy' = inbox sy \<and>
    events sy' = events sy @ briefing k intfs (m_trackers sy)"
proof (cases "intfs = []")
  case True
  then show ?thesis using assms(2) by (simp add: subscribe_def briefing_def)
next
  case False
  from calm_subscribe [OF assms(1) this] show ?thesis by simp
qed

text \<open>
  (C15) Asked to exit after the enumeration and to enumerate \<open>n\<close> times, the program makes \<open>n\<close> monitors one after
  the other, each of which enumerates to the end; then it returns success with the last one stopped, its
  cache holding the meaning of what the \<open>n\<close>-th socket delivered and the input behind it unread, and
  with its subscriber told the right value of every aspect of every interface found.
\<close>

theorem cli_exits_after_enumeration:
  assumes "calm E" and "accepts E" and "os_ready os" and "cli_options f = Inr options"
    and "n = unat (FLAGS_enum_loop f)" and "0 < n" and "n \<le> loops" and "FLAGS_exit_after_enumeration f"
    and "\<forall>j < n. enumerable E os fuel (fst (world j)) (ds j) (rest j)"
  shows "\<exists>mon. cli_main E os world fuel loops f = Returned (0, mon) \<and> \<not> m_socket_open mon \<and> inbox mon = rest (n - 1) \<and>
    cache_of mon = fold apply_change (messages_meaning E options
      (dump_messages E (socket_get_portid os) (EnumeratingLinks, 1) (map snd (ds (n - 1))))) Map.empty \<and>
    (\<forall>i t g. map_find i (m_trackers mon) = Some t \<and> g \<noteq> Changed_FlagsCount \<longrightarrow>
       believes 0 (events mon) i g = aspect_of g t)"
proof -
  have blocking: "fs_test (RuntimeFlag_underlying RFlag_NonBlocking) options = Inr False"
    using cli_options_blocking assms(4) by blast
  have loop: "(if 1 < FLAGS_enum_loop f \<or> FLAGS_enum_loop f = 0
      then cli_loop E os world fuel options (FLAGS_enum_loop f) loops (FLAGS_enum_loop f) 0 else Returned 0) = Returned (n - 1)"
  proof (cases "1 < FLAGS_enum_loop f")
    case True
    have "FLAGS_enum_loop f \<noteq> 0" using assms(5,6) by auto
    moreover have "\<forall>j. 0 \<le> j \<and> j < 0 + n - 1 \<longrightarrow> (\<exists>ds rest. enumerable E os fuel (fst (world j)) ds rest)"
      using assms(9) by (metis add_0 diff_le_self less_le_trans)
    ultimately show ?thesis
      using cli_loop_counts [OF assms(1-3) blocking assms(5,6,7), of "FLAGS_enum_loop f" 0 fuel world] True by simp
  next
    case False
    then have "n = 1" using assms(5,6) by (simp add: word_less_nat_alt)
    then show ?thesis using False assms(5) by auto
  qed
  obtain mon sy where one: "monitor_new os (fst (world (n - 1))) (snd (world (n - 1))) options = Inr mon"
    "enumerateInterfaces E fuel mon = Returned (map (\<lambda>(i, t). \<lparr>if_index = i, if_name = m_name t\<rparr>) (m_trackers sy), sy)"
    "sys_inv sy" "inbox sy = rest (n - 1)"
    "cache_of sy = fold apply_change (messages_meaning E options
      (dump_messages E (socket_get_portid os) (EnumeratingLinks, 1) (map snd (ds (n - 1))))) Map.empty"
    using one_enumeration [OF assms(1-3) _ blocking] assms(6,9) by (metis diff_less zero_less_one)
  obtain sub where sub: "subscribe E (map (\<lambda>(i, t). \<lparr>if_index = i, if_name = m_name t\<rparr>) (m_trackers sy)) (Some 0) sy = Inr sub"
    "m_trackers sub = m_trackers sy" "inbox sub = inbox sy"
    "events sub = events sy @ briefing 0 (map (\<lambda>(i, t). \<lparr>if_index = i, if_name = m_name t\<rparr>) (m_trackers sy)) (m_trackers sy)"
    using subscribe_to_all [OF assms(1) refl] by blast
  have "cli_main E os world fuel loops f = Returned (0, stop sub)"
    unfolding cli_main_def by (simp add: assms(4,8) loop one(1,2) sub(1) run_stopped del: One_nat_def)
  moreover have "cache_of (stop sub) = cache_of sy"
    by (simp add: cache_of_def stop_def sub(2))
  ultimately show ?thesis
    using one(4,5) sub briefing_informs [OF one(3)] by (intro exI [of _ "stop sub"]) (simp add: stop_def)
qed

definition sample_flags :: cli_flags where
  "sample_flags = cli_defaults\<lparr>FLAGS_exit_after_enumeration := True, FLAGS_enum_loop := 2\<rparr>"

theorem cli_exits_after_enumeration_witness:
  "\<exists>mon. cli_main wire_env sample_os (\<lambda>k. (received_at sample_dump, 0)) 6 2 sample_flags = Returned (0, mon) \<and>
     \<not> m_socket_open mon \<and> inbox mon = []"
proof -
  have ready: "os_ready sample_os" by (simp add: os_ready_def sample_os_def)
  have options: "cli_options sample_flags = Inr 0"
    by (simp add: cli_options_def set_if_def sample_flags_def cli_defaults_def fs_empty_def)
  have n: "2 = unat (FLAGS_enum_loop sample_flags)" "FLAGS_exit_after_enumeration sample_flags"
    by (simp_all add: sample_flags_def)
  have "socket_get_portid sample_os = 0" "length sample_dump < 6" by (simp_all add: sample_os_def sample_dump_def)
  then have "\<forall>j < 2. enumerable wire_env sample_os 6 (fst ((\<lambda>k. (received_at sample_dump, 0 :: int)) j)) ((\<lambda>k. sample_dump) j) ((\<lambda>k. []) j)"
    using sample_completes by (simp add: enumerable_def)
  from cli_exits_after_enumeration [OF wire_env_calm wire_env_accepts ready options n(1) _ _ n(2) this]
  show ?thesis by fastforce
qed

text \<open>Asked for 0 rounds, the program enumerates for ever: no number of turns is enough for the loop.\<close>

lemma cli_loops_forever:
  assumes "calm E" and "accepts E" and "os_ready os"
    and "fs_test (RuntimeFlag_underlying RFlag_NonBlocking) options = Inr False"
    and "\<forall>j. \<exists>ds rest. enumerable E os fuel (fst (world j)) ds rest"
  shows "cli_loop E os world fuel options 0 loops loop k = Out_of_fuel"
proof (induction loops arbitrary: loop k)
  case (Suc loops)
  obtain ds rest where "enumerable E os fuel (fst (world k)) ds rest" using assms(5) by blast
  with one_enumeration [OF assms(1-3) _ assms(4)] obtain mon where
    "monitor_new os (fst (world k)) (snd (world k)) options = Inr mon" "\<exists>r. enumerateInterfaces E fuel mon = Returned r"
    by blast
  with Suc show ?case by auto
qed simp

end
