(* ===== verification/Statistics_Log.thy ===== *)
theory Statistics_Log
  imports Monitor_Runs Message_Meaning
begin

text \<open>
  The statistics for nerds (\<open>printStatsForNerdsIfEnabled\<close> in monitor/NetworkMonitor.cpp, \<open>logNerdstats\<close> in
  monitor/NetworkInterfaceStatusTracker.cpp): the lines handed to the logger, one string per call of
  \<open>spdlog::info\<close>. Printing changes no state. The printed addresses need \<open>inet_ntop\<close>, a parameter; the clock is read
  again for every interface, so its readings are a parameter too.
\<close>

section \<open>Lines\<close>

text \<open>
  \<open>{:=^48}\<close> and \<open>{:-^38}\<close>: the text in the middle of a line filled with a character, the odd one to its right. A
  character is one column wide, as those of an ASCII name are.
\<close>

definition centered :: "char \<Rightarrow> nat \<Rightarrow> string \<Rightarrow> string" where
  "centered c w s =
     (let padding = w - length s; before = padding div 2 in
      replicate before c @ s @ replicate (padding - before) c)"

definition counter_text :: "u64 \<Rightarrow> string" where
  "counter_text n = dec_of_nat (unat n)"

definition milliseconds :: "int \<Rightarrow> int" where
  "milliseconds d = (if 0 \<le> d then d div 1000000 else - ((- d) div 1000000))"

definition signed_text :: "int \<Rightarrow> string" where
  "signed_text n = (if n < 0 then ''-'' else []) @ dec_of_nat (nat \<bar>n\<bar>)"

definition logNerdstats :: "tracker \<Rightarrow> string list" where
  "logNerdstats t =
     (let s = m_nerdstats t in
      [centered (CHR ''-'') 38 (m_name t),
       ''name changes                         '' @ counter_text (nameChanges s),
       ''LinkFlag changes                     '' @ counter_text (linkFlagChanges s),
       ''operationalState changes             '' @ counter_text (operationalStateChanges s),
       ''macAddress changes                   '' @ counter_text (macAddressChanges s),
       ''broadcastAddress changes             '' @ counter_text (broadcastAddressChanges s),
       ''gatewayAddress changes               '' @ counter_text (gatewayAddressChanges s),
       ''gatewayAddress clears                '' @ counter_text (gatewayAddressClears s),
       ''networkAddresses no change updates   '' @ counter_text (networkAddressesNoChangeUpdates s),
       ''networkAddresses added               '' @ counter_text (networkAddressesAdded s),
       ''networkAddresses removed             '' @ counter_text (networkAddressesRemoved s),
       ''changedFlag changes                  '' @ counter_text (changedFlagChanges s),
       ''changedFlag checks                   '' @ counter_text (changedFlagChecks s),
       ''changedFlag clears                   '' @ counter_text (changedFlagClears s),
       centered (CHR ''-'') 38 ''-''])"

definition stats_lines :: "int \<Rightarrow> statistics \<Rightarrow> string list" where
  "stats_lines now s =
     [centered (CHR ''='') 48 ''Stats for nerds'',
      ''uptime    '' @ signed_text (milliseconds (now - startTime s)) @ ''ms'',
      ''sent      '' @ counter_text (bytesSent s) @ '' bytes in '' @ counter_text (packetsSent s) @ '' packets'',
      ''received  '' @ counter_text (bytesReceived s) @ '' bytes in '' @ counter_text (packetsReceived s) @ '' packets'',
      ''received  '' @ counter_text (msgsReceived s) @ '' rtnl messages'',
      ''discarded '' @ counter_text (msgsDiscarded s) @ '' rtnl messages'',
      ''* seen'',
      ''          '' @ counter_text (seenAttributes s) @ '' attribute entries'',
      ''          '' @ counter_text (unknownAttributes s) @ '' attributes unknown'',
      ''          '' @ counter_text (linkMessagesSeen s) @ '' link messages'',
      ''          '' @ counter_text (addressMessagesSeen s) @ '' address messages'',
      ''          '' @ counter_text (routeMessagesSeen s) @ '' route messages'']"

text \<open>The loop over the trackers; \<open>now k\<close> is the time when the \<open>k\<close>-th is printed.\<close>

fun tracker_lines :: "inet_api \<Rightarrow> (nat \<Rightarrow> int) \<Rightarrow> (u32, tracker) std_map \<Rightarrow> failure + string list" where
  "tracker_lines I now [] = Inr []"
| "tracker_lines I now ((_, tracker) # rest) =
     res_bind (tracker_text I (now 0) tracker) (\<lambda>line.
     res_bind (tracker_lines I (\<lambda>k. now (Suc k)) rest) (\<lambda>lines.
     Inr (line # logNerdstats tracker @ lines)))"

definition printStatsForNerdsIfEnabled :: "inet_api \<Rightarrow> (nat \<Rightarrow> int) \<Rightarrow> system \<Rightarrow> failure + string list" where
  "printStatsForNerdsIfEnabled I now sy =
     (if isEnumerating sy then Inr []
      else res_bind (test_option RFlag_StatsForNerds sy) (\<lambda>enabled.
        if \<not> enabled then Inr []
        else res_bind (tracker_lines I (\<lambda>k. now (Suc k)) (m_trackers sy)) (\<lambda>lines.
          Inr (stats_lines (now 0) (m_stats sy)
            @ [centered (CHR ''='') 48 ''Interface details in cache''] @ lines
            @ [centered (CHR ''='') 48 ''='']))))"

section \<open>Facts\<close>

lemma length_centered: "length (centered c w s) = max w (length s)"
  by (simp add: centered_def Let_def)

lemma centered_wide: "w \<le> length s \<Longrightarrow> centered c w s = s"
  by (simp add: centered_def)

lemma centered_keeps: "\<exists>m n. centered c w s = replicate m c @ s @ replicate n c \<and> m \<le> n \<and> n \<le> Suc m"
proof -
  have half: "(p :: nat) div 2 \<le> p - p div 2 \<and> p - p div 2 \<le> Suc (p div 2)" for p by linarith
  show ?thesis unfolding centered_def Let_def using half by blast
qed

lemma length_logNerdstats [simp]: "length (logNerdstats t) = 15"
  by (simp add: logNerdstats_def Let_def)

lemma length_stats_lines [simp]: "length (stats_lines now s) = 12"
  by (simp add: stats_lines_def)

text \<open>Printing cannot fail on trackers that keep their invariant, and takes 16 lines for each.\<close>

lemma tracker_text_ok:
  assumes "tracker_inv t"
  shows "\<exists>line. tracker_text I now t = Inr line"
proof -
  have "eth_wf (m_macAddress t)" and "eth_wf (m_broadcastAddress t)"
    using assms by (simp_all add: tracker_inv_def tracker_wf_def)
  note texts = this [THEN eth_toString_join]
  show ?thesis unfolding tracker_text_def texts res_bind_Inr by (rule exI) (rule refl)
qed

lemma tracker_lines_ok:
  assumes "\<forall>t \<in> snd ` set ts. tracker_inv t"
  shows "\<exists>lines. tracker_lines I now ts = Inr lines \<and> length lines = 16 * length ts"
  using assms
proof (induction I now ts rule: tracker_lines.induct)
  case (2 I now i t rest)
  obtain line where "tracker_text I (now 0) t = Inr line"
    using tracker_text_ok [of t I "now 0"] 2(2) by auto
  with 2 show ?case by auto
qed simp

text \<open>
  So a reachable monitor prints its statistics without failing: nothing while it enumerates or when they are
  not asked for, and otherwise 14 lines and 16 more for every interface it knows.
\<close>

lemma statistics_printed:
  assumes "mnl_attributes (env_mnl E)" and "reachable E sy"
  shows "\<exists>lines. printStatsForNerdsIfEnabled I now sy = Inr lines \<and>
    length lines =
      (if m_cacheState sy \<noteq> WaitingForChanges \<or> \<not> bit (m_runtimeOptions sy) (RuntimeFlag_underlying RFlag_StatsForNerds)
       then 0 else 14 + 16 * length (m_trackers sy))"
proof -
  have "trackers_inv (m_trackers sy)"
    using reachable_inv [OF assms] by (simp add: sys_inv_def)
  then have "\<forall>t \<in> snd ` set (m_trackers sy). tracker_inv t"
    by (auto simp: trackers_inv_def map_find_iff)
  from tracker_lines_ok [OF this]
  obtain lines where "tracker_lines I (\<lambda>k. now (Suc k)) (m_trackers sy) = Inr lines"
    and "length lines = 16 * length (m_trackers sy)" by blast
  then show ?thesis
    by (auto simp: printStatsForNerdsIfEnabled_def isEnumerating_def test_option_ok)
qed

end
