(* ===== verification/Doctest_Text.thy ===== *)
theory Doctest_Text
  imports Monkas_Prelude
begin

unbundle bit_operations_syntax

text \<open>
  The text functions of the bundled test framework (external/doctest/doctest/doctest.h): C string
  comparison, wildcard matching of filters, the hashes of subcase signatures, and shortening of file
  names. A C string is a list of non-NUL characters whose end is its terminator; \<open>char\<close> is signed,
  as on the platforms the program is built for.
\<close>

section \<open>Characters and comparison\<close>

definition char_int :: "char \<Rightarrow> int" where
  "char_int c = (let n = int (of_char c) in if n < 128 then n else n - 256)"

text \<open>\<open>std::strcmp\<close>, which compares as \<open>unsigned char\<close>, and doctest's own \<open>stricmp\<close>, which does not.\<close>

fun strcmp :: "string \<Rightarrow> string \<Rightarrow> int" where
  "strcmp [] [] = 0"
| "strcmp [] (b # bs) = - int (of_char b)"
| "strcmp (a # as) [] = int (of_char a)"
| "strcmp (a # as) (b # bs) = (if a = b then strcmp as bs else int (of_char a) - int (of_char b))"

fun stricmp :: "string \<Rightarrow> string \<Rightarrow> int" where
  "stricmp [] [] = 0"
| "stricmp [] (b # bs) = - char_int (tolower b)"
| "stricmp (a # as) [] = char_int (tolower a)"
| "stricmp (a # as) (b # bs) =
     (let d = char_int (tolower a) - char_int (tolower b) in if d \<noteq> 0 then d else stricmp as bs)"

text \<open>\<open>std::strstr\<close>: the rest of the text from the first occurrence on.\<close>

fun strstr :: "string \<Rightarrow> string \<Rightarrow> string option" where
  "strstr s pat =
     (if take (length pat) s = pat then Some s
      else case s of [] \<Rightarrow> None | _ # s' \<Rightarrow> strstr s' pat)"

declare strstr.simps [simp del]

section \<open>Wildcards\<close>

definition same_char :: "bool \<Rightarrow> char \<Rightarrow> char \<Rightarrow> bool" where
  "same_char caseSensitive w s = (if caseSensitive then w = s else tolower w = tolower s)"

text \<open>The first loop of \<open>wildcmp\<close>, up to the first star; \<open>None\<close> is \<open>return 0\<close>.\<close>

fun wild_head :: "bool \<Rightarrow> string \<Rightarrow> string \<Rightarrow> (string \<times> string) option" where
  "wild_head cs [] wild = Some ([], wild)"
| "wild_head cs (s # str) [] = None"
| "wild_head cs (s # str) (w # wild) =
     (if w = CHR ''*'' then Some (s # str, w # wild)
      else if \<not> same_char cs w s \<and> w \<noteq> CHR ''?'' then None
      else wild_head cs str wild)"

text \<open>
  The second loop, with the positions \<open>mp\<close> behind the last star and \<open>cp\<close> where to try next, and the
  check of what is left of the pattern.
\<close>

function wild_loop :: "bool \<Rightarrow> string \<Rightarrow> string \<Rightarrow> string \<Rightarrow> string \<Rightarrow> bool" where
  "wild_loop cs [] wild cp mp = list_all (\<lambda>w. w = CHR ''*'') wild"
| "wild_loop cs (s # str) [] cp mp = wild_loop cs cp mp (tl cp) mp"
| "wild_loop cs (s # str) (w # wild) cp mp =
     (if w = CHR ''*'' then (if wild = [] then True else wild_loop cs (s # str) wild str wild)
      else if same_char cs w s \<or> w = CHR ''?'' then wild_loop cs str wild cp mp
      else wild_loop cs cp mp (tl cp) mp)"
  by pat_completeness auto
termination
proof (relation "inv_image (less_than <*lex*> less_than <*lex*> less_than)
    (\<lambda>(cs, str, wild, cp, mp). (max (length wild) (length mp), length cp, length str))")
  fix cs s str cp mp
  show "((cs, cp, mp, tl cp, mp), cs, s # str, [], cp, mp) \<in> inv_image (less_than <*lex*> less_than <*lex*> less_than)
      (\<lambda>(cs, str, wild, cp, mp). (max (length wild) (length mp), length cp, length str))"
    by (cases cp) auto
next
  fix cs s str w wild cp mp
  show "((cs, cp, mp, tl cp, mp), cs, s # str, w # wild, cp, mp) \<in> inv_image (less_than <*lex*> less_than <*lex*> less_than)
      (\<lambda>(cs, str, wild, cp, mp). (max (length wild) (length mp), length cp, length str))"
    by (cases cp) auto
qed auto

definition wildcmp :: "string \<Rightarrow> string \<Rightarrow> bool \<Rightarrow> bool" where
  "wildcmp str wild caseSensitive =
     (case wild_head caseSensitive str wild of
        None \<Rightarrow> False
      | Some (str', wild') \<Rightarrow> wild_loop caseSensitive str' wild' str wild)"

definition matchesAny :: "string \<Rightarrow> string list \<Rightarrow> bool \<Rightarrow> bool \<Rightarrow> bool" where
  "matchesAny name filters matchEmpty caseSensitive =
     (if filters = [] \<and> matchEmpty then True
      else list_ex (\<lambda>curr. wildcmp name curr caseSensitive) filters)"

text \<open>What a pattern matches: a star any text, a question mark any character, the rest itself.\<close>

fun glob :: "bool \<Rightarrow> string \<Rightarrow> string \<Rightarrow> bool" where
  "glob cs [] s = (s = [])"
| "glob cs (p # ps) s =
     (if p = CHR ''*'' then (\<exists>k \<le> length s. glob cs ps (drop k s))
      else s \<noteq> [] \<and> (same_char cs p (hd s) \<or> p = CHR ''?'') \<and> glob cs ps (tl s))"

definition glob_later :: "bool \<Rightarrow> string \<Rightarrow> string \<Rightarrow> bool" where
  "glob_later cs p s \<longleftrightarrow> (\<exists>k \<le> length s. glob cs p (drop k s))"

lemma glob_Nil: "glob cs p [] = list_all (\<lambda>w. w = CHR ''*'') p"
  by (induction p) auto

lemma glob_later_Cons: "glob_later cs p (x # s) \<longleftrightarrow> glob cs p (x # s) \<or> glob_later cs p s"
proof
  assume "glob_later cs p (x # s)"
  then obtain k where "k \<le> Suc (length s)" "glob cs p (drop k (x # s))"
    by (auto simp: glob_later_def)
  then show "glob cs p (x # s) \<or> glob_later cs p s"
    by (cases k) (auto simp: glob_later_def)
next
  assume "glob cs p (x # s) \<or> glob_later cs p s"
  then show "glob_later cs p (x # s)"
  proof
    assume "glob cs p (x # s)"
    then show ?thesis unfolding glob_later_def by (intro exI [of _ 0]) simp
  next
    assume "glob_later cs p s"
    then obtain k where "k \<le> length s" "glob cs p (drop k s)" by (auto simp: glob_later_def)
    then show ?thesis unfolding glob_later_def by (intro exI [of _ "Suc k"]) simp
  qed
qed

lemma glob_later_Nil: "glob_later cs p [] = glob cs p []"
  by (simp add: glob_later_def)

lemma glob_later_tl: "glob_later cs p s = (glob cs p s \<or> glob_later cs p (tl s))"
  by (cases s) (auto simp: glob_later_Cons glob_later_Nil)

text \<open>A part of a pattern without stars takes as many characters as it has.\<close>

lemma glob_plain:
  "CHR ''*'' \<notin> set u \<Longrightarrow> glob cs (u @ p) s \<Longrightarrow> length u \<le> length s \<and> glob cs p (drop (length u) s)"
proof (induction u arbitrary: s)
  case (Cons c u)
  then obtain x s' where "s = x # s'" by (cases s) auto
  with Cons show ?case by auto
qed simp

lemma wild_loop_spec:
  assumes "mp = u @ wild" and "CHR ''*'' \<notin> set u" and "length cp + 1 = length str + length u"
    and "cp = drop 1 (before @ str)" and "length before = length u"
  shows "wild_loop cs str wild cp mp = (glob cs wild str \<or> glob_later cs mp cp)"
  using assms
proof (induction cs str wild cp mp arbitrary: u before rule: wild_loop.induct)
  case (1 cs wild cp mp)
  have "\<not> glob_later cs mp cp"
  proof
    assume "glob_later cs mp cp"
    then obtain k where "glob cs (u @ wild) (drop k cp)"
      using 1 by (auto simp: glob_later_def)
    from glob_plain [OF 1(2) this] 1(3) show False by auto
  qed
  then show ?case by (simp add: glob_Nil)
next
  case (2 cs s str cp mp)
  have "wild_loop cs cp mp (tl cp) mp = (glob cs mp cp \<or> glob_later cs mp (tl cp))"
  proof (cases cp)
    case Nil
    then show ?thesis by (simp add: glob_Nil glob_later_Nil)
  next
    case (Cons c cp')
    then show ?thesis by (intro "2.IH" [of "[]" "[]"]) auto
  qed
  then have "wild_loop cs (s # str) [] cp mp = (glob cs mp cp \<or> glob_later cs mp (tl cp))"
    by (simp only: wild_loop.simps)
  moreover have "\<not> glob cs [] (s # str)" by simp
  ultimately show ?case using glob_later_tl [of cs mp cp] by argo
next
  case (3 cs s str w wild cp mp)
  consider (star) "w = CHR ''*''" | (eq) "w \<noteq> CHR ''*''" "same_char cs w s \<or> w = CHR ''?''"
    | (ne) "w \<noteq> CHR ''*''" "\<not> (same_char cs w s \<or> w = CHR ''?'')" by blast
  then show ?case
  proof cases
    case star
    have later: "glob_later cs wild (s # str)" if "glob_later cs mp cp"
    proof -
      from that obtain k where k: "k \<le> length cp" "glob cs (u @ w # wild) (drop k cp)"
        using 3(4) by (auto simp: glob_later_def)
      from glob_plain [OF 3(5) k(2)] star obtain j
        where j: "j \<le> length (drop (length u) (drop k cp))" "glob cs wild (drop j (drop (length u) (drop k cp)))"
        by auto
      have "drop (length u) cp = drop (Suc (length before)) (before @ s # str)"
        by (simp only: 3(7,8) drop_drop) simp
      then have "drop (length u) cp = drop 1 (s # str)"
        by (simp only: drop_append) simp
      then have "drop j (drop (length u) (drop k cp)) = drop (j + k + 1) (s # str)"
        by (metis add.commute drop_drop)
      moreover have "j + k + 1 \<le> length (s # str)"
        using j(1) k(1) 3(6) conjunct1 [OF glob_plain [OF 3(5) k(2)]] by (simp del: glob.simps)
      ultimately show ?thesis
        using j(2) unfolding glob_later_def by metis
    qed
    show ?thesis
    proof (cases "wild = []")
      case True
      then show ?thesis using star by (auto intro!: exI [of _ "Suc (length str)"])
    next
      case False
      have "wild_loop cs (s # str) wild str wild = (glob cs wild (s # str) \<or> glob_later cs wild str)"
        using 3(1) [OF star False, of "[]" "[]"] by simp
      then show ?thesis
        using star False later by (auto simp: glob_later_Cons [symmetric]) (auto simp: glob_later_def)
    qed
  next
    case eq
    have "wild_loop cs str wild cp mp = (glob cs wild str \<or> glob_later cs mp cp)"
      using 3(2) [OF eq, of "u @ [w]" "before @ [s]"] 3(4-8) eq by auto
    then show ?thesis using eq by simp
  next
    case ne
    have "wild_loop cs cp mp (tl cp) mp = (glob cs mp cp \<or> glob_later cs mp (tl cp))"
    proof (cases cp)
      case Nil
      then show ?thesis by (simp add: glob_Nil glob_later_Nil)
    next
      case (Cons c cp')
      with ne show ?thesis by (intro 3(3) [of "[]" "[]"]) auto
    qed
    with ne show ?thesis by (auto simp: glob_later_tl [of cs mp cp])
  qed
qed

lemma wild_head_spec:
  "case wild_head cs str wild of None \<Rightarrow> \<not> glob cs wild str
   | Some (str', wild') \<Rightarrow> glob cs wild str = glob cs wild' str' \<and> (str' = [] \<or> (\<exists>w. wild' = CHR ''*'' # w))"
  by (induction cs str wild rule: wild_head.induct) (auto split: option.splits)

lemma wild_loop_star:
  "wild_loop cs (s # str) (CHR ''*'' # wild) cp mp = glob cs (CHR ''*'' # wild) (s # str)"
proof (cases "wild = []")
  case True
  then show ?thesis by (auto intro: exI [of _ "Suc (length str)"])
next
  case False
  have "wild_loop cs (s # str) wild str wild = (glob cs wild (s # str) \<or> glob_later cs wild str)"
    by (rule wild_loop_spec [of _ "[]" _ _ _ "[]"]) auto
  with False show ?thesis
    by (simp add: glob_later_Cons [symmetric]) (auto simp: glob_later_def)
qed

text \<open>
  (C35) \<open>wildcmp\<close>, which keeps one position to come back to and never looks further back than the last
  star, decides exactly the matching of patterns with stars and question marks; it ends on every
  text and pattern.
\<close>

theorem wildcmp_decides_glob: "wildcmp str wild caseSensitive = glob caseSensitive wild str"
proof (cases "wild_head caseSensitive str wild")
  case None
  then show ?thesis using wild_head_spec [where cs = caseSensitive and str = str and wild = wild] by (simp add: wildcmp_def)
next
  case (Some p)
  obtain str' wild' where p: "p = (str', wild')" by (cases p)
  then have head: "glob caseSensitive wild str = glob caseSensitive wild' str'"
      "str' = [] \<or> (\<exists>w. wild' = CHR ''*'' # w)"
    using wild_head_spec [where cs = caseSensitive and str = str and wild = wild] Some by auto
  have "wild_loop caseSensitive str' wild' str wild = glob caseSensitive wild' str'"
  proof (cases str')
    case Nil
    then show ?thesis by (simp only: wild_loop.simps(1) glob_Nil)
  next
    case (Cons c str'')
    then show ?thesis using head(2) wild_loop_star by auto
  qed
  then show ?thesis using Some p head(1) by (simp add: wildcmp_def)
qed

section \<open>Hashes\<close>

definition hash_pair :: "u64 \<Rightarrow> u64 \<Rightarrow> u64" where
  "hash_pair a b = push_bit 5 a + b"

fun hash_loop :: "u64 \<Rightarrow> string \<Rightarrow> u64" where
  "hash_loop h [] = h"
| "hash_loop h (c # str) = hash_loop ((push_bit 5 h + h) + word_of_int (char_int c)) str"

definition hash_text :: "string \<Rightarrow> u64" where
  "hash_text str = hash_loop 5381 str"

text \<open>The signature of a subcase: its name, file and line (an \<open>int\<close>).\<close>

record subcase_signature =
  sig_name :: string
  sig_file :: string
  sig_line :: int

definition hash_signature :: "subcase_signature \<Rightarrow> u64" where
  "hash_signature sig =
     hash_pair (hash_pair (hash_text (sig_file sig)) (hash_text (sig_name sig))) (word_of_int (sig_line sig))"

definition hash_signatures :: "subcase_signature list \<Rightarrow> u64" where
  "hash_signatures sigs = fold (\<lambda>sig running. hash_pair running (hash_signature sig)) sigs 0"

definition hash_signatures_prefix :: "subcase_signature list \<Rightarrow> nat \<Rightarrow> failure + u64" where
  "hash_signatures_prefix sigs count =
     (if length sigs < count then Inl Out_of_bounds
      else Inr (fold (\<lambda>sig running. hash_pair running (hash_signature sig)) (take count sigs) 0))"

definition signature_eq :: "subcase_signature \<Rightarrow> subcase_signature \<Rightarrow> bool" where
  "signature_eq a b \<longleftrightarrow>
     sig_line a = sig_line b \<and> strcmp (sig_file a) (sig_file b) = 0 \<and> strcmp (sig_name a) (sig_name b) = 0"

definition signature_less :: "subcase_signature \<Rightarrow> subcase_signature \<Rightarrow> bool" where
  "signature_less a b =
     (if sig_line a \<noteq> sig_line b then sig_line a < sig_line b
      else if strcmp (sig_file a) (sig_file b) \<noteq> 0 then strcmp (sig_file a) (sig_file b) < 0
      else strcmp (sig_name a) (sig_name b) < 0)"

text \<open>On C strings, which hold no NUL, \<open>strcmp\<close> tells equal texts.\<close>

lemma of_char_positive: "CHR 0x00 \<noteq> c \<Longrightarrow> 0 < (of_char c :: nat)"
proof (rule ccontr)
  assume c: "CHR 0x00 \<noteq> c" and "\<not> 0 < (of_char c :: nat)"
  then have "(of_char c :: nat) = of_char (CHR 0x00)" by simp
  then have "c = CHR 0x00" by (simp only: of_char_eq_iff)
  with c show False by simp
qed

lemma strcmp_eq:
  "CHR 0x00 \<notin> set a \<Longrightarrow> CHR 0x00 \<notin> set b \<Longrightarrow> strcmp a b = 0 \<longleftrightarrow> a = b"
  by (induction a b rule: strcmp.induct) (auto simp: of_char_positive simp del: of_nat_of_char)

section \<open>File names\<close>

text \<open>\<open>std::strrchr\<close>: the index of the last occurrence.\<close>

fun strrchr :: "string \<Rightarrow> char \<Rightarrow> nat option" where
  "strrchr [] c = None"
| "strrchr (x # s) c =
     (case strrchr s c of Some i \<Rightarrow> Some (Suc i) | None \<Rightarrow> if x = c then Some 0 else None)"

text \<open>\<open>std::strncmp\<close> being zero, where the first text has at least as many characters as are compared.\<close>

definition strncmp_zero :: "string \<Rightarrow> string \<Rightarrow> bool" where
  "strncmp_zero prefix file \<longleftrightarrow> take (length prefix) file = prefix"

text \<open>The loop over the prefixes, which are separated by colons, with the longest match so far.\<close>

function longest_match :: "string \<Rightarrow> string \<Rightarrow> nat \<Rightarrow> nat" where
  "longest_match file [] longest = longest"
| "longest_match file (c # cs) longest =
     (let prefix = takeWhile (\<lambda>x. x \<noteq> CHR '':'') (c # cs); size = length prefix
      in longest_match file (drop (size + 1) (c # cs))
           (if size > longest then (if strncmp_zero prefix file then size else longest) else longest))"
  by pat_completeness auto
termination
  by (relation "measure (\<lambda>(file, rest, longest). length rest)") auto

definition skipPathFromFilename :: "bool \<Rightarrow> string \<Rightarrow> string \<Rightarrow> string" where
  "skipPathFromFilename no_path prefixes file =
     (if no_path
      then (case (strrchr file (CHR 0x5C), strrchr file (CHR ''/'')) of
              (None, None) \<Rightarrow> file
            | (Some back, None) \<Rightarrow> drop (back + 1) file
            | (None, Some forward) \<Rightarrow> drop (forward + 1) file
            | (Some back, Some forward) \<Rightarrow> drop ((if back > forward then back else forward) + 1) file)
      else drop (longest_match file prefixes 0) file)"

text \<open>The prefixes between the colons.\<close>

function colon_tokens :: "string \<Rightarrow> string list" where
  "colon_tokens [] = []"
| "colon_tokens (c # cs) =
     takeWhile (\<lambda>x. x \<noteq> CHR '':'') (c # cs)
     # colon_tokens (drop (length (takeWhile (\<lambda>x. x \<noteq> CHR '':'') (c # cs)) + 1) (c # cs))"
  by pat_completeness auto
termination
  by (relation "measure length") auto

declare longest_match.simps [simp del] colon_tokens.simps [simp del]

lemma strrchr_None: "strrchr s c = None \<longleftrightarrow> c \<notin> set s"
  by (induction s) (auto split: option.splits)

lemma strrchr_Some: "strrchr s c = Some i \<Longrightarrow> i < length s \<and> s ! i = c \<and> c \<notin> set (drop (Suc i) s)"
  by (induction s arbitrary: i) (auto split: option.splits if_splits simp: strrchr_None)

lemma longest_match_spec:
  "longest_match name rest longest =
     Max (insert longest (length ` {p \<in> set (colon_tokens rest). strncmp_zero p name}))"
proof (induction name rest longest rule: longest_match.induct)
  case (2 name c cs longest)
  define p where "p = takeWhile (\<lambda>x. x \<noteq> CHR '':'') (c # cs)"
  define rest where "rest = drop (length p + 1) (c # cs)"
  define M where "M = length ` {q \<in> set (colon_tokens rest). strncmp_zero q name}"
  have fin: "finite M" by (simp add: M_def)
  have tokens: "colon_tokens (c # cs) = p # colon_tokens rest"
    by (simp only: colon_tokens.simps p_def rest_def)
  have step: "longest_match name (c # cs) longest =
      longest_match name rest (if length p > longest then (if strncmp_zero p name then length p else longest) else longest)"
    by (simp only: longest_match.simps Let_def p_def rest_def)
  also have "\<dots> = Max (insert (if length p > longest then (if strncmp_zero p name then length p else longest) else longest) M)"
    using "2.IH" [OF p_def refl] by (simp only: rest_def M_def)
  also have "\<dots> = Max (insert longest (length ` {q \<in> set (colon_tokens (c # cs)). strncmp_zero q name}))"
  proof (cases "strncmp_zero p name")
    case True
    then have set_eq: "length ` {q \<in> set (colon_tokens (c # cs)). strncmp_zero q name} = insert (length p) M"
      by (auto simp: tokens M_def)
    have swap: "Max (insert longest (insert (length p) M)) = Max (insert (max longest (length p)) M)"
      using fin by (cases "M = {}") (simp_all add: max.assoc)
    show ?thesis
      unfolding set_eq swap using True by (auto simp: max_def intro!: arg_cong [where f = Max])
  next
    case False
    then have "length ` {q \<in> set (colon_tokens (c # cs)). strncmp_zero q name} = M"
      by (auto simp: tokens M_def)
    then show ?thesis using False by simp
  qed
  finally show ?case .
qed (simp add: colon_tokens.simps longest_match.simps)

text \<open>
  With \<open>no-path-filenames\<close> the file name is cut behind its last slash or backslash; otherwise the
  longest of the configured prefixes that the name starts with is removed.
\<close>

theorem skipPathFromFilename_spec:
  "(let rest = skipPathFromFilename True prefixes name
    in CHR ''/'' \<notin> set rest \<and> CHR 0x5C \<notin> set rest \<and>
       (\<exists>path. name = path @ rest \<and> (path = [] \<or> last path \<in> {CHR ''/'', CHR 0x5C}))) \<and>
   skipPathFromFilename False prefixes name =
     drop (Max (insert 0 {length p | p. p \<in> set (colon_tokens prefixes) \<and> take (length p) name = p})) name"
proof
  let ?cut = "\<lambda>i. CHR ''/'' \<notin> set (drop (Suc i) name) \<and> CHR 0x5C \<notin> set (drop (Suc i) name) \<and>
    (\<exists>path. name = path @ drop (Suc i) name \<and> (path = [] \<or> last path \<in> {CHR ''/'', CHR 0x5C}))"
  have cut: "?cut i" if "i < length name" "name ! i \<in> {CHR ''/'', CHR 0x5C}"
    "CHR ''/'' \<notin> set (drop (Suc i) name)" "CHR 0x5C \<notin> set (drop (Suc i) name)" for i
  proof -
    have "name = take (Suc i) name @ drop (Suc i) name" by simp
    moreover have "last (take (Suc i) name) = name ! i"
      using that(1) by (simp add: take_Suc_conv_app_nth)
    ultimately show ?thesis using that by metis
  qed
  have later: "c \<notin> set (drop (Suc j) name)" if "c \<notin> set (drop (Suc i) name)" "i \<le> j" for c i j
    using that set_drop_subset_set_drop [of "Suc i" "Suc j" name] by auto
  have gone: "c \<notin> set (drop i name)" if "c \<notin> set name" for c i
    using that in_set_dropD by fastforce
  show "let rest = skipPathFromFilename True prefixes name
    in CHR ''/'' \<notin> set rest \<and> CHR 0x5C \<notin> set rest \<and>
       (\<exists>path. name = path @ rest \<and> (path = [] \<or> last path \<in> {CHR ''/'', CHR 0x5C}))"
  proof (cases "strrchr name (CHR 0x5C)")
    case bs: None
    show ?thesis
    proof (cases "strrchr name (CHR ''/'')")
      case None
      have "CHR 0x5C \<notin> set name" "CHR ''/'' \<notin> set name"
        using bs None by (simp_all add: strrchr_None)
      then show ?thesis by (simp add: skipPathFromFilename_def bs None)
    next
      case (Some i)
      have "?cut i" using strrchr_Some [OF Some] bs by (intro cut) (auto simp: strrchr_None gone)
      with bs Some show ?thesis by (simp add: skipPathFromFilename_def)
    qed
  next
    case bs: (Some i)
    show ?thesis
    proof (cases "strrchr name (CHR ''/'')")
      case None
      have "?cut i" using strrchr_Some [OF bs] None by (intro cut) (auto simp: strrchr_None gone)
      with bs None show ?thesis by (simp add: skipPathFromFilename_def)
    next
      case (Some j)
      have "?cut (if i > j then i else j)"
        using strrchr_Some [OF bs] strrchr_Some [OF Some] later [of "CHR 0x5C" i j] later [of "CHR ''/''" j i]
        by (intro cut) auto
      with bs Some show ?thesis by (simp add: skipPathFromFilename_def)
    qed
  qed
  show "skipPathFromFilename False prefixes name =
     drop (Max (insert 0 {length p | p. p \<in> set (colon_tokens prefixes) \<and> take (length p) name = p})) name"
    by (simp add: skipPathFromFilename_def longest_match_spec strncmp_zero_def image_def)
       (metis (no_types, lifting))
qed

section \<open>Contains\<close>

definition Contains_checkWith :: "string \<Rightarrow> string \<Rightarrow> bool" where
  "Contains_checkWith pattern other \<longleftrightarrow> strstr other pattern \<noteq> None"

definition toString_Contains :: "string \<Rightarrow> string" where
  "toString_Contains pattern = ''Contains( '' @ pattern @ '' )''"

lemma strstr_None: "strstr s pat = None \<longleftrightarrow> (\<nexists>u v. s = u @ pat @ v)"
proof (induction s)
  case Nil
  then show ?case by (subst strstr.simps) auto
next
  case (Cons x s)
  show ?case
  proof (cases "take (length pat) (x # s) = pat")
    case True
    then have "x # s = [] @ pat @ drop (length pat) (x # s)"
      using append_take_drop_id [of "length pat" "x # s"] by simp
    then show ?thesis using True by (subst strstr.simps) (metis option.distinct(1))
  next
    case False
    then have "(\<exists>u v. x # s = u @ pat @ v) \<longleftrightarrow> (\<exists>u v. s = u @ pat @ v)"
      by (metis append_Cons append_Nil append_eq_conv_conj list.inject neq_Nil_conv)
    then show ?thesis using False Cons by (subst strstr.simps) simp
  qed
qed

lemma strstr_Some: "strstr s pat = Some t \<Longrightarrow> \<exists>u. s = u @ t \<and> take (length pat) t = pat"
proof (induction s)
  case Nil
  then show ?case by (subst (asm) strstr.simps) (auto split: if_splits)
next
  case (Cons x s)
  show ?case
  proof (cases "take (length pat) (x # s) = pat")
    case True
    with Cons.prems have "t = x # s" by (subst (asm) strstr.simps) simp
    then show ?thesis using True by (intro exI [of _ "[]"]) simp
  next
    case False
    with Cons.prems have "strstr s pat = Some t" by (subst (asm) strstr.simps) simp
    with Cons.IH obtain u where "s = u @ t" "take (length pat) t = pat" by auto
    then show ?thesis by (intro exI [of _ "x # u"]) simp
  qed
qed

lemma Contains_checkWith_iff: "Contains_checkWith pattern other \<longleftrightarrow> (\<exists>u v. other = u @ pattern @ v)"
  by (simp add: Contains_checkWith_def strstr_None)

end
