(* ===== verification/Doctest_String.thy ===== *)
theory Doctest_String
  imports Doctest_Text
begin

unbundle bit_operations_syntax

text \<open>
  The class \<open>String\<close> of doctest.h: texts of up to 23 characters live in the object itself, whose last
  byte holds what is left of the 23 (and so doubles as the terminator of a full one); longer ones live
  in a block on the heap. A byte that was never written is \<open>None\<close>. Sizes are 32-bit and wrap; a read or
  write outside a buffer is a failure. Two different objects are assumed in an append (see below), and
  that \<open>delete[]\<close> is called once per block is not part of the model.
\<close>

section \<open>The object\<close>

type_synonym bytes = "char option list"

text \<open>Bit 7 of the last byte tells the two forms of the union apart; it is the constructor here.\<close>

datatype dstring = On_stack bytes | On_heap bytes u32 u32

definition str_len :: u32 where "str_len = 24"
definition str_last :: u32 where "str_last = str_len - 1"
definition npos :: u32 where "npos = - 1"

definition char_of_u32 :: "u32 \<Rightarrow> char" where
  "char_of_u32 n = char_of (unat n)"

definition poke :: "bytes \<Rightarrow> nat \<Rightarrow> char \<Rightarrow> failure + bytes" where
  "poke b i c = (if i < length b then Inr (b[i := Some c]) else Inl Out_of_bounds)"

definition peek :: "bytes \<Rightarrow> nat \<Rightarrow> failure + char" where
  "peek b i = (if i < length b then (case b ! i of Some c \<Rightarrow> Inr c | None \<Rightarrow> Inl Out_of_bounds)
     else Inl Out_of_bounds)"

text \<open>\<open>memcpy\<close> of \<open>n\<close> bytes from offset \<open>from\<close> of one buffer to offset \<open>at\<close> of another.\<close>

definition memcpy :: "bytes \<Rightarrow> nat \<Rightarrow> bytes \<Rightarrow> nat \<Rightarrow> nat \<Rightarrow> failure + bytes" where
  "memcpy dst at src from n =
     (if at + n \<le> length dst \<and> from + n \<le> length src
      then Inr (take at dst @ take n (drop from src) @ drop (at + n) dst)
      else Inl Out_of_bounds)"

text \<open>The characters up to the terminator, as \<open>strlen\<close>, \<open>strcmp\<close> and the stream operator read them.\<close>

fun read_c :: "bytes \<Rightarrow> failure + string" where
  "read_c [] = Inl Out_of_bounds"
| "read_c (None # b) = Inl Out_of_bounds"
| "read_c (Some c # b) = (if c = CHR 0x00 then Inr [] else res_bind (read_c b) (\<lambda>s. Inr (c # s)))"

definition isOnStack :: "dstring \<Rightarrow> bool" where
  "isOnStack d = (case d of On_stack b \<Rightarrow> True | On_heap b n cap \<Rightarrow> False)"

definition block :: "dstring \<Rightarrow> bytes" where
  "block d = (case d of On_stack b \<Rightarrow> b | On_heap b n cap \<Rightarrow> b)"

definition with_block :: "dstring \<Rightarrow> bytes \<Rightarrow> dstring" where
  "with_block d b = (case d of On_stack _ \<Rightarrow> On_stack b | On_heap _ n cap \<Rightarrow> On_heap b n cap)"

definition setLast :: "bytes \<Rightarrow> u32 \<Rightarrow> failure + bytes" where
  "setLast b n = poke b (unat str_last) (char_of_u32 n)"

text \<open>\<open>allocate\<close>, in an object whose own bytes are \<open>buf\<close>.\<close>

definition String_allocate :: "bytes \<Rightarrow> u32 \<Rightarrow> failure + dstring" where
  "String_allocate buf sz =
     (if sz \<le> str_last
      then res_bind (poke buf (unat sz) (CHR 0x00)) (\<lambda>b.
           res_bind (setLast b (str_last - sz)) (\<lambda>b. Inr (On_stack b)))
      else res_bind (poke (replicate (unat (sz + 1)) None) (unat sz) (CHR 0x00)) (\<lambda>b.
           Inr (On_heap b sz (sz + 1))))"

definition String_setSize :: "dstring \<Rightarrow> u32 \<Rightarrow> failure + dstring" where
  "String_setSize d sz =
     (case d of
        On_stack b \<Rightarrow> res_bind (poke b (unat sz) (CHR 0x00)) (\<lambda>b.
          res_bind (setLast b (str_last - sz)) (\<lambda>b. Inr (On_stack b)))
      | On_heap b n cap \<Rightarrow> res_bind (poke b (unat sz) (CHR 0x00)) (\<lambda>b. Inr (On_heap b sz cap)))"

definition String_size :: "dstring \<Rightarrow> failure + u32" where
  "String_size d =
     (case d of
        On_stack b \<Rightarrow> res_bind (peek b (unat str_last)) (\<lambda>c. Inr (str_last - (of_char c AND 31)))
      | On_heap b n cap \<Rightarrow> Inr n)"

definition String_capacity :: "dstring \<Rightarrow> u32" where
  "String_capacity d = (case d of On_stack b \<Rightarrow> str_len | On_heap b n cap \<Rightarrow> cap)"

section \<open>Construction and copies\<close>

text \<open>The bytes of an object before its constructor has run.\<close>

definition raw_object :: bytes where
  "raw_object = replicate 24 None"

definition String_empty :: "failure + dstring" where
  "String_empty =
     res_bind (poke raw_object 0 (CHR 0x00)) (\<lambda>b. res_bind (setLast b str_last) (\<lambda>b. Inr (On_stack b)))"

text \<open>From \<open>in_size\<close> bytes of a buffer, starting at an offset.\<close>

definition String_from :: "bytes \<Rightarrow> nat \<Rightarrow> u32 \<Rightarrow> failure + dstring" where
  "String_from inp from in_size =
     res_bind (String_allocate raw_object in_size) (\<lambda>d.
     res_bind (memcpy (block d) 0 inp from (unat in_size)) (\<lambda>b. Inr (with_block d b)))"

text \<open>From a C string: a literal, with its terminator.\<close>

definition String_literal :: "string \<Rightarrow> failure + dstring" where
  "String_literal s =
     String_from (map Some (s @ [CHR 0x00])) 0 (of_nat (length (c_str s)))"

definition String_copy :: "bytes \<Rightarrow> dstring \<Rightarrow> failure + dstring" where
  "String_copy own other =
     (case other of
        On_stack b \<Rightarrow> res_bind (memcpy own 0 b 0 (unat str_len)) (\<lambda>b. Inr (On_stack b))
      | On_heap b n cap \<Rightarrow> res_bind (String_allocate own n) (\<lambda>d.
          res_bind (memcpy (block d) 0 b 0 (unat n)) (\<lambda>b. Inr (with_block d b))))"

definition String_assign :: "dstring \<Rightarrow> dstring \<Rightarrow> failure + dstring" where
  "String_assign this other =
     String_copy (case this of On_stack b \<Rightarrow> b | On_heap _ _ _ \<Rightarrow> raw_object) other"

text \<open>A move takes the bytes over and leaves the other object empty: its first and last byte are set.\<close>

definition String_move :: "dstring \<Rightarrow> failure + dstring \<times> dstring" where
  "String_move other =
     res_bind (poke (case other of On_stack b \<Rightarrow> b | On_heap _ _ _ \<Rightarrow> raw_object) 0 (CHR 0x00)) (\<lambda>b.
     res_bind (setLast b str_last) (\<lambda>b. Inr (other, On_stack b)))"

section \<open>Append\<close>

text \<open>
  \<open>operator+=\<close> for a different object \<open>other\<close>. (Appended to itself the object's \<open>memcpy\<close> overlaps its
  source, which is undefined; the model leaves that call out.)
\<close>

definition String_append :: "dstring \<Rightarrow> dstring \<Rightarrow> failure + dstring" where
  "String_append this other =
     res_bind (String_size this) (\<lambda>my_old_size.
     res_bind (String_size other) (\<lambda>other_size.
     let total_size = my_old_size + other_size in
     case this of
       On_stack buf \<Rightarrow>
         if total_size < str_len
         then res_bind (memcpy buf (unat my_old_size) (block other) 0 (unat (other_size + 1))) (\<lambda>b.
              res_bind (setLast b (str_last - total_size)) (\<lambda>b. Inr (On_stack b)))
         else res_bind (memcpy (replicate (unat (total_size + 1)) None) 0 buf 0 (unat my_old_size)) (\<lambda>temp.
              res_bind (memcpy temp (unat my_old_size) (block other) 0 (unat (other_size + 1))) (\<lambda>b.
              Inr (On_heap b total_size (total_size + 1))))
     | On_heap blk n cap \<Rightarrow>
         if cap > total_size
         then res_bind (memcpy blk (unat my_old_size) (block other) 0 (unat (other_size + 1))) (\<lambda>b.
              Inr (On_heap b total_size cap))
         else let cap2 = cap * 2; cap' = (if cap2 \<le> total_size then total_size + 1 else cap2) in
              res_bind (memcpy (replicate (unat cap') None) 0 blk 0 (unat my_old_size)) (\<lambda>temp.
              res_bind (memcpy temp (unat my_old_size) (block other) 0 (unat (other_size + 1))) (\<lambda>b.
              Inr (On_heap b total_size cap')))))"

definition String_plus :: "dstring \<Rightarrow> dstring \<Rightarrow> failure + dstring" where
  "String_plus lhs rhs = res_bind (String_copy raw_object lhs) (\<lambda>d. String_append d rhs)"

section \<open>Access, search, comparison\<close>

definition String_at :: "dstring \<Rightarrow> u32 \<Rightarrow> failure + char" where
  "String_at d i = peek (block d) (unat i)"

definition String_substr_rvalue :: "dstring \<Rightarrow> u32 \<Rightarrow> u32 \<Rightarrow> failure + dstring" where
  "String_substr_rvalue d pos cnt =
     res_bind (String_size d) (\<lambda>n.
     let cnt = min cnt (n - pos) in
     res_bind (memcpy (block d) 0 (block d) (unat pos) (unat cnt)) (\<lambda>b.
     String_setSize (with_block d b) cnt))"

definition String_substr :: "dstring \<Rightarrow> u32 \<Rightarrow> u32 \<Rightarrow> failure + dstring" where
  "String_substr d pos cnt =
     res_bind (String_size d) (\<lambda>n. String_from (block d) (unat pos) (min cnt (n - pos)))"

text \<open>The loops of \<open>find\<close> and \<open>rfind\<close>, over the index of the pointer \<open>it\<close>.\<close>

function find_loop :: "bytes \<Rightarrow> nat \<Rightarrow> nat \<Rightarrow> char \<Rightarrow> failure + u32" where
  "find_loop b it end ch =
     (if it < end
      then res_bind (peek b it) (\<lambda>c. if c = ch then Inr (of_nat it) else find_loop b (it + 1) end ch)
      else Inr npos)"
  by pat_completeness auto
termination
  by (relation "measure (\<lambda>(b, it, end, ch). end - it)") auto

definition String_find :: "dstring \<Rightarrow> char \<Rightarrow> u32 \<Rightarrow> failure + u32" where
  "String_find d ch pos =
     res_bind (String_size d) (\<lambda>n. find_loop (block d) (unat pos) (unat n) ch)"

fun rfind_loop :: "bytes \<Rightarrow> nat \<Rightarrow> char \<Rightarrow> failure + u32" where
  "rfind_loop b it ch =
     res_bind (peek b it) (\<lambda>c.
       if c = ch then Inr (of_nat it) else (case it of 0 \<Rightarrow> Inr npos | Suc i \<Rightarrow> rfind_loop b i ch))"

definition String_rfind :: "dstring \<Rightarrow> char \<Rightarrow> u32 \<Rightarrow> failure + u32" where
  "String_rfind d ch pos =
     res_bind (String_size d) (\<lambda>n. rfind_loop (block d) (unat (min pos (n - 1))) ch)"

definition String_compare :: "dstring \<Rightarrow> string \<Rightarrow> bool \<Rightarrow> failure + int" where
  "String_compare d other no_case =
     res_bind (read_c (block d)) (\<lambda>s. Inr (if no_case then stricmp s other else strcmp s other))"

definition String_compare_to :: "dstring \<Rightarrow> dstring \<Rightarrow> bool \<Rightarrow> failure + int" where
  "String_compare_to d other no_case = res_bind (read_c (block other)) (\<lambda>t. String_compare d t no_case)"

definition String_eq :: "dstring \<Rightarrow> dstring \<Rightarrow> failure + bool" where
  "String_eq a b = res_bind (String_compare_to a b False) (\<lambda>r. Inr (r = 0))"
definition String_ne :: "dstring \<Rightarrow> dstring \<Rightarrow> failure + bool" where
  "String_ne a b = res_bind (String_compare_to a b False) (\<lambda>r. Inr (r \<noteq> 0))"
definition String_lt :: "dstring \<Rightarrow> dstring \<Rightarrow> failure + bool" where
  "String_lt a b = res_bind (String_compare_to a b False) (\<lambda>r. Inr (r < 0))"
definition String_gt :: "dstring \<Rightarrow> dstring \<Rightarrow> failure + bool" where
  "String_gt a b = res_bind (String_compare_to a b False) (\<lambda>r. Inr (r > 0))"
definition String_le :: "dstring \<Rightarrow> dstring \<Rightarrow> failure + bool" where
  "String_le a b = res_bind (String_ne a b) (\<lambda>ne.
     if ne then res_bind (String_compare_to a b False) (\<lambda>r. Inr (r < 0)) else Inr True)"
definition String_ge :: "dstring \<Rightarrow> dstring \<Rightarrow> failure + bool" where
  "String_ge a b = res_bind (String_ne a b) (\<lambda>ne.
     if ne then res_bind (String_compare_to a b False) (\<lambda>r. Inr (r > 0)) else Inr True)"

definition String_output :: "dstring \<Rightarrow> failure + string" where
  "String_output d = read_c (block d)"

declare find_loop.simps [simp del] rfind_loop.simps [simp del]

section \<open>What an object stands for\<close>

text \<open>
  The object holds the text \<open>s\<close>: it is in the block, terminated, and the size is recorded, on the
  stack as what is left of 23, on the heap in a field within the capacity.
\<close>

definition holds :: "bytes \<Rightarrow> string \<Rightarrow> bool" where
  "holds b s \<longleftrightarrow> (\<exists>rest. b = map Some (s @ [CHR 0x00]) @ rest)"

definition represents :: "dstring \<Rightarrow> string \<Rightarrow> bool" where
  "represents d s \<longleftrightarrow> (case d of
      On_stack b \<Rightarrow> length b = 24 \<and> length s \<le> 23 \<and> holds b s \<and> b ! 23 = Some (char_of (23 - length s))
    | On_heap b n cap \<Rightarrow> length b = unat cap \<and> unat n = length s \<and> holds b s)"

lemma str_consts [simp]: "unat str_last = 23" "str_last = 23" "str_len = 24" "unat str_len = 24"
  by (simp_all add: str_last_def str_len_def)

lemma holds_nth: "holds b s \<longleftrightarrow> length s < length b \<and> (\<forall>i < length s. b ! i = Some (s ! i)) \<and> b ! length s = Some (CHR 0x00)"
proof
  assume "holds b s"
  then show "length s < length b \<and> (\<forall>i < length s. b ! i = Some (s ! i)) \<and> b ! length s = Some (CHR 0x00)"
    by (auto simp: holds_def nth_append)
next
  assume a: "length s < length b \<and> (\<forall>i < length s. b ! i = Some (s ! i)) \<and> b ! length s = Some (CHR 0x00)"
  have "take (Suc (length s)) b = map Some (s @ [CHR 0x00])"
    using a by (intro nth_equalityI) (auto simp: nth_append less_Suc_eq)
  then have "b = map Some (s @ [CHR 0x00]) @ drop (Suc (length s)) b"
    by (metis append_take_drop_id)
  then show "holds b s" unfolding holds_def ..
qed

lemma read_c_holds: "holds b s \<Longrightarrow> CHR 0x00 \<notin> set s \<Longrightarrow> read_c b = Inr s"
proof (induction s arbitrary: b)
  case (Cons c s)
  then obtain rest where "b = Some c # map Some (s @ [CHR 0x00]) @ rest" by (auto simp: holds_def)
  with Cons show ?case by (auto simp: holds_def)
qed (auto simp: holds_def)

lemma u32_size:
  assumes "n < 2 ^ 32"
  shows "unat (of_nat n :: u32) = n"
  using assms by (simp add: unat_of_nat take_bit_eq_mod)

lemma size_of_last: "n \<le> 23 \<Longrightarrow> 23 - ((of_char (char_of (23 - n) :: char) :: u32) AND 31) = of_nat n"
proof -
  assume n: "n \<le> 23"
  have "\<forall>k \<in> set [0..<24]. 23 - ((of_char (char_of (23 - k :: nat) :: char) :: u32) AND 31) = of_nat k"
    by code_simp
  then show ?thesis using n by auto
qed

lemma size_represents: "represents d s \<Longrightarrow> String_size d = Inr (of_nat (length s))"
  by (auto simp: represents_def String_size_def peek_def size_of_last split: dstring.splits)
     (metis of_nat_unat ucast_id)

lemma block_represents: "represents d s \<Longrightarrow> holds (block d) s"
  by (auto simp: represents_def block_def split: dstring.splits)

lemma heap_bound: "represents d s \<Longrightarrow> length s < 2 ^ 32"
proof (cases d)
  case (On_heap b n cap)
  assume "represents d s"
  then have "length s = unat n" using On_heap by (simp add: represents_def)
  then show ?thesis using unsigned_less [of n] by simp
qed (auto simp: represents_def)

text \<open>The shared ways to build an object: a text written into a stack buffer, and into a block.\<close>

lemma char_of_u32_last: "n \<le> 23 \<Longrightarrow> char_of_u32 (23 - of_nat n) = char_of (23 - n)"
proof -
  assume n: "n \<le> 23"
  have "\<forall>k \<in> set [0..<24]. char_of_u32 (23 - of_nat k) = char_of (23 - k)" by code_simp
  then show ?thesis using n by auto
qed

lemma char_of_zero: "char_of (0 :: nat) = CHR 0x00"
  by code_simp

lemma u32_bound: "unat (n :: u32) < 4294967296"
  using unsigned_less [of n] by simp

lemma stack_represents:
  assumes "length b = 24" and "length s \<le> 23" and "take (length s) b = map Some s" and "b ! length s = Some (CHR 0x00)"
  shows "represents (On_stack (b[23 := Some (char_of (23 - length s))])) s"
proof -
  have nth: "b ! i = Some (s ! i)" if "i < length s" for i
    using that assms(3) by (metis length_map nth_map nth_take)
  show ?thesis
    using assms nth by (cases "length s = 23") (auto simp: represents_def holds_nth nth_list_update char_of_zero)
qed

lemma heap_represents:
  "holds b s \<Longrightarrow> length b = unat cap \<Longrightarrow> n = of_nat (length s) \<Longrightarrow> represents (On_heap b n cap) s"
  using u32_bound [of cap] by (auto simp: represents_def holds_nth u32_size)

lemma u32_less_iff: "n < 2 ^ 32 \<Longrightarrow> m < 2 ^ 32 \<Longrightarrow> (of_nat n :: u32) < of_nat m \<longleftrightarrow> n < m"
  by (simp add: word_less_nat_alt u32_size)

lemma u32_le_23: "n < 2 ^ 32 \<Longrightarrow> (of_nat n :: u32) \<le> 23 \<longleftrightarrow> n \<le> 23"
  using u32_size [of n] by (simp add: word_le_nat_alt)

lemma u32_less_24: "n < 2 ^ 32 \<Longrightarrow> (of_nat n :: u32) < 24 \<longleftrightarrow> n < 24"
  using u32_size [of n] by (simp add: word_less_nat_alt)

lemma u32_Suc: "n < 2 ^ 32 - 1 \<Longrightarrow> unat (of_nat n + 1 :: u32) = Suc n"
  using u32_size [of "Suc n"] by (simp add: add.commute)

lemma fill_represents:
  assumes own: "length own = 24" and n: "length s < 2 ^ 32 - 1"
    and src: "from + length s \<le> length src" "take (length s) (drop from src) = map Some s"
  shows "returns (res_bind (String_allocate own (of_nat (length s))) (\<lambda>d.
     res_bind (memcpy (block d) 0 src from (length s)) (\<lambda>b. Inr (with_block d b)))) (\<lambda>d. represents d s)"
proof (cases "length s \<le> 23")
  case True
  define b where "b = map Some s @ drop (length s) (own[length s := Some (CHR 0x00), 23 := Some (char_of (23 - length s))])"
  have nul: "length s = 23 \<Longrightarrow> char_of (23 - length s) = CHR 0x00" by (simp add: char_of_zero)
  have "represents (On_stack b) s"
    using True own nul by (auto simp: represents_def holds_nth b_def nth_append nth_list_update)
  then show ?thesis
    using True own n src by (simp add: String_allocate_def setLast_def poke_def u32_le_23 u32_size
      char_of_u32_last memcpy_def block_def with_block_def b_def)
next
  case False
  define fresh :: bytes where "fresh = (replicate (Suc (length s)) None)[length s := Some (CHR 0x00)]"
  have fresh: "length fresh = Suc (length s)" "fresh ! length s = Some (CHR 0x00)"
    by (simp_all add: fresh_def del: replicate_Suc)
  define b where "b = map Some s @ drop (length s) fresh"
  have "represents (On_heap b (of_nat (length s)) (of_nat (length s) + 1)) s"
    using n fresh by (intro heap_represents) (auto simp: holds_nth b_def nth_append u32_Suc)
  then show ?thesis
    using False n src fresh by (simp add: String_allocate_def poke_def u32_le_23 u32_size u32_Suc
      memcpy_def block_def with_block_def b_def fresh_def [symmetric] del: replicate_Suc)
qed

lemma String_from_represents:
  assumes "n < 2 ^ 32 - 1" and "from + n \<le> length src" and "take n (drop from src) = map Some s"
  shows "returns (String_from src from (of_nat n)) (\<lambda>d. represents d s)"
proof -
  have len: "length s = n"
    using arg_cong [OF assms(3), of length] assms(2) by simp
  show ?thesis
    using fill_represents [of raw_object s "from" src] assms len
    by (simp add: String_from_def raw_object_def u32_size)
qed

lemma copy_represents:
  assumes "represents other s" and "length own = 24" and "length s < 2 ^ 32 - 1"
  shows "returns (String_copy own other) (\<lambda>d. represents d s)"
proof (cases other)
  case (On_stack b)
  then show ?thesis using assms by (auto simp: String_copy_def memcpy_def represents_def)
next
  case (On_heap b n cap)
  then have b: "length b = unat cap" "n = of_nat (length s)" "holds b s"
    using assms(1) by (auto simp: represents_def) (metis of_nat_unat ucast_id)
  then have "take (length s) b = map Some s" "length s \<le> length b"
    by (auto simp: holds_def)
  then show ?thesis
    using On_heap b fill_represents [of own s 0 b] assms
    by (simp add: String_copy_def u32_size)
qed

section \<open>The operations on texts\<close>

lemma tail_holds:
  assumes "take (length s) dst = map Some s" and "holds src t" and "length s + length t < length dst"
  obtains b where "memcpy dst (length s) src 0 (Suc (length t)) = Inr b" and "holds b (s @ t)"
    and "length b = length dst"
proof
  let ?b = "take (length s) dst @ take (Suc (length t)) src @ drop (length s + Suc (length t)) dst"
  have src: "take (Suc (length t)) src = map Some (t @ [CHR 0x00])" "length t < length src"
    using assms(2) by (auto simp: holds_def)
  have b: "?b = map Some ((s @ t) @ [CHR 0x00]) @ drop (length s + Suc (length t)) dst"
    by (simp add: assms(1) src)
  show "memcpy dst (length s) src 0 (Suc (length t)) = Inr ?b"
    using assms(3) src by (simp add: memcpy_def)
  show "holds ?b (s @ t)" unfolding holds_def using b by blast
  show "length ?b = length dst" using assms(3) src by simp
qed

lemma append_represents:
  assumes this_s: "represents this s" and other_t: "represents other t" and n: "length s + length t < 2 ^ 32 - 1"
  shows "returns (String_append this other) (\<lambda>d. represents d (s @ t))"
proof -
  define total :: u32 where "total = of_nat (length s) + of_nat (length t)"
  have total: "total = of_nat (length s + length t)" by (simp add: total_def)
  have sizes: "String_size this = Inr (of_nat (length s))" "String_size other = Inr (of_nat (length t))"
    using assms by (simp_all add: size_represents)
  have u: "unat (of_nat (length s) :: u32) = length s" "unat (of_nat (length t) + 1 :: u32) = Suc (length t)"
    "unat (total + 1) = Suc (length s + length t)" "unat total = length s + length t"
    "total < 24 \<longleftrightarrow> length s + length t < 24"
    unfolding total using n u32_Suc [of "length s + length t"] u32_Suc [of "length t"]
    by (simp_all add: u32_size u32_less_24 del: of_nat_add)
  have other_holds: "holds (block other) t" using other_t by (rule block_represents)
  show ?thesis
  proof (cases this)
    case (On_stack buf)
    then have buf: "length buf = 24" "holds buf s" using this_s by (auto simp: represents_def)
    then have pre: "take (length s) buf = map Some s" "length s \<le> length buf" by (auto simp: holds_def)
    show ?thesis
    proof (cases "length s + length t < 24")
      case True
      obtain b where b: "memcpy buf (length s) (block other) 0 (Suc (length t)) = Inr b" "holds b (s @ t)"
        "length b = length buf"
        using tail_holds [OF pre(1) other_holds] True buf by auto
      have "represents (On_stack (b[23 := Some (char_of (23 - length (s @ t)))])) (s @ t)"
        using b True buf by (intro stack_represents) (auto simp: holds_def nth_append)
      moreover have "char_of_u32 (23 - total) = char_of (23 - length (s @ t))"
        using True char_of_u32_last [of "length (s @ t)"] by (simp add: total)
      ultimately show ?thesis
        using True On_stack b buf u by (simp add: String_append_def sizes(2) sizes(1) [unfolded On_stack] Let_def total_def [symmetric] setLast_def poke_def)
    next
      case False
      define temp :: bytes where "temp = map Some s @ replicate (Suc (length t)) None"
      have copied: "memcpy (replicate (Suc (length s + length t)) None) 0 buf 0 (length s) = Inr temp"
        using pre by (simp add: memcpy_def temp_def del: replicate_Suc)
      obtain b where b: "memcpy temp (length s) (block other) 0 (Suc (length t)) = Inr b" "holds b (s @ t)"
        "length b = length temp"
        using tail_holds [of s temp, OF _ other_holds] by (auto simp: temp_def simp del: replicate_Suc)
      have "represents (On_heap b total (total + 1)) (s @ t)"
        using b u by (intro heap_represents) (auto simp: temp_def total)
      then show ?thesis
        using False On_stack b u copied
        by (simp add: String_append_def sizes(2) sizes(1) [unfolded On_stack] Let_def total_def [symmetric] del: replicate_Suc)
    qed
  next
    case (On_heap blk m cap)
    then have blk: "length blk = unat cap" "m = of_nat (length s)" "holds blk s"
      using this_s by (auto simp: represents_def) (metis of_nat_unat ucast_id)
    then have pre: "take (length s) blk = map Some s" "length s \<le> length blk" by (auto simp: holds_def)
    show ?thesis
    proof (cases "cap > total")
      case True
      then have "length s + length t < length blk" using blk u by (simp add: word_less_nat_alt)
      then obtain b where b: "memcpy blk (length s) (block other) 0 (Suc (length t)) = Inr b" "holds b (s @ t)"
        "length b = length blk"
        using tail_holds [OF pre(1) other_holds] by auto
      have "represents (On_heap b total cap) (s @ t)"
        using b blk by (intro heap_represents) (auto simp: total)
      then show ?thesis
        using True On_heap b u by (simp add: String_append_def sizes(2) sizes(1) [unfolded On_heap] Let_def total_def [symmetric])
    next
      case False
      define cap' where "cap' = (if cap * 2 \<le> total then total + 1 else cap * 2)"
      have cap': "length s + length t < unat cap'"
        using u by (simp add: cap'_def word_le_nat_alt)
      define temp :: bytes where "temp = map Some s @ replicate (unat cap' - length s) None"
      have copied: "memcpy (replicate (unat cap') None) 0 blk 0 (length s) = Inr temp"
        using pre cap' by (simp add: memcpy_def temp_def)
      obtain b where b: "memcpy temp (length s) (block other) 0 (Suc (length t)) = Inr b" "holds b (s @ t)"
        "length b = length temp"
        using tail_holds [of s temp, OF _ other_holds] cap' by (auto simp: temp_def)
      have "represents (On_heap b total cap') (s @ t)"
        using b cap' by (intro heap_represents) (auto simp: temp_def total)
      then show ?thesis
        using False On_heap b u copied
        by (cases "cap * 2 \<le> total") (simp_all add: String_append_def sizes(2) sizes(1) [unfolded On_heap]
          Let_def total_def [symmetric] cap'_def del: replicate_Suc)
    qed
  qed
qed

lemma cnt_within:
  assumes "unat pos \<le> n" and "n < 2 ^ 32"
  shows "min cnt ((of_nat n :: u32) - pos) = of_nat (min (unat cnt) (n - unat pos))"
    and "min (unat cnt) (n - unat pos) < 2 ^ 32"
proof -
  have le: "pos \<le> of_nat n"
    using assms u32_size [of n] by (simp add: word_le_nat_alt)
  show bound: "min (unat cnt) (n - unat pos) < 2 ^ 32" using assms by simp
  have "unat (min cnt ((of_nat n :: u32) - pos)) = min (unat cnt) (n - unat pos)"
    using le assms u32_size [of n] by (auto simp: min_def word_le_nat_alt unat_sub)
  then show "min cnt ((of_nat n :: u32) - pos) = of_nat (min (unat cnt) (n - unat pos))"
    using bound by (simp add: word_unat_eq_iff u32_size)
qed

lemma substr_represents:
  assumes "represents d s" and "unat pos \<le> length s" and "length s < 2 ^ 32 - 1"
  shows "returns (String_substr d pos cnt) (\<lambda>r. represents r (take (unat cnt) (drop (unat pos) s)))"
proof -
  define n where "n = min (unat cnt) (length s - unat pos)"
  have cnt: "min cnt (of_nat (length s) - pos) = of_nat n"
    using cnt_within [OF assms(2) heap_bound [OF assms(1)]] by (simp add: n_def)
  have "holds (block d) s" using assms(1) by (rule block_represents)
  then have "take n (drop (unat pos) (block d)) = map Some (take (unat cnt) (drop (unat pos) s))"
      "unat pos + n \<le> length (block d)"
    using assms(2) by (auto simp: holds_def n_def take_map drop_map min_def)
  then show ?thesis
    using String_from_represents [of n "unat pos" "block d" "take (unat cnt) (drop (unat pos) s)"] assms
    by (simp add: String_substr_def size_represents cnt n_def)
qed

lemma find_loop_spec:
  assumes "\<forall>i < n. b ! i = Some (s ! i)" and "n \<le> length b"
  shows "find_loop b it n ch =
    Inr (case find (\<lambda>i. s ! i = ch) [it..<n] of Some i \<Rightarrow> of_nat i | None \<Rightarrow> npos)"
  using assms
proof (induction b it n ch rule: find_loop.induct)
  case (1 b it n ch)
  show ?case
  proof (cases "it < n")
    case True
    then have "peek b it = Inr (s ! it)" "[it..<n] = it # [Suc it..<n]"
      using "1.prems" by (auto simp: peek_def upt_conv_Cons)
    then show ?thesis
      using True 1 by (subst find_loop.simps) simp
  next
    case False
    then show ?thesis by (subst find_loop.simps) simp
  qed
qed

lemma rfind_loop_spec:
  assumes "\<forall>i \<le> it. b ! i = Some (s ! i)" and "it < length b"
  shows "rfind_loop b it ch =
    Inr (case find (\<lambda>i. s ! i = ch) (rev [0..<Suc it]) of Some i \<Rightarrow> of_nat i | None \<Rightarrow> npos)"
  using assms
proof (induction it)
  case 0
  then show ?case by (subst rfind_loop.simps) (simp add: peek_def)
next
  case (Suc it)
  then show ?case by (subst rfind_loop.simps) (simp add: peek_def)
qed

lemma find_represents:
  assumes "represents d s"
  shows "String_find d ch pos =
    Inr (case find (\<lambda>i. s ! i = ch) [unat pos..<length s] of Some i \<Rightarrow> of_nat i | None \<Rightarrow> npos)"
proof -
  have "holds (block d) s" using assms by (rule block_represents)
  then show ?thesis
    using find_loop_spec [of "length s" "block d" s] heap_bound [OF assms]
    by (simp add: String_find_def size_represents [OF assms] u32_size holds_nth)
qed

lemma rfind_represents:
  assumes "represents d s" and "s \<noteq> []"
  shows "String_rfind d ch pos =
    Inr (case find (\<lambda>i. s ! i = ch) (rev [0..<min (Suc (unat pos)) (length s)]) of Some i \<Rightarrow> of_nat i | None \<Rightarrow> npos)"
proof -
  have b: "holds (block d) s" using assms(1) by (rule block_represents)
  have last: "unat (of_nat (length s) - 1 :: u32) = length s - 1"
    using assms(2) heap_bound [OF assms(1)] by (cases s) (simp_all add: u32_size)
  define k where "k = min (unat pos) (length s - 1)"
  have "unat (min pos (of_nat (length s) - 1)) = k"
    using last by (auto simp: k_def min_def word_le_nat_alt)
  moreover have "k < length s" using assms(2) by (cases s) (auto simp: k_def)
  moreover have "rfind_loop (block d) k ch =
      Inr (case find (\<lambda>i. s ! i = ch) (rev [0..<Suc k]) of Some i \<Rightarrow> of_nat i | None \<Rightarrow> npos)"
    using b \<open>k < length s\<close> by (intro rfind_loop_spec) (auto simp: holds_nth)
  moreover have "Suc k = min (Suc (unat pos)) (length s)"
    using assms(2) by (cases s) (auto simp: k_def)
  ultimately show ?thesis
    by (simp add: String_rfind_def size_represents [OF assms(1)] del: upt_Suc)
qed

lemma compare_represents:
  assumes "represents a s" and "represents b t" and "CHR 0x00 \<notin> set s" and "CHR 0x00 \<notin> set t"
  shows "String_compare_to a b no_case = Inr (if no_case then stricmp s t else strcmp s t)"
  using assms by (simp add: String_compare_to_def String_compare_def read_c_holds [OF block_represents])

lemma moved_holds:
  assumes "holds b s" and "pos + n \<le> length s"
  obtains b' where "memcpy b 0 b pos n = Inr b'" and "length b' = length b" and "take n b' = map Some (take n (drop pos s))"
proof
  let ?b = "take n (drop pos b) @ drop n b"
  have b: "length s < length b" "take n (drop pos b) = map Some (take n (drop pos s))"
    using assms by (auto simp: holds_def take_map drop_map)
  show "memcpy b 0 b pos n = Inr ?b" using assms b by (simp add: memcpy_def)
  show "length ?b = length b" using assms b by simp
  show "take n ?b = map Some (take n (drop pos s))" using assms b by simp
qed

lemma substr_rvalue_represents:
  assumes d: "represents d s" and pos: "unat pos \<le> length s"
  shows "returns (String_substr_rvalue d pos cnt) (\<lambda>r. represents r (take (unat cnt) (drop (unat pos) s)))"
proof -
  define n where "n = min (unat cnt) (length s - unat pos)"
  define t where "t = take n (drop (unat pos) s)"
  have cnt: "min cnt (of_nat (length s) - pos) = of_nat n" and n: "n < 2 ^ 32"
    using cnt_within [OF pos heap_bound [OF d]] by (simp_all add: n_def)
  have t: "take (unat cnt) (drop (unat pos) s) = t" "length t = n" "unat pos + n \<le> length s"
    using pos by (auto simp: t_def n_def min_def)
  from moved_holds [OF block_represents [OF d] t(3)] obtain b
    where b: "memcpy (block d) 0 (block d) (unat pos) n = Inr b" "length b = length (block d)" "take n b = map Some t"
    by (auto simp: t_def)
  have "returns (String_setSize (with_block d b) (of_nat n)) (\<lambda>r. represents r t)"
  proof (cases d)
    case (On_stack buf)
    then have buf: "length b = 24" "n \<le> 23" using d b t by (auto simp: represents_def block_def)
    have "represents (On_stack (b[n := Some (CHR 0x00), 23 := Some (char_of (23 - n))])) t"
      using stack_represents [of "b[n := Some (CHR 0x00)]" t] buf b(3) t(2) by simp
    moreover have "unat (of_nat n :: u32) = n" using n by (rule u32_size)
    moreover have "n < length b" using buf by simp
    moreover have "char_of_u32 (23 - of_nat n) = char_of (23 - n)" using buf(2) by (rule char_of_u32_last)
    ultimately show ?thesis
      using buf(1) by (simp only: On_stack String_setSize_def with_block_def poke_def setLast_def str_consts dstring.case
        res_bind_Inr length_list_update returns_Inr if_True) simp
  next
    case (On_heap blk m cap)
    then have blk: "length b = unat cap" "length s < length b"
      using d b by (auto simp: represents_def block_def holds_def)
    have "b ! i = Some (t ! i)" if "i < n" for i
      using arg_cong [OF b(3), of "\<lambda>l. l ! i"] that t(2) by simp
    then have "holds (b[n := Some (CHR 0x00)]) t"
      using t(2,3) blk(2) by (auto simp: holds_nth)
    then have "represents (On_heap (b[n := Some (CHR 0x00)]) (of_nat n) cap) t"
      using blk t by (intro heap_represents) auto
    then show ?thesis
      using On_heap blk t n by (simp add: String_setSize_def with_block_def poke_def u32_size)
  qed
  then show ?thesis
    using b n by (simp add: String_substr_rvalue_def size_represents [OF d] cnt u32_size Let_def t)
qed

text \<open>
  (C37) On texts without NUL that fit the 32-bit size, in either form of the object, the size, copies,
  concatenation, \<open>substr\<close> within the text (both overloads), \<open>find\<close> and the comparisons are those of
  the texts; no access leaves a buffer or reads a byte that was never written.
\<close>

theorem String_refines_text:
  assumes "represents a s" and "represents b t" and "length s + length t < 2 ^ 32 - 1"
    and "CHR 0x00 \<notin> set s" and "CHR 0x00 \<notin> set t" and "unat pos \<le> length s"
  shows "String_size a = Inr (of_nat (length s)) \<and>
    String_output a = Inr s \<and>
    returns (String_assign b a) (\<lambda>d. represents d s) \<and>
    returns (String_append a b) (\<lambda>d. represents d (s @ t)) \<and>
    returns (String_plus a b) (\<lambda>d. represents d (s @ t)) \<and>
    returns (String_substr a pos cnt) (\<lambda>d. represents d (take (unat cnt) (drop (unat pos) s))) \<and>
    returns (String_substr_rvalue a pos cnt) (\<lambda>d. represents d (take (unat cnt) (drop (unat pos) s))) \<and>
    String_find a ch pos =
      Inr (case find (\<lambda>i. s ! i = ch) [unat pos..<length s] of Some i \<Rightarrow> of_nat i | None \<Rightarrow> npos) \<and>
    String_eq a b = Inr (s = t) \<and> String_ne a b = Inr (s \<noteq> t) \<and>
    String_lt a b = Inr (strcmp s t < 0) \<and> String_gt a b = Inr (strcmp s t > 0) \<and>
    String_le a b = Inr (strcmp s t \<le> 0) \<and> String_ge a b = Inr (strcmp s t \<ge> 0)"
proof -
  have small: "length s < 2 ^ 32 - 1" using assms(3) by simp
  have compare: "String_compare_to a b False = Inr (strcmp s t)"
    using compare_represents [OF assms(1,2,4,5)] by simp
  have order: "String_eq a b = Inr (s = t) \<and> String_ne a b = Inr (s \<noteq> t) \<and>
      String_lt a b = Inr (strcmp s t < 0) \<and> String_gt a b = Inr (strcmp s t > 0) \<and>
      String_le a b = Inr (strcmp s t \<le> 0) \<and> String_ge a b = Inr (strcmp s t \<ge> 0)"
    using strcmp_eq [OF assms(4,5)]
    by (auto simp: String_eq_def String_ne_def String_lt_def String_gt_def String_le_def String_ge_def compare)
  have own: "length (case b of On_stack x \<Rightarrow> x | On_heap _ _ _ \<Rightarrow> raw_object) = 24"
    using assms(2) by (auto simp: represents_def raw_object_def split: dstring.splits)
  have plus: "returns (String_plus a b) (\<lambda>d. represents d (s @ t))"
    unfolding String_plus_def
    by (rule returns_bind [OF copy_represents [OF assms(1) _ small]])
       (simp add: raw_object_def, erule append_represents [OF _ assms(2,3)])
  show ?thesis
    using size_represents [OF assms(1)] read_c_holds [OF block_represents [OF assms(1)] assms(4)]
      copy_represents [OF assms(1) own small] append_represents [OF assms(1,2,3)] plus
      substr_represents [OF assms(1,6) small] substr_rvalue_represents [OF assms(1,6)]
      find_represents [OF assms(1)]
      order
    by (auto simp: String_output_def String_assign_def)
qed

definition sample_text :: dstring where
  "sample_text = On_stack (map Some (''eth0'' @ [CHR 0x00]) @ replicate 18 None @ [Some (CHR 0x13)])"

lemma sample_text: "String_literal ''eth0'' = Inr sample_text \<and> represents sample_text ''eth0''"
proof
  show "String_literal ''eth0'' = Inr sample_text" by code_simp
  show "represents sample_text ''eth0''"
    unfolding represents_def sample_text_def holds_def dstring.case
    by (intro conjI exI [of _ "replicate 18 None @ [Some (CHR 0x13)]"]) code_simp+
qed

theorem String_refines_text_witness:
  "returns (String_append sample_text sample_text) (\<lambda>d. represents d ''eth0eth0'') \<and>
   returns (String_substr sample_text 1 2) (\<lambda>d. represents d ''th'') \<and>
   String_find sample_text (CHR ''h'') 1 = Inr 2"
proof -
  have rep: "represents sample_text ''eth0''" using sample_text by simp
  have nul: "CHR 0x00 \<notin> set ''eth0''" and pos: "unat (1 :: u32) \<le> length ''eth0''"
    and len: "length ''eth0'' + length ''eth0'' < 2 ^ 32 - 1" by simp_all
  note ops = String_refines_text [OF rep rep len nul nul pos, where cnt = 2 and ch = "CHR ''h''"]
  have app: "''eth0'' @ ''eth0'' = ''eth0eth0''" by code_simp
  have sub: "take (unat (2 :: u32)) (drop (unat (1 :: u32)) ''eth0'') = ''th''" by code_simp
  have fnd: "(case find (\<lambda>i. ''eth0'' ! i = CHR ''h'') [unat (1 :: u32)..<length ''eth0''] of
      Some i \<Rightarrow> of_nat i | None \<Rightarrow> npos) = 2" by code_simp
  show ?thesis using ops unfolding app sub fnd by blast
qed

lemma block_bound: "represents d s \<Longrightarrow> length (block d) \<le> 4294967295"
proof (cases d)
  case (On_heap b n cap)
  assume "represents d s"
  then show ?thesis using On_heap u32_bound [of cap] by (simp add: represents_def block_def)
qed (simp add: represents_def block_def)

text \<open>
  Two operations leave the buffer on ordinary arguments, because \<open>size() - 1\<close> and \<open>size() - pos\<close> wrap:
  \<open>rfind\<close> with its default position on an empty text, and \<open>substr\<close> from behind the end to it.
\<close>

theorem String_wrapping_sizes:
  assumes "represents a []" and "represents b t" and "length t < unat pos"
  shows "String_rfind a ch npos = Inl Out_of_bounds \<and> String_substr b pos npos = Inl Out_of_bounds"
proof
  have top: "unat (npos :: u32) = 4294967295" by (simp add: npos_def unsigned_minus_1_eq_mask mask_eq_exp_minus_1)
  have "\<not> 4294967295 < length (block a)" using block_bound [OF assms(1)] by simp
  moreover have "min npos (0 - 1 :: u32) = npos" by (simp add: npos_def)
  ultimately show "String_rfind a ch npos = Inl Out_of_bounds"
    using size_represents [OF assms(1)] top
    by (simp add: String_rfind_def rfind_loop.simps peek_def)
  define n :: u32 where "n = of_nat (length t) - pos"
  have "length t < 2 ^ 32" using assms(2) by (rule heap_bound)
  then have n: "unat n = 2 ^ 32 + length t - unat pos"
    using assms(3) u32_bound [of pos] by (simp add: n_def unat_sub_if_size u32_size word_size)
  have "min npos n = n" unfolding npos_def by (simp add: min_absorb2)
  moreover have "memcpy (block d) 0 (block b) (unat pos) (unat n) = Inl Out_of_bounds" for d
  proof -
    have "length (block b) < 2 ^ 32 + length t"
      using block_bound [OF assms(2)] by simp
    then show ?thesis using n u32_bound [of pos] by (simp add: memcpy_def)
  qed
  moreover have "String_allocate raw_object n = Inl Out_of_bounds \<or> (\<exists>d. String_allocate raw_object n = Inr d)"
    by (auto simp: String_allocate_def poke_def setLast_def raw_object_def)
  ultimately show "String_substr b pos npos = Inl Out_of_bounds"
    using size_represents [OF assms(2)] by (auto simp: String_substr_def String_from_def n_def)
qed

theorem String_wrapping_sizes_witness:
  "returns String_empty (\<lambda>e. String_rfind e (CHR ''h'') npos = Inl Out_of_bounds \<and>
     String_substr sample_text 5 npos = Inl Out_of_bounds)"
proof -
  have empty: "String_empty = Inr (On_stack ([Some (CHR 0x00)] @ replicate 22 None @ [Some (CHR 0x17)]))"
    by code_simp
  have rep: "represents (On_stack ([Some (CHR 0x00)] @ replicate 22 None @ [Some (CHR 0x17)])) []"
    unfolding represents_def holds_def dstring.case
    by (intro conjI exI [of _ "replicate 22 None @ [Some (CHR 0x17)]"]) code_simp+
  have "length ''eth0'' < unat (5 :: u32)" by simp
  from String_wrapping_sizes [OF rep conjunct2 [OF sample_text] this] show ?thesis
    by (simp only: empty returns_Inr)
qed

end
