(* ===== verification/Doctest_Types.thy ===== *)
theory Doctest_Types
  imports Doctest_Text
begin

text \<open>
  The data of the bundled test framework (external/doctest/doctest/doctest.h): the enumerations of
  colours, assertions and failure reasons, the records of a test case, an assertion and a message,
  the options, the counters, and the calls a reporter gets. A \<open>double\<close> is its 64-bit pattern;
  its arithmetic is a parameter (\<open>fp_ops\<close>). An \<open>int\<close> is a 32-bit word read as signed.
\<close>

type_synonym double = u64
type_synonym i32 = u32

section \<open>Colours\<close>

datatype color = Color_None | White | Red | Green | Blue | Cyan | Yellow | Grey
  | Bright | BrightRed | BrightGreen | LightGrey | BrightWhite

fun color_value :: "color \<Rightarrow> u32" where
  "color_value Color_None = 0"
| "color_value White = 1"
| "color_value Red = 2"
| "color_value Green = 3"
| "color_value Blue = 4"
| "color_value Cyan = 5"
| "color_value Yellow = 6"
| "color_value Grey = 7"
| "color_value Bright = 0x10"
| "color_value BrightRed = 0x10 OR 2"
| "color_value BrightGreen = 0x10 OR 3"
| "color_value LightGrey = 0x10 OR 7"
| "color_value BrightWhite = 0x10 OR 1"

text \<open>What is written to the stream, given \<open>g_no_colors\<close>, whether stdout is a terminal, and \<open>force_colors\<close>.\<close>

definition color_to_stream :: "bool \<Rightarrow> bool \<Rightarrow> bool \<Rightarrow> color \<Rightarrow> string" where
  "color_to_stream no_colors tty force_colors code =
     (if no_colors \<or> (\<not> tty \<and> \<not> force_colors) then ''''
      else CHR 0x1B # (case code of
          Red \<Rightarrow> ''[0;31m''
        | Green \<Rightarrow> ''[0;32m''
        | Blue \<Rightarrow> ''[0;34m''
        | Cyan \<Rightarrow> ''[0;36m''
        | Yellow \<Rightarrow> ''[0;33m''
        | Grey \<Rightarrow> ''[1;30m''
        | LightGrey \<Rightarrow> ''[0;37m''
        | BrightRed \<Rightarrow> ''[1;31m''
        | BrightGreen \<Rightarrow> ''[1;32m''
        | BrightWhite \<Rightarrow> ''[1;37m''
        | _ \<Rightarrow> ''[0m''))"

section \<open>Kinds of assertions\<close>

text \<open>
  The enumeration \<open>assertType\<close> combines bits: a level (warn, check, require) and what is asserted.
\<close>

type_synonym assert_type = u32

definition is_warn :: assert_type where "is_warn = 1"
definition is_check :: assert_type where "is_check = 2 * is_warn"
definition is_require :: assert_type where "is_require = 2 * is_check"
definition is_normal :: assert_type where "is_normal = 2 * is_require"
definition is_throws :: assert_type where "is_throws = 2 * is_normal"
definition is_throws_as :: assert_type where "is_throws_as = 2 * is_throws"
definition is_throws_with :: assert_type where "is_throws_with = 2 * is_throws_as"
definition is_nothrow :: assert_type where "is_nothrow = 2 * is_throws_with"
definition is_false :: assert_type where "is_false = 2 * is_nothrow"
definition is_unary :: assert_type where "is_unary = 2 * is_false"
definition is_eq :: assert_type where "is_eq = 2 * is_unary"
definition is_ne :: assert_type where "is_ne = 2 * is_eq"
definition is_lt :: assert_type where "is_lt = 2 * is_ne"
definition is_gt :: assert_type where "is_gt = 2 * is_lt"
definition is_ge :: assert_type where "is_ge = 2 * is_gt"
definition is_le :: assert_type where "is_le = 2 * is_ge"

lemmas assert_bits = is_warn_def is_check_def is_require_def is_normal_def is_throws_def
  is_throws_as_def is_throws_with_def is_nothrow_def is_false_def is_unary_def is_eq_def is_ne_def
  is_lt_def is_gt_def is_ge_def is_le_def

datatype assert_level = Warn | Check | Require

datatype assert_what = Plain | Is_False | Throws | Throws_as | Throws_with | Throws_with_as | Nothrow
  | Eq | Ne | Gt | Lt | Ge | Le | Unary | Unary_false

fun level_bit :: "assert_level \<Rightarrow> assert_type" where
  "level_bit Warn = is_warn"
| "level_bit Check = is_check"
| "level_bit Require = is_require"

fun what_bits :: "assert_what \<Rightarrow> assert_type" where
  "what_bits Plain = is_normal"
| "what_bits Is_False = is_normal OR is_false"
| "what_bits Throws = is_throws"
| "what_bits Throws_as = is_throws_as"
| "what_bits Throws_with = is_throws_with"
| "what_bits Throws_with_as = is_throws_with OR is_throws_as"
| "what_bits Nothrow = is_nothrow"
| "what_bits Eq = is_normal OR is_eq"
| "what_bits Ne = is_normal OR is_ne"
| "what_bits Gt = is_normal OR is_gt"
| "what_bits Lt = is_normal OR is_lt"
| "what_bits Ge = is_normal OR is_ge"
| "what_bits Le = is_normal OR is_le"
| "what_bits Unary = is_normal OR is_unary"
| "what_bits Unary_false = is_normal OR is_false OR is_unary"

text \<open>The macro types \<open>DT_WARN\<close> to \<open>DT_REQUIRE_UNARY_FALSE\<close>.\<close>

definition DT :: "assert_level \<Rightarrow> assert_what \<Rightarrow> assert_type" where
  "DT lv w = what_bits w OR level_bit lv"

definition all_levels :: "assert_level list" where
  "all_levels = [Warn, Check, Require]"

definition all_whats :: "assert_what list" where
  "all_whats = [Plain, Is_False, Throws, Throws_as, Throws_with, Throws_with_as, Nothrow,
     Eq, Ne, Gt, Lt, Ge, Le, Unary, Unary_false]"

fun level_name :: "assert_level \<Rightarrow> string" where
  "level_name Warn = ''WARN''"
| "level_name Check = ''CHECK''"
| "level_name Require = ''REQUIRE''"

fun what_name :: "assert_what \<Rightarrow> string" where
  "what_name Plain = ''''"
| "what_name Is_False = ''_FALSE''"
| "what_name Throws = ''_THROWS''"
| "what_name Throws_as = ''_THROWS_AS''"
| "what_name Throws_with = ''_THROWS_WITH''"
| "what_name Throws_with_as = ''_THROWS_WITH_AS''"
| "what_name Nothrow = ''_NOTHROW''"
| "what_name Eq = ''_EQ''"
| "what_name Ne = ''_NE''"
| "what_name Gt = ''_GT''"
| "what_name Lt = ''_LT''"
| "what_name Ge = ''_GE''"
| "what_name Le = ''_LE''"
| "what_name Unary = ''_UNARY''"
| "what_name Unary_false = ''_UNARY_FALSE''"

text \<open>\<open>assertString\<close>: the switch over the macro types; any other value is an internal error, which throws.\<close>

definition assertString :: "assert_type \<Rightarrow> failure + string" where
  "assertString at =
     (case find (\<lambda>(lv, w). DT lv w = at) (List.product all_levels all_whats) of
        Some (lv, w) \<Rightarrow> Inr (level_name lv @ what_name w)
      | None \<Rightarrow> Inl (Invalid_argument ''Tried stringifying invalid assert type!''))"

definition failureString :: "assert_type \<Rightarrow> string" where
  "failureString at =
     (if at AND is_warn \<noteq> 0 then ''WARNING''
      else if at AND is_check \<noteq> 0 then ''ERROR''
      else if at AND is_require \<noteq> 0 then ''FATAL ERROR''
      else '''')"

section \<open>Test cases, assertions, messages\<close>

record test_case =
  m_file :: string
  m_line :: u32
  m_name :: string
  m_test_suite :: string
  m_description :: "string option"
  m_skip :: bool
  m_no_breaks :: bool
  m_no_output :: bool
  m_may_fail :: bool
  m_should_fail :: bool
  m_expected_failures :: i32
  m_timeout :: double
  m_test :: nat
  m_type :: string
  m_template_id :: int
  m_full_name :: string

text \<open>What the message of an exception has to be: equal to a text, or contain it.\<close>

record string_contains =
  sc_string :: string
  isContains :: bool

record assert_data =
  a_test_case :: "test_case option"
  m_at :: assert_type
  a_file :: string
  a_line :: int
  m_expr :: string
  m_failed :: bool
  m_threw :: bool
  m_exception :: string
  m_decomp :: string
  m_threw_as :: bool
  m_exception_type :: string
  m_exception_string :: string_contains

record message_data =
  m_string :: string
  msg_file :: string
  msg_line :: int
  m_severity :: assert_type

section \<open>Why a test case failed, and the counters\<close>

definition Reason_None :: i32 where "Reason_None = 0"
definition AssertFailure :: i32 where "AssertFailure = 1"
definition Exception_thrown :: i32 where "Exception_thrown = 2"
definition Crash :: i32 where "Crash = 4"
definition TooManyFailedAsserts :: i32 where "TooManyFailedAsserts = 8"
definition Timeout :: i32 where "Timeout = 16"
definition ShouldHaveFailedButDidnt :: i32 where "ShouldHaveFailedButDidnt = 32"
definition ShouldHaveFailedAndDid :: i32 where "ShouldHaveFailedAndDid = 64"
definition DidntFailExactlyNumTimes :: i32 where "DidntFailExactlyNumTimes = 128"
definition FailedExactlyNumTimes :: i32 where "FailedExactlyNumTimes = 256"
definition CouldHaveFailedAndDid :: i32 where "CouldHaveFailedAndDid = 512"

lemmas reason_bits = Reason_None_def AssertFailure_def Exception_thrown_def Crash_def
  TooManyFailedAsserts_def Timeout_def ShouldHaveFailedButDidnt_def ShouldHaveFailedAndDid_def
  DidntFailExactlyNumTimes_def FailedExactlyNumTimes_def CouldHaveFailedAndDid_def

record test_case_stats =
  numAssertsCurrentTest :: i32
  numAssertsFailedCurrentTest :: i32
  seconds :: double
  failure_flags :: i32
  testCaseSuccess :: bool

record run_stats =
  numTestCases :: u32
  numTestCasesPassingFilters :: u32
  numTestSuitesPassingFilters :: u32
  numTestCasesFailed :: u32
  numAsserts :: i32
  numAssertsFailed :: i32

text \<open>The calls of the interface \<open>IReporter\<close>, with what they are given.\<close>

datatype reporter_call =
    Report_query "run_stats option" "test_case list"
  | Test_run_start
  | Test_run_end run_stats
  | Test_case_start test_case
  | Test_case_reenter test_case
  | Test_case_end test_case_stats
  | Test_case_exception string bool
  | Subcase_start subcase_signature
  | Subcase_end
  | Log_assert assert_data
  | Log_message message_data
  | Test_case_skipped test_case

section \<open>Lemmas\<close>

lemma all_levels_complete: "lv \<in> set all_levels"
  by (cases lv) (simp_all add: all_levels_def)

lemma all_whats_complete: "w \<in> set all_whats"
  by (cases w) (simp_all add: all_whats_def)

lemma DT_distinct: "distinct (map (\<lambda>(lv, w). DT lv w) (List.product all_levels all_whats))"
  by code_simp

lemma DT_inj: "DT lv w = DT lv' w' \<longleftrightarrow> lv = lv' \<and> w = w'"
proof
  assume eq: "DT lv w = DT lv' w'"
  have "inj_on (\<lambda>(lv, w). DT lv w) (set (List.product all_levels all_whats))"
    using DT_distinct by (simp add: distinct_map)
  then show "lv = lv' \<and> w = w'"
    using eq by (auto simp: inj_on_def all_levels_complete all_whats_complete)
qed simp

lemma find_unique: "x \<in> set xs \<Longrightarrow> (\<And>y. P y \<longleftrightarrow> y = x) \<Longrightarrow> find P xs = Some x"
  by (induction xs) auto

lemma failureString_DT:
  "failureString (DT lv w) = (case lv of Warn \<Rightarrow> ''WARNING'' | Check \<Rightarrow> ''ERROR'' | Require \<Rightarrow> ''FATAL ERROR'')"
  by (cases lv; cases w) (simp_all add: failureString_def DT_def assert_bits)

text \<open>
  Every macro type is printed as the name of its macro, no two of them have the same value, and
  its severity is that of its level.
\<close>

theorem assertString_spec:
  "assertString (DT lv w) = Inr (level_name lv @ what_name w) \<and>
   (DT lv w = DT lv' w' \<longleftrightarrow> lv = lv' \<and> w = w') \<and>
   failureString (DT lv w) = (case lv of Warn \<Rightarrow> ''WARNING'' | Check \<Rightarrow> ''ERROR'' | Require \<Rightarrow> ''FATAL ERROR'')"
proof -
  have "find (\<lambda>(lv', w'). DT lv' w' = DT lv w) (List.product all_levels all_whats) = Some (lv, w)"
    by (rule find_unique) (auto simp: DT_inj all_levels_complete all_whats_complete)
  then show ?thesis by (simp add: assertString_def DT_inj failureString_DT)
qed

text \<open>The level of a macro type can be read off its bits.\<close>

lemma DT_level:
  "DT lv w AND is_warn \<noteq> 0 \<longleftrightarrow> lv = Warn"
  "DT lv w AND is_check \<noteq> 0 \<longleftrightarrow> lv = Check"
  "DT lv w AND is_require \<noteq> 0 \<longleftrightarrow> lv = Require"
  by (cases lv; cases w; simp add: DT_def assert_bits)+

end
