(* ===== verification/Doctest_State.thy ===== *)
theory Doctest_State
  imports Doctest_Types
begin

unbundle bit_operations_syntax

text \<open>
  The state of the test framework of doctest.h: the options, the counters with one lane per group of
  threads, the timer, and \<open>ContextState\<close> with its two operations; and \<open>Approx\<close>, which decides whether a
  test case ran too long. The arithmetic of \<open>double\<close> and the clock are parameters.
\<close>

section \<open>Floating point and Approx\<close>

record fp_ops =
  fp_add :: "double \<Rightarrow> double \<Rightarrow> double"
  fp_sub :: "double \<Rightarrow> double \<Rightarrow> double"
  fp_mul :: "double \<Rightarrow> double \<Rightarrow> double"
  fp_div :: "double \<Rightarrow> double \<Rightarrow> double"
  fp_lt :: "double \<Rightarrow> double \<Rightarrow> bool"
  fp_equal :: "double \<Rightarrow> double \<Rightarrow> bool"
  fp_of_u64 :: "u64 \<Rightarrow> double"

definition fabs :: "double \<Rightarrow> double" where
  "fabs x = x AND 0x7FFFFFFFFFFFFFFF"

definition fp_max :: "fp_ops \<Rightarrow> double \<Rightarrow> double \<Rightarrow> double" where
  "fp_max fp a b = (if fp_lt fp a b then b else a)"

definition isnan :: "double \<Rightarrow> bool" where
  "isnan x \<longleftrightarrow> fabs x > 0x7FF0000000000000"

record approx =
  m_epsilon :: double
  m_scale :: double
  m_value :: double

text \<open>The constants are the bit patterns of \<open>FLT_EPSILON\<close>, 100, 1, \<open>DBL_EPSILON\<close> and a million.\<close>

definition Approx :: "fp_ops \<Rightarrow> double \<Rightarrow> approx" where
  "Approx fp v = \<lparr>m_epsilon = fp_mul fp 0x3E80000000000000 0x4059000000000000, m_scale = 0x3FF0000000000000, m_value = v\<rparr>"

definition Approx_call :: "fp_ops \<Rightarrow> approx \<Rightarrow> double \<Rightarrow> approx" where
  "Approx_call fp a v = (Approx fp v)\<lparr>m_epsilon := m_epsilon a, m_scale := m_scale a\<rparr>"

definition Approx_epsilon :: "double \<Rightarrow> approx \<Rightarrow> approx" where
  "Approx_epsilon newEpsilon a = a\<lparr>m_epsilon := newEpsilon\<rparr>"

definition Approx_scale :: "double \<Rightarrow> approx \<Rightarrow> approx" where
  "Approx_scale newScale a = a\<lparr>m_scale := newScale\<rparr>"

definition approx_eq :: "fp_ops \<Rightarrow> double \<Rightarrow> approx \<Rightarrow> bool" where
  "approx_eq fp lhs rhs =
     fp_lt fp (fabs (fp_sub fp lhs (m_value rhs)))
       (fp_mul fp (m_epsilon rhs) (fp_add fp (m_scale rhs) (fp_max fp (fabs lhs) (fabs (m_value rhs)))))"

definition approx_ne :: "fp_ops \<Rightarrow> double \<Rightarrow> approx \<Rightarrow> bool" where
  "approx_ne fp lhs rhs = (\<not> approx_eq fp lhs rhs)"
definition approx_le :: "fp_ops \<Rightarrow> double \<Rightarrow> approx \<Rightarrow> bool" where
  "approx_le fp lhs rhs = (fp_lt fp lhs (m_value rhs) \<or> approx_eq fp lhs rhs)"
definition approx_ge :: "fp_ops \<Rightarrow> double \<Rightarrow> approx \<Rightarrow> bool" where
  "approx_ge fp lhs rhs = (fp_lt fp (m_value rhs) lhs \<or> approx_eq fp lhs rhs)"
definition approx_lt :: "fp_ops \<Rightarrow> double \<Rightarrow> approx \<Rightarrow> bool" where
  "approx_lt fp lhs rhs = (fp_lt fp lhs (m_value rhs) \<and> approx_ne fp lhs rhs)"
definition approx_gt :: "fp_ops \<Rightarrow> double \<Rightarrow> approx \<Rightarrow> bool" where
  "approx_gt fp lhs rhs = (fp_lt fp (m_value rhs) lhs \<and> approx_ne fp lhs rhs)"

text \<open>The mirrored operators with the \<open>Approx\<close> on the left.\<close>

definition Approx_eq :: "fp_ops \<Rightarrow> approx \<Rightarrow> double \<Rightarrow> bool" where
  "Approx_eq fp lhs rhs = approx_eq fp rhs lhs"
definition Approx_ne :: "fp_ops \<Rightarrow> approx \<Rightarrow> double \<Rightarrow> bool" where
  "Approx_ne fp lhs rhs = (\<not> approx_eq fp rhs lhs)"
definition Approx_le :: "fp_ops \<Rightarrow> approx \<Rightarrow> double \<Rightarrow> bool" where
  "Approx_le fp lhs rhs = (fp_lt fp (m_value lhs) rhs \<or> Approx_eq fp lhs rhs)"
definition Approx_ge :: "fp_ops \<Rightarrow> approx \<Rightarrow> double \<Rightarrow> bool" where
  "Approx_ge fp lhs rhs = (fp_lt fp rhs (m_value lhs) \<or> Approx_eq fp lhs rhs)"
definition Approx_lt :: "fp_ops \<Rightarrow> approx \<Rightarrow> double \<Rightarrow> bool" where
  "Approx_lt fp lhs rhs = (fp_lt fp (m_value lhs) rhs \<and> Approx_ne fp lhs rhs)"
definition Approx_gt :: "fp_ops \<Rightarrow> approx \<Rightarrow> double \<Rightarrow> bool" where
  "Approx_gt fp lhs rhs = (fp_lt fp rhs (m_value lhs) \<and> Approx_ne fp lhs rhs)"

text \<open>A NaN test, possibly negated: \<open>std::isnan(value) ^ flipped\<close>.\<close>

definition IsNaN_bool :: "double \<Rightarrow> bool \<Rightarrow> bool" where
  "IsNaN_bool v flipped = (isnan v \<noteq> flipped)"

section \<open>The timer\<close>

type_synonym ticks = u64

text \<open>From the \<open>timeval\<close> the system reports.\<close>

definition getCurrentTicks :: "u64 \<times> u64 \<Rightarrow> ticks" where
  "getCurrentTicks t = fst t * 1000000 + snd t"

definition getElapsedMicroseconds :: "ticks \<Rightarrow> ticks \<Rightarrow> u32" where
  "getElapsedMicroseconds now m_ticks = ucast (now - m_ticks)"

definition getElapsedSeconds :: "fp_ops \<Rightarrow> ticks \<Rightarrow> ticks \<Rightarrow> double" where
  "getElapsedSeconds fp now m_ticks = fp_div fp (fp_of_u64 fp (now - m_ticks)) 0x412E848000000000"

section \<open>Counters with lanes\<close>

text \<open>
  \<open>MultiLaneAtomic<int>\<close>: 32 atomics. A thread adds to the lane it was dealt when it first came, round
  robin; the value is the sum of the lanes.
\<close>

type_synonym multi_lane = "i32 list"

definition THREAD_LANES :: nat where
  "THREAD_LANES = 32"

definition lanes_new :: multi_lane where
  "lanes_new = replicate THREAD_LANES 0"

definition deal_lane :: "nat \<Rightarrow> nat \<times> nat" where
  "deal_lane laneCounter = (laneCounter mod THREAD_LANES, laneCounter + 1)"

definition lane_fetch_add :: "nat \<Rightarrow> i32 \<Rightarrow> multi_lane \<Rightarrow> multi_lane \<times> i32" where
  "lane_fetch_add tlsLaneIdx arg m = (m[tlsLaneIdx := m ! tlsLaneIdx + arg], m ! tlsLaneIdx)"

definition lane_fetch_sub :: "nat \<Rightarrow> i32 \<Rightarrow> multi_lane \<Rightarrow> multi_lane \<times> i32" where
  "lane_fetch_sub tlsLaneIdx arg m = (m[tlsLaneIdx := m ! tlsLaneIdx - arg], m ! tlsLaneIdx)"

definition lane_preincrement :: "nat \<Rightarrow> multi_lane \<Rightarrow> multi_lane \<times> i32" where
  "lane_preincrement tlsLaneIdx m = (case lane_fetch_add tlsLaneIdx 1 m of (m', v) \<Rightarrow> (m', v + 1))"

definition lane_postincrement :: "nat \<Rightarrow> multi_lane \<Rightarrow> multi_lane \<times> i32" where
  "lane_postincrement tlsLaneIdx m = lane_fetch_add tlsLaneIdx 1 m"

definition lanes_load :: "multi_lane \<Rightarrow> i32" where
  "lanes_load m = fold (\<lambda>c result. result + c) m 0"

definition lanes_store :: "i32 \<Rightarrow> multi_lane \<Rightarrow> multi_lane" where
  "lanes_store desired m = (case m of [] \<Rightarrow> [] | _ # cs \<Rightarrow> desired # map (\<lambda>_. 0) cs)"

section \<open>The options\<close>

record context_options =
  opt_binary_name :: string
  opt_out :: string
  opt_order_by :: string
  opt_rand_seed :: u32
  opt_first :: u32
  opt_last :: u32
  opt_abort_after :: i32
  opt_subcase_filter_levels :: i32
  opt_success :: bool
  opt_case_sensitive :: bool
  opt_exit :: bool
  opt_duration :: bool
  opt_minimal :: bool
  opt_quiet :: bool
  opt_no_throw :: bool
  opt_no_exitcode :: bool
  opt_no_run :: bool
  opt_no_intro :: bool
  opt_no_version :: bool
  opt_no_colors :: bool
  opt_force_colors :: bool
  opt_no_breaks :: bool
  opt_no_skip :: bool
  opt_gnu_file_line :: bool
  opt_no_path_in_filenames :: bool
  opt_strip_file_prefixes :: string
  opt_no_line_numbers :: bool
  opt_no_debug_output :: bool
  opt_no_skipped_summary :: bool
  opt_no_time_in_output :: bool
  opt_help :: bool
  opt_version :: bool
  opt_count :: bool
  opt_list_test_cases :: bool
  opt_list_test_suites :: bool
  opt_list_reporters :: bool

section \<open>The context\<close>

text \<open>
  \<open>ContextState\<close>. A reporter is known by the key it is registered under, its priority and name;
  \<open>reports\<close> are the calls made to the reporters so far. \<open>tls_lane\<close> is the lane of the running thread, and
  \<open>handled_asserts\<close> are the assertions the assert handler was called with, if one is set.
\<close>

type_synonym reporter_key = "int \<times> string"

datatype out_stream = Discard_out | File_out string | Std_out | User_out nat

record context_state =
  ctx_options :: context_options
  cout :: "out_stream option"
  currentTest :: "test_case option"
  run_data :: run_stats
  case_data :: test_case_stats
  numAssertsCurrentTest_atomic :: multi_lane
  numAssertsFailedCurrentTest_atomic :: multi_lane
  tls_lane :: nat
  filters :: "string list list"
  reporters_currently_used :: "reporter_key list"
  reports :: "(reporter_key \<times> reporter_call) list"
  assert_handler :: bool
  handled_asserts :: "assert_data list"
  timer :: ticks
  stringifiedContexts :: "string list"
  infoContexts :: "string list"
  reachedLeaf :: bool
  subcaseStack :: "subcase_signature list"
  nextSubcaseStack :: "subcase_signature list"
  fullyTraversedSubcases :: "u64 set"
  currentSubcaseDepth :: nat
  shouldLogCurrentException :: bool

definition resetRunData :: "context_state \<Rightarrow> context_state" where
  "resetRunData c = c\<lparr>
     run_data := \<lparr>numTestCases = 0, numTestCasesPassingFilters = 0, numTestSuitesPassingFilters = 0,
       numTestCasesFailed = 0, numAsserts = 0, numAssertsFailed = 0\<rparr>,
     case_data := (case_data c)\<lparr>numAssertsCurrentTest := 0, numAssertsFailedCurrentTest := 0\<rparr>\<rparr>"

definition timed_out :: "fp_ops \<Rightarrow> double \<Rightarrow> double \<Rightarrow> bool" where
  "timed_out fp limit secs \<longleftrightarrow>
     Approx_ne fp (Approx_epsilon 0x3CB0000000000000 (Approx fp limit)) 0 \<and>
     Approx_gt fp (Approx_epsilon 0x3CB0000000000000 (Approx fp secs)) limit"

text \<open>The flags a finished test case ends up with, from those it has and its count of failures.\<close>

definition final_flags :: "test_case \<Rightarrow> i32 \<Rightarrow> bool \<Rightarrow> i32 \<Rightarrow> i32" where
  "final_flags tc failedAsserts slow flags =
     (let flags = (if failedAsserts \<noteq> 0 then flags OR AssertFailure else flags);
          flags = (if slow then flags OR Timeout else flags)
      in if m_should_fail tc
         then (if flags \<noteq> 0 then flags OR ShouldHaveFailedAndDid else flags OR ShouldHaveFailedButDidnt)
         else if flags \<noteq> 0 \<and> m_may_fail tc then flags OR CouldHaveFailedAndDid
         else if 0 <s m_expected_failures tc
         then (if failedAsserts = m_expected_failures tc then flags OR FailedExactlyNumTimes
               else flags OR DidntFailExactlyNumTimes)
         else flags)"

definition ok_to_fail :: "i32 \<Rightarrow> bool" where
  "ok_to_fail flags \<longleftrightarrow> ShouldHaveFailedAndDid AND flags \<noteq> 0 \<or> CouldHaveFailedAndDid AND flags \<noteq> 0 \<or>
     FailedExactlyNumTimes AND flags \<noteq> 0"

definition finalizeTestCaseData :: "fp_ops \<Rightarrow> ticks \<Rightarrow> context_state \<Rightarrow> failure + context_state" where
  "finalizeTestCaseData fp now c =
     (case currentTest c of
        None \<Rightarrow> Inl Null_deref
      | Some tc \<Rightarrow>
          let secs = getElapsedSeconds fp now (timer c);
              ran = lanes_load (numAssertsCurrentTest_atomic c);
              failed = lanes_load (numAssertsFailedCurrentTest_atomic c);
              flags = final_flags tc failed (timed_out fp (m_timeout tc) secs) (failure_flags (case_data c));
              ok = (\<not> (flags \<noteq> 0 \<and> \<not> ok_to_fail flags));
              stats = run_data c
          in Inr (c\<lparr>
            run_data := stats\<lparr>numAsserts := numAsserts stats + ran, numAssertsFailed := numAssertsFailed stats + failed,
              numTestCasesFailed := (if ok then numTestCasesFailed stats else numTestCasesFailed stats + 1)\<rparr>,
            case_data := \<lparr>numAssertsCurrentTest = ran, numAssertsFailedCurrentTest = failed, seconds = secs,
              failure_flags = flags, testCaseSuccess = ok\<rparr>\<rparr>))"

section \<open>The counters count\<close>

lemma lanes_load_sum: "lanes_load m = sum_list m"
proof -
  have "fold (\<lambda>c result. result + c) m r = r + sum_list m" for r
    by (induction m arbitrary: r) (simp_all add: algebra_simps)
  from this [of 0] show ?thesis by (simp add: lanes_load_def)
qed

lemma sum_list_lane: "i < length m \<Longrightarrow> sum_list (m[i := m ! i + (a :: i32)]) = sum_list m + a"
  by (induction m arbitrary: i) (auto split: nat.splits)

lemma lane_add:
  assumes "i < length m"
  shows "lanes_load (fst (lane_fetch_add i a m)) = lanes_load m + a" and "length (fst (lane_fetch_add i a m)) = length m"
  using assms by (simp_all add: lane_fetch_add_def lanes_load_sum sum_list_lane)

lemma lanes_pos: "0 < THREAD_LANES"
  by (simp add: THREAD_LANES_def)

lemma deal_lane_less: "fst (deal_lane n) < THREAD_LANES"
  by (simp add: deal_lane_def THREAD_LANES_def)

text \<open>Additions and subtractions made by any threads in any order, each thread with the lane it was dealt.\<close>

datatype lane_op = Add nat i32 | Sub nat i32 | Increment nat

fun lane_step :: "lane_op \<Rightarrow> multi_lane \<Rightarrow> multi_lane" where
  "lane_step (Add i a) m = fst (lane_fetch_add i a m)"
| "lane_step (Sub i a) m = fst (lane_fetch_sub i a m)"
| "lane_step (Increment i) m = fst (lane_preincrement i m)"

fun lane_of :: "lane_op \<Rightarrow> nat" where
  "lane_of (Add i a) = i" | "lane_of (Sub i a) = i" | "lane_of (Increment i) = i"

fun lane_effect :: "lane_op \<Rightarrow> i32" where
  "lane_effect (Add i a) = a" | "lane_effect (Sub i a) = - a" | "lane_effect (Increment i) = 1"

lemma lane_step_sum:
  assumes "lane_of op < length m"
  shows "lanes_load (lane_step op m) = lanes_load m + lane_effect op \<and> length (lane_step op m) = length m"
  using assms lane_add [of "lane_of op" m] sum_list_lane [of "lane_of op" m "- x" for x]
  by (cases op) (simp_all add: lane_fetch_sub_def lane_preincrement_def lanes_load_sum case_prod_unfold)

text \<open>
  The counter with lanes is a counter: after a store and any interleaving of additions,
  subtractions and increments by the threads it reads as the stored value and the sum of their
  effects, and a thread's lane is within bounds whenever it was dealt.
\<close>

theorem multi_lane_counts:
  assumes "\<forall>op \<in> set run. \<exists>k. lane_of op = fst (deal_lane k)" and "length m = THREAD_LANES"
  shows "lanes_load (fold lane_step run (lanes_store v m)) = v + sum_list (map lane_effect run) \<and>
    length (fold lane_step run (lanes_store v m)) = THREAD_LANES"
proof -
  have "lanes_load (fold lane_step run m') = lanes_load m' + sum_list (map lane_effect run) \<and>
      length (fold lane_step run m') = length m'" if "length m' = THREAD_LANES" for m'
    using assms(1) that
  proof (induction run arbitrary: m')
    case (Cons op run)
    then have "lane_of op < length m'" using deal_lane_less by auto
    from lane_step_sum [OF this] Cons show ?case by simp
  qed simp
  moreover have "length (lanes_store v m) = THREAD_LANES" "lanes_load (lanes_store v m) = v"
    using assms(2) lanes_pos by (auto simp: lanes_store_def lanes_load_sum split: list.splits)
  ultimately show ?thesis by simp
qed

theorem multi_lane_counts_witness:
  "lanes_load (fold lane_step [Increment 0, Add 5 7, Increment 31, Sub 5 2] (lanes_store 3 lanes_new)) = 10"
proof -
  have "\<forall>op \<in> set [Increment 0, Add 5 7, Increment 31, Sub 5 2]. \<exists>k. lane_of op = fst (deal_lane k)"
    using deal_lane_def by (auto simp: deal_lane_def THREAD_LANES_def intro: exI [of _ 0] exI [of _ 5] exI [of _ 31])
  moreover have "length lanes_new = THREAD_LANES" by (simp add: lanes_new_def)
  ultimately show ?thesis
    using multi_lane_counts [of "[Increment 0, Add 5 7, Increment 31, Sub 5 2]" lanes_new 3] by simp
qed

section \<open>The verdict on a test case\<close>

lemma flag_set: "2 ^ n AND (x OR 2 ^ n) \<noteq> (0 :: i32) \<longleftrightarrow> True" if "n < 32"
  using that by (simp add: and_exp_eq_0_iff_not_bit [of _ n] and.commute [of "2 ^ n"] bit_simps)

lemma small_flags:
  assumes "(x :: i32) < 32"
  shows "x \<in> of_nat ` {0..<32}"
proof -
  have "x = of_nat (unat x)" by simp
  moreover have "unat x < 32" using assms by (simp add: word_less_nat_alt)
  ultimately show ?thesis by (intro image_eqI [of _ _ "unat x"]) auto
qed

lemma flag_facts:
  assumes "x < 32"
  shows "ok_to_fail (x OR ShouldHaveFailedAndDid)" and "\<not> ok_to_fail (x OR ShouldHaveFailedButDidnt)"
    and "ok_to_fail (x OR CouldHaveFailedAndDid)" and "ok_to_fail (x OR FailedExactlyNumTimes)"
    and "\<not> ok_to_fail (x OR DidntFailExactlyNumTimes)" and "\<not> ok_to_fail x"
    and "x OR ShouldHaveFailedButDidnt \<noteq> 0" and "x OR DidntFailExactlyNumTimes \<noteq> 0"
    and "x OR AssertFailure < 32 \<and> x OR AssertFailure \<noteq> 0" and "x OR Timeout < 32 \<and> x OR Timeout \<noteq> 0"
proof -
  have table: "\<forall>n \<in> set [0..<32]. let x = (of_nat n :: i32) in
      ok_to_fail (x OR ShouldHaveFailedAndDid) \<and> \<not> ok_to_fail (x OR ShouldHaveFailedButDidnt) \<and>
      ok_to_fail (x OR CouldHaveFailedAndDid) \<and> ok_to_fail (x OR FailedExactlyNumTimes) \<and>
      \<not> ok_to_fail (x OR DidntFailExactlyNumTimes) \<and> \<not> ok_to_fail x \<and>
      x OR ShouldHaveFailedButDidnt \<noteq> 0 \<and> x OR DidntFailExactlyNumTimes \<noteq> 0 \<and>
      (x OR AssertFailure < 32 \<and> x OR AssertFailure \<noteq> 0) \<and> x OR Timeout < 32 \<and> x OR Timeout \<noteq> 0"
    by code_simp
  obtain n where "x = of_nat n" "n \<in> set [0..<32]" using small_flags [OF assms] by auto
  with bspec [OF table this(2)]
  show "ok_to_fail (x OR ShouldHaveFailedAndDid)" and "\<not> ok_to_fail (x OR ShouldHaveFailedButDidnt)"
    and "ok_to_fail (x OR CouldHaveFailedAndDid)" and "ok_to_fail (x OR FailedExactlyNumTimes)"
    and "\<not> ok_to_fail (x OR DidntFailExactlyNumTimes)" and "\<not> ok_to_fail x"
    and "x OR ShouldHaveFailedButDidnt \<noteq> 0" and "x OR DidntFailExactlyNumTimes \<noteq> 0"
    and "x OR AssertFailure < 32 \<and> x OR AssertFailure \<noteq> 0" and "x OR Timeout < 32 \<and> x OR Timeout \<noteq> 0"
    by (simp_all add: Let_def)
qed

lemma final_flags_verdict:
  assumes "flags < 32"
    and failed: "failed \<longleftrightarrow> n \<noteq> 0 \<or> slow \<or> flags \<noteq> 0"
  shows "\<not> (final_flags tc n slow flags \<noteq> 0 \<and> \<not> ok_to_fail (final_flags tc n slow flags)) \<longleftrightarrow>
    (if m_should_fail tc then failed else if failed \<and> m_may_fail tc then True
     else if 0 <s m_expected_failures tc then n = m_expected_failures tc else \<not> failed)"
proof -
  define f1 where "f1 = (if n \<noteq> 0 then flags OR AssertFailure else flags)"
  define f where "f = (if slow then f1 OR Timeout else f1)"
  have f1: "f1 < 32" "f1 \<noteq> 0 \<longleftrightarrow> n \<noteq> 0 \<or> flags \<noteq> 0"
    using assms(1) flag_facts(9) [OF assms(1)] by (auto simp: f1_def)
  have f: "f < 32" "f \<noteq> 0 \<longleftrightarrow> failed"
    using f1 flag_facts(10) [OF f1(1)] by (auto simp: f_def failed)
  have "final_flags tc n slow flags =
      (if m_should_fail tc then (if failed then f OR ShouldHaveFailedAndDid else f OR ShouldHaveFailedButDidnt)
       else if failed \<and> m_may_fail tc then f OR CouldHaveFailedAndDid
       else if 0 <s m_expected_failures tc
       then (if n = m_expected_failures tc then f OR FailedExactlyNumTimes else f OR DidntFailExactlyNumTimes)
       else f)"
    unfolding final_flags_def Let_def f1_def [symmetric] f_def [symmetric] f(2) by (rule refl)
  then show ?thesis
    using flag_facts [OF f(1)] f(2) by (auto split: if_splits)
qed

text \<open>
  (C33) The verdict on a test case: one that should fail succeeds exactly if something failed; one that may
  fail succeeds if something did; with expected failures the number of failed assertions must be
  exactly that, and then an exception or a timeout is forgiven too; otherwise nothing may have failed.
  The run counts the test case as failed exactly if it did not succeed, and adds its assertions up.
\<close>

theorem test_case_verdict:
  assumes "currentTest c = Some tc" and "failure_flags (case_data c) < 32"
  shows "returns (finalizeTestCaseData fp now c) (\<lambda>d.
    let n = lanes_load (numAssertsFailedCurrentTest_atomic c);
        failed = n \<noteq> 0 \<or> timed_out fp (m_timeout tc) (getElapsedSeconds fp now (timer c)) \<or>
          failure_flags (case_data c) \<noteq> 0;
        success = (if m_should_fail tc then failed else if failed \<and> m_may_fail tc then True
          else if 0 <s m_expected_failures tc then n = m_expected_failures tc else \<not> failed)
    in testCaseSuccess (case_data d) = success \<and>
       numTestCasesFailed (run_data d) = numTestCasesFailed (run_data c) + (if success then 0 else 1) \<and>
       numAssertsFailed (run_data d) = numAssertsFailed (run_data c) + n \<and>
       numAsserts (run_data d) = numAsserts (run_data c) + lanes_load (numAssertsCurrentTest_atomic c))"
  using final_flags_verdict [OF assms(2) refl] assms(1)
  by (simp add: finalizeTestCaseData_def Let_def)

definition sample_fp :: fp_ops where
  "sample_fp = \<lparr>fp_add = (+), fp_sub = (-), fp_mul = (\<lambda>a b. 0), fp_div = (\<lambda>a b. a), fp_lt = (<),
     fp_equal = (=), fp_of_u64 = id\<rparr>"

definition sample_case :: test_case where
  "sample_case = \<lparr>m_file = ''a.cpp'', m_line = 7, m_name = ''parses'', m_test_suite = ''net'', m_description = None,
     m_skip = False, m_no_breaks = False, m_no_output = False, m_may_fail = False, m_should_fail = False,
     m_expected_failures = 0, m_timeout = 0, m_test = 0, m_type = [], m_template_id = -1, m_full_name = []\<rparr>"

definition sample_options :: context_options where
  "sample_options = \<lparr>opt_binary_name = [], opt_out = [], opt_order_by = ''file'', opt_rand_seed = 0, opt_first = 0,
     opt_last = - 1, opt_abort_after = 0, opt_subcase_filter_levels = 0x7FFFFFFF, opt_success = False,
     opt_case_sensitive = False, opt_exit = False, opt_duration = False, opt_minimal = False, opt_quiet = False,
     opt_no_throw = False, opt_no_exitcode = False, opt_no_run = False, opt_no_intro = False, opt_no_version = False,
     opt_no_colors = False, opt_force_colors = False, opt_no_breaks = False, opt_no_skip = False,
     opt_gnu_file_line = True, opt_no_path_in_filenames = False, opt_strip_file_prefixes = [],
     opt_no_line_numbers = False, opt_no_debug_output = False, opt_no_skipped_summary = False,
     opt_no_time_in_output = False, opt_help = False, opt_version = False, opt_count = False,
     opt_list_test_cases = False, opt_list_test_suites = False, opt_list_reporters = False\<rparr>"

definition sample_context :: context_state where
  "sample_context = \<lparr>ctx_options = sample_options, cout = None, currentTest = Some sample_case,
     run_data = \<lparr>numTestCases = 0, numTestCasesPassingFilters = 0, numTestSuitesPassingFilters = 0,
       numTestCasesFailed = 0, numAsserts = 0, numAssertsFailed = 0\<rparr>,
     case_data = \<lparr>numAssertsCurrentTest = 0, numAssertsFailedCurrentTest = 0, seconds = 0, failure_flags = 0,
       testCaseSuccess = False\<rparr>,
     numAssertsCurrentTest_atomic = lanes_store 3 lanes_new,
     numAssertsFailedCurrentTest_atomic = lanes_store 1 lanes_new, tls_lane = 0,
     filters = replicate 9 [], reporters_currently_used = [], reports = [], assert_handler = False,
     handled_asserts = [], timer = 0, stringifiedContexts = [], infoContexts = [], reachedLeaf = False,
     subcaseStack = [], nextSubcaseStack = [], fullyTraversedSubcases = {}, currentSubcaseDepth = 0,
     shouldLogCurrentException = True\<rparr>"

theorem test_case_verdict_witness:
  "returns (finalizeTestCaseData sample_fp 0 sample_context) (\<lambda>d. \<not> testCaseSuccess (case_data d) \<and>
     numTestCasesFailed (run_data d) = 1 \<and> numAssertsFailed (run_data d) = 1 \<and> numAsserts (run_data d) = 3)"
proof -
  have pre: "currentTest sample_context = Some sample_case" "failure_flags (case_data sample_context) < 32"
    by (simp_all add: sample_context_def)
  have n: "lanes_load (numAssertsFailedCurrentTest_atomic sample_context) = 1"
    "lanes_load (numAssertsCurrentTest_atomic sample_context) = 3" by code_simp+
  show ?thesis
    by (rule returns_mono [OF test_case_verdict [OF pre, of sample_fp 0]])
       (simp add: n Let_def, simp add: sample_context_def sample_case_def)
qed

end
