(* ===== verification/Doctest_Subcases.thy ===== *)
theory Doctest_Subcases
  imports Doctest_State
begin

text \<open>
  The subcases of doctest.h: a test body is run again and again, each time entering one more path of
  subcases. The constructor and destructor of \<open>Subcase\<close> decide where to go from the stack of the
  subcases entered, the stack to follow next and the hashes of the paths already done. A test body is
  a list of items, each a subcase with its body or any other statement.
\<close>

section \<open>Reports and results\<close>

definition iterate_reporters :: "reporter_call \<Rightarrow> context_state \<Rightarrow> context_state" where
  "iterate_reporters call c = c\<lparr>reports := reports c @ map (\<lambda>r. (r, call)) (reporters_currently_used c)\<rparr>"

text \<open>What a thrown object is, as far as the handlers tell; and how a statement ends.\<close>

datatype exn = Std_exception string | Std_string string | C_string string | Other_exception nat

datatype body_outcome = Returned | Test_failure | Thrown exn

section \<open>Subcase\<close>

text \<open>\<open>checkFilters\<close> tells whether the subcase is to be left out; \<open>size_t\<close> of a negative level is huge.\<close>

definition checkFilters :: "subcase_signature \<Rightarrow> context_state \<Rightarrow> bool" where
  "checkFilters sig c =
     (if length (subcaseStack c) < unat (scast (opt_subcase_filter_levels (ctx_options c)) :: u64)
      then (if \<not> matchesAny (sig_name sig) (filters c ! 6) True (opt_case_sensitive (ctx_options c)) then True
            else if matchesAny (sig_name sig) (filters c ! 7) False (opt_case_sensitive (ctx_options c)) then True
            else False)
      else False)"

text \<open>The constructor, and whether the subcase is entered. The element behind the end of the stack is read after a repeated entry of a leaf.\<close>

definition Subcase :: "subcase_signature \<Rightarrow> context_state \<Rightarrow> failure + bool \<times> context_state" where
  "Subcase m_signature c =
     (if \<not> reachedLeaf c
      then if length (nextSubcaseStack c) \<le> length (subcaseStack c) \<or>
              signature_eq (nextSubcaseStack c ! length (subcaseStack c)) m_signature
           then if checkFilters m_signature c then Inr (False, c)
                else Inr (True, iterate_reporters (Subcase_start m_signature)
                  (c\<lparr>subcaseStack := subcaseStack c @ [m_signature], currentSubcaseDepth := currentSubcaseDepth c + 1\<rparr>))
           else Inr (False, c)
      else if length (subcaseStack c) \<le> currentSubcaseDepth c then Inl Out_of_bounds
      else if signature_eq (subcaseStack c ! currentSubcaseDepth c) m_signature
      then Inr (True, iterate_reporters (Subcase_start m_signature) (c\<lparr>currentSubcaseDepth := currentSubcaseDepth c + 1\<rparr>))
      else if length (nextSubcaseStack c) \<le> currentSubcaseDepth c \<and>
              hash_pair (hash_signatures (take (currentSubcaseDepth c) (subcaseStack c))) (hash_signature m_signature)
                \<notin> fullyTraversedSubcases c
      then if checkFilters m_signature c then Inr (False, c)
           else Inr (False, c\<lparr>nextSubcaseStack := take (currentSubcaseDepth c) (subcaseStack c) @ [m_signature]\<rparr>)
      else Inr (False, c))"

text \<open>The destructor of an entered subcase, and whether it runs while an exception unwinds the stack.\<close>

definition unwinding_message :: string where
  "unwinding_message = ''exception thrown in subcase - will translate later when the whole test case has been exited (cannot translate while there is an active exception)''"

definition Subcase_destroy :: "bool \<Rightarrow> context_state \<Rightarrow> context_state" where
  "Subcase_destroy uncaught c =
     (let c = c\<lparr>currentSubcaseDepth := currentSubcaseDepth c - 1\<rparr>;
          c = (if \<not> reachedLeaf c
               then c\<lparr>fullyTraversedSubcases := insert (hash_signatures (subcaseStack c)) (fullyTraversedSubcases c),
                      nextSubcaseStack := [], reachedLeaf := True\<rparr>
               else if nextSubcaseStack c = []
               then c\<lparr>fullyTraversedSubcases := insert (hash_signatures (subcaseStack c)) (fullyTraversedSubcases c)\<rparr>
               else c);
          c = (if uncaught \<and> shouldLogCurrentException c
               then (iterate_reporters (Test_case_exception unwinding_message False) c)\<lparr>shouldLogCurrentException := False\<rparr>
               else c)
      in iterate_reporters Subcase_end c)"

section \<open>A test body\<close>

datatype item = Sub subcase_signature "item list" | Act "context_state \<Rightarrow> failure + body_outcome \<times> context_state"

fun run_items :: "item list \<Rightarrow> context_state \<Rightarrow> failure + body_outcome \<times> context_state" where
  "run_items [] c = Inr (Returned, c)"
| "run_items (Act f # rest) c =
     res_bind (f c) (\<lambda>r. if fst r = Returned then run_items rest (snd r) else Inr r)"
| "run_items (Sub sig body # rest) c =
     res_bind (Subcase sig c) (\<lambda>s.
       if fst s
       then res_bind (run_items body (snd s)) (\<lambda>r.
         if fst r = Returned then run_items rest (Subcase_destroy False (snd r))
         else Inr (fst r, Subcase_destroy True (snd r)))
       else run_items rest (snd s))"

section \<open>Paths of a test body\<close>

text \<open>
  The leaves of a body, as paths of signatures, in order; those from a given node on; and the first
  subcase of a body.
\<close>

fun leaves :: "item list \<Rightarrow> subcase_signature list list" where
  "leaves [] = []"
| "leaves (Act f # rest) = leaves rest"
| "leaves (Sub sig body # rest) = map ((#) sig) (if leaves body = [] then [[]] else leaves body) @ leaves rest"

fun leaves_from :: "subcase_signature list \<Rightarrow> item list \<Rightarrow> subcase_signature list list" where
  "leaves_from [] items = leaves items"
| "leaves_from (s # q) [] = []"
| "leaves_from (s # q) (Act f # rest) = leaves_from (s # q) rest"
| "leaves_from (s # q) (Sub sig body # rest) =
     (if sig = s then map ((#) s) (if leaves_from q body = [] then [[]] else leaves_from q body) @ leaves rest
      else leaves_from (s # q) rest)"

fun node :: "subcase_signature list \<Rightarrow> item list \<Rightarrow> bool" where
  "node [] items = True"
| "node (s # q) [] = False"
| "node (s # q) (Act f # rest) = node (s # q) rest"
| "node (s # q) (Sub sig body # rest) = (if sig = s then node q body else node (s # q) rest)"

fun sigs :: "item list \<Rightarrow> subcase_signature list" where
  "sigs [] = []"
| "sigs (Act f # rest) = sigs rest"
| "sigs (Sub sig body # rest) = sig # sigs rest"

text \<open>Siblings differ, and the texts of a signature are C strings.\<close>

definition c_signature :: "subcase_signature \<Rightarrow> bool" where
  "c_signature s \<longleftrightarrow> CHR 0x00 \<notin> set (sig_name s) \<and> CHR 0x00 \<notin> set (sig_file s)"

fun tree_shaped :: "item list \<Rightarrow> bool" where
  "tree_shaped [] = True"
| "tree_shaped (Act f # rest) = tree_shaped rest"
| "tree_shaped (Sub sig body # rest) = (c_signature sig \<and> sig \<notin> set (sigs rest) \<and> tree_shaped body \<and> tree_shaped rest)"

lemma signature_eq_iff: "c_signature a \<Longrightarrow> c_signature b \<Longrightarrow> signature_eq a b \<longleftrightarrow> a = b"
  by (auto simp: signature_eq_def c_signature_def strcmp_eq)

lemma hash_signatures_snoc: "hash_signatures (p @ [s]) = hash_pair (hash_signatures p) (hash_signature s)"
  by (simp add: hash_signatures_def)

lemma leaves_Nil: "leaves items = [] \<longleftrightarrow> sigs items = []"
  by (induction items rule: leaves.induct) auto

lemma leaves_first: "sigs items = s # ss \<Longrightarrow> leaves_from [s] items = leaves items \<and> node [s] items"
  by (induction items rule: leaves.induct) auto

lemma leaves_nonempty: "[] \<notin> set (leaves items)"
  by (induction items rule: leaves.induct) auto

lemma leaves_hd: "l \<in> set (leaves items) \<Longrightarrow> hd l \<in> set (sigs items)"
  by (induction items rule: leaves.induct) auto

lemma leaves_from_node: "node q items \<Longrightarrow> q \<noteq> [] \<Longrightarrow> leaves_from q items \<noteq> []"
  by (induction q items rule: leaves_from.induct) auto

lemma leaves_from_sub: "node q items \<Longrightarrow> set (leaves_from q items) \<subseteq> set (leaves items)"
proof (induction q items rule: leaves_from.induct)
  case (4 s q sig body rest)
  show ?case
  proof (cases "sig = s")
    case True
    then have "leaves body = [] \<Longrightarrow> leaves_from q body = []" using 4 by auto
    moreover have "leaves_from q body = [] \<Longrightarrow> leaves body = []"
      using leaves_from_node [of q body] True 4(4) by (cases q) auto
    ultimately show ?thesis using True 4 by auto
  qed (use 4 in auto)
qed auto

lemma leaves_from_hd_first: "sigs items = s # ss \<Longrightarrow> \<exists>r rs. leaves items = (s # r) # rs"
  by (induction items rule: leaves.induct) (auto simp: neq_Nil_conv)

lemma node_sigs: "node (s # q) items \<Longrightarrow> s \<in> set (sigs items)"
  by (induction "s # q" items rule: node.induct) (auto split: if_splits)

lemma tree_sigs: "tree_shaped items \<Longrightarrow> s \<in> set (sigs items) \<Longrightarrow> c_signature s"
  by (induction items rule: leaves.induct) auto

text \<open>Leaves are distinct, and none is a prefix of another.\<close>

lemma leaves_prefix_free:
  "tree_shaped items \<Longrightarrow> distinct (leaves items) \<and> (\<forall>l \<in> set (leaves items). \<forall>m \<in> set (leaves items). take (length l) m = l \<longrightarrow> l = m)"
proof (induction items rule: leaves.induct)
  case (3 sig body rest)
  define bs where "bs = (if leaves body = [] then [[]] else leaves body)"
  have bs: "distinct bs" "\<forall>l \<in> set bs. \<forall>m \<in> set bs. take (length l) m = l \<longrightarrow> l = m"
    using 3 by (auto simp: bs_def)
  have rest: "hd l \<noteq> sig" "l \<noteq> []" if "l \<in> set (leaves rest)" for l
    using that "3.prems" leaves_hd [OF that] leaves_nonempty [of rest] by auto
  have "distinct (map ((#) sig) bs @ leaves rest)"
    using bs(1) 3 by (auto simp: distinct_map dest: rest(1))
  moreover have "l = m" if l: "l \<in> set (map ((#) sig) bs @ leaves rest)" and m: "m \<in> set (map ((#) sig) bs @ leaves rest)"
      and t: "take (length l) m = l" for l m
  proof -
    consider (body) l' m' where "l = sig # l'" "l' \<in> set bs" "m = sig # m'" "m' \<in> set bs"
      | (rest) "l \<in> set (leaves rest)" "m \<in> set (leaves rest)"
      | (fst) l' where "l = sig # l'" "m \<in> set (leaves rest)"
      | (snd) m' where "l \<in> set (leaves rest)" "m = sig # m'"
      using l m by auto
    then show ?thesis
    proof cases
      case body
      then show ?thesis using bs(2) t by auto
    next
      case rest
      then show ?thesis using "3.IH" "3.prems" t by auto
    next
      case fst
      then show ?thesis using rest(1) [OF fst(2)] t by (cases m) auto
    next
      case snd
      have "hd (take (length l) (sig # m')) = sig" using rest(2) [OF snd(1)] by (cases "length l") auto
      then show ?thesis using rest(1) [OF snd(1)] t snd(2) by simp
    qed
  qed
  moreover have "leaves (Sub sig body # rest) = map ((#) sig) bs @ leaves rest" by (simp add: bs_def)
  ultimately show ?case by metis
qed auto

section \<open>One run of a body\<close>

text \<open>
  What a run can change of the subcase state, what it leaves alone, and what one reporter hears of
  subcases. A quiet statement changes none of this and returns.
\<close>

definition is_subcase_call :: "reporter_call \<Rightarrow> bool" where
  "is_subcase_call e = (case e of Subcase_start s \<Rightarrow> True | Subcase_end \<Rightarrow> True | Test_case_reenter tc \<Rightarrow> True | _ \<Rightarrow> False)"

definition hears :: "reporter_key \<Rightarrow> context_state \<Rightarrow> reporter_call list" where
  "hears r c = filter is_subcase_call (map snd (filter (\<lambda>p. fst p = r) (reports c)))"

definition frame :: "context_state \<Rightarrow> bool \<times> reporter_key list \<times> string list list \<times> context_options" where
  "frame c = (shouldLogCurrentException c, reporters_currently_used c, filters c, ctx_options c)"

definition quiet :: "reporter_key \<Rightarrow> (context_state \<Rightarrow> failure + body_outcome \<times> context_state) \<Rightarrow> bool" where
  "quiet r f \<longleftrightarrow> (\<forall>c. \<exists>d. f c = Inr (Returned, d) \<and> reachedLeaf d = reachedLeaf c \<and> subcaseStack d = subcaseStack c \<and>
     nextSubcaseStack d = nextSubcaseStack c \<and> fullyTraversedSubcases d = fullyTraversedSubcases c \<and>
     currentSubcaseDepth d = currentSubcaseDepth c \<and> frame d = frame c \<and> hears r d = hears r c)"

fun quiet_items :: "reporter_key \<Rightarrow> item list \<Rightarrow> bool" where
  "quiet_items r [] = True"
| "quiet_items r (Act f # rest) = (quiet r f \<and> quiet_items r rest)"
| "quiet_items r (Sub sig body # rest) = (quiet_items r body \<and> quiet_items r rest)"

definition unfiltered :: "reporter_key \<Rightarrow> context_state \<Rightarrow> bool" where
  "unfiltered r c \<longleftrightarrow> filters c ! 6 = [] \<and> filters c ! 7 = [] \<and> distinct (reporters_currently_used c) \<and>
     r \<in> set (reporters_currently_used c)"

text \<open>The subcase state of \<open>c\<close> is the given one, and what is left alone is as in \<open>c0\<close>.\<close>

definition subcase_state :: "reporter_key \<Rightarrow> context_state \<Rightarrow> context_state \<Rightarrow> bool \<Rightarrow> subcase_signature list \<Rightarrow>
    subcase_signature list \<Rightarrow> u64 set \<Rightarrow> nat \<Rightarrow> reporter_call list \<Rightarrow> bool" where
  "subcase_state r c0 c leaf stack nxt full depth heard \<longleftrightarrow>
     reachedLeaf c = leaf \<and> subcaseStack c = stack \<and> nextSubcaseStack c = nxt \<and> fullyTraversedSubcases c = full \<and>
     currentSubcaseDepth c = depth \<and> hears r c = heard \<and> frame c = frame c0"

lemma quiet_step:
  assumes "quiet r f" and "subcase_state r c0 c leaf stack nxt full depth heard"
  shows "\<exists>d. f c = Inr (Returned, d) \<and> subcase_state r c0 d leaf stack nxt full depth heard"
proof -
  from assms(1) obtain d where "f c = Inr (Returned, d)" "reachedLeaf d = reachedLeaf c" "subcaseStack d = subcaseStack c"
     "nextSubcaseStack d = nextSubcaseStack c" "fullyTraversedSubcases d = fullyTraversedSubcases c"
     "currentSubcaseDepth d = currentSubcaseDepth c" "frame d = frame c" "hears r d = hears r c"
    unfolding quiet_def by blast
  with assms(2) show ?thesis unfolding subcase_state_def by (intro exI [of _ d]) simp
qed

lemma unfiltered_frame: "frame c = frame c0 \<Longrightarrow> unfiltered r c0 \<Longrightarrow> unfiltered r c"
  by (simp add: unfiltered_def frame_def)

lemma no_filter: "unfiltered r c \<Longrightarrow> \<not> checkFilters sig c"
  by (simp add: checkFilters_def unfiltered_def matchesAny_def)

lemma filter_single: "distinct rs \<Longrightarrow> r \<in> set rs \<Longrightarrow> filter (\<lambda>p. fst p = r) (map (\<lambda>r. (r, e)) rs) = [(r, e)]"
proof (induction rs)
  case (Cons x rs)
  then show ?case by (cases "x = r") (auto simp: filter_empty_conv)
qed simp

lemma hears_iterate:
  "unfiltered r c \<Longrightarrow> is_subcase_call e \<Longrightarrow> hears r (iterate_reporters e c) = hears r c @ [e]"
  by (simp add: hears_def iterate_reporters_def unfiltered_def filter_single)

lemma iterate_fields [simp]:
  "reachedLeaf (iterate_reporters e c) = reachedLeaf c" "subcaseStack (iterate_reporters e c) = subcaseStack c"
  "nextSubcaseStack (iterate_reporters e c) = nextSubcaseStack c"
  "fullyTraversedSubcases (iterate_reporters e c) = fullyTraversedSubcases c"
  "currentSubcaseDepth (iterate_reporters e c) = currentSubcaseDepth c"
  "frame (iterate_reporters e c) = frame c"
  by (simp_all add: iterate_reporters_def frame_def)

lemma hears_updates [simp]:
  "hears r (c\<lparr>subcaseStack := s\<rparr>) = hears r c" "hears r (c\<lparr>nextSubcaseStack := s\<rparr>) = hears r c"
  "hears r (c\<lparr>currentSubcaseDepth := d\<rparr>) = hears r c" "hears r (c\<lparr>reachedLeaf := b\<rparr>) = hears r c"
  "hears r (c\<lparr>fullyTraversedSubcases := f\<rparr>) = hears r c"
  by (simp_all add: hears_def)

lemma frame_updates [simp]:
  "frame (c\<lparr>subcaseStack := s\<rparr>) = frame c" "frame (c\<lparr>nextSubcaseStack := s\<rparr>) = frame c"
  "frame (c\<lparr>currentSubcaseDepth := d\<rparr>) = frame c" "frame (c\<lparr>reachedLeaf := b\<rparr>) = frame c"
  "frame (c\<lparr>fullyTraversedSubcases := f\<rparr>) = frame c"
  by (simp_all add: frame_def)

lemma unfiltered_updates [simp]:
  "unfiltered r (c\<lparr>subcaseStack := s\<rparr>) = unfiltered r c" "unfiltered r (c\<lparr>nextSubcaseStack := s\<rparr>) = unfiltered r c"
  "unfiltered r (c\<lparr>currentSubcaseDepth := d\<rparr>) = unfiltered r c" "unfiltered r (c\<lparr>reachedLeaf := b\<rparr>) = unfiltered r c"
  "unfiltered r (c\<lparr>fullyTraversedSubcases := f\<rparr>) = unfiltered r c"
  by (simp_all add: unfiltered_def)

text \<open>Behind the leaf: the first subcase that comes is the next to go to, unless one is known already.\<close>

lemma run_behind_leaf:
  assumes "subcase_state r c0 c True stack nxt full (length p) heard" and "unfiltered r c0" and "quiet_items r items"
    and "take (length p) stack = p" and "length p < length stack" and "stack ! length p \<notin> set (sigs items)"
    and "list_all c_signature stack" and "tree_shaped items"
    and "nxt = [] \<or> length p < length nxt"
    and "\<forall>s ss. nxt = [] \<and> sigs items = s # ss \<longrightarrow> hash_signatures (p @ [s]) \<notin> full"
  shows "\<exists>d. run_items items c = Inr (Returned, d) \<and>
    subcase_state r c0 d True stack (if nxt = [] then (case sigs items of [] \<Rightarrow> [] | s # ss \<Rightarrow> p @ [s]) else nxt)
      full (length p) heard"
  using assms
proof (induction items arbitrary: c nxt rule: sigs.induct)
  case (2 f rest)
  then obtain d where d: "f c = Inr (Returned, d)" "subcase_state r c0 d True stack nxt full (length p) heard"
    using quiet_step [of r f] by (metis quiet_items.simps(2))
  from "2.IH" [OF d(2)] "2.prems" d(1) show ?case by auto
next
  case (3 sig body rest)
  have un: "unfiltered r c" using "3.prems"(1,2) unfiltered_frame by (auto simp: subcase_state_def)
  have top: "c_signature (stack ! length p)" using "3.prems"(5,7) by (simp add: list_all_length)
  then have differs: "\<not> signature_eq (stack ! length p) sig"
    using "3.prems"(6,8) signature_eq_iff [OF top] by auto
  show ?case
  proof (cases "nxt = []")
    case True
    have "hash_pair (hash_signatures p) (hash_signature sig) \<notin> full"
      using "3.prems"(10) True hash_signatures_snoc by auto
    then have step: "Subcase sig c = Inr (False, c\<lparr>nextSubcaseStack := p @ [sig]\<rparr>)"
      using "3.prems"(1,4,5) differs True no_filter [OF un]
      by (auto simp: Subcase_def subcase_state_def)
    have "subcase_state r c0 (c\<lparr>nextSubcaseStack := p @ [sig]\<rparr>) True stack (p @ [sig]) full (length p) heard"
      using "3.prems"(1) by (simp add: subcase_state_def)
    from "3.IH" [OF this] "3.prems" step True show ?thesis by auto
  next
    case False
    then have step: "Subcase sig c = Inr (False, c)"
      using "3.prems"(1,5,9) differs by (auto simp: Subcase_def subcase_state_def)
    from "3.IH" [OF "3.prems"(1)] "3.prems" step False show ?thesis by auto
  qed
qed auto

text \<open>
  A run that has not reached its leaf, with the rest \<open>q\<close> of the stack to follow: it enters the path of
  the first leaf from there, and leaves behind the node where the next run starts.
\<close>

definition fresh_paths :: "u64 set \<Rightarrow> subcase_signature list \<Rightarrow> subcase_signature list list \<Rightarrow> bool" where
  "fresh_paths full p ls \<longleftrightarrow>
     (\<forall>l \<in> set (tl ls). \<forall>k \<in> {1..length l}. hash_signatures (p @ take k l) \<notin> insert (hash_signatures (p @ hd ls)) full)"

definition path_calls :: "subcase_signature list \<Rightarrow> reporter_call list" where
  "path_calls l = map Subcase_start l @ replicate (length l) Subcase_end"

lemma path_calls_Cons: "path_calls (s # l) = Subcase_start s # path_calls l @ [Subcase_end]"
  by (simp add: path_calls_def replicate_append_same)

lemma destroy_fields:
  assumes "subcase_state r c0 c leaf stack nxt full (Suc n) heard" and "unfiltered r c0"
  shows "subcase_state r c0 (Subcase_destroy False c) True stack (if leaf then nxt else [])
    (if leaf \<and> nxt \<noteq> [] then full else insert (hash_signatures stack) full) n (heard @ [Subcase_end])"
proof -
  have un: "unfiltered r c" using assms unfiltered_frame by (auto simp: subcase_state_def)
  show ?thesis
    using assms(1) un
    by (auto simp: subcase_state_def Subcase_destroy_def Let_def hears_iterate is_subcase_call_def)
qed

lemma enter_fields:
  assumes "subcase_state r c0 c False p nxt full (length p) heard" and "unfiltered r c0"
    and "length nxt \<le> length p \<or> signature_eq (nxt ! length p) sig"
  shows "\<exists>d. Subcase sig c = Inr (True, d) \<and>
    subcase_state r c0 d False (p @ [sig]) nxt full (length (p @ [sig])) (heard @ [Subcase_start sig])"
proof -
  have un: "unfiltered r c" using assms unfiltered_frame by (auto simp: subcase_state_def)
  show ?thesis
    using assms(1,3) un no_filter [OF un, of sig]
    by (auto simp: subcase_state_def Subcase_def hears_iterate is_subcase_call_def)
qed

definition next_node :: "item list \<Rightarrow> subcase_signature list list \<Rightarrow> subcase_signature list \<Rightarrow> subcase_signature list \<Rightarrow> bool" where
  "next_node items ls p nxt \<longleftrightarrow>
     (if ls = [] then nxt = [] else \<exists>q. nxt = p @ q \<and> q \<noteq> [] \<and> node q items \<and> leaves_from q items = ls)"

definition after_run :: "reporter_key \<Rightarrow> context_state \<Rightarrow> context_state \<Rightarrow> subcase_signature list \<Rightarrow> subcase_signature list \<Rightarrow>
    u64 set \<Rightarrow> reporter_call list \<Rightarrow> item list \<Rightarrow> subcase_signature list list \<Rightarrow> bool" where
  "after_run r c0 d p nxt full heard items ls \<longleftrightarrow>
     (if ls = [] then subcase_state r c0 d False p nxt full (length p) heard
      else \<exists>nxt' full'. subcase_state r c0 d True (p @ hd ls) nxt' full' (length p) (heard @ path_calls (hd ls)) \<and>
        full \<subseteq> full' \<and> full' \<subseteq> insert (hash_signatures (p @ hd ls)) full \<and> next_node items (tl ls) p nxt')"

lemma next_node_further:
  assumes "next_node rest ls p nxt" and "sig \<notin> set (sigs rest)"
  shows "next_node (Sub sig body # rest) ls p nxt"
proof -
  have "node q (Sub sig body # rest) \<and> leaves_from q (Sub sig body # rest) = leaves_from q rest"
    if "q \<noteq> []" "node q rest" for q
    using that assms(2) node_sigs by (cases q) auto
  with assms(1) show ?thesis unfolding next_node_def by (cases "ls = []") auto
qed

lemma after_run_further:
  "after_run r c0 d p nxt full heard rest ls \<Longrightarrow> sig \<notin> set (sigs rest) \<Longrightarrow> after_run r c0 d p nxt full heard (Sub sig body # rest) ls"
  unfolding after_run_def by (cases "ls = []") (auto intro: next_node_further)

lemma leaf_texts:
  assumes "tree_shaped items" and "node q items" and "leaves_from q items \<noteq> []"
  shows "list_all c_signature (hd (leaves_from q items))"
proof -
  have "list_all c_signature l" if "l \<in> set (leaves items)" for l
    using assms(1) that by (induction items arbitrary: l rule: leaves.induct) (auto split: if_splits)
  moreover have "hd (leaves_from q items) \<in> set (leaves items)"
    using leaves_from_sub [OF assms(2)] assms(3) by auto
  ultimately show ?thesis by blast
qed

lemma destroyed_leaf:
  fixes body :: "item list" and q :: "subcase_signature list"
  defines "bs \<equiv> (if leaves_from q body = [] then [[]] else leaves_from q body)"
  assumes "after_run r c0 e (p @ [sig]) nxt full (heard @ [Subcase_start sig]) body (leaves_from q body)" and "unfiltered r c0"
  shows "\<exists>nxt1 full1. subcase_state r c0 (Subcase_destroy False e) True (p @ sig # hd bs) nxt1 full1 (length p)
        (heard @ path_calls (sig # hd bs)) \<and>
      full \<subseteq> full1 \<and> full1 \<subseteq> insert (hash_signatures (p @ sig # hd bs)) full \<and> next_node body (tl bs) (p @ [sig]) nxt1"
proof (cases "leaves_from q body = []")
  case True
  then have "subcase_state r c0 e False (p @ [sig]) nxt full (Suc (length p)) (heard @ [Subcase_start sig])"
    using assms(2) by (simp add: after_run_def)
  from destroy_fields [OF this assms(3)] True show ?thesis
    by (intro exI [of _ "[]"] exI [of _ "insert (hash_signatures (p @ [sig])) full"])
       (auto simp: bs_def path_calls_def next_node_def)
next
  case False
  then obtain nxt1 full1 where e: "subcase_state r c0 e True (p @ sig # hd bs) nxt1 full1 (Suc (length p))
      (heard @ Subcase_start sig # path_calls (hd bs))"
    and rest: "full \<subseteq> full1" "full1 \<subseteq> insert (hash_signatures (p @ sig # hd bs)) full" "next_node body (tl bs) (p @ [sig]) nxt1"
    using assms(2) by (auto simp: after_run_def bs_def)
  from destroy_fields [OF e assms(3)] rest show ?thesis
    by (intro exI [of _ nxt1] exI [of _ "if nxt1 \<noteq> [] then full1 else insert (hash_signatures (p @ sig # hd bs)) full1"])
       (auto simp: path_calls_Cons)
qed

lemma next_after_leaf:
  assumes "next_node body ls (p @ [sig]) nxt" and "sig \<notin> set (sigs rest)"
  shows "next_node (Sub sig body # rest) (map ((#) sig) ls @ leaves rest) p
    (if nxt = [] then (case sigs rest of [] \<Rightarrow> [] | s # ss \<Rightarrow> p @ [s]) else nxt)"
proof (cases "ls = []")
  case True
  then have "nxt = []" using assms(1) by (simp add: next_node_def)
  show ?thesis
  proof (cases "sigs rest")
    case Nil
    then show ?thesis using True \<open>nxt = []\<close> leaves_Nil [of rest] by (simp add: next_node_def)
  next
    case (Cons s ss)
    then have "leaves_from [s] rest = leaves rest" "node [s] rest" "s \<noteq> sig" "leaves rest \<noteq> []"
      using leaves_first assms(2) leaves_Nil [of rest] by auto
    then have "node [s] (Sub sig body # rest) \<and> leaves_from [s] (Sub sig body # rest) = leaves rest" by simp
    then show ?thesis
      using True \<open>nxt = []\<close> Cons \<open>leaves rest \<noteq> []\<close> unfolding next_node_def by auto
  qed
next
  case False
  then obtain q where q: "nxt = (p @ [sig]) @ q" "q \<noteq> []" "node q body" "leaves_from q body = ls"
    using assms(1) by (auto simp: next_node_def)
  then have "node (sig # q) (Sub sig body # rest) \<and>
      leaves_from (sig # q) (Sub sig body # rest) = map ((#) sig) ls @ leaves rest"
    using False by simp
  then show ?thesis using q(1) False unfolding next_node_def by auto
qed

lemma run_to_leaf:
  assumes "subcase_state r c0 c False p nxt full (length p) heard" and "unfiltered r c0" and "quiet_items r items"
    and "tree_shaped items" and "list_all c_signature p" and "drop (length p) nxt = q" and "node q items"
    and "fresh_paths full p (leaves_from q items)"
  shows "\<exists>d. run_items items c = Inr (Returned, d) \<and> after_run r c0 d p nxt full heard items (leaves_from q items)"
  using assms
proof (induction items arbitrary: c p nxt full heard q rule: tree_shaped.induct)
  case 1
  then show ?case by (cases q) (auto simp: after_run_def)
next
  case (2 f rest)
  then obtain d where d: "f c = Inr (Returned, d)" "subcase_state r c0 d False p nxt full (length p) heard"
    using quiet_step [of r f] by (metis quiet_items.simps(2))
  have same: "leaves_from q' (Act f # rest) = leaves_from q' rest" "node q' (Act f # rest) = node q' rest" for q'
    by (cases q'; simp)+
  have acts: "after_run r c0 d p nxt full heard (Act f # rest) ls = after_run r c0 d p nxt full heard rest ls" for d ls
    unfolding after_run_def next_node_def same by (rule refl)
  from "2.IH" [OF d(2)] "2.prems" d(1) show ?case unfolding same acts by auto
next
  case (3 sig body rest)
  have texts: "c_signature sig" "tree_shaped body" "tree_shaped rest" "sig \<notin> set (sigs rest)"
    "quiet_items r body" "quiet_items r rest"
    using "3.prems"(3,4) by simp_all
  show ?case
  proof (cases "\<exists>s q'. q = s # q' \<and> s \<noteq> sig")
    case True
    then obtain s q' where q: "q = s # q'" "s \<noteq> sig" by blast
    then have rest: "leaves_from q (Sub sig body # rest) = leaves_from q rest" "node q rest"
      using "3.prems"(7) by auto
    have "c_signature s"
      using tree_sigs [OF texts(3)] node_sigs rest(2) q(1) by blast
    moreover have "length p < length nxt"
      using "3.prems"(6) q(1) by (metis drop_all list.distinct(1) not_le)
    moreover have "nxt ! length p = s"
      using "3.prems"(6) q(1) by (metis nth_via_drop)
    ultimately have skip: "Subcase sig c = Inr (False, c)"
      using "3.prems"(1) q(2) signature_eq_iff [of s sig] texts(1) by (auto simp: Subcase_def subcase_state_def)
    have "fresh_paths full p (leaves_from q rest)" using "3.prems"(8) rest(1) by simp
    from "3.IH"(2) [OF "3.prems"(1,2) texts(6,3) "3.prems"(5,6) rest(2) this] obtain d
      where d: "run_items rest c = Inr (Returned, d)" "after_run r c0 d p nxt full heard rest (leaves_from q rest)"
      by blast
    show ?thesis
      unfolding rest(1) using skip d(1) after_run_further [OF d(2) texts(4)] by (intro exI [of _ d]) simp
  next
    case False
    then have q: "q = [] \<or> (\<exists>q'. q = sig # q')" by (cases q) auto
    define q' where "q' = tl q"
    have node_body: "node q' body" using "3.prems"(7) q by (auto simp: q'_def)
    define bs where "bs = (if leaves_from q' body = [] then [[]] else leaves_from q' body)"
    have ls: "leaves_from q (Sub sig body # rest) = map ((#) sig) bs @ leaves rest"
      using q by (auto simp: bs_def q'_def)
    have "length nxt \<le> length p \<or> signature_eq (nxt ! length p) sig"
      using "3.prems"(6) q signature_eq_iff [OF texts(1,1)] by (auto dest: nth_via_drop)
    from enter_fields [OF "3.prems"(1,2) this] obtain d where enter: "Subcase sig c = Inr (True, d)"
      and d: "subcase_state r c0 d False (p @ [sig]) nxt full (length (p @ [sig])) (heard @ [Subcase_start sig])"
      by blast
    have drop: "drop (length (p @ [sig])) nxt = q'"
      using "3.prems"(6) tl_drop [of "length p" nxt] by (simp add: q'_def drop_Suc)
    have bs_nonempty: "bs \<noteq> []" by (simp add: bs_def)
    have fresh: "hash_signatures (p @ take k l) \<notin> insert (hash_signatures (p @ sig # hd bs)) full"
      if "l \<in> set (map ((#) sig) (tl bs) @ leaves rest)" "1 \<le> k" "k \<le> length l" for l k
      using "3.prems"(8) that bs_nonempty unfolding fresh_paths_def ls by (auto simp: hd_map tl_append split: list.splits)
    have "fresh_paths full (p @ [sig]) (leaves_from q' body)"
      unfolding fresh_paths_def
    proof (intro ballI)
      fix l k
      assume l: "l \<in> set (tl (leaves_from q' body))" and k: "k \<in> {1..length l}"
      then have "leaves_from q' body \<noteq> []" by auto
      then have "bs = leaves_from q' body" by (simp add: bs_def)
      then show "hash_signatures ((p @ [sig]) @ take k l) \<notin> insert (hash_signatures ((p @ [sig]) @ hd (leaves_from q' body))) full"
        using fresh [of "sig # l" "Suc k"] l k by simp
    qed
    from "3.IH"(1) [OF d "3.prems"(2) texts(5,2) _ drop node_body this] "3.prems"(5) texts(1) obtain e
      where e: "run_items body d = Inr (Returned, e)"
        "after_run r c0 e (p @ [sig]) nxt full (heard @ [Subcase_start sig]) body (leaves_from q' body)" by auto
    obtain nxt1 full1 where g: "subcase_state r c0 (Subcase_destroy False e) True (p @ sig # hd bs) nxt1 full1 (length p)
        (heard @ path_calls (sig # hd bs))"
      and full1: "full \<subseteq> full1" "full1 \<subseteq> insert (hash_signatures (p @ sig # hd bs)) full"
      and nxt1: "next_node body (tl bs) (p @ [sig]) nxt1"
      using destroyed_leaf [OF e(2) "3.prems"(2)] unfolding bs_def [symmetric] by blast
    have bound: "nxt1 = [] \<or> length p < length nxt1"
      using nxt1 by (auto simp: next_node_def split: if_splits)
    have "list_all c_signature (p @ sig # hd bs)"
      using "3.prems"(5) texts(1) leaf_texts [OF texts(2) node_body] by (auto simp: bs_def)
    moreover have "\<forall>s ss. nxt1 = [] \<and> sigs rest = s # ss \<longrightarrow> hash_signatures (p @ [s]) \<notin> full1"
    proof (intro allI impI)
      fix s ss
      assume "nxt1 = [] \<and> sigs rest = s # ss"
      then obtain t ts where "leaves rest = (s # t) # ts" using leaves_from_hd_first [of rest s ss] by blast
      then have "s # t \<in> set (leaves rest)" by simp
      then show "hash_signatures (p @ [s]) \<notin> full1" using fresh [of "s # t" 1] full1(2) by auto
    qed
    ultimately obtain h where h: "run_items rest (Subcase_destroy False e) = Inr (Returned, h)"
      "subcase_state r c0 h True (p @ sig # hd bs) (if nxt1 = [] then (case sigs rest of [] \<Rightarrow> [] | s # ss \<Rightarrow> p @ [s]) else nxt1)
        full1 (length p) (heard @ path_calls (sig # hd bs))"
      using run_behind_leaf [OF g "3.prems"(2) texts(6) _ _ _ _ texts(3) bound] texts(4) by auto
    define nxt2 where "nxt2 = (if nxt1 = [] then (case sigs rest of [] \<Rightarrow> [] | s # ss \<Rightarrow> p @ [s]) else nxt1)"
    let ?ls = "map ((#) sig) bs @ leaves rest"
    have "next_node (Sub sig body # rest) (map ((#) sig) (tl bs) @ leaves rest) p nxt2"
      unfolding nxt2_def by (rule next_after_leaf [OF nxt1 texts(4)])
    moreover have parts: "?ls \<noteq> []" "hd ?ls = sig # hd bs" "tl ?ls = map ((#) sig) (tl bs) @ leaves rest"
      using bs_nonempty by (cases bs; simp)+
    ultimately have "after_run r c0 h p nxt full heard (Sub sig body # rest) ?ls"
      using h(2) full1 unfolding after_run_def nxt2_def [symmetric] parts by (simp add: bs_nonempty) blast
    then show ?thesis
      unfolding ls using enter e(1) h(1) by (intro exI [of _ h]) simp
  qed
qed

end
