(* ===== verification/Doctest_Asserts.thy ===== *)
theory Doctest_Asserts
  imports Doctest_Subcases
begin

unbundle bit_operations_syntax

text \<open>
  Assertions and messages of doctest.h: the stream they write their texts to, the translation of
  exceptions, what \<open>ResultBuilder\<close> and \<open>MessageBuilder\<close> count, report and throw, the scopes of
  \<open>INFO\<close>, and the report of a fatal signal. A call that throws returns with the body_outcome
  \<open>Test_failure\<close>. Breaking into a debugger changes no state.
\<close>

section \<open>The shared string stream\<close>

text \<open>
  The stream all texts are written to, with the positions where the open pieces begin. A piece that is
  taken leaves its characters behind the put position, to be overwritten.
\<close>

record tlss =
  tlss_stack :: "nat list"
  tlss_chars :: string
  tlss_put :: nat

definition tlss_new :: tlss where
  "tlss_new = \<lparr>tlss_stack = [], tlss_chars = [], tlss_put = 0\<rparr>"

definition tlssPush :: "tlss \<Rightarrow> tlss" where
  "tlssPush s = s\<lparr>tlss_stack := tlss_stack s @ [tlss_put s]\<rparr>"

definition tlss_write :: "string \<Rightarrow> tlss \<Rightarrow> tlss" where
  "tlss_write t s = s\<lparr>tlss_chars := take (tlss_put s) (tlss_chars s) @ t @ drop (tlss_put s + length t) (tlss_chars s),
     tlss_put := tlss_put s + length t\<rparr>"

definition tlssPop :: "tlss \<Rightarrow> failure + string \<times> tlss" where
  "tlssPop s =
     (if tlss_stack s = [] then Inl (Invalid_argument ''TLSS was empty when trying to pop!'')
      else let pos = last (tlss_stack s); sz = tlss_put s - pos
        in Inr (take sz (drop pos (tlss_chars s)), s\<lparr>tlss_stack := butlast (tlss_stack s), tlss_put := pos\<rparr>))"

section \<open>Exceptions\<close>

text \<open>A translator gives the text for the exceptions it is for; they are known by number, in the order of registration.\<close>

type_synonym translators = "(nat \<times> (exn \<Rightarrow> string option)) list"

definition registerExceptionTranslatorImpl :: "nat \<times> (exn \<Rightarrow> string option) \<Rightarrow> translators \<Rightarrow> translators" where
  "registerExceptionTranslatorImpl et ts = (if list_ex (\<lambda>t. fst t = fst et) ts then ts else ts @ [et])"

fun translateActiveException :: "translators \<Rightarrow> exn \<Rightarrow> string" where
  "translateActiveException [] ex =
     (case ex of Std_exception what \<Rightarrow> what | Std_string msg \<Rightarrow> c_str msg | C_string msg \<Rightarrow> msg
      | Other_exception n \<Rightarrow> ''unknown exception'')"
| "translateActiveException (et # ts) ex =
     (case snd et ex of Some res \<Rightarrow> res | None \<Rightarrow> translateActiveException ts ex)"

definition checkIfShouldThrow :: "assert_type \<Rightarrow> context_state \<Rightarrow> bool" where
  "checkIfShouldThrow at c =
     (if at AND is_require \<noteq> 0 then True
      else if at AND is_check \<noteq> 0 \<and> 0 <s opt_abort_after (ctx_options c) \<and>
           opt_abort_after (ctx_options c)
             \<le>s numAssertsFailed (run_data c) + lanes_load (numAssertsFailedCurrentTest_atomic c)
      then True else False)"

definition throwException :: "context_state \<Rightarrow> body_outcome \<times> context_state" where
  "throwException c = (Test_failure, c\<lparr>shouldLogCurrentException := False\<rparr>)"

text \<open>The lines of \<open>/proc/self/status\<close>, as far as there are any.\<close>

definition tracer_prefix :: string where
  "tracer_prefix = ''TracerPid:'' @ [CHR 0x09]"

fun isDebuggerActive :: "string list \<Rightarrow> bool" where
  "isDebuggerActive [] = False"
| "isDebuggerActive (line # lines) =
     (if take 11 line = tracer_prefix then length line > 11 \<and> line ! 11 \<noteq> CHR ''0''
      else isDebuggerActive lines)"

section \<open>Counting\<close>

definition addAssert :: "assert_type \<Rightarrow> context_state \<Rightarrow> context_state" where
  "addAssert at c =
     (if at AND is_warn = 0
      then c\<lparr>numAssertsCurrentTest_atomic := fst (lane_postincrement (tls_lane c) (numAssertsCurrentTest_atomic c))\<rparr>
      else c)"

definition addFailedAssert :: "assert_type \<Rightarrow> context_state \<Rightarrow> context_state" where
  "addFailedAssert at c =
     (if at AND is_warn = 0
      then c\<lparr>numAssertsFailedCurrentTest_atomic :=
          fst (lane_postincrement (tls_lane c) (numAssertsFailedCurrentTest_atomic c))\<rparr>
      else c)"

section \<open>Results\<close>

definition StringContains_check :: "string_contains \<Rightarrow> string \<Rightarrow> bool" where
  "StringContains_check sc str =
     (if isContains sc then Contains_checkWith (sc_string sc) str else strcmp (sc_string sc) str = 0)"

definition AssertData :: "assert_type \<Rightarrow> string \<Rightarrow> int \<Rightarrow> string \<Rightarrow> string \<Rightarrow> string_contains \<Rightarrow> context_state \<Rightarrow> assert_data" where
  "AssertData at src line expr exception_type exception_string c =
     \<lparr>a_test_case = currentTest c, m_at = at, a_file = src, a_line = line, m_expr = expr, m_failed = True,
      m_threw = False, m_exception = [], m_decomp = [], m_threw_as = False,
      m_exception_type = exception_type, m_exception_string = exception_string\<rparr>"

text \<open>The two constructors of \<open>ResultBuilder\<close>: a text to be equal to, by default empty, or one to be contained.\<close>

definition ResultBuilder :: "assert_type \<Rightarrow> string \<Rightarrow> int \<Rightarrow> string \<Rightarrow> string \<Rightarrow> string \<Rightarrow> context_state \<Rightarrow> assert_data" where
  "ResultBuilder at src line expr exception_type exception_string c =
     AssertData at src line expr exception_type \<lparr>sc_string = exception_string, isContains = False\<rparr> c"

definition ResultBuilder_contains :: "assert_type \<Rightarrow> string \<Rightarrow> int \<Rightarrow> string \<Rightarrow> string \<Rightarrow> string \<Rightarrow> context_state \<Rightarrow> assert_data" where
  "ResultBuilder_contains at src line expr exception_type exception_string c =
     AssertData at src line expr exception_type \<lparr>sc_string = exception_string, isContains = True\<rparr> c"

record expr_result =
  m_passed :: bool
  r_decomp :: string

definition Result :: "bool \<Rightarrow> string \<Rightarrow> expr_result" where
  "Result passed decomposition = \<lparr>m_passed = passed, r_decomp = decomposition\<rparr>"

definition setResult :: "expr_result \<Rightarrow> assert_data \<Rightarrow> assert_data" where
  "setResult res rb = rb\<lparr>m_decomp := r_decomp res, m_failed := (\<not> m_passed res)\<rparr>"

definition translateException :: "translators \<Rightarrow> exn \<Rightarrow> assert_data \<Rightarrow> assert_data" where
  "translateException ts ex rb = rb\<lparr>m_threw := True, m_exception := translateActiveException ts ex\<rparr>"

text \<open>The first part of \<open>log\<close>: whether an assertion about exceptions failed, and the quotes around the text.\<close>

definition exception_verdict :: "assert_data \<Rightarrow> bool" where
  "exception_verdict rb =
     (if m_at rb AND is_throws \<noteq> 0 then \<not> m_threw rb
      else if m_at rb AND is_throws_as \<noteq> 0 \<and> m_at rb AND is_throws_with \<noteq> 0
      then \<not> m_threw_as rb \<or> \<not> StringContains_check (m_exception_string rb) (m_exception rb)
      else if m_at rb AND is_throws_as \<noteq> 0 then \<not> m_threw_as rb
      else if m_at rb AND is_throws_with \<noteq> 0 then \<not> StringContains_check (m_exception_string rb) (m_exception rb)
      else if m_at rb AND is_nothrow \<noteq> 0 then m_threw rb
      else m_failed rb)"

definition quoted :: "string \<Rightarrow> string" where
  "quoted t = [CHR 0x22] @ t @ [CHR 0x22]"

definition failed_out_of_a_testing_context :: "assert_data \<Rightarrow> context_state \<Rightarrow> failure + context_state" where
  "failed_out_of_a_testing_context ad c =
     (if assert_handler c then Inr (c\<lparr>handled_asserts := handled_asserts c @ [ad]\<rparr>)
      else Inl (Abort ''failed assert out of a testing context''))"

text \<open>\<open>log\<close>, with the flag \<open>is_running_in_test\<close> and the status file; the truth value asks for the debugger.\<close>

definition wants_break :: "string list \<Rightarrow> context_state \<Rightarrow> bool" where
  "wants_break status c \<longleftrightarrow> isDebuggerActive status \<and> \<not> opt_no_breaks (ctx_options c) \<and>
     (case currentTest c of None \<Rightarrow> True | Some tc \<Rightarrow> \<not> m_no_breaks tc)"

definition ResultBuilder_log :: "bool \<Rightarrow> string list \<Rightarrow> assert_data \<Rightarrow> context_state \<Rightarrow>
    failure + bool \<times> assert_data \<times> context_state" where
  "ResultBuilder_log is_running_in_test status rb0 c0 =
     (let rb1 = rb0\<lparr>m_failed := exception_verdict rb0\<rparr>;
          rb = (if m_exception rb1 \<noteq> [] then rb1\<lparr>m_exception := quoted (m_exception rb1)\<rparr> else rb1)
      in res_bind
        (if is_running_in_test
         then let c1 = iterate_reporters (Log_assert rb) (addAssert (m_at rb) c0)
           in Inr (if m_failed rb then addFailedAssert (m_at rb) c1 else c1)
         else if m_failed rb then failed_out_of_a_testing_context rb c0
         else Inr c0)
        (\<lambda>c. Inr (m_failed rb \<and> wants_break status c, rb, c)))"

definition ResultBuilder_react :: "assert_data \<Rightarrow> context_state \<Rightarrow> body_outcome \<times> context_state" where
  "ResultBuilder_react rb c = (if m_failed rb \<and> checkIfShouldThrow (m_at rb) c then throwException c else (Returned, c))"

section \<open>The assertion functions\<close>

text \<open>
  The bodies of the two macros the functions share. A result is the value returned, unless the outcome
  is a throw.
\<close>

definition ASSERT_OUT_OF_TESTS :: "assert_type \<Rightarrow> string \<Rightarrow> int \<Rightarrow> string \<Rightarrow> string \<Rightarrow> bool \<Rightarrow> context_state \<Rightarrow>
    failure + bool \<times> body_outcome \<times> context_state" where
  "ASSERT_OUT_OF_TESTS at src line expr decomp failed c =
     (if failed
      then let rb = (ResultBuilder at src line expr [] [] c)\<lparr>m_failed := failed, m_decomp := decomp\<rparr> in
        res_bind (failed_out_of_a_testing_context rb c) (\<lambda>c.
          if checkIfShouldThrow at c then Inr (False, throwException c) else Inr (\<not> failed, Returned, c))
      else Inr (\<not> failed, Returned, c))"

definition ASSERT_IN_TESTS :: "string list \<Rightarrow> assert_type \<Rightarrow> string \<Rightarrow> int \<Rightarrow> string \<Rightarrow> string \<Rightarrow> bool \<Rightarrow> context_state \<Rightarrow>
    failure + bool \<times> body_outcome \<times> context_state" where
  "ASSERT_IN_TESTS status at src line expr decomp failed c =
     (let rb1 = (ResultBuilder at src line expr [] [] c)\<lparr>m_failed := failed\<rparr>;
          rb2 = (if m_failed rb1 \<or> opt_success (ctx_options c) then rb1\<lparr>m_decomp := decomp\<rparr> else rb1)
      in res_bind (ResultBuilder_log True status rb2 c) (\<lambda>(brk, rb, c).
        if m_failed rb \<and> checkIfShouldThrow at c then Inr (False, throwException c)
        else Inr (\<not> failed, Returned, c)))"

definition decomp_assert :: "bool \<Rightarrow> string list \<Rightarrow> assert_type \<Rightarrow> string \<Rightarrow> int \<Rightarrow> string \<Rightarrow> expr_result \<Rightarrow> context_state \<Rightarrow>
    failure + bool \<times> body_outcome \<times> context_state" where
  "decomp_assert is_running_in_test status at src line expr res c =
     (let failed = (\<not> m_passed res) in
      if \<not> is_running_in_test then ASSERT_OUT_OF_TESTS at src line expr (r_decomp res) failed c
      else ASSERT_IN_TESTS status at src line expr (r_decomp res) failed c)"

text \<open>The templates, on the result of the comparison or of the conversion to a truth value, and on the texts of the operands.\<close>

definition binary_assert :: "bool \<Rightarrow> string list \<Rightarrow> assert_type \<Rightarrow> string \<Rightarrow> int \<Rightarrow> string \<Rightarrow> bool \<Rightarrow> string \<Rightarrow> context_state \<Rightarrow>
    failure + bool \<times> body_outcome \<times> context_state" where
  "binary_assert is_running_in_test status at src line expr holds_true decomp c =
     (let failed = (\<not> holds_true) in
      if \<not> is_running_in_test then ASSERT_OUT_OF_TESTS at src line expr decomp failed c
      else ASSERT_IN_TESTS status at src line expr decomp failed c)"

definition unary_assert :: "bool \<Rightarrow> string list \<Rightarrow> assert_type \<Rightarrow> string \<Rightarrow> int \<Rightarrow> string \<Rightarrow> bool \<Rightarrow> string \<Rightarrow> context_state \<Rightarrow>
    failure + bool \<times> body_outcome \<times> context_state" where
  "unary_assert is_running_in_test status at src line expr val decomp c =
     (let failed = (\<not> val); failed = (if at AND is_false \<noteq> 0 then \<not> failed else failed) in
      if \<not> is_running_in_test then ASSERT_OUT_OF_TESTS at src line expr decomp failed c
      else ASSERT_IN_TESTS status at src line expr decomp failed c)"

text \<open>The members of \<open>ResultBuilder\<close> of the same names, which leave the logging to the caller.\<close>

definition ResultBuilder_binary_assert :: "bool \<Rightarrow> string \<Rightarrow> assert_data \<Rightarrow> context_state \<Rightarrow> bool \<times> assert_data" where
  "ResultBuilder_binary_assert holds_true decomp rb c =
     (let rb = rb\<lparr>m_failed := (\<not> holds_true)\<rparr>;
          rb = (if m_failed rb \<or> opt_success (ctx_options c) then rb\<lparr>m_decomp := decomp\<rparr> else rb)
      in (\<not> m_failed rb, rb))"

definition ResultBuilder_unary_assert :: "bool \<Rightarrow> string \<Rightarrow> assert_data \<Rightarrow> context_state \<Rightarrow> bool \<times> assert_data" where
  "ResultBuilder_unary_assert val decomp rb c =
     (let rb = rb\<lparr>m_failed := (\<not> val)\<rparr>;
          rb = (if m_at rb AND is_false \<noteq> 0 then rb\<lparr>m_failed := (\<not> m_failed rb)\<rparr> else rb);
          rb = (if m_failed rb \<or> opt_success (ctx_options c) then rb\<lparr>m_decomp := decomp\<rparr> else rb)
      in (\<not> m_failed rb, rb))"

section \<open>Messages\<close>

record message_builder = message_data +
  msg_logged :: bool

definition MessageBuilder :: "string \<Rightarrow> int \<Rightarrow> assert_type \<Rightarrow> tlss \<Rightarrow> message_builder \<times> tlss" where
  "MessageBuilder src line severity s =
     (\<lparr>m_string = [], msg_file = src, msg_line = line, m_severity = severity, msg_logged = False\<rparr>, tlssPush s)"

definition MessageBuilder_destroy :: "message_builder \<Rightarrow> tlss \<Rightarrow> failure + tlss" where
  "MessageBuilder_destroy mb s = (if \<not> msg_logged mb then res_bind (tlssPop s) (\<lambda>r. Inr (snd r)) else Inr s)"

definition MessageBuilder_log :: "string list \<Rightarrow> message_builder \<Rightarrow> tlss \<Rightarrow> context_state \<Rightarrow>
    failure + bool \<times> message_builder \<times> tlss \<times> context_state" where
  "MessageBuilder_log status mb0 s0 c0 =
     res_bind (if \<not> msg_logged mb0
       then res_bind (tlssPop s0) (\<lambda>(t, s). Inr (mb0\<lparr>m_string := t, msg_logged := True\<rparr>, s))
       else Inr (mb0, s0)) (\<lambda>(mb, s).
     let c1 = iterate_reporters (Log_message (message_data.truncate mb)) c0;
         isWarn = (m_severity mb AND is_warn \<noteq> 0);
         c2 = (if \<not> isWarn then addFailedAssert (m_severity mb) (addAssert (m_severity mb) c1) else c1)
     in Inr (wants_break status c2 \<and> \<not> isWarn, mb, s, c2))"

definition MessageBuilder_react :: "message_builder \<Rightarrow> context_state \<Rightarrow> body_outcome \<times> context_state" where
  "MessageBuilder_react mb c = (if m_severity mb AND is_require \<noteq> 0 then throwException c else (Returned, c))"

section \<open>Context scopes\<close>

text \<open>The active scopes, each with the text it would stringify to; one that ends while an exception unwinds leaves its text.\<close>

definition ContextScopeBase :: "string \<Rightarrow> context_state \<Rightarrow> context_state" where
  "ContextScopeBase t c = c\<lparr>infoContexts := infoContexts c @ [t]\<rparr>"

definition ContextScope_destroy :: "bool \<Rightarrow> string \<Rightarrow> context_state \<Rightarrow> failure + context_state" where
  "ContextScope_destroy uncaught t c =
     (let c = (if uncaught then c\<lparr>stringifiedContexts := stringifiedContexts c @ [c_str t]\<rparr> else c) in
      if infoContexts c = [] then Inl Out_of_bounds
      else Inr (c\<lparr>infoContexts := butlast (infoContexts c)\<rparr>))"

definition ContextScope_move :: "bool \<Rightarrow> string \<Rightarrow> bool \<Rightarrow> context_state \<Rightarrow> failure + bool \<times> context_state" where
  "ContextScope_move uncaught t need_to_destroy c =
     res_bind (if need_to_destroy then ContextScope_destroy uncaught t c else Inr c) (\<lambda>c.
       Inr (False, ContextScopeBase t c))"

section \<open>Fatal signals\<close>

fun end_subcases :: "nat \<Rightarrow> context_state \<Rightarrow> context_state" where
  "end_subcases 0 c = c"
| "end_subcases (Suc n) c =
     end_subcases n (iterate_reporters Subcase_end (c\<lparr>subcaseStack := butlast (subcaseStack c)\<rparr>))"

definition reportFatal :: "fp_ops \<Rightarrow> ticks \<Rightarrow> string \<Rightarrow> context_state \<Rightarrow> failure + context_state" where
  "reportFatal fp now message c =
     (let c = c\<lparr>case_data := (case_data c)\<lparr>failure_flags := failure_flags (case_data c) OR Crash\<rparr>\<rparr>;
          c = iterate_reporters (Test_case_exception (c_str message) True) c;
          c = end_subcases (length (subcaseStack c)) c
      in res_bind (finalizeTestCaseData fp now c) (\<lambda>c.
        let c = iterate_reporters (Test_case_end (case_data c)) c
        in Inr (iterate_reporters (Test_run_end (run_data c)) c)))"

section \<open>Assertions count, report and throw\<close>

lemma DT_what:
  "DT lv w AND is_throws \<noteq> 0 \<longleftrightarrow> w = Throws"
  "DT lv w AND is_throws_as \<noteq> 0 \<longleftrightarrow> w \<in> {Throws_as, Throws_with_as}"
  "DT lv w AND is_throws_with \<noteq> 0 \<longleftrightarrow> w \<in> {Throws_with, Throws_with_as}"
  "DT lv w AND is_nothrow \<noteq> 0 \<longleftrightarrow> w = Nothrow"
  "DT lv w AND is_false \<noteq> 0 \<longleftrightarrow> w \<in> {Is_False, Unary_false}"
  by (cases lv; cases w; simp add: DT_def assert_bits)+

definition about_exceptions :: "assert_what \<Rightarrow> bool" where
  "about_exceptions w \<longleftrightarrow> w \<in> {Throws, Throws_as, Throws_with, Throws_with_as, Nothrow}"

lemma warn_zero: "DT lv w AND is_warn = 0 \<longleftrightarrow> lv \<noteq> Warn"
  using DT_level(1) [of lv w] by auto

text \<open>
  The verdict of the assertions about exceptions: that something was thrown, or nothing, or an exception of
  the type asked for, or one whose text is equal to or contains the text asked for.
\<close>

theorem exception_assertions:
  assumes "m_at rb = DT lv w"
  shows "exception_verdict rb =
    (case w of
       Throws \<Rightarrow> \<not> m_threw rb
     | Throws_as \<Rightarrow> \<not> m_threw_as rb
     | Throws_with \<Rightarrow> \<not> StringContains_check (m_exception_string rb) (m_exception rb)
     | Throws_with_as \<Rightarrow> \<not> m_threw_as rb \<or> \<not> StringContains_check (m_exception_string rb) (m_exception rb)
     | Nothrow \<Rightarrow> m_threw rb
     | _ \<Rightarrow> m_failed rb) \<and>
    (isContains (m_exception_string rb) \<longrightarrow>
      (StringContains_check (m_exception_string rb) (m_exception rb) \<longleftrightarrow>
        (\<exists>u v. m_exception rb = u @ sc_string (m_exception_string rb) @ v)))"
  by (cases w) (simp_all add: exception_verdict_def assms DT_what StringContains_check_def Contains_checkWith_iff)

definition sample_throw :: assert_data where
  "sample_throw = translateException [] (Std_exception ''bad address'')
     (ResultBuilder_contains (DT Require Throws_with) ''a.cpp'' 7 ''parse()'' [] ''address'' sample_context)"

theorem exception_assertions_witness: "\<not> exception_verdict sample_throw"
proof -
  have at: "m_at sample_throw = DT Require Throws_with"
    by (simp add: sample_throw_def translateException_def ResultBuilder_contains_def AssertData_def)
  have "isContains (m_exception_string sample_throw)"
    "m_exception sample_throw = ''bad '' @ sc_string (m_exception_string sample_throw) @ []"
    by (simp_all add: sample_throw_def translateException_def ResultBuilder_contains_def AssertData_def)
  then have "StringContains_check (m_exception_string sample_throw) (m_exception sample_throw)"
    using exception_assertions [OF at] by blast
  then show ?thesis using exception_assertions [OF at] by simp
qed

lemma assert_in_tests:
  assumes "\<not> about_exceptions w"
    and "tls_lane c < length (numAssertsCurrentTest_atomic c)" and "tls_lane c < length (numAssertsFailedCurrentTest_atomic c)"
  shows "returns (ASSERT_IN_TESTS status (DT lv w) src line expr decomp failed c) (\<lambda>(v, out, d).
    lanes_load (numAssertsCurrentTest_atomic d) = lanes_load (numAssertsCurrentTest_atomic c) + (if lv = Warn then 0 else 1) \<and>
    lanes_load (numAssertsFailedCurrentTest_atomic d) =
      lanes_load (numAssertsFailedCurrentTest_atomic c) + (if lv = Warn \<or> \<not> failed then 0 else 1) \<and>
    (\<exists>rb. reports d = reports c @ map (\<lambda>r. (r, Log_assert rb)) (reporters_currently_used c) \<and>
       m_at rb = DT lv w \<and> m_failed rb = failed \<and>
       m_decomp rb = (if failed \<or> opt_success (ctx_options c) then decomp else [])) \<and>
    out = (if failed \<and> (lv = Require \<or> lv = Check \<and> 0 <s opt_abort_after (ctx_options c) \<and>
         opt_abort_after (ctx_options c) \<le>s numAssertsFailed (run_data c) + lanes_load (numAssertsFailedCurrentTest_atomic d))
       then Test_failure else Returned) \<and>
    (out = Returned \<longrightarrow> v = (\<not> failed)))"
proof -
  define rb where "rb = (ResultBuilder (DT lv w) src line expr [] [] c)\<lparr>m_failed := failed,
      m_decomp := (if failed \<or> opt_success (ctx_options c) then decomp else [])\<rparr>"
  have rb2: "(if m_failed ((ResultBuilder (DT lv w) src line expr [] [] c)\<lparr>m_failed := failed\<rparr>) \<or> opt_success (ctx_options c)
      then (ResultBuilder (DT lv w) src line expr [] [] c)\<lparr>m_failed := failed, m_decomp := decomp\<rparr>
      else (ResultBuilder (DT lv w) src line expr [] [] c)\<lparr>m_failed := failed\<rparr>) = rb"
    by (simp add: rb_def ResultBuilder_def AssertData_def)
  have at: "m_at rb = DT lv w" and ex: "m_exception rb = []" and failed: "m_failed rb = failed"
    by (simp_all add: rb_def ResultBuilder_def AssertData_def)
  have verdict: "exception_verdict rb = failed"
    using exception_assertions [OF at] assms(1) failed by (cases w) (simp_all add: about_exceptions_def)
  have same: "rb\<lparr>m_failed := failed\<rparr> = rb" by (simp add: rb_def)
  define d where "d = (let c1 = iterate_reporters (Log_assert rb) (addAssert (DT lv w) c)
      in if failed then addFailedAssert (DT lv w) c1 else c1)"
  have log: "ResultBuilder_log True status rb c = Inr (failed \<and> wants_break status d, rb, d)"
    by (simp add: ResultBuilder_log_def verdict same ex at failed Let_def d_def)
  have fields: "lanes_load (numAssertsCurrentTest_atomic d) = lanes_load (numAssertsCurrentTest_atomic c) + (if lv = Warn then 0 else 1)"
    "lanes_load (numAssertsFailedCurrentTest_atomic d) =
      lanes_load (numAssertsFailedCurrentTest_atomic c) + (if lv = Warn \<or> \<not> failed then 0 else 1)"
    "reports d = reports c @ map (\<lambda>r. (r, Log_assert rb)) (reporters_currently_used c)"
    "ctx_options d = ctx_options c" "run_data d = run_data c"
    using assms(2,3) lane_add(1)
    by (auto simp: d_def Let_def addAssert_def addFailedAssert_def iterate_reporters_def warn_zero lane_postincrement_def)
  have throws: "checkIfShouldThrow (DT lv w) d \<longleftrightarrow> lv = Require \<or> lv = Check \<and> 0 <s opt_abort_after (ctx_options c) \<and>
      opt_abort_after (ctx_options c) \<le>s numAssertsFailed (run_data c) + lanes_load (numAssertsFailedCurrentTest_atomic d)"
    by (simp add: checkIfShouldThrow_def DT_level fields)
  have whole: "ASSERT_IN_TESTS status (DT lv w) src line expr decomp failed c =
      (if failed \<and> checkIfShouldThrow (DT lv w) d then Inr (False, throwException d) else Inr (\<not> failed, Returned, d))"
    unfolding ASSERT_IN_TESTS_def Let_def rb2 log by (simp add: failed)
  have "\<exists>rb. reports d = reports c @ map (\<lambda>r. (r, Log_assert rb)) (reporters_currently_used c) \<and>
       m_at rb = DT lv w \<and> m_failed rb = failed \<and> m_decomp rb = (if failed \<or> opt_success (ctx_options c) then decomp else [])"
    using fields(3) at failed by (intro exI [of _ rb]) (simp add: rb_def)
  then show ?thesis
    using fields(1,2) unfolding whole throws by (auto simp: throwException_def)
qed

text \<open>
  An assertion in a test counts one, and one failed if it fails, unless it only warns; every reporter hears of
  it once, with the expression taken apart if it failed or successes are asked for; and it throws exactly
  if it fails and is required, or checked and \<open>abort-after\<close> failures have been reached.
\<close>

theorem assertions_count_and_throw:
  assumes "\<not> about_exceptions w"
    and "tls_lane c < length (numAssertsCurrentTest_atomic c)" and "tls_lane c < length (numAssertsFailedCurrentTest_atomic c)"
    and "(run, failed) \<in> {(binary_assert True status (DT lv w) src line expr val decomp c, \<not> val),
      (decomp_assert True status (DT lv w) src line expr (Result val decomp) c, \<not> val),
      (unary_assert True status (DT lv w) src line expr val decomp c, val = (w \<in> {Is_False, Unary_false}))}"
  shows "returns run (\<lambda>(v, out, d).
    lanes_load (numAssertsCurrentTest_atomic d) = lanes_load (numAssertsCurrentTest_atomic c) + (if lv = Warn then 0 else 1) \<and>
    lanes_load (numAssertsFailedCurrentTest_atomic d) =
      lanes_load (numAssertsFailedCurrentTest_atomic c) + (if lv = Warn \<or> \<not> failed then 0 else 1) \<and>
    (\<exists>rb. reports d = reports c @ map (\<lambda>r. (r, Log_assert rb)) (reporters_currently_used c) \<and>
       m_at rb = DT lv w \<and> m_failed rb = failed \<and>
       m_decomp rb = (if failed \<or> opt_success (ctx_options c) then decomp else [])) \<and>
    out = (if failed \<and> (lv = Require \<or> lv = Check \<and> 0 <s opt_abort_after (ctx_options c) \<and>
         opt_abort_after (ctx_options c) \<le>s numAssertsFailed (run_data c) + lanes_load (numAssertsFailedCurrentTest_atomic d))
       then Test_failure else Returned) \<and>
    (out = Returned \<longrightarrow> v = (\<not> failed)))"
proof -
  have "run = ASSERT_IN_TESTS status (DT lv w) src line expr decomp failed c"
  proof -
    have "unary_assert True status (DT lv w) src line expr val decomp c =
        ASSERT_IN_TESTS status (DT lv w) src line expr decomp (val = (w \<in> {Is_False, Unary_false})) c"
      by (cases val; cases "w \<in> {Is_False, Unary_false}") (simp_all add: unary_assert_def DT_what Let_def)
    moreover have "binary_assert True status (DT lv w) src line expr val decomp c =
        ASSERT_IN_TESTS status (DT lv w) src line expr decomp (\<not> val) c"
      "decomp_assert True status (DT lv w) src line expr (Result val decomp) c =
        ASSERT_IN_TESTS status (DT lv w) src line expr decomp (\<not> val) c"
      by (simp_all add: binary_assert_def decomp_assert_def Result_def)
    ultimately show ?thesis using assms(4) by blast
  qed
  then show ?thesis using assert_in_tests [OF assms(1-3)] by simp
qed

theorem assertions_count_and_throw_witness:
  "returns (unary_assert True [] (DT Require Unary) ''a.cpp'' 9 ''ok'' False ''false'' sample_context) (\<lambda>(v, out, d).
     out = Test_failure \<and> lanes_load (numAssertsFailedCurrentTest_atomic d) = 2)"
proof -
  have plain: "\<not> about_exceptions Unary" by (simp add: about_exceptions_def)
  have lanes: "tls_lane sample_context < length (numAssertsCurrentTest_atomic sample_context)"
    "tls_lane sample_context < length (numAssertsFailedCurrentTest_atomic sample_context)" by code_simp+
  have n: "lanes_load (numAssertsFailedCurrentTest_atomic sample_context) = 1" by code_simp
  show ?thesis
    by (rule returns_mono [OF assertions_count_and_throw [OF plain lanes, where lv = Require and failed = True and val = False
      and status = "[]" and src = "''a.cpp''" and line = 9 and expr = "''ok''" and decomp = "''false''"]])
       (auto simp: n)
qed

section \<open>Texts nest\<close>

text \<open>What is written between a push and its pop: text, and whole messages of their own.\<close>

datatype piece = Piece string | Message "piece list"

fun run_pieces :: "piece list \<Rightarrow> tlss \<Rightarrow> failure + string list \<times> tlss" where
  "run_pieces [] s = Inr ([], s)"
| "run_pieces (Piece t # ps) s = run_pieces ps (tlss_write t s)"
| "run_pieces (Message qs # ps) s =
     res_bind (run_pieces qs (tlssPush s)) (\<lambda>r. res_bind (tlssPop (snd r)) (\<lambda>p.
       res_bind (run_pieces ps (snd p)) (\<lambda>q. Inr (fst r @ fst p # fst q, snd q))))"

fun own_text :: "piece list \<Rightarrow> string" where
  "own_text [] = []"
| "own_text (Piece t # ps) = t @ own_text ps"
| "own_text (Message qs # ps) = own_text ps"

fun inner_texts :: "piece list \<Rightarrow> string list" where
  "inner_texts [] = []"
| "inner_texts (Piece t # ps) = inner_texts ps"
| "inner_texts (Message qs # ps) = inner_texts qs @ own_text qs # inner_texts ps"

definition tlss_after :: "tlss \<Rightarrow> string \<Rightarrow> tlss \<Rightarrow> bool" where
  "tlss_after s t s' \<longleftrightarrow> tlss_stack s' = tlss_stack s \<and> tlss_put s' = tlss_put s + length t \<and>
     tlss_put s' \<le> length (tlss_chars s') \<and> take (tlss_put s') (tlss_chars s') = take (tlss_put s) (tlss_chars s) @ t"

lemma tlss_after_trans: "tlss_after s t s' \<Longrightarrow> tlss_after s' u s'' \<Longrightarrow> tlss_after s (t @ u) s''"
  by (auto simp: tlss_after_def)

lemma write_after: "tlss_put s \<le> length (tlss_chars s) \<Longrightarrow> tlss_after s t (tlss_write t s)"
  by (simp add: tlss_after_def tlss_write_def)

lemma pop_after:
  assumes "tlss_after (tlssPush s) t s'" and "tlss_put s \<le> length (tlss_chars s)"
  shows "returns (tlssPop s') (\<lambda>r. fst r = t \<and> tlss_after s [] (snd r))"
proof -
  have s': "tlss_stack s' = tlss_stack s @ [tlss_put s]" "tlss_put s' = tlss_put s + length t"
    "tlss_put s' \<le> length (tlss_chars s')" "take (tlss_put s + length t) (tlss_chars s') = take (tlss_put s) (tlss_chars s) @ t"
    using assms(1) by (auto simp: tlss_after_def tlssPush_def)
  have "take (length t) (drop (tlss_put s) (tlss_chars s')) = drop (tlss_put s) (take (tlss_put s + length t) (tlss_chars s'))"
    by (simp add: drop_take)
  also have "\<dots> = t" unfolding s'(4) using assms(2) by simp
  finally have piece: "take (length t) (drop (tlss_put s) (tlss_chars s')) = t" .
  have "take (tlss_put s) (tlss_chars s') = take (tlss_put s) (take (tlss_put s + length t) (tlss_chars s'))"
    by (simp add: min_def)
  also have "\<dots> = take (tlss_put s) (tlss_chars s)" unfolding s'(4) using assms(2) by simp
  finally show ?thesis
    using s' piece by (simp add: tlssPop_def Let_def tlss_after_def)
qed

lemma run_pieces_after:
  assumes "tlss_put s \<le> length (tlss_chars s)"
  shows "returns (run_pieces ps s) (\<lambda>r. fst r = inner_texts ps \<and> tlss_after s (own_text ps) (snd r))"
  using assms
proof (induction ps s rule: run_pieces.induct)
  case (1 s)
  then show ?case by (simp add: tlss_after_def)
next
  case (2 t ps s)
  have w: "tlss_after s t (tlss_write t s)" using 2(2) by (rule write_after)
  then have "tlss_put (tlss_write t s) \<le> length (tlss_chars (tlss_write t s))" by (simp add: tlss_after_def)
  from 2(1) [OF this] show ?case
    by (auto elim!: returns_mono intro: tlss_after_trans [OF w])
next
  case (3 qs ps s)
  have "tlss_put (tlssPush s) \<le> length (tlss_chars (tlssPush s))" using 3(3) by (simp add: tlssPush_def)
  from 3(1) [OF this] obtain r where r: "run_pieces qs (tlssPush s) = Inr r" "fst r = inner_texts qs"
    "tlss_after (tlssPush s) (own_text qs) (snd r)" by (auto simp: returns_def)
  from pop_after [OF r(3) 3(3)] obtain p where p: "tlssPop (snd r) = Inr p" "fst p = own_text qs" "tlss_after s [] (snd p)"
    by (auto simp: returns_def)
  have "tlss_put (snd p) \<le> length (tlss_chars (snd p))" using p(3) by (simp add: tlss_after_def)
  from 3(2) [OF this] obtain q where q: "run_pieces ps (snd p) = Inr q" "fst q = inner_texts ps"
    "tlss_after (snd p) (own_text ps) (snd q)" by (auto simp: returns_def)
  show ?case using r p q tlss_after_trans [OF p(3) q(3)] by simp
qed



end
