(* ===== verification/Doctest_Options.thy ===== *)
theory Doctest_Options
  imports Doctest_State
begin

unbundle bit_operations_syntax

text \<open>
  The command line of doctest.h: the search for an option among the arguments, flags, comma separated
  lists and integers, \<open>parseArgs\<close> with the table of all options, and the operations of \<open>Context\<close> that
  use it.
\<close>

section \<open>One option\<close>

definition OPTIONS_PREFIX :: string where
  "OPTIONS_PREFIX = ''dt-''"

text \<open>
  One turn of the loop of \<open>parseOptionImpl\<close>: \<open>None\<close> goes on to the next argument; \<open>Some v\<close> returns true,
  with the value for an option that has one. The loop runs from the last argument.
\<close>

definition option_match :: "bool \<Rightarrow> string \<Rightarrow> string \<Rightarrow> string option" where
  "option_match with_value pattern arg =
     (case strstr arg pattern of
        None \<Rightarrow> None
      | Some temp \<Rightarrow>
          if \<not> with_value \<and> length temp \<noteq> length pattern then None
          else let before = take (length arg - length temp) arg in
            if list_all (\<lambda>c. c = CHR ''-'') before \<and> arg \<noteq> [] \<and> hd arg = CHR ''-''
            then (if with_value
                  then (let val = drop (length pattern) temp in if val \<noteq> [] then Some val else None)
                  else Some [])
            else None)"

fun first_match :: "bool \<Rightarrow> string \<Rightarrow> string list \<Rightarrow> string option" where
  "first_match with_value pattern [] = None"
| "first_match with_value pattern (a # as) =
     (case option_match with_value pattern a of Some v \<Rightarrow> Some v | None \<Rightarrow> first_match with_value pattern as)"

definition parseOptionImpl :: "string list \<Rightarrow> string \<Rightarrow> bool \<Rightarrow> string option" where
  "parseOptionImpl argv pattern with_value = first_match with_value pattern (rev argv)"

text \<open>Whether the option was found, and the value, which is the default if not. The name may lack its prefix.\<close>

definition parseOption :: "string list \<Rightarrow> string \<Rightarrow> string \<Rightarrow> bool \<times> string" where
  "parseOption argv pattern defaultVal =
     (case parseOptionImpl argv (drop (length OPTIONS_PREFIX) pattern) True of
        Some v \<Rightarrow> (True, v)
      | None \<Rightarrow> (case parseOptionImpl argv pattern True of Some v \<Rightarrow> (True, v) | None \<Rightarrow> (False, defaultVal)))"

definition parseFlag :: "string list \<Rightarrow> string \<Rightarrow> bool" where
  "parseFlag argv pattern \<longleftrightarrow>
     parseOptionImpl argv (drop (length OPTIONS_PREFIX) pattern) False \<noteq> None \<or>
     parseOptionImpl argv pattern False \<noteq> None"

section \<open>Comma separated lists\<close>

text \<open>The loop over the characters, with the token so far and the tokens; a backslash is held back.\<close>

definition flush :: "string \<Rightarrow> string list \<Rightarrow> string list" where
  "flush s res = (if s \<noteq> [] then res @ [s] else res)"

definition backslash :: char where
  "backslash = CHR 0x5C"

fun comma_loop :: "string \<Rightarrow> bool \<Rightarrow> string \<Rightarrow> string list \<Rightarrow> string list" where
  "comma_loop [] seenBackslash s res = flush (if seenBackslash then s @ [backslash] else s) res"
| "comma_loop (character # cs) seenBackslash s res =
     (if seenBackslash \<and> (character = CHR '','' \<or> character = backslash)
      then comma_loop cs False (s @ [character]) res
      else let s = (if seenBackslash then s @ [backslash] else s) in
        if character = backslash then comma_loop cs True s res
        else if character = CHR '','' then comma_loop cs False [] (flush s res)
        else comma_loop cs False (s @ [character]) res)"

definition parseCommaSepArgs :: "string list \<Rightarrow> string \<Rightarrow> string list \<Rightarrow> bool \<times> string list" where
  "parseCommaSepArgs argv pattern res =
     (case parseOption argv pattern [] of
        (True, filtersString) \<Rightarrow> (True, comma_loop filtersString False [] res)
      | (False, _) \<Rightarrow> (False, res))"

section \<open>Integers and truth values\<close>

text \<open>\<open>std::atoi\<close>: white space, a sign, digits; the value of a text out of the range of \<open>int\<close> is undefined and wraps here.\<close>

definition is_digit :: "char \<Rightarrow> bool" where
  "is_digit c = ((of_char c :: nat) \<in> {48..57})"

definition is_space :: "char \<Rightarrow> bool" where
  "is_space c = (c = CHR '' '' \<or> (of_char c :: nat) \<in> {9..13})"

definition digits_of :: "string \<Rightarrow> int" where
  "digits_of s = fold (\<lambda>c n. 10 * n + (of_char c - 48)) (takeWhile is_digit s) 0"

definition atoi :: "string \<Rightarrow> i32" where
  "atoi s = (case dropWhile is_space s of
      [] \<Rightarrow> 0
    | c # cs \<Rightarrow> word_of_int (if c = CHR ''-'' then - digits_of cs
        else if c = CHR ''+'' then digits_of cs else digits_of (c # cs)))"

datatype option_type = Option_bool | Option_int

definition positive :: "string list" where
  "positive = [''1'', ''true'', ''on'', ''yes'']"

definition negative :: "string list" where
  "negative = [''0'', ''false'', ''off'', ''no'']"

fun bool_loop :: "string \<Rightarrow> (string \<times> string) list \<Rightarrow> i32 option" where
  "bool_loop parsedValue [] = None"
| "bool_loop parsedValue ((p, n) # rest) =
     (if stricmp parsedValue p = 0 then Some 1
      else if stricmp parsedValue n = 0 then Some 0
      else bool_loop parsedValue rest)"

text \<open>The result is set exactly when the function returns true.\<close>

definition parseIntOption :: "string list \<Rightarrow> string \<Rightarrow> option_type \<Rightarrow> i32 option" where
  "parseIntOption argv pattern ty =
     (case parseOption argv pattern [] of
        (False, _) \<Rightarrow> None
      | (True, parsedValue) \<Rightarrow>
          (case ty of
             Option_int \<Rightarrow> (let theInt = atoi parsedValue in if theInt \<noteq> 0 then Some theInt else None)
           | Option_bool \<Rightarrow> bool_loop parsedValue (zip positive negative)))"

section \<open>parseArgs\<close>

text \<open>The three macros: what a member is set to, if it is.\<close>

definition PARSE_AS_BOOL_OR_FLAG :: "string list \<Rightarrow> bool \<Rightarrow> string \<Rightarrow> string \<Rightarrow> bool \<Rightarrow> bool option" where
  "PARSE_AS_BOOL_OR_FLAG argv withDefaults name sname dflt =
     (case parseIntOption argv (OPTIONS_PREFIX @ name @ ''='') Option_bool of
        Some res \<Rightarrow> Some (res \<noteq> 0)
      | None \<Rightarrow> (case parseIntOption argv (OPTIONS_PREFIX @ sname @ ''='') Option_bool of
          Some res \<Rightarrow> Some (res \<noteq> 0)
        | None \<Rightarrow>
            if parseFlag argv (OPTIONS_PREFIX @ name) \<or> parseFlag argv (OPTIONS_PREFIX @ sname) then Some True
            else if withDefaults then Some dflt
            else None))"

definition PARSE_INT_OPTION :: "string list \<Rightarrow> bool \<Rightarrow> string \<Rightarrow> string \<Rightarrow> i32 \<Rightarrow> i32 option" where
  "PARSE_INT_OPTION argv withDefaults name sname dflt =
     (case parseIntOption argv (OPTIONS_PREFIX @ name @ ''='') Option_int of
        Some res \<Rightarrow> Some res
      | None \<Rightarrow> (case parseIntOption argv (OPTIONS_PREFIX @ sname @ ''='') Option_int of
          Some res \<Rightarrow> Some res
        | None \<Rightarrow> if withDefaults then Some dflt else None))"

definition PARSE_STR_OPTION :: "string list \<Rightarrow> bool \<Rightarrow> string \<Rightarrow> string \<Rightarrow> string \<Rightarrow> string option" where
  "PARSE_STR_OPTION argv withDefaults name sname dflt =
     (case parseOption argv (OPTIONS_PREFIX @ name @ ''='') dflt of
        (True, v) \<Rightarrow> Some v
      | (False, _) \<Rightarrow> (case parseOption argv (OPTIONS_PREFIX @ sname @ ''='') dflt of
          (True, v) \<Rightarrow> Some v
        | (False, v) \<Rightarrow> if withDefaults then Some v else None))"

definition assign :: "(('a \<Rightarrow> 'a) \<Rightarrow> 'o \<Rightarrow> 'o) \<Rightarrow> 'a option \<Rightarrow> 'o \<Rightarrow> 'o" where
  "assign update v opts = (case v of Some x \<Rightarrow> update (\<lambda>_. x) opts | None \<Rightarrow> opts)"

definition filter_options :: "(string \<times> string) list" where
  "filter_options =
     [(''source-file='', ''sf=''), (''source-file-exclude='', ''sfe=''),
      (''test-suite='', ''ts=''), (''test-suite-exclude='', ''tse=''),
      (''test-case='', ''tc=''), (''test-case-exclude='', ''tce=''),
      (''subcase='', ''sc=''), (''subcase-exclude='', ''sce=''),
      (''reporters='', ''r='')]"

text \<open>The filters, each asked for under its two names; \<open>filters\<close> has one list for each line of the table.\<close>

definition parse_filters :: "string list \<Rightarrow> string list list \<Rightarrow> string list list" where
  "parse_filters argv fs =
     map (\<lambda>(res, name, sname).
       snd (parseCommaSepArgs argv (OPTIONS_PREFIX @ sname) (snd (parseCommaSepArgs argv (OPTIONS_PREFIX @ name) res))))
       (zip fs filter_options)"

definition bool_options :: "(string \<times> string \<times> ((bool \<Rightarrow> bool) \<Rightarrow> context_options \<Rightarrow> context_options) \<times> bool) list" where
  "bool_options =
     [(''success'', ''s'', opt_success_update, False),
      (''case-sensitive'', ''cs'', opt_case_sensitive_update, False),
      (''exit'', ''e'', opt_exit_update, False),
      (''duration'', ''d'', opt_duration_update, False),
      (''minimal'', ''m'', opt_minimal_update, False),
      (''quiet'', ''q'', opt_quiet_update, False),
      (''no-throw'', ''nt'', opt_no_throw_update, False),
      (''no-exitcode'', ''ne'', opt_no_exitcode_update, False),
      (''no-run'', ''nr'', opt_no_run_update, False),
      (''no-intro'', ''ni'', opt_no_intro_update, False),
      (''no-version'', ''nv'', opt_no_version_update, False),
      (''no-colors'', ''nc'', opt_no_colors_update, False),
      (''force-colors'', ''fc'', opt_force_colors_update, False),
      (''no-breaks'', ''nb'', opt_no_breaks_update, False),
      (''no-skip'', ''ns'', opt_no_skip_update, False),
      (''gnu-file-line'', ''gfl'', opt_gnu_file_line_update, True),
      (''no-path-filenames'', ''npf'', opt_no_path_in_filenames_update, False),
      (''no-line-numbers'', ''nln'', opt_no_line_numbers_update, False),
      (''no-debug-output'', ''ndo'', opt_no_debug_output_update, False),
      (''no-skipped-summary'', ''nss'', opt_no_skipped_summary_update, False),
      (''no-time-in-output'', ''ntio'', opt_no_time_in_output_update, False)]"

definition parse_bools :: "string list \<Rightarrow> bool \<Rightarrow> context_options \<Rightarrow> context_options" where
  "parse_bools argv withDefaults o0 =
     fold (\<lambda>(name, sname, update, dflt). assign update (PARSE_AS_BOOL_OR_FLAG argv withDefaults name sname dflt))
       bool_options o0"

definition parse_values :: "string list \<Rightarrow> bool \<Rightarrow> context_options \<Rightarrow> context_options" where
  "parse_values argv withDefaults o0 =
     (let o1 = assign opt_out_update (PARSE_STR_OPTION argv withDefaults ''out'' ''o'' []) o0;
          o2 = assign opt_order_by_update (PARSE_STR_OPTION argv withDefaults ''order-by'' ''ob'' ''file'') o1;
          o3 = assign opt_rand_seed_update (PARSE_INT_OPTION argv withDefaults ''rand-seed'' ''rs'' 0) o2;
          o4 = assign opt_first_update (PARSE_INT_OPTION argv withDefaults ''first'' ''f'' 0) o3;
          o5 = assign opt_last_update (PARSE_INT_OPTION argv withDefaults ''last'' ''l'' 0xFFFFFFFF) o4;
          o6 = assign opt_abort_after_update (PARSE_INT_OPTION argv withDefaults ''abort-after'' ''aa'' 0) o5;
          o7 = assign opt_subcase_filter_levels_update
                 (PARSE_INT_OPTION argv withDefaults ''subcase-filter-levels'' ''scfl'' 0x7FFFFFFF) o6;
          o8 = assign opt_strip_file_prefixes_update
                 (PARSE_STR_OPTION argv withDefaults ''strip-file-prefixes'' ''sfp'' []) o7
      in o8)"

text \<open>The queries, each of which asks to exit too; the three names are tried in turn.\<close>

definition query_options :: "(string list \<times> ((bool \<Rightarrow> bool) \<Rightarrow> context_options \<Rightarrow> context_options)) list" where
  "query_options =
     [([''help'', ''h'', ''?''], opt_help_update), ([''version'', ''v''], opt_version_update),
      ([''count'', ''c''], opt_count_update), ([''list-test-cases'', ''ltc''], opt_list_test_cases_update),
      ([''list-test-suites'', ''lts''], opt_list_test_suites_update),
      ([''list-reporters'', ''lr''], opt_list_reporters_update)]"

definition parse_queries :: "string list \<Rightarrow> bool \<Rightarrow> context_options \<Rightarrow> context_options" where
  "parse_queries argv withDefaults o0 =
     (let o1 = (if withDefaults
          then o0\<lparr>opt_help := False, opt_version := False, opt_count := False, opt_list_test_cases := False,
            opt_list_test_suites := False, opt_list_reporters := False\<rparr>
          else o0)
      in fold (\<lambda>(names, update) opts.
           if list_ex (\<lambda>name. parseFlag argv (OPTIONS_PREFIX @ name)) names
           then opt_exit_update (\<lambda>_. True) (update (\<lambda>_. True) opts) else opts)
         query_options o1)"

definition parseArgs :: "string list \<Rightarrow> bool \<Rightarrow> context_state \<Rightarrow> context_state" where
  "parseArgs argv withDefaults c =
     c\<lparr>filters := parse_filters argv (filters c),
       ctx_options := parse_queries argv withDefaults (parse_bools argv withDefaults
         (parse_values argv withDefaults (ctx_options c)))\<rparr>"

section \<open>Context\<close>

text \<open>
  The constructor, on the memory \<open>raw\<close> of a new \<open>ContextState\<close>: the members with an initialiser get it,
  and \<open>parseArgs\<close> with defaults sets every option.
\<close>

definition Context :: "string list \<Rightarrow> context_state \<Rightarrow> context_state" where
  "Context argv raw =
     (let c = raw\<lparr>cout := None, currentTest := None, filters := replicate 9 [],
            numAssertsCurrentTest_atomic := lanes_new, numAssertsFailedCurrentTest_atomic := lanes_new,
            reporters_currently_used := [], assert_handler := False, timer := 0, stringifiedContexts := [],
            subcaseStack := [], nextSubcaseStack := [], fullyTraversedSubcases := {}\<rparr>;
          c = parseArgs argv True (c\<lparr>ctx_options := (ctx_options c)\<lparr>opt_binary_name := []\<rparr>\<rparr>)
      in if argv \<noteq> [] then c\<lparr>ctx_options := (ctx_options c)\<lparr>opt_binary_name := hd argv\<rparr>\<rparr> else c)"

definition applyCommandLine :: "string list \<Rightarrow> context_state \<Rightarrow> context_state" where
  "applyCommandLine argv c =
     (let c = parseArgs argv False c
      in if argv \<noteq> [] then c\<lparr>ctx_options := (ctx_options c)\<lparr>opt_binary_name := hd argv\<rparr>\<rparr> else c)"

definition setOption :: "string \<Rightarrow> string \<Rightarrow> context_state \<Rightarrow> context_state" where
  "setOption option v c = parseArgs [''-'' @ option @ ''='' @ v] False c"

definition setOption_bool :: "string \<Rightarrow> bool \<Rightarrow> context_state \<Rightarrow> context_state" where
  "setOption_bool option v c = setOption option (if v then ''true'' else ''false'') c"

text \<open>An \<open>int\<close> as the streams print it.\<close>

definition toString_int :: "int \<Rightarrow> string" where
  "toString_int n = (if n < 0 then ''-'' @ dec_of_nat (nat (- n)) else dec_of_nat (nat n))"

definition setOption_int :: "string \<Rightarrow> int \<Rightarrow> context_state \<Rightarrow> context_state" where
  "setOption_int option v c = setOption option (toString_int v) c"

definition addFilter :: "string \<Rightarrow> string \<Rightarrow> context_state \<Rightarrow> context_state" where
  "addFilter filter_name v c = setOption filter_name v c"

definition clearFilters :: "context_state \<Rightarrow> context_state" where
  "clearFilters c = c\<lparr>filters := map (\<lambda>_. []) (filters c)\<rparr>"

definition shouldExit :: "context_state \<Rightarrow> bool" where
  "shouldExit c = opt_exit (ctx_options c)"

definition setAssertHandler :: "bool \<Rightarrow> context_state \<Rightarrow> context_state" where
  "setAssertHandler ah c = c\<lparr>assert_handler := ah\<rparr>"

definition setCout :: "nat \<Rightarrow> context_state \<Rightarrow> context_state" where
  "setCout os c = c\<lparr>cout := Some (User_out os)\<rparr>"

section \<open>What matches an option\<close>

definition dashes :: "nat \<Rightarrow> string" where
  "dashes n = replicate n (CHR ''-'')"

lemma strstr_dashes:
  assumes "pat \<noteq> []" and "hd pat \<noteq> CHR ''-''"
  shows "strstr (dashes n @ pat @ v) pat = Some (pat @ v)"
proof (induction n)
  case 0
  then show ?case by (subst strstr.simps) (simp add: dashes_def)
next
  case (Suc n)
  have "take (length pat) (dashes (Suc n) @ pat @ v) \<noteq> pat"
    using assms by (cases pat) (auto simp: dashes_def)
  then show ?case using Suc by (subst strstr.simps) (simp add: dashes_def)
qed

lemma option_match_spec:
  assumes "pat \<noteq> []" and "hd pat \<noteq> CHR ''-''"
  shows "option_match True pat arg = Some v \<longleftrightarrow> (\<exists>n. arg = dashes (Suc n) @ pat @ v \<and> v \<noteq> [])"
    and "option_match False pat arg = Some v \<longleftrightarrow> (\<exists>n. arg = dashes (Suc n) @ pat \<and> v = [])"
proof -
  have parts: "\<exists>n. arg = dashes (Suc n) @ temp"
    if temp: "strstr arg pat = Some temp" and all: "list_all (\<lambda>c. c = CHR ''-'') (take (length arg - length temp) arg)"
      and first: "arg \<noteq> []" "hd arg = CHR ''-''" for temp
  proof -
    from strstr_Some [OF temp] obtain u where u: "arg = u @ temp" "take (length pat) temp = pat" by blast
    then have "\<forall>c \<in> set u. c = CHR ''-''" using all by (simp add: list_all_iff)
    then have rep: "u = dashes (length u)" unfolding dashes_def by (intro replicate_eqI) auto
    have "u \<noteq> []"
    proof
      assume "u = []"
      then have "hd arg = hd pat" using u assms(1) by (cases pat; cases arg) auto
      then show False using first assms(2) by simp
    qed
    then obtain k where "length u = Suc k" by (cases u) auto
    with u rep show ?thesis by metis
  qed
  show "option_match True pat arg = Some v \<longleftrightarrow> (\<exists>n. arg = dashes (Suc n) @ pat @ v \<and> v \<noteq> [])"
  proof
    assume "option_match True pat arg = Some v"
    then obtain temp where temp: "strstr arg pat = Some temp" "v = drop (length pat) temp" "v \<noteq> []"
      "list_all (\<lambda>c. c = CHR ''-'') (take (length arg - length temp) arg)" "arg \<noteq> []" "hd arg = CHR ''-''"
      by (auto simp: option_match_def Let_def split: option.splits if_splits)
    obtain n where "arg = dashes (Suc n) @ temp" using parts [OF temp(1,4,5,6)] by blast
    moreover have "temp = pat @ v"
      using strstr_Some [OF temp(1)] temp(2) by (metis append_take_drop_id)
    ultimately show "\<exists>n. arg = dashes (Suc n) @ pat @ v \<and> v \<noteq> []" using temp(3) by blast
  next
    assume "\<exists>n. arg = dashes (Suc n) @ pat @ v \<and> v \<noteq> []"
    then obtain n where n: "arg = dashes (Suc n) @ pat @ v" "v \<noteq> []" by blast
    then show "option_match True pat arg = Some v"
      using strstr_dashes [OF assms, of "Suc n" v]
      by (simp add: option_match_def) (simp add: dashes_def list_all_iff)
  qed
  show "option_match False pat arg = Some v \<longleftrightarrow> (\<exists>n. arg = dashes (Suc n) @ pat \<and> v = [])"
  proof
    assume "option_match False pat arg = Some v"
    then obtain temp where temp: "strstr arg pat = Some temp" "length temp = length pat" "v = []"
      "list_all (\<lambda>c. c = CHR ''-'') (take (length arg - length temp) arg)" "arg \<noteq> []" "hd arg = CHR ''-''"
      by (auto simp: option_match_def Let_def split: option.splits if_splits)
    obtain n where "arg = dashes (Suc n) @ temp" using parts [OF temp(1,4,5,6)] by blast
    moreover have "temp = pat" using strstr_Some [OF temp(1)] temp(2) by auto
    ultimately show "\<exists>n. arg = dashes (Suc n) @ pat \<and> v = []" using temp(3) by blast
  next
    assume "\<exists>n. arg = dashes (Suc n) @ pat \<and> v = []"
    then obtain n where n: "arg = dashes (Suc n) @ pat" "v = []" by blast
    then show "option_match False pat arg = Some v"
      using strstr_dashes [OF assms, of "Suc n" "[]"]
      by (simp add: option_match_def) (simp add: dashes_def list_all_iff)
  qed
qed

lemma first_match_None: "first_match b pat as = None \<longleftrightarrow> (\<forall>a \<in> set as. option_match b pat a = None)"
  by (induction as) (auto split: option.splits)

lemma first_match_append:
  "first_match b pat (as @ bs) = (case first_match b pat as of Some v \<Rightarrow> Some v | None \<Rightarrow> first_match b pat bs)"
  by (induction as) (auto split: option.splits)

lemma drop_prefix [simp]: "drop (length OPTIONS_PREFIX) (OPTIONS_PREFIX @ name) = name"
  by simp

lemma prefix_hd: "OPTIONS_PREFIX @ name \<noteq> [] \<and> hd (OPTIONS_PREFIX @ name) \<noteq> CHR ''-''"
  by (simp add: OPTIONS_PREFIX_def)

text \<open>
  A flag is set exactly if some argument is its name behind dashes, with or without the prefix; the
  value of an option is that of the last argument that has its name, dashes before it, and a value.
\<close>

theorem options_found:
  assumes "name \<noteq> []" and "hd name \<noteq> CHR ''-''"
  shows "(parseFlag argv (OPTIONS_PREFIX @ name) \<longleftrightarrow>
      (\<exists>n. dashes (Suc n) @ name \<in> set argv \<or> dashes (Suc n) @ OPTIONS_PREFIX @ name \<in> set argv)) \<and>
    (v \<noteq> [] \<and> (\<forall>n w. w \<noteq> [] \<longrightarrow> dashes (Suc n) @ name @ w \<notin> set later) \<longrightarrow>
      parseOption (earlier @ [dashes (Suc k) @ name @ v] @ later) (OPTIONS_PREFIX @ name) d = (True, v)) \<and>
    ((\<forall>n w. w \<noteq> [] \<longrightarrow> dashes (Suc n) @ name @ w \<notin> set argv \<and> dashes (Suc n) @ OPTIONS_PREFIX @ name @ w \<notin> set argv) \<longrightarrow>
      parseOption argv (OPTIONS_PREFIX @ name) d = (False, d))"
proof -
  note spec = option_match_spec [OF assms]
  note spec' = option_match_spec [OF conjunct1 [OF prefix_hd] conjunct2 [OF prefix_hd], of name]
  have flag: "parseFlag argv (OPTIONS_PREFIX @ name) \<longleftrightarrow>
      (\<exists>n. dashes (Suc n) @ name \<in> set argv \<or> dashes (Suc n) @ OPTIONS_PREFIX @ name \<in> set argv)"
  proof -
    have "first_match False pat (rev argv) \<noteq> None \<longleftrightarrow> (\<exists>n. dashes (Suc n) @ pat \<in> set argv)"
      if "pat \<noteq> []" "hd pat \<noteq> CHR ''-''" for pat
      unfolding first_match_None using option_match_spec(2) [OF that] by force
    from this [OF assms] this [OF conjunct1 [OF prefix_hd] conjunct2 [OF prefix_hd], of name] show ?thesis
      by (auto simp: parseFlag_def parseOptionImpl_def)
  qed
  moreover have "parseOption (earlier @ [dashes (Suc k) @ name @ v] @ later) (OPTIONS_PREFIX @ name) d = (True, v)"
    if val: "v \<noteq> []" and none: "\<forall>n w. w \<noteq> [] \<longrightarrow> dashes (Suc n) @ name @ w \<notin> set later"
  proof -
    have "option_match True name a = None" if a: "a \<in> set later" for a
    proof (rule ccontr)
      assume "option_match True name a \<noteq> None"
      then obtain w where "option_match True name a = Some w" by auto
      then obtain n where "a = dashes (Suc n) @ name @ w" "w \<noteq> []" using spec(1) by blast
      then show False using a none by blast
    qed
    then have "first_match True name (rev later) = None" by (simp add: first_match_None)
    moreover have "option_match True name (dashes (Suc k) @ name @ v) = Some v"
      using spec(1) val by blast
    ultimately show ?thesis
      by (simp add: parseOption_def parseOptionImpl_def first_match_append)
  qed
  moreover have "parseOption argv (OPTIONS_PREFIX @ name) d = (False, d)"
    if none: "\<forall>n w. w \<noteq> [] \<longrightarrow> dashes (Suc n) @ name @ w \<notin> set argv \<and> dashes (Suc n) @ OPTIONS_PREFIX @ name @ w \<notin> set argv"
  proof -
    have "option_match True name a = None \<and> option_match True (OPTIONS_PREFIX @ name) a = None" if a: "a \<in> set argv" for a
    proof (rule ccontr)
      assume "\<not> (option_match True name a = None \<and> option_match True (OPTIONS_PREFIX @ name) a = None)"
      then obtain w where "option_match True name a = Some w \<or> option_match True (OPTIONS_PREFIX @ name) a = Some w" by auto
      then obtain n where "w \<noteq> []" "a = dashes (Suc n) @ name @ w \<or> a = dashes (Suc n) @ (OPTIONS_PREFIX @ name) @ w"
        using spec(1) spec'(1) by blast
      then show False using a none by (simp only: append_assoc) blast
    qed
    then have "first_match True name (rev argv) = None" "first_match True (OPTIONS_PREFIX @ name) (rev argv) = None"
      by (simp_all add: first_match_None)
    then show ?thesis by (simp add: parseOption_def parseOptionImpl_def)
  qed
  ultimately show ?thesis by blast
qed

theorem options_found_witness:
  "parseFlag [''monkas'', ''--dt-count''] (OPTIONS_PREFIX @ ''count'') \<and>
   parseOption ([''monkas'', ''-tc=old''] @ [dashes (Suc 1) @ ''tc='' @ ''new''] @ [''-x'']) (OPTIONS_PREFIX @ ''tc='') [] = (True, ''new'')"
proof -
  have "dashes (Suc 1) @ OPTIONS_PREFIX @ ''count'' \<in> set [''monkas'', ''--dt-count'']" by code_simp
  then have "parseFlag [''monkas'', ''--dt-count''] (OPTIONS_PREFIX @ ''count'')"
    using options_found [of "''count''" "[''monkas'', ''--dt-count'']"] by auto
  moreover have "\<forall>n w. w \<noteq> [] \<longrightarrow> dashes (Suc n) @ ''tc='' @ w \<notin> set [''-x'']"
  proof (intro allI impI)
    fix n w
    show "dashes (Suc n) @ ''tc='' @ w \<notin> set [''-x'']"
      by (cases n) (auto simp: dashes_def)
  qed
  ultimately show ?thesis
    using options_found [of "''tc=''" "[]" "''new''" "[''-x'']" "[''monkas'', ''-tc=old'']" 1 "[]"] by auto
qed

section \<open>Lists round trip\<close>

definition escape :: "char \<Rightarrow> string" where
  "escape c = (if c = CHR '','' \<or> c = backslash then [backslash, c] else [c])"

definition escape_token :: "string \<Rightarrow> string" where
  "escape_token t = concat (map escape t)"

lemma comma_loop_token: "comma_loop (escape_token t @ rest) False s res = comma_loop rest False (s @ t) res"
proof (induction t arbitrary: s)
  case (Cons c t)
  then show ?case by (cases "c = CHR '',''"; cases "c = backslash") (simp_all add: escape_token_def escape_def)
qed (simp add: escape_token_def)

lemma comma_loop_tokens:
  "ts \<noteq> [] \<Longrightarrow> [] \<notin> set ts \<Longrightarrow> comma_loop (join '','' (map escape_token ts)) False [] res = res @ ts"
proof (induction ts arbitrary: res)
  case (Cons t ts)
  show ?case
  proof (cases "ts = []")
    case True
    then show ?thesis using Cons.prems comma_loop_token [of t "[]" "[]"] by (simp add: flush_def)
  next
    case False
    have "comma_loop (join '','' (map escape_token (t # ts))) False [] res =
        comma_loop ('','' @ join '','' (map escape_token ts)) False t res"
      using False comma_loop_token [of t _ "[]"] by (simp add: join_Cons)
    also have "\<dots> = comma_loop (join '','' (map escape_token ts)) False [] (res @ [t])"
    proof -
      have "t \<noteq> []" using Cons.prems by auto
      then show ?thesis by (simp add: flush_def backslash_def)
    qed
    finally show ?thesis using Cons.IH [of "res @ [t]"] False Cons.prems by simp
  qed
qed simp

lemma escape_token_Nil: "escape_token t = [] \<longleftrightarrow> t = []"
  by (cases t) (simp_all add: escape_token_def escape_def)

text \<open>A name with its equals sign, as the tables have them.\<close>

definition option_name :: "string \<Rightarrow> bool" where
  "option_name q \<longleftrightarrow> q \<noteq> [] \<and> hd q \<noteq> CHR ''-'' \<and> last q = CHR ''='' \<and> CHR ''='' \<notin> set (butlast q) \<and>
     take 3 q \<noteq> OPTIONS_PREFIX"

lemma names_prefix_free:
  assumes "option_name p \<or> (\<exists>p'. p = OPTIONS_PREFIX @ p' \<and> option_name p')" and "option_name q" and "p @ v = q @ w"
  shows "p = q \<and> v = w"
proof -
  have cut: "takeWhile (\<lambda>c. c \<noteq> CHR ''='') (p @ v) = butlast p"
    if "p \<noteq> []" "last p = CHR ''=''" "CHR ''='' \<notin> set (butlast p)" for p v :: string
  proof -
    have p_eq: "p = butlast p @ [CHR ''='']" using append_butlast_last_id [OF that(1)] that(2) by simp
    have "takeWhile (\<lambda>c. c \<noteq> CHR ''='') (butlast p @ (CHR ''='' # v)) = butlast p"
      by (subst takeWhile_append2) (use that(3) in auto)
    then show ?thesis by (subst p_eq) simp
  qed
  have p: "p \<noteq> []" "last p = CHR ''=''" "CHR ''='' \<notin> set (butlast p)"
    using assms(1) by (auto simp: option_name_def OPTIONS_PREFIX_def butlast_append)
  have q: "q \<noteq> []" "last q = CHR ''=''" "CHR ''='' \<notin> set (butlast q)"
    using assms(2) by (auto simp: option_name_def)
  have "butlast p = butlast q" using cut [OF p, of v] cut [OF q, of w] assms(3) by simp
  then have "p = q" using p q by (metis append_butlast_last_id)
  then show ?thesis using assms(3) by simp
qed

lemma single_match:
  assumes "option_name q" and "w \<noteq> []" and "option_name p \<or> (\<exists>p'. p = OPTIONS_PREFIX @ p' \<and> option_name p')"
  shows "option_match True p (''-'' @ q @ w) = (if p = q then Some w else None)"
proof -
  have p: "p \<noteq> []" "hd p \<noteq> CHR ''-''" using assms(3) by (auto simp: option_name_def OPTIONS_PREFIX_def)
  have iff: "option_match True p (''-'' @ q @ w) = Some v \<longleftrightarrow> p = q \<and> v = w" for v
  proof
    assume "option_match True p (''-'' @ q @ w) = Some v"
    then obtain n where n: "''-'' @ q @ w = dashes (Suc n) @ p @ v" using option_match_spec(1) [OF p] by blast
    have "n = 0"
      using n assms(1) by (cases n; cases q) (auto simp: dashes_def option_name_def)
    then have "p @ v = q @ w" using n by (simp add: dashes_def)
    then show "p = q \<and> v = w" using names_prefix_free [OF assms(3,1)] by simp
  next
    assume "p = q \<and> v = w"
    then have "''-'' @ q @ w = dashes (Suc 0) @ p @ v \<and> v \<noteq> []" using assms(2) by (simp add: dashes_def)
    then show "option_match True p (''-'' @ q @ w) = Some v" using option_match_spec(1) [OF p] by blast
  qed
  show ?thesis
  proof (cases "p = q")
    case True
    then show ?thesis using iff [of w] by simp
  next
    case False
    then have "option_match True p (''-'' @ q @ w) \<noteq> Some v" for v using iff by simp
    then show ?thesis using False by (cases "option_match True p (''-'' @ q @ w)") auto
  qed
qed

lemma single_option:
  assumes "option_name q" and "w \<noteq> []" and "option_name p"
  shows "parseOption [''-'' @ q @ w] (OPTIONS_PREFIX @ p) d = (if p = q then (True, w) else (False, d))"
proof -
  have "OPTIONS_PREFIX @ p \<noteq> q"
    using assms(1) by (auto simp: option_name_def OPTIONS_PREFIX_def)
  then show ?thesis
    using single_match [OF assms(1,2), of p] single_match [OF assms(1,2), of "OPTIONS_PREFIX @ p"] assms(3)
    by (auto simp: parseOption_def parseOptionImpl_def)
qed

lemma filter_names: "list_all (\<lambda>(a, b). option_name a \<and> option_name b) filter_options"
  by code_simp

lemma filter_names_distinct: "distinct (map fst filter_options @ map snd filter_options)"
  by code_simp

lemma filter_name_nth:
  assumes "i < 9"
  shows "option_name (fst (filter_options ! i)) \<and> option_name (snd (filter_options ! i))"
proof -
  have "filter_options ! i \<in> set filter_options" using assms by (intro nth_mem) (simp add: filter_options_def)
  then show ?thesis using filter_names by (auto simp: list_all_iff case_prod_unfold)
qed

lemma filter_name_unique:
  assumes "i < 9" and "j < 9" and "q \<in> {fst (filter_options ! i), snd (filter_options ! i)}"
  shows "(fst (filter_options ! j) = q \<or> snd (filter_options ! j) = q) \<longleftrightarrow> i = j"
    and "fst (filter_options ! j) = q \<longleftrightarrow> snd (filter_options ! j) \<noteq> q \<and> i = j"
proof -
  let ?l = "map fst filter_options @ map snd filter_options"
  have len: "length filter_options = 9" by (simp add: filter_options_def)
  have nth: "?l ! k = fst (filter_options ! k)" "?l ! (9 + k) = snd (filter_options ! k)" if "k < 9" for k
    using that len by (simp_all add: nth_append)
  have inj: "?l ! a = ?l ! b \<longleftrightarrow> a = b" if "a < 18" "b < 18" for a b
    using nth_eq_iff_index_eq [OF filter_names_distinct] that len by simp
  show "(fst (filter_options ! j) = q \<or> snd (filter_options ! j) = q) \<longleftrightarrow> i = j"
    and "fst (filter_options ! j) = q \<longleftrightarrow> snd (filter_options ! j) \<noteq> q \<and> i = j"
    using assms inj [of i j] inj [of "9 + i" "9 + j"] inj [of i "9 + j"] inj [of "9 + i" j] nth [of i] nth [of j] by auto
qed

text \<open>
  A filter given to \<open>addFilter\<close> under either of its names, as a list of tokens with commas and
  backslashes escaped, adds exactly these tokens to exactly this filter.
\<close>

theorem filter_roundtrip:
  assumes "i < 9" and "length (filters c) = 9" and "ts \<noteq> []" and "[] \<notin> set ts"
    and "option @ ''='' \<in> {fst (filter_options ! i), snd (filter_options ! i)}"
  shows "filters (addFilter option (join '','' (map escape_token ts)) c) = (filters c)[i := filters c ! i @ ts]"
proof -
  let ?w = "join '','' (map escape_token ts)"
  let ?q = "option @ ''=''"
  have w: "?w \<noteq> []" using assms(3,4) by (cases ts) (auto simp: join_Cons escape_token_Nil)
  have q: "option_name ?q" using filter_name_nth [OF assms(1)] assms(5) by auto
  have parse: "snd (parseCommaSepArgs [''-'' @ ?q @ ?w] (OPTIONS_PREFIX @ p) res) = (if p = ?q then res @ ts else res)"
    if "option_name p" for p res
    using single_option [OF q w that, of "[]"] comma_loop_tokens [OF assms(3,4)] by (simp add: parseCommaSepArgs_def)
  have "parse_filters [''-'' @ ?q @ ?w] (filters c) = (filters c)[i := filters c ! i @ ts]"
  proof (rule nth_equalityI)
    have len: "length filter_options = 9" by (simp add: filter_options_def)
    then show "length (parse_filters [''-'' @ ?q @ ?w] (filters c)) = length ((filters c)[i := filters c ! i @ ts])"
      using assms(2) by (simp add: parse_filters_def)
    fix j
    assume "j < length (parse_filters [''-'' @ ?q @ ?w] (filters c))"
    then have j: "j < 9" using len assms(2) by (simp add: parse_filters_def)
    obtain a b where ab: "filter_options ! j = (a, b)" by (cases "filter_options ! j")
    then have names: "option_name a" "option_name b" using filter_name_nth [OF j] by simp_all
    have "parse_filters [''-'' @ ?q @ ?w] (filters c) ! j =
        (let r = (if a = ?q then filters c ! j @ ts else filters c ! j) in if b = ?q then r @ ts else r)"
      using j len assms(2) ab parse [OF names(1)] parse [OF names(2)] by (simp add: parse_filters_def)
    then show "parse_filters [''-'' @ ?q @ ?w] (filters c) ! j = (filters c)[i := filters c ! i @ ts] ! j"
      using filter_name_unique [OF assms(1) j assms(5)] ab j assms(2) by (auto simp: Let_def nth_list_update)
  qed
  then show ?thesis by (simp add: addFilter_def setOption_def parseArgs_def)
qed

theorem filter_roundtrip_witness:
  "filters (addFilter ''tce'' (join '','' (map escape_token [''a,b'', ''slow*''])) sample_context) =
     (replicate 9 [])[5 := [''a,b'', ''slow*'']]"
proof -
  have pre: "(5 :: nat) < 9" "length (filters sample_context) = 9" "[''a,b'', ''slow*''] \<noteq> []" "[] \<notin> set [''a,b'', ''slow*'']"
    by (simp_all add: sample_context_def)
  have "''tce'' @ ''='' \<in> {fst (filter_options ! 5), snd (filter_options ! 5)}" by (simp add: filter_options_def)
  from filter_roundtrip [OF pre this] show ?thesis
    unfolding sample_context_def by simp
qed

section \<open>Integers round trip, but for zero\<close>

lemma hex_digit_decimal:
  assumes "d < 10"
  shows "is_digit (hex_digit d)" and "(of_char (hex_digit d) :: int) - 48 = int d"
    and "\<not> is_space (hex_digit d)" and "hex_digit d \<noteq> CHR ''-''" and "hex_digit d \<noteq> CHR ''+''"
proof -
  have table: "\<forall>d \<in> set [0..<10]. is_digit (hex_digit d) \<and> (of_char (hex_digit d) :: int) - 48 = int d \<and>
      \<not> is_space (hex_digit d) \<and> hex_digit d \<noteq> CHR ''-'' \<and> hex_digit d \<noteq> CHR ''+''" by code_simp
  have "d \<in> set [0..<10]" using assms by simp
  from bspec [OF table this]
  show "is_digit (hex_digit d)" and "(of_char (hex_digit d) :: int) - 48 = int d"
    and "\<not> is_space (hex_digit d)" and "hex_digit d \<noteq> CHR ''-''" and "hex_digit d \<noteq> CHR ''+''" by simp_all
qed

lemma dec_of_nat_digits: "list_all is_digit (dec_of_nat n) \<and> dec_of_nat n \<noteq> [] \<and>
   \<not> is_space (hd (dec_of_nat n)) \<and> hd (dec_of_nat n) \<noteq> CHR ''-'' \<and> hd (dec_of_nat n) \<noteq> CHR ''+'' \<and>
   fold (\<lambda>c m. 10 * m + (of_char c - 48)) (dec_of_nat n) 0 = int n"
proof (induction n rule: dec_of_nat.induct)
  case (1 n)
  show ?case
  proof (cases "n < 10")
    case True
    then show ?thesis using hex_digit_decimal [of n] by (subst (1 2 3 4 5 6) dec_of_nat.simps) simp
  next
    case False
    have "dec_of_nat n = dec_of_nat (n div 10) @ [hex_digit (n mod 10)]"
      using False by (subst dec_of_nat.simps) simp
    moreover have "n mod 10 < 10" by simp
    moreover have "10 * int (n div 10) + int (n mod 10) = int n" by presburger
    ultimately show ?thesis using "1.IH" [OF False] hex_digit_decimal [of "n mod 10"] by simp
  qed
qed

lemma digits_of_dec: "digits_of (dec_of_nat n) = int n"
proof -
  have "takeWhile is_digit (dec_of_nat n) = dec_of_nat n"
    using dec_of_nat_digits [of n] by (simp add: takeWhile_eq_all_conv list_all_iff)
  then have "digits_of (dec_of_nat n) = fold (\<lambda>c m. 10 * m + (of_char c - 48)) (dec_of_nat n) 0"
    by (simp only: digits_of_def)
  then show ?thesis using dec_of_nat_digits [of n] by simp
qed

lemma toString_int_nonempty: "toString_int n \<noteq> []"
  using dec_of_nat_digits by (simp add: toString_int_def)

lemma atoi_toString: "atoi (toString_int n) = word_of_int n"
proof (cases "n < 0")
  case True
  have "is_space (CHR ''-'') = False" by code_simp
  then show ?thesis using True digits_of_dec [of "nat (- n)"] by (simp add: toString_int_def atoi_def)
next
  case False
  obtain c cs where c: "dec_of_nat (nat n) = c # cs" using dec_of_nat_digits [of "nat n"] by (cases "dec_of_nat (nat n)") auto
  then have "\<not> is_space c" "c \<noteq> CHR ''-''" "c \<noteq> CHR ''+''" using dec_of_nat_digits [of "nat n"] by auto
  then show ?thesis using False digits_of_dec [of "nat n"] c by (simp add: toString_int_def atoi_def)
qed

lemma single_int_option:
  assumes "option_name (q @ ''='')" and "option_name (p @ ''='')"
  shows "parseIntOption [''-'' @ q @ ''='' @ toString_int n] (OPTIONS_PREFIX @ p @ ''='') Option_int =
    (if p = q \<and> word_of_int n \<noteq> (0 :: i32) then Some (word_of_int n) else None)"
  using single_option [OF assms(1) toString_int_nonempty [of n] assms(2), of "[]"]
  by (auto simp: parseIntOption_def atoi_toString Let_def)

lemma assign_other: "(\<And>f opts. sel (update f opts) = sel opts) \<Longrightarrow> sel (assign update v opts) = sel opts"
  by (simp add: assign_def split: option.splits)

lemma assign_abort_after:
  "opt_abort_after (assign opt_abort_after_update v opts) = (case v of Some x \<Rightarrow> x | None \<Rightarrow> opt_abort_after opts)"
  by (simp add: assign_def split: option.splits)

lemma parse_values_abort_after:
  "opt_abort_after (parse_values argv wd opts) =
     (case PARSE_INT_OPTION argv wd ''abort-after'' ''aa'' 0 of Some x \<Rightarrow> x | None \<Rightarrow> opt_abort_after opts)"
  by (cases "PARSE_INT_OPTION argv wd ''abort-after'' ''aa'' 0")
     (simp_all add: parse_values_def Let_def assign_other assign_abort_after)

lemma parse_bools_abort_after: "opt_abort_after (parse_bools argv wd opts) = opt_abort_after opts"
  by (simp add: parse_bools_def bool_options_def assign_other)

lemma parse_queries_abort_after: "opt_abort_after (parse_queries argv wd opts) = opt_abort_after opts"
  by (simp add: parse_queries_def query_options_def Let_def)

text \<open>
  An integer option set from the program is the integer, printed and read back, except for zero,
  which is taken for a text that is not a number: it leaves the option as it was.
\<close>

theorem int_option_roundtrip:
  assumes "option \<in> {''abort-after'', ''aa''}"
  shows "opt_abort_after (ctx_options (setOption_int option n c)) =
    (if word_of_int n = (0 :: i32) then opt_abort_after (ctx_options c) else word_of_int n)"
proof -
  have names: "option_name (''abort-after'' @ ''='')" "option_name (''aa'' @ ''='')" by code_simp+
  then have opt: "option_name (option @ ''='')" using assms by auto
  have "PARSE_INT_OPTION [''-'' @ option @ ''='' @ toString_int n] False ''abort-after'' ''aa'' 0 =
      (if word_of_int n \<noteq> (0 :: i32) then Some (word_of_int n) else None)"
    unfolding PARSE_INT_OPTION_def single_int_option [OF opt names(1)] single_int_option [OF opt names(2)]
    using assms by auto
  then show ?thesis
    by (simp add: setOption_int_def setOption_def parseArgs_def parse_bools_abort_after parse_queries_abort_after
        parse_values_abort_after)
qed

theorem int_option_roundtrip_witness:
  "opt_abort_after (ctx_options (setOption_int ''aa'' 3 sample_context)) = 3 \<and>
   opt_abort_after (ctx_options (setOption_int ''aa'' 0 (setOption_int ''aa'' 3 sample_context))) = 3"
  using int_option_roundtrip [of "''aa''" 3 sample_context]
    int_option_roundtrip [of "''aa''" 0 "setOption_int ''aa'' 3 sample_context"] by simp

end
