(* ===== verification/Doctest_Run.thy ===== *)
theory Doctest_Run
  imports Doctest_Asserts Doctest_Options
begin

unbundle bit_operations_syntax

text \<open>
  Test cases, their registration and order, and \<open>Context::run\<close> of doctest.h. What the run depends on
  and does not determine itself, the functions of the tests, the exception translators, the clock, the
  random numbers and the arithmetic of \<open>double\<close>, is a parameter (\<open>test_environment\<close>). A loop that need not
  end is an option, \<open>None\<close> if it does not.
\<close>

section \<open>Test cases\<close>

record test_suite =
  ts_test_suite :: string
  ts_description :: "string option"
  ts_skip :: bool
  ts_no_breaks :: bool
  ts_no_output :: bool
  ts_may_fail :: bool
  ts_should_fail :: bool
  ts_expected_failures :: i32
  ts_timeout :: double

definition TestSuite :: test_suite where
  "TestSuite = \<lparr>ts_test_suite = [], ts_description = None, ts_skip = False, ts_no_breaks = False, ts_no_output = False,
     ts_may_fail = False, ts_should_fail = False, ts_expected_failures = 0, ts_timeout = 0\<rparr>"

definition TestSuite_name :: "string \<Rightarrow> test_suite \<Rightarrow> test_suite" where
  "TestSuite_name inp ts = ts\<lparr>ts_test_suite := inp\<rparr>"

text \<open>The name is null until \<open>operator*\<close> sets it, and empty here.\<close>

definition TestCase :: "nat \<Rightarrow> string \<Rightarrow> u32 \<Rightarrow> test_suite \<Rightarrow> string \<Rightarrow> int \<Rightarrow> test_case" where
  "TestCase test src line ts ty template_id =
     \<lparr>m_file = src, m_line = line, m_name = [], m_test_suite = ts_test_suite ts, m_description = ts_description ts,
      m_skip = ts_skip ts, m_no_breaks = ts_no_breaks ts, m_no_output = ts_no_output ts, m_may_fail = ts_may_fail ts,
      m_should_fail = ts_should_fail ts, m_expected_failures = ts_expected_failures ts, m_timeout = ts_timeout ts,
      m_test = test, m_type = ty, m_template_id = template_id, m_full_name = []\<rparr>"

definition TestCase_assign :: "test_case \<Rightarrow> test_case" where
  "TestCase_assign other = (if m_template_id other \<noteq> -1 then other\<lparr>m_name := m_full_name other\<rparr> else other)"

definition TestCase_name :: "string \<Rightarrow> test_case \<Rightarrow> test_case" where
  "TestCase_name inp tc =
     (let tc = tc\<lparr>m_name := inp\<rparr>
      in if m_template_id tc \<noteq> -1
         then let full = m_name tc @ ''<'' @ m_type tc @ ''>'' in tc\<lparr>m_full_name := full, m_name := full\<rparr>
         else tc)"

definition TestCase_less :: "test_case \<Rightarrow> test_case \<Rightarrow> bool" where
  "TestCase_less a b =
     (if m_line a \<noteq> m_line b then m_line a < m_line b
      else let name_cmp = strcmp (m_name a) (m_name b) in
        if name_cmp \<noteq> 0 then name_cmp < 0
        else let file_cmp = strcmp (m_file a) (m_file b) in
          if file_cmp \<noteq> 0 then file_cmp < 0
          else m_template_id a < m_template_id b)"

text \<open>\<open>std::set\<close> and \<open>std::map\<close>: a list in the order of the comparison; an element with an equivalent one in it is not inserted.\<close>

fun insert_ordered :: "('a \<Rightarrow> 'a \<Rightarrow> bool) \<Rightarrow> 'a \<Rightarrow> 'a list \<Rightarrow> 'a list" where
  "insert_ordered lt x [] = [x]"
| "insert_ordered lt x (y # ys) =
     (if lt x y then x # y # ys else if lt y x then y # insert_ordered lt x ys else y # ys)"

definition regTest :: "test_case \<Rightarrow> test_case list \<Rightarrow> test_case list" where
  "regTest tc registered = insert_ordered TestCase_less (TestCase_assign tc) registered"

definition reporter_key_less :: "reporter_key \<Rightarrow> reporter_key \<Rightarrow> bool" where
  "reporter_key_less a b \<longleftrightarrow> fst a < fst b \<or> (fst a = fst b \<and> strcmp (snd a) (snd b) < 0)"

definition registerReporterImpl :: "string \<Rightarrow> int \<Rightarrow> bool \<Rightarrow> reporter_key list \<times> reporter_key list \<Rightarrow>
    reporter_key list \<times> reporter_key list" where
  "registerReporterImpl name priority isReporter maps =
     (if isReporter then (insert_ordered reporter_key_less (priority, name) (fst maps), snd maps)
      else (fst maps, insert_ordered reporter_key_less (priority, name) (snd maps)))"

section \<open>Order\<close>

definition fileOrderComparator :: "test_case \<Rightarrow> test_case \<Rightarrow> bool" where
  "fileOrderComparator lhs rhs =
     (let res = strcmp (m_file lhs) (m_file rhs) in
      if res \<noteq> 0 then res < 0
      else if m_line lhs \<noteq> m_line rhs then m_line lhs < m_line rhs
      else m_template_id lhs < m_template_id rhs)"

definition suiteOrderComparator :: "test_case \<Rightarrow> test_case \<Rightarrow> bool" where
  "suiteOrderComparator lhs rhs =
     (let res = strcmp (m_test_suite lhs) (m_test_suite rhs) in
      if res \<noteq> 0 then res < 0 else fileOrderComparator lhs rhs)"

definition nameOrderComparator :: "test_case \<Rightarrow> test_case \<Rightarrow> bool" where
  "nameOrderComparator lhs rhs =
     (let res = strcmp (m_name lhs) (m_name rhs) in
      if res \<noteq> 0 then res < 0 else suiteOrderComparator lhs rhs)"

text \<open>\<open>std::sort\<close>, which leaves open the order of equivalent elements: here they keep theirs.\<close>

fun insert_sorted :: "('a \<Rightarrow> 'a \<Rightarrow> bool) \<Rightarrow> 'a \<Rightarrow> 'a list \<Rightarrow> 'a list" where
  "insert_sorted lt x [] = [x]"
| "insert_sorted lt x (y # ys) = (if lt y x then y # insert_sorted lt x ys else x # y # ys)"

definition std_sort :: "('a \<Rightarrow> 'a \<Rightarrow> bool) \<Rightarrow> 'a list \<Rightarrow> 'a list" where
  "std_sort lt xs = foldr (insert_sorted lt) xs []"

text \<open>The shuffle, from the last element down, with the numbers \<open>std::rand\<close> gives after \<open>std::srand\<close> of the seed.\<close>

fun shuffle_loop :: "(nat \<Rightarrow> nat) \<Rightarrow> nat \<Rightarrow> nat \<Rightarrow> 'a list \<Rightarrow> 'a list" where
  "shuffle_loop rnd k 0 xs = xs"
| "shuffle_loop rnd k (Suc i) xs =
     (let idxToSwap = rnd k mod (Suc i + 1); temp = xs ! Suc i
      in shuffle_loop rnd (k + 1) i (xs[Suc i := xs ! idxToSwap, idxToSwap := temp]))"

definition order_tests :: "(u32 \<Rightarrow> nat \<Rightarrow> nat) \<Rightarrow> context_options \<Rightarrow> test_case list \<Rightarrow> test_case list" where
  "order_tests rnd opts testArray =
     (if testArray = [] then []
      else if stricmp (opt_order_by opts) ''file'' = 0 then std_sort fileOrderComparator testArray
      else if stricmp (opt_order_by opts) ''suite'' = 0 then std_sort suiteOrderComparator testArray
      else if stricmp (opt_order_by opts) ''name'' = 0 then std_sort nameOrderComparator testArray
      else if stricmp (opt_order_by opts) ''rand'' = 0
      then shuffle_loop (rnd (opt_rand_seed opts)) 0 (length testArray - 1) testArray
      else testArray)"

section \<open>Running one test case\<close>

record test_environment =
  env_fp :: fp_ops
  env_clock :: "test_case \<Rightarrow> ticks \<times> ticks"
  env_rand :: "u32 \<Rightarrow> nat \<Rightarrow> nat"
  env_translators :: translators
  env_call :: "test_case \<Rightarrow> context_state \<Rightarrow> failure + body_outcome \<times> context_state"

text \<open>The body of the \<open>do\<close> loop; the truth value tells whether it goes on.\<close>

definition add_flag :: "i32 \<Rightarrow> context_state \<Rightarrow> context_state" where
  "add_flag f c = c\<lparr>case_data := (case_data c)\<lparr>failure_flags := failure_flags (case_data c) OR f\<rparr>\<rparr>"

definition enough_failures :: "context_state \<Rightarrow> i32 \<Rightarrow> bool" where
  "enough_failures c n \<longleftrightarrow> 0 <s opt_abort_after (ctx_options c) \<and> opt_abort_after (ctx_options c) \<le>s n"

definition prepare_run :: "context_state \<Rightarrow> context_state" where
  "prepare_run c = c\<lparr>reachedLeaf := False, subcaseStack := [], currentSubcaseDepth := 0,
     shouldLogCurrentException := True, stringifiedContexts := []\<rparr>"

definition catch_outcome :: "translators \<Rightarrow> body_outcome \<Rightarrow> context_state \<Rightarrow> context_state" where
  "catch_outcome ts out c =
     (case out of
        Returned \<Rightarrow> c
      | Test_failure \<Rightarrow> add_flag AssertFailure c
      | Thrown ex \<Rightarrow> add_flag Exception_thrown
          (iterate_reporters (Test_case_exception (translateActiveException ts ex) False) c))"

definition run_once :: "test_environment \<Rightarrow> test_case \<Rightarrow> context_state \<Rightarrow> failure + bool \<times> context_state" where
  "run_once env tc c =
     res_bind (env_call env tc (prepare_run c)) (\<lambda>(out, c).
     let c = catch_outcome (env_translators env) out c;
         enough = enough_failures c (numAssertsFailed (run_data c) + lanes_load (numAssertsFailedCurrentTest_atomic c));
         c = (if enough then add_flag TooManyFailedAsserts c else c);
         run_test = (\<not> enough);
         c = (if nextSubcaseStack c \<noteq> [] \<and> run_test then iterate_reporters (Test_case_reenter tc) c else c);
         run_test = (if nextSubcaseStack c = [] then False else run_test)
     in Inr (run_test, c))"

partial_function (option) test_loop :: "test_environment \<Rightarrow> test_case \<Rightarrow> context_state \<Rightarrow> (failure + context_state) option" where
  "test_loop env tc c =
     (case run_once env tc c of
        Inl e \<Rightarrow> Some (Inl e)
      | Inr p \<Rightarrow> if fst p then test_loop env tc (snd p) else Some (Inr (snd p)))"

definition start_test :: "test_environment \<Rightarrow> test_case \<Rightarrow> context_state \<Rightarrow> context_state" where
  "start_test env tc c =
     (let c = c\<lparr>currentTest := Some tc, case_data := (case_data c)\<lparr>failure_flags := Reason_None, seconds := 0\<rparr>,
            numAssertsFailedCurrentTest_atomic := lanes_store 0 (numAssertsFailedCurrentTest_atomic c),
            numAssertsCurrentTest_atomic := lanes_store 0 (numAssertsCurrentTest_atomic c),
            fullyTraversedSubcases := {}\<rparr>;
          c = iterate_reporters (Test_case_start tc) c
      in c\<lparr>timer := fst (env_clock env tc)\<rparr>)"

definition end_test :: "test_environment \<Rightarrow> test_case \<Rightarrow> context_state \<Rightarrow> failure + context_state" where
  "end_test env tc c =
     res_bind (finalizeTestCaseData (env_fp env) (snd (env_clock env tc)) c) (\<lambda>c.
       Inr ((iterate_reporters (Test_case_end (case_data c)) c)\<lparr>currentTest := None\<rparr>))"

definition run_test_case :: "test_environment \<Rightarrow> test_case \<Rightarrow> context_state \<Rightarrow> (failure + context_state) option" where
  "run_test_case env tc c =
     (case test_loop env tc (start_test env tc c) of
        None \<Rightarrow> None
      | Some (Inl e) \<Rightarrow> Some (Inl e)
      | Some (Inr c) \<Rightarrow> Some (end_test env tc c))"

section \<open>Running all of them\<close>

definition skip_me :: "test_case \<Rightarrow> context_state \<Rightarrow> bool" where
  "skip_me tc c \<longleftrightarrow>
     (let cs = opt_case_sensitive (ctx_options c) in
      (m_skip tc \<and> \<not> opt_no_skip (ctx_options c)) \<or>
      \<not> matchesAny (m_file tc) (filters c ! 0) True cs \<or> matchesAny (m_file tc) (filters c ! 1) False cs \<or>
      \<not> matchesAny (m_test_suite tc) (filters c ! 2) True cs \<or> matchesAny (m_test_suite tc) (filters c ! 3) False cs \<or>
      \<not> matchesAny (m_name tc) (filters c ! 4) True cs \<or> matchesAny (m_name tc) (filters c ! 5) False cs)"

definition out_of_range :: "context_options \<Rightarrow> u32 \<Rightarrow> bool" where
  "out_of_range opts rank \<longleftrightarrow> (opt_last opts < rank \<and> opt_first opts \<le> opt_last opts) \<or> opt_first opts > rank"

definition query_mode :: "context_options \<Rightarrow> bool" where
  "query_mode opts \<longleftrightarrow> opt_count opts \<or> opt_list_test_cases opts \<or> opt_list_test_suites opts"

definition count_passing :: "context_state \<Rightarrow> context_state" where
  "count_passing c = c\<lparr>run_data := (run_data c)\<lparr>numTestCasesPassingFilters := numTestCasesPassingFilters (run_data c) + 1\<rparr>\<rparr>"

text \<open>The loop over the tests, with the suites listed so far and the results of a query.\<close>

fun run_tests :: "test_environment \<Rightarrow> test_case list \<Rightarrow> string list \<Rightarrow> test_case list \<Rightarrow> context_state \<Rightarrow>
    (failure + test_case list \<times> context_state) option" where
  "run_tests env [] suites results c = Some (Inr (results, c))"
| "run_tests env (tc # rest) suites results c0 =
     (let filtered = skip_me tc c0;
          c = (if filtered then c0 else count_passing c0);
          skip = (filtered \<or> out_of_range (ctx_options c) (numTestCasesPassingFilters (run_data c)))
      in if skip
         then run_tests env rest suites results
           (if query_mode (ctx_options c) then c else iterate_reporters (Test_case_skipped tc) c)
         else if opt_count (ctx_options c) then run_tests env rest suites results c
         else if opt_list_test_cases (ctx_options c) then run_tests env rest suites (results @ [tc]) c
         else if opt_list_test_suites (ctx_options c)
         then if m_test_suite tc \<notin> set suites \<and> m_test_suite tc \<noteq> []
           then run_tests env rest (m_test_suite tc # suites) (results @ [tc])
             (c\<lparr>run_data := (run_data c)\<lparr>numTestSuitesPassingFilters := numTestSuitesPassingFilters (run_data c) + 1\<rparr>\<rparr>)
           else run_tests env rest suites results c
         else (case run_test_case env tc c of
             None \<Rightarrow> None
           | Some (Inl e) \<Rightarrow> Some (Inl e)
           | Some (Inr c) \<Rightarrow>
               if enough_failures c (numAssertsFailed (run_data c)) then Some (Inr (results, c))
               else run_tests env rest suites results c))"

section \<open>Context::run\<close>

text \<open>The globals of the framework; \<open>g_cs\<close> points to a context by its number.\<close>

record globals =
  g_cs :: "nat option"
  is_running_in_test :: bool
  g_no_colors :: bool

definition Context_destroy :: "nat \<Rightarrow> globals \<Rightarrow> globals" where
  "Context_destroy p g = (if g_cs g = Some p then g\<lparr>g_cs := None\<rparr> else g)"

definition setAsDefaultForAssertsOutOfTestCases :: "nat \<Rightarrow> globals \<Rightarrow> globals" where
  "setAsDefaultForAssertsOutOfTestCases p g = g\<lparr>g_cs := Some p\<rparr>"

definition choose_cout :: "context_state \<Rightarrow> context_state" where
  "choose_cout c =
     (if cout c = None
      then if opt_quiet (ctx_options c) then c\<lparr>cout := Some Discard_out\<rparr>
        else if opt_out (ctx_options c) \<noteq> [] then c\<lparr>cout := Some (File_out (opt_out (ctx_options c)))\<rparr>
        else c\<lparr>cout := Some Std_out\<rparr>
      else c)"

definition choose_reporters :: "reporter_key list \<times> reporter_key list \<Rightarrow> context_state \<Rightarrow> context_state" where
  "choose_reporters maps c0 =
     (let c = (if filters c0 ! 8 = [] then c0\<lparr>filters := (filters c0)[8 := [''console'']]\<rparr> else c0);
          selected = filter (\<lambda>k. matchesAny (snd k) (filters c ! 8) False (opt_case_sensitive (ctx_options c))) (fst maps)
      in c\<lparr>reporters_currently_used := rev (snd maps) @ reporters_currently_used c @ selected\<rparr>)"

definition cleanup_and_return :: "nat option \<Rightarrow> globals \<Rightarrow> context_state \<Rightarrow> int \<times> globals \<times> context_state" where
  "cleanup_and_return old_cs g c =
     (if numTestCasesFailed (run_data c) \<noteq> 0 \<and> \<not> opt_no_exitcode (ctx_options c) then 1 else 0,
      g\<lparr>g_cs := old_cs, is_running_in_test := False\<rparr>, c\<lparr>reporters_currently_used := []\<rparr>)"

definition prepare_all :: "reporter_key list \<times> reporter_key list \<Rightarrow> context_state \<Rightarrow> context_state" where
  "prepare_all maps c = choose_reporters maps (choose_cout (resetRunData c))"

definition Context_run :: "test_environment \<Rightarrow> test_case list \<Rightarrow> reporter_key list \<times> reporter_key list \<Rightarrow> nat \<Rightarrow> globals \<Rightarrow> context_state \<Rightarrow>
    (failure + int \<times> globals \<times> context_state) option" where
  "Context_run env registered maps p g0 c0 =
     (let old_cs = g_cs g0;
          g = g0\<lparr>g_cs := Some p, is_running_in_test := True, g_no_colors := opt_no_colors (ctx_options c0)\<rparr>;
          c = prepare_all maps c0;
          opts = ctx_options c
      in if opt_no_run opts \<or> opt_version opts \<or> opt_help opts \<or> opt_list_reporters opts
         then Some (Inr (cleanup_and_return old_cs g (iterate_reporters (Report_query None []) c)))
         else
           let c = c\<lparr>run_data := (run_data c)\<lparr>numTestCases := of_nat (length registered)\<rparr>\<rparr>;
               testArray = order_tests (env_rand env) opts registered;
               c = (if query_mode opts then c else iterate_reporters Test_run_start c)
           in case run_tests env testArray [] [] c of
                None \<Rightarrow> None
              | Some (Inl e) \<Rightarrow> Some (Inl e)
              | Some (Inr (results, c)) \<Rightarrow>
                  let c = (if query_mode opts then iterate_reporters (Report_query (Some (run_data c)) results) c
                           else iterate_reporters (Test_run_end (run_data c)) c)
                  in Some (Inr (cleanup_and_return old_cs g c)))"

end
