(* ===== verification/Doctest_Run_Properties.thy ===== *)
theory Doctest_Run_Properties
  imports Doctest_Run "HOL-Library.Multiset" "HOL-Library.Char_ord" "HOL-Library.List_Lexorder" "HOL-Library.Product_Lexorder"
begin

text \<open>
  What \<open>Context::run\<close> promises: the loop over the subcases of a test ends and takes every leaf once, the
  order of the tests is a permutation, a query lists what passes the filters, and the exit code tells
  of failures.
\<close>

section \<open>The loop over the subcases\<close>

text \<open>What a reporter hears of the subcases of one test case with the given leaves.\<close>

fun run_calls :: "test_case \<Rightarrow> subcase_signature list list \<Rightarrow> reporter_call list" where
  "run_calls tc [] = []"
| "run_calls tc [l] = path_calls l"
| "run_calls tc (l # m # ls) = path_calls l @ Test_case_reenter tc # run_calls tc (m # ls)"

definition prefixes :: "'a list list \<Rightarrow> 'a list set" where
  "prefixes ls = (\<Union>l \<in> set ls. (\<lambda>k. take k l) ` {1..length l})"

lemma frame_prepare: "frame (prepare_run c) = (True, reporters_currently_used c, filters c, ctx_options c)"
  by (simp add: frame_def prepare_run_def)

lemma subcase_state_prepare:
  "subcase_state r (prepare_run c) (prepare_run c) False [] (nextSubcaseStack c) (fullyTraversedSubcases c) 0 (hears r c)"
  by (simp add: subcase_state_def prepare_run_def hears_def)

lemma unfiltered_prepare: "unfiltered r (prepare_run c) = unfiltered r c"
  by (simp add: unfiltered_def prepare_run_def)

definition never_aborts :: "context_state \<Rightarrow> bool" where
  "never_aborts c \<longleftrightarrow> opt_abort_after (ctx_options c) \<le>s 0"

lemma never_enough: "never_aborts c \<Longrightarrow> \<not> enough_failures c n"
  by (auto simp: never_aborts_def enough_failures_def word_sless_alt word_sle_eq)

text \<open>One run of the body: it takes the first of the leaves that are left.\<close>

lemma run_once_leaf:
  assumes body: "env_call env tc = run_items items" and tree: "tree_shaped items" and quiet: "quiet_items r items"
    and un: "unfiltered r c" and never: "never_aborts c"
    and q: "nextSubcaseStack c = q" "node q items" "leaves_from q items = ls"
    and fresh: "fresh_paths (fullyTraversedSubcases c) [] ls"
  shows "\<exists>d. run_once env tc c = Inr (tl ls \<noteq> [], d) \<and> unfiltered r d \<and> never_aborts d \<and>
    hears r d = hears r c @ (case ls of [] \<Rightarrow> [] | l # ms \<Rightarrow> path_calls l @ (if ms = [] then [] else [Test_case_reenter tc])) \<and>
    (ls \<noteq> [] \<longrightarrow> fullyTraversedSubcases d \<subseteq> insert (hash_signatures (hd ls)) (fullyTraversedSubcases c)) \<and>
    node (nextSubcaseStack d) items \<and>
    (tl ls \<noteq> [] \<longrightarrow> leaves_from (nextSubcaseStack d) items = tl ls)"
proof -
  obtain d where run: "run_items items (prepare_run c) = Inr (Returned, d)"
    and after: "after_run r (prepare_run c) d [] q (fullyTraversedSubcases c) (hears r c) items ls"
    using run_to_leaf [of r "prepare_run c" "prepare_run c" "[]" q "fullyTraversedSubcases c" "hears r c" items q]
      subcase_state_prepare [of r c] quiet tree un q fresh by (auto simp: unfiltered_prepare)
  have state: "frame d = frame (prepare_run c)"
    using after by (auto simp: after_run_def subcase_state_def split: if_splits)
  then have un_d: "unfiltered r d" and never_d: "never_aborts d"
    using un never unfiltered_frame [OF state] unfiltered_prepare [of r c]
    by (auto simp: frame_def never_aborts_def prepare_run_def)
  have once: "run_once env tc c =
      Inr (nextSubcaseStack d \<noteq> [], if nextSubcaseStack d \<noteq> [] then iterate_reporters (Test_case_reenter tc) d else d)"
    using run never_enough [OF never_d]
    by (simp add: run_once_def body catch_outcome_def Let_def)
  define e where "e = (if nextSubcaseStack d \<noteq> [] then iterate_reporters (Test_case_reenter tc) d else d)"
  have e: "unfiltered r e" "never_aborts e" "nextSubcaseStack e = nextSubcaseStack d"
    "fullyTraversedSubcases e = fullyTraversedSubcases d"
    "hears r e = hears r d @ (if nextSubcaseStack d \<noteq> [] then [Test_case_reenter tc] else [])"
    using un_d never_d hears_iterate [OF un_d, of "Test_case_reenter tc"]
    by (auto simp: e_def is_subcase_call_def unfiltered_def never_aborts_def iterate_reporters_def)
  show ?thesis
  proof (cases "ls = []")
    case True
    then have d: "nextSubcaseStack d = q" "hears r d = hears r c"
      using after by (auto simp: after_run_def subcase_state_def)
    have "q = []" using True q leaves_from_node by blast
    then show ?thesis using True d e once un_d never_d by (auto simp: e_def)
  next
    case False
    then obtain nxt full where d: "subcase_state r (prepare_run c) d True (hd ls) nxt full 0 (hears r c @ path_calls (hd ls))"
        "full \<subseteq> insert (hash_signatures (hd ls)) (fullyTraversedSubcases c)" "next_node items (tl ls) [] nxt"
      using after by (auto simp: after_run_def)
    have nxt: "nextSubcaseStack d = nxt" "fullyTraversedSubcases d = full" "hears r d = hears r c @ path_calls (hd ls)"
      using d(1) by (simp_all add: subcase_state_def)
    have more: "nxt \<noteq> [] \<longleftrightarrow> tl ls \<noteq> []" "node nxt items" "tl ls \<noteq> [] \<longrightarrow> leaves_from nxt items = tl ls"
      using d(3) by (auto simp: next_node_def split: if_splits)
    from False obtain l ms where ls: "ls = l # ms" by (cases ls) auto
    show ?thesis
      using once e nxt more d(2) False unfolding e_def [symmetric] ls
      by (intro exI [of _ e]) auto
  qed
qed

lemma run_all_leaves:
  assumes body: "env_call env tc = run_items items" and tree: "tree_shaped items" and quiet: "quiet_items r items"
    and inj: "inj_on hash_signatures (prefixes (leaves items))"
  shows "unfiltered r c \<Longrightarrow> never_aborts c \<Longrightarrow> node (nextSubcaseStack c) items \<Longrightarrow>
    leaves_from (nextSubcaseStack c) items = ls \<Longrightarrow> distinct ls \<Longrightarrow>
    \<forall>l \<in> set ls. \<forall>k \<in> {1..length l}. hash_signatures (take k l) \<notin> fullyTraversedSubcases c \<Longrightarrow>
    \<exists>d. test_loop env tc c = Some (Inr d) \<and> hears r d = hears r c @ run_calls tc ls"
proof (induction ls arbitrary: c)
  case Nil
  from run_once_leaf [OF body tree quiet Nil(1,2) refl Nil(3,4)] obtain d
    where "run_once env tc c = Inr (False, d)" "hears r d = hears r c"
    by (auto simp: fresh_paths_def)
  then show ?case by (subst test_loop.simps) simp
next
  case (Cons l ms)
  have sub: "set (l # ms) \<subseteq> set (leaves items)"
    using leaves_from_sub [OF Cons.prems(3)] Cons.prems(4) by simp
  have other: "hash_signatures (take k m) \<noteq> hash_signatures l" if "m \<in> set ms" "k \<in> {1..length m}" for m k
  proof
    assume eq: "hash_signatures (take k m) = hash_signatures l"
    have mem: "m \<in> set (leaves items)" "l \<in> set (leaves items)" using that sub by auto
    have "l \<noteq> []" using mem leaves_nonempty by metis
    then have "take (length l) l \<in> prefixes (leaves items)"
      using mem(2) unfolding prefixes_def by (intro UN_I [of l] imageI) (auto simp: Suc_le_eq)
    moreover have "take k m \<in> prefixes (leaves items)"
      using mem that unfolding prefixes_def by blast
    ultimately have "take k m = l" using inj_onD [OF inj eq] by simp
    then have "take (length l) m = l" using that by auto
    then have "l = m" using leaves_prefix_free [OF tree] mem by blast
    then show False using Cons.prems(5) that by auto
  qed
  have fresh: "fresh_paths (fullyTraversedSubcases c) [] (l # ms)"
    using Cons.prems(6) other by (simp add: fresh_paths_def)
  from run_once_leaf [OF body tree quiet Cons.prems(1,2) refl Cons.prems(3,4) fresh] obtain d
    where d: "run_once env tc c = Inr (ms \<noteq> [], d)" "unfiltered r d" "never_aborts d"
      "hears r d = hears r c @ path_calls l @ (if ms = [] then [] else [Test_case_reenter tc])"
      "fullyTraversedSubcases d \<subseteq> insert (hash_signatures l) (fullyTraversedSubcases c)"
      "node (nextSubcaseStack d) items" "ms \<noteq> [] \<longrightarrow> leaves_from (nextSubcaseStack d) items = ms"
    by auto
  show ?case
  proof (cases "ms = []")
    case True
    then show ?thesis using d by (subst test_loop.simps) simp
  next
    case False
    have "\<forall>m \<in> set ms. \<forall>k \<in> {1..length m}. hash_signatures (take k m) \<notin> fullyTraversedSubcases d"
      using d(5) other Cons.prems(6) by auto
    with Cons.IH [OF d(2,3,6)] d(7) False Cons.prems(5) obtain e
      where "test_loop env tc d = Some (Inr e)" "hears r e = hears r d @ run_calls tc ms" by auto
    then show ?thesis using d(1,4) False by (subst test_loop.simps) (cases ms; simp)
  qed
qed

lemma hears_other: "\<not> is_subcase_call e \<Longrightarrow> hears r (iterate_reporters e c) = hears r c"
  by (simp add: hears_def iterate_reporters_def filter_map filter_empty_conv)

lemma start_test_fields:
  "reporters_currently_used (start_test env tc c) = reporters_currently_used c" "filters (start_test env tc c) = filters c"
  "ctx_options (start_test env tc c) = ctx_options c" "nextSubcaseStack (start_test env tc c) = nextSubcaseStack c"
  "fullyTraversedSubcases (start_test env tc c) = {}" "hears r (start_test env tc c) = hears r c"
proof -
  show "hears r (start_test env tc c) = hears r c"
    using hears_other [of "Test_case_start tc"] by (simp add: start_test_def Let_def is_subcase_call_def) (simp add: hears_def)
qed (simp_all add: start_test_def Let_def iterate_reporters_def)

text \<open>
  (C25) A test case whose body is a tree of subcases around statements that return and leave the subcases
  alone is run to its end: the loop stops, every path from the body to an innermost subcase is taken
  exactly once, in the order of the code, and each reporter hears the subcases of the path start and
  end, with a call of \<open>test_case_reenter\<close> between two runs. The paths must not collide under the hash by
  which the framework remembers those it has done, the subcase filters must be empty, and failures must
  not end the run.
\<close>

theorem every_leaf_once:
  assumes "env_call env tc = run_items items" and "tree_shaped items" and "quiet_items r items"
    and "inj_on hash_signatures (prefixes (leaves items))"
    and "unfiltered r c" and "opt_abort_after (ctx_options c) \<le>s 0" and "nextSubcaseStack c = []"
  shows "\<exists>d. test_loop env tc (start_test env tc c) = Some (Inr d) \<and>
    hears r d = hears r c @ run_calls tc (leaves items) \<and> distinct (leaves items)"
proof -
  let ?s = "start_test env tc c"
  have s: "unfiltered r ?s" "never_aborts ?s" "nextSubcaseStack ?s = []" "fullyTraversedSubcases ?s = {}" "hears r ?s = hears r c"
    using assms(5-7) by (simp_all add: start_test_fields unfiltered_def never_aborts_def)
  have "distinct (leaves items)" using leaves_prefix_free [OF assms(2)] by blast
  with run_all_leaves [OF assms(1-4) s(1,2), of "leaves items"] s(3-5) show ?thesis by simp
qed

definition sample_sig :: "string \<Rightarrow> subcase_signature" where
  "sample_sig s = \<lparr>sig_name = s, sig_file = ''f'', sig_line = 1\<rparr>"

definition sample_items :: "item list" where
  "sample_items = [Sub (sample_sig ''a'') [Sub (sample_sig ''b'') [], Sub (sample_sig ''c'') []], Sub (sample_sig ''d'') []]"

definition sample_environment :: test_environment where
  "sample_environment = \<lparr>env_fp = sample_fp, env_clock = (\<lambda>tc. (0, 0)), env_rand = (\<lambda>seed k. k * 7919 + unat seed),
     env_translators = [], env_call = (\<lambda>tc. run_items sample_items)\<rparr>"

definition sample_reporter :: reporter_key where
  "sample_reporter = (0, ''console'')"

definition sample_run_context :: context_state where
  "sample_run_context = sample_context\<lparr>reporters_currently_used := [sample_reporter]\<rparr>"

theorem every_leaf_once_witness:
  "\<exists>d. test_loop sample_environment sample_case (start_test sample_environment sample_case sample_run_context) = Some (Inr d) \<and>
    hears sample_reporter d =
      [Subcase_start (sample_sig ''a''), Subcase_start (sample_sig ''b''), Subcase_end, Subcase_end, Test_case_reenter sample_case,
       Subcase_start (sample_sig ''a''), Subcase_start (sample_sig ''c''), Subcase_end, Subcase_end, Test_case_reenter sample_case,
       Subcase_start (sample_sig ''d''), Subcase_end]"
proof -
  have leaves: "leaves sample_items = map (map sample_sig) [[''a'', ''b''], [''a'', ''c''], [''d'']]"
    by (simp add: sample_items_def)
  have "distinct (map hash_signatures (map (map sample_sig) [[''a''], [''a'', ''b''], [''a'', ''c''], [''d'']]))"
    by code_simp
  moreover have "prefixes (leaves sample_items) = set (map (map sample_sig) [[''a''], [''a'', ''b''], [''a'', ''c''], [''d'']])"
    unfolding leaves prefixes_def by (simp add: atLeastAtMost_insertL [symmetric] numeral_2_eq_2 atLeastAtMostSuc_conv) blast
  ultimately have inj: "inj_on hash_signatures (prefixes (leaves sample_items))"
    by (simp only: distinct_map)
  have tree: "tree_shaped sample_items" and quiet: "quiet_items sample_reporter sample_items"
    by (simp_all add: sample_items_def sample_sig_def c_signature_def)
  have "unfiltered sample_reporter sample_run_context" "opt_abort_after (ctx_options sample_run_context) \<le>s 0"
    "nextSubcaseStack sample_run_context = []" "hears sample_reporter sample_run_context = []"
    by (simp_all add: unfiltered_def sample_run_context_def sample_context_def sample_options_def hears_def)
  with every_leaf_once [OF _ tree quiet inj, of sample_environment sample_case sample_run_context] show ?thesis
    by (auto simp: sample_environment_def leaves path_calls_def numeral_2_eq_2)
qed

section \<open>The order of the tests\<close>

lemma mset_insert_sorted: "mset (insert_sorted lt x xs) = add_mset x (mset xs)"
  by (induction xs) auto

lemma mset_std_sort: "mset (std_sort lt xs) = mset xs"
  by (induction xs) (simp_all add: std_sort_def mset_insert_sorted)

lemma set_std_sort: "set (std_sort lt xs) = set xs"
  using mset_std_sort [THEN mset_eq_setD] .

lemma mset_shuffle: "i < length xs \<Longrightarrow> mset (shuffle_loop rnd k i xs) = mset xs"
proof (induction rnd k i xs rule: shuffle_loop.induct)
  case (2 rnd k i xs)
  have "rnd k mod (Suc i + 1) < length xs"
    using "2.prems" mod_less_divisor [of "Suc i + 1" "rnd k"] by linarith
  then have "mset (xs[Suc i := xs ! (rnd k mod (Suc i + 1)), rnd k mod (Suc i + 1) := xs ! Suc i]) = mset xs"
    using "2.prems" by (intro mset_swap) auto
  with "2.IH" [OF refl refl] "2.prems" show ?case by (simp add: Let_def)
qed simp

lemma mset_order_tests: "mset (order_tests rnd opts ts) = mset ts"
  by (simp add: order_tests_def mset_std_sort mset_shuffle)

lemma set_order_tests: "set (order_tests rnd opts ts) = set ts"
  using mset_order_tests [THEN mset_eq_setD] .

text \<open>A comparison that is the order of a key: the sort puts the keys in order.\<close>

lemma sorted_insert:
  fixes key :: "'a \<Rightarrow> 'k :: linorder"
  assumes "\<And>a b. a \<in> insert x (set xs) \<Longrightarrow> b \<in> insert x (set xs) \<Longrightarrow> lt a b \<longleftrightarrow> key a < key b" and "sorted (map key xs)"
  shows "sorted (map key (insert_sorted lt x xs))"
  using assms
proof (induction xs)
  case (Cons y ys)
  have "set (insert_sorted lt x ys) = insert x (set ys)"
    using mset_insert_sorted [of lt x ys, THEN arg_cong [of _ _ set_mset]] by simp
  with Cons show ?case by (auto simp: not_less)
qed simp

lemma sorted_std_sort:
  fixes key :: "'a \<Rightarrow> 'k :: linorder"
  assumes "\<And>a b. a \<in> set xs \<Longrightarrow> b \<in> set xs \<Longrightarrow> lt a b \<longleftrightarrow> key a < key b"
  shows "sorted (map key (std_sort lt xs))"
  using assms
proof (induction xs)
  case (Cons x xs)
  have "std_sort lt (x # xs) = insert_sorted lt x (std_sort lt xs)" by (simp add: std_sort_def)
  with Cons sorted_insert [of x "std_sort lt xs" lt key] show ?case by (simp add: set_std_sort)
qed (simp add: std_sort_def)

definition no_nul :: "string \<Rightarrow> bool" where
  "no_nul s \<longleftrightarrow> CHR 0x00 \<notin> set s"

definition c_texts :: "test_case \<Rightarrow> bool" where
  "c_texts tc \<longleftrightarrow> no_nul (m_file tc) \<and> no_nul (m_name tc) \<and> no_nul (m_test_suite tc)"

lemma strcmp_less: "no_nul a \<Longrightarrow> no_nul b \<Longrightarrow> strcmp a b < 0 \<longleftrightarrow> a < b"
  unfolding no_nul_def
  by (induction a b rule: strcmp.induct) (auto simp: of_char_positive less_char_def simp del: of_nat_of_char)

definition file_key :: "test_case \<Rightarrow> string \<times> u32 \<times> int" where
  "file_key tc = (m_file tc, m_line tc, m_template_id tc)"

definition suite_key :: "test_case \<Rightarrow> string \<times> string \<times> u32 \<times> int" where
  "suite_key tc = (m_test_suite tc, file_key tc)"

definition name_key :: "test_case \<Rightarrow> string \<times> string \<times> string \<times> u32 \<times> int" where
  "name_key tc = (m_name tc, suite_key tc)"

lemma strcmp_key: "no_nul a \<Longrightarrow> no_nul b \<Longrightarrow> (let res = strcmp a b in if res \<noteq> 0 then res < 0 else P) \<longleftrightarrow> a < b \<or> a = b \<and> P"
  using strcmp_less [of a b] strcmp_eq [of a b] by (auto simp: no_nul_def Let_def)

lemma lex_pair: "(x, y) < (x', y') \<longleftrightarrow> x < x' \<or> x = x' \<and> y < y'" for x :: "'k :: linorder" and y :: "'l :: linorder"
  by (auto simp: less_le)

lemma lex_if: "(if x \<noteq> y then x < y else P) \<longleftrightarrow> x < y \<or> x = y \<and> P" for x :: "'k :: linorder"
  by auto

lemma comparators:
  assumes "c_texts a" and "c_texts b"
  shows "fileOrderComparator a b \<longleftrightarrow> file_key a < file_key b"
    and "suiteOrderComparator a b \<longleftrightarrow> suite_key a < suite_key b"
    and "nameOrderComparator a b \<longleftrightarrow> name_key a < name_key b"
proof -
  note texts = assms [unfolded c_texts_def]
  show "fileOrderComparator a b \<longleftrightarrow> file_key a < file_key b"
    unfolding fileOrderComparator_def file_key_def lex_pair
    by (subst strcmp_key) (simp_all only: texts lex_if)
  then show "suiteOrderComparator a b \<longleftrightarrow> suite_key a < suite_key b"
    unfolding suiteOrderComparator_def suite_key_def lex_pair
    by (subst strcmp_key) (simp_all only: texts)
  then show "nameOrderComparator a b \<longleftrightarrow> name_key a < name_key b"
    unfolding nameOrderComparator_def name_key_def lex_pair
    by (subst strcmp_key) (simp_all only: texts)
qed

text \<open>
  Whatever the order asked for and the random numbers, the tests that are run are those registered,
  each as often: nothing is lost or run twice. Asked for by file, suite or name they come in the
  lexicographic order of file, line and template, with the suite or the name and suite before these.
\<close>

theorem order_is_permutation:
  assumes "list_all c_texts ts"
  shows "mset (order_tests rnd opts ts) = mset ts \<and>
    (stricmp (opt_order_by opts) ''file'' = 0 \<longrightarrow> sorted (map file_key (order_tests rnd opts ts))) \<and>
    (opt_order_by opts = ''suite'' \<longrightarrow> sorted (map suite_key (order_tests rnd opts ts))) \<and>
    (opt_order_by opts = ''name'' \<longrightarrow> sorted (map name_key (order_tests rnd opts ts)))"
proof -
  have c: "a \<in> set ts \<Longrightarrow> c_texts a" for a using assms by (simp add: list_all_iff)
  have "sorted (map file_key (std_sort fileOrderComparator ts))" "sorted (map suite_key (std_sort suiteOrderComparator ts))"
    "sorted (map name_key (std_sort nameOrderComparator ts))"
    by (rule sorted_std_sort, simp add: comparators c)+
  moreover have "char_int (tolower CHR ''s'') \<noteq> char_int (tolower CHR ''f'')" "char_int (tolower CHR ''n'') \<noteq> char_int (tolower CHR ''f'')"
    "char_int (tolower CHR ''n'') \<noteq> char_int (tolower CHR ''s'')" by code_simp+
  ultimately show ?thesis
    by (cases "ts = []") (simp_all add: mset_order_tests, simp_all add: order_tests_def)
qed

theorem order_is_permutation_witness:
  "order_tests (\<lambda>s k. 0) (sample_options\<lparr>opt_order_by := ''name''\<rparr>)
     [sample_case\<lparr>m_name := ''b''\<rparr>, sample_case\<lparr>m_name := ''a'', m_line := 9\<rparr>, sample_case\<lparr>m_name := ''a''\<rparr>] =
     [sample_case\<lparr>m_name := ''a''\<rparr>, sample_case\<lparr>m_name := ''a'', m_line := 9\<rparr>, sample_case\<lparr>m_name := ''b''\<rparr>] \<and>
   sorted (map name_key (order_tests (\<lambda>s k. 0) (sample_options\<lparr>opt_order_by := ''name''\<rparr>)
     [sample_case\<lparr>m_name := ''b''\<rparr>, sample_case\<lparr>m_name := ''a'', m_line := 9\<rparr>, sample_case\<lparr>m_name := ''a''\<rparr>]))"
proof (rule conjI, code_simp)
  have "list_all c_texts [sample_case\<lparr>m_name := ''b''\<rparr>, sample_case\<lparr>m_name := ''a'', m_line := 9\<rparr>, sample_case\<lparr>m_name := ''a''\<rparr>]"
    by (simp add: c_texts_def no_nul_def sample_case_def)
  from order_is_permutation [OF this, where rnd = "\<lambda>s k. 0" and opts = "sample_options\<lparr>opt_order_by := ''name''\<rparr>"]
  show "sorted (map name_key (order_tests (\<lambda>s k. 0) (sample_options\<lparr>opt_order_by := ''name''\<rparr>)
     [sample_case\<lparr>m_name := ''b''\<rparr>, sample_case\<lparr>m_name := ''a'', m_line := 9\<rparr>, sample_case\<lparr>m_name := ''a''\<rparr>]))"
    by simp
qed

section \<open>The tests chosen\<close>

text \<open>
  What the filters ask for: a text is wanted if it matches one of the patterns given, or none is given,
  and no pattern of those to leave out.
\<close>

definition wanted :: "bool \<Rightarrow> string list \<Rightarrow> string list \<Rightarrow> string \<Rightarrow> bool" where
  "wanted cs incl excl s \<longleftrightarrow> (incl = [] \<or> (\<exists>p \<in> set incl. glob cs p s)) \<and> \<not> (\<exists>p \<in> set excl. glob cs p s)"

definition chosen :: "context_state \<Rightarrow> test_case \<Rightarrow> bool" where
  "chosen c tc \<longleftrightarrow>
     (let cs = opt_case_sensitive (ctx_options c) in
      (m_skip tc \<longrightarrow> opt_no_skip (ctx_options c)) \<and> wanted cs (filters c ! 0) (filters c ! 1) (m_file tc) \<and>
      wanted cs (filters c ! 2) (filters c ! 3) (m_test_suite tc) \<and> wanted cs (filters c ! 4) (filters c ! 5) (m_name tc))"

lemma matchesAny_glob: "matchesAny s fs me cs = (if fs = [] then me else \<exists>p \<in> set fs. glob cs p s)"
  by (auto simp: matchesAny_def wildcmp_decides_glob list_ex_iff)

lemma skip_me_chosen: "skip_me tc c \<longleftrightarrow> \<not> chosen c tc"
  by (auto simp: skip_me_def chosen_def wanted_def matchesAny_glob Let_def)

definition settings :: "context_state \<Rightarrow> reporter_key list \<times> string list list \<times> context_options" where
  "settings c = (reporters_currently_used c, filters c, ctx_options c)"

lemma chosen_settings: "settings c = settings d \<Longrightarrow> chosen c tc = chosen d tc"
  by (simp add: settings_def chosen_def)

lemma settings_iterate [simp]: "settings (iterate_reporters e c) = settings c"
  by (simp add: settings_def iterate_reporters_def)

lemma settings_count [simp]: "settings (count_passing c) = settings c"
  by (simp add: settings_def count_passing_def)

lemma prepare_all_fields:
  "ctx_options (prepare_all maps c) = ctx_options c" "chosen (prepare_all maps c) = chosen c"
  "reports (prepare_all maps c) = reports c" "numTestCasesPassingFilters (run_data (prepare_all maps c)) = 0"
  "numTestCasesFailed (run_data (prepare_all maps c)) = 0" "numAssertsFailed (run_data (prepare_all maps c)) = 0"
  "nextSubcaseStack (prepare_all maps c) = nextSubcaseStack c"
  by (simp_all add: fun_eq_iff prepare_all_def choose_reporters_def choose_cout_def resetRunData_def Let_def chosen_def)

lemma run_tests_listing:
  assumes "opt_list_test_cases (ctx_options c)" and "\<not> opt_count (ctx_options c)"
    and "numTestCasesPassingFilters (run_data c) = of_nat n"
  shows "run_tests env ts suites results c =
    Some (Inr (results @ map snd (filter (\<lambda>p. \<not> out_of_range (ctx_options c) (of_nat (fst p))) (enumerate (Suc n) (filter (chosen c) ts))),
      c\<lparr>run_data := (run_data c)\<lparr>numTestCasesPassingFilters := of_nat (n + length (filter (chosen c) ts))\<rparr>\<rparr>))"
  using assms
proof (induction ts arbitrary: c n results)
  case (Cons tc ts)
  show ?case
  proof (cases "chosen c tc")
    case True
    let ?c = "count_passing c"
    have c: "ctx_options ?c = ctx_options c" "chosen ?c = chosen c"
      "numTestCasesPassingFilters (run_data ?c) = of_nat (Suc n)"
      using Cons.prems(3) by (simp_all add: count_passing_def chosen_def fun_eq_iff)
    from Cons.IH [of ?c "Suc n"] Cons.prems True c show ?thesis
      by (simp add: skip_me_chosen query_mode_def Let_def enumerate_Suc_eq)
         (simp add: count_passing_def)
  next
    case False
    with Cons show ?thesis by (simp add: skip_me_chosen query_mode_def Let_def)
  qed
qed simp

definition normal_run :: "context_options \<Rightarrow> bool" where
  "normal_run opts \<longleftrightarrow> \<not> opt_no_run opts \<and> \<not> opt_version opts \<and> \<not> opt_help opts \<and> \<not> opt_list_reporters opts"

text \<open>
  Asked to list the test cases, a run executes none of them: it tells every reporter, once and with nothing
  else, exactly the tests the filters choose whose rank among the chosen ones is within the range, in the order
  asked for, with the number of tests and of those chosen. It returns success and restores the context.
\<close>

theorem list_mode_lists_chosen:
  fixes env :: test_environment and registered :: "test_case list"
  assumes "normal_run (ctx_options c)" and "opt_list_test_cases (ctx_options c)" and "\<not> opt_count (ctx_options c)"
  defines "selected \<equiv> filter (chosen c) (order_tests (env_rand env) (ctx_options c) registered)"
  shows "\<exists>d. Context_run env registered maps p g c =
      Some (Inr (0, g\<lparr>is_running_in_test := False, g_no_colors := opt_no_colors (ctx_options c)\<rparr>, d)) \<and>
    reports d = reports c @ map (\<lambda>r. (r, Report_query
        (Some \<lparr>numTestCases = of_nat (length registered), numTestCasesPassingFilters = of_nat (length selected),
           numTestSuitesPassingFilters = 0, numTestCasesFailed = 0, numAsserts = 0, numAssertsFailed = 0\<rparr>)
        (map snd (filter (\<lambda>q. \<not> out_of_range (ctx_options c) (of_nat (fst q))) (enumerate 1 selected)))))
      (reporters_currently_used (prepare_all maps c))"
proof -
  let ?c = "prepare_all maps c"
  define e where "e = ?c\<lparr>run_data := (run_data ?c)\<lparr>numTestCases := of_nat (length registered)\<rparr>\<rparr>"
  have e: "ctx_options e = ctx_options c" "chosen e = chosen c" "numTestCasesPassingFilters (run_data e) = of_nat 0"
    "reports e = reports c" "reporters_currently_used e = reporters_currently_used ?c"
    "run_data e = \<lparr>numTestCases = of_nat (length registered), numTestCasesPassingFilters = 0,
       numTestSuitesPassingFilters = 0, numTestCasesFailed = 0, numAsserts = 0, numAssertsFailed = 0\<rparr>"
    using prepare_all_fields [of maps c]
    by (simp_all add: e_def fun_eq_iff chosen_def Let_def)
       (simp add: prepare_all_def choose_reporters_def choose_cout_def resetRunData_def Let_def)
  note listing = run_tests_listing [of e 0 env "order_tests (env_rand env) (ctx_options c) registered" "[]" "[]",
    unfolded e(1,2), OF assms(2,3) e(3), folded selected_def]
  show ?thesis
    using assms(1,2) listing e(4,5,6)
    unfolding Context_run_def Let_def prepare_all_fields e_def [symmetric]
    by (simp add: normal_run_def query_mode_def cleanup_and_return_def iterate_reporters_def)
qed

definition sample_tests :: "test_case list" where
  "sample_tests = [sample_case\<lparr>m_name := ''prints''\<rparr>, sample_case, sample_case\<lparr>m_name := ''parses all'', m_line := 3\<rparr>]"

definition listing_context :: context_state where
  "listing_context = sample_context\<lparr>
     ctx_options := sample_options\<lparr>opt_list_test_cases := True\<rparr>, filters := (replicate 9 [])[4 := [''pars*'']]\<rparr>"

theorem list_mode_lists_chosen_witness:
  "\<exists>d. Context_run sample_environment sample_tests ([sample_reporter], []) 0 \<lparr>g_cs = None, is_running_in_test = False, g_no_colors = False\<rparr>
       listing_context = Some (Inr (0, \<lparr>g_cs = None, is_running_in_test = False, g_no_colors = False\<rparr>, d)) \<and>
     reports d = [(sample_reporter, Report_query
       (Some \<lparr>numTestCases = 3, numTestCasesPassingFilters = 2, numTestSuitesPassingFilters = 0, numTestCasesFailed = 0,
          numAsserts = 0, numAssertsFailed = 0\<rparr>)
       [sample_case\<lparr>m_name := ''parses all'', m_line := 3\<rparr>, sample_case])]"
proof -
  have pre: "normal_run (ctx_options listing_context)" "opt_list_test_cases (ctx_options listing_context)"
    "\<not> opt_count (ctx_options listing_context)"
    by (simp_all add: normal_run_def listing_context_def sample_options_def)
  have "filter (chosen listing_context) (order_tests (env_rand sample_environment) (ctx_options listing_context) sample_tests) =
      [sample_case\<lparr>m_name := ''parses all'', m_line := 3\<rparr>, sample_case]"
    by code_simp
  moreover have "map snd (filter (\<lambda>q. \<not> out_of_range (ctx_options listing_context) (of_nat (fst q)))
      (enumerate 1 [sample_case\<lparr>m_name := ''parses all'', m_line := 3\<rparr>, sample_case])) =
      [sample_case\<lparr>m_name := ''parses all'', m_line := 3\<rparr>, sample_case]"
    by code_simp
  moreover have "reporters_currently_used (prepare_all ([sample_reporter], []) listing_context) = [sample_reporter]"
    "reports listing_context = []"
    by code_simp+
  moreover have "length sample_tests = 3" by (simp add: sample_tests_def)
  moreover have "opt_no_colors (ctx_options listing_context) = False"
    by (simp add: listing_context_def sample_options_def)
  ultimately show ?thesis
    using list_mode_lists_chosen [OF pre, of sample_environment sample_tests "([sample_reporter], [])" 0
        "\<lparr>g_cs = None, is_running_in_test = False, g_no_colors = False\<rparr>"]
    by (simp only:) simp
qed

section \<open>Every test is reported, and the exit code\<close>

text \<open>The calls about whole test cases a reporter hears, and the tests with whether they are run.\<close>

definition is_case_call :: "reporter_call \<Rightarrow> bool" where
  "is_case_call e = (case e of Test_run_start \<Rightarrow> True | Test_run_end st \<Rightarrow> True | Test_case_start tc \<Rightarrow> True
     | Test_case_end st \<Rightarrow> True | Test_case_skipped tc \<Rightarrow> True | Report_query st res \<Rightarrow> True | _ \<Rightarrow> False)"

definition case_calls :: "reporter_key \<Rightarrow> context_state \<Rightarrow> reporter_call list" where
  "case_calls r c = filter is_case_call (map snd (filter (\<lambda>p. fst p = r) (reports c)))"

fun plan :: "context_state \<Rightarrow> u32 \<Rightarrow> test_case list \<Rightarrow> (test_case \<times> bool) list" where
  "plan c n [] = []"
| "plan c n (tc # ts) =
     (let n' = (if chosen c tc then n + 1 else n)
      in (tc, chosen c tc \<and> \<not> out_of_range (ctx_options c) n') # plan c n' ts)"

fun play :: "(test_case \<times> bool) list \<Rightarrow> test_case_stats list \<Rightarrow> reporter_call list" where
  "play [] sts = []"
| "play ((tc, False) # pl) sts = Test_case_skipped tc # play pl sts"
| "play ((tc, True) # pl) [] = []"
| "play ((tc, True) # pl) (st # sts) = Test_case_start tc # Test_case_end st # play pl sts"

definition failed_cases :: "test_case_stats list \<Rightarrow> nat" where
  "failed_cases sts = length (filter (\<lambda>st. \<not> testCaseSuccess st) sts)"

text \<open>
  The failed assertions of the tests run, and when they reach the number \<open>abort_after\<close> if it is positive. The
  tests a run accounts for end with the first at which they do; without such a test they are all.
\<close>

definition failed_asserts :: "test_case_stats list \<Rightarrow> i32" where
  "failed_asserts sts = sum_list (map numAssertsFailedCurrentTest sts)"

definition reached :: "i32 \<Rightarrow> i32 \<Rightarrow> bool" where
  "reached n failed \<longleftrightarrow> 0 <s n \<and> n \<le>s failed"

definition breaks_off :: "i32 \<Rightarrow> (test_case \<times> bool) list \<Rightarrow> test_case_stats list \<Rightarrow> (test_case \<times> bool) list \<Rightarrow> bool" where
  "breaks_off n told sts untold \<longleftrightarrow>
     length sts = length (filter snd told) \<and>
     (\<forall>k < length sts. \<not> reached n (failed_asserts (take k sts))) \<and>
     (untold \<noteq> [] \<longrightarrow> reached n (failed_asserts sts)) \<and>
     (reached n (failed_asserts sts) \<longrightarrow> told \<noteq> [] \<and> snd (last told))"

lemma enough_reached: "enough_failures c n = reached (opt_abort_after (ctx_options c)) n"
  by (simp add: enough_failures_def reached_def)

text \<open>
  The loop over the subcases of every test ends, under the settings of the run, in a state that has no
  subcase left to follow, or because enough assertions have failed; the test leaves the settings, the
  counters of the run and the calls about test cases alone.
\<close>

definition finishes :: "reporter_key \<Rightarrow> test_environment \<Rightarrow> context_state \<Rightarrow> bool" where
  "finishes r env c0 \<longleftrightarrow> (\<forall>tc c. settings c = settings c0 \<and> nextSubcaseStack c = [] \<and> currentTest c = Some tc \<longrightarrow>
     (\<exists>d. test_loop env tc c = Some (Inr d) \<and> settings d = settings c0 \<and>
        (nextSubcaseStack d = [] \<or>
         enough_failures d (numAssertsFailed (run_data d) + lanes_load (numAssertsFailedCurrentTest_atomic d))) \<and>
        currentTest d = Some tc \<and> run_data d = run_data c \<and> case_calls r d = case_calls r c))"

lemma case_calls_iterate:
  "distinct (reporters_currently_used c) \<Longrightarrow> r \<in> set (reporters_currently_used c) \<Longrightarrow> is_case_call e \<Longrightarrow>
   case_calls r (iterate_reporters e c) = case_calls r c @ [e]"
  by (simp add: case_calls_def iterate_reporters_def filter_single)

lemma run_test_case_reported:
  assumes "finishes r env c0" and "settings c = settings c0" and "nextSubcaseStack c = []"
    and "distinct (reporters_currently_used c0)" and "r \<in> set (reporters_currently_used c0)"
  shows "\<exists>d st. run_test_case env tc c = Some (Inr d) \<and> settings d = settings c0 \<and>
    (nextSubcaseStack d = [] \<or> enough_failures d (numAssertsFailed (run_data d))) \<and>
    case_calls r d = case_calls r c @ [Test_case_start tc, Test_case_end st] \<and>
    numTestCasesPassingFilters (run_data d) = numTestCasesPassingFilters (run_data c) \<and>
    numAssertsFailed (run_data d) = numAssertsFailed (run_data c) + numAssertsFailedCurrentTest st \<and>
    numTestCasesFailed (run_data d) = numTestCasesFailed (run_data c) + of_nat (failed_cases [st])"
proof -
  let ?s = "start_test env tc c"
  have rs: "reporters_currently_used c = reporters_currently_used c0" using assms(2) by (simp add: settings_def)
  have s: "settings ?s = settings c0" "nextSubcaseStack ?s = []" "currentTest ?s = Some tc" "run_data ?s = run_data c"
    using assms(2,3) by (simp_all add: start_test_fields settings_def)
       (simp_all add: start_test_def Let_def iterate_reporters_def)
  have heard: "case_calls r ?s = case_calls r c @ [Test_case_start tc]"
    using assms(4,5) rs by (simp add: start_test_def Let_def case_calls_def iterate_reporters_def filter_single is_case_call_def)
  let ?failed = "\<lambda>d. numAssertsFailed (run_data d) + lanes_load (numAssertsFailedCurrentTest_atomic d)"
  obtain d where d: "test_loop env tc ?s = Some (Inr d)" "settings d = settings c0"
      "nextSubcaseStack d = [] \<or> enough_failures d (?failed d)"
      "currentTest d = Some tc" "run_data d = run_data c" "case_calls r d = case_calls r c @ [Test_case_start tc]"
    using assms(1) s heard unfolding finishes_def by metis
  obtain e where e: "finalizeTestCaseData (env_fp env) (snd (env_clock env tc)) d = Inr e" "settings e = settings d"
      "nextSubcaseStack e = nextSubcaseStack d" "case_calls r e = case_calls r d" "numAssertsFailed (run_data e) = ?failed d"
      "numAssertsFailed (run_data e) = numAssertsFailed (run_data d) + numAssertsFailedCurrentTest (case_data e)"
      "numTestCasesPassingFilters (run_data e) = numTestCasesPassingFilters (run_data d)"
      "numTestCasesFailed (run_data e) = numTestCasesFailed (run_data d) + of_nat (failed_cases [case_data e])"
    using d(4) by (auto simp: finalizeTestCaseData_def Let_def settings_def case_calls_def failed_cases_def)
  have re: "reporters_currently_used e = reporters_currently_used c0" using e(2) d(2) by (simp add: settings_def)
  define f where "f = (iterate_reporters (Test_case_end (case_data e)) e)\<lparr>currentTest := None\<rparr>"
  have "case_calls r f = case_calls r e @ [Test_case_end (case_data e)]"
    using case_calls_iterate [of e r "Test_case_end (case_data e)"] assms(4,5) re by (simp add: f_def is_case_call_def case_calls_def)
  moreover have f: "settings f = settings e" "nextSubcaseStack f = nextSubcaseStack e" "run_data f = run_data e"
    by (simp_all add: f_def settings_def iterate_reporters_def)
  moreover have "run_test_case env tc c = Some (Inr f)"
    using d(1) e(1) by (simp add: run_test_case_def end_test_def f_def)
  moreover have "enough_failures f n = enough_failures d n" for n
    using f(1) e(2) by (simp add: enough_failures_def settings_def)
  ultimately show ?thesis
    using d e by (intro exI [of _ f] exI [of _ "case_data e"]) simp
qed

lemma failed_cases_Cons: "failed_cases (st # sts) = failed_cases [st] + failed_cases sts"
  by (simp add: failed_cases_def)

lemma failed_asserts_simps [simp]:
  "failed_asserts [] = 0" "failed_asserts (st # sts) = numAssertsFailedCurrentTest st + failed_asserts sts"
  by (simp_all add: failed_asserts_def)

lemma settings_iff:
  "settings c = settings d \<longleftrightarrow> reporters_currently_used c = reporters_currently_used d \<and> filters c = filters d \<and>
    ctx_options c = ctx_options d"
  by (simp add: settings_def)

text \<open>The same from a number of assertions that have failed before.\<close>

definition breaks_off_from :: "i32 \<Rightarrow> i32 \<Rightarrow> (test_case \<times> bool) list \<Rightarrow> test_case_stats list \<Rightarrow> (test_case \<times> bool) list \<Rightarrow> bool" where
  "breaks_off_from before n told sts untold \<longleftrightarrow>
     length sts = length (filter snd told) \<and>
     (\<forall>k < length sts. \<not> reached n (before + failed_asserts (take k sts))) \<and>
     (untold \<noteq> [] \<longrightarrow> reached n (before + failed_asserts sts)) \<and>
     (reached n (before + failed_asserts sts) \<longrightarrow> told \<noteq> [] \<and> snd (last told))"

lemma breaks_off_skip: "breaks_off_from b n told sts untold \<Longrightarrow> breaks_off_from b n ((tc, False) # told) sts untold"
  by (auto simp: breaks_off_from_def)

lemma breaks_off_run:
  assumes "\<not> reached n b" and "breaks_off_from (b + numAssertsFailedCurrentTest st) n told sts untold"
    and "\<not> reached n (b + numAssertsFailedCurrentTest st)"
  shows "breaks_off_from b n ((tc, True) # told) (st # sts) untold"
proof -
  have "\<not> reached n (b + failed_asserts (take k (st # sts)))" if "k < Suc (length sts)" for k
    using that assms(1,2) by (cases k) (auto simp: breaks_off_from_def add.assoc)
  then show ?thesis
    using assms(2,3) by (auto simp: breaks_off_from_def add.assoc)
qed

lemma run_tests_reported:
  assumes fin: "finishes r env c0" and query: "\<not> query_mode (ctx_options c0)"
    and heard: "distinct (reporters_currently_used c0)" "r \<in> set (reporters_currently_used c0)"
  defines "n \<equiv> opt_abort_after (ctx_options c0)"
  shows "settings c = settings c0 \<Longrightarrow> nextSubcaseStack c = [] \<Longrightarrow> \<not> reached n (numAssertsFailed (run_data c)) \<Longrightarrow>
    \<exists>d told sts untold. run_tests env ts suites results c = Some (Inr (results, d)) \<and> settings d = settings c0 \<and>
      plan c0 (numTestCasesPassingFilters (run_data c)) ts = told @ untold \<and>
      breaks_off_from (numAssertsFailed (run_data c)) n told sts untold \<and>
      case_calls r d = case_calls r c @ play told sts \<and>
      numAssertsFailed (run_data d) = numAssertsFailed (run_data c) + failed_asserts sts \<and>
      numTestCasesFailed (run_data d) = numTestCasesFailed (run_data c) + of_nat (failed_cases sts)"
proof (induction ts arbitrary: c)
  case Nil
  then show ?case
    by (intro exI [of _ c] exI [of _ "[]"]) (simp add: failed_cases_def breaks_off_from_def)
next
  case (Cons tc ts)
  let ?failed = "\<lambda>c. numAssertsFailed (run_data c)"
  define e where "e = (if chosen c0 tc then count_passing c else c)"
  define m where "m = numTestCasesPassingFilters (run_data e)"
  have e: "settings e = settings c0" "nextSubcaseStack e = []" "case_calls r e = case_calls r c"
    "numTestCasesFailed (run_data e) = numTestCasesFailed (run_data c)" "?failed e = ?failed c"
    using Cons.prems by (simp_all add: e_def count_passing_def settings_def case_calls_def)
  have m: "m = (if chosen c0 tc then numTestCasesPassingFilters (run_data c) + 1 else numTestCasesPassingFilters (run_data c))"
    by (simp add: m_def e_def count_passing_def)
  have opts: "ctx_options e = ctx_options c0" "skip_me tc c \<longleftrightarrow> \<not> chosen c0 tc" "reporters_currently_used e = reporters_currently_used c0"
    using e(1) chosen_settings [OF Cons.prems(1)] by (simp_all add: skip_me_chosen settings_def)
  have e': "(if \<not> chosen c0 tc then c else count_passing c) = e" by (simp add: e_def)
  have no_query: "\<not> opt_count (ctx_options c0)" "\<not> opt_list_test_cases (ctx_options c0)" "\<not> opt_list_test_suites (ctx_options c0)"
    using query by (simp_all add: query_mode_def)
  let ?run = "chosen c0 tc \<and> \<not> out_of_range (ctx_options c0) m"
  have plan: "plan c0 (numTestCasesPassingFilters (run_data c)) (tc # ts) = (tc, ?run) # plan c0 m ts"
    by (simp add: m Let_def)
  show ?case
  proof (cases ?run)
    case False
    define f where "f = iterate_reporters (Test_case_skipped tc) e"
    have f: "settings f = settings c0" "nextSubcaseStack f = []" "run_data f = run_data e"
      "case_calls r f = case_calls r c @ [Test_case_skipped tc]"
      using e heard opts(3) case_calls_iterate [of e r "Test_case_skipped tc"]
      by (simp_all add: f_def is_case_call_def) (simp add: iterate_reporters_def)
    have step: "run_tests env (tc # ts) suites results c = run_tests env ts suites results f"
      unfolding run_tests.simps Let_def opts(2) e' m_def [symmetric] opts(1) f_def using False query by simp
    have "\<not> reached n (?failed f)" using Cons.prems(3) f(3) e(5) by simp
    from Cons.IH [OF f(1,2) this] obtain d told sts untold
      where d: "run_tests env ts suites results f = Some (Inr (results, d))" "settings d = settings c0"
      "plan c0 m ts = told @ untold" "breaks_off_from (?failed c) n told sts untold"
      "case_calls r d = case_calls r f @ play told sts" "?failed d = ?failed c + failed_asserts sts"
      "numTestCasesFailed (run_data d) = numTestCasesFailed (run_data e) + of_nat (failed_cases sts)"
      unfolding f(3) e(5) m_def [symmetric] by blast
    then show ?thesis
      unfolding plan step using False f(4) e(4) breaks_off_skip [OF d(4), of tc]
      by (intro exI [of _ d] exI [of _ "(tc, False) # told"] exI [of _ sts] exI [of _ untold]) simp
  next
    case True
    obtain f st where f: "run_test_case env tc e = Some (Inr f)" "settings f = settings c0"
      "nextSubcaseStack f = [] \<or> enough_failures f (?failed f)"
      "case_calls r f = case_calls r c @ [Test_case_start tc, Test_case_end st]"
      "numTestCasesPassingFilters (run_data f) = m" "?failed f = ?failed c + numAssertsFailedCurrentTest st"
      "numTestCasesFailed (run_data f) = numTestCasesFailed (run_data c) + of_nat (failed_cases [st])"
      using run_test_case_reported [OF fin e(1,2) heard, of tc] unfolding m_def [symmetric] e(3-5) by blast
    have "ctx_options f = ctx_options c0" using f(2) by (simp add: settings_def)
    then have enough: "enough_failures f (?failed f) \<longleftrightarrow> reached n (?failed f)"
      by (simp add: enough_reached n_def)
    have step: "run_tests env (tc # ts) suites results c =
        (if reached n (?failed f) then Some (Inr (results, f)) else run_tests env ts suites results f)"
      unfolding run_tests.simps Let_def opts(2) e' m_def [symmetric] opts(1) enough [symmetric] using True no_query f(1) by simp
    show ?thesis
    proof (cases "reached n (?failed f)")
      case stop: True
      then have "breaks_off_from (?failed c) n [(tc, True)] [st] (plan c0 m ts)"
        using Cons.prems(3) f(6) by (simp add: breaks_off_from_def)
      then show ?thesis
        unfolding plan step using True stop f
        by (intro exI [of _ f] exI [of _ "[(tc, True)]"] exI [of _ "[st]"] exI [of _ "plan c0 m ts"]) simp
    next
      case go: False
      then have "nextSubcaseStack f = []" using f(3) enough by simp
      from Cons.IH [OF f(2) this go] obtain d told sts untold
        where d: "run_tests env ts suites results f = Some (Inr (results, d))" "settings d = settings c0"
        "plan c0 m ts = told @ untold" "breaks_off_from (?failed f) n told sts untold"
        "case_calls r d = case_calls r f @ play told sts" "?failed d = ?failed f + failed_asserts sts"
        "numTestCasesFailed (run_data d) = numTestCasesFailed (run_data f) + of_nat (failed_cases sts)"
        unfolding f(5) by blast
      have "breaks_off_from (?failed c) n ((tc, True) # told) (st # sts) untold"
        by (rule breaks_off_run [OF Cons.prems(3)]) (use d(4) go f(6) in simp_all)
      then show ?thesis
        unfolding plan step using True go f(4,6,7) d failed_cases_Cons [of st sts]
        by (intro exI [of _ d] exI [of _ "(tc, True) # told"] exI [of _ "st # sts"] exI [of _ untold]) (simp add: add.assoc)
    qed
  qed
qed

text \<open>
  (C23) A run that is no query and whose tests come to an end comes to an end itself, and accounts for the
  tests registered: between \<open>test_run_start\<close> and \<open>test_run_end\<close> each reporter hears, once and in the order asked
  for, the start and the end of each test that the filters choose and whose rank is within the range, and of
  every other test that it is skipped. With a positive \<open>abort_after\<close> the account breaks off right behind the
  first test with which that many assertions have failed, and of the tests after it nothing is heard; without,
  or if it is never reached, all are accounted for. The exit code is 1 exactly if a test that was run did not
  succeed (unless exit codes are switched off), and the context that was current before is current again.
\<close>

theorem run_accounts_for_every_test:
  fixes env :: test_environment and registered :: "test_case list" and c :: context_state
    and maps :: "reporter_key list \<times> reporter_key list"
  defines "c0 \<equiv> prepare_all maps c" and "ts \<equiv> order_tests (env_rand env) (ctx_options c) registered"
  assumes "finishes r env c0" and "normal_run (ctx_options c)" and "\<not> query_mode (ctx_options c)"
    and "distinct (reporters_currently_used c0)"
    and "r \<in> set (reporters_currently_used c0)" and "nextSubcaseStack c = []" and "length registered < 2 ^ 32"
  shows "\<exists>d told sts untold st. Context_run env registered maps p g c = Some (Inr
      (if (\<exists>t \<in> set sts. \<not> testCaseSuccess t) \<and> \<not> opt_no_exitcode (ctx_options c) then 1 else 0,
       g\<lparr>is_running_in_test := False, g_no_colors := opt_no_colors (ctx_options c)\<rparr>, d)) \<and>
    plan c0 0 ts = told @ untold \<and> breaks_off (opt_abort_after (ctx_options c)) told sts untold \<and>
    case_calls r d = case_calls r c @ Test_run_start # play told sts @ [Test_run_end st] \<and>
    numAssertsFailed st = failed_asserts sts"
proof -
  have c0: "ctx_options c0 = ctx_options c" "nextSubcaseStack c0 = []" "reports c0 = reports c"
    "numTestCasesPassingFilters (run_data c0) = 0" "numTestCasesFailed (run_data c0) = 0" "numAssertsFailed (run_data c0) = 0"
    using prepare_all_fields [of maps c] assms(8) by (simp_all add: c0_def)
  define e where "e = iterate_reporters Test_run_start (c0\<lparr>run_data := (run_data c0)\<lparr>numTestCases := of_nat (length registered)\<rparr>\<rparr>)"
  have e: "settings e = settings c0" "nextSubcaseStack e = []" "run_data e = (run_data c0)\<lparr>numTestCases := of_nat (length registered)\<rparr>"
    "case_calls r e = case_calls r c @ [Test_run_start]"
    using c0 assms(6,7) by (simp_all add: e_def settings_def iterate_reporters_def case_calls_def filter_single is_case_call_def)
  have opts: "\<not> query_mode (ctx_options c0)" using assms(5) c0(1) by simp
  have start: "\<not> reached (opt_abort_after (ctx_options c0)) (numAssertsFailed (run_data e))"
    using e(3) c0(6) by (auto simp: reached_def word_sless_alt word_sle_eq)
  obtain d told sts untold where d: "run_tests env ts [] [] e = Some (Inr ([], d))" "settings d = settings c0"
      "plan c0 0 ts = told @ untold" "breaks_off (opt_abort_after (ctx_options c)) told sts untold"
      "case_calls r d = case_calls r c @ Test_run_start # play told sts"
      "numAssertsFailed (run_data d) = failed_asserts sts"
      "numTestCasesFailed (run_data d) = of_nat (failed_cases sts)"
    using run_tests_reported [OF assms(3) opts assms(6,7) e(1,2) start, of ts "[]" "[]"] e(3,4) c0
    by (auto simp: breaks_off_def breaks_off_from_def)
  define f where "f = iterate_reporters (Test_run_end (run_data d)) d"
  have rs: "reporters_currently_used d = reporters_currently_used c0" and od: "ctx_options d = ctx_options c"
    using d(2) c0(1) by (simp_all add: settings_def)
  have f: "case_calls r f = case_calls r d @ [Test_run_end (run_data d)]" "run_data f = run_data d" "ctx_options f = ctx_options c"
    using case_calls_iterate [of d r "Test_run_end (run_data d)"] assms(6,7) rs od
    by (simp_all add: f_def is_case_call_def) (simp_all add: iterate_reporters_def)
  have len: "length (plan c' n us) = length us" for c' n us by (induction us arbitrary: n) (simp_all add: Let_def)
  have "failed_cases sts \<le> length registered"
  proof -
    have "length ts = length registered" using mset_order_tests [THEN arg_cong [of _ _ size]] by (simp add: ts_def)
    moreover have "failed_cases sts \<le> length sts" by (simp add: failed_cases_def)
    moreover have "length sts \<le> length told" using d(4) by (simp add: breaks_off_def)
    moreover have "length told \<le> length ts" using d(3) len [of c0 0 ts] by simp
    ultimately show ?thesis by linarith
  qed
  then have "unat (of_nat (failed_cases sts) :: u32) = failed_cases sts"
    using assms(9) by (simp add: unat_of_nat)
  then have "numTestCasesFailed (run_data f) = 0 \<longleftrightarrow> failed_cases sts = 0"
    unfolding f(2) d(7) by (metis unat_eq_zero)
  also have "\<dots> \<longleftrightarrow> \<not> (\<exists>t \<in> set sts. \<not> testCaseSuccess t)"
    by (auto simp: failed_cases_def filter_empty_conv)
  finally have code: "numTestCasesFailed (run_data f) \<noteq> 0 \<longleftrightarrow> (\<exists>t \<in> set sts. \<not> testCaseSuccess t)" by blast
  have run: "Context_run env registered maps p g c = Some (Inr (cleanup_and_return (g_cs g)
      (g\<lparr>g_cs := Some p, is_running_in_test := True, g_no_colors := opt_no_colors (ctx_options c)\<rparr>) f))"
    using assms(4,5) d(1) unfolding Context_run_def Let_def c0_def [symmetric] c0(1) ts_def [symmetric]
    by (simp add: normal_run_def e_def [symmetric] f_def)
  show ?thesis
    using run code f d(3-6)
    by (intro exI [of _ "f\<lparr>reporters_currently_used := []\<rparr>"] exI [of _ told] exI [of _ sts] exI [of _ untold]
          exI [of _ "run_data d"])
       (simp add: cleanup_and_return_def case_calls_def)
qed

text \<open>Tests that return or stop at a failed assertion, without subcases, come to an end.\<close>

lemma straight_tests_finish:
  assumes "\<And>tc c. env_call env tc c = Inr (out tc, c)" and "\<And>tc. out tc \<in> {Returned, Test_failure}"
  shows "finishes r env c0"
  unfolding finishes_def
proof (intro allI impI)
  fix tc c
  assume c: "settings c = settings c0 \<and> nextSubcaseStack c = [] \<and> currentTest c = Some tc"
  define d where "d = catch_outcome (env_translators env) (out tc) (prepare_run c)"
  define e where "e = (if enough_failures d (numAssertsFailed (run_data d) + lanes_load (numAssertsFailedCurrentTest_atomic d))
    then add_flag TooManyFailedAsserts d else d)"
  have "nextSubcaseStack e = [] \<and> settings e = settings c \<and> currentTest e = currentTest c \<and> run_data e = run_data c \<and>
      case_calls r e = case_calls r c"
    using c assms(2) [of tc]
    by (auto simp: e_def d_def catch_outcome_def add_flag_def prepare_run_def settings_def case_calls_def)
  moreover from this have "run_once env tc c = Inr (False, e)"
    using assms(1) by (simp add: run_once_def d_def [symmetric] e_def Let_def split: if_splits)
  then have "test_loop env tc c = Some (Inr e)" by (subst test_loop.simps) simp
  ultimately show "\<exists>d. test_loop env tc c = Some (Inr d) \<and> settings d = settings c0 \<and>
      (nextSubcaseStack d = [] \<or>
       enough_failures d (numAssertsFailed (run_data d) + lanes_load (numAssertsFailedCurrentTest_atomic d))) \<and>
      currentTest d = Some tc \<and> run_data d = run_data c \<and> case_calls r d = case_calls r c"
    using c by auto
qed

definition straight_environment :: test_environment where
  "straight_environment = sample_environment\<lparr>env_call := (\<lambda>tc c. Inr (if m_line tc = 3 then Test_failure else Returned, c))\<rparr>"

definition filtered_context :: context_state where
  "filtered_context = sample_context\<lparr>filters := (replicate 9 [])[4 := [''pars*'']]\<rparr>"

theorem run_accounts_for_every_test_witness:
  "\<exists>d s1 s2 st. Context_run straight_environment sample_tests ([sample_reporter], []) 0
       \<lparr>g_cs = None, is_running_in_test = False, g_no_colors = False\<rparr> filtered_context =
       Some (Inr (if testCaseSuccess s1 \<and> testCaseSuccess s2 then 0 else 1,
         \<lparr>g_cs = None, is_running_in_test = False, g_no_colors = False\<rparr>, d)) \<and>
     case_calls sample_reporter d =
       [Test_run_start, Test_case_start (sample_case\<lparr>m_name := ''parses all'', m_line := 3\<rparr>), Test_case_end s1,
        Test_case_skipped (sample_case\<lparr>m_name := ''prints''\<rparr>), Test_case_start sample_case, Test_case_end s2, Test_run_end st]"
proof -
  let ?c = filtered_context and ?m = "([sample_reporter], [])"
  have ctx: "ctx_options ?c = sample_options" "nextSubcaseStack ?c = []" "reports ?c = []"
    by (simp_all add: filtered_context_def sample_context_def)
  have opts: "opt_abort_after sample_options \<le>s 0" "normal_run sample_options" "\<not> query_mode sample_options"
    "opt_no_colors sample_options = False" "opt_no_exitcode sample_options = False"
    by (simp_all add: normal_run_def query_mode_def sample_options_def)
  have fin: "finishes sample_reporter straight_environment (prepare_all ?m ?c)"
    by (rule straight_tests_finish [where out = "\<lambda>tc. if m_line tc = 3 then Test_failure else Returned"])
       (simp_all add: straight_environment_def)
  have rs: "reporters_currently_used (prepare_all ?m ?c) = [sample_reporter]" by code_simp
  have plan: "plan (prepare_all ?m ?c) 0 (order_tests (env_rand straight_environment) sample_options sample_tests) =
      [(sample_case\<lparr>m_name := ''parses all'', m_line := 3\<rparr>, True), (sample_case\<lparr>m_name := ''prints''\<rparr>, False), (sample_case, True)]"
    by code_simp
  have "length sample_tests < 2 ^ 32" by (simp add: sample_tests_def)
  from run_accounts_for_every_test [of sample_reporter straight_environment ?m ?c sample_tests 0
      "\<lparr>g_cs = None, is_running_in_test = False, g_no_colors = False\<rparr>", unfolded ctx rs plan, OF fin opts(2,3) _ _ refl this]
  obtain d told sts untold st where run: "Context_run straight_environment sample_tests ?m 0
       \<lparr>g_cs = None, is_running_in_test = False, g_no_colors = False\<rparr> ?c =
       Some (Inr (if (\<exists>t \<in> set sts. \<not> testCaseSuccess t) \<and> \<not> opt_no_exitcode sample_options then 1 else 0,
         \<lparr>g_cs = None, is_running_in_test = False, g_no_colors = opt_no_colors sample_options\<rparr>, d))"
    and told: "[(sample_case\<lparr>m_name := ''parses all'', m_line := 3\<rparr>, True), (sample_case\<lparr>m_name := ''prints''\<rparr>, False),
      (sample_case, True)] = told @ untold" and stop: "breaks_off (opt_abort_after sample_options) told sts untold"
    and calls: "case_calls sample_reporter d = case_calls sample_reporter ?c @ Test_run_start # play told sts @ [Test_run_end st]"
    by fastforce
  have "untold = []" using stop opts(1) by (auto simp: breaks_off_def reached_def word_sless_alt word_sle_eq)
  then have sts: "length sts = 2" and calls: "case_calls sample_reporter d = case_calls sample_reporter ?c @ Test_run_start #
      play [(sample_case\<lparr>m_name := ''parses all'', m_line := 3\<rparr>, True), (sample_case\<lparr>m_name := ''prints''\<rparr>, False), (sample_case, True)] sts @
      [Test_run_end st]"
    using told [symmetric] stop calls by (simp_all add: breaks_off_def)
  from sts obtain s1 s2 where "sts = [s1, s2]" by (auto simp: length_Suc_conv numeral_2_eq_2)
  then show ?thesis
    using run calls ctx(3) opts(4,5) by (intro exI [of _ d] exI [of _ s1] exI [of _ s2] exI [of _ st]) (simp add: case_calls_def)
qed

end
