(* ===== verification/Doctest_Xml.thy ===== *)
theory Doctest_Xml
  imports Doctest_Text
begin

unbundle bit_operations_syntax

text \<open>
  The XML writer of doctest.h, taken there from Catch: \<open>XmlEncode\<close>, which writes text and attribute
  values, and \<open>XmlWriter\<close>, which keeps the open elements. Bytes are characters, read as numbers below
  256; the decoded value of a sequence has at most 21 bits, so the 32-bit \<open>value\<close> does not wrap.
\<close>

section \<open>Encoding\<close>

datatype for_what = ForTextNodes | ForAttributes

definition byte :: "char \<Rightarrow> nat" where
  "byte c = of_char c"

definition trailingBytes :: "nat \<Rightarrow> failure + nat" where
  "trailingBytes c =
     (if c AND 0xE0 = 0xC0 then Inr 2
      else if c AND 0xF0 = 0xE0 then Inr 3
      else if c AND 0xF8 = 0xF0 then Inr 4
      else Inl (Invalid_argument ''Invalid multibyte utf-8 start byte encountered''))"

definition headerValue :: "nat \<Rightarrow> failure + nat" where
  "headerValue c =
     (if c AND 0xE0 = 0xC0 then Inr (c AND 0x1F)
      else if c AND 0xF0 = 0xE0 then Inr (c AND 0x0F)
      else if c AND 0xF8 = 0xF0 then Inr (c AND 0x07)
      else Inl (Invalid_argument ''Invalid multibyte utf-8 start byte encountered''))"

definition hex_upper :: "nat \<Rightarrow> char" where
  "hex_upper n = ''0123456789ABCDEF'' ! n"

definition hexEscapeChar :: "nat \<Rightarrow> string" where
  "hexEscapeChar c = [CHR 0x5C, CHR ''x'', hex_upper (c div 16), hex_upper (c mod 16)]"

text \<open>The loop over the following bytes: whether all have the form 10XX XXXX, and the value.\<close>

fun continuation :: "string \<Rightarrow> bool \<Rightarrow> nat \<Rightarrow> bool \<times> nat" where
  "continuation [] valid value = (valid, value)"
| "continuation (nc # ncs) valid value =
     continuation ncs (valid \<and> (byte nc AND 0xC0) = 0x80) (push_bit 6 value OR (byte nc AND 0x3F))"

text \<open>
  One turn of the loop of \<open>encodeTo\<close> at an index: what is written, and the index of the next turn. The
  default case of its switch is a definition of its own.
\<close>

definition encode_default :: "string \<Rightarrow> nat \<Rightarrow> failure + string \<times> nat" where
  "encode_default m_str idx =
     (let c = byte (m_str ! idx) in
      if c < 0x09 \<or> (c > 0x0D \<and> c < 0x20) \<or> c = 0x7F then Inr (hexEscapeChar c, idx + 1)
      else if c < 0x7F then Inr ([m_str ! idx], idx + 1)
      else if c < 0xC0 \<or> c \<ge> 0xF8 then Inr (hexEscapeChar c, idx + 1)
      else res_bind (trailingBytes c) (\<lambda>encBytes.
        if idx + encBytes - 1 \<ge> length m_str then Inr (hexEscapeChar c, idx + 1)
        else res_bind (headerValue c) (\<lambda>header.
          let res = continuation (take (encBytes - 1) (drop (idx + 1) m_str)) True header;
              valid = fst res; value = snd res in
          if \<not> valid \<or> value < 0x80 \<or> (value < 0x800 \<and> encBytes > 2) \<or>
             (0x800 < value \<and> value < 0x10000 \<and> encBytes > 3) \<or> value \<ge> 0x110000
          then Inr (hexEscapeChar c, idx + 1)
          else Inr (take encBytes (drop idx m_str), idx + encBytes))))"

definition encode_at :: "for_what \<Rightarrow> string \<Rightarrow> nat \<Rightarrow> failure + string \<times> nat" where
  "encode_at m_forWhat m_str idx =
     (let c = m_str ! idx in
      if c = CHR ''<'' then Inr (''&lt;'', idx + 1)
      else if c = CHR ''&'' then Inr (''&amp;'', idx + 1)
      else if c = CHR ''>''
      then Inr (if idx > 2 \<and> m_str ! (idx - 1) = CHR '']'' \<and> m_str ! (idx - 2) = CHR '']'' then ''&gt;'' else [c],
                idx + 1)
      else if c = CHR 0x22 then Inr (if m_forWhat = ForAttributes then ''&quot;'' else [c], idx + 1)
      else encode_default m_str idx)"

lemma trailing_positive: "trailingBytes c = Inr n \<Longrightarrow> 0 < n"
  by (auto simp: trailingBytes_def split: if_splits)

lemma encode_at_advances: "encode_at w s idx = Inr (out, next) \<Longrightarrow> idx < next"
  by (auto simp: encode_at_def encode_default_def Let_def res_bind_eq_Inr split: if_split_asm
    dest!: trailing_positive)

function encode_loop :: "for_what \<Rightarrow> string \<Rightarrow> nat \<Rightarrow> failure + string" where
  "encode_loop m_forWhat m_str idx =
     (if idx < length m_str
      then (case encode_at m_forWhat m_str idx of
          Inl e \<Rightarrow> Inl e
        | Inr (out, next) \<Rightarrow> res_bind (encode_loop m_forWhat m_str next) (\<lambda>rest. Inr (out @ rest)))
      else Inr '''')"
  by pat_completeness auto
termination
  by (relation "measure (\<lambda>(w, s, idx). length s - idx)") (auto dest!: encode_at_advances)

declare encode_loop.simps [simp del]

definition XmlEncode :: "for_what \<Rightarrow> string \<Rightarrow> failure + string" where
  "XmlEncode m_forWhat m_str = encode_loop m_forWhat m_str 0"

section \<open>Lead and following bytes\<close>

lemma byte_less [simp]: "byte c < 256"
  by (simp add: byte_def)

lemma byte_char_of [simp]: "n < 256 \<Longrightarrow> byte (char_of n) = n"
  by (simp add: byte_def)

lemma byte_inj: "byte c = byte d \<longleftrightarrow> c = d"
  by (simp add: byte_def)

lemma in_upt: "a \<le> c \<Longrightarrow> c < b \<Longrightarrow> c \<in> set [a..<b]"
  by simp

lemma lead2: "0xC0 \<le> c \<Longrightarrow> c < 0xE0 \<Longrightarrow> trailingBytes c = Inr 2 \<and> headerValue c = Inr (c - 0xC0)"
proof -
  have table: "\<forall>c \<in> set [0xC0..<0xE0]. trailingBytes c = Inr 2 \<and> headerValue c = Inr (c - 0xC0)" by code_simp
  show "0xC0 \<le> c \<Longrightarrow> c < 0xE0 \<Longrightarrow> ?thesis" by (rule bspec [OF table in_upt])
qed

lemma lead3: "0xE0 \<le> c \<Longrightarrow> c < 0xF0 \<Longrightarrow> trailingBytes c = Inr 3 \<and> headerValue c = Inr (c - 0xE0)"
proof -
  have table: "\<forall>c \<in> set [0xE0..<0xF0]. trailingBytes c = Inr 3 \<and> headerValue c = Inr (c - 0xE0)" by code_simp
  show "0xE0 \<le> c \<Longrightarrow> c < 0xF0 \<Longrightarrow> ?thesis" by (rule bspec [OF table in_upt])
qed

lemma lead4: "0xF0 \<le> c \<Longrightarrow> c < 0xF8 \<Longrightarrow> trailingBytes c = Inr 4 \<and> headerValue c = Inr (c - 0xF0)"
proof -
  have table: "\<forall>c \<in> set [0xF0..<0xF8]. trailingBytes c = Inr 4 \<and> headerValue c = Inr (c - 0xF0)" by code_simp
  show "0xF0 \<le> c \<Longrightarrow> c < 0xF8 \<Longrightarrow> ?thesis" by (rule bspec [OF table in_upt])
qed

lemma lead_total:
  assumes "\<not> c < 0xC0" and "\<not> c \<ge> 0xF8"
  obtains n h where "trailingBytes c = Inr n" and "headerValue c = Inr h" and "2 \<le> n" and "n \<le> 4"
  using assms lead2 [of c] lead3 [of c] lead4 [of c]
  by (cases "c < 0xE0"; cases "c < 0xF0") auto

lemma following: "0x80 \<le> c \<Longrightarrow> c < 0xC0 \<Longrightarrow> c AND 0xC0 = 0x80 \<and> c AND 0x3F = c - (0x80 :: nat)"
proof -
  have table: "\<forall>c \<in> set [0x80..<0xC0]. c AND 0xC0 = 0x80 \<and> c AND 0x3F = c - (0x80 :: nat)" by code_simp
  show "0x80 \<le> c \<Longrightarrow> c < 0xC0 \<Longrightarrow> ?thesis" by (rule bspec [OF table in_upt])
qed

lemma not_following: "0 \<le> c \<Longrightarrow> c < 0x80 \<Longrightarrow> c AND 0xC0 \<noteq> (0x80 :: nat)"
proof -
  have table: "\<forall>c \<in> set [0..<0x80]. c AND 0xC0 \<noteq> (0x80 :: nat)" by code_simp
  show "0 \<le> c \<Longrightarrow> c < 0x80 \<Longrightarrow> ?thesis" by (rule bspec [OF table in_upt])
qed

lemma shift_or:
  assumes "m < 64"
  shows "push_bit 6 v OR m = 64 * v + (m :: nat)"
proof -
  have "push_bit 6 v AND m = 0"
  proof (rule bit_eqI)
    fix n
    have "take_bit 6 m = m" using assms by (simp add: take_bit_nat_eq_self)
    then have "\<not> bit m n" if "6 \<le> n"
      using that by (metis bit_take_bit_iff not_le)
    then show "bit (push_bit 6 v AND m) n = bit 0 n"
      by (auto simp: bit_simps)
  qed
  then show ?thesis by (simp flip: disjunctive_add_eq_or add: push_bit_eq_mult)
qed

lemma continuation_valid: "fst (continuation bs valid v) \<Longrightarrow> valid \<and> (\<forall>c \<in> set bs. 0x80 \<le> byte c)"
proof (induction bs arbitrary: valid v)
  case (Cons c bs)
  then have "valid \<and> byte c AND 0xC0 = 0x80" "\<forall>c \<in> set bs. 0x80 \<le> byte c" by fastforce+
  then show ?case using not_following [of "byte c"] by (auto simp: not_less [symmetric])
qed simp

section \<open>What one turn writes\<close>

lemma literal_chars:
  assumes "0x80 \<le> byte c"
  shows "c \<notin> {CHR ''<'', CHR ''&'', CHR 0x22}"
  using assms by (auto simp: byte_def)

lemma encode_at_cases:
  assumes "idx < length s"
  obtains
    (entity) ent where "encode_at w s idx = Inr (ent, idx + 1)"
      and "(s ! idx, ent) \<in> {(CHR ''<'', ''&lt;''), (CHR ''&'', ''&amp;''), (CHR ''>'', ''&gt;''), (CHR 0x22, ''&quot;'')}"
  | (escaped) "encode_at w s idx = Inr (hexEscapeChar (byte (s ! idx)), idx + 1)"
  | (literal) n where "encode_at w s idx = Inr (take n (drop idx s), idx + n)" and "0 < n" and "idx + n \<le> length s"
      and "set (take n (drop idx s)) \<inter> {CHR ''<'', CHR ''&''} = {}"
      and "w = ForAttributes \<Longrightarrow> CHR 0x22 \<notin> set (take n (drop idx s))"
proof -
  have single: "take 1 (drop idx s) = [s ! idx]" "take (Suc 0) (drop idx s) = [s ! idx]"
    using assms by (simp_all add: take_Suc_conv_app_nth hd_drop_conv_nth flip: Cons_nth_drop_Suc)
  show ?thesis
  proof (cases "s ! idx \<in> {CHR ''<'', CHR ''&'', CHR ''>'', CHR 0x22}")
    case True
    then show ?thesis
      using entity literal [of 1] assms single
      by (cases "2 < idx \<and> s ! (idx - 1) = CHR '']'' \<and> s ! (idx - 2) = CHR '']''"; cases "w = ForAttributes")
         (auto simp: encode_at_def)
  next
    case False
    then have default: "encode_at w s idx = encode_default s idx" by (auto simp: encode_at_def)
    define c where "c = byte (s ! idx)"
    show ?thesis
    proof (cases "c < 0xC0 \<or> c \<ge> 0xF8")
      case True
      then have "encode_at w s idx = Inr (hexEscapeChar c, idx + 1) \<or> encode_at w s idx = Inr ([s ! idx], idx + 1)"
        by (auto simp: default encode_default_def Let_def c_def)
      then show ?thesis
        using False escaped literal [of 1] assms single by (auto simp: c_def)
    next
      case lead: False
      then have "\<not> c < 0xC0" "\<not> c \<ge> 0xF8" by auto
      then obtain n h where n: "trailingBytes c = Inr n" "headerValue c = Inr h" "2 \<le> n"
        by (rule lead_total)
      define res where "res = continuation (take (n - 1) (drop (idx + 1) s)) True h"
      have turn: "encode_at w s idx =
        (if idx + n - 1 \<ge> length s then Inr (hexEscapeChar c, idx + 1)
         else if \<not> fst res \<or> snd res < 0x80 \<or> (snd res < 0x800 \<and> n > 2) \<or>
             (0x800 < snd res \<and> snd res < 0x10000 \<and> n > 3) \<or> snd res \<ge> 0x110000
         then Inr (hexEscapeChar c, idx + 1)
         else Inr (take n (drop idx s), idx + n))"
        unfolding default encode_default_def Let_def c_def [symmetric] res_def
        using lead n by auto
      show ?thesis
      proof (cases "encode_at w s idx = Inr (hexEscapeChar c, idx + 1)")
        case True
        then show ?thesis using escaped by (simp add: c_def)
      next
        case copied: False
        then have bound: "idx + n \<le> length s" and valid: "fst res"
          and lit: "encode_at w s idx = Inr (take n (drop idx s), idx + n)"
          using turn n(3) by (auto split: if_splits)
        have "take n (drop idx s) = s ! idx # take (n - 1) (drop (idx + 1) s)"
          using assms n(3) by (cases n) (simp_all flip: Cons_nth_drop_Suc)
        moreover have "\<forall>c \<in> set (take (n - 1) (drop (idx + 1) s)). 0x80 \<le> byte c"
          using continuation_valid valid by (auto simp: res_def)
        ultimately have "\<forall>c \<in> set (take n (drop idx s)). 0x80 \<le> byte c"
          using lead by (auto simp: c_def)
        then have "\<forall>c \<in> set (take n (drop idx s)). c \<notin> {CHR ''<'', CHR ''&'', CHR 0x22}"
          using literal_chars by blast
        then show ?thesis using literal [OF lit _ bound] n(3) by auto
      qed
    qed
  qed
qed

lemma hexEscape_chars: "set (hexEscapeChar (byte c)) \<inter> {CHR ''<'', CHR ''&'', CHR 0x22} = {}"
proof -
  have table: "\<forall>n \<in> set [0..<16]. hex_upper n \<notin> {CHR ''<'', CHR ''&'', CHR 0x22}" by code_simp
  have "hex_upper n \<notin> {CHR ''<'', CHR ''&'', CHR 0x22}" if "n < 16" for n
    by (rule bspec [OF table in_upt]) (use that in simp_all)
  moreover have "byte c div 16 < 16" "byte c mod 16 < 16"
    using byte_less [of c] by (simp_all add: less_mult_imp_div_less)
  ultimately show ?thesis by (simp add: hexEscapeChar_def)
qed

lemma encode_loop_safe:
  "returns (encode_loop w s idx) (\<lambda>out. CHR ''<'' \<notin> set out \<and> (w = ForAttributes \<longrightarrow> CHR 0x22 \<notin> set out))"
proof (induction w s idx rule: encode_loop.induct)
  case (1 w s idx)
  show ?case
  proof (cases "idx < length s")
    case True
    obtain out nxt where turn: "encode_at w s idx = Inr (out, nxt)"
      and out: "CHR ''<'' \<notin> set out" "w = ForAttributes \<longrightarrow> CHR 0x22 \<notin> set out"
      using True
    proof (cases rule: encode_at_cases [where w = w])
      case escaped
      then show thesis using that hexEscape_chars [of "s ! idx"] by auto
    qed (use that in auto)
    have "returns (encode_loop w s nxt)
        (\<lambda>out. CHR ''<'' \<notin> set out \<and> (w = ForAttributes \<longrightarrow> CHR 0x22 \<notin> set out))"
      using "1.IH" True turn by auto
    then obtain rest where "encode_loop w s nxt = Inr rest" "CHR ''<'' \<notin> set rest"
        "w = ForAttributes \<longrightarrow> CHR 0x22 \<notin> set rest"
      by (auto simp: returns_def)
    with True turn out show ?thesis by (subst encode_loop.simps) auto
  next
    case False
    then show ?thesis by (subst encode_loop.simps) simp
  qed
qed

text \<open>No raw \<open><\<close>, no quote in an attribute, and behind every ampersand one of the four names the encoder knows.\<close>

fun markup_free :: "for_what \<Rightarrow> string \<Rightarrow> bool" where
  "markup_free w [] = True"
| "markup_free w (c # s) = (c \<noteq> CHR ''<'' \<and> (w = ForAttributes \<longrightarrow> c \<noteq> CHR 0x22) \<and>
     (c = CHR ''&'' \<longrightarrow> take 3 s = ''lt;'' \<or> take 4 s = ''amp;'' \<or> take 3 s = ''gt;'' \<or> take 5 s = ''quot;'') \<and> markup_free w s)"

lemma markup_free_literal:
  "set u \<inter> {CHR ''<'', CHR ''&''} = {} \<Longrightarrow> (w = ForAttributes \<Longrightarrow> CHR 0x22 \<notin> set u) \<Longrightarrow> markup_free w (u @ s) = markup_free w s"
  by (induction u) auto

lemma markup_free_entity:
  "(c, ent) \<in> {(CHR ''<'', ''&lt;''), (CHR ''&'', ''&amp;''), (CHR ''>'', ''&gt;''), (CHR 0x22, ''&quot;'')} \<Longrightarrow>
   markup_free w (ent @ s) = markup_free w s"
  by auto

lemma encode_loop_markup: "returns (encode_loop w s idx) (markup_free w)"
proof (induction w s idx rule: encode_loop.induct)
  case (1 w s idx)
  show ?case
  proof (cases "idx < length s")
    case True
    obtain out nxt where turn: "encode_at w s idx = Inr (out, nxt)" and out: "\<And>t. markup_free w (out @ t) = markup_free w t"
      using True
    proof (cases rule: encode_at_cases [where w = w])
      case (entity ent)
      then show thesis using that markup_free_entity by metis
    next
      case escaped
      have "set (hexEscapeChar (byte (s ! idx))) \<inter> {CHR ''<'', CHR ''&''} = {}" "CHR 0x22 \<notin> set (hexEscapeChar (byte (s ! idx)))"
        using hexEscape_chars [of "s ! idx"] by auto
      then show thesis using that escaped markup_free_literal by metis
    next
      case (literal n)
      then show thesis using that markup_free_literal by metis
    qed
    have "returns (encode_loop w s nxt) (markup_free w)" using "1.IH" True turn by auto
    then obtain rest where "encode_loop w s nxt = Inr rest" "markup_free w rest" by (auto simp: returns_def)
    with True turn out show ?thesis by (subst encode_loop.simps) auto
  next
    case False
    then show ?thesis by (subst encode_loop.simps) simp
  qed
qed

section \<open>Reading back\<close>

text \<open>
  What XML 1.0 makes of the code points between two tags or two quotes: the characters it allows, the ends of lines (2.11), the
  references to the predefined entities and to characters (4.1, 4.6), the mark that must not stand in character data (2.4), and
  the white space of attribute values (3.3.3). Anything else is not well-formed.
\<close>

definition codes :: "string \<Rightarrow> nat list" where
  "codes t = map byte t"

definition xml_char :: "nat \<Rightarrow> bool" where
  "xml_char cp \<longleftrightarrow> cp = 9 \<or> cp = 10 \<or> cp = 13 \<or> (0x20 \<le> cp \<and> cp \<le> 0xD7FF) \<or> (0xE000 \<le> cp \<and> cp \<le> 0xFFFD) \<or>
     (0x10000 \<le> cp \<and> cp \<le> 0x10FFFF)"

fun line_ends :: "nat list \<Rightarrow> nat list" where
  "line_ends [] = []"
| "line_ends (c # s) = (if c = 13 then (case s of [] \<Rightarrow> [10] | d # t \<Rightarrow> if d = 10 then 10 # line_ends t else 10 # line_ends s)
     else c # line_ends s)"

definition digit_of :: "nat \<Rightarrow> nat \<Rightarrow> nat option" where
  "digit_of base c =
     (if 48 \<le> c \<and> c \<le> 57 then Some (c - 48)
      else if base = 16 \<and> 65 \<le> c \<and> c \<le> 70 then Some (c - 55)
      else if base = 16 \<and> 97 \<le> c \<and> c \<le> 102 then Some (c - 87) else None)"

fun number_of :: "nat \<Rightarrow> nat \<Rightarrow> nat list \<Rightarrow> nat option" where
  "number_of base v [] = Some v"
| "number_of base v (c # s) = (case digit_of base c of None \<Rightarrow> None | Some d \<Rightarrow> number_of base (base * v + d) s)"

definition entity_value :: "nat list \<Rightarrow> nat option" where
  "entity_value name =
     (case map_of [(codes ''lt'', 0x3C), (codes ''gt'', 0x3E), (codes ''amp'', 0x26), (codes ''quot'', 0x22), (codes ''apos'', 0x27)] name of
        Some cp \<Rightarrow> Some cp
      | None \<Rightarrow>
          (case (if take 2 name = codes ''#x'' \<and> 2 < length name then number_of 16 0 (drop 2 name)
                 else if take 1 name = codes ''#'' \<and> 1 < length name then number_of 10 0 (drop 1 name) else None) of
             Some cp \<Rightarrow> if xml_char cp then Some cp else None
           | None \<Rightarrow> None))"

definition reference :: "nat list \<Rightarrow> (nat \<times> nat list) option" where
  "reference s =
     (case dropWhile (\<lambda>c. c \<noteq> byte (CHR '';'')) s of
        [] \<Rightarrow> None
      | semicolon # rest \<Rightarrow> map_option (\<lambda>cp. (cp, rest)) (entity_value (takeWhile (\<lambda>c. c \<noteq> byte (CHR '';'')) s)))"

lemma reference_shorter: "reference s = Some (cp, rest) \<Longrightarrow> length rest < Suc (length s)"
proof -
  assume "reference s = Some (cp, rest)"
  then obtain c where "dropWhile (\<lambda>c. c \<noteq> byte (CHR '';'')) s = c # rest" by (auto simp: reference_def split: list.splits)
  then show ?thesis using length_dropWhile_le [of "\<lambda>c. c \<noteq> byte (CHR '';'')" s] by simp
qed

function xml_read :: "for_what \<Rightarrow> nat list \<Rightarrow> nat list option" where
  "xml_read w [] = Some []"
| "xml_read w (c # s) =
     (if \<not> xml_char c \<or> c = byte (CHR ''<'') \<or> (w = ForAttributes \<and> c = byte (CHR 0x22)) then None
      else if c = byte (CHR ''&'') then (case reference s of None \<Rightarrow> None | Some (cp, rest) \<Rightarrow> map_option ((#) cp) (xml_read w rest))
      else if w = ForTextNodes \<and> take 3 (c # s) = codes '']]>'' then None
      else map_option ((#) (if w = ForAttributes \<and> c \<in> {9, 10} then 32 else c)) (xml_read w s))"
  by pat_completeness auto
termination
  by (relation "measure (\<lambda>(w, s). length s)") (auto dest: reference_shorter)

definition xml_parse :: "for_what \<Rightarrow> nat list \<Rightarrow> nat list option" where
  "xml_parse w s = xml_read w (line_ends s)"

text \<open>UTF-8, for the code points of Unicode, and the characters that are written as themselves.\<close>

definition utf8 :: "nat \<Rightarrow> string" where
  "utf8 cp =
     (if cp < 0x80 then [char_of cp]
      else if cp < 0x800 then [char_of (0xC0 + cp div 64), char_of (0x80 + cp mod 64)]
      else if cp < 0x10000 then [char_of (0xE0 + cp div 4096), char_of (0x80 + cp div 64 mod 64), char_of (0x80 + cp mod 64)]
      else [char_of (0xF0 + cp div 262144), char_of (0x80 + cp div 4096 mod 64), char_of (0x80 + cp div 64 mod 64),
            char_of (0x80 + cp mod 64)])"

definition utf8_text :: "nat list \<Rightarrow> string" where
  "utf8_text cps = concat (map utf8 cps)"

lemma utf8_text_simps [simp]:
  "utf8_text [] = []" "utf8_text (cp # cps) = utf8 cp @ utf8_text cps" "utf8_text (cps @ dps) = utf8_text cps @ utf8_text dps"
  by (simp_all add: utf8_text_def)

text \<open>The characters that are written as themselves and read as themselves.\<close>

definition plain :: "for_what \<Rightarrow> nat \<Rightarrow> bool" where
  "plain w cp \<longleftrightarrow> xml_char cp \<and> cp \<noteq> 13 \<and> cp \<noteq> 127 \<and> (w = ForAttributes \<longrightarrow> cp \<noteq> 9 \<and> cp \<noteq> 10)"

lemma plain_small: "plain w cp \<Longrightarrow> cp < 0x110000"
  unfolding plain_def xml_char_def by linarith

text \<open>What is written for a text of these, code point by code point; the ones that came before are given backwards.\<close>

definition piece :: "for_what \<Rightarrow> nat list \<Rightarrow> nat \<Rightarrow> nat list" where
  "piece w before cp =
     (if cp = byte (CHR ''<'') then codes ''&lt;''
      else if cp = byte (CHR ''&'') then codes ''&amp;''
      else if cp = byte (CHR ''>'') \<and> 2 < length before \<and> take 2 before = codes '']]'' then codes ''&gt;''
      else if cp = byte (CHR 0x22) \<and> w = ForAttributes then codes ''&quot;''
      else [cp])"

fun written :: "for_what \<Rightarrow> nat list \<Rightarrow> nat list \<Rightarrow> nat list" where
  "written w before [] = []"
| "written w before (cp # cps) = piece w before cp @ written w (cp # before) cps"

lemma loop_step:
  assumes "idx < length s" and "encode_at w s idx = Inr (out, nxt)"
  shows "encode_loop w s idx = res_bind (encode_loop w s nxt) (\<lambda>rest. Inr (out @ rest))"
  using assms by (subst encode_loop.simps) simp

lemma utf8_nonempty: "utf8 cp \<noteq> []"
  by (simp add: utf8_def)

lemma char_of_byte: "char_of (byte c) = c"
  by (simp add: byte_def)

lemma ascii_bytes: "byte (CHR '']'') < 0x80" "byte (CHR ''>'') < 0x80" "byte (CHR 0x22) < 0x80"
  by (simp_all add: byte_def)

lemma utf8_ascii: "cp < 0x80 \<Longrightarrow> utf8 cp = [char_of cp]"
  by (simp add: utf8_def)

lemma utf8_codes: "list_all (\<lambda>c. byte c < 0x80) t \<Longrightarrow> utf8_text (codes t) = t"
  by (induction t) (simp_all add: codes_def utf8_ascii, simp add: byte_def)

text \<open>A bracket before a place in the bytes is a bracket before it in the text.\<close>

lemma utf8_last: "last (utf8 cp) = CHR '']'' \<longleftrightarrow> cp = byte (CHR '']'')" if "cp < 0x110000"
proof (cases "cp < 0x80")
  case True
  then have "byte (char_of cp :: char) = cp" by simp
  then have "char_of cp = CHR '']'' \<longleftrightarrow> cp = byte (CHR '']'')" using byte_inj [of "char_of cp" "CHR '']''"] by simp
  then show ?thesis by (simp add: utf8_ascii [OF True])
next
  case False
  then have "last (utf8 cp) = char_of (0x80 + cp mod 64)" by (simp add: utf8_def)
  then have "byte (last (utf8 cp)) = 0x80 + cp mod 64" using mod_less_divisor [of 64 cp] by (simp add: byte_def)
  then have "0x80 \<le> byte (last (utf8 cp))" by simp
  moreover have "byte (CHR '']'') < 0x80" by (simp add: byte_def)
  ultimately show ?thesis using False by auto
qed

lemma bracket_before:
  assumes "P = utf8_text (rev before)" and "\<forall>cp \<in> set before. cp < 0x110000"
  shows "2 < length P \<and> (P @ r) ! (length P - 1) = CHR '']'' \<and> (P @ r) ! (length P - 2) = CHR '']'' \<longleftrightarrow>
    2 < length before \<and> take 2 before = codes '']]''"
proof -
  have end1: "(X @ utf8 cp @ r) ! (length (X @ utf8 cp) - 1) = last (utf8 cp)" for X cp r
    using utf8_nonempty [of cp] by (cases "utf8 cp" rule: rev_cases) (simp_all add: nth_append)
  have one: "utf8 (byte (CHR '']'')) = [CHR '']'']" by (simp add: utf8_ascii ascii_bytes char_of_byte)
  have two: "codes '']]'' = [byte (CHR '']''), byte (CHR '']'')]" by (simp add: codes_def)
  consider "before = []" | a where "before = [a]" | a b q where "before = a # b # q"
    by (metis list.exhaust)
  then show ?thesis
  proof cases
    case 1
    then show ?thesis using assms(1) by simp
  next
    case (2 a)
    then have "\<not> (2 < length P \<and> (P @ r) ! (length P - 1) = CHR '']'')"
      using assms end1 [of "[]" a r] utf8_last [of a] one by auto
    then show ?thesis using 2 by auto
  next
    case (3 a b q)
    define Q where "Q = utf8_text (rev q)"
    have P: "P = (Q @ utf8 b) @ utf8 a" using assms(1) 3 by (simp add: Q_def)
    have q: "Q = [] \<longleftrightarrow> q = []" using utf8_nonempty by (cases q) (auto simp: Q_def)
    have last1: "(P @ r) ! (length P - 1) = CHR '']'' \<longleftrightarrow> a = byte (CHR '']'')"
      using end1 [of "Q @ utf8 b" a r] utf8_last [of a] assms(2) 3 by (simp add: P)
    show ?thesis
    proof (cases "a = byte (CHR '']'')")
      case True
      then have "(P @ r) ! (length P - 2) = last (utf8 b)"
        using end1 [of Q b "utf8 a @ r"] one by (simp add: P numeral_2_eq_2)
      then have last2: "(P @ r) ! (length P - 2) = CHR '']'' \<longleftrightarrow> b = byte (CHR '']'')"
        using utf8_last [of b] assms(2) 3 by simp
      show ?thesis
      proof (cases "b = byte (CHR '']'')")
        case True
        then have "2 < length P \<longleftrightarrow> 2 < length before" using q one \<open>a = byte (CHR '']'')\<close> 3 by (simp add: P)
        then show ?thesis using last1 last2 True \<open>a = byte (CHR '']'')\<close> 3 two by simp
      next
        case False
        then show ?thesis using last2 3 two by auto
      qed
    next
      case False
      then show ?thesis using last1 3 two by auto
    qed
  qed
qed

lemma encode_plain_ascii:
  assumes "s = utf8_text (rev before) @ char_of cp # rest" and "\<forall>cp \<in> set before. cp < 0x110000" and "cp < 0x80" and "plain w cp"
  shows "encode_at w s (length (utf8_text (rev before))) =
    Inr (utf8_text (piece w before cp), length (utf8_text (rev before)) + 1)"
proof -
  define P where "P = utf8_text (rev before)"
  let ?c = "char_of cp :: char"
  have at: "s ! length P = ?c" using assms(1) by (simp add: P_def)
  have b: "byte ?c = cp" using assms(3) by simp
  have same: "?c = d \<longleftrightarrow> cp = byte d" for d using b byte_inj [of ?c d] by auto
  have entities: "utf8_text (codes ''&lt;'') = ''&lt;''" "utf8_text (codes ''&amp;'') = ''&amp;''" "utf8_text (codes ''&gt;'') = ''&gt;''"
    "utf8_text (codes ''&quot;'') = ''&quot;''" "utf8_text [cp] = [?c]"
    using assms(3) by (simp_all add: utf8_codes byte_def utf8_ascii)
  have mark: "2 < length P \<and> s ! (length P - 1) = CHR '']'' \<and> s ! (length P - 2) = CHR '']'' \<longleftrightarrow>
      2 < length before \<and> take 2 before = codes '']]''"
    using bracket_before [OF P_def assms(2), of "?c # rest"] assms(1) by (simp add: P_def)
  have default: "encode_default s (length P) = Inr ([?c], length P + 1)"
    using assms(3,4) at b by (auto simp: encode_default_def Let_def plain_def xml_char_def)
  have others: "byte (CHR ''<'') \<noteq> byte (CHR ''&'')" "byte (CHR ''<'') \<noteq> byte (CHR ''>'')" "byte (CHR ''<'') \<noteq> byte (CHR 0x22)"
    "byte (CHR ''&'') \<noteq> byte (CHR ''>'')" "byte (CHR ''&'') \<noteq> byte (CHR 0x22)" "byte (CHR ''>'') \<noteq> byte (CHR 0x22)"
    by (simp_all add: byte_inj)
  have "encode_at w s (length P) = Inr (utf8_text (piece w before cp), length P + 1)"
    unfolding encode_at_def Let_def at same mark piece_def default
    using others entities utf8_ascii [OF ascii_bytes(2)] utf8_ascii [OF ascii_bytes(3)] by (cases "w = ForAttributes") (simp_all add: if_distrib [of Inr] if_distrib [of utf8_text])
  then show ?thesis by (simp add: P_def)
qed

lemma digits_value:
  "h < 32 \<Longrightarrow> push_bit 6 (h :: nat) OR (d mod 64) = 64 * h + d mod 64"
  by (rule shift_or) simp

lemma byte_following: "byte (char_of (0x80 + d mod 64)) AND 0xC0 = 0x80 \<and> byte (char_of (0x80 + d mod 64)) AND 0x3F = d mod 64"
proof -
  have "byte (char_of (0x80 + d mod 64)) = 0x80 + d mod 64"
    by (rule byte_char_of) (use mod_less_divisor [of 64 d] in linarith)
  moreover have "0x80 + d mod 64 < 0xC0" using mod_less_divisor [of 64 d] by linarith
  ultimately show ?thesis using following [of "0x80 + d mod 64"] by simp
qed

lemma continuation_digit:
  "continuation (char_of (0x80 + d mod 64) # bs) valid v = continuation bs valid (64 * v + d mod 64)"
  using byte_following [of d] by (simp add: shift_or)

lemma split_cp: "64 * (cp div 64) + cp mod 64 = (cp :: nat)" "64 * (cp div 4096) + cp div 64 mod 64 = cp div 64"
  "64 * (cp div 262144) + cp div 4096 mod 64 = cp div 4096"
  using mult_div_mod_eq [of 64 cp] mult_div_mod_eq [of 64 "cp div 64"] mult_div_mod_eq [of 64 "cp div 4096"]
  by (simp_all add: div_mult2_eq [symmetric])

lemma encode_multibyte:
  assumes s: "s = pre @ utf8 cp @ rest" and cp: "0x80 \<le> cp" "cp < 0x110000"
  shows "encode_at w s (length pre) = Inr (utf8 cp, length pre + length (utf8 cp))"
proof -
  have generic: "encode_at w s (length pre) = Inr (utf8 cp, length pre + length (utf8 cp))"
    if u: "utf8 cp = char_of lead # bs" and lead: "0xC0 \<le> lead" "lead < 0xF8"
      and n: "trailingBytes lead = Inr (Suc (length bs))" "headerValue lead = Inr h"
      and digits: "continuation bs True h = (True, cp)"
      and sane: "\<not> (cp < 0x800 \<and> length bs > 1)" "\<not> (0x800 < cp \<and> cp < 0x10000 \<and> length bs > 2)"
    for lead :: nat and bs :: string and h :: nat
  proof -
    have at: "s ! length pre = char_of lead" and b: "byte (char_of lead) = lead"
      using u s lead by simp_all
    have seq: "take (length bs) (drop (length pre + 1) s) = bs"
      "take (Suc (length bs)) (drop (length pre) s) = utf8 cp"
      using u s by simp_all
    have "lead \<noteq> byte (CHR ''>'')" using lead by (simp add: byte_def)
    then have "char_of lead \<noteq> CHR ''>''" using b by metis
    moreover have "char_of lead \<notin> {CHR ''<'', CHR ''&'', CHR 0x22}"
      by (rule literal_chars) (use lead b in simp)
    ultimately have "encode_at w s (length pre) = encode_default s (length pre)"
      using at by (auto simp: encode_at_def)
    also have "\<dots> = Inr (utf8 cp, length pre + Suc (length bs))"
      using lead n digits sane seq cp s u
      by (auto simp: encode_default_def Let_def at b)
    finally show ?thesis using u by simp
  qed
  consider (two) "cp < 0x800" | (three) "0x800 \<le> cp" "cp < 0x10000" | (four) "0x10000 \<le> cp"
    by linarith
  then show ?thesis
  proof cases
    case two
    let ?lead = "0xC0 + cp div 64"
    have lead: "0xC0 \<le> ?lead" "?lead < 0xE0" using two by auto
    show ?thesis
    proof (rule generic [of ?lead "[char_of (0x80 + cp mod 64)]" "cp div 64"])
      show "utf8 cp = char_of ?lead # [char_of (0x80 + cp mod 64)]" using two cp by (simp add: utf8_def)
      show "continuation [char_of (0x80 + cp mod 64)] True (cp div 64) = (True, cp)"
        by (simp only: continuation_digit continuation.simps(1) split_cp)
    qed (use lead lead2 [OF lead] two in simp_all)
  next
    case three
    let ?lead = "0xE0 + cp div 4096"
    have lead: "0xE0 \<le> ?lead" "?lead < 0xF0" using three by auto
    let ?bs = "[char_of (0x80 + cp div 64 mod 64), char_of (0x80 + cp mod 64)]"
    show ?thesis
    proof (rule generic [of ?lead ?bs "cp div 4096"])
      show "utf8 cp = char_of ?lead # ?bs" using three by (simp add: utf8_def)
      show "continuation ?bs True (cp div 4096) = (True, cp)"
        by (simp only: continuation_digit continuation.simps(1) split_cp)
    qed (use lead lead3 [OF lead] three in simp_all)
  next
    case four
    let ?lead = "0xF0 + cp div 262144"
    have lead: "0xF0 \<le> ?lead" "?lead < 0xF8" using cp by auto
    let ?bs = "[char_of (0x80 + cp div 4096 mod 64), char_of (0x80 + cp div 64 mod 64), char_of (0x80 + cp mod 64)]"
    show ?thesis
    proof (rule generic [of ?lead ?bs "cp div 262144"])
      show "utf8 cp = char_of ?lead # ?bs" using four by (simp add: utf8_def)
      show "continuation ?bs True (cp div 262144) = (True, cp)"
        by (simp only: continuation_digit continuation.simps(1) split_cp)
    qed (use lead lead4 [OF lead] four in simp_all)
  qed
qed

lemma encode_written:
  assumes "\<forall>cp \<in> set cps. plain w cp" and "\<forall>cp \<in> set before. cp < 0x110000"
  shows "encode_loop w (utf8_text (rev before) @ utf8_text cps) (length (utf8_text (rev before))) = Inr (utf8_text (written w before cps))"
  using assms
proof (induction cps arbitrary: before)
  case Nil
  then show ?case by (subst encode_loop.simps) simp
next
  case (Cons cp cps)
  let ?P = "utf8_text (rev before)"
  let ?s = "?P @ utf8 cp @ utf8_text cps"
  have small: "cp < 0x110000" using Cons.prems(1) plain_small [of w cp] by simp
  have turn: "encode_at w ?s (length ?P) = Inr (utf8_text (piece w before cp), length (?P @ utf8 cp))"
  proof (cases "cp < 0x80")
    case True
    then show ?thesis using encode_plain_ascii [of ?s before cp "utf8_text cps" w] Cons.prems by (simp add: utf8_ascii)
  next
    case False
    then have "piece w before cp = [cp]" by (auto simp: piece_def byte_def)
    then show ?thesis using encode_multibyte [OF refl _ small, of w ?P] False by simp
  qed
  have "encode_loop w ((?P @ utf8 cp) @ utf8_text cps) (length (?P @ utf8 cp)) = Inr (utf8_text (written w (cp # before) cps))"
    using Cons.IH [of "cp # before"] Cons.prems small by simp
  then show ?case
    using loop_step [OF _ turn] utf8_nonempty [of cp] by simp
qed

text \<open>The reader gets the text back.\<close>

lemma read_entities:
  "xml_read w (codes ''&lt;'' @ s) = map_option ((#) (byte (CHR ''<''))) (xml_read w s)"
  "xml_read w (codes ''&amp;'' @ s) = map_option ((#) (byte (CHR ''&''))) (xml_read w s)"
  "xml_read w (codes ''&gt;'' @ s) = map_option ((#) (byte (CHR ''>''))) (xml_read w s)"
  "xml_read w (codes ''&quot;'' @ s) = map_option ((#) (byte (CHR 0x22))) (xml_read w s)"
  by (simp_all add: codes_def byte_def xml_char_def reference_def entity_value_def)

lemma piece_cases:
  "piece w before cp = [cp] \<or> piece w before cp \<in> {codes ''&lt;'', codes ''&amp;'', codes ''&gt;'', codes ''&quot;''}"
  by (simp add: piece_def)

lemma written_starts:
  "take 1 (written w before cps) = [b] \<Longrightarrow> b \<noteq> byte (CHR ''&'') \<Longrightarrow>
   \<exists>cps'. cps = b # cps' \<and> piece w before b = [b] \<and> written w before cps = b # written w (b # before) cps'"
proof (cases cps)
  case (Cons cp cps')
  assume "take 1 (written w before cps) = [b]" "b \<noteq> byte (CHR ''&'')"
  then show ?thesis
    using Cons piece_cases [of w before cp] by (auto simp: codes_def)
qed simp

lemma read_written:
  assumes "\<forall>cp \<in> set cps. plain w cp" and "w = ForTextNodes \<and> before = [] \<longrightarrow> take 3 cps \<noteq> codes '']]>''"
  shows "xml_read w (written w before cps) = Some cps"
  using assms
proof (induction cps arbitrary: before)
  case (Cons cp cps)
  have ok: "xml_char cp" "cp \<noteq> 13" "w = ForAttributes \<Longrightarrow> cp \<noteq> 9 \<and> cp \<noteq> 10" using Cons.prems(1) by (simp_all add: plain_def)
  have rest: "xml_read w (written w (cp # before) cps) = Some cps" using Cons.IH [of "cp # before"] Cons.prems(1) by simp
  show ?case
  proof (cases "piece w before cp = [cp]")
    case False
    then show ?thesis
      using rest by (auto simp: piece_def read_entities split: if_splits)
  next
    case True
    have here: "cp \<noteq> byte (CHR ''<'')" "cp \<noteq> byte (CHR ''&'')" "w = ForAttributes \<Longrightarrow> cp \<noteq> byte (CHR 0x22)"
      using True by (auto simp: piece_def codes_def split: if_splits)
    have "\<not> (w = ForTextNodes \<and> take 3 (cp # written w (cp # before) cps) = codes '']]>'')"
    proof
      assume bad: "w = ForTextNodes \<and> take 3 (cp # written w (cp # before) cps) = codes '']]>''"
      have three: "take 3 (c # X) = codes '']]>'' \<Longrightarrow> c = byte (CHR '']'') \<and> take 2 X = [byte (CHR '']''), byte (CHR ''>'')]" for c X
        by (simp add: codes_def numeral_3_eq_3 numeral_2_eq_2)
      then have cp: "cp = byte (CHR '']'')"
        and two: "take 2 (written w (cp # before) cps) = [byte (CHR '']''), byte (CHR ''>'')]"
        using bad by blast+
      have "take 1 (written w (cp # before) cps) = [byte (CHR '']'')]" using arg_cong [OF two, of "take 1"] by simp
      from written_starts [OF this] obtain cps1 where one: "cps = byte (CHR '']'') # cps1"
          "written w (cp # before) cps = byte (CHR '']'') # written w (byte (CHR '']'') # cp # before) cps1"
        by (auto simp: byte_inj)
      then have "take 1 (written w (byte (CHR '']'') # cp # before) cps1) = [byte (CHR ''>'')]"
        using two by (simp add: numeral_2_eq_2)
      from written_starts [OF this] obtain cps2 where
        three: "cps1 = byte (CHR ''>'') # cps2" "piece w (byte (CHR '']'') # cp # before) (byte (CHR ''>'')) = [byte (CHR ''>'')]"
        by (auto simp: byte_inj)
      have "before = []"
        using three(2) cp by (auto simp: piece_def codes_def byte_def split: if_splits)
      then show False
        using Cons.prems(2) bad one(1) three(1) cp by (simp add: codes_def numeral_3_eq_3)
    qed
    then have "xml_read w (cp # written w (cp # before) cps) = map_option ((#) cp) (xml_read w (written w (cp # before) cps))"
      using ok here by (subst xml_read.simps) auto
    then show ?thesis using True rest by simp
  qed
qed simp

lemma written_lines: "\<forall>cp \<in> set cps. plain w cp \<Longrightarrow> 13 \<notin> set (written w before cps)"
  by (induction cps arbitrary: before) (auto simp: plain_def piece_def codes_def byte_def split: if_splits)

lemma line_ends_same: "13 \<notin> set s \<Longrightarrow> line_ends s = s"
  by (induction s) auto

text \<open>
  (C36) The encoder never meets its internal errors. Whatever the bytes, what it writes holds no raw \<open><\<close>, in an attribute no raw
  quote, and no ampersand but those of its references. And a text of Unicode characters is got back by a reader of XML 1.0
  from what is written for it, if XML allows its characters and it has no DEL, no carriage return, in an attribute no tab and
  no line feed, and, between tags, does not begin with the mark that ends a CDATA section.
\<close>

theorem XmlEncode_correct:
  assumes "\<forall>cp \<in> set cps. plain w cp" and "w = ForTextNodes \<longrightarrow> take 3 cps \<noteq> codes '']]>''"
  shows "returns (XmlEncode w str) (markup_free w) \<and>
    returns (XmlEncode w (utf8_text cps)) (\<lambda>out. \<exists>us. out = utf8_text us \<and> xml_parse w us = Some cps)"
proof -
  have "XmlEncode w (utf8_text cps) = Inr (utf8_text (written w [] cps))"
    using encode_written [OF assms(1), of "[]"] by (simp add: XmlEncode_def)
  moreover have "xml_parse w (written w [] cps) = Some cps"
    using read_written [OF assms(1), of "[]"] assms(2) written_lines [OF assms(1), of "[]"] by (simp add: xml_parse_def line_ends_same)
  ultimately show ?thesis using encode_loop_markup [of w str 0] by (auto simp: XmlEncode_def)
qed

theorem XmlEncode_correct_witness:
  "returns (XmlEncode ForAttributes (utf8_text [0x22, 0x3C, 0xE9, 0x20AC, 0x1F600]))
     (\<lambda>out. \<exists>us. out = utf8_text us \<and> xml_parse ForAttributes us = Some [0x22, 0x3C, 0xE9, 0x20AC, 0x1F600])"
  using XmlEncode_correct [of "[0x22, 0x3C, 0xE9, 0x20AC, 0x1F600]" ForAttributes] by (simp add: plain_def xml_char_def)

text \<open>
  Beyond that the text is not got back. The end mark of a CDATA section is escaped in a text, but not at its very start, because
  the test asks for an index above 2, and the reader refuses it there; it refuses two control characters, the surrogates and
  two code points that are no characters, which are written as they are, like all from U+0080 to the last; it reads other control characters as the escapes they are written with; and it takes line ends and, in attributes, the
  white space for others.
\<close>

theorem XmlEncode_gaps:
  "XmlEncode w ''x]]>'' = Inr ''x]]&gt;'' \<and> XmlEncode w '']]>'' = Inr '']]>'' \<and>
   XmlEncode w [CHR 0x0B, CHR 0x0C] = Inr [CHR 0x0B, CHR 0x0C] \<and>
   XmlEncode w [CHR 0x0E] = Inr [CHR 0x5C, CHR ''x'', CHR ''0'', CHR ''E''] \<and>
   XmlEncode w [CHR 0x0D, CHR 0x0A] = Inr [CHR 0x0D, CHR 0x0A]"
  by (cases w; hypsubst; code_simp)

theorem XmlEncode_any_scalar:
  assumes "0x80 \<le> cp" and "cp < 0x110000"
  shows "XmlEncode w (utf8 cp) = Inr (utf8 cp)"
proof -
  have stop: "encode_loop w (utf8 cp) (length (utf8 cp)) = Inr []" by (subst encode_loop.simps) simp
  show ?thesis
    using loop_step [of 0 "utf8 cp" w "utf8 cp" "length (utf8 cp)"] encode_multibyte [of "utf8 cp" "[]" cp "[]" w] assms stop
      utf8_nonempty [of cp]
    by (simp add: XmlEncode_def)
qed

theorem xml_parse_gaps:
  "xml_parse ForTextNodes (codes '']]>'') = None \<and> xml_parse w [0x0B] = None \<and> xml_parse w [0x0C] = None \<and>
   xml_parse w [0xD800] = None \<and> xml_parse w [0xFFFF] = None \<and>
   xml_parse ForTextNodes [13, 10] = Some [10] \<and> xml_parse ForAttributes [13, 10] = Some [32]"
  by (simp_all add: xml_parse_def codes_def byte_def xml_char_def)

section \<open>The writer\<close>

record xml_writer =
  m_tagIsOpen :: bool
  m_needsNewline :: bool
  m_tags :: "string list"
  m_indent :: string
  m_os :: string

definition newline :: string where
  "newline = [CHR 0x0A]"

definition quote :: string where
  "quote = [CHR 0x22]"

definition emit :: "string \<Rightarrow> xml_writer \<Rightarrow> xml_writer" where
  "emit t w = w\<lparr>m_os := m_os w @ t\<rparr>"

definition XmlWriter :: "string \<Rightarrow> xml_writer" where
  "XmlWriter os = \<lparr>m_tagIsOpen = False, m_needsNewline = False, m_tags = [], m_indent = [], m_os = os\<rparr>"

definition ensureTagClosed :: "xml_writer \<Rightarrow> xml_writer" where
  "ensureTagClosed w = (if m_tagIsOpen w then (emit (''>'' @ newline) w)\<lparr>m_tagIsOpen := False\<rparr> else w)"

definition newlineIfNecessary :: "xml_writer \<Rightarrow> xml_writer" where
  "newlineIfNecessary w = (if m_needsNewline w then (emit newline w)\<lparr>m_needsNewline := False\<rparr> else w)"

definition startElement :: "string \<Rightarrow> xml_writer \<Rightarrow> xml_writer" where
  "startElement name w =
     (let w = ensureTagClosed w;
          w = newlineIfNecessary w;
          w = emit (m_indent w @ ''<'' @ name) w
      in w\<lparr>m_tags := m_tags w @ [name], m_indent := m_indent w @ ''  '', m_tagIsOpen := True\<rparr>)"

text \<open>\<open>m_tags.back()\<close> and \<open>pop_back()\<close> need an open element. \<open>size() - 2\<close> wraps on a shorter indent, and then cuts nothing.\<close>

definition endElement :: "xml_writer \<Rightarrow> failure + xml_writer" where
  "endElement w =
     (if m_tags w = [] then Inl Out_of_bounds
      else let w = newlineIfNecessary w;
          n = length (m_indent w);
          w = w\<lparr>m_indent := (if n < 2 then m_indent w else take (n - 2) (m_indent w))\<rparr>;
          w = (if m_tagIsOpen w then (emit ''/>'' w)\<lparr>m_tagIsOpen := False\<rparr>
               else emit (m_indent w @ ''</'' @ last (m_tags w) @ ''>'') w);
          w = emit newline w
      in Inr (w\<lparr>m_tags := butlast (m_tags w)\<rparr>))"

text \<open>The overloads for a text and for a C string, which may be null, and the one for a truth value.\<close>

definition writeAttribute :: "string \<Rightarrow> string \<Rightarrow> xml_writer \<Rightarrow> failure + xml_writer" where
  "writeAttribute name attribute w =
     (if name \<noteq> [] \<and> attribute \<noteq> []
      then res_bind (XmlEncode ForAttributes attribute) (\<lambda>t.
        Inr (emit ('' '' @ name @ ''='' @ quote @ t @ quote) w))
      else Inr w)"

definition writeAttribute_c :: "string \<Rightarrow> string option \<Rightarrow> xml_writer \<Rightarrow> failure + xml_writer" where
  "writeAttribute_c name attribute w =
     (case attribute of
        Some a \<Rightarrow> if name \<noteq> [] \<and> c_str a \<noteq> []
          then res_bind (XmlEncode ForAttributes (c_str a)) (\<lambda>t.
            Inr (emit ('' '' @ name @ ''='' @ quote @ t @ quote) w))
          else Inr w
      | None \<Rightarrow> Inr w)"

definition writeAttribute_bool :: "string \<Rightarrow> bool \<Rightarrow> xml_writer \<Rightarrow> xml_writer" where
  "writeAttribute_bool name attribute w =
     emit ('' '' @ name @ ''='' @ quote @ (if attribute then ''true'' else ''false'') @ quote) w"

definition writeText :: "string \<Rightarrow> bool \<Rightarrow> xml_writer \<Rightarrow> failure + xml_writer" where
  "writeText txt indent w =
     (if txt \<noteq> []
      then let tagWasOpen = m_tagIsOpen w;
          w = ensureTagClosed w;
          w = (if tagWasOpen \<and> indent then emit (m_indent w) w else w)
        in res_bind (XmlEncode ForTextNodes txt) (\<lambda>t. Inr ((emit t w)\<lparr>m_needsNewline := True\<rparr>))
      else Inr w)"

definition writeDeclaration :: "xml_writer \<Rightarrow> xml_writer" where
  "writeDeclaration w =
     emit (''<?xml version='' @ quote @ ''1.0'' @ quote @ '' encoding='' @ quote @ ''UTF-8'' @ quote @ ''?>'' @ newline) w"

text \<open>The destructor ends what is open, from the innermost.\<close>

fun end_all :: "nat \<Rightarrow> xml_writer \<Rightarrow> failure + xml_writer" where
  "end_all 0 w = Inr w"
| "end_all (Suc n) w = res_bind (endElement w) (end_all n)"

definition XmlWriter_destroy :: "xml_writer \<Rightarrow> failure + xml_writer" where
  "XmlWriter_destroy w = end_all (length (m_tags w)) w"

text \<open>
  A scoped element is a pointer to its writer or, once moved from, null: whether it ends the element
  is a truth value here, and the element is that of the innermost scope.
\<close>

definition scopedElement :: "string \<Rightarrow> xml_writer \<Rightarrow> xml_writer \<times> bool" where
  "scopedElement name w = (startElement name w, True)"

definition ScopedElement_move :: "bool \<Rightarrow> bool \<times> bool" where
  "ScopedElement_move other = (other, False)"

definition ScopedElement_assign :: "bool \<Rightarrow> bool \<Rightarrow> xml_writer \<Rightarrow> failure + xml_writer \<times> bool \<times> bool" where
  "ScopedElement_assign this other w =
     res_bind (if this then endElement w else Inr w) (\<lambda>w. Inr (w, other, False))"

definition ScopedElement_destroy :: "bool \<Rightarrow> xml_writer \<Rightarrow> failure + xml_writer" where
  "ScopedElement_destroy this w = (if this then endElement w else Inr w)"

section \<open>Nesting of the output\<close>

text \<open>
  A reader of tags, with the stack of open elements: content, behind \<open><\<close>, in the name of a start tag,
  among its attributes, in a quoted value, behind the slash of an empty element, in the name of an end
  tag, in a declaration.
\<close>

datatype tag_state = Content "string list" | Lt "string list" | Opening string "string list"
  | Attrs string "string list" | Quoted string "string list" | Slash "string list"
  | Closing string "string list" | Declaration "string list" | Malformed

fun tag_step :: "char \<Rightarrow> tag_state \<Rightarrow> tag_state" where
  "tag_step c (Content st) = (if c = CHR ''<'' then Lt st else Content st)"
| "tag_step c (Lt st) =
     (if c = CHR ''/'' then Closing [] st else if c = CHR ''?'' then Declaration st else Opening [c] st)"
| "tag_step c (Opening n st) =
     (if c = CHR '' '' then Attrs n st else if c = CHR ''>'' then Content (n # st)
      else if c = CHR ''/'' then Slash st else if c = CHR ''<'' \<or> c = CHR 0x22 then Malformed
      else Opening (n @ [c]) st)"
| "tag_step c (Attrs n st) =
     (if c = CHR 0x22 then Quoted n st else if c = CHR ''>'' then Content (n # st)
      else if c = CHR ''/'' then Slash st else if c = CHR ''<'' then Malformed else Attrs n st)"
| "tag_step c (Quoted n st) =
     (if c = CHR 0x22 then Attrs n st else if c = CHR ''<'' then Malformed else Quoted n st)"
| "tag_step c (Slash st) = (if c = CHR ''>'' then Content st else Malformed)"
| "tag_step c (Closing n st) =
     (if c = CHR ''>'' then (case st of [] \<Rightarrow> Malformed | m # st' \<Rightarrow> if m = n then Content st' else Malformed)
      else Closing (n @ [c]) st)"
| "tag_step c (Declaration st) = (if c = CHR ''>'' then Content st else Declaration st)"
| "tag_step c Malformed = Malformed"

definition tags_of :: "string \<Rightarrow> tag_state" where
  "tags_of s = fold tag_step s (Content [])"

definition good_name :: "string \<Rightarrow> bool" where
  "good_name n \<longleftrightarrow> n \<noteq> [] \<and> list_all (\<lambda>c. c \<notin> set ''<>/? '' \<and> c \<noteq> CHR 0x22) n"

datatype xml_op = Start string | End | Attribute string string | Attribute_c string "string option"
  | Attribute_bool string bool | Write_text string bool | Close_tag

fun xml_call :: "xml_op \<Rightarrow> xml_writer \<Rightarrow> failure + xml_writer" where
  "xml_call (Start n) w = Inr (startElement n w)"
| "xml_call End w = endElement w"
| "xml_call (Attribute n a) w = writeAttribute n a w"
| "xml_call (Attribute_c n a) w = writeAttribute_c n a w"
| "xml_call (Attribute_bool n b) w = Inr (writeAttribute_bool n b w)"
| "xml_call (Write_text t b) w = writeText t b w"
| "xml_call Close_tag w = Inr (ensureTagClosed w)"

fun xml_ops :: "xml_op list \<Rightarrow> xml_writer \<Rightarrow> failure + xml_writer" where
  "xml_ops [] w = Inr w"
| "xml_ops (a # as) w = res_bind (xml_call a w) (xml_ops as)"

fun good_op :: "xml_op \<Rightarrow> bool" where
  "good_op (Start n) = good_name n"
| "good_op (Attribute n a) = good_name n"
| "good_op (Attribute_c n a) = good_name n"
| "good_op (Attribute_bool n b) = good_name n"
| "good_op _ = True"

definition writer_inv :: "xml_writer \<Rightarrow> bool" where
  "writer_inv w \<longleftrightarrow> list_all good_name (m_tags w) \<and> m_indent w = replicate (2 * length (m_tags w)) (CHR '' '') \<and>
     (if m_tagIsOpen w
      then \<not> m_needsNewline w \<and> m_tags w \<noteq> [] \<and>
        tags_of (m_os w) \<in> {Opening (last (m_tags w)) (rev (butlast (m_tags w))),
                            Attrs (last (m_tags w)) (rev (butlast (m_tags w)))}
      else tags_of (m_os w) = Content (rev (m_tags w)))"

lemma tags_of_append: "tags_of (s @ t) = fold tag_step t (tags_of s)"
  by (simp add: tags_of_def)

lemma fold_content: "CHR ''<'' \<notin> set t \<Longrightarrow> fold tag_step t (Content st) = Content st"
  by (induction t) auto

lemma fold_opening: "list_all (\<lambda>c. c \<notin> set ''<>/? '' \<and> c \<noteq> CHR 0x22) m \<Longrightarrow>
    fold tag_step m (Opening n st) = Opening (n @ m) st"
  by (induction m arbitrary: n) auto

lemma fold_start: "good_name n \<Longrightarrow> fold tag_step (CHR ''<'' # n) (Content st) = Opening n st"
  by (cases n) (auto simp: good_name_def fold_opening)

lemma fold_closing: "CHR ''>'' \<notin> set m \<Longrightarrow> fold tag_step m (Closing n st) = Closing (n @ m) st"
  by (induction m arbitrary: n) auto

lemma good_name_chars: "good_name n \<Longrightarrow> CHR ''<'' \<notin> set n \<and> CHR ''>'' \<notin> set n \<and> CHR 0x22 \<notin> set n \<and> CHR ''/'' \<notin> set n"
  by (auto simp: good_name_def list_all_iff)

lemma fold_end: "good_name n \<Longrightarrow> fold tag_step (''</'' @ n @ ''>'') (Content (n # st)) = Content st"
  by (auto simp: fold_closing dest: good_name_chars)

lemma fold_attrs: "set t \<inter> {CHR ''<'', CHR ''>'', CHR ''/'', CHR 0x22} = {} \<Longrightarrow> fold tag_step t (Attrs n st) = Attrs n st"
  by (induction t) auto

lemma fold_quoted: "CHR ''<'' \<notin> set t \<Longrightarrow> CHR 0x22 \<notin> set t \<Longrightarrow> fold tag_step t (Quoted n st) = Quoted n st"
  by (induction t) auto

lemma fold_attribute:
  assumes "good_name a" and "CHR ''<'' \<notin> set t" and "CHR 0x22 \<notin> set t" and "s \<in> {Opening n st, Attrs n st}"
  shows "fold tag_step ('' '' @ a @ ''='' @ quote @ t @ quote) s = Attrs n st"
proof -
  have "fold tag_step '' '' s = Attrs n st" using assms(4) by auto
  moreover have "fold tag_step a (Attrs n st) = Attrs n st"
    using good_name_chars [OF assms(1)] by (intro fold_attrs) auto
  ultimately show ?thesis
    using fold_quoted [OF assms(2,3)] by (simp add: quote_def)
qed

lemma fold_attribute_content:
  assumes "good_name a" and "CHR ''<'' \<notin> set t"
  shows "fold tag_step ('' '' @ a @ ''='' @ quote @ t @ quote) (Content st) = Content st"
  using assms good_name_chars [OF assms(1)] by (intro fold_content) (auto simp: quote_def)

lemma emit_simps [simp]:
  "m_os (emit t w) = m_os w @ t" "m_tags (emit t w) = m_tags w" "m_indent (emit t w) = m_indent w"
  "m_tagIsOpen (emit t w) = m_tagIsOpen w" "m_needsNewline (emit t w) = m_needsNewline w"
  by (simp_all add: emit_def)

lemma fold_spaces [simp]: "(tag_step CHR '' '' ^^ k) (Content st) = Content st"
  by (induction k) simp_all

lemma take_spaces [simp]: "take k (c # c # replicate k c) = replicate k c"
  using take_replicate [of k "Suc (Suc k)" c] by simp

text \<open>With the tag closed, anything without \<open><\<close> may be written.\<close>

lemma closed_inv:
  assumes "writer_inv w"
  shows "writer_inv (ensureTagClosed w)" and "\<not> m_tagIsOpen (ensureTagClosed w)"
    and "m_tags (ensureTagClosed w) = m_tags w"
proof -
  have "last ts # rev (butlast ts) = rev ts" if "ts \<noteq> []" for ts :: "string list"
    using that by (cases ts rule: rev_cases) simp_all
  then show "writer_inv (ensureTagClosed w)"
    using assms by (auto simp: writer_inv_def ensureTagClosed_def tags_of_append newline_def)
qed (auto simp: ensureTagClosed_def)

lemma newline_inv:
  assumes "writer_inv w"
  shows "writer_inv (newlineIfNecessary w)" and "\<not> m_needsNewline (newlineIfNecessary w)"
    and "m_tags (newlineIfNecessary w) = m_tags w" and "m_tagIsOpen (newlineIfNecessary w) = m_tagIsOpen w"
    and "m_indent (newlineIfNecessary w) = m_indent w"
  using assms by (auto simp: writer_inv_def newlineIfNecessary_def tags_of_append newline_def)

lemma text_inv:
  assumes "writer_inv w" and "\<not> m_tagIsOpen w" and "CHR ''<'' \<notin> set t"
  shows "writer_inv (emit t w)" and "writer_inv ((emit t w)\<lparr>m_needsNewline := True\<rparr>)"
  using assms by (auto simp: writer_inv_def tags_of_append fold_content)

lemma start_inv:
  assumes "writer_inv w" and "good_name n"
  shows "writer_inv (startElement n w)"
proof -
  define w' where "w' = newlineIfNecessary (ensureTagClosed w)"
  have inv: "writer_inv w'" "\<not> m_tagIsOpen w'" "\<not> m_needsNewline w'"
    using closed_inv [OF assms(1)] newline_inv by (auto simp: w'_def)
  have "tags_of (m_os w' @ m_indent w' @ CHR ''<'' # n) = Opening n (rev (m_tags w'))"
    using inv fold_start [OF assms(2)] by (simp add: writer_inv_def tags_of_append fold_content)
  then show ?thesis
    using inv assms(2) by (simp add: startElement_def w'_def [symmetric] Let_def writer_inv_def
      replicate_add [symmetric] flip: replicate_append_same)
qed

lemma end_inv:
  assumes "writer_inv w" and "m_tags w \<noteq> []"
  shows "returns (endElement w) (\<lambda>v. writer_inv v \<and> m_tags v = butlast (m_tags w))"
proof -
  define w' where "w' = newlineIfNecessary w"
  have inv: "writer_inv w'" "\<not> m_needsNewline w'" "m_tags w' = m_tags w"
    using newline_inv [OF assms(1)] by (auto simp: w'_def)
  obtain ts n where tags: "m_tags w = ts @ [n]" using assms(2) by (cases "m_tags w" rule: rev_cases) auto
  have name: "good_name n" using inv(1) tags inv(3) by (simp add: writer_inv_def)
  have indent: "m_indent w' = replicate (2 * length ts + 2) (CHR '' '')"
    using inv tags by (simp add: writer_inv_def)
  show ?thesis
  proof (cases "m_tagIsOpen w'")
    case True
    then show ?thesis
      using inv tags indent by (auto simp: endElement_def w'_def [symmetric] Let_def writer_inv_def tags_of_append newline_def)
  next
    case False
    have "tags_of (m_os w' @ replicate (2 * length ts) (CHR '' '') @ ''</'' @ n @ ''>'' @ newline) = Content (rev ts)"
      using inv tags False fold_end [OF name, of "rev ts"]
      by (simp add: writer_inv_def tags_of_append fold_content newline_def)
    then show ?thesis
      using inv tags indent False by (simp add: endElement_def w'_def [symmetric] Let_def writer_inv_def)
  qed
qed

lemma attribute_inv:
  assumes "writer_inv w" and "good_name a" and "CHR ''<'' \<notin> set t" and "CHR 0x22 \<notin> set t"
  shows "writer_inv (emit ('' '' @ a @ ''='' @ quote @ t @ quote) w)"
proof (cases "m_tagIsOpen w")
  case True
  then show ?thesis
    using assms(1) fold_attribute [OF assms(2-4)] unfolding writer_inv_def
    by (simp only: emit_simps tags_of_append if_True) blast
next
  case False
  then show ?thesis
    using assms(1) fold_attribute_content [OF assms(2,3)] unfolding writer_inv_def
    by (simp only: emit_simps tags_of_append if_False)
qed

lemma safe_encode:
  obtains t where "XmlEncode w str = Inr t" and "CHR ''<'' \<notin> set t" and "w = ForAttributes \<Longrightarrow> CHR 0x22 \<notin> set t"
  using encode_loop_safe [of w str 0] by (auto simp: XmlEncode_def returns_def)

lemma xml_call_inv:
  assumes "writer_inv w" and "good_op a" and "xml_call a w = Inr v"
  shows "writer_inv v"
proof (cases a)
  case (Start n)
  then show ?thesis using assms start_inv by auto
next
  case End
  then show ?thesis
    using assms end_inv [OF assms(1)] by (cases "m_tags w = []") (auto simp: endElement_def returns_def)
next
  case (Attribute n t)
  obtain u where "XmlEncode ForAttributes t = Inr u" "CHR ''<'' \<notin> set u" "CHR 0x22 \<notin> set u"
    by (rule safe_encode [of ForAttributes t]) auto
  then show ?thesis
    using Attribute assms attribute_inv [OF assms(1)] by (auto simp: writeAttribute_def split: if_splits)
next
  case (Attribute_c n t)
  obtain u where "XmlEncode ForAttributes (c_str (the t)) = Inr u" "CHR ''<'' \<notin> set u" "CHR 0x22 \<notin> set u"
    by (rule safe_encode [of ForAttributes "c_str (the t)"]) auto
  then show ?thesis
    using Attribute_c assms attribute_inv [OF assms(1)]
    by (cases t) (auto simp: writeAttribute_c_def split: if_splits)
next
  case (Attribute_bool n b)
  then show ?thesis
    using assms attribute_inv [OF assms(1), of n "if b then ''true'' else ''false''"]
    by (auto simp: writeAttribute_bool_def split: if_splits)
next
  case (Write_text t b)
  obtain u where u: "XmlEncode ForTextNodes t = Inr u" "CHR ''<'' \<notin> set u"
    by (rule safe_encode [of ForTextNodes t]) auto
  define w' where "w' = (if m_tagIsOpen w \<and> b then emit (m_indent (ensureTagClosed w)) (ensureTagClosed w) else ensureTagClosed w)"
  have "CHR ''<'' \<notin> set (m_indent (ensureTagClosed w))"
    using closed_inv [OF assms(1)] by (auto simp: writer_inv_def)
  then have "writer_inv w'" "\<not> m_tagIsOpen w'"
    using closed_inv [OF assms(1)] text_inv(1) by (auto simp: w'_def)
  then show ?thesis
    using Write_text assms(1,3) u text_inv(2) [of w' u]
    by (auto simp: writeText_def Let_def w'_def split: if_splits)
next
  case Close_tag
  then show ?thesis using assms closed_inv(1) by auto
qed

lemma xml_ops_inv: "writer_inv w \<Longrightarrow> list_all good_op as \<Longrightarrow> xml_ops as w = Inr v \<Longrightarrow> writer_inv v"
  by (induction as arbitrary: w) (auto simp: res_bind_eq_Inr dest: xml_call_inv)

lemma end_all_inv:
  "writer_inv w \<Longrightarrow> length (m_tags w) = n \<Longrightarrow> returns (end_all n w) (\<lambda>v. writer_inv v \<and> m_tags v = [])"
proof (induction n arbitrary: w)
  case (Suc n)
  then have "m_tags w \<noteq> []" by auto
  from end_inv [OF Suc.prems(1) this] Suc show ?case
    by (auto elim!: returns_bind)
qed simp

lemma new_writer_inv: "writer_inv (XmlWriter [])" "writer_inv (writeDeclaration (XmlWriter []))"
proof -
  show "writer_inv (XmlWriter [])" by (simp add: writer_inv_def XmlWriter_def tags_of_def)
  have "tags_of (m_os (writeDeclaration (XmlWriter []))) = Content []" by code_simp
  then show "writer_inv (writeDeclaration (XmlWriter []))"
    by (simp add: writer_inv_def) (simp add: writeDeclaration_def XmlWriter_def)
qed

lemma declared_content: "tags_of (m_os (writeDeclaration (XmlWriter []))) = Content []"
  by code_simp

text \<open>
  Whatever calls are made of a writer, as long as no element is ended that was not started and the
  names are names, what it has written once destroyed is a sequence of properly nested elements:
  every start tag has its end tag, in order, and all text and attribute values stay inside theirs.
\<close>

theorem XmlWriter_well_nested:
  assumes "list_all good_op calls" and "decl \<in> {XmlWriter [], writeDeclaration (XmlWriter [])}"
    and "xml_ops calls decl = Inr w"
  shows "returns (XmlWriter_destroy w) (\<lambda>v. tags_of (m_os v) = Content [] \<and> m_tags v = [] \<and> m_indent v = [])"
proof -
  have "writer_inv decl" using assms(2) new_writer_inv by auto
  from xml_ops_inv [OF this assms(1,3)] have "writer_inv w" .
  from end_all_inv [OF this refl] show ?thesis
    unfolding XmlWriter_destroy_def by (rule returns_mono) (auto simp: writer_inv_def split: if_splits)
qed

definition sample_calls :: "xml_op list" where
  "sample_calls = [Start ''doctest'', Attribute ''binary'' ''a<b'', Start ''TestCase'',
     Attribute_bool ''skipped'' True, Write_text ''</doctest>'' True, End, Start ''Options'']"

theorem XmlWriter_well_nested_witness:
  "\<exists>w. xml_ops sample_calls (writeDeclaration (XmlWriter [])) = Inr w \<and>
     returns (XmlWriter_destroy w) (\<lambda>v. tags_of (m_os v) = Content [])"
proof -
  have good: "list_all good_op sample_calls" by code_simp
  have "case xml_ops sample_calls (writeDeclaration (XmlWriter [])) of Inr w \<Rightarrow> True | Inl e \<Rightarrow> False"
    by code_simp
  then obtain w where w: "xml_ops sample_calls (writeDeclaration (XmlWriter [])) = Inr w"
    by (auto split: sum.splits)
  from XmlWriter_well_nested [OF good _ w] show ?thesis
    using w by (auto simp: returns_def)
qed

end
