(* ===== verification/Doctest_Reporting.thy ===== *)
theory Doctest_Reporting
  imports Doctest_Asserts Doctest_Options Doctest_Xml
begin

unbundle bit_operations_syntax

text \<open>
  What the reporters of doctest.h share: the texts of values and file names, the text of an assertion,
  what a reporter reads of its surroundings during a call, and the protocol the calls follow. The
  contract of a reporter, that it keeps an invariant along the protocol, is the locale \<open>reporter\<close>.
\<close>

section \<open>The surroundings of a call\<close>

text \<open>
  What the reporters take from elsewhere: the arithmetic and the two printed forms of a \<open>double\<close>, by
  default and with six digits behind the point; whether stdout is a terminal; the registered reporters
  and listeners.
\<close>

record reporter_env =
  re_fp :: fp_ops
  re_double :: "double \<Rightarrow> string"
  re_fixed :: "double \<Rightarrow> string"
  re_tty :: bool
  re_reporters :: "reporter_key list"
  re_listeners :: "reporter_key list"

text \<open>
  What \<open>g_cs\<close> holds while a call is made, the scopes of \<open>INFO\<close> with the texts they stringify to, the texts
  left by those an exception ended, the counters; and what the clock reads, twice in a row.
\<close>

record call_context =
  cc_contexts :: "string list"
  cc_stringified :: "string list"
  cc_run_data :: run_stats
  cc_now :: ticks
  cc_later :: ticks

type_synonym event = "call_context \<times> reporter_call"

section \<open>Texts\<close>

definition u32_text :: "u32 \<Rightarrow> string" where
  "u32_text x = dec_of_nat (unat x)"

definition i32_text :: "i32 \<Rightarrow> string" where
  "i32_text x = toString_int (sint x)"

definition VERSION_STR :: string where
  "VERSION_STR = ''2.4.12''"

definition file_text :: "context_options \<Rightarrow> string \<Rightarrow> string" where
  "file_text opts src = skipPathFromFilename (opt_no_path_in_filenames opts) (opt_strip_file_prefixes opts) (c_str src)"

definition reporter_line :: "context_options \<Rightarrow> u32 \<Rightarrow> u32" where
  "reporter_line opts l = (if opt_no_line_numbers opts then 0 else l)"

definition color_text :: "reporter_env \<Rightarrow> context_options \<Rightarrow> color \<Rightarrow> string" where
  "color_text env opts code = color_to_stream (opt_no_colors opts) (re_tty env) (opt_force_colors opts) code"

text \<open>\<open>fulltext_log_assert_to_stream\<close>, with \<open>col\<close> what a colour writes.\<close>

definition fulltext_log_assert :: "(color \<Rightarrow> string) \<Rightarrow> assert_data \<Rightarrow> failure + string" where
  "fulltext_log_assert col rb =
     res_bind (assertString (m_at rb)) (\<lambda>macro.
     let throws_as = (m_at rb AND is_throws_as \<noteq> 0); throws_with = (m_at rb AND is_throws_with \<noteq> 0);
         expr = c_str (m_expr rb); ex = c_str (m_exception rb); ex_type = c_str (m_exception_type rb);
         ex_text = quote @ c_str (sc_string (m_exception_string rb)) @ quote;
         start = (if m_at rb AND (is_throws_as OR is_throws_with) = 0
           then col Cyan @ macro @ ''( '' @ expr @ '' ) '' @ col Color_None else [])
     in Inr (start @
       (if m_at rb AND is_throws \<noteq> 0
        then (if m_threw rb then ''threw as expected!'' else ''did NOT throw at all!'') @ newline
        else if throws_as \<and> throws_with
        then col Cyan @ macro @ ''( '' @ expr @ '', '' @ ex_text @ '', '' @ ex_type @ '' ) '' @ col Color_None @
          (if m_threw rb
           then if \<not> m_failed rb then ''threw as expected!'' @ newline
                else ''threw a DIFFERENT exception! (contents: '' @ ex @ '')'' @ newline
           else ''did NOT throw at all!'' @ newline)
        else if throws_as
        then col Cyan @ macro @ ''( '' @ expr @ '', '' @ ex_type @ '' ) '' @ col Color_None @
          (if m_threw rb then if m_threw_as rb then ''threw as expected!'' else ''threw a DIFFERENT exception: ''
           else ''did NOT throw at all!'') @ col Cyan @ ex @ newline
        else if throws_with
        then col Cyan @ macro @ ''( '' @ expr @ '', '' @ ex_text @ '' ) '' @ col Color_None @
          (if m_threw rb then if \<not> m_failed rb then ''threw as expected!'' else ''threw a DIFFERENT exception: ''
           else ''did NOT throw at all!'') @ col Cyan @ ex @ newline
        else if m_at rb AND is_nothrow \<noteq> 0
        then (if m_threw rb then ''THREW exception: '' else ''didn't throw!'') @ col Cyan @ ex @ newline
        else (if m_threw rb then ''THREW exception: ''
              else if \<not> m_failed rb then ''is correct!'' @ newline else ''is NOT correct!'' @ newline) @
          (if m_threw rb then ex @ newline
           else ''  values: '' @ macro @ ''( '' @ c_str (m_decomp rb) @ '' )'' @ newline))))"

section \<open>The protocol of the calls\<close>

text \<open>
  A run is announced, then come test cases, each started and ended or skipped, and the run ends; or all
  there is is the answer to a query. Within a test case subcases nest, and it is entered anew only
  outside of all. An assertion is one of a macro type.
\<close>

datatype phase = Idle | Running | In_case nat | Finished

definition macro_type :: "assert_type \<Rightarrow> bool" where
  "macro_type at = (case assertString at of Inl e \<Rightarrow> False | Inr t \<Rightarrow> True)"

fun protocol :: "phase \<Rightarrow> reporter_call \<Rightarrow> phase option" where
  "protocol Idle Test_run_start = Some Running"
| "protocol Idle (Report_query st results) = Some Finished"
| "protocol Running (Test_case_start tc) = Some (In_case 0)"
| "protocol Running (Test_case_skipped tc) = Some Running"
| "protocol Running (Test_run_end st) = Some Finished"
| "protocol (In_case n) (Subcase_start s) = Some (In_case (Suc n))"
| "protocol (In_case n) Subcase_end = (case n of 0 \<Rightarrow> None | Suc m \<Rightarrow> Some (In_case m))"
| "protocol (In_case n) (Test_case_reenter tc) = (if n = 0 then Some (In_case 0) else None)"
| "protocol (In_case n) (Test_case_end st) = (if n = 0 then Some Running else None)"
| "protocol (In_case n) (Log_assert rb) = (if macro_type (m_at rb) then Some (In_case n) else None)"
| "protocol (In_case n) (Log_message mb) = Some (In_case n)"
| "protocol (In_case n) (Test_case_exception e crash) = Some (In_case n)"
| "protocol ph call = None"

fun protocol_run :: "phase \<Rightarrow> reporter_call list \<Rightarrow> phase option" where
  "protocol_run ph [] = Some ph"
| "protocol_run ph (call # calls) =
     (case protocol ph call of None \<Rightarrow> None | Some ph \<Rightarrow> protocol_run ph calls)"

lemma protocol_run_append:
  "protocol_run ph (xs @ ys) = (case protocol_run ph xs of None \<Rightarrow> None | Some ph \<Rightarrow> protocol_run ph ys)"
  by (induction xs arbitrary: ph) (auto split: option.splits)

lemma protocol_run_snoc:
  "protocol_run ph (xs @ [e]) = (case protocol_run ph xs of None \<Rightarrow> None | Some ph \<Rightarrow> protocol ph e)"
  by (simp add: protocol_run_append split: option.splits)

lemma macro_type_DT: "macro_type (DT lv w)"
  using assertString_spec [of lv w] by (simp add: macro_type_def)

lemma macro_typeE:
  assumes "macro_type at"
  obtains t where "assertString at = Inr t"
  using assms by (auto simp: macro_type_def split: sum.splits)

text \<open>What a call can be, phase by phase.\<close>

lemma protocol_cases:
  assumes "protocol ph call = Some ph'"
  obtains
    (start) "ph = Idle" "call = Test_run_start" "ph' = Running"
  | (query) st results where "ph = Idle" "call = Report_query st results" "ph' = Finished"
  | (begins) tc where "ph = Running" "call = Test_case_start tc" "ph' = In_case 0"
  | (skipped) tc where "ph = Running" "call = Test_case_skipped tc" "ph' = Running"
  | (end_run) st where "ph = Running" "call = Test_run_end st" "ph' = Finished"
  | (enter) n s where "ph = In_case n" "call = Subcase_start s" "ph' = In_case (Suc n)"
  | (leave) n where "ph = In_case (Suc n)" "call = Subcase_end" "ph' = In_case n"
  | (reenter) tc where "ph = In_case 0" "call = Test_case_reenter tc" "ph' = In_case 0"
  | (ends) st where "ph = In_case 0" "call = Test_case_end st" "ph' = Running"
  | (assertion) n rb where "ph = In_case n" "call = Log_assert rb" "ph' = In_case n" "macro_type (m_at rb)"
  | (message) n mb where "ph = In_case n" "call = Log_message mb" "ph' = In_case n"
  | (raised) n e crash where "ph = In_case n" "call = Test_case_exception e crash" "ph' = In_case n"
  using assms by (cases "(ph, call)" rule: protocol.cases) (auto split: nat.splits if_splits)

section \<open>The contract of a reporter\<close>

text \<open>
  A reporter takes one call after the other. It keeps its invariant, which may depend on the calls so far and
  the phase, along every step of the protocol with a call that is acceptable to it; and such a call never fails.
\<close>

fun report_all :: "(call_context \<Rightarrow> reporter_call \<Rightarrow> 's \<Rightarrow> failure + 's) \<Rightarrow> event list \<Rightarrow> 's \<Rightarrow> failure + 's" where
  "report_all step [] s = Inr s"
| "report_all step (e # es) s = res_bind (step (fst e) (snd e) s) (report_all step es)"

locale reporter =
  fixes step :: "call_context \<Rightarrow> reporter_call \<Rightarrow> 's \<Rightarrow> failure + 's"
    and inv :: "reporter_call list \<Rightarrow> phase \<Rightarrow> 's \<Rightarrow> bool"
    and acceptable :: "reporter_call \<Rightarrow> bool"
  assumes step_keeps: "inv heard ph s \<Longrightarrow> protocol ph call = Some ph' \<Longrightarrow> acceptable call \<Longrightarrow>
    returns (step cc call s) (inv (heard @ [call]) ph')"
begin

lemma keeps_from:
  assumes "inv heard ph s" and "protocol_run ph (map snd es) = Some ph'" and "list_all acceptable (map snd es)"
  shows "returns (report_all step es s) (inv (heard @ map snd es) ph')"
  using assms
proof (induction es arbitrary: heard ph s)
  case (Cons e es)
  then obtain ph1 where ph1: "protocol ph (snd e) = Some ph1" "protocol_run ph1 (map snd es) = Some ph'"
    by (auto split: option.splits)
  have "returns (step (fst e) (snd e) s) (inv (heard @ [snd e]) ph1)"
    using step_keeps [OF Cons.prems(1) ph1(1)] Cons.prems(3) by simp
  then show ?case using Cons.IH [OF _ ph1(2), of "heard @ [snd e]"] Cons.prems(3) by (auto intro: returns_bind)
qed simp

lemma keeps:
  assumes "inv [] Idle s" and "protocol_run Idle (map snd es) = Some ph" and "list_all acceptable (map snd es)"
  shows "returns (report_all step es s) (inv (map snd es) ph)"
  using keeps_from [OF assms] by simp

end

end
