(* ===== verification/Doctest_Xml_Reporter.thy ===== *)
theory Doctest_Xml_Reporter
  imports Doctest_Reporting Doctest_Run
begin

unbundle bit_operations_syntax

text \<open>
  \<open>XmlReporter\<close> of doctest.h. A method is the list of the calls it makes of its writer, in order; a scoped
  element ends with the statement it is made in. A pointer it reads before it was set is a failure.
\<close>

section \<open>The methods\<close>

record xml_reporter =
  xr_xml :: xml_writer
  xr_tc :: "test_case option"

definition XmlReporter :: "string \<Rightarrow> xml_reporter" where
  "XmlReporter os = \<lparr>xr_xml = XmlWriter os, xr_tc = None\<rparr>"

definition xr_emit :: "xml_op list \<Rightarrow> xml_reporter \<Rightarrow> failure + xml_reporter" where
  "xr_emit ops x = res_bind (xml_ops ops (xr_xml x)) (\<lambda>w. Inr (x\<lparr>xr_xml := w\<rparr>))"

definition xr_log_contexts :: "string list \<Rightarrow> xml_op list" where
  "xr_log_contexts contexts = concat (map (\<lambda>t. [Start ''Info'', Write_text t True, End]) contexts)"

text \<open>The two halves of \<open>test_case_start_impl\<close>: the suite's tag, and the test case's.\<close>

definition suite_tag :: "test_case option \<Rightarrow> test_case \<Rightarrow> xml_op list" where
  "suite_tag tc inp =
     (let end_tag = (case tc of Some t \<Rightarrow> strcmp (m_test_suite t) (m_test_suite inp) \<noteq> 0 | None \<Rightarrow> False);
          open_ts_tag = (case tc of Some t \<Rightarrow> end_tag | None \<Rightarrow> True)
      in (if end_tag then [End] else []) @
         (if open_ts_tag then [Start ''TestSuite'', Attribute_c ''name'' (Some (m_test_suite inp))] else []))"

definition case_tag :: "reporter_env \<Rightarrow> context_options \<Rightarrow> test_case \<Rightarrow> xml_op list" where
  "case_tag env opts inp =
     [Start ''TestCase'',
      Attribute_c ''name'' (Some (m_name inp)),
      Attribute_c ''filename'' (Some (file_text opts (m_file inp))),
      Attribute ''line'' (u32_text (reporter_line opts (m_line inp))),
      Attribute_c ''description'' (m_description inp)] @
     (if Approx_ne (re_fp env) (Approx (re_fp env) (m_timeout inp)) 0
      then [Attribute ''timeout'' (re_double env (m_timeout inp))] else []) @
     (if m_may_fail inp then [Attribute_bool ''may_fail'' True] else []) @
     (if m_should_fail inp then [Attribute_bool ''should_fail'' True] else [])"

definition xr_test_case_start_impl :: "reporter_env \<Rightarrow> context_options \<Rightarrow> test_case \<Rightarrow> xml_reporter \<Rightarrow> failure + xml_reporter" where
  "xr_test_case_start_impl env opts inp x =
     res_bind (xr_emit (suite_tag (xr_tc x) inp) x) (\<lambda>x. xr_emit (case_tag env opts inp) (x\<lparr>xr_tc := Some inp\<rparr>))"

definition xr_test_run_start :: "context_options \<Rightarrow> xml_reporter \<Rightarrow> failure + xml_reporter" where
  "xr_test_run_start opts x =
     xr_emit ([Start ''doctest'', Attribute ''binary'' (file_text opts (opt_binary_name opts))] @
       (if \<not> opt_no_version opts then [Attribute_c ''version'' (Some VERSION_STR)] else []) @
       [Start ''Options'',
        Attribute_c ''order_by'' (Some (opt_order_by opts)),
        Attribute ''rand_seed'' (u32_text (opt_rand_seed opts)),
        Attribute ''first'' (u32_text (opt_first opts)),
        Attribute ''last'' (u32_text (opt_last opts)),
        Attribute ''abort_after'' (i32_text (opt_abort_after opts)),
        Attribute ''subcase_filter_levels'' (i32_text (opt_subcase_filter_levels opts)),
        Attribute_bool ''case_sensitive'' (opt_case_sensitive opts),
        Attribute_bool ''no_throw'' (opt_no_throw opts),
        Attribute_bool ''no_skip'' (opt_no_skip opts),
        End]) (x\<lparr>xr_xml := writeDeclaration (xr_xml x)\<rparr>)"

definition listed_reporters :: "string \<Rightarrow> reporter_key list \<Rightarrow> xml_op list" where
  "listed_reporters tag keys = concat (map (\<lambda>(priority, name).
     [Start tag, Attribute ''priority'' (toString_int priority), Attribute ''name'' (c_str name), End]) keys)"

definition listed_cases :: "context_options \<Rightarrow> test_case list \<Rightarrow> xml_op list" where
  "listed_cases opts tests = concat (map (\<lambda>tc.
     [Start ''TestCase'',
      Attribute_c ''name'' (Some (m_name tc)),
      Attribute_c ''testsuite'' (Some (m_test_suite tc)),
      Attribute_c ''filename'' (Some (file_text opts (m_file tc))),
      Attribute ''line'' (u32_text (reporter_line opts (m_line tc))),
      Attribute_bool ''skipped'' (m_skip tc),
      End]) tests)"

definition listed_suites :: "test_case list \<Rightarrow> xml_op list" where
  "listed_suites tests = concat (map (\<lambda>tc.
     [Start ''TestSuite'', Attribute_c ''name'' (Some (m_test_suite tc)), End]) tests)"

definition unskipped :: "string \<Rightarrow> u32 \<Rightarrow> xml_op list" where
  "unskipped tag n = [Start tag, Attribute ''unskipped'' (u32_text n), End]"

text \<open>The answer to a query. The pointer to the counters is read only where tests or suites are listed.\<close>

definition query_answer :: "reporter_env \<Rightarrow> context_options \<Rightarrow> run_stats option \<Rightarrow> test_case list \<Rightarrow> failure + xml_op list" where
  "query_answer env opts st tests =
     (if opt_list_reporters opts
      then Inr (listed_reporters ''Listener'' (re_listeners env) @ listed_reporters ''Reporter'' (re_reporters env))
      else if opt_count opts \<or> opt_list_test_cases opts
      then (case st of
          None \<Rightarrow> Inl Null_deref
        | Some p \<Rightarrow> Inr (listed_cases opts tests @
            unskipped ''OverallResultsTestCases'' (numTestCasesPassingFilters p)))
      else if opt_list_test_suites opts
      then (case st of
          None \<Rightarrow> Inl Null_deref
        | Some p \<Rightarrow> Inr (listed_suites tests @
            unskipped ''OverallResultsTestCases'' (numTestCasesPassingFilters p) @
            unskipped ''OverallResultsTestSuites'' (numTestSuitesPassingFilters p)))
      else Inr [])"

definition xr_report_query :: "reporter_env \<Rightarrow> context_options \<Rightarrow> run_stats option \<Rightarrow> test_case list \<Rightarrow> xml_reporter \<Rightarrow> failure + xml_reporter" where
  "xr_report_query env opts st tests x =
     res_bind (xr_test_run_start opts x) (\<lambda>x.
     res_bind (query_answer env opts st tests) (\<lambda>ops. xr_emit (ops @ [End]) x))"

definition xr_test_run_end :: "context_options \<Rightarrow> run_stats \<Rightarrow> xml_reporter \<Rightarrow> failure + xml_reporter" where
  "xr_test_run_end opts p x =
     xr_emit ((if xr_tc x \<noteq> None then [End] else []) @
       [Start ''OverallResultsAsserts'',
        Attribute ''successes'' (i32_text (numAsserts p - numAssertsFailed p)),
        Attribute ''failures'' (i32_text (numAssertsFailed p)),
        End,
        Start ''OverallResultsTestCases'',
        Attribute ''successes'' (u32_text (numTestCasesPassingFilters p - numTestCasesFailed p)),
        Attribute ''failures'' (u32_text (numTestCasesFailed p))] @
       (if \<not> opt_no_skipped_summary opts
        then [Attribute ''skipped'' (u32_text (numTestCases p - numTestCasesPassingFilters p))] else []) @
       [End, End]) x"

definition xr_test_case_start :: "reporter_env \<Rightarrow> context_options \<Rightarrow> test_case \<Rightarrow> xml_reporter \<Rightarrow> failure + xml_reporter" where
  "xr_test_case_start env opts inp x = res_bind (xr_test_case_start_impl env opts inp x) (xr_emit [Close_tag])"

definition xr_test_case_end :: "reporter_env \<Rightarrow> context_options \<Rightarrow> test_case_stats \<Rightarrow> xml_reporter \<Rightarrow> failure + xml_reporter" where
  "xr_test_case_end env opts st x =
     (case xr_tc x of
        None \<Rightarrow> Inl Null_deref
      | Some tc \<Rightarrow> xr_emit ([Start ''OverallResultsAsserts'',
          Attribute ''successes'' (i32_text (numAssertsCurrentTest st - numAssertsFailedCurrentTest st)),
          Attribute ''failures'' (i32_text (numAssertsFailedCurrentTest st)),
          Attribute_bool ''test_case_success'' (testCaseSuccess st)] @
         (if opt_duration opts then [Attribute ''duration'' (re_double env (seconds st))] else []) @
         (if m_expected_failures tc \<noteq> 0
          then [Attribute ''expected_failures'' (i32_text (m_expected_failures tc))] else []) @
         [End, End]) x)"

definition xr_test_case_exception :: "string \<Rightarrow> bool \<Rightarrow> xml_reporter \<Rightarrow> failure + xml_reporter" where
  "xr_test_case_exception error_string is_crash x =
     xr_emit [Start ''Exception'', Attribute_bool ''crash'' is_crash, Write_text (c_str error_string) True, End] x"

definition xr_subcase_start :: "context_options \<Rightarrow> subcase_signature \<Rightarrow> xml_reporter \<Rightarrow> failure + xml_reporter" where
  "xr_subcase_start opts inp x =
     xr_emit [Start ''SubCase'',
       Attribute ''name'' (c_str (sig_name inp)),
       Attribute_c ''filename'' (Some (file_text opts (sig_file inp))),
       Attribute ''line'' (u32_text (reporter_line opts (word_of_int (sig_line inp)))),
       Close_tag] x"

definition xr_subcase_end :: "xml_reporter \<Rightarrow> failure + xml_reporter" where
  "xr_subcase_end x = xr_emit [End] x"

definition xr_log_assert :: "context_options \<Rightarrow> string list \<Rightarrow> assert_data \<Rightarrow> xml_reporter \<Rightarrow> failure + xml_reporter" where
  "xr_log_assert opts contexts rb x =
     (if \<not> m_failed rb \<and> \<not> opt_success opts then Inr x
      else res_bind (assertString (m_at rb)) (\<lambda>macro.
        xr_emit ([Start ''Expression'',
          Attribute_bool ''success'' (\<not> m_failed rb),
          Attribute_c ''type'' (Some macro),
          Attribute_c ''filename'' (Some (file_text opts (a_file rb))),
          Attribute ''line'' (u32_text (reporter_line opts (word_of_int (a_line rb)))),
          Start ''Original'', Write_text (c_str (m_expr rb)) True, End] @
         (if m_threw rb then [Start ''Exception'', Write_text (c_str (m_exception rb)) True, End] else []) @
         (if m_at rb AND is_throws_as \<noteq> 0
          then [Start ''ExpectedException'', Write_text (c_str (m_exception_type rb)) True, End] else []) @
         (if m_at rb AND is_throws_with \<noteq> 0
          then [Start ''ExpectedExceptionString'', Write_text (c_str (sc_string (m_exception_string rb))) True, End] else []) @
         (if m_at rb AND is_normal \<noteq> 0 \<and> \<not> m_threw rb
          then [Start ''Expanded'', Write_text (c_str (m_decomp rb)) True, End] else []) @
         xr_log_contexts contexts @ [End]) x))"

definition xr_log_message :: "context_options \<Rightarrow> string list \<Rightarrow> message_data \<Rightarrow> xml_reporter \<Rightarrow> failure + xml_reporter" where
  "xr_log_message opts contexts mb x =
     xr_emit ([Start ''Message'',
       Attribute_c ''type'' (Some (failureString (m_severity mb))),
       Attribute_c ''filename'' (Some (file_text opts (msg_file mb))),
       Attribute ''line'' (u32_text (reporter_line opts (word_of_int (msg_line mb)))),
       Start ''Text'', Write_text (c_str (m_string mb)) True, End] @
      xr_log_contexts contexts @ [End]) x"

definition xr_test_case_skipped :: "reporter_env \<Rightarrow> context_options \<Rightarrow> test_case \<Rightarrow> xml_reporter \<Rightarrow> failure + xml_reporter" where
  "xr_test_case_skipped env opts inp x =
     (if \<not> opt_no_skipped_summary opts
      then res_bind (xr_test_case_start_impl env opts inp x)
        (xr_emit [Attribute_c ''skipped'' (Some ''true''), End])
      else Inr x)"

text \<open>The virtual calls.\<close>

fun xr_call :: "reporter_env \<Rightarrow> context_options \<Rightarrow> call_context \<Rightarrow> reporter_call \<Rightarrow> xml_reporter \<Rightarrow> failure + xml_reporter" where
  "xr_call env opts cc (Report_query st tests) x = xr_report_query env opts st tests x"
| "xr_call env opts cc Test_run_start x = xr_test_run_start opts x"
| "xr_call env opts cc (Test_run_end p) x = xr_test_run_end opts p x"
| "xr_call env opts cc (Test_case_start tc) x = xr_test_case_start env opts tc x"
| "xr_call env opts cc (Test_case_reenter tc) x = Inr x"
| "xr_call env opts cc (Test_case_end st) x = xr_test_case_end env opts st x"
| "xr_call env opts cc (Test_case_exception e crash) x = xr_test_case_exception e crash x"
| "xr_call env opts cc (Subcase_start s) x = xr_subcase_start opts s x"
| "xr_call env opts cc Subcase_end x = xr_subcase_end x"
| "xr_call env opts cc (Log_assert rb) x = xr_log_assert opts (cc_contexts cc) rb x"
| "xr_call env opts cc (Log_message mb) x = xr_log_message opts (cc_contexts cc) mb x"
| "xr_call env opts cc (Test_case_skipped tc) x = xr_test_case_skipped env opts tc x"

section \<open>What the writer's stack becomes\<close>

fun ops_stack :: "xml_op list \<Rightarrow> string list \<Rightarrow> string list option" where
  "ops_stack [] ts = Some ts"
| "ops_stack (Start n # ops) ts = ops_stack ops (ts @ [n])"
| "ops_stack (End # ops) ts = (if ts = [] then None else ops_stack ops (butlast ts))"
| "ops_stack (_ # ops) ts = ops_stack ops ts"

lemma ops_stack_append:
  "ops_stack (xs @ ys) ts = (case ops_stack xs ts of None \<Rightarrow> None | Some us \<Rightarrow> ops_stack ys us)"
  by (induction xs ts rule: ops_stack.induct) simp_all

lemma xml_call_stack:
  assumes "writer_inv w" and "good_op a" and "ops_stack [a] (m_tags w) = Some ts"
  shows "returns (xml_call a w) (\<lambda>v. writer_inv v \<and> m_tags v = ts)"
proof -
  obtain t where t: "XmlEncode ForAttributes (case a of Attribute n u \<Rightarrow> u | Attribute_c n u \<Rightarrow> c_str (the u) | _ \<Rightarrow> []) = Inr t"
    by (rule safe_encode)
  obtain u where u: "XmlEncode ForTextNodes (case a of Write_text v b \<Rightarrow> v | _ \<Rightarrow> []) = Inr u"
    by (rule safe_encode)
  have "returns (xml_call a w) (\<lambda>v. m_tags v = ts)"
    using assms(3) t u
    by (cases a) (auto simp: startElement_def newlineIfNecessary_def ensureTagClosed_def endElement_def Let_def
        writeAttribute_def writeAttribute_c_def writeAttribute_bool_def writeText_def split: option.splits if_splits)
  then show ?thesis using xml_call_inv [OF assms(1,2)] by (auto simp: returns_def)
qed

lemma xml_ops_stack:
  "writer_inv w \<Longrightarrow> list_all good_op ops \<Longrightarrow> ops_stack ops (m_tags w) = Some ts \<Longrightarrow>
   returns (xml_ops ops w) (\<lambda>v. writer_inv v \<and> m_tags v = ts)"
proof (induction ops arbitrary: w)
  case (Cons a ops)
  have "ops_stack (a # ops) (m_tags w) = (case ops_stack [a] (m_tags w) of None \<Rightarrow> None | Some us \<Rightarrow> ops_stack ops us)"
    using ops_stack_append [of "[a]" ops] by simp
  then obtain us where us: "ops_stack [a] (m_tags w) = Some us" "ops_stack ops us = Some ts"
    using Cons.prems(3) by (auto split: option.splits)
  have "returns (xml_call a w) (\<lambda>v. writer_inv v \<and> m_tags v = us)"
    using xml_call_stack [OF Cons.prems(1) _ us(1)] Cons.prems(2) by simp
  then show ?case using Cons.IH Cons.prems(2) us(2) by (auto intro: returns_bind)
qed simp

lemma xr_emit_stack:
  assumes "writer_inv (xr_xml x)" and "list_all good_op ops" and "ops_stack ops (m_tags (xr_xml x)) = Some ts"
  shows "returns (xr_emit ops x) (\<lambda>y. writer_inv (xr_xml y) \<and> m_tags (xr_xml y) = ts \<and> xr_tc y = xr_tc x)"
  using xml_ops_stack [OF assms] by (auto simp: xr_emit_def returns_def)

text \<open>Groups of elements that leave the stack as it was.\<close>

definition closed_ops :: "xml_op list \<Rightarrow> bool" where
  "closed_ops ops \<longleftrightarrow> list_all good_op ops \<and> (\<forall>ts. ops_stack ops ts = Some ts)"

lemma closed_append: "closed_ops xs \<Longrightarrow> closed_ops ys \<Longrightarrow> closed_ops (xs @ ys)"
  by (simp add: closed_ops_def ops_stack_append)

lemma closed_concat: "(\<And>x. x \<in> set xs \<Longrightarrow> closed_ops (f x)) \<Longrightarrow> closed_ops (concat (map f xs))"
proof (induction xs)
  case Nil
  then show ?case by (simp add: closed_ops_def)
next
  case (Cons x xs)
  then have "closed_ops (f x)" "closed_ops (concat (map f xs))" by auto
  then show ?case by (simp add: closed_append)
qed

lemma closed_groups:
  "closed_ops (xr_log_contexts contexts)"
  "closed_ops (listed_reporters ''Listener'' keys)" "closed_ops (listed_reporters ''Reporter'' keys)"
  "closed_ops (listed_cases opts tests)" "closed_ops (listed_suites tests)"
  unfolding xr_log_contexts_def listed_reporters_def listed_cases_def listed_suites_def
  by (rule closed_concat, simp add: closed_ops_def good_name_def split: prod.splits)+

lemma closed_unskipped:
  "closed_ops (unskipped ''OverallResultsTestCases'' n)" "closed_ops (unskipped ''OverallResultsTestSuites'' n)"
  by (simp_all add: unskipped_def closed_ops_def good_name_def)

lemma query_answer_closed:
  "query_answer env opts st tests = Inr ops \<Longrightarrow> closed_ops ops"
  by (auto simp: query_answer_def closed_groups closed_unskipped closed_append closed_ops_def [of "[]"] split: if_splits option.splits)

section \<open>The invariant\<close>

text \<open>The elements open in a phase, given whether a test case was reported yet.\<close>

fun open_elements :: "phase \<Rightarrow> bool \<Rightarrow> string list" where
  "open_elements Idle seen = []"
| "open_elements Running seen = ''doctest'' # (if seen then [''TestSuite''] else [])"
| "open_elements (In_case n) seen = [''doctest'', ''TestSuite'', ''TestCase''] @ replicate n ''SubCase''"
| "open_elements Finished seen = []"

definition xr_inv :: "phase \<Rightarrow> xml_reporter \<Rightarrow> bool" where
  "xr_inv ph x \<longleftrightarrow> writer_inv (xr_xml x) \<and> m_tags (xr_xml x) = open_elements ph (xr_tc x \<noteq> None) \<and>
     (case ph of Idle \<Rightarrow> xr_tc x = None \<and> xr_xml x = XmlWriter [] | In_case n \<Rightarrow> xr_tc x \<noteq> None | _ \<Rightarrow> True)"

text \<open>The pointer to the counters must not be null when tests or suites are listed.\<close>

definition xr_acceptable :: "context_options \<Rightarrow> reporter_call \<Rightarrow> bool" where
  "xr_acceptable opts call = (case call of
     Report_query None tests \<Rightarrow> opt_list_reporters opts \<or> \<not> query_mode opts | _ \<Rightarrow> True)"

lemma good_names:
  "good_name ''doctest''" "good_name ''TestSuite''" "good_name ''TestCase''" "good_name ''SubCase''"
  by (simp_all add: good_name_def)

lemma open_elements_good: "list_all good_name (open_elements ph seen)"
  by (cases ph) (auto simp: good_names list_all_iff)

lemma suite_tag_ops:
  "list_all good_op (suite_tag tc inp)"
  "ops_stack (suite_tag tc inp) (open_elements Running (tc \<noteq> None)) = Some [''doctest'', ''TestSuite'']"
  by (auto simp: suite_tag_def Let_def good_name_def split: option.splits)

lemma case_tag_ops:
  "list_all good_op (case_tag env opts inp)" "ops_stack (case_tag env opts inp) ts = Some (ts @ [''TestCase''])"
  by (simp_all add: case_tag_def good_name_def)

lemma test_case_start_impl_inv:
  assumes "xr_inv Running x"
  shows "returns (xr_test_case_start_impl env opts inp x) (\<lambda>y. writer_inv (xr_xml y) \<and>
    m_tags (xr_xml y) = open_elements (In_case 0) True \<and> xr_tc y = Some inp)"
  unfolding xr_test_case_start_impl_def
proof (rule returns_bind)
  show "returns (xr_emit (suite_tag (xr_tc x) inp) x) (\<lambda>y. writer_inv (xr_xml y) \<and>
      m_tags (xr_xml y) = [''doctest'', ''TestSuite''] \<and> xr_tc y = xr_tc x)"
    using assms suite_tag_ops by (intro xr_emit_stack) (auto simp: xr_inv_def)
  fix y :: xml_reporter
  assume "writer_inv (xr_xml y) \<and> m_tags (xr_xml y) = [''doctest'', ''TestSuite''] \<and> xr_tc y = xr_tc x"
  then show "returns (xr_emit (case_tag env opts inp) (y\<lparr>xr_tc := Some inp\<rparr>)) (\<lambda>y. writer_inv (xr_xml y) \<and>
      m_tags (xr_xml y) = open_elements (In_case 0) True \<and> xr_tc y = Some inp)"
    using xr_emit_stack [of "y\<lparr>xr_tc := Some inp\<rparr>" "case_tag env opts inp", OF _ case_tag_ops] by simp
qed

text \<open>A statement of the test body is reported between what is open.\<close>

lemma emit_inv:
  assumes "xr_inv ph x" and "list_all good_op ops" and "ops_stack ops (m_tags (xr_xml x)) = Some (open_elements ph' (xr_tc x \<noteq> None))"
    and "ph' \<noteq> Idle" and "\<And>n. ph' = In_case n \<Longrightarrow> xr_tc x \<noteq> None"
  shows "returns (xr_emit ops x) (xr_inv ph')"
proof (rule returns_mono [OF xr_emit_stack [OF _ assms(2,3)]])
  show "writer_inv (xr_xml x)" using assms(1) by (simp add: xr_inv_def)
  fix y :: xml_reporter
  assume "writer_inv (xr_xml y) \<and> m_tags (xr_xml y) = open_elements ph' (xr_tc x \<noteq> None) \<and> xr_tc y = xr_tc x"
  then show "xr_inv ph' y" using assms(4,5) by (cases ph') (simp_all add: xr_inv_def)
qed

lemma closed_inv_ops: "closed_ops ops \<Longrightarrow> xr_inv ph x \<Longrightarrow> ph \<noteq> Idle \<Longrightarrow> returns (xr_emit ops x) (xr_inv ph)"
  by (rule emit_inv) (auto simp: closed_ops_def xr_inv_def)

lemma test_run_start_inv:
  assumes "xr_inv Idle x"
  shows "returns (xr_test_run_start opts x) (\<lambda>y. writer_inv (xr_xml y) \<and> m_tags (xr_xml y) = [''doctest''] \<and> xr_tc y = None)"
proof -
  have x: "xr_xml x = XmlWriter []" "xr_tc x = None" using assms by (simp_all add: xr_inv_def)
  have "m_tags (writeDeclaration (XmlWriter [])) = []" by (simp add: writeDeclaration_def XmlWriter_def)
  then show ?thesis
    unfolding xr_test_run_start_def x(1)
    by (intro returns_mono [OF xr_emit_stack [where ts = "[''doctest'']"]])
       (auto simp: new_writer_inv x(2) good_name_def)
qed

lemma test_case_start_inv:
  assumes "xr_inv Running x"
  shows "returns (xr_test_case_start env opts tc x) (xr_inv (In_case 0))"
  unfolding xr_test_case_start_def
proof (rule returns_bind [OF test_case_start_impl_inv [OF assms]])
  fix y :: xml_reporter
  assume "writer_inv (xr_xml y) \<and> m_tags (xr_xml y) = open_elements (In_case 0) True \<and> xr_tc y = Some tc"
  then have "xr_inv (In_case 0) y" by (simp add: xr_inv_def)
  then show "returns (xr_emit [Close_tag] y) (xr_inv (In_case 0))"
    by (rule closed_inv_ops [rotated]) (simp_all add: closed_ops_def)
qed

lemma test_case_skipped_inv:
  assumes "xr_inv Running x"
  shows "returns (xr_test_case_skipped env opts tc x) (xr_inv Running)"
proof (cases "opt_no_skipped_summary opts")
  case False
  have "returns (res_bind (xr_test_case_start_impl env opts tc x)
      (xr_emit [Attribute_c ''skipped'' (Some ''true''), End])) (xr_inv Running)"
  proof (rule returns_bind [OF test_case_start_impl_inv [OF assms]])
    fix y :: xml_reporter
    assume "writer_inv (xr_xml y) \<and> m_tags (xr_xml y) = open_elements (In_case 0) True \<and> xr_tc y = Some tc"
    then show "returns (xr_emit [Attribute_c ''skipped'' (Some ''true''), End] y) (xr_inv Running)"
      by (intro emit_inv [where ph = "In_case 0"]) (simp_all add: xr_inv_def good_name_def)
  qed
  then show ?thesis using False by (simp add: xr_test_case_skipped_def)
qed (simp add: xr_test_case_skipped_def assms)

lemma test_run_end_inv:
  assumes "xr_inv Running x"
  shows "returns (xr_test_run_end opts p x) (xr_inv Finished)"
  unfolding xr_test_run_end_def
  by (rule emit_inv [OF assms]) (use assms in \<open>auto simp: xr_inv_def good_name_def\<close>)

lemma report_query_inv:
  assumes "xr_inv Idle x" and "xr_acceptable opts (Report_query st tests)"
  shows "returns (xr_report_query env opts st tests x) (xr_inv Finished)"
  unfolding xr_report_query_def
proof (rule returns_bind [OF test_run_start_inv [OF assms(1)]])
  fix y :: xml_reporter
  assume y: "writer_inv (xr_xml y) \<and> m_tags (xr_xml y) = [''doctest''] \<and> xr_tc y = None"
  have "\<exists>ops. query_answer env opts st tests = Inr ops"
    using assms(2) by (cases st) (auto simp: query_answer_def xr_acceptable_def query_mode_def)
  then obtain ops where ops: "query_answer env opts st tests = Inr ops" by blast
  have "xr_inv Running y" using y by (simp add: xr_inv_def)
  then have "returns (xr_emit (ops @ [End]) y) (xr_inv Finished)"
    using y query_answer_closed [OF ops] by (intro emit_inv) (auto simp: closed_ops_def ops_stack_append)
  then show "returns (res_bind (query_answer env opts st tests) (\<lambda>ops. xr_emit (ops @ [End]) y)) (xr_inv Finished)"
    using ops by simp
qed

lemma test_case_end_inv:
  assumes "xr_inv (In_case 0) x"
  shows "returns (xr_test_case_end env opts st x) (xr_inv Running)"
proof -
  obtain tc where tc: "xr_tc x = Some tc" using assms by (auto simp: xr_inv_def)
  show ?thesis
    unfolding xr_test_case_end_def tc option.case
    by (rule emit_inv [OF assms]) (use assms tc in \<open>simp_all add: xr_inv_def good_name_def\<close>)
qed

lemma replicate_snoc: "replicate n x @ [x] = x # replicate n x"
  by (rule replicate_append_same)

lemma subcase_inv:
  assumes "xr_inv (In_case n) x"
  shows "returns (xr_subcase_start opts s x) (xr_inv (In_case (Suc n)))"
    and "n = Suc m \<Longrightarrow> returns (xr_subcase_end x) (xr_inv (In_case m))"
proof -
  show "returns (xr_subcase_start opts s x) (xr_inv (In_case (Suc n)))"
    unfolding xr_subcase_start_def
    by (rule emit_inv [OF assms]) (use assms in \<open>auto simp: xr_inv_def good_name_def replicate_snoc\<close>)
  assume n: "n = Suc m"
  show "returns (xr_subcase_end x) (xr_inv (In_case m))"
    unfolding xr_subcase_end_def
    by (rule emit_inv [OF assms])
       (use assms n in \<open>auto simp: xr_inv_def butlast_append simp flip: replicate_append_same\<close>)
qed

lemma statement_inv:
  assumes "xr_inv (In_case n) x"
  shows "returns (xr_test_case_exception e crash x) (xr_inv (In_case n))"
    and "macro_type (m_at rb) \<Longrightarrow> returns (xr_log_assert opts contexts rb x) (xr_inv (In_case n))"
    and "returns (xr_log_message opts contexts mb x) (xr_inv (In_case n))"
proof -
  show "returns (xr_test_case_exception e crash x) (xr_inv (In_case n))"
    unfolding xr_test_case_exception_def
    by (rule closed_inv_ops [OF _ assms]) (simp_all add: closed_ops_def good_name_def)
  have contexts: "list_all good_op (xr_log_contexts contexts)" "\<And>ts. ops_stack (xr_log_contexts contexts) ts = Some ts"
    using closed_groups(1) by (simp_all add: closed_ops_def)
  show "returns (xr_log_message opts contexts mb x) (xr_inv (In_case n))"
    unfolding xr_log_message_def
    by (rule closed_inv_ops [OF _ assms]) (simp_all add: closed_ops_def good_name_def ops_stack_append contexts butlast_append)
  assume "macro_type (m_at rb)"
  then obtain t where t: "assertString (m_at rb) = Inr t" by (rule macro_typeE)
  show "returns (xr_log_assert opts contexts rb x) (xr_inv (In_case n))"
  proof (cases "\<not> m_failed rb \<and> \<not> opt_success opts")
    case False
    then show ?thesis
      unfolding xr_log_assert_def t res_bind_Inr if_not_P [OF False]
      by (intro closed_inv_ops [OF _ assms])
         (simp_all add: closed_ops_def good_name_def ops_stack_append contexts butlast_append)
  qed (simp add: xr_log_assert_def assms)
qed

interpretation xml: reporter "xr_call env opts" "\<lambda>heard. xr_inv" "xr_acceptable opts" for env opts
proof
  fix ph ph' call cc and x :: xml_reporter
  assume inv: "xr_inv ph x" and step: "protocol ph call = Some ph'" and ok: "xr_acceptable opts call"
  from step show "returns (xr_call env opts cc call x) (xr_inv ph')"
  proof (cases rule: protocol_cases)
    case start
    have "writer_inv (xr_xml y) \<and> m_tags (xr_xml y) = [''doctest''] \<and> xr_tc y = None \<Longrightarrow> xr_inv Running y" for y :: xml_reporter
      by (simp add: xr_inv_def)
    then show ?thesis using start inv returns_mono [OF test_run_start_inv] by simp
  qed (use inv ok test_case_start_inv test_case_skipped_inv test_run_end_inv report_query_inv test_case_end_inv
      subcase_inv statement_inv in auto)
qed

section \<open>The document\<close>

text \<open>The elements a reader of the output so far has seen the start of and not the end, from the innermost.\<close>

fun read_stack :: "tag_state \<Rightarrow> string list" where
  "read_stack (Content st) = st"
| "read_stack (Opening n st) = n # st"
| "read_stack (Attrs n st) = n # st"
| "read_stack _ = []"

lemma read_stack_inv:
  assumes "writer_inv w"
  shows "read_stack (tags_of (m_os w)) = rev (m_tags w)"
proof (cases "m_tagIsOpen w")
  case True
  moreover have "last ts # rev (butlast ts) = rev ts" if "ts \<noteq> []" for ts :: "string list"
    using that by (cases ts rule: rev_cases) simp_all
  ultimately show ?thesis using assms by (auto simp: writer_inv_def)
qed (use assms in \<open>simp add: writer_inv_def\<close>)

lemma XmlReporter_inv: "xr_inv Idle (XmlReporter [])"
  by (simp add: xr_inv_def XmlReporter_def new_writer_inv) (simp add: XmlWriter_def)

lemma finished_document: "xr_inv Finished x \<Longrightarrow> tags_of (m_os (xr_xml x)) = Content [] \<and> m_tags (xr_xml x) = []"
  by (auto simp: xr_inv_def writer_inv_def split: if_splits)

lemma destroyed_document:
  assumes "xr_inv ph x"
  shows "returns (XmlWriter_destroy (xr_xml x)) (\<lambda>w. tags_of (m_os w) = Content [])"
proof -
  have "writer_inv (xr_xml x)" using assms by (simp add: xr_inv_def)
  from end_all_inv [OF this refl] show ?thesis
    unfolding XmlWriter_destroy_def by (rule returns_mono) (auto simp: writer_inv_def split: if_splits)
qed

text \<open>
  A query is the only call of its run; so along the protocol the one call the reporter cannot take, a query
  to count or list without counters, comes alone.
\<close>

lemma acceptable_started: "protocol_run ph calls = Some ph' \<Longrightarrow> ph \<noteq> Idle \<Longrightarrow> list_all (xr_acceptable opts) calls"
proof (induction calls arbitrary: ph)
  case (Cons call calls)
  then obtain ph1 where "protocol ph call = Some ph1" "protocol_run ph1 calls = Some ph'"
    by (auto split: option.splits)
  then show ?case using Cons.IH [of ph1] Cons.prems(2)
    by (auto simp: xr_acceptable_def elim!: protocol_cases)
qed simp

lemma unacceptable_alone:
  assumes "protocol_run Idle calls = Some ph" and "\<not> list_all (xr_acceptable opts) calls"
  shows "\<exists>tests. calls = [Report_query None tests] \<and> query_mode opts \<and> \<not> opt_list_reporters opts"
proof (cases calls)
  case (Cons call rest)
  then obtain ph1 where ph1: "protocol Idle call = Some ph1" "protocol_run ph1 rest = Some ph"
    using assms(1) by (auto split: option.splits)
  have "list_all (xr_acceptable opts) rest"
    by (rule acceptable_started [OF ph1(2)]) (use ph1(1) in \<open>auto elim!: protocol_cases\<close>)
  then have bad: "\<not> xr_acceptable opts call" using assms(2) Cons by simp
  then obtain tests where call: "call = Report_query None tests" "query_mode opts" "\<not> opt_list_reporters opts"
    by (auto simp: xr_acceptable_def split: reporter_call.splits option.splits)
  then have "rest = []"
    using ph1 by (cases rest) (auto split: option.splits elim: protocol_cases)
  then show ?thesis using Cons call by simp
qed (use assms in simp)

text \<open>
  Where tests or suites are to be counted or listed, an answer without counters is read through a null pointer.
\<close>

lemma xml_query_null:
  assumes "\<not> opt_list_reporters opts" and "query_mode opts"
  shows "xr_call env opts cc (Report_query None tests) (XmlReporter []) = Inl Null_deref"
proof -
  from test_run_start_inv [OF XmlReporter_inv, of opts] obtain x where "xr_test_run_start opts (XmlReporter []) = Inr x"
    by (auto simp: returns_def)
  then show ?thesis using assms by (auto simp: xr_report_query_def query_answer_def query_mode_def)
qed

text \<open>
  (C29) Called along the protocol the XML reporter fails in one case only: asked to count or list tests or
  suites without counters, it reads through the null pointer. Otherwise a reader of its output sees at any moment open
  exactly the run, the suite, the test case and its subcases that are going on; when the run has ended, or
  the query is answered, the document is complete and well nested, with nothing left to the destructor; and
  whenever the reporter is destroyed what it has written is well nested.
\<close>

theorem XmlReporter_document:
  assumes "protocol_run Idle (map snd es) = Some ph"
  shows "if query_mode opts \<and> \<not> opt_list_reporters opts \<and> (\<exists>tests. map snd es = [Report_query None tests])
    then report_all (xr_call env opts) es (XmlReporter []) = Inl Null_deref
    else returns (report_all (xr_call env opts) es (XmlReporter [])) (\<lambda>x.
      read_stack (tags_of (m_os (xr_xml x))) = rev (open_elements ph (xr_tc x \<noteq> None)) \<and>
      (ph = Finished \<longrightarrow> tags_of (m_os (xr_xml x)) = Content [] \<and> m_tags (xr_xml x) = []) \<and>
      returns (XmlWriter_destroy (xr_xml x)) (\<lambda>w. tags_of (m_os w) = Content []))"
proof (cases "query_mode opts \<and> \<not> opt_list_reporters opts \<and> (\<exists>tests. map snd es = [Report_query None tests])")
  case True
  then obtain cc tests where "es = [(cc, Report_query None tests)]" by auto
  then show ?thesis using True xml_query_null by simp
next
  case False
  then have ok: "list_all (xr_acceptable opts) (map snd es)"
    using unacceptable_alone [OF assms, of opts] by metis
  have "returns (report_all (xr_call env opts) es (XmlReporter [])) (\<lambda>x.
      read_stack (tags_of (m_os (xr_xml x))) = rev (open_elements ph (xr_tc x \<noteq> None)) \<and>
      (ph = Finished \<longrightarrow> tags_of (m_os (xr_xml x)) = Content [] \<and> m_tags (xr_xml x) = []) \<and>
      returns (XmlWriter_destroy (xr_xml x)) (\<lambda>w. tags_of (m_os w) = Content []))"
    using xml.keeps [OF XmlReporter_inv assms ok]
  proof (rule returns_mono)
    fix x
    assume inv: "xr_inv ph x"
    then have "read_stack (tags_of (m_os (xr_xml x))) = rev (open_elements ph (xr_tc x \<noteq> None))"
      using read_stack_inv [of "xr_xml x"] by (simp add: xr_inv_def)
    then show "read_stack (tags_of (m_os (xr_xml x))) = rev (open_elements ph (xr_tc x \<noteq> None)) \<and>
      (ph = Finished \<longrightarrow> tags_of (m_os (xr_xml x)) = Content [] \<and> m_tags (xr_xml x) = []) \<and>
      returns (XmlWriter_destroy (xr_xml x)) (\<lambda>w. tags_of (m_os w) = Content [])"
      using finished_document destroyed_document inv by blast
  qed
  then show ?thesis by (rule if_not_P [OF False, THEN iffD2])
qed

definition sample_env :: reporter_env where
  "sample_env = \<lparr>re_fp = sample_fp, re_double = (\<lambda>d. ''0''), re_fixed = (\<lambda>d. ''0.000000''), re_tty = False,
     re_reporters = [(0, ''console''), (0, ''junit''), (0, ''xml'')], re_listeners = []\<rparr>"

definition sample_call :: call_context where
  "sample_call = \<lparr>cc_contexts = [''i = 3''], cc_stringified = [], cc_run_data = run_data sample_context, cc_now = 0, cc_later = 0\<rparr>"

definition sample_assert :: assert_data where
  "sample_assert = (AssertData (DT Check Eq) ''a.cpp'' 9 ''a == b'' [] \<lparr>sc_string = [], isContains = False\<rparr> sample_context)
     \<lparr>m_decomp := ''1 < 2''\<rparr>"

definition sample_events :: "event list" where
  "sample_events = map (Pair sample_call)
     [Test_run_start, Test_case_start sample_case,
      Subcase_start \<lparr>sig_name = ''a & b'', sig_file = ''a.cpp'', sig_line = 8\<rparr>, Log_assert sample_assert, Subcase_end,
      Test_case_reenter sample_case, Test_case_exception ''</TestCase>'' False, Test_case_end (case_data sample_context),
      Test_case_skipped (sample_case\<lparr>m_test_suite := ''ip''\<rparr>), Test_run_end (run_data sample_context)]"

theorem XmlReporter_document_witness:
  "returns (report_all (xr_call sample_env sample_options) sample_events (XmlReporter []))
     (\<lambda>x. tags_of (m_os (xr_xml x)) = Content []) \<and>
   report_all (xr_call sample_env (sample_options\<lparr>opt_count := True\<rparr>)) [(sample_call, Report_query None [])] (XmlReporter []) =
     Inl Null_deref"
proof
  have at: "macro_type (m_at sample_assert)" by (simp add: sample_assert_def AssertData_def macro_type_DT)
  have run: "protocol_run Idle (map snd sample_events) = Some Finished" by (simp add: sample_events_def at comp_def)
  have "\<not> query_mode sample_options" by (simp add: query_mode_def sample_options_def)
  with XmlReporter_document [OF run, of sample_options sample_env]
  show "returns (report_all (xr_call sample_env sample_options) sample_events (XmlReporter []))
     (\<lambda>x. tags_of (m_os (xr_xml x)) = Content [])"
    by (simp, elim returns_mono) simp
  have "query_mode (sample_options\<lparr>opt_count := True\<rparr>)" "\<not> opt_list_reporters (sample_options\<lparr>opt_count := True\<rparr>)"
    by (simp_all add: query_mode_def sample_options_def)
  with XmlReporter_document [of "[(sample_call, Report_query None [])]" Finished "sample_options\<lparr>opt_count := True\<rparr>" sample_env]
  show "report_all (xr_call sample_env (sample_options\<lparr>opt_count := True\<rparr>)) [(sample_call, Report_query None [])] (XmlReporter []) =
     Inl Null_deref" by simp
qed

end
