(* ===== verification/Doctest_Junit_Reporter.thy ===== *)
theory Doctest_Junit_Reporter
  imports Doctest_Xml_Reporter
begin

unbundle bit_operations_syntax

text \<open>
  \<open>JUnitReporter\<close> of doctest.h, which collects what it hears in \<open>JUnitTestCaseData\<close> and writes one document at
  the end of the run. \<open>back()\<close> of an empty vector is a failure; the time stamp is a parameter.
\<close>

section \<open>The collected data\<close>

record junit_message =
  jm_message :: string
  jm_type :: string
  jm_details :: string

record junit_case =
  jc_classname :: string
  jc_name :: string
  jc_time :: double
  jc_failures :: "junit_message list"
  jc_errors :: "junit_message list"

record junit_data =
  testcases :: "junit_case list"
  totalSeconds :: double
  totalErrors :: i32
  totalFailures :: i32

definition junit_data_new :: junit_data where
  "junit_data_new = \<lparr>testcases = [], totalSeconds = 0, totalErrors = 0, totalFailures = 0\<rparr>"

definition junit_add :: "string \<Rightarrow> string \<Rightarrow> junit_data \<Rightarrow> junit_data" where
  "junit_add classname name d = d\<lparr>testcases := testcases d @
     [\<lparr>jc_classname = classname, jc_name = name, jc_time = 0, jc_failures = [], jc_errors = []\<rparr>]\<rparr>"

definition change_last :: "(junit_case \<Rightarrow> junit_case) \<Rightarrow> junit_data \<Rightarrow> failure + junit_data" where
  "change_last f d =
     (if testcases d = [] then Inl Out_of_bounds
      else Inr (d\<lparr>testcases := butlast (testcases d) @ [f (last (testcases d))]\<rparr>))"

text \<open>The loop over the names; the last test case is not touched where there is no name to append.\<close>

fun appendSubcaseNamesToLastTestcase :: "string list \<Rightarrow> junit_data \<Rightarrow> failure + junit_data" where
  "appendSubcaseNamesToLastTestcase [] d = Inr d"
| "appendSubcaseNamesToLastTestcase (name # nameStack) d =
     (if name \<noteq> []
      then res_bind (change_last (\<lambda>tc. tc\<lparr>jc_name := jc_name tc @ ''/'' @ c_str name\<rparr>) d)
        (appendSubcaseNamesToLastTestcase nameStack)
      else appendSubcaseNamesToLastTestcase nameStack d)"

text \<open>The constant is the bit pattern of \<open>1e-4\<close>.\<close>

definition addTime :: "fp_ops \<Rightarrow> double \<Rightarrow> junit_data \<Rightarrow> failure + junit_data" where
  "addTime fp time d =
     (let time = (if fp_lt fp time 0x3F1A36E2EB1C432D then 0 else time) in
      res_bind (change_last (\<lambda>tc. tc\<lparr>jc_time := time\<rparr>) d) (\<lambda>d.
        Inr (d\<lparr>totalSeconds := fp_add fp (totalSeconds d) time\<rparr>)))"

definition addFailure :: "string \<Rightarrow> string \<Rightarrow> string \<Rightarrow> junit_data \<Rightarrow> failure + junit_data" where
  "addFailure message type details d =
     res_bind (change_last (\<lambda>tc. tc\<lparr>jc_failures := jc_failures tc @
       [\<lparr>jm_message = message, jm_type = type, jm_details = details\<rparr>]\<rparr>) d) (\<lambda>d.
       Inr (d\<lparr>totalFailures := totalFailures d + 1\<rparr>))"

definition addError :: "string \<Rightarrow> string \<Rightarrow> junit_data \<Rightarrow> failure + junit_data" where
  "addError message details d =
     res_bind (change_last (\<lambda>tc. tc\<lparr>jc_errors := jc_errors tc @
       [\<lparr>jm_message = message, jm_type = [], jm_details = details\<rparr>]\<rparr>) d) (\<lambda>d.
       Inr (d\<lparr>totalErrors := totalErrors d + 1\<rparr>))"

section \<open>The methods\<close>

record junit_reporter =
  jr_xml :: xml_writer
  jr_timer :: ticks
  jr_deepest :: "string list"
  jr_data :: junit_data

definition JUnitReporter :: "string \<Rightarrow> junit_reporter" where
  "JUnitReporter os = \<lparr>jr_xml = XmlWriter os, jr_timer = 0, jr_deepest = [], jr_data = junit_data_new\<rparr>"

definition jr_update :: "(junit_data \<Rightarrow> failure + junit_data) \<Rightarrow> junit_reporter \<Rightarrow> failure + junit_reporter" where
  "jr_update f j = res_bind (f (jr_data j)) (\<lambda>d. Inr (j\<lparr>jr_data := d\<rparr>))"

definition jr_declare :: "junit_reporter \<Rightarrow> junit_reporter" where
  "jr_declare j = j\<lparr>jr_xml := writeDeclaration (jr_xml j)\<rparr>"

definition failure_element :: "junit_message \<Rightarrow> xml_op list" where
  "failure_element m = [Start ''failure'', Attribute ''message'' (jm_message m), Attribute ''type'' (jm_type m),
     Write_text (jm_details m) False, End]"

definition error_element :: "junit_message \<Rightarrow> xml_op list" where
  "error_element m = [Start ''error'', Attribute ''message'' (jm_message m), Write_text (jm_details m) True, End]"

definition testcase_element :: "reporter_env \<Rightarrow> context_options \<Rightarrow> junit_case \<Rightarrow> xml_op list" where
  "testcase_element env opts tc =
     [Start ''testcase'', Attribute ''classname'' (jc_classname tc), Attribute ''name'' (jc_name tc)] @
     (if \<not> opt_no_time_in_output opts then [Attribute ''time'' (re_double env (jc_time tc))] else []) @
     [Attribute_c ''status'' (Some ''run'')] @
     concat (map failure_element (jc_failures tc)) @
     concat (map error_element (jc_errors tc)) @
     [End]"

definition jr_document :: "reporter_env \<Rightarrow> context_options \<Rightarrow> string \<Rightarrow> run_stats \<Rightarrow> junit_data \<Rightarrow> xml_op list" where
  "jr_document env opts timestamp p d =
     [Start ''testsuites'',
      Start ''testsuite'',
      Attribute ''name'' (file_text opts (opt_binary_name opts)),
      Attribute ''errors'' (i32_text (totalErrors d)),
      Attribute ''failures'' (i32_text (totalFailures d)),
      Attribute ''tests'' (i32_text (numAsserts p))] @
     (if \<not> opt_no_time_in_output opts
      then [Attribute ''time'' (re_double env (totalSeconds d)), Attribute ''timestamp'' timestamp] else []) @
     (if \<not> opt_no_version opts then [Attribute_c ''doctest_version'' (Some VERSION_STR)] else []) @
     concat (map (testcase_element env opts) (testcases d)) @
     [End, End]"

definition jr_test_run_end :: "reporter_env \<Rightarrow> context_options \<Rightarrow> string \<Rightarrow> run_stats \<Rightarrow> junit_reporter \<Rightarrow> failure + junit_reporter" where
  "jr_test_run_end env opts timestamp p j =
     res_bind (xml_ops (jr_document env opts timestamp p (jr_data j)) (jr_xml j)) (\<lambda>w. Inr (j\<lparr>jr_xml := w\<rparr>))"

definition jr_test_case_start :: "context_options \<Rightarrow> call_context \<Rightarrow> test_case \<Rightarrow> junit_reporter \<Rightarrow> junit_reporter" where
  "jr_test_case_start opts cc inp j =
     j\<lparr>jr_data := junit_add (file_text opts (m_file inp)) (c_str (m_name inp)) (jr_data j), jr_timer := cc_now cc\<rparr>"

text \<open>What \<open>test_case_reenter\<close> and \<open>test_case_end\<close> have in common.\<close>

definition close_testcase :: "reporter_env \<Rightarrow> call_context \<Rightarrow> junit_reporter \<Rightarrow> failure + junit_reporter" where
  "close_testcase env cc j =
     res_bind (jr_update (addTime (re_fp env) (getElapsedSeconds (re_fp env) (cc_now cc) (jr_timer j))) j) (\<lambda>j.
     res_bind (jr_update (appendSubcaseNamesToLastTestcase (jr_deepest j)) j) (\<lambda>j.
     Inr (j\<lparr>jr_deepest := []\<rparr>)))"

definition jr_test_case_reenter :: "reporter_env \<Rightarrow> context_options \<Rightarrow> call_context \<Rightarrow> test_case \<Rightarrow> junit_reporter \<Rightarrow> failure + junit_reporter" where
  "jr_test_case_reenter env opts cc inp j =
     res_bind (close_testcase env cc j) (\<lambda>j.
     Inr (j\<lparr>jr_timer := cc_later cc, jr_data := junit_add (file_text opts (m_file inp)) (c_str (m_name inp)) (jr_data j)\<rparr>))"

definition jr_test_case_end :: "reporter_env \<Rightarrow> call_context \<Rightarrow> junit_reporter \<Rightarrow> failure + junit_reporter" where
  "jr_test_case_end env cc j = close_testcase env cc j"

definition jr_test_case_exception :: "string \<Rightarrow> junit_reporter \<Rightarrow> failure + junit_reporter" where
  "jr_test_case_exception error_string j = jr_update (addError ''exception'' (c_str error_string)) j"

definition jr_subcase_start :: "subcase_signature \<Rightarrow> junit_reporter \<Rightarrow> junit_reporter" where
  "jr_subcase_start inp j = j\<lparr>jr_deepest := jr_deepest j @ [sig_name inp]\<rparr>"

definition jr_log_contexts :: "string list \<Rightarrow> string" where
  "jr_log_contexts contexts =
     (if contexts = [] then []
      else ''  logged: '' @ hd contexts @ newline @ concat (map (\<lambda>t. ''          '' @ t @ newline) (tl contexts)))"

definition jr_position :: "context_options \<Rightarrow> string \<Rightarrow> int \<Rightarrow> string" where
  "jr_position opts src l =
     file_text opts src @ (if opt_gnu_file_line opts then '':'' else ''('') @
     u32_text (reporter_line opts (word_of_int l)) @ (if opt_gnu_file_line opts then '':'' else ''):'') @ newline"

definition jr_log_assert :: "reporter_env \<Rightarrow> context_options \<Rightarrow> string list \<Rightarrow> assert_data \<Rightarrow> junit_reporter \<Rightarrow> failure + junit_reporter" where
  "jr_log_assert env opts contexts rb j =
     (if \<not> m_failed rb then Inr j
      else res_bind (fulltext_log_assert (color_text env opts) rb) (\<lambda>t.
        res_bind (assertString (m_at rb)) (\<lambda>macro.
          jr_update (addFailure (c_str (m_decomp rb)) macro
            (jr_position opts (a_file rb) (a_line rb) @ t @ jr_log_contexts contexts)) j)))"

definition jr_log_message :: "context_options \<Rightarrow> string list \<Rightarrow> message_data \<Rightarrow> junit_reporter \<Rightarrow> failure + junit_reporter" where
  "jr_log_message opts contexts mb j =
     (if m_severity mb AND is_warn \<noteq> 0 then Inr j
      else jr_update (addFailure (c_str (m_string mb)) (if m_severity mb AND is_check \<noteq> 0 then ''FAIL_CHECK'' else ''FAIL'')
        (jr_position opts (msg_file mb) (msg_line mb) @ c_str (m_string mb) @ newline @ jr_log_contexts contexts)) j)"

text \<open>The virtual calls.\<close>

fun jr_call :: "reporter_env \<Rightarrow> context_options \<Rightarrow> string \<Rightarrow> call_context \<Rightarrow> reporter_call \<Rightarrow> junit_reporter \<Rightarrow> failure + junit_reporter" where
  "jr_call env opts ts cc (Report_query st tests) j = Inr (jr_declare j)"
| "jr_call env opts ts cc Test_run_start j = Inr (jr_declare j)"
| "jr_call env opts ts cc (Test_run_end p) j = jr_test_run_end env opts ts p j"
| "jr_call env opts ts cc (Test_case_start tc) j = Inr (jr_test_case_start opts cc tc j)"
| "jr_call env opts ts cc (Test_case_reenter tc) j = jr_test_case_reenter env opts cc tc j"
| "jr_call env opts ts cc (Test_case_end st) j = jr_test_case_end env cc j"
| "jr_call env opts ts cc (Test_case_exception e crash) j = jr_test_case_exception e j"
| "jr_call env opts ts cc (Subcase_start s) j = Inr (jr_subcase_start s j)"
| "jr_call env opts ts cc Subcase_end j = Inr j"
| "jr_call env opts ts cc (Log_assert rb) j = jr_log_assert env opts (cc_contexts cc) rb j"
| "jr_call env opts ts cc (Log_message mb) j = jr_log_message opts (cc_contexts cc) mb j"
| "jr_call env opts ts cc (Test_case_skipped tc) j = Inr j"

section \<open>What the calls amount to\<close>

text \<open>
  Every start of a test case and every entry anew begins a segment of the calls; a segment is to become
  one \<open>testcase\<close> element, named after the test and the subcases entered, with its failures and errors.
\<close>

definition segment_step :: "(test_case \<times> reporter_call list) list \<Rightarrow> reporter_call \<Rightarrow> (test_case \<times> reporter_call list) list" where
  "segment_step segs call =
     (case call of
        Test_case_start tc \<Rightarrow> segs @ [(tc, [])]
      | Test_case_reenter tc \<Rightarrow> segs @ [(tc, [])]
      | _ \<Rightarrow> if segs = [] then [] else butlast segs @ [(fst (last segs), snd (last segs) @ [call])])"

definition segments :: "reporter_call list \<Rightarrow> (test_case \<times> reporter_call list) list" where
  "segments calls = fold (\<lambda>call segs. segment_step segs call) calls []"

fun failure_message :: "reporter_call \<Rightarrow> string list" where
  "failure_message (Log_assert rb) = (if m_failed rb then [c_str (m_decomp rb)] else [])"
| "failure_message (Log_message mb) = (if m_severity mb AND is_warn = 0 then [c_str (m_string mb)] else [])"
| "failure_message _ = []"

fun error_message :: "reporter_call \<Rightarrow> string list" where
  "error_message (Test_case_exception e crash) = [c_str e]"
| "error_message _ = []"

fun subcase_name :: "reporter_call \<Rightarrow> string list" where
  "subcase_name (Subcase_start s) = [sig_name s]"
| "subcase_name _ = []"

definition name_suffix :: "string list \<Rightarrow> string" where
  "name_suffix names = concat (map (\<lambda>n. if n \<noteq> [] then ''/'' @ c_str n else []) names)"

type_synonym summary = "string \<times> string \<times> string list \<times> string list"

definition segment_summary :: "context_options \<Rightarrow> bool \<Rightarrow> test_case \<times> reporter_call list \<Rightarrow> summary" where
  "segment_summary opts closed seg =
     (file_text opts (m_file (fst seg)),
      c_str (m_name (fst seg)) @ (if closed then name_suffix (concat (map subcase_name (snd seg))) else []),
      concat (map failure_message (snd seg)), concat (map error_message (snd seg)))"

definition case_summary :: "junit_case \<Rightarrow> summary" where
  "case_summary tc = (jc_classname tc, jc_name tc, map jm_message (jc_failures tc), map jm_details (jc_errors tc))"

definition junit_totals :: "reporter_call list \<Rightarrow> junit_data \<Rightarrow> bool" where
  "junit_totals heard d \<longleftrightarrow>
     totalFailures d = of_nat (length (concat (map failure_message heard))) \<and>
     totalErrors d = of_nat (length (concat (map error_message heard)))"

text \<open>In a test case the last segment is still open; its names are on the stack.\<close>

definition collected :: "context_options \<Rightarrow> reporter_call list \<Rightarrow> bool \<Rightarrow> junit_reporter \<Rightarrow> bool" where
  "collected opts heard within j \<longleftrightarrow>
     (let segs = segments heard; tcs = map case_summary (testcases (jr_data j)) in
      if within
      then segs \<noteq> [] \<and> tcs = map (segment_summary opts True) (butlast segs) @ [segment_summary opts False (last segs)] \<and>
        jr_deepest j = concat (map subcase_name (snd (last segs)))
      else tcs = map (segment_summary opts True) segs \<and> jr_deepest j = [])"

lemma segments_snoc: "segments (calls @ [call]) = segment_step (segments calls) call"
  by (simp add: segments_def)

lemma name_suffix_append: "name_suffix (xs @ ys) = name_suffix xs @ name_suffix ys"
  by (simp add: name_suffix_def)

text \<open>Calls that begin no segment and mean nothing to the reporter, and those that are appended to the last one.\<close>

lemma segment_step_other:
  assumes "\<forall>tc. call \<noteq> Test_case_start tc \<and> call \<noteq> Test_case_reenter tc"
  shows "segment_step segs call = (if segs = [] then [] else butlast segs @ [(fst (last segs), snd (last segs) @ [call])])"
  using assms by (cases call) (simp_all add: segment_step_def)

lemma segment_step_begin:
  "segment_step segs (Test_case_start tc) = segs @ [(tc, [])]" "segment_step segs (Test_case_reenter tc) = segs @ [(tc, [])]"
  by (simp_all add: segment_step_def)

lemma summary_append:
  "segment_summary opts closed (tc, calls @ [call]) =
     (fst (segment_summary opts closed (tc, calls)),
      fst (snd (segment_summary opts closed (tc, calls))) @ (if closed then name_suffix (subcase_name call) else []),
      fst (snd (snd (segment_summary opts closed (tc, calls)))) @ failure_message call,
      snd (snd (snd (segment_summary opts closed (tc, calls)))) @ error_message call)"
  by (simp add: segment_summary_def name_suffix_append)

section \<open>The collected data follow the calls\<close>

lemma collected_within:
  "collected opts heard True j \<longleftrightarrow> (\<exists>ss tc calls ts t. segments heard = ss @ [(tc, calls)] \<and>
     testcases (jr_data j) = ts @ [t] \<and> map case_summary ts = map (segment_summary opts True) ss \<and>
     case_summary t = segment_summary opts False (tc, calls) \<and> jr_deepest j = concat (map subcase_name calls))"
  (is "?l \<longleftrightarrow> ?r")
proof
  assume l: ?l
  then obtain ss tc calls where segs: "segments heard = ss @ [(tc, calls)]"
    by (cases "segments heard" rule: rev_cases) (auto simp: collected_def Let_def)
  have "testcases (jr_data j) \<noteq> []" using l by (auto simp: collected_def Let_def)
  then obtain ts t where "testcases (jr_data j) = ts @ [t]" by (cases "testcases (jr_data j)" rule: rev_cases) auto
  with l segs show ?r by (simp add: collected_def Let_def)
qed (auto simp: collected_def Let_def)

lemma collected_begin:
  assumes "collected opts heard False j" and "call \<in> {Test_case_start tc, Test_case_reenter tc}"
    and "testcases (jr_data k) = testcases (jr_data j) @
      [\<lparr>jc_classname = file_text opts (m_file tc), jc_name = c_str (m_name tc), jc_time = 0, jc_failures = [], jc_errors = []\<rparr>]"
    and "jr_deepest k = []"
  shows "collected opts (heard @ [call]) True k"
  using assms by (auto simp: collected_def Let_def segments_snoc segment_step_begin case_summary_def segment_summary_def)

text \<open>Within a test case: the last \<open>testcase\<close> gets what the call means.\<close>

lemma collected_step:
  assumes "collected opts heard True j" and "\<forall>tc. call \<noteq> Test_case_start tc \<and> call \<noteq> Test_case_reenter tc"
    and "testcases (jr_data k) = butlast (testcases (jr_data j)) @ [f (last (testcases (jr_data j)))]"
    and "\<And>t. case_summary (f t) = (jc_classname t, jc_name t,
      map jm_message (jc_failures t) @ failure_message call, map jm_details (jc_errors t) @ error_message call)"
    and "jr_deepest k = jr_deepest j @ subcase_name call"
  shows "collected opts (heard @ [call]) True k"
proof -
  obtain ss tc calls ts t where l: "segments heard = ss @ [(tc, calls)]" "testcases (jr_data j) = ts @ [t]"
    "map case_summary ts = map (segment_summary opts True) ss" "case_summary t = segment_summary opts False (tc, calls)"
    "jr_deepest j = concat (map subcase_name calls)"
    using assms(1) unfolding collected_within by blast
  have "case_summary (f t) = segment_summary opts False (tc, calls @ [call])"
    using l(4) assms(4) by (simp add: summary_append flip: l(4)) (simp add: case_summary_def)
  then show ?thesis
    unfolding collected_within
    using l assms(3,5) by (intro exI [of _ ss] exI [of _ tc] exI [of _ "calls @ [call]"] exI [of _ ts] exI [of _ "f t"])
      (simp add: segments_snoc segment_step_other [OF assms(2)])
qed

lemma collected_quiet:
  assumes "collected opts heard within j" and "\<forall>tc. call \<noteq> Test_case_start tc \<and> call \<noteq> Test_case_reenter tc"
    and "failure_message call = []" and "error_message call = []" and "subcase_name call = []"
    and "testcases (jr_data k) = testcases (jr_data j)" and "jr_deepest k = jr_deepest j"
  shows "collected opts (heard @ [call]) within k"
proof -
  have same: "segment_summary opts b (tc, calls @ [call]) = segment_summary opts b (tc, calls)" for b tc calls
    using assms(3-5) by (simp add: segment_summary_def)
  show ?thesis
  proof (cases "segments heard" rule: rev_cases)
    case Nil
    then show ?thesis using assms
      by (cases within) (simp_all add: collected_def Let_def segments_snoc segment_step_other [OF assms(2)])
  next
    case (snoc ss seg)
    obtain tc calls where seg: "seg = (tc, calls)" by (cases seg)
    then show ?thesis using snoc assms same
      by (cases within) (simp_all add: collected_def Let_def segments_snoc segment_step_other [OF assms(2)])
  qed
qed

text \<open>The end of a segment: the time, and the names of the subcases.\<close>

lemma append_names:
  assumes "testcases d = ts @ [t]"
  shows "appendSubcaseNamesToLastTestcase names d = Inr (d\<lparr>testcases := ts @ [t\<lparr>jc_name := jc_name t @ name_suffix names\<rparr>]\<rparr>)"
  using assms
proof (induction names arbitrary: d t)
  case (Cons n names)
  let ?d = "d\<lparr>testcases := ts @ [t\<lparr>jc_name := jc_name t @ ''/'' @ c_str n\<rparr>]\<rparr>"
  have "testcases ?d = ts @ [t\<lparr>jc_name := jc_name t @ ''/'' @ c_str n\<rparr>]" by simp
  from Cons.IH [OF this] Cons.IH [OF Cons.prems] Cons.prems show ?case
    by (simp add: change_last_def name_suffix_def)
qed (simp add: name_suffix_def)

lemma collected_close:
  assumes "collected opts heard True j"
  obtains k where "close_testcase env cc j = Inr k" and "collected opts heard False k"
    and "jr_xml k = jr_xml j" and "totalFailures (jr_data k) = totalFailures (jr_data j)"
    and "totalErrors (jr_data k) = totalErrors (jr_data j)"
proof -
  obtain ss tc calls ts t where l: "segments heard = ss @ [(tc, calls)]" "testcases (jr_data j) = ts @ [t]"
    "map case_summary ts = map (segment_summary opts True) ss" "case_summary t = segment_summary opts False (tc, calls)"
    "jr_deepest j = concat (map subcase_name calls)"
    using assms(1) unfolding collected_within by blast
  obtain d time where d: "addTime (re_fp env) (getElapsedSeconds (re_fp env) (cc_now cc) (jr_timer j)) (jr_data j) = Inr d"
      "testcases d = ts @ [t\<lparr>jc_time := time\<rparr>]" "totalFailures d = totalFailures (jr_data j)" "totalErrors d = totalErrors (jr_data j)"
    using l(2) by (auto simp: addTime_def change_last_def Let_def)
  define e where "e = d\<lparr>testcases := ts @ [t\<lparr>jc_time := time, jc_name := jc_name t @ name_suffix (jr_deepest j)\<rparr>]\<rparr>"
  define k where "k = j\<lparr>jr_data := e, jr_deepest := []\<rparr>"
  have "close_testcase env cc j = Inr k"
    using d(1) append_names [OF d(2)] by (simp add: close_testcase_def jr_update_def k_def e_def)
  moreover have "case_summary (t\<lparr>jc_time := time, jc_name := jc_name t @ name_suffix (jr_deepest j)\<rparr>) =
      segment_summary opts True (tc, calls)"
    using l(4,5) by (simp add: case_summary_def segment_summary_def)
  then have "collected opts heard False k"
    using l by (simp add: collected_def Let_def k_def e_def)
  ultimately show thesis using that d(3,4) by (simp add: k_def e_def)
qed

section \<open>The document\<close>

lemma jr_document_closed: "closed_ops (jr_document env opts ts p d)"
proof -
  have "closed_ops (failure_element m)" "closed_ops (error_element m)" for m
    by (simp_all add: failure_element_def error_element_def closed_ops_def good_name_def)
  then have "closed_ops (concat (map failure_element ms))" "closed_ops (concat (map error_element ms))" for ms
    by (auto intro!: closed_concat)
  then have "closed_ops (testcase_element env opts tc)" for tc
    by (simp add: testcase_element_def closed_ops_def good_name_def ops_stack_append)
  then have "closed_ops (concat (map (testcase_element env opts) (testcases d)))"
    by (intro closed_concat)
  then show ?thesis
    by (simp add: jr_document_def closed_ops_def good_name_def ops_stack_append butlast_append)
qed

definition declared :: xml_writer where
  "declared = writeDeclaration (XmlWriter [])"

lemma declared_inv: "writer_inv declared" "m_tags declared = []"
  by (simp_all add: declared_def new_writer_inv) (simp add: writeDeclaration_def XmlWriter_def)

lemma jr_document_written:
  obtains w where "xml_ops (jr_document env opts ts p d) declared = Inr w" and "tags_of (m_os w) = Content []" and "m_tags w = []"
proof -
  have "returns (xml_ops (jr_document env opts ts p d) declared) (\<lambda>w. writer_inv w \<and> m_tags w = [])"
    using jr_document_closed declared_inv by (intro xml_ops_stack) (simp_all add: closed_ops_def)
  then obtain w where "xml_ops (jr_document env opts ts p d) declared = Inr w" "writer_inv w" "m_tags w = []"
    by (auto simp: returns_def)
  with that show thesis by (auto simp: writer_inv_def split: if_splits)
qed

section \<open>The invariant\<close>

definition in_case :: "phase \<Rightarrow> bool" where
  "in_case ph = (case ph of In_case n \<Rightarrow> True | _ \<Rightarrow> False)"

definition written :: "reporter_env \<Rightarrow> context_options \<Rightarrow> string \<Rightarrow> reporter_call list \<Rightarrow> junit_reporter \<Rightarrow> bool" where
  "written env opts ts heard j \<longleftrightarrow>
     (\<forall>calls p. heard = calls @ [Test_run_end p] \<longrightarrow> xml_ops (jr_document env opts ts p (jr_data j)) declared = Inr (jr_xml j))"

definition jr_inv :: "reporter_env \<Rightarrow> context_options \<Rightarrow> string \<Rightarrow> reporter_call list \<Rightarrow> phase \<Rightarrow> junit_reporter \<Rightarrow> bool" where
  "jr_inv env opts ts heard ph j \<longleftrightarrow>
     junit_totals heard (jr_data j) \<and> collected opts heard (in_case ph) j \<and>
     (case ph of Idle \<Rightarrow> jr_xml j = XmlWriter [] | Finished \<Rightarrow> written env opts ts heard j | _ \<Rightarrow> jr_xml j = declared)"

lemma totals_quiet:
  "junit_totals heard d \<Longrightarrow> failure_message call = [] \<Longrightarrow> error_message call = [] \<Longrightarrow>
   totalFailures e = totalFailures d \<Longrightarrow> totalErrors e = totalErrors d \<Longrightarrow> junit_totals (heard @ [call]) e"
  by (simp add: junit_totals_def)

lemma addFailure_step:
  assumes "jr_inv env opts ts heard (In_case n) j" and "failure_message call = [message]" and "error_message call = []"
    and "subcase_name call = []" and "\<forall>tc. call \<noteq> Test_case_start tc \<and> call \<noteq> Test_case_reenter tc"
  shows "returns (jr_update (addFailure message type details) j) (jr_inv env opts ts (heard @ [call]) (In_case n))"
proof -
  let ?m = "\<lparr>jm_message = message, jm_type = type, jm_details = details\<rparr>"
  let ?f = "\<lambda>tc. tc\<lparr>jc_failures := jc_failures tc @ [?m]\<rparr>"
  have c: "collected opts heard True j" and t: "junit_totals heard (jr_data j)" and x: "jr_xml j = declared"
    using assms(1) by (simp_all add: jr_inv_def in_case_def)
  have ne: "testcases (jr_data j) \<noteq> []" using c unfolding collected_within by auto
  define k where "k = j\<lparr>jr_data := (jr_data j)\<lparr>testcases := butlast (testcases (jr_data j)) @ [?f (last (testcases (jr_data j)))],
      totalFailures := totalFailures (jr_data j) + 1\<rparr>\<rparr>"
  have "jr_update (addFailure message type details) j = Inr k"
    using ne by (simp add: jr_update_def addFailure_def change_last_def k_def)
  moreover have "collected opts (heard @ [call]) True k"
    by (rule collected_step [OF c assms(5), of _ ?f]) (simp_all add: k_def case_summary_def assms)
  ultimately show ?thesis
    using t x assms(2,3) by (simp add: jr_inv_def in_case_def junit_totals_def k_def)
qed

lemma addError_step:
  assumes "jr_inv env opts ts heard (In_case n) j"
  shows "returns (jr_test_case_exception e j) (jr_inv env opts ts (heard @ [Test_case_exception e crash]) (In_case n))"
proof -
  let ?m = "\<lparr>jm_message = ''exception'', jm_type = [], jm_details = c_str e\<rparr>"
  let ?f = "\<lambda>tc. tc\<lparr>jc_errors := jc_errors tc @ [?m]\<rparr>"
  have c: "collected opts heard True j" and t: "junit_totals heard (jr_data j)" and x: "jr_xml j = declared"
    using assms by (simp_all add: jr_inv_def in_case_def)
  have ne: "testcases (jr_data j) \<noteq> []" using c unfolding collected_within by auto
  define k where "k = j\<lparr>jr_data := (jr_data j)\<lparr>testcases := butlast (testcases (jr_data j)) @ [?f (last (testcases (jr_data j)))],
      totalErrors := totalErrors (jr_data j) + 1\<rparr>\<rparr>"
  have "jr_test_case_exception e j = Inr k"
    using ne by (simp add: jr_test_case_exception_def jr_update_def addError_def change_last_def k_def)
  moreover have "collected opts (heard @ [Test_case_exception e crash]) True k"
    by (rule collected_step [OF c, of _ _ ?f]) (simp_all add: k_def case_summary_def)
  ultimately show ?thesis
    using t x by (simp add: jr_inv_def in_case_def junit_totals_def k_def)
qed

text \<open>A call the reporter ignores, and the entry of a subcase.\<close>

lemma ignored_step:
  assumes "jr_inv env opts ts heard (In_case n) j" and "failure_message call = []" and "error_message call = []"
    and "subcase_name call = []" and "\<forall>tc. call \<noteq> Test_case_start tc \<and> call \<noteq> Test_case_reenter tc"
  shows "jr_inv env opts ts (heard @ [call]) (In_case m) j"
  using assms collected_quiet [OF _ assms(5,2,3,4), of opts heard True j j] totals_quiet [OF _ assms(2,3) refl refl]
  by (simp add: jr_inv_def in_case_def)

lemma subcase_step:
  assumes "jr_inv env opts ts heard (In_case n) j"
  shows "jr_inv env opts ts (heard @ [Subcase_start s]) (In_case (Suc n)) (jr_subcase_start s j)"
proof -
  have c: "collected opts heard True j" using assms by (simp add: jr_inv_def in_case_def)
  then have "testcases (jr_data j) \<noteq> []" unfolding collected_within by auto
  then have "collected opts (heard @ [Subcase_start s]) True (jr_subcase_start s j)"
    by (intro collected_step [OF c, of _ _ "\<lambda>t. t"]) (simp_all add: jr_subcase_start_def case_summary_def)
  then show ?thesis using assms by (simp add: jr_inv_def in_case_def junit_totals_def jr_subcase_start_def)
qed

lemma begin_step:
  assumes "jr_inv env opts ts heard Running j"
  shows "jr_inv env opts ts (heard @ [Test_case_start tc]) (In_case 0) (jr_test_case_start opts cc tc j)"
proof -
  have c: "collected opts heard False j" using assms by (simp add: jr_inv_def in_case_def)
  then have "jr_deepest j = []" by (simp add: collected_def Let_def)
  then have "collected opts (heard @ [Test_case_start tc]) True (jr_test_case_start opts cc tc j)"
    by (intro collected_begin [OF c, of _ tc]) (simp_all add: jr_test_case_start_def junit_add_def)
  then show ?thesis
    using assms by (simp add: jr_inv_def in_case_def junit_totals_def jr_test_case_start_def junit_add_def)
qed

lemma close_step:
  assumes "jr_inv env opts ts heard (In_case 0) j"
  shows "returns (jr_test_case_end env cc j) (jr_inv env opts ts (heard @ [Test_case_end st]) Running)"
    and "returns (jr_test_case_reenter env opts cc tc j) (jr_inv env opts ts (heard @ [Test_case_reenter tc]) (In_case 0))"
proof -
  have "collected opts heard True j" using assms by (simp add: jr_inv_def in_case_def)
  then obtain k where k: "close_testcase env cc j = Inr k" "collected opts heard False k" "jr_xml k = jr_xml j"
      "totalFailures (jr_data k) = totalFailures (jr_data j)" "totalErrors (jr_data k) = totalErrors (jr_data j)"
    by (rule collected_close)
  have "collected opts (heard @ [Test_case_end st]) False k"
    by (rule collected_quiet [OF k(2)]) simp_all
  then show "returns (jr_test_case_end env cc j) (jr_inv env opts ts (heard @ [Test_case_end st]) Running)"
    using assms k by (simp add: jr_test_case_end_def jr_inv_def in_case_def junit_totals_def)
  define l where "l = k\<lparr>jr_timer := cc_later cc, jr_data := junit_add (file_text opts (m_file tc)) (c_str (m_name tc)) (jr_data k)\<rparr>"
  have "jr_deepest k = []" using k(2) by (simp add: collected_def Let_def)
  then have "collected opts (heard @ [Test_case_reenter tc]) True l"
    by (intro collected_begin [OF k(2), of _ tc]) (simp_all add: l_def junit_add_def)
  then have "jr_inv env opts ts (heard @ [Test_case_reenter tc]) (In_case 0) l"
    using assms k by (simp add: jr_inv_def in_case_def junit_totals_def l_def junit_add_def)
  then show "returns (jr_test_case_reenter env opts cc tc j) (jr_inv env opts ts (heard @ [Test_case_reenter tc]) (In_case 0))"
    using k(1) by (simp add: jr_test_case_reenter_def l_def)
qed

lemma run_end_step:
  assumes "jr_inv env opts ts heard Running j"
  shows "returns (jr_test_run_end env opts ts p j) (jr_inv env opts ts (heard @ [Test_run_end p]) Finished)"
proof -
  obtain w where w: "xml_ops (jr_document env opts ts p (jr_data j)) declared = Inr w"
    by (rule jr_document_written)
  have "collected opts heard False j" and "jr_xml j = declared" using assms by (simp_all add: jr_inv_def in_case_def)
  moreover from this have "collected opts (heard @ [Test_run_end p]) False (j\<lparr>jr_xml := w\<rparr>)"
    by (intro collected_quiet) simp_all
  ultimately show ?thesis
    using assms w by (simp add: jr_test_run_end_def jr_inv_def in_case_def junit_totals_def written_def)
qed

lemma idle_step:
  assumes "jr_inv env opts ts heard Idle j"
  shows "jr_inv env opts ts (heard @ [Test_run_start]) Running (jr_declare j)"
    and "jr_inv env opts ts (heard @ [Report_query st tests]) Finished (jr_declare j)"
proof -
  have "collected opts heard False j" using assms by (simp add: jr_inv_def in_case_def)
  then have "collected opts (heard @ [Test_run_start]) False (jr_declare j)"
    "collected opts (heard @ [Report_query st tests]) False (jr_declare j)"
    by (auto intro!: collected_quiet simp: jr_declare_def)
  then show "jr_inv env opts ts (heard @ [Test_run_start]) Running (jr_declare j)"
    "jr_inv env opts ts (heard @ [Report_query st tests]) Finished (jr_declare j)"
    using assms by (simp_all add: jr_inv_def in_case_def junit_totals_def written_def jr_declare_def declared_def)
qed

lemma skipped_step:
  assumes "jr_inv env opts ts heard Running j"
  shows "jr_inv env opts ts (heard @ [Test_case_skipped tc]) Running j"
proof -
  have "collected opts heard False j" using assms by (simp add: jr_inv_def in_case_def)
  then have "collected opts (heard @ [Test_case_skipped tc]) False j" by (intro collected_quiet) simp_all
  then show ?thesis using assms by (simp add: jr_inv_def in_case_def junit_totals_def)
qed

lemma fulltext_returns: "macro_type (m_at rb) \<Longrightarrow> \<exists>t. fulltext_log_assert col rb = Inr t"
  by (elim macro_typeE) (simp add: fulltext_log_assert_def Let_def)

lemma statement_step:
  assumes "jr_inv env opts ts heard (In_case n) j"
  shows "macro_type (m_at rb) \<Longrightarrow>
      returns (jr_log_assert env opts contexts rb j) (jr_inv env opts ts (heard @ [Log_assert rb]) (In_case n))"
    and "returns (jr_log_message opts contexts mb j) (jr_inv env opts ts (heard @ [Log_message mb]) (In_case n))"
proof -
  show "returns (jr_log_message opts contexts mb j) (jr_inv env opts ts (heard @ [Log_message mb]) (In_case n))"
    using ignored_step [OF assms, of "Log_message mb" n] addFailure_step [OF assms, of "Log_message mb"]
    by (auto simp: jr_log_message_def)
  assume at: "macro_type (m_at rb)"
  obtain t where "fulltext_log_assert (color_text env opts) rb = Inr t" using fulltext_returns [OF at] by blast
  moreover obtain macro where "assertString (m_at rb) = Inr macro" using at by (rule macro_typeE)
  ultimately show "returns (jr_log_assert env opts contexts rb j) (jr_inv env opts ts (heard @ [Log_assert rb]) (In_case n))"
    using ignored_step [OF assms, of "Log_assert rb" n] addFailure_step [OF assms, of "Log_assert rb"]
    by (auto simp: jr_log_assert_def)
qed

interpretation junit: reporter "jr_call env opts ts" "jr_inv env opts ts" "\<lambda>call. True" for env opts ts
proof
  fix heard ph ph' call cc j
  assume inv: "jr_inv env opts ts heard ph j" and step: "protocol ph call = Some ph'"
  from step show "returns (jr_call env opts ts cc call j) (jr_inv env opts ts (heard @ [call]) ph')"
  proof (cases rule: protocol_cases)
    case (leave n)
    then show ?thesis using inv ignored_step [of env opts ts heard "Suc n" j Subcase_end n] by simp
  qed (use inv idle_step begin_step skipped_step run_end_step subcase_step close_step addError_step statement_step in auto)
qed

section \<open>Everything is accounted for\<close>

lemma JUnitReporter_inv: "jr_inv env opts ts [] Idle (JUnitReporter [])"
  by (simp add: jr_inv_def in_case_def junit_totals_def JUnitReporter_def junit_data_new_def collected_def Let_def segments_def)

lemma junit_finished:
  assumes "jr_inv env opts ts (calls @ [Test_run_end p]) Finished j"
  shows "map case_summary (testcases (jr_data j)) = map (segment_summary opts True) (segments (calls @ [Test_run_end p])) \<and>
    totalFailures (jr_data j) = of_nat (length (concat (map failure_message calls))) \<and>
    totalErrors (jr_data j) = of_nat (length (concat (map error_message calls))) \<and>
    xml_ops (jr_document env opts ts p (jr_data j)) declared = Inr (jr_xml j) \<and>
    tags_of (m_os (jr_xml j)) = Content [] \<and> m_tags (jr_xml j) = []"
proof -
  have doc: "xml_ops (jr_document env opts ts p (jr_data j)) declared = Inr (jr_xml j)"
    using assms by (simp add: jr_inv_def written_def)
  moreover obtain w where "xml_ops (jr_document env opts ts p (jr_data j)) declared = Inr w"
      "tags_of (m_os w) = Content []" "m_tags w = []" by (rule jr_document_written)
  ultimately have "tags_of (m_os (jr_xml j)) = Content []" "m_tags (jr_xml j) = []" by simp_all
  then show ?thesis
    using assms doc by (simp add: jr_inv_def in_case_def collected_def Let_def junit_totals_def)
qed

text \<open>
  (C30) Called along the protocol the JUnit reporter never fails. At the end of a run it has written one well-nested
  document with a \<open>testcase\<close> for every time a test case was started or entered anew, in order, named after
  the test and the subcases entered, with one failure for every failed assertion and every message above a
  warning, and one error for every exception of that time and no other; and the totals of the suite are theirs.
\<close>

theorem JUnitReporter_accounts:
  assumes "map snd es = calls @ [Test_run_end p]" and "protocol_run Idle (map snd es) = Some Finished"
  shows "returns (report_all (jr_call env opts ts) es (JUnitReporter [])) (\<lambda>j.
    map case_summary (testcases (jr_data j)) = map (segment_summary opts True) (segments (calls @ [Test_run_end p])) \<and>
    totalFailures (jr_data j) = of_nat (length (concat (map failure_message calls))) \<and>
    totalErrors (jr_data j) = of_nat (length (concat (map error_message calls))) \<and>
    xml_ops (jr_document env opts ts p (jr_data j)) declared = Inr (jr_xml j) \<and>
    tags_of (m_os (jr_xml j)) = Content [] \<and> m_tags (jr_xml j) = [])"
proof (rule returns_mono)
  show "returns (report_all (jr_call env opts ts) es (JUnitReporter [])) (jr_inv env opts ts (calls @ [Test_run_end p]) Finished)"
    using junit.keeps [OF JUnitReporter_inv assms(2)] assms(1) by (simp add: list_all_iff)
qed (rule junit_finished)

theorem JUnitReporter_accounts_witness:
  "returns (report_all (jr_call sample_env sample_options ''2025-01-01T00:00:00Z'') sample_events (JUnitReporter []))
     (\<lambda>j. map case_summary (testcases (jr_data j)) =
         [(''a.cpp'', ''parses/a & b'', [''1 < 2''], []), (''a.cpp'', ''parses'', [], [''</TestCase>''])] \<and>
       totalFailures (jr_data j) = 1 \<and> totalErrors (jr_data j) = 1 \<and> tags_of (m_os (jr_xml j)) = Content [])"
proof -
  have at: "macro_type (m_at sample_assert)" by (simp add: sample_assert_def AssertData_def macro_type_DT)
  have run: "protocol_run Idle (map snd sample_events) = Some Finished" by (simp add: sample_events_def at comp_def)
  have last: "map snd sample_events = butlast (map snd sample_events) @ [Test_run_end (run_data sample_context)]"
    by (simp add: sample_events_def comp_def)
  have segs: "map (segment_summary sample_options True) (segments (map snd sample_events)) =
      [(''a.cpp'', ''parses/a & b'', [''1 < 2''], []), (''a.cpp'', ''parses'', [], [''</TestCase>''])]"
    by code_simp
  have sums: "length (concat (map failure_message (butlast (map snd sample_events)))) = 1"
    "length (concat (map error_message (butlast (map snd sample_events)))) = 1" by code_simp+
  show ?thesis
    by (rule returns_mono [OF JUnitReporter_accounts [OF last run]]) (simp add: segs sums flip: last)
qed

end
