(* ===== verification/Doctest_Protocol.thy ===== *)
theory Doctest_Protocol
  imports Doctest_Run_Properties Doctest_Junit_Reporter
begin

text \<open>
  A run of the test framework calls its reporters along the protocol: from the destructor of a subcase up to
  \<open>Context::run\<close>, what each operation makes one reporter hear is a piece of it. With the contracts of the
  reporters this gives the documents of a run.
\<close>

section \<open>What one reporter hears\<close>

definition heard :: "reporter_key \<Rightarrow> context_state \<Rightarrow> reporter_call list" where
  "heard r c = map snd (filter (\<lambda>p. fst p = r) (reports c))"

definition listens :: "reporter_key \<Rightarrow> context_state \<Rightarrow> bool" where
  "listens r c \<longleftrightarrow> distinct (reporters_currently_used c) \<and> r \<in> set (reporters_currently_used c)"

text \<open>
  From \<open>c\<close> to \<open>d\<close> the reporter hears calls that take the protocol from one phase to another, with the reporters
  and the options left alone.
\<close>

definition says :: "reporter_key \<Rightarrow> phase \<Rightarrow> phase \<Rightarrow> context_state \<Rightarrow> context_state \<Rightarrow> bool" where
  "says r ph ph' c d \<longleftrightarrow> reporters_currently_used d = reporters_currently_used c \<and> ctx_options d = ctx_options c \<and>
     (\<exists>calls. heard r d = heard r c @ calls \<and> protocol_run ph calls = Some ph')"

lemma says_quiet:
  "reporters_currently_used d = reporters_currently_used c \<Longrightarrow> ctx_options d = ctx_options c \<Longrightarrow> reports d = reports c \<Longrightarrow>
   says r ph ph c d"
  by (simp add: says_def heard_def)

lemma says_refl [simp]: "says r ph ph c c"
  by (rule says_quiet) simp_all

lemma says_trans: "says r ph ph' c d \<Longrightarrow> says r ph' ph'' d e \<Longrightarrow> says r ph ph'' c e"
  by (auto simp: says_def protocol_run_append)

lemma says_listens: "says r ph ph' c d \<Longrightarrow> listens r c \<Longrightarrow> listens r d"
  by (simp add: says_def listens_def)

lemma says_iterate: "listens r c \<Longrightarrow> protocol ph e = Some ph' \<Longrightarrow> says r ph ph' c (iterate_reporters e c)"
  by (auto simp: says_def listens_def heard_def iterate_reporters_def filter_single)

lemma says_iterate_from:
  "says r ph ph' c d \<Longrightarrow> listens r c \<Longrightarrow> protocol ph' e = Some ph'' \<Longrightarrow> says r ph ph'' c (iterate_reporters e d)"
  by (blast intro: says_trans says_iterate says_listens)

lemma says_quiet_from:
  "says r ph ph' c d \<Longrightarrow> reporters_currently_used e = reporters_currently_used d \<Longrightarrow> ctx_options e = ctx_options d \<Longrightarrow>
   reports e = reports d \<Longrightarrow> says r ph ph' c e"
  by (blast intro: says_trans says_quiet)

section \<open>Test bodies\<close>

text \<open>A statement behaves if within a test case it makes calls that stay at the same depth of subcases.\<close>

definition behaves :: "reporter_key \<Rightarrow> (context_state \<Rightarrow> failure + body_outcome \<times> context_state) \<Rightarrow> bool" where
  "behaves r f \<longleftrightarrow> (\<forall>n c out d. listens r c \<longrightarrow> f c = Inr (out, d) \<longrightarrow> says r (In_case n) (In_case n) c d)"

fun items_behave :: "reporter_key \<Rightarrow> item list \<Rightarrow> bool" where
  "items_behave r [] = True"
| "items_behave r (Act f # rest) = (behaves r f \<and> items_behave r rest)"
| "items_behave r (Sub sig body # rest) = (items_behave r body \<and> items_behave r rest)"

lemma Subcase_says:
  assumes "listens r c" and "Subcase sig c = Inr (entered, d)"
  shows "says r (In_case n) (In_case (if entered then Suc n else n)) c d"
proof -
  have stay: "says r (In_case n) (In_case n) c (c\<lparr>nextSubcaseStack := s\<rparr>)" for s by (rule says_quiet) simp_all
  have enter: "says r (In_case n) (In_case (Suc n)) c (iterate_reporters (Subcase_start sig) e)"
    if "reporters_currently_used e = reporters_currently_used c" "ctx_options e = ctx_options c" "reports e = reports c" for e
    by (rule says_iterate_from [OF says_quiet [OF that] assms(1)]) simp
  show ?thesis
    using assms(2) stay enter by (auto simp: Subcase_def split: if_splits)
qed

lemma Subcase_destroy_says:
  assumes "listens r c"
  shows "says r (In_case (Suc n)) (In_case n) c (Subcase_destroy uncaught c)"
proof -
  define c1 where "c1 = (let c = c\<lparr>currentSubcaseDepth := currentSubcaseDepth c - 1\<rparr> in
    if \<not> reachedLeaf c
    then c\<lparr>fullyTraversedSubcases := insert (hash_signatures (subcaseStack c)) (fullyTraversedSubcases c),
           nextSubcaseStack := [], reachedLeaf := True\<rparr>
    else if nextSubcaseStack c = []
    then c\<lparr>fullyTraversedSubcases := insert (hash_signatures (subcaseStack c)) (fullyTraversedSubcases c)\<rparr>
    else c)"
  have c1: "says r (In_case (Suc n)) (In_case (Suc n)) c c1"
    by (rule says_quiet) (simp_all add: c1_def Let_def)
  define c2 where "c2 = (if uncaught \<and> shouldLogCurrentException c1
    then (iterate_reporters (Test_case_exception unwinding_message False) c1)\<lparr>shouldLogCurrentException := False\<rparr> else c1)"
  have "says r (In_case (Suc n)) (In_case (Suc n)) c (iterate_reporters (Test_case_exception unwinding_message False) c1)"
    by (rule says_iterate_from [OF c1 assms]) simp
  then have c2: "says r (In_case (Suc n)) (In_case (Suc n)) c c2"
    using c1 by (auto simp: c2_def intro: says_quiet_from)
  have "Subcase_destroy uncaught c = iterate_reporters Subcase_end c2"
    unfolding Subcase_destroy_def c2_def c1_def Let_def by (rule refl)
  then show ?thesis using says_iterate_from [OF c2 assms] by simp
qed

lemma run_items_says:
  "items_behave r items \<Longrightarrow> listens r c \<Longrightarrow> run_items items c = Inr (out, d) \<Longrightarrow> says r (In_case n) (In_case n) c d"
proof (induction items c arbitrary: n out d rule: run_items.induct)
  case (2 f rest c)
  obtain r1 where r1: "f c = Inr r1" "(if fst r1 = Returned then run_items rest (snd r1) else Inr r1) = Inr (out, d)"
    using "2.prems"(3) unfolding run_items.simps res_bind_eq_Inr by blast
  obtain out1 c1 where "r1 = (out1, c1)" by (cases r1)
  with r1 have f: "f c = Inr (out1, c1)" "(if out1 = Returned then run_items rest c1 else Inr (out1, c1)) = Inr (out, d)"
    by (auto split: if_splits)
  have one: "says r (In_case n) (In_case n) c c1" using "2.prems"(1,2) f(1) by (auto simp: behaves_def)
  show ?case
  proof (cases "out1 = Returned")
    case True
    then have "says r (In_case n) (In_case n) c1 d"
      using "2.IH" [of "(out1, c1)"] "2.prems"(1) f(2) says_listens [OF one "2.prems"(2)] by simp
    with one show ?thesis by (rule says_trans)
  next
    case False
    then show ?thesis using one f(2) by simp
  qed
next
  case (3 sig body rest c)
  then obtain entered c1 where s: "Subcase sig c = Inr (entered, c1)" by (auto simp: res_bind_eq_Inr)
  have one: "says r (In_case n) (In_case (if entered then Suc n else n)) c c1" by (rule Subcase_says [OF "3.prems"(2) s])
  note l1 = says_listens [OF one "3.prems"(2)]
  show ?case
  proof (cases entered)
    case False
    then have "says r (In_case n) (In_case n) c1 d"
      using "3.IH"(3) [of "(entered, c1)"] "3.prems"(1,3) s l1 by simp
    with one False show ?thesis by (auto intro: says_trans)
  next
    case True
    then obtain out2 c2 where b: "run_items body c1 = Inr (out2, c2)" using "3.prems"(3) s by (auto simp: res_bind_eq_Inr)
    have two: "says r (In_case (Suc n)) (In_case (Suc n)) c1 c2"
      using "3.IH"(1) [of "(entered, c1)"] True "3.prems"(1) b l1 by simp
    note l2 = says_listens [OF two l1]
    have three: "says r (In_case n) (In_case n) c (Subcase_destroy u c2)" for u
      using says_trans [OF says_trans [OF one [unfolded if_P [OF True]] two] Subcase_destroy_says [OF l2]] .
    show ?thesis
    proof (cases "out2 = Returned")
      case ret: True
      then have "run_items rest (Subcase_destroy False c2) = Inr (out, d)" using "3.prems"(3) s b True by simp
      then have "says r (In_case n) (In_case n) (Subcase_destroy False c2) d"
        using "3.IH"(2) [of "(entered, c1)" "(out2, c2)"] True ret "3.prems"(1) says_listens [OF three "3.prems"(2)] by simp
      with three show ?thesis by (rule says_trans)
    next
      case False
      then show ?thesis using three [of True] "3.prems"(3) s b True by simp
    qed
  qed
qed simp

section \<open>Test cases\<close>

text \<open>The function of every test of a list behaves.\<close>

definition tests_behave :: "reporter_key \<Rightarrow> test_environment \<Rightarrow> test_case list \<Rightarrow> bool" where
  "tests_behave r env ts \<longleftrightarrow> (\<forall>tc \<in> set ts. behaves r (env_call env tc))"

lemma prepare_says: "says r ph ph c (prepare_run c)"
  by (rule says_quiet) (simp_all add: prepare_run_def)

lemma add_flag_says: "says r ph ph c d \<Longrightarrow> says r ph ph c (add_flag f d)"
  by (erule says_quiet_from) (simp_all add: add_flag_def)

lemma catch_says: "listens r c \<Longrightarrow> says r (In_case n) (In_case n) c (catch_outcome ts out c)"
  by (auto simp: catch_outcome_def split: body_outcome.splits intro!: add_flag_says says_iterate)

lemma run_once_says:
  assumes "behaves r (env_call env tc)" and "listens r c" and "run_once env tc c = Inr (again, d)"
  shows "says r (In_case 0) (In_case 0) c d"
proof -
  obtain out c1 where call: "env_call env tc (prepare_run c) = Inr (out, c1)"
    using assms(3) by (auto simp: run_once_def res_bind_eq_Inr)
  have "says r (In_case 0) (In_case 0) (prepare_run c) c1"
    using assms(1) call says_listens [OF prepare_says assms(2)] by (auto simp: behaves_def)
  then have one: "says r (In_case 0) (In_case 0) c c1" by (rule says_trans [OF prepare_says])
  define c2 where "c2 = catch_outcome (env_translators env) out c1"
  have two: "says r (In_case 0) (In_case 0) c c2"
    unfolding c2_def by (rule says_trans [OF one catch_says [OF says_listens [OF one assms(2)]]])
  define enough where "enough = enough_failures c2 (numAssertsFailed (run_data c2) + lanes_load (numAssertsFailedCurrentTest_atomic c2))"
  define c3 where "c3 = (if enough then add_flag TooManyFailedAsserts c2 else c2)"
  have three: "says r (In_case 0) (In_case 0) c c3" using two add_flag_says [OF two] by (simp add: c3_def)
  have "d = c3 \<or> d = iterate_reporters (Test_case_reenter tc) c3"
    using assms(3)
    unfolding run_once_def call res_bind_Inr prod.case Let_def c2_def [symmetric] enough_def [symmetric] c3_def [symmetric]
    by (auto split: if_splits)
  then show ?thesis using three says_iterate_from [OF three assms(2)] by auto
qed

lemma test_loop_says:
  assumes "behaves r (env_call env tc)" and "test_loop env tc c = Some (Inr d)" and "listens r c"
  shows "says r (In_case 0) (In_case 0) c d"
proof -
  let ?P = "\<lambda>env tc c res. \<forall>d. behaves r (env_call env tc) \<longrightarrow> res = Inr d \<longrightarrow> listens r c \<longrightarrow> says r (In_case 0) (In_case 0) c d"
  have "?P env tc c (Inr d :: failure + context_state)"
  proof (rule test_loop.raw_induct [where P = ?P, rotated, OF assms(2)])
    fix loop env tc c and res :: "failure + context_state"
    assume IH: "\<And>env tc c res. loop env tc c = Some res \<Longrightarrow> ?P env tc c res"
      and hyps: "(case run_once env tc c of Inl e \<Rightarrow> Some (Inl e)
        | Inr p \<Rightarrow> if fst p then loop env tc (snd p) else Some (Inr (snd p))) = Some res"
    show "?P env tc c res"
    proof (intro allI impI)
      fix d
      assume env: "behaves r (env_call env tc)" and res: "res = Inr d" and c: "listens r c"
      obtain again c1 where once: "run_once env tc c = Inr (again, c1)"
        using hyps res by (cases "run_once env tc c") auto
      have one: "says r (In_case 0) (In_case 0) c c1" by (rule run_once_says [OF env c once])
      show "says r (In_case 0) (In_case 0) c d"
      proof (cases again)
        case True
        then have "loop env tc c1 = Some res" using hyps once by simp
        then have "says r (In_case 0) (In_case 0) c1 d"
          using IH env res says_listens [OF one c] by blast
        with one show ?thesis by (rule says_trans)
      next
        case False
        then show ?thesis using one hyps once res by simp
      qed
    qed
  qed
  then show ?thesis using assms by blast
qed

lemma start_test_says: "listens r c \<Longrightarrow> says r Running (In_case 0) c (start_test env tc c)"
  unfolding start_test_def Let_def
  by (rule says_quiet_from [OF says_iterate_from [OF says_quiet]]) (simp_all add: listens_def)

lemma end_test_says:
  assumes "listens r c" and "end_test env tc c = Inr d"
  shows "says r (In_case 0) Running c d"
proof -
  obtain e where e: "finalizeTestCaseData (env_fp env) (snd (env_clock env tc)) c = Inr e"
    "d = (iterate_reporters (Test_case_end (case_data e)) e)\<lparr>currentTest := None\<rparr>"
    using assms(2) by (auto simp: end_test_def res_bind_eq_Inr)
  have "says r (In_case 0) (In_case 0) c e"
    using e(1) by (intro says_quiet) (auto simp: finalizeTestCaseData_def Let_def split: option.splits)
  then have "says r (In_case 0) Running c (iterate_reporters (Test_case_end (case_data e)) e)"
    by (rule says_iterate_from [OF _ assms(1)]) simp
  then show ?thesis unfolding e(2) by (rule says_quiet_from) simp_all
qed

lemma run_test_case_says:
  assumes "behaves r (env_call env tc)" and "listens r c" and "run_test_case env tc c = Some (Inr d)"
  shows "says r Running Running c d"
proof -
  obtain c1 where c1: "test_loop env tc (start_test env tc c) = Some (Inr c1)" "end_test env tc c1 = Inr d"
    using assms(3) by (auto simp: run_test_case_def split: option.splits sum.splits)
  note one = start_test_says [OF assms(2)]
  have two: "says r (In_case 0) (In_case 0) (start_test env tc c) c1"
    by (rule test_loop_says [OF assms(1) c1(1) says_listens [OF one assms(2)]])
  note three = says_trans [OF one two]
  show ?thesis by (rule says_trans [OF three end_test_says [OF says_listens [OF three assms(2)] c1(2)]])
qed

section \<open>A whole run\<close>

lemma run_tests_says:
  assumes "tests_behave r env ts" and "\<not> query_mode (ctx_options c)" and "listens r c"
    and "run_tests env ts suites results c = Some (Inr (results', d))"
  shows "says r Running Running c d"
  using assms
proof (induction ts arbitrary: suites results c)
  case (Cons tc ts)
  have tc: "behaves r (env_call env tc)" and ts: "tests_behave r env ts"
    using Cons.prems(1) by (simp_all add: tests_behave_def)
  define c1 where "c1 = (if skip_me tc c then c else count_passing c)"
  have one: "says r Running Running c c1"
    by (rule says_quiet) (simp_all add: c1_def count_passing_def)
  have opts: "ctx_options c1 = ctx_options c" by (simp add: c1_def count_passing_def)
  note l1 = says_listens [OF one Cons.prems(3)]
  have rest: "says r Running Running c d"
    if "says r Running Running c e" "run_tests env ts suites results e = Some (Inr (results', d))" for e
  proof -
    have "ctx_options e = ctx_options c" using that(1) by (simp add: says_def)
    then have "says r Running Running e d"
      using Cons.IH [OF ts _ says_listens [OF that(1) Cons.prems(3)] that(2)] Cons.prems(2) by simp
    with that(1) show ?thesis by (rule says_trans)
  qed
  show ?case
  proof (cases "skip_me tc c \<or> out_of_range (ctx_options c1) (numTestCasesPassingFilters (run_data c1))")
    case True
    then have "run_tests env ts suites results (iterate_reporters (Test_case_skipped tc) c1) = Some (Inr (results', d))"
      using Cons.prems(2,4) opts by (auto simp: Let_def c1_def [symmetric])
    then show ?thesis by (rule rest [rotated]) (rule says_iterate_from [OF one Cons.prems(3)], simp)
  next
    case False
    have "\<not> opt_count (ctx_options c1)" "\<not> opt_list_test_cases (ctx_options c1)" "\<not> opt_list_test_suites (ctx_options c1)"
      using Cons.prems(2) opts by (simp_all add: query_mode_def)
    then have run: "(case run_test_case env tc c1 of None \<Rightarrow> None | Some (Inl e) \<Rightarrow> Some (Inl e)
      | Some (Inr c) \<Rightarrow> if enough_failures c (numAssertsFailed (run_data c)) then Some (Inr (results, c))
          else run_tests env ts suites results c) = Some (Inr (results', d))"
      using Cons.prems(4) False unfolding run_tests.simps Let_def c1_def [symmetric] by auto
    then obtain e where e: "run_test_case env tc c1 = Some (Inr e)" by (auto split: option.splits sum.splits)
    have two: "says r Running Running c e"
      by (rule says_trans [OF one run_test_case_says [OF tc l1 e]])
    then show ?thesis using run e rest [OF two] by (auto split: if_splits)
  qed
qed simp

text \<open>A query makes no call before its answer.\<close>

lemma run_tests_quiet:
  assumes "query_mode (ctx_options c)" and "run_tests env ts suites results c = Some (Inr (results', d))"
  shows "reports d = reports c \<and> reporters_currently_used d = reporters_currently_used c \<and> ctx_options d = ctx_options c"
  using assms
proof (induction ts arbitrary: suites results c)
  case (Cons tc ts)
  define c1 where "c1 = (if skip_me tc c then c else count_passing c)"
  have c1: "reports c1 = reports c" "reporters_currently_used c1 = reporters_currently_used c" "ctx_options c1 = ctx_options c"
    by (simp_all add: c1_def count_passing_def)
  have "\<exists>suites results e. run_tests env ts suites results e = Some (Inr (results', d)) \<and> reports e = reports c \<and>
      reporters_currently_used e = reporters_currently_used c \<and> ctx_options e = ctx_options c"
    using Cons.prems unfolding run_tests.simps Let_def c1_def [symmetric] query_mode_def
    by (auto simp: c1 split: if_splits) (use c1 in force)+
  with Cons show ?case by metis
qed simp

definition used_reporters :: "reporter_key list \<times> reporter_key list \<Rightarrow> context_state \<Rightarrow> reporter_key list" where
  "used_reporters maps c = reporters_currently_used (prepare_all maps c)"

lemma prepare_all_quiet: "reports (prepare_all maps c) = reports c \<and> ctx_options (prepare_all maps c) = ctx_options c"
  by (simp add: prepare_all_def choose_reporters_def choose_cout_def resetRunData_def Let_def)

lemma cleanup_fields: "cleanup_and_return old g c = (code, g', d) \<Longrightarrow> reports d = reports c"
  by (auto simp: cleanup_and_return_def)

text \<open>The calls of a run: a query is one call, everything else begins and ends the run.\<close>

definition run_shape :: "context_options \<Rightarrow> reporter_call list \<Rightarrow> bool" where
  "run_shape opts calls \<longleftrightarrow>
     (if \<not> normal_run opts then calls = [Report_query None []]
      else if query_mode opts then \<exists>st results. calls = [Report_query (Some st) results]
      else \<exists>middle st. calls = Test_run_start # middle @ [Test_run_end st])"

lemma run_protocol:
  assumes "tests_behave r env registered" and "distinct (used_reporters maps c)" and "r \<in> set (used_reporters maps c)"
    and "Context_run env registered maps p g c = Some (Inr (code, g', d))"
  shows "\<exists>calls. heard r d = heard r c @ calls \<and> protocol_run Idle calls = Some Finished \<and> run_shape (ctx_options c) calls"
proof -
  define c0 where "c0 = prepare_all maps c"
  have c0: "reports c0 = reports c" "ctx_options c0 = ctx_options c" "listens r c0"
    using prepare_all_quiet assms(2,3) by (simp_all add: c0_def listens_def used_reporters_def)
  have same: "heard r x = heard r y" if "reports x = reports y" for x y using that by (simp add: heard_def)
  show ?thesis
  proof (cases "normal_run (ctx_options c)")
    case False
    then obtain h where "cleanup_and_return (g_cs g) h (iterate_reporters (Report_query None []) c0) = (code, g', d)"
      using assms(4) unfolding Context_run_def Let_def c0_def [symmetric] c0(2) by (auto simp: normal_run_def)
    then have "reports d = reports (iterate_reporters (Report_query None []) c0)" by (rule cleanup_fields)
    moreover have "says r Idle Finished c0 (iterate_reporters (Report_query None []) c0)"
      by (rule says_iterate [OF c0(3)]) simp
    moreover have "heard r (iterate_reporters (Report_query None []) c0) = heard r c0 @ [Report_query None []]"
      using c0(3) by (simp add: heard_def iterate_reporters_def listens_def filter_single)
    ultimately show ?thesis
      using False same [of d] same [OF c0(1)] by (intro exI [of _ "[Report_query None []]"]) (simp add: run_shape_def)
  next
    case normal: True
    define ts where "ts = order_tests (env_rand env) (ctx_options c) registered"
    define e where "e = c0\<lparr>run_data := (run_data c0)\<lparr>numTestCases := of_nat (length registered)\<rparr>\<rparr>"
    have e: "reports e = reports c" "ctx_options e = ctx_options c" "listens r e"
      using c0 by (simp_all add: e_def listens_def)
    show ?thesis
    proof (cases "query_mode (ctx_options c)")
      case True
      then obtain results f h where f: "run_tests env ts [] [] e = Some (Inr (results, f))"
          "cleanup_and_return (g_cs g) h (iterate_reporters (Report_query (Some (run_data f)) results) f) = (code, g', d)"
        using assms(4) normal unfolding Context_run_def Let_def c0_def [symmetric] c0(2) e_def [symmetric] ts_def [symmetric]
        by (auto simp: normal_run_def split: option.splits sum.splits)
      have quiet: "reports f = reports e" "reporters_currently_used f = reporters_currently_used e"
        using run_tests_quiet [OF _ f(1)] True e(2) by simp_all
      have "heard r (iterate_reporters (Report_query (Some (run_data f)) results) f) = heard r f @ [Report_query (Some (run_data f)) results]"
        using e(3) quiet by (simp add: heard_def iterate_reporters_def listens_def filter_single)
      then have "heard r d = heard r c @ [Report_query (Some (run_data f)) results]"
        using same [OF cleanup_fields [OF f(2)]] same [OF quiet(1)] same [OF e(1)] by simp
      then show ?thesis using True normal by (intro exI [of _ "[Report_query (Some (run_data f)) results]"]) (simp add: run_shape_def)
    next
      case False
      then obtain results f h where f: "run_tests env ts [] [] (iterate_reporters Test_run_start e) = Some (Inr (results, f))"
          "cleanup_and_return (g_cs g) h (iterate_reporters (Test_run_end (run_data f)) f) = (code, g', d)"
        using assms(4) normal unfolding Context_run_def Let_def c0_def [symmetric] c0(2) e_def [symmetric] ts_def [symmetric]
        by (auto simp: normal_run_def split: option.splits sum.splits)
      have l1: "listens r (iterate_reporters Test_run_start e)" using e(3) by (simp add: listens_def iterate_reporters_def)
      have "says r Running Running (iterate_reporters Test_run_start e) f"
        by (rule run_tests_says [OF _ _ l1 f(1)]) (use assms(1) False e(2) in \<open>simp_all add: iterate_reporters_def tests_behave_def ts_def set_order_tests\<close>)
      then obtain middle where mid: "heard r f = heard r (iterate_reporters Test_run_start e) @ middle"
          "protocol_run Running middle = Some Running" and l2: "listens r f"
        using l1 by (auto simp: says_def listens_def)
      have snoc: "heard r (iterate_reporters call x) = heard r x @ [call]" if "listens r x" for call x
        using that by (simp add: heard_def iterate_reporters_def listens_def filter_single)
      have "heard r d = heard r c @ Test_run_start # middle @ [Test_run_end (run_data f)]"
        using same [OF cleanup_fields [OF f(2)]] snoc [OF l2] snoc [OF e(3)] mid(1) same [OF e(1)] by simp
      then show ?thesis using False normal mid(2)
        by (intro exI [of _ "Test_run_start # middle @ [Test_run_end (run_data f)]"]) (simp add: run_shape_def protocol_run_append)
    qed
  qed
qed

end
