(* ===== verification/Doctest_Help.thy ===== *)
theory Doctest_Help
  imports Doctest_Reporting
begin

text \<open>
  The help doctest.h prints, as tables of its lines, and what it says of the options against what
  \<open>parseArgs\<close> understands.
\<close>

section \<open>The lines of the help\<close>

text \<open>Options are shown without their prefix, because they may be given without.\<close>

definition OPTIONS_PREFIX_DISPLAY :: string where
  "OPTIONS_PREFIX_DISPLAY = []"

definition Whitespace :: "nat \<Rightarrow> string" where
  "Whitespace nrSpaces = replicate nrSpaces (CHR '' '')"

text \<open>An option with its short and long names, as they are padded, and what it does; and a line that goes on.\<close>

datatype help_line = Entry string string nat string | More nat string

fun help_text :: "help_line \<Rightarrow> string" where
  "help_text (Entry short long k what) =
     '' -'' @ OPTIONS_PREFIX_DISPLAY @ short @ ''--'' @ OPTIONS_PREFIX_DISPLAY @ long @
     Whitespace (length OPTIONS_PREFIX_DISPLAY * k) @ what @ newline"
| "help_text (More k what) = Whitespace (length OPTIONS_PREFIX_DISPLAY * k) @ what @ newline"

definition help_queries :: "help_line list" where
  "help_queries = [
     Entry ''?,   '' (''help, -'' @ OPTIONS_PREFIX_DISPLAY @ ''h                      '') 0 ''prints this message'',
     Entry ''v,   '' ''version                       '' 1 ''prints the version'',
     Entry ''c,   '' ''count                         '' 1 ''prints the number of matching tests'',
     Entry ''ltc, '' ''list-test-cases               '' 1 ''lists all matching tests by name'',
     Entry ''lts, '' ''list-test-suites              '' 1 ''lists all matching test suites'',
     Entry ''lr,  '' ''list-reporters                '' 1 ''lists all registered reporters'']"

definition help_values :: "help_line list" where
  "help_values = [
     Entry ''tc,  '' ''test-case=<filters>           '' 1 ''filters     tests by their name'',
     Entry ''tce, '' ''test-case-exclude=<filters>   '' 1 ''filters OUT tests by their name'',
     Entry ''sf,  '' ''source-file=<filters>         '' 1 ''filters     tests by their file'',
     Entry ''sfe, '' ''source-file-exclude=<filters> '' 1 ''filters OUT tests by their file'',
     Entry ''ts,  '' ''test-suite=<filters>          '' 1 ''filters     tests by their test suite'',
     Entry ''tse, '' ''test-suite-exclude=<filters>  '' 1 ''filters OUT tests by their test suite'',
     Entry ''sc,  '' ''subcase=<filters>             '' 1 ''filters     subcases by their name'',
     Entry ''sce, '' ''subcase-exclude=<filters>     '' 1 ''filters OUT subcases by their name'',
     Entry ''r,   '' ''reporters=<filters>           '' 1 ''reporters to use (console is default)'',
     Entry ''o,   '' ''out=<string>                  '' 1 ''output filename'',
     Entry ''ob,  '' ''order-by=<string>             '' 1 ''how the tests should be ordered'',
     More 3 ''                                       <string> - [file/suite/name/rand/none]'',
     Entry ''rs,  '' ''rand-seed=<int>               '' 1 ''seed for random ordering'',
     Entry ''f,   '' ''first=<int>                   '' 1 ''the first test passing the filters to'',
     More 3 ''                                       execute - for range-based execution'',
     Entry ''l,   '' ''last=<int>                    '' 1 ''the last test passing the filters to'',
     More 3 ''                                       execute - for range-based execution'',
     Entry ''aa,  '' ''abort-after=<int>             '' 1 ''stop after <int> failed assertions'',
     Entry ''scfl,'' ''subcase-filter-levels=<int>   '' 1 ''apply filters for the first <int> levels'']"

definition help_bools :: "help_line list" where
  "help_bools = [
     Entry ''s,   '' ''success=<bool>                '' 1 ''include successful assertions in output'',
     Entry ''cs,  '' ''case-sensitive=<bool>         '' 1 ''filters being treated as case sensitive'',
     Entry ''e,   '' ''exit=<bool>                   '' 1 ''exits after the tests finish'',
     Entry ''d,   '' ''duration=<bool>               '' 1 ''prints the time duration of each test'',
     Entry ''m,   '' ''minimal=<bool>                '' 1 ''minimal console output (only failures)'',
     Entry ''q,   '' ''quiet=<bool>                  '' 1 ''no console output'',
     Entry ''nt,  '' ''no-throw=<bool>               '' 1 ''skips exceptions-related assert checks'',
     Entry ''ne,  '' ''no-exitcode=<bool>            '' 1 ''returns (or exits) always with success'',
     Entry ''nr,  '' ''no-run=<bool>                 '' 1 ''skips all runtime doctest operations'',
     Entry ''ni,  '' ''no-intro=<bool>               '' 1 ''omit the framework intro in the output'',
     Entry ''nv,  '' ''no-version=<bool>             '' 1 ''omit the framework version in the output'',
     Entry ''nc,  '' ''no-colors=<bool>              '' 1 ''disables colors in output'',
     Entry ''fc,  '' ''force-colors=<bool>           '' 1 ''use colors even when not in a tty'',
     Entry ''nb,  '' ''no-breaks=<bool>              '' 1 ''disables breakpoints in debuggers'',
     Entry ''ns,  '' ''no-skip=<bool>                '' 1 ''don't skip test cases marked as skip'',
     Entry ''gfl, '' ''gnu-file-line=<bool>          '' 1 '':n: vs (n): for line numbers in output'',
     Entry ''npf, '' ''no-path-filenames=<bool>      '' 1 ''only filenames and no paths in output'',
     Entry ''spp, '' ''skip-path-prefixes=<p1:p2>    '' 1 ''whenever file paths start with this prefix, remove it from the output'',
     Entry ''nln, '' ''no-line-numbers=<bool>        '' 1 ''0 instead of real line numbers in output'']"

section \<open>The help and the parser\<close>

text \<open>The long and the short name a line shows, without what only lays it out.\<close>

fun entry_names :: "help_line \<Rightarrow> (string \<times> string) list" where
  "entry_names (Entry short long k what) =
     [(takeWhile (\<lambda>c. c \<notin> {CHR ''='', CHR '' '', CHR '',''}) long, takeWhile (\<lambda>c. c \<noteq> CHR '','') short)]"
| "entry_names (More k what) = []"

definition shown :: "help_line list \<Rightarrow> (string \<times> string) list" where
  "shown lines = concat (map entry_names lines)"

definition bool_names :: "(string \<times> string) list" where
  "bool_names = map (\<lambda>(name, sname, update, dflt). (name, sname)) bool_options"

definition filter_names_shown :: "(string \<times> string) list" where
  "filter_names_shown = map (\<lambda>(name, sname). (butlast name, butlast sname)) filter_options"

lemma assign_prefixes:
  "opt_strip_file_prefixes (assign opt_strip_file_prefixes_update v opts) =
     (case v of Some x \<Rightarrow> x | None \<Rightarrow> opt_strip_file_prefixes opts)"
  by (simp add: assign_def split: option.splits)

lemma parse_values_prefixes:
  "opt_strip_file_prefixes (parse_values argv wd opts) =
     (case PARSE_STR_OPTION argv wd ''strip-file-prefixes'' ''sfp'' [] of Some x \<Rightarrow> x | None \<Rightarrow> opt_strip_file_prefixes opts)"
  by (cases "PARSE_STR_OPTION argv wd ''strip-file-prefixes'' ''sfp'' []")
     (simp_all add: parse_values_def Let_def assign_other assign_prefixes)

lemma parse_bools_prefixes: "opt_strip_file_prefixes (parse_bools argv wd opts) = opt_strip_file_prefixes opts"
  by (simp add: parse_bools_def bool_options_def assign_other)

lemma parse_queries_prefixes: "opt_strip_file_prefixes (parse_queries argv wd opts) = opt_strip_file_prefixes opts"
  by (simp add: parse_queries_def query_options_def Let_def)

lemma setOption_prefixes:
  assumes "option_name (option @ ''='')" and "v \<noteq> []"
  shows "opt_strip_file_prefixes (ctx_options (setOption option v c)) =
    (if option \<in> {''strip-file-prefixes'', ''sfp''} then v else opt_strip_file_prefixes (ctx_options c))"
proof -
  have names: "option_name (''strip-file-prefixes'' @ ''='')" "option_name (''sfp'' @ ''='')" by code_simp+
  have "parseOption [''-'' @ option @ ''='' @ v] (OPTIONS_PREFIX @ p @ ''='') [] = (if p = option then (True, v) else (False, []))"
    if "option_name (p @ ''='')" for p
    using single_option [OF assms that] by simp
  from this [OF names(1)] this [OF names(2)] show ?thesis
    by (auto simp: setOption_def parseArgs_def parse_queries_prefixes parse_bools_prefixes parse_values_prefixes PARSE_STR_OPTION_def)
qed

text \<open>
  The help shows exactly the queries, filters, values and flags the parser knows, but for four: it leaves out
  \<open>no-debug-output\<close>, \<open>no-skipped-summary\<close> and \<open>no-time-in-output\<close>, and calls \<open>skip-path-prefixes\<close> what the parser
  knows as \<open>strip-file-prefixes\<close>. Under the name the help shows the option has no effect.
\<close>

theorem help_against_parser:
  "map fst (shown help_queries) = map (\<lambda>(names, update). hd names) query_options \<and>
   set (shown help_values) = set filter_names_shown \<union> {(''out'', ''o''), (''order-by'', ''ob''), (''rand-seed'', ''rs''),
     (''first'', ''f''), (''last'', ''l''), (''abort-after'', ''aa''), (''subcase-filter-levels'', ''scfl'')} \<and>
   set (shown help_bools) =
     set bool_names - {(''no-debug-output'', ''ndo''), (''no-skipped-summary'', ''nss''), (''no-time-in-output'', ''ntio'')} \<union>
     {(''skip-path-prefixes'', ''spp'')} \<and>
   opt_strip_file_prefixes (ctx_options (setOption ''skip-path-prefixes'' (a # v) c)) = opt_strip_file_prefixes (ctx_options c) \<and>
   opt_strip_file_prefixes (ctx_options (setOption ''spp'' (a # v) c)) = opt_strip_file_prefixes (ctx_options c) \<and>
   opt_strip_file_prefixes (ctx_options (setOption ''strip-file-prefixes'' (a # v) c)) = a # v \<and>
   opt_strip_file_prefixes (ctx_options (setOption ''sfp'' (a # v) c)) = a # v"
proof -
  have names: "option_name (''skip-path-prefixes'' @ ''='')" "option_name (''spp'' @ ''='')"
    "option_name (''strip-file-prefixes'' @ ''='')" "option_name (''sfp'' @ ''='')" by code_simp+
  have queries: "map fst (shown help_queries) = map (\<lambda>(names, update). hd names) query_options"
    by (simp add: shown_def help_queries_def query_options_def)
  have vals: "set (shown help_values) = set filter_names_shown \<union> {(''out'', ''o''), (''order-by'', ''ob''), (''rand-seed'', ''rs''),
     (''first'', ''f''), (''last'', ''l''), (''abort-after'', ''aa''), (''subcase-filter-levels'', ''scfl'')}"
    by code_simp
  have bools: "set (shown help_bools) =
     set bool_names - {(''no-debug-output'', ''ndo''), (''no-skipped-summary'', ''nss''), (''no-time-in-output'', ''ntio'')} \<union>
     {(''skip-path-prefixes'', ''spp'')}"
    by code_simp
  show ?thesis
    using queries vals bools setOption_prefixes [OF names(1), of "a # v" c] setOption_prefixes [OF names(2), of "a # v" c]
      setOption_prefixes [OF names(3), of "a # v" c] setOption_prefixes [OF names(4), of "a # v" c] by simp
qed

end
