(* ===== verification/Doctest_Console.thy ===== *)
theory Doctest_Console
  imports Doctest_Help Doctest_Junit_Reporter
begin

unbundle bit_operations_syntax

text \<open>
  \<open>ConsoleReporter\<close> of doctest.h, which writes to a stream. Members its constructor leaves uninitialised are
  arguments of the model's, the pointer to the test case is null until it is set; an element of the stack of
  subcases that is not there is a failure.
\<close>

section \<open>Layout\<close>

definition setw :: "nat \<Rightarrow> string \<Rightarrow> string" where
  "setw width t = replicate (width - length t) (CHR '' '') @ t"

text \<open>\<open>std::ceil(log10(n))\<close>, for a positive number.\<close>

function ceil_log10 :: "nat \<Rightarrow> nat" where
  "ceil_log10 n = (if n \<le> 1 then 0 else 1 + ceil_log10 ((n + 9) div 10))"
  by pat_completeness auto
termination
  by (relation "measure id") auto

declare ceil_log10.simps [simp del]

definition column_width :: "u32 \<Rightarrow> i32 \<Rightarrow> nat" where
  "column_width a b = ceil_log10 (unat (max a b) + 1)"

section \<open>The state\<close>

record console_reporter =
  cr_s :: string
  hasLoggedCurrentTestStart :: bool
  subcasesStack :: "subcase_signature list"
  currentSubcaseLevel :: nat
  cr_tc :: "test_case option"

definition ConsoleReporter :: "bool \<Rightarrow> nat \<Rightarrow> string \<Rightarrow> console_reporter" where
  "ConsoleReporter logged level os =
     \<lparr>cr_s = os, hasLoggedCurrentTestStart = logged, subcasesStack = [], currentSubcaseLevel = level, cr_tc = None\<rparr>"

definition put :: "string \<Rightarrow> console_reporter \<Rightarrow> console_reporter" where
  "put t x = x\<lparr>cr_s := cr_s x @ t\<rparr>"

definition deref_tc :: "console_reporter \<Rightarrow> failure + test_case" where
  "deref_tc x = (case cr_tc x of None \<Rightarrow> Inl Null_deref | Some tc \<Rightarrow> Inr tc)"

section \<open>Helpers\<close>

definition separator :: "(color \<Rightarrow> string) \<Rightarrow> string" where
  "separator col = col Yellow @ replicate 79 (CHR ''='') @ newline"

definition getSuccessOrFailString :: "bool \<Rightarrow> assert_type \<Rightarrow> string \<Rightarrow> string" where
  "getSuccessOrFailString success at success_str = (if success then success_str else failureString at)"

definition getSuccessOrFailColor :: "bool \<Rightarrow> assert_type \<Rightarrow> color" where
  "getSuccessOrFailColor success at = (if success then BrightGreen else if at AND is_warn \<noteq> 0 then Yellow else Red)"

definition successOrFailColoredString :: "(color \<Rightarrow> string) \<Rightarrow> bool \<Rightarrow> assert_type \<Rightarrow> string" where
  "successOrFailColoredString col success at =
     col (getSuccessOrFailColor success at) @ getSuccessOrFailString success at ''SUCCESS'' @ '': ''"

text \<open>The texts behind \<open>logged:\<close>, one to a line.\<close>

definition logged_lines :: "string list \<Rightarrow> string" where
  "logged_lines ts = ''  logged: '' @ concat (map (\<lambda>(i, t). (if i = 0 then '''' else ''          '') @ t @ newline) (enumerate 0 ts))"

definition console_contexts :: "(color \<Rightarrow> string) \<Rightarrow> string list \<Rightarrow> string" where
  "console_contexts col contexts = (if contexts \<noteq> [] then col Color_None @ logged_lines contexts else []) @ newline"

definition file_line :: "context_options \<Rightarrow> (color \<Rightarrow> string) \<Rightarrow> string \<Rightarrow> int \<Rightarrow> string \<Rightarrow> string" where
  "file_line opts col src line tail =
     col LightGrey @ file_text opts src @ (if opt_gnu_file_line opts then '':'' else ''('') @
     toString_int (if opt_no_line_numbers opts then 0 else line) @ (if opt_gnu_file_line opts then '':'' else ''):'') @ tail"

definition subcase_lines :: "subcase_signature list \<Rightarrow> string" where
  "subcase_lines stack = concat (map (\<lambda>s. if c_str (sig_name s) \<noteq> [] then ''  '' @ c_str (sig_name s) @ newline else []) stack)"

text \<open>What precedes the list of subcases.\<close>

definition test_header :: "context_options \<Rightarrow> (color \<Rightarrow> string) \<Rightarrow> test_case \<Rightarrow> string" where
  "test_header opts col tc =
     separator col @ file_line opts col (m_file tc) (sint (m_line tc)) newline @
     (case m_description tc of
        Some d \<Rightarrow> col Yellow @ ''DESCRIPTION: '' @ col Color_None @ c_str d @ newline
      | None \<Rightarrow> []) @
     (if c_str (m_test_suite tc) \<noteq> []
      then col Yellow @ ''TEST SUITE: '' @ col Color_None @ c_str (m_test_suite tc) @ newline else []) @
     (if \<not> strncmp_zero ''  Scenario:'' (m_name tc) then col Yellow @ ''TEST CASE:  '' else []) @
     col Color_None @ c_str (m_name tc) @ newline"

definition logTestStart :: "context_options \<Rightarrow> (color \<Rightarrow> string) \<Rightarrow> console_reporter \<Rightarrow> failure + console_reporter" where
  "logTestStart opts col x =
     (if hasLoggedCurrentTestStart x then Inr x
      else res_bind (deref_tc x) (\<lambda>tc.
        if length (subcasesStack x) < currentSubcaseLevel x then Inl Out_of_bounds
        else Inr ((put (test_header opts col tc @
            subcase_lines (take (currentSubcaseLevel x) (subcasesStack x)) @
            (if currentSubcaseLevel x \<noteq> length (subcasesStack x)
             then col Yellow @ newline @ ''DEEPEST SUBCASE STACK REACHED (DIFFERENT FROM THE CURRENT ONE):'' @ newline @
               col Color_None @ subcase_lines (subcasesStack x)
             else []) @ newline) x)\<lparr>hasLoggedCurrentTestStart := True\<rparr>)))"

definition tag :: "(color \<Rightarrow> string) \<Rightarrow> string" where
  "tag col = col Cyan @ ''[doctest] '' @ col Color_None"

definition printVersion :: "context_options \<Rightarrow> (color \<Rightarrow> string) \<Rightarrow> string" where
  "printVersion opts col =
     (if \<not> opt_no_version opts then tag col @ ''doctest version is '' @ quote @ VERSION_STR @ quote @ newline else [])"

definition printIntro :: "context_options \<Rightarrow> (color \<Rightarrow> string) \<Rightarrow> string" where
  "printIntro opts col =
     (if \<not> opt_no_intro opts
      then printVersion opts col @ tag col @ ''run with '' @ quote @ ''--'' @ OPTIONS_PREFIX_DISPLAY @ ''help'' @ quote @
        '' for options'' @ newline
      else [])"

definition blank_tag :: "(color \<Rightarrow> string) \<Rightarrow> string" where
  "blank_tag col = col Cyan @ ''[doctest]'' @ newline @ col Color_None"

definition printHelp :: "context_options \<Rightarrow> (color \<Rightarrow> string) \<Rightarrow> string" where
  "printHelp opts col =
     printVersion opts col @ blank_tag col @
     tag col @ ''boolean values: '' @ quote @ ''1/on/yes/true'' @ quote @ '' or '' @ quote @ ''0/off/no/false'' @ quote @ newline @
     tag col @ ''filter  values: '' @ quote @ ''str1,str2,str3'' @ quote @ '' (comma separated strings)'' @ newline @
     blank_tag col @
     tag col @ ''filters use wildcards for matching strings'' @ newline @
     tag col @ ''something passes a filter if any of the strings in a filter matches'' @ newline @
     blank_tag col @
     tag col @ ''ALL FLAGS, OPTIONS AND FILTERS ALSO AVAILABLE WITH A '' @ quote @ OPTIONS_PREFIX @ quote @ '' PREFIX!!!'' @ newline @
     blank_tag col @
     tag col @ ''Query flags - the program quits after them. Available:'' @ newline @ newline @
     concat (map help_text help_queries) @ newline @
     tag col @ ''The available <int>/<string> options/filters are:'' @ newline @ newline @
     concat (map help_text help_values) @
     col Cyan @ newline @ ''[doctest] '' @ col Color_None @
     ''Bool options - can be used like flags and true is assumed. Available:'' @ newline @ newline @
     concat (map help_text help_bools) @
     col Cyan @ newline @ ''[doctest] '' @ col Color_None @
     ''for more information visit the project documentation'' @ newline @ newline"

definition printReporters :: "(color \<Rightarrow> string) \<Rightarrow> reporter_key list \<Rightarrow> string \<Rightarrow> string" where
  "printReporters col keys type =
     (if keys \<noteq> []
      then tag col @ ''listing all registered '' @ type @ newline @
        concat (map (\<lambda>(priority, name). ''priority: '' @ setw 5 (toString_int priority) @ '' name: '' @ c_str name @ newline) keys)
      else [])"

definition printRegisteredReporters :: "reporter_env \<Rightarrow> context_options \<Rightarrow> (color \<Rightarrow> string) \<Rightarrow> string" where
  "printRegisteredReporters env opts col =
     printVersion opts col @ printReporters col (re_listeners env) ''listeners'' @ printReporters col (re_reporters env) ''reporters''"

section \<open>The methods\<close>

definition passing_line :: "(color \<Rightarrow> string) \<Rightarrow> string \<Rightarrow> u32 \<Rightarrow> string" where
  "passing_line col what n = tag col @ what @ '' passing the current filters: '' @ u32_text n @ newline"

definition console_report_query :: "reporter_env \<Rightarrow> context_options \<Rightarrow> call_context \<Rightarrow> test_case list \<Rightarrow> console_reporter \<Rightarrow> console_reporter" where
  "console_report_query env opts cc tests x =
     (let col = color_text env opts; cs = cc_run_data cc in
      if opt_version opts then put (printVersion opts col) x
      else if opt_help opts then put (printHelp opts col) x
      else if opt_list_reporters opts then put (printRegisteredReporters env opts col) x
      else if opt_count opts \<or> opt_list_test_cases opts
      then put ((if opt_list_test_cases opts
            then tag col @ ''listing all test case names'' @ newline @ separator col else []) @
          concat (map (\<lambda>tc. col Color_None @ c_str (m_name tc) @ newline) tests) @
          separator col @
          passing_line col ''unskipped test cases'' (numTestCasesPassingFilters cs)) x
      else if opt_list_test_suites opts
      then put (tag col @ ''listing all test suites'' @ newline @ separator col @
          concat (map (\<lambda>tc. col Color_None @ c_str (m_test_suite tc) @ newline) tests) @
          separator col @
          passing_line col ''unskipped test cases'' (numTestCasesPassingFilters cs) @
          passing_line col ''test suites with unskipped test cases'' (numTestSuitesPassingFilters cs)) x
      else x)"

definition console_test_run_start :: "context_options \<Rightarrow> (color \<Rightarrow> string) \<Rightarrow> console_reporter \<Rightarrow> console_reporter" where
  "console_test_run_start opts col x = (if \<not> opt_minimal opts then put (printIntro opts col) x else x)"

text \<open>The two lines of the summary and the verdict.\<close>

definition case_line :: "context_options \<Rightarrow> (color \<Rightarrow> string) \<Rightarrow> run_stats \<Rightarrow> bool \<Rightarrow> nat \<Rightarrow> nat \<Rightarrow> nat \<Rightarrow> string" where
  "case_line opts col p anythingFailed totwidth passwidth failwidth =
     tag col @ ''test cases: '' @ setw totwidth (u32_text (numTestCasesPassingFilters p)) @ '' | '' @
     col (if numTestCasesPassingFilters p = 0 \<or> anythingFailed then Color_None else Green) @
     setw passwidth (u32_text (numTestCasesPassingFilters p - numTestCasesFailed p)) @ '' passed'' @ col Color_None @ '' | '' @
     col (if numTestCasesFailed p > 0 then Red else Color_None) @
     setw failwidth (u32_text (numTestCasesFailed p)) @ '' failed'' @ col Color_None @ '' |'' @
     (if \<not> opt_no_skipped_summary opts
      then let numSkipped = numTestCases p - numTestCasesPassingFilters p in
        '' '' @ col (if numSkipped = 0 then Color_None else Yellow) @ i32_text numSkipped @ '' skipped'' @ col Color_None
      else []) @ newline"

definition assert_line :: "(color \<Rightarrow> string) \<Rightarrow> run_stats \<Rightarrow> bool \<Rightarrow> nat \<Rightarrow> nat \<Rightarrow> nat \<Rightarrow> string" where
  "assert_line col p anythingFailed totwidth passwidth failwidth =
     tag col @ ''assertions: '' @ setw totwidth (i32_text (numAsserts p)) @ '' | '' @
     col (if numAsserts p = 0 \<or> anythingFailed then Color_None else Green) @
     setw passwidth (i32_text (numAsserts p - numAssertsFailed p)) @ '' passed'' @ col Color_None @ '' | '' @
     col (if 0 <s numAssertsFailed p then Red else Color_None) @
     setw failwidth (i32_text (numAssertsFailed p)) @ '' failed'' @ col Color_None @ '' |'' @ newline"

definition console_test_run_end :: "context_options \<Rightarrow> (color \<Rightarrow> string) \<Rightarrow> run_stats \<Rightarrow> console_reporter \<Rightarrow> console_reporter" where
  "console_test_run_end opts col p x =
     (if opt_minimal opts \<and> numTestCasesFailed p = 0 then x
      else let totwidth = column_width (numTestCasesPassingFilters p) (numAsserts p);
          passwidth = column_width (numTestCasesPassingFilters p - numTestCasesFailed p) (numAsserts p - numAssertsFailed p);
          failwidth = column_width (numTestCasesFailed p) (numAssertsFailed p);
          anythingFailed = (numTestCasesFailed p > 0 \<or> 0 <s numAssertsFailed p)
        in put (separator col @ case_line opts col p anythingFailed totwidth passwidth failwidth @
            assert_line col p anythingFailed totwidth passwidth failwidth @
            tag col @ ''Status: '' @ col (if numTestCasesFailed p > 0 then Red else Green) @
            (if numTestCasesFailed p > 0 then ''FAILURE!'' else ''SUCCESS!'') @ col Color_None @ newline) x)"

definition console_test_case_start :: "test_case \<Rightarrow> console_reporter \<Rightarrow> console_reporter" where
  "console_test_case_start inp x =
     x\<lparr>hasLoggedCurrentTestStart := False, cr_tc := Some inp, subcasesStack := [], currentSubcaseLevel := 0\<rparr>"

definition console_test_case_reenter :: "console_reporter \<Rightarrow> console_reporter" where
  "console_test_case_reenter x = x\<lparr>subcasesStack := []\<rparr>"

definition flag_lines :: "reporter_env \<Rightarrow> (color \<Rightarrow> string) \<Rightarrow> test_case \<Rightarrow> i32 \<Rightarrow> string" where
  "flag_lines env col tc flags =
     (if flags AND Timeout \<noteq> 0
      then col Red @ ''Test case exceeded time limit of '' @ re_fixed env (m_timeout tc) @ ''!'' @ newline else []) @
     (if flags AND ShouldHaveFailedButDidnt \<noteq> 0
      then col Red @ ''Should have failed but didn't! Marking it as failed!'' @ newline
      else if flags AND ShouldHaveFailedAndDid \<noteq> 0
      then col Yellow @ ''Failed as expected so marking it as not failed'' @ newline
      else if flags AND CouldHaveFailedAndDid \<noteq> 0
      then col Yellow @ ''Allowed to fail so marking it as not failed'' @ newline
      else if flags AND DidntFailExactlyNumTimes \<noteq> 0
      then col Red @ ''Didn't fail exactly '' @ i32_text (m_expected_failures tc) @ '' times so marking it as failed!'' @ newline
      else if flags AND FailedExactlyNumTimes \<noteq> 0
      then col Yellow @ ''Failed exactly '' @ i32_text (m_expected_failures tc) @
        '' times as expected so marking it as not failed!'' @ newline
      else []) @
     (if flags AND TooManyFailedAsserts \<noteq> 0 then col Red @ ''Aborting - too many failed asserts!'' @ newline else [])"

definition console_test_case_end :: "reporter_env \<Rightarrow> context_options \<Rightarrow> (color \<Rightarrow> string) \<Rightarrow> test_case_stats \<Rightarrow> console_reporter \<Rightarrow> failure + console_reporter" where
  "console_test_case_end env opts col st x =
     res_bind (deref_tc x) (\<lambda>tc.
       if m_no_output tc then Inr x
       else res_bind (if opt_duration opts \<or> (failure_flags st \<noteq> 0 \<and> failure_flags st \<noteq> AssertFailure)
           then logTestStart opts col x else Inr x) (\<lambda>x.
         Inr (put ((if opt_duration opts
             then col Color_None @ re_fixed env (seconds st) @ '' s: '' @ c_str (m_name tc) @ newline else []) @
           flag_lines env col tc (failure_flags st) @ col Color_None) x)))"

definition console_test_case_exception :: "context_options \<Rightarrow> (color \<Rightarrow> string) \<Rightarrow> string list \<Rightarrow> string \<Rightarrow> bool \<Rightarrow> console_reporter \<Rightarrow> failure + console_reporter" where
  "console_test_case_exception opts col stringified error_string is_crash x =
     res_bind (deref_tc x) (\<lambda>tc.
       if m_no_output tc then Inr x
       else res_bind (logTestStart opts col x) (\<lambda>x.
         Inr (put (file_line opts col (m_file tc) (sint (m_line tc)) '' '' @
           successOrFailColoredString col False (if is_crash then is_require else is_check) @
           col Red @ (if is_crash then ''test case CRASHED: '' else ''test case THREW exception: '') @
           col Cyan @ c_str error_string @ newline @
           (if stringified \<noteq> [] then col Color_None @ logged_lines (rev stringified) else []) @
           newline @ col Color_None) x)))"

definition console_subcase_start :: "subcase_signature \<Rightarrow> console_reporter \<Rightarrow> console_reporter" where
  "console_subcase_start subc x =
     x\<lparr>subcasesStack := subcasesStack x @ [subc], currentSubcaseLevel := currentSubcaseLevel x + 1,
       hasLoggedCurrentTestStart := False\<rparr>"

text \<open>The level is a \<open>size_t\<close>, which wraps below zero.\<close>

definition console_subcase_end :: "console_reporter \<Rightarrow> console_reporter" where
  "console_subcase_end x =
     x\<lparr>currentSubcaseLevel := (if currentSubcaseLevel x = 0 then 2 ^ 64 - 1 else currentSubcaseLevel x - 1),
       hasLoggedCurrentTestStart := False\<rparr>"

definition console_log_assert :: "context_options \<Rightarrow> (color \<Rightarrow> string) \<Rightarrow> string list \<Rightarrow> assert_data \<Rightarrow> console_reporter \<Rightarrow> failure + console_reporter" where
  "console_log_assert opts col contexts rb x =
     (if \<not> m_failed rb \<and> \<not> opt_success opts then Inr x
      else res_bind (deref_tc x) (\<lambda>tc.
        if m_no_output tc then Inr x
        else res_bind (logTestStart opts col x) (\<lambda>x.
          res_bind (fulltext_log_assert col rb) (\<lambda>t.
          Inr (put (file_line opts col (a_file rb) (a_line rb) '' '' @
            successOrFailColoredString col (\<not> m_failed rb) (m_at rb) @ t @ console_contexts col contexts) x)))))"

definition console_log_message :: "context_options \<Rightarrow> (color \<Rightarrow> string) \<Rightarrow> string list \<Rightarrow> message_data \<Rightarrow> console_reporter \<Rightarrow> failure + console_reporter" where
  "console_log_message opts col contexts mb x =
     res_bind (deref_tc x) (\<lambda>tc.
       if m_no_output tc then Inr x
       else res_bind (logTestStart opts col x) (\<lambda>x.
         Inr (put (file_line opts col (msg_file mb) (msg_line mb) '' '' @
           col (getSuccessOrFailColor False (m_severity mb)) @
           getSuccessOrFailString (m_severity mb AND is_warn \<noteq> 0) (m_severity mb) ''MESSAGE'' @ '': '' @
           col Color_None @ c_str (m_string mb) @ newline @ console_contexts col contexts) x)))"

text \<open>The virtual calls.\<close>

fun console_call :: "reporter_env \<Rightarrow> context_options \<Rightarrow> call_context \<Rightarrow> reporter_call \<Rightarrow> console_reporter \<Rightarrow> failure + console_reporter" where
  "console_call env opts cc (Report_query st tests) x = Inr (console_report_query env opts cc tests x)"
| "console_call env opts cc Test_run_start x = Inr (console_test_run_start opts (color_text env opts) x)"
| "console_call env opts cc (Test_run_end p) x = Inr (console_test_run_end opts (color_text env opts) p x)"
| "console_call env opts cc (Test_case_start tc) x = Inr (console_test_case_start tc x)"
| "console_call env opts cc (Test_case_reenter tc) x = Inr (console_test_case_reenter x)"
| "console_call env opts cc (Test_case_end st) x = console_test_case_end env opts (color_text env opts) st x"
| "console_call env opts cc (Test_case_exception e crash) x =
     console_test_case_exception opts (color_text env opts) (cc_stringified cc) e crash x"
| "console_call env opts cc (Subcase_start s) x = Inr (console_subcase_start s x)"
| "console_call env opts cc Subcase_end x = Inr (console_subcase_end x)"
| "console_call env opts cc (Log_assert rb) x = console_log_assert opts (color_text env opts) (cc_contexts cc) rb x"
| "console_call env opts cc (Log_message mb) x = console_log_message opts (color_text env opts) (cc_contexts cc) mb x"
| "console_call env opts cc (Test_case_skipped tc) x = Inr x"

section \<open>Along the protocol\<close>

definition console_inv :: "phase \<Rightarrow> console_reporter \<Rightarrow> bool" where
  "console_inv ph x = (case ph of
     In_case n \<Rightarrow> cr_tc x \<noteq> None \<and> currentSubcaseLevel x = n \<and> n \<le> length (subcasesStack x) | _ \<Rightarrow> True)"

lemma put_fields [simp]:
  "cr_s (put t x) = cr_s x @ t" "hasLoggedCurrentTestStart (put t x) = hasLoggedCurrentTestStart x"
  "subcasesStack (put t x) = subcasesStack x" "currentSubcaseLevel (put t x) = currentSubcaseLevel x" "cr_tc (put t x) = cr_tc x"
  by (simp_all add: put_def)

lemma console_inv_In_case:
  "console_inv (In_case n) x \<longleftrightarrow> cr_tc x \<noteq> None \<and> currentSubcaseLevel x = n \<and> n \<le> length (subcasesStack x)"
  by (simp add: console_inv_def)

lemma console_inv_other [simp]: "console_inv Idle x" "console_inv Running x" "console_inv Finished x"
  by (simp_all add: console_inv_def)

lemma logTestStart_returns:
  assumes "console_inv (In_case n) x"
  shows "returns (logTestStart opts col x) (\<lambda>y. console_inv (In_case n) y \<and> cr_tc y = cr_tc x)"
  using assms by (auto simp: logTestStart_def deref_tc_def console_inv_In_case)

lemma console_statements:
  assumes "console_inv (In_case n) x"
  shows "returns (console_test_case_exception opts col stringified e crash x) (console_inv (In_case n))"
    and "macro_type (m_at rb) \<Longrightarrow> returns (console_log_assert opts col contexts rb x) (console_inv (In_case n))"
    and "returns (console_log_message opts col contexts mb x) (console_inv (In_case n))"
    and "returns (console_test_case_end env opts col st x) (\<lambda>y. True)"
proof -
  obtain tc where tc: "deref_tc x = Inr tc" using assms by (auto simp: deref_tc_def console_inv_In_case)
  obtain y where y: "logTestStart opts col x = Inr y" "console_inv (In_case n) y"
    using logTestStart_returns [OF assms] by (auto simp: returns_def)
  have keep: "console_inv (In_case n) (put t y)" for t using y(2) by (simp add: console_inv_In_case)
  show "returns (console_test_case_exception opts col stringified e crash x) (console_inv (In_case n))"
    "returns (console_log_message opts col contexts mb x) (console_inv (In_case n))"
    "returns (console_test_case_end env opts col st x) (\<lambda>y. True)"
    using assms by (auto simp: console_test_case_exception_def console_log_message_def console_test_case_end_def tc y(1) keep)
  assume "macro_type (m_at rb)"
  then obtain t where "fulltext_log_assert col rb = Inr t" using fulltext_returns by blast
  then show "returns (console_log_assert opts col contexts rb x) (console_inv (In_case n))"
    using assms by (auto simp: console_log_assert_def tc y(1) keep)
qed

interpretation console: reporter "console_call env opts" "\<lambda>heard. console_inv" "\<lambda>call. True" for env opts
proof
  fix ph ph' call cc x
  assume inv: "console_inv ph x" and step: "protocol ph call = Some ph'"
  from step show "returns (console_call env opts cc call x) (console_inv ph')"
  proof (cases rule: protocol_cases)
    case (ends st)
    then show ?thesis using inv console_statements(4) [of 0 x] by (simp add: returns_def)
  qed (use inv console_statements in \<open>auto simp: console_inv_In_case console_test_case_start_def console_subcase_start_def
      console_subcase_end_def console_test_case_reenter_def\<close>)
qed

section \<open>Silence\<close>

text \<open>
  The calls about a test case that print nothing: all of them if it asks for no output, otherwise those of an
  assertion that holds, of subcases, and of an end that was not asked for the time and has no other reason
  for failing than assertions.
\<close>

definition silent :: "context_options \<Rightarrow> test_case \<Rightarrow> reporter_call \<Rightarrow> bool" where
  "silent opts tc call =
     (case call of
        Test_case_start t \<Rightarrow> t = tc
      | Test_case_reenter t \<Rightarrow> True
      | Subcase_start s \<Rightarrow> True
      | Subcase_end \<Rightarrow> True
      | Log_assert rb \<Rightarrow> m_no_output tc \<or> (\<not> m_failed rb \<and> \<not> opt_success opts)
      | Log_message mb \<Rightarrow> m_no_output tc
      | Test_case_exception e crash \<Rightarrow> m_no_output tc
      | Test_case_end st \<Rightarrow> m_no_output tc \<or> (\<not> opt_duration opts \<and> opt_no_colors opts \<and> failure_flags st \<in> {0, AssertFailure})
      | _ \<Rightarrow> False)"

definition silent_inv :: "test_case \<Rightarrow> string \<Rightarrow> phase \<Rightarrow> console_reporter \<Rightarrow> bool" where
  "silent_inv tc out ph x \<longleftrightarrow> console_inv ph x \<and> cr_s x = out \<and> (\<forall>n. ph = In_case n \<longrightarrow> cr_tc x = Some tc)"

lemma no_flag_lines: "flags \<in> {0, AssertFailure} \<Longrightarrow> flag_lines env col tc flags = []"
  by (auto simp: flag_lines_def reason_bits)

lemma no_color: "opt_no_colors opts \<Longrightarrow> color_text env opts code = []"
  by (simp add: color_text_def color_to_stream_def)

interpretation silence: reporter "console_call env opts" "\<lambda>heard. silent_inv tc out" "silent opts tc" for env opts tc out
proof
  fix ph ph' call cc x
  assume inv: "silent_inv tc out ph x" and step: "protocol ph call = Some ph'" and quiet: "silent opts tc call"
  from step show "returns (console_call env opts cc call x) (silent_inv tc out ph')"
  proof (cases rule: protocol_cases)
    case (ends st)
    then have "deref_tc x = Inr tc" using inv by (simp add: silent_inv_def deref_tc_def)
    then show ?thesis using ends inv quiet
      by (auto simp: silent_inv_def silent_def console_test_case_end_def no_flag_lines no_color)
  qed (use inv quiet in \<open>auto simp: silent_inv_def silent_def console_inv_In_case console_test_case_start_def console_subcase_start_def
      console_subcase_end_def console_test_case_reenter_def console_log_assert_def console_log_message_def
      console_test_case_exception_def deref_tc_def\<close>)
qed

text \<open>
  The console reporter prints nothing about a test case whose assertions hold, without messages and
  exceptions, if colours are off and neither successes nor times are asked for; and nothing at all about
  one that asks for no output.
\<close>

theorem ConsoleReporter_silent:
  assumes "protocol_run Running (map snd es) = Some Running" and "list_all (silent opts tc) (map snd es)"
  shows "returns (report_all (console_call env opts) es x) (\<lambda>y. cr_s y = cr_s x)"
proof -
  have "silent_inv tc (cr_s x) Running x" by (simp add: silent_inv_def)
  from silence.keeps_from [OF this assms] show ?thesis
    by (rule returns_mono) (simp add: silent_inv_def)
qed

definition quiet_events :: "test_case \<Rightarrow> event list" where
  "quiet_events tc = map (Pair sample_call)
     [Test_case_start tc, Subcase_start \<lparr>sig_name = ''a & b'', sig_file = ''a.cpp'', sig_line = 8\<rparr>,
      Log_assert (sample_assert\<lparr>m_failed := m_no_output tc\<rparr>), Subcase_end, Test_case_reenter tc,
      Test_case_end (case_data sample_context)]"

theorem ConsoleReporter_silent_witness:
  "returns (report_all (console_call sample_env (sample_options\<lparr>opt_no_colors := True\<rparr>)) (quiet_events sample_case)
     (ConsoleReporter True 7 '''')) (\<lambda>y. cr_s y = '''') \<and>
   returns (report_all (console_call sample_env sample_options) (quiet_events (sample_case\<lparr>m_no_output := True\<rparr>))
     (ConsoleReporter True 7 '''')) (\<lambda>y. cr_s y = '''')"
proof -
  have at: "macro_type (m_at sample_assert)" by (simp add: sample_assert_def AssertData_def macro_type_DT)
  have run: "protocol_run Running (map snd (quiet_events tc)) = Some Running" for tc
    by (simp add: quiet_events_def at comp_def)
  have quiet: "list_all (silent (sample_options\<lparr>opt_no_colors := True\<rparr>) sample_case) (map snd (quiet_events sample_case))"
    by code_simp
  have mute: "list_all (silent sample_options (sample_case\<lparr>m_no_output := True\<rparr>)) (map snd (quiet_events (sample_case\<lparr>m_no_output := True\<rparr>)))"
    by code_simp
  show ?thesis
    using ConsoleReporter_silent [OF run quiet, of sample_env "ConsoleReporter True 7 ''''"]
      ConsoleReporter_silent [OF run mute, of sample_env "ConsoleReporter True 7 ''''"]
    by (simp add: ConsoleReporter_def)
qed

section \<open>The columns of the summary\<close>

lemma ceil_log10_digits: "ceil_log10 (Suc n) = (if n = 0 then 0 else length (dec_of_nat n))"
proof (induction n rule: dec_of_nat.induct)
  case (1 n)
  have step: "ceil_log10 (Suc n) = (if n = 0 then 0 else 1 + ceil_log10 (Suc (n div 10)))"
    by (subst ceil_log10.simps) (simp, metis div_add_self1 Suc_eq_plus1 zero_neq_numeral)
  show ?case
  proof (cases "n < 10")
    case True
    then have "ceil_log10 (Suc (n div 10)) = 0" by (subst ceil_log10.simps) simp
    with step True show ?thesis by (subst dec_of_nat.simps) simp
  next
    case False
    then have "n div 10 \<noteq> 0" by simp
    with step False "1.IH" [OF False] show ?thesis by (subst dec_of_nat.simps) simp
  qed
qed

text \<open>\<open>ceil_log10\<close> is the logarithm it stands for.\<close>

lemma ceil_log10_le: "n \<le> 10 ^ k \<longleftrightarrow> ceil_log10 n \<le> k"
proof (induction n arbitrary: k rule: ceil_log10.induct)
  case (1 n)
  show ?case
  proof (cases "n \<le> 1")
    case True
    moreover have "(1 :: nat) \<le> 10 ^ k" by simp
    moreover have "ceil_log10 n = 0" using True by (subst ceil_log10.simps) simp
    ultimately show ?thesis by (auto intro: order.trans)
  next
    case False
    have rec: "ceil_log10 n = 1 + ceil_log10 ((n + 9) div 10)" using False by (subst ceil_log10.simps) simp
    show ?thesis
    proof (cases k)
      case 0
      then show ?thesis using False rec by simp
    next
      case (Suc j)
      have "n \<le> 10 ^ k \<longleftrightarrow> (n + 9) div 10 \<le> 10 ^ j" unfolding Suc by (simp add: less_eq_div_iff_mult_less_eq div_le_mono, presburger)
      then show ?thesis using "1.IH" [OF False, of j] rec Suc by simp
    qed
  qed
qed

end
