(* ===== verification/Doctest_Expression.thy ===== *)
theory Doctest_Expression
  imports Doctest_Asserts Doctest_Options
begin

unbundle bit_operations_syntax

text \<open>
  Expressions in assertions: how they are taken apart and turned into text, and the macros that build an assertion
  around them. The operators of the types compared and the texts of their values are parameters; evaluating an expression
  gives its value or an exception.
\<close>

section \<open>Texts of values\<close>

text \<open>A value is written to the shared stream between a push and a pop.\<close>

definition toStream :: "string \<Rightarrow> tlss \<Rightarrow> failure + string \<times> tlss" where
  "toStream t s = tlssPop (tlss_write t (tlssPush s))"

definition unprintable :: string where
  "unprintable = ''{?}''"

definition fill_array :: "('a \<Rightarrow> string) \<Rightarrow> 'a list \<Rightarrow> string" where
  "fill_array str xs =
     ''['' @ concat (map (\<lambda>(i, x). (if i \<noteq> 0 then '', '' else []) @ c_str (str x)) (enumerate 0 xs)) @ '']''"

text \<open>An array of characters without the null byte at its end, if it has one.\<close>

definition fill_chars :: "string \<Rightarrow> string" where
  "fill_chars arr = c_str (if last arr \<noteq> CHR 0x00 then arr else butlast arr)"

definition fill_pointer :: "('p \<Rightarrow> string) \<Rightarrow> 'p option \<Rightarrow> string" where
  "fill_pointer str p = (case p of Some a \<Rightarrow> str a | None \<Rightarrow> ''nullptr'')"

definition toString_nullptr :: string where
  "toString_nullptr = ''nullptr''"

definition toString_bool :: "bool \<Rightarrow> string" where
  "toString_bool b = (if b then ''true'' else ''false'')"

text \<open>Integers, characters among them, in decimal.\<close>

definition toString_signed :: "'a :: len word \<Rightarrow> string" where
  "toString_signed x = toString_int (sint x)"

definition toString_unsigned :: "'a :: len word \<Rightarrow> string" where
  "toString_unsigned x = toString_int (uint x)"

definition toString_Approx :: "(double \<Rightarrow> string) \<Rightarrow> approx \<Rightarrow> string" where
  "toString_Approx str a = ''Approx( '' @ str (m_value a) @ '' )''"

definition toString_IsNaN :: "(double \<Rightarrow> string) \<Rightarrow> double \<Rightarrow> bool \<Rightarrow> string" where
  "toString_IsNaN str x flipped = (if flipped then ''! '' else []) @ ''IsNaN( '' @ str x @ '' )''"

definition toString_enum :: "('u \<Rightarrow> string) \<Rightarrow> ('e \<Rightarrow> 'u) \<Rightarrow> 'e \<Rightarrow> string" where
  "toString_enum str underlying e = str (underlying e)"

section \<open>Taking an expression apart\<close>

datatype comparison = Cmp_eq | Cmp_ne | Cmp_gt | Cmp_lt | Cmp_ge | Cmp_le

type_synonym ('l, 'r) operators = "comparison \<Rightarrow> 'l \<Rightarrow> 'r \<Rightarrow> bool"

definition RelationalComparator :: "('l, 'r) operators \<Rightarrow> comparison \<Rightarrow> 'l \<Rightarrow> 'r \<Rightarrow> bool" where
  "RelationalComparator ops cmp lhs rhs = ops cmp lhs rhs"

fun op_str :: "comparison \<Rightarrow> string" where
  "op_str Cmp_eq = '' == ''"
| "op_str Cmp_ne = '' != ''"
| "op_str Cmp_gt = '' >  ''"
| "op_str Cmp_lt = '' <  ''"
| "op_str Cmp_ge = '' >= ''"
| "op_str Cmp_le = '' <= ''"

definition stringifyBinaryExpr :: "('l \<Rightarrow> string) \<Rightarrow> ('r \<Rightarrow> string) \<Rightarrow> 'l \<Rightarrow> string \<Rightarrow> 'r \<Rightarrow> string" where
  "stringifyBinaryExpr strl strr lhs sep rhs = strl lhs @ sep @ strr rhs"

record 'l expression_lhs =
  ex_lhs :: 'l
  ex_at :: assert_type

text \<open>The decomposer, which catches the left operand.\<close>

definition ExpressionDecomposer :: "assert_type \<Rightarrow> 'l \<Rightarrow> 'l expression_lhs" where
  "ExpressionDecomposer at operand = \<lparr>ex_lhs = operand, ex_at = at\<rparr>"

text \<open>A comparison with the right operand, and the conversion of a single operand.\<close>

definition Expression_compare :: "('l, 'r) operators \<Rightarrow> ('l \<Rightarrow> string) \<Rightarrow> ('r \<Rightarrow> string) \<Rightarrow> bool \<Rightarrow> comparison \<Rightarrow>
    'l expression_lhs \<Rightarrow> 'r \<Rightarrow> expr_result" where
  "Expression_compare ops strl strr success cmp ex rhs =
     (let res = ops cmp (ex_lhs ex) rhs;
          res = (if ex_at ex AND is_false \<noteq> 0 then \<not> res else res)
      in if \<not> res \<or> success then Result res (stringifyBinaryExpr strl strr (ex_lhs ex) (op_str cmp) rhs)
         else Result res [])"

definition Expression_result :: "('l \<Rightarrow> bool) \<Rightarrow> ('l \<Rightarrow> string) \<Rightarrow> bool \<Rightarrow> 'l expression_lhs \<Rightarrow> expr_result" where
  "Expression_result to_bool strl success ex =
     (let res = to_bool (ex_lhs ex);
          res = (if ex_at ex AND is_false \<noteq> 0 then \<not> res else res)
      in if \<not> res \<or> success then Result res (strl (ex_lhs ex)) else Result res [])"

section \<open>The macros\<close>

text \<open>The macros log the assertion and react to it.\<close>

definition log_and_react :: "string list \<Rightarrow> assert_data \<Rightarrow> context_state \<Rightarrow> failure + body_outcome \<times> context_state" where
  "log_and_react status rb c = res_bind (ResultBuilder_log True status rb c) (\<lambda>(brk, rb, c). Inr (ResultBuilder_react rb c))"

definition wrap_in_try :: "translators \<Rightarrow> exn + 'a \<Rightarrow> ('a \<Rightarrow> assert_data \<Rightarrow> assert_data) \<Rightarrow> assert_data \<Rightarrow> assert_data" where
  "wrap_in_try ts e f rb = (case e of Inl ex \<Rightarrow> translateException ts ex rb | Inr a \<Rightarrow> f a rb)"

text \<open>\<open>CHECK(a == b)\<close> and the like, and \<open>CHECK(a)\<close>.\<close>

definition ASSERT_comparison :: "translators \<Rightarrow> string list \<Rightarrow> assert_type \<Rightarrow> string \<Rightarrow> int \<Rightarrow> string \<Rightarrow> ('l, 'r) operators \<Rightarrow>
    ('l \<Rightarrow> string) \<Rightarrow> ('r \<Rightarrow> string) \<Rightarrow> comparison \<Rightarrow> exn + 'l \<times> 'r \<Rightarrow> context_state \<Rightarrow> failure + body_outcome \<times> context_state" where
  "ASSERT_comparison ts status at src line expr ops strl strr cmp operands c =
     log_and_react status
       (wrap_in_try ts operands (\<lambda>(l, r). setResult
           (Expression_compare ops strl strr (opt_success (ctx_options c)) cmp (ExpressionDecomposer at l) r))
         (ResultBuilder at src line expr [] [] c)) c"

definition ASSERT_truth :: "translators \<Rightarrow> string list \<Rightarrow> assert_type \<Rightarrow> string \<Rightarrow> int \<Rightarrow> string \<Rightarrow> ('l \<Rightarrow> bool) \<Rightarrow> ('l \<Rightarrow> string) \<Rightarrow>
    exn + 'l \<Rightarrow> context_state \<Rightarrow> failure + body_outcome \<times> context_state" where
  "ASSERT_truth ts status at src line expr to_bool strl operand c =
     log_and_react status
       (wrap_in_try ts operand (\<lambda>l. setResult
           (Expression_result to_bool strl (opt_success (ctx_options c)) (ExpressionDecomposer at l)))
         (ResultBuilder at src line expr [] [] c)) c"

text \<open>\<open>CHECK_EQ(a, b)\<close> and the like, \<open>CHECK_UNARY(a)\<close> and \<open>CHECK_UNARY_FALSE(a)\<close>.\<close>

definition BINARY_ASSERT :: "translators \<Rightarrow> string list \<Rightarrow> assert_type \<Rightarrow> string \<Rightarrow> int \<Rightarrow> string \<Rightarrow> ('l, 'r) operators \<Rightarrow>
    ('l \<Rightarrow> string) \<Rightarrow> ('r \<Rightarrow> string) \<Rightarrow> comparison \<Rightarrow> exn + 'l \<times> 'r \<Rightarrow> context_state \<Rightarrow> failure + body_outcome \<times> context_state" where
  "BINARY_ASSERT ts status at src line expr ops strl strr cmp operands c =
     log_and_react status
       (wrap_in_try ts operands (\<lambda>(l, r) rb. snd (ResultBuilder_binary_assert (RelationalComparator ops cmp l r)
           (stringifyBinaryExpr strl strr l '', '' r) rb c))
         (ResultBuilder at src line expr [] [] c)) c"

definition UNARY_ASSERT :: "translators \<Rightarrow> string list \<Rightarrow> assert_type \<Rightarrow> string \<Rightarrow> int \<Rightarrow> string \<Rightarrow> ('l \<Rightarrow> bool) \<Rightarrow> ('l \<Rightarrow> string) \<Rightarrow>
    exn + 'l \<Rightarrow> context_state \<Rightarrow> failure + body_outcome \<times> context_state" where
  "UNARY_ASSERT ts status at src line expr to_bool strl operand c =
     log_and_react status
       (wrap_in_try ts operand (\<lambda>l rb. snd (ResultBuilder_unary_assert (to_bool l) (strl l) rb c))
         (ResultBuilder at src line expr [] [] c)) c"

text \<open>
  The macros about exceptions, on what the expression throws, if anything; \<open>has_type\<close> tells whether it is of the type
  asked for. With the option \<open>no-throw\<close> they do nothing.
\<close>

definition ASSERT_THROWS_AS :: "translators \<Rightarrow> string list \<Rightarrow> assert_type \<Rightarrow> string \<Rightarrow> int \<Rightarrow> string \<Rightarrow> string \<Rightarrow> string_contains \<Rightarrow>
    (exn \<Rightarrow> bool) \<Rightarrow> exn option \<Rightarrow> context_state \<Rightarrow> failure + body_outcome \<times> context_state" where
  "ASSERT_THROWS_AS ts status at src line expr type message has_type thrown c =
     (if \<not> opt_no_throw (ctx_options c)
      then let rb = AssertData at src line expr type message c
        in log_and_react status
          (case thrown of
             None \<Rightarrow> rb
           | Some ex \<Rightarrow> if has_type ex then (translateException ts ex rb)\<lparr>m_threw_as := True\<rparr> else translateException ts ex rb) c
      else Inr (Returned, c))"

definition ASSERT_THROWS_WITH :: "translators \<Rightarrow> string list \<Rightarrow> assert_type \<Rightarrow> string \<Rightarrow> int \<Rightarrow> string \<Rightarrow> string_contains \<Rightarrow>
    exn option \<Rightarrow> context_state \<Rightarrow> failure + body_outcome \<times> context_state" where
  "ASSERT_THROWS_WITH ts status at src line expr message thrown c =
     (if \<not> opt_no_throw (ctx_options c)
      then let rb = AssertData at src line expr [] message c
        in log_and_react status (case thrown of None \<Rightarrow> rb | Some ex \<Rightarrow> translateException ts ex rb) c
      else Inr (Returned, c))"

definition ASSERT_NOTHROW :: "translators \<Rightarrow> string list \<Rightarrow> assert_type \<Rightarrow> string \<Rightarrow> int \<Rightarrow> string \<Rightarrow>
    exn option \<Rightarrow> context_state \<Rightarrow> failure + body_outcome \<times> context_state" where
  "ASSERT_NOTHROW ts status at src line expr thrown c =
     (let rb = ResultBuilder at src line expr [] [] c
      in log_and_react status (case thrown of None \<Rightarrow> rb | Some ex \<Rightarrow> translateException ts ex rb) c)"

text \<open>\<open>CHECK_MESSAGE\<close> and the like: the assertion in the scope of an \<open>INFO\<close>, which ends also if it throws.\<close>

definition with_info :: "string \<Rightarrow> (context_state \<Rightarrow> failure + body_outcome \<times> context_state) \<Rightarrow>
    context_state \<Rightarrow> failure + body_outcome \<times> context_state" where
  "with_info t f c =
     res_bind (f (ContextScopeBase t c)) (\<lambda>(out, c).
     res_bind (ContextScope_destroy (out \<noteq> Returned) t c) (\<lambda>c. Inr (out, c)))"

text \<open>A message, logged and reacted to, with the stream it takes its text from.\<close>

definition message_statement :: "string list \<Rightarrow> message_builder \<Rightarrow> tlss \<Rightarrow> context_state \<Rightarrow> failure + body_outcome \<times> context_state" where
  "message_statement status mb s c =
     res_bind (MessageBuilder_log status mb s c) (\<lambda>(brk, mb, s, c). Inr (MessageBuilder_react mb c))"

section \<open>The texts\<close>

lemma toStream_text:
  assumes "tlss_put s \<le> length (tlss_chars s)"
  shows "returns (toStream t s) (\<lambda>r. fst r = t \<and> tlss_after s [] (snd r))"
proof -
  have "tlss_after (tlssPush s) t (tlss_write t (tlssPush s))"
    using write_after [of "tlssPush s" t] assms by (simp add: tlssPush_def)
  from pop_after [OF this assms] show ?thesis by (simp add: toStream_def)
qed

lemma fill_array_join: "fill_array str xs = ''['' @ join '', '' (map (\<lambda>x. c_str (str x)) xs) @ '']''"
proof -
  have later: "concat (map (\<lambda>(i, x). (if i \<noteq> 0 then '', '' else []) @ c_str (str x)) (enumerate (Suc k) ys)) =
      concat (map (\<lambda>x. '', '' @ c_str (str x)) ys)" for k ys
    by (induction ys arbitrary: k) simp_all
  have joined: "join '', '' (t # ts) = t @ concat (map (\<lambda>u. '', '' @ u) ts)" for t ts
    by (induction ts arbitrary: t) (simp_all add: join_Cons)
  show ?thesis
  proof (cases xs)
    case (Cons y ys)
    then show ?thesis using later [of 0 ys] joined [of "c_str (str y)" "map (\<lambda>x. c_str (str x)) ys"]
      by (simp add: fill_array_def comp_def)
  qed (simp add: fill_array_def)
qed

section \<open>The macros agree\<close>

lemma in_tests_log_and_react:
  assumes "\<not> about_exceptions w"
    and "rb = (ResultBuilder (DT lv w) src line expr [] [] c)\<lparr>m_failed := failed,
      m_decomp := (if failed \<or> opt_success (ctx_options c) then decomp else [])\<rparr>"
  shows "res_bind (ASSERT_IN_TESTS status (DT lv w) src line expr decomp failed c) (\<lambda>r. Inr (snd r)) = log_and_react status rb c"
proof -
  have rb2: "(if m_failed ((ResultBuilder (DT lv w) src line expr [] [] c)\<lparr>m_failed := failed\<rparr>) \<or> opt_success (ctx_options c)
      then (ResultBuilder (DT lv w) src line expr [] [] c)\<lparr>m_failed := failed, m_decomp := decomp\<rparr>
      else (ResultBuilder (DT lv w) src line expr [] [] c)\<lparr>m_failed := failed\<rparr>) = rb"
    by (simp add: assms(2) ResultBuilder_def AssertData_def)
  have at: "m_at rb = DT lv w" "m_exception rb = []" "m_failed rb = failed"
    by (simp_all add: assms(2) ResultBuilder_def AssertData_def)
  have verdict: "exception_verdict rb = failed"
    using at assms(1) by (cases w) (simp_all add: exception_verdict_def DT_what about_exceptions_def)
  show ?thesis
    unfolding ASSERT_IN_TESTS_def Let_def rb2 log_and_react_def
    by (simp add: ResultBuilder_log_def verdict at Let_def ResultBuilder_react_def res_bind_def)
qed

text \<open>
  The assertion macros and their fast variants, which call a function instead of building the result in place, do
  the same to the state and throw alike, for every expression that throws nothing itself.
\<close>

theorem fast_assertions_agree:
  assumes "\<not> about_exceptions w"
  shows "BINARY_ASSERT ts status (DT lv w) src line expr ops strl strr cmp (Inr (l, r)) c =
      res_bind (binary_assert True status (DT lv w) src line expr (RelationalComparator ops cmp l r)
        (stringifyBinaryExpr strl strr l '', '' r) c) (\<lambda>out. Inr (snd out)) \<and>
    UNARY_ASSERT ts status (DT lv w) src line expr to_bool strl (Inr l) c =
      res_bind (unary_assert True status (DT lv w) src line expr (to_bool l) (strl l) c) (\<lambda>out. Inr (snd out)) \<and>
    ASSERT_comparison ts status (DT lv w) src line expr ops strl strr cmp (Inr (l, r)) c =
      res_bind (decomp_assert True status (DT lv w) src line expr
        (Expression_compare ops strl strr (opt_success (ctx_options c)) cmp (ExpressionDecomposer (DT lv w) l) r) c) (\<lambda>out. Inr (snd out)) \<and>
    ASSERT_truth ts status (DT lv w) src line expr to_bool strl (Inr l) c =
      res_bind (decomp_assert True status (DT lv w) src line expr
        (Expression_result to_bool strl (opt_success (ctx_options c)) (ExpressionDecomposer (DT lv w) l)) c) (\<lambda>out. Inr (snd out))"
proof (intro conjI)
  note agree = in_tests_log_and_react [OF assms, symmetric]
  note fields = wrap_in_try_def Let_def ResultBuilder_def AssertData_def setResult_def Result_def ExpressionDecomposer_def
  let ?seen = "stringifyBinaryExpr strl strr l"
  have "binary_assert True status (DT lv w) src line expr b t c = ASSERT_IN_TESTS status (DT lv w) src line expr t (\<not> b) c" for b t
    by (simp add: binary_assert_def)
  then show "BINARY_ASSERT ts status (DT lv w) src line expr ops strl strr cmp (Inr (l, r)) c =
      res_bind (binary_assert True status (DT lv w) src line expr (RelationalComparator ops cmp l r)
        (?seen '', '' r) c) (\<lambda>out. Inr (snd out))"
    unfolding BINARY_ASSERT_def by (simp only:) (rule agree, simp add: fields ResultBuilder_binary_assert_def)
  define no where "no \<longleftrightarrow> DT lv w AND is_false \<noteq> 0"
  have "unary_assert True status (DT lv w) src line expr b t c = ASSERT_IN_TESTS status (DT lv w) src line expr t (b = no) c" for b t
    by (cases no) (simp_all add: unary_assert_def no_def)
  then show "UNARY_ASSERT ts status (DT lv w) src line expr to_bool strl (Inr l) c =
      res_bind (unary_assert True status (DT lv w) src line expr (to_bool l) (strl l) c) (\<lambda>out. Inr (snd out))"
    unfolding UNARY_ASSERT_def by (simp only:) (rule agree, cases no, auto simp: fields ResultBuilder_unary_assert_def no_def)
  have decomp: "decomp_assert True status (DT lv w) src line expr res c =
      ASSERT_IN_TESTS status (DT lv w) src line expr (r_decomp res) (\<not> m_passed res) c" for res
    by (simp add: decomp_assert_def)
  show "ASSERT_comparison ts status (DT lv w) src line expr ops strl strr cmp (Inr (l, r)) c =
      res_bind (decomp_assert True status (DT lv w) src line expr
        (Expression_compare ops strl strr (opt_success (ctx_options c)) cmp (ExpressionDecomposer (DT lv w) l) r) c) (\<lambda>out. Inr (snd out))"
    unfolding ASSERT_comparison_def decomp by (rule agree) (auto simp: fields Expression_compare_def)
  show "ASSERT_truth ts status (DT lv w) src line expr to_bool strl (Inr l) c =
      res_bind (decomp_assert True status (DT lv w) src line expr
        (Expression_result to_bool strl (opt_success (ctx_options c)) (ExpressionDecomposer (DT lv w) l)) c) (\<lambda>out. Inr (snd out))"
    unfolding ASSERT_truth_def decomp by (rule agree) (auto simp: fields Expression_result_def)
qed

text \<open>What an assertion does to the state, its report apart, depends on its level and on whether it failed.\<close>

definition assert_effect :: "assert_level \<Rightarrow> bool \<Rightarrow> context_state \<Rightarrow> body_outcome \<times> context_state" where
  "assert_effect lv failed c =
     (let c = addAssert (level_bit lv) c;
          c = (if failed then addFailedAssert (level_bit lv) c else c)
      in if failed \<and> checkIfShouldThrow (level_bit lv) c then throwException c else (Returned, c))"

definition reported :: "assert_data \<Rightarrow> context_state \<Rightarrow> context_state \<Rightarrow> context_state" where
  "reported rb c d = d\<lparr>reports := reports c @ map (\<lambda>r. (r, Log_assert rb)) (reporters_currently_used c)\<rparr>"

lemma level_bits:
  "level_bit lv AND is_warn = 0 \<longleftrightarrow> lv \<noteq> Warn" "level_bit lv AND is_check = 0 \<longleftrightarrow> lv \<noteq> Check"
  "level_bit lv AND is_require = 0 \<longleftrightarrow> lv \<noteq> Require"
  by (cases lv; simp add: assert_bits)+

lemma level_alone:
  "addAssert (DT lv w) c = addAssert (level_bit lv) c" "addFailedAssert (DT lv w) c = addFailedAssert (level_bit lv) c"
  "checkIfShouldThrow (DT lv w) c = checkIfShouldThrow (level_bit lv) c"
  using DT_level [of lv w] level_bits [of lv]
  by (auto simp: addAssert_def addFailedAssert_def checkIfShouldThrow_def)

definition with_quotes :: "assert_data \<Rightarrow> assert_data" where
  "with_quotes rb = (if m_exception rb \<noteq> [] then rb\<lparr>m_exception := quoted (m_exception rb)\<rparr> else rb)"

lemma log_and_react_effect:
  assumes "m_at rb = DT lv w" and "exception_verdict rb = m_failed rb"
  shows "log_and_react status rb c =
    Inr (fst (assert_effect lv (m_failed rb) c), reported (with_quotes rb) c (snd (assert_effect lv (m_failed rb) c)))"
proof -
  have same: "rb\<lparr>m_failed := exception_verdict rb\<rparr> = rb" using assms(2) by simp
  define rb' where "rb' = with_quotes rb"
  have rb': "m_at rb' = DT lv w" "m_failed rb' = m_failed rb" by (simp_all add: rb'_def with_quotes_def assms(1))
  define d where "d = (let c1 = iterate_reporters (Log_assert rb') (addAssert (level_bit lv) c)
    in if m_failed rb then addFailedAssert (level_bit lv) c1 else c1)"
  have "log_and_react status rb c = Inr (ResultBuilder_react rb' d)"
    unfolding log_and_react_def ResultBuilder_log_def Let_def same with_quotes_def [symmetric] rb'_def [symmetric]
    by (simp add: rb' level_alone d_def)
  moreover have "d = reported rb' c (if m_failed rb then addFailedAssert (level_bit lv) (addAssert (level_bit lv) c) else addAssert (level_bit lv) c)"
    by (simp add: d_def reported_def Let_def addAssert_def addFailedAssert_def iterate_reporters_def)
  moreover have "checkIfShouldThrow at (reported rb' c e) = checkIfShouldThrow at e" for at e
    by (simp add: checkIfShouldThrow_def reported_def)
  ultimately show ?thesis
    unfolding rb'_def [symmetric]
    by (simp add: ResultBuilder_react_def rb' level_alone assert_effect_def Let_def throwException_def) (simp add: reported_def)
qed

lemma verdict_plain: "m_at rb = DT lv w \<Longrightarrow> \<not> about_exceptions w \<Longrightarrow> exception_verdict rb = m_failed rb"
  by (cases w) (simp_all add: exception_verdict_def DT_what about_exceptions_def)

lemma no_quotes: "m_exception rb = [] \<Longrightarrow> with_quotes rb = rb"
  by (simp add: with_quotes_def)

text \<open>
  A comparison taken apart and the macro for that comparison: the same verdict, the same effect and the same throw. Only
  the report differs, in the kind of the assertion and in what stands between the operands.
\<close>

theorem comparison_macros_agree:
  assumes "\<not> about_exceptions w"
  shows "\<exists>rb1 rb2. m_failed rb1 = (\<not> ops cmp l r) \<and> m_failed rb2 = (\<not> ops cmp l r) \<and>
    ASSERT_comparison ts status (DT lv Plain) src line expr1 ops strl strr cmp (Inr (l, r)) c =
      Inr (fst (assert_effect lv (\<not> ops cmp l r) c), reported rb1 c (snd (assert_effect lv (\<not> ops cmp l r) c))) \<and>
    BINARY_ASSERT ts status (DT lv w) src line expr2 ops strl strr cmp (Inr (l, r)) c =
      Inr (fst (assert_effect lv (\<not> ops cmp l r) c), reported rb2 c (snd (assert_effect lv (\<not> ops cmp l r) c))) \<and>
    (if ops cmp l r \<and> \<not> opt_success (ctx_options c) then m_decomp rb1 = [] \<and> m_decomp rb2 = []
     else m_decomp rb1 = strl l @ op_str cmp @ strr r \<and> m_decomp rb2 = strl l @ '', '' @ strr r)"
proof -
  define res where "res = Expression_compare ops strl strr (opt_success (ctx_options c)) cmp (ExpressionDecomposer (DT lv Plain) l) r"
  define rb1 where "rb1 = setResult res (ResultBuilder (DT lv Plain) src line expr1 [] [] c)"
  define rb2 where "rb2 = snd (ResultBuilder_binary_assert (ops cmp l r) (stringifyBinaryExpr strl strr l '', '' r)
    (ResultBuilder (DT lv w) src line expr2 [] [] c) c)"
  have fields1: "m_at rb1 = DT lv Plain" "m_exception rb1 = []" "m_failed rb1 = (\<not> ops cmp l r)"
    "m_decomp rb1 = (if ops cmp l r \<and> \<not> opt_success (ctx_options c) then [] else strl l @ op_str cmp @ strr r)"
    using DT_what(5) [of lv Plain]
    by (auto simp: rb1_def res_def setResult_def ResultBuilder_def AssertData_def Expression_compare_def ExpressionDecomposer_def
        Result_def stringifyBinaryExpr_def Let_def)
  have fields2: "m_at rb2 = DT lv w" "m_exception rb2 = []" "m_failed rb2 = (\<not> ops cmp l r)"
    "m_decomp rb2 = (if ops cmp l r \<and> \<not> opt_success (ctx_options c) then [] else strl l @ '', '' @ strr r)"
    by (auto simp: rb2_def ResultBuilder_binary_assert_def ResultBuilder_def AssertData_def stringifyBinaryExpr_def Let_def)
  have verdict: "exception_verdict rb1 = m_failed rb1" "exception_verdict rb2 = m_failed rb2"
    using verdict_plain [OF fields1(1)] verdict_plain [OF fields2(1) assms] by (simp_all add: about_exceptions_def)
  have one: "ASSERT_comparison ts status (DT lv Plain) src line expr1 ops strl strr cmp (Inr (l, r)) c =
      Inr (fst (assert_effect lv (\<not> ops cmp l r) c), reported rb1 c (snd (assert_effect lv (\<not> ops cmp l r) c)))"
    using log_and_react_effect [OF fields1(1) verdict(1), of status c] no_quotes [OF fields1(2)]
    by (simp add: ASSERT_comparison_def wrap_in_try_def rb1_def [symmetric] res_def [symmetric] fields1(3))
  have two: "BINARY_ASSERT ts status (DT lv w) src line expr2 ops strl strr cmp (Inr (l, r)) c =
      Inr (fst (assert_effect lv (\<not> ops cmp l r) c), reported rb2 c (snd (assert_effect lv (\<not> ops cmp l r) c)))"
    using log_and_react_effect [OF fields2(1) verdict(2), of status c] no_quotes [OF fields2(2)]
    by (simp add: BINARY_ASSERT_def wrap_in_try_def RelationalComparator_def rb2_def [symmetric] fields2(3))
  show ?thesis
    using one two fields1(3,4) fields2(3,4) by (intro exI [of _ rb1] exI [of _ rb2]) simp
qed

text \<open>An expression that throws fails the assertion, whatever it was to be; the report has the translation, in quotes.\<close>

lemma throwing_expression:
  assumes "\<not> about_exceptions w" and "translateActiveException ts ex \<noteq> []"
  shows "\<exists>rb. m_failed rb \<and> m_threw rb \<and> m_exception rb = quoted (translateActiveException ts ex) \<and>
    ASSERT_comparison ts status (DT lv w) src line expr ops strl strr cmp (Inl ex) c =
      Inr (fst (assert_effect lv True c), reported rb c (snd (assert_effect lv True c))) \<and>
    ASSERT_truth ts status (DT lv w) src line expr to_bool strl (Inl ex) c =
      Inr (fst (assert_effect lv True c), reported rb c (snd (assert_effect lv True c)))"
proof -
  define rb0 where "rb0 = translateException ts ex (ResultBuilder (DT lv w) src line expr [] [] c)"
  define rb where "rb = rb0\<lparr>m_exception := quoted (translateActiveException ts ex)\<rparr>"
  have rb0: "m_at rb0 = DT lv w" "m_failed rb0" "m_threw rb0" "m_exception rb0 = translateActiveException ts ex"
    by (simp_all add: rb0_def translateException_def ResultBuilder_def AssertData_def)
  have "log_and_react status rb0 c = Inr (fst (assert_effect lv True c), reported rb c (snd (assert_effect lv True c)))"
    using log_and_react_effect [OF rb0(1) verdict_plain [OF rb0(1) assms(1)], of status c] rb0 assms(2)
    by (simp add: with_quotes_def rb_def)
  then show ?thesis
    using rb0 by (intro exI [of _ rb])
      (simp add: rb_def ASSERT_comparison_def ASSERT_truth_def wrap_in_try_def rb0_def [symmetric])
qed

text \<open>Comparisons of integers, for the witnesses.\<close>

definition int_operators :: "(int, int) operators" where
  "int_operators cmp l r = (case cmp of Cmp_eq \<Rightarrow> l = r | Cmp_ne \<Rightarrow> l \<noteq> r | Cmp_gt \<Rightarrow> l > r | Cmp_lt \<Rightarrow> l < r | Cmp_ge \<Rightarrow> l \<ge> r | Cmp_le \<Rightarrow> l \<le> r)"

lemma small_texts: "toString_int 1 = ''1''" "toString_int 2 = ''2''"
  by code_simp+

theorem fast_assertions_agree_witness:
  "BINARY_ASSERT [] [] (DT Check Lt) ''a.cpp'' 9 ''2, 1'' int_operators toString_int toString_int Cmp_lt (Inr (2, 1)) sample_context =
     res_bind (binary_assert True [] (DT Check Lt) ''a.cpp'' 9 ''2, 1'' False ''2, 1'' sample_context) (\<lambda>out. Inr (snd out))"
proof -
  have "\<not> about_exceptions Lt" by (simp add: about_exceptions_def)
  from fast_assertions_agree [OF this, of "[]" "[]" Check "''a.cpp''" 9 "''2, 1''" int_operators toString_int toString_int Cmp_lt 2 1 sample_context]
  show ?thesis by (simp add: RelationalComparator_def int_operators_def stringifyBinaryExpr_def small_texts)
qed

theorem comparison_macros_agree_witness:
  "\<exists>rb1 rb2. m_decomp rb1 = ''2 <  1'' \<and> m_decomp rb2 = ''2, 1'' \<and>
    ASSERT_comparison [] [] (DT Require Plain) ''a.cpp'' 9 ''2 < 1'' int_operators toString_int toString_int Cmp_lt (Inr (2, 1)) sample_context =
      Inr (Test_failure, reported rb1 sample_context (snd (assert_effect Require True sample_context))) \<and>
    BINARY_ASSERT [] [] (DT Require Lt) ''a.cpp'' 9 ''2, 1'' int_operators toString_int toString_int Cmp_lt (Inr (2, 1)) sample_context =
      Inr (Test_failure, reported rb2 sample_context (snd (assert_effect Require True sample_context)))"
proof -
  have plain: "\<not> about_exceptions Lt" by (simp add: about_exceptions_def)
  have throws: "fst (assert_effect Require True sample_context) = Test_failure"
    by (simp add: assert_effect_def Let_def checkIfShouldThrow_def assert_bits throwException_def)
  show ?thesis
    using comparison_macros_agree [OF plain, of int_operators Cmp_lt 2 1 "[]" "[]" Require "''a.cpp''" 9 "''2 < 1''" toString_int toString_int
        sample_context "''2, 1''"] throws
    by (auto simp: int_operators_def small_texts)
qed

end
