(* ===== verification/Doctest_Reports.thy ===== *)
theory Doctest_Reports
  imports Doctest_Protocol Doctest_Console Doctest_Expression
begin

unbundle bit_operations_syntax

text \<open>
  The reports of a run: the statements of a test body behave as the protocol asks, a run follows the protocol, and
  its three reports are written to the end.
\<close>

section \<open>The statements of the framework behave\<close>

text \<open>An assertion as a statement, which leaves its value to the code around it.\<close>

definition as_statement :: "(context_state \<Rightarrow> failure + bool \<times> body_outcome \<times> context_state) \<Rightarrow>
    context_state \<Rightarrow> failure + body_outcome \<times> context_state" where
  "as_statement f c = res_bind (f c) (\<lambda>r. Inr (snd r))"

lemma log_says:
  assumes "listens r c" and "macro_type (m_at rb)" and "ResultBuilder_log True status rb c = Inr (brk, rb', d)"
  shows "says r (In_case n) (In_case n) c d"
proof -
  obtain rb1 where rb1: "m_at rb1 = m_at rb" "d = (let c1 = iterate_reporters (Log_assert rb1) (addAssert (m_at rb1) c)
      in if m_failed rb1 then addFailedAssert (m_at rb1) c1 else c1)"
    using assms(3) by (fastforce simp: ResultBuilder_log_def Let_def split: if_splits)
  have "says r (In_case n) (In_case n) c (addAssert (m_at rb1) c)"
    by (rule says_quiet) (simp_all add: addAssert_def)
  then have "says r (In_case n) (In_case n) c (iterate_reporters (Log_assert rb1) (addAssert (m_at rb1) c))"
    by (rule says_iterate_from [OF _ assms(1)]) (simp add: rb1(1) assms(2))
  then show ?thesis
    unfolding rb1(2) Let_def by (auto intro: says_quiet_from simp: addFailedAssert_def)
qed

lemma throw_says: "says r ph ph c d \<Longrightarrow> says r ph ph c (snd (throwException d))"
  by (erule says_quiet_from) (simp_all add: throwException_def)

lemma in_tests_behave:
  "behaves r (as_statement (ASSERT_IN_TESTS status (DT lv w) src line expr decomp failed))"
  unfolding behaves_def
proof (intro allI impI)
  fix n c out d
  assume c: "listens r c" and run: "as_statement (ASSERT_IN_TESTS status (DT lv w) src line expr decomp failed) c = Inr (out, d)"
  define rb2 where "rb2 = (let rb1 = (ResultBuilder (DT lv w) src line expr [] [] c)\<lparr>m_failed := failed\<rparr>
    in if m_failed rb1 \<or> opt_success (ctx_options c) then rb1\<lparr>m_decomp := decomp\<rparr> else rb1)"
  have at: "macro_type (m_at rb2)"
    by (simp add: rb2_def Let_def ResultBuilder_def AssertData_def macro_type_DT)
  obtain brk rb c1 where log: "ResultBuilder_log True status rb2 c = Inr (brk, rb, c1)"
      "d = c1 \<or> d = snd (throwException c1)"
    using run unfolding as_statement_def ASSERT_IN_TESTS_def rb2_def Let_def
    by (auto simp: res_bind_eq_Inr throwException_def split: if_splits)
  from log_says [OF c at log(1), of n] show "says r (In_case n) (In_case n) c d"
    using log(2) by (auto intro: throw_says)
qed

lemma asserts_behave:
  "behaves r (as_statement (binary_assert True status (DT lv w) src line expr ok decomp))"
  "behaves r (as_statement (unary_assert True status (DT lv w) src line expr ok decomp))"
  "behaves r (as_statement (decomp_assert True status (DT lv w) src line expr res))"
  using in_tests_behave [of r status lv w src line expr]
  by (simp_all add: behaves_def as_statement_def binary_assert_def unary_assert_def decomp_assert_def Let_def)

text \<open>The macros that build their result themselves: log it, and react.\<close>

lemma log_and_react_behaves:
  assumes "macro_type (m_at rb)"
  shows "behaves r (log_and_react status rb)"
  unfolding behaves_def
proof (intro allI impI)
  fix n c out d
  assume c: "listens r c" and run: "log_and_react status rb c = Inr (out, d)"
  then obtain brk rb' c1 where log: "ResultBuilder_log True status rb c = Inr (brk, rb', c1)" "d = c1 \<or> d = snd (throwException c1)"
    by (auto simp: log_and_react_def res_bind_eq_Inr ResultBuilder_react_def throwException_def split: if_splits)
  from log_says [OF c assms log(1), of n] show "says r (In_case n) (In_case n) c d"
    using log(2) by (auto intro: throw_says)
qed

lemma returned_behaves: "behaves r (\<lambda>c. Inr (Returned, c))"
  by (simp add: behaves_def)

lemma wrap_in_try_at: "(\<And>a. m_at (f a rb) = m_at rb) \<Longrightarrow> m_at (wrap_in_try ts e f rb) = m_at rb"
  by (cases e) (simp_all add: wrap_in_try_def translateException_def)

text \<open>What is put into the report depends on the state, the kind of the assertion does not.\<close>

lemma macro_behaves: "(\<And>c. m_at (g c) = DT lv w) \<Longrightarrow> behaves r (\<lambda>c. log_and_react status (g c) c)"
  using log_and_react_behaves [of "g c" r status for c] macro_type_DT [of lv w] by (simp add: behaves_def)

lemma macros_behave:
  "behaves r (ASSERT_comparison ts status (DT lv w) src line expr ops strl strr cmp operands)"
  "behaves r (ASSERT_truth ts status (DT lv w) src line expr to_bool strl operand)"
  "behaves r (BINARY_ASSERT ts status (DT lv w) src line expr ops strl strr cmp operands)"
  "behaves r (UNARY_ASSERT ts status (DT lv w) src line expr to_bool strl operand)"
  "behaves r (ASSERT_NOTHROW ts status (DT lv w) src line expr thrown)"
  unfolding ASSERT_comparison_def ASSERT_truth_def BINARY_ASSERT_def UNARY_ASSERT_def ASSERT_NOTHROW_def Let_def
  by (rule macro_behaves [of _ lv w],
      auto simp: wrap_in_try_def translateException_def setResult_def ResultBuilder_def AssertData_def ResultBuilder_binary_assert_def
        ResultBuilder_unary_assert_def Let_def split: sum.splits option.splits prod.splits)+

lemma throw_macros_behave:
  "behaves r (ASSERT_THROWS_AS ts status (DT lv w) src line expr type msg has_type thrown)"
  "behaves r (ASSERT_THROWS_WITH ts status (DT lv w) src line expr msg thrown)"
proof -
  have either: "behaves r (\<lambda>c. if p c then f c else Inr (Returned, c))" if "behaves r f" for p f
    using that returned_behaves [of r] by (simp add: behaves_def)
  show "behaves r (ASSERT_THROWS_AS ts status (DT lv w) src line expr type msg has_type thrown)"
    "behaves r (ASSERT_THROWS_WITH ts status (DT lv w) src line expr msg thrown)"
    unfolding ASSERT_THROWS_AS_def ASSERT_THROWS_WITH_def Let_def
    by (rule either, rule macro_behaves [of _ lv w], auto simp: translateException_def AssertData_def split: option.splits)+
qed

text \<open>A message, and the scopes of \<open>INFO\<close>.\<close>

lemma message_behaves: "behaves r (message_statement status mb s)"
  unfolding behaves_def
proof (intro allI impI)
  fix n c out d
  assume c: "listens r c" and run: "message_statement status mb s c = Inr (out, d)"
  then obtain brk mb' s' c2 where log: "MessageBuilder_log status mb s c = Inr (brk, mb', s', c2)" "d = c2 \<or> d = snd (throwException c2)"
    by (auto simp: message_statement_def res_bind_eq_Inr MessageBuilder_react_def throwException_def split: if_splits)
  define c1 where "c1 = iterate_reporters (Log_message (message_data.truncate mb')) c"
  have one: "says r (In_case n) (In_case n) c c1" unfolding c1_def by (rule says_iterate [OF c]) simp
  have "c2 = c1 \<or> c2 = addFailedAssert (m_severity mb') (addAssert (m_severity mb') c1)"
    using log(1) by (auto simp: MessageBuilder_log_def res_bind_eq_Inr Let_def c1_def split: if_splits)
  moreover have "says r (In_case n) (In_case n) c (addFailedAssert (m_severity mb') (addAssert (m_severity mb') c1))"
    using one by (rule says_quiet_from) (simp_all add: addFailedAssert_def addAssert_def)
  ultimately show "says r (In_case n) (In_case n) c d"
    using one log(2) by (auto intro: throw_says)
qed

lemma scope_behaves: "behaves r (\<lambda>c. Inr (Returned, ContextScopeBase t c))"
  by (auto simp: behaves_def ContextScopeBase_def intro!: says_quiet)

lemma with_info_behaves:
  assumes "behaves r f"
  shows "behaves r (with_info t f)"
  unfolding behaves_def
proof (intro allI impI)
  fix n c out d
  assume c: "listens r c" and run: "with_info t f c = Inr (out, d)"
  then obtain c1 where f: "f (ContextScopeBase t c) = Inr (out, c1)" "ContextScope_destroy (out \<noteq> Returned) t c1 = Inr d"
    by (auto simp: with_info_def res_bind_eq_Inr)
  have one: "says r (In_case n) (In_case n) c (ContextScopeBase t c)" by (rule says_quiet) (simp_all add: ContextScopeBase_def)
  have two: "says r (In_case n) (In_case n) (ContextScopeBase t c) c1"
    using assms f(1) says_listens [OF one c] by (auto simp: behaves_def)
  show "says r (In_case n) (In_case n) c d"
    using f(2) by (intro says_quiet_from [OF says_trans [OF one two]]) (auto simp: ContextScope_destroy_def Let_def split: if_splits)
qed

section \<open>A run and its reports\<close>

text \<open>
  (C28) If every registered test is a body of subcases and statements that behave, a finished run calls each of its reporters
  along the protocol to its end: one answer to a query, or the start of the run, its test cases with their
  subcases properly nested within, and the end of the run.
\<close>

theorem run_follows_protocol:
  assumes "\<forall>tc \<in> set registered. env_call env tc = run_items (body tc) \<and> items_behave r (body tc)"
    and "distinct (used_reporters maps c)" and "r \<in> set (used_reporters maps c)"
    and "Context_run env registered maps p g c = Some (Inr (code, g', d))"
  shows "\<exists>calls. heard r d = heard r c @ calls \<and> protocol_run Idle calls = Some Finished \<and> run_shape (ctx_options c) calls"
proof -
  have "tests_behave r env registered"
    using assms(1) run_items_says by (fastforce simp: tests_behave_def behaves_def)
  from run_protocol [OF this assms(2-)] show ?thesis .
qed

text \<open>What each of the three reporters makes of the calls of a run, or of a query.\<close>

lemma xml_written:
  assumes "protocol_run Idle (map snd es) = Some Finished" and "run_shape opts (map snd es)"
  shows "if query_mode opts \<and> \<not> normal_run opts \<and> \<not> opt_list_reporters opts
    then report_all (xr_call renv opts) es (XmlReporter []) = Inl Null_deref
    else returns (report_all (xr_call renv opts) es (XmlReporter [])) (\<lambda>x. tags_of (m_os (xr_xml x)) = Content [])"
proof (cases "query_mode opts \<and> \<not> normal_run opts \<and> \<not> opt_list_reporters opts")
  case True
  then obtain cc where "es = [(cc, Report_query None [])]" using assms(2) by (auto simp: run_shape_def)
  then show ?thesis using True xml_query_null by simp
next
  case False
  then have "list_all (xr_acceptable opts) (map snd es)"
    using unacceptable_alone [OF assms(1), of opts] assms(2)
    by (cases "list_all (xr_acceptable opts) (map snd es)") (auto simp: run_shape_def split: if_splits)
  from xml.keeps [OF XmlReporter_inv assms(1) this]
  have "returns (report_all (xr_call renv opts) es (XmlReporter [])) (\<lambda>x. tags_of (m_os (xr_xml x)) = Content [])"
    by (rule returns_mono) (simp add: finished_document)
  then show ?thesis by (rule if_not_P [OF False, THEN iffD2])
qed

lemma junit_written:
  assumes "protocol_run Idle (map snd es) = Some Finished" and "run_shape opts (map snd es)"
  shows "returns (report_all (jr_call renv opts ts) es (JUnitReporter [])) (\<lambda>j. tags_of (m_os (jr_xml j)) = Content [] \<and>
    (if query_mode opts \<or> \<not> normal_run opts then jr_xml j = writeDeclaration (XmlWriter [])
     else map case_summary (testcases (jr_data j)) = map (segment_summary opts True) (segments (map snd es))))"
proof (cases "query_mode opts \<or> \<not> normal_run opts")
  case True
  then obtain st results where "map snd es = [Report_query st results]"
    using assms(2) by (auto simp: run_shape_def split: if_splits)
  then obtain cc where "es = [(cc, Report_query st results)]" by auto
  then show ?thesis using True declared_content by (simp add: jr_declare_def JUnitReporter_def)
next
  case False
  then obtain middle st where shape: "map snd es = Test_run_start # middle @ [Test_run_end st]"
    using assms(2) by (auto simp: run_shape_def)
  have "returns (report_all (jr_call renv opts ts) es (JUnitReporter [])) (jr_inv renv opts ts (map snd es) Finished)"
    using junit.keeps [OF JUnitReporter_inv assms(1)] by (simp add: list_all_iff)
  then show ?thesis
    by (rule returns_mono) (use shape False junit_finished [of renv opts ts "Test_run_start # middle" st] in simp)
qed

lemma console_written:
  assumes "protocol_run Idle (map snd es) = Some Finished"
  shows "returns (report_all (console_call renv opts) es (ConsoleReporter logged level [])) (\<lambda>x. True)"
  using console.keeps [OF console_inv_other(1) assms] by (auto simp: list_all_iff intro: returns_mono)

text \<open>
  (C27) The reports of a finished run, for tests that behave and whatever the reporters read of their
  surroundings. The calls made to any of them make the XML reporter write one complete, well-nested document, the answer to
  a query included, but for the queries that have no counters to show (\<open>--version\<close>, \<open>--help\<close> or \<open>--no-run\<close> together with
  \<open>--count\<close> or a list), at which it reads through a null pointer. A run of tests makes the JUnit reporter write one complete
  document with every segment of the run; for a query it writes the declaration only. The console reporter never reads
  outside its stack of subcases or through its pointer before it is set.
\<close>

theorem reports_of_a_run:
  assumes "tests_behave r env registered" and "distinct (used_reporters maps c)" and "r \<in> set (used_reporters maps c)"
    and "Context_run env registered maps p g c = Some (Inr (code, g', d))"
    and "opts = ctx_options c" and "heard r d = heard r c @ map snd es"
  shows "(if query_mode opts \<and> \<not> normal_run opts \<and> \<not> opt_list_reporters opts
      then report_all (xr_call renv opts) es (XmlReporter []) = Inl Null_deref
      else returns (report_all (xr_call renv opts) es (XmlReporter [])) (\<lambda>x. tags_of (m_os (xr_xml x)) = Content [])) \<and>
    returns (report_all (jr_call renv opts ts) es (JUnitReporter [])) (\<lambda>j. tags_of (m_os (jr_xml j)) = Content [] \<and>
      (if query_mode opts \<or> \<not> normal_run opts then jr_xml j = writeDeclaration (XmlWriter [])
       else map case_summary (testcases (jr_data j)) = map (segment_summary opts True) (segments (map snd es)))) \<and>
    returns (report_all (console_call renv opts) es (ConsoleReporter logged level [])) (\<lambda>x. True)"
proof -
  have calls: "protocol_run Idle (map snd es) = Some Finished" "run_shape opts (map snd es)"
    using run_protocol [OF assms(1-4)] assms(5,6) by auto
  from xml_written [OF calls] junit_written [OF calls] console_written [OF calls(1)] show ?thesis by blast
qed

text \<open>
  (C39) Asked for its version, for help or not to run at all, and to count or list too, the framework puts the question to
  the reporters with a null pointer to the counters and exits with success; the XML reporter reads through it.
\<close>

theorem xml_query_dereferences_null:
  assumes "opt_version (ctx_options c) \<or> opt_help (ctx_options c) \<or> opt_no_run (ctx_options c)"
    and "query_mode (ctx_options c)" and "\<not> opt_list_reporters (ctx_options c)"
    and "distinct (used_reporters maps c)" and "r \<in> set (used_reporters maps c)"
  shows "\<exists>g' d. Context_run env registered maps p g c = Some (Inr (0, g', d)) \<and>
    heard r d = heard r c @ [Report_query None []] \<and>
    xr_call renv (ctx_options c) cc (Report_query None []) (XmlReporter []) = Inl Null_deref"
proof -
  define c0 where "c0 = prepare_all maps c"
  have c0: "reports c0 = reports c" "ctx_options c0 = ctx_options c"
    using prepare_all_quiet by (simp_all add: c0_def)
  have failed: "numTestCasesFailed (run_data c0) = 0"
    by (simp add: c0_def prepare_all_def choose_reporters_def choose_cout_def resetRunData_def Let_def)
  have "\<exists>g' d. Context_run env registered maps p g c = Some (Inr (0, g', d)) \<and>
      reports d = reports (iterate_reporters (Report_query None []) c0)"
    using assms(1) failed
    unfolding Context_run_def Let_def c0_def [symmetric] c0(2)
    by (auto simp: cleanup_and_return_def iterate_reporters_def)
  moreover have "heard r (iterate_reporters (Report_query None []) c0) = heard r c @ [Report_query None []]"
    using assms(4,5) c0(1)
    by (simp add: heard_def iterate_reporters_def used_reporters_def filter_single flip: c0_def)
  ultimately show ?thesis
    using xml_query_null [OF assms(3,2)] by (auto simp: heard_def)
qed

section \<open>Witnesses\<close>

definition sample_body :: "item list" where
  "sample_body =
     [Sub \<lparr>sig_name = ''a & b'', sig_file = ''a.cpp'', sig_line = 8\<rparr>
        [Act (as_statement (binary_assert True [] (DT Check Eq) ''a.cpp'' 9 ''a == b'' False ''1 < 2''))],
      Act (\<lambda>c. Inr (Returned, c))]"

definition reporting_environment :: test_environment where
  "reporting_environment = sample_environment\<lparr>env_call := (\<lambda>tc. run_items sample_body)\<rparr>"

lemma sample_body_behaves: "items_behave r sample_body"
  by (simp add: sample_body_def asserts_behave returned_behaves)

definition no_globals :: globals where
  "no_globals = \<lparr>g_cs = None, is_running_in_test = False, g_no_colors = False\<rparr>"

definition xml_key :: reporter_key where
  "xml_key = (0, ''xml'')"

definition reporting_context :: context_state where
  "reporting_context = sample_context\<lparr>filters := (replicate 9 [])[8 := [''xml'']]\<rparr>"

text \<open>A check leaves the subcases and the test alone and returns; so a body of subcases around one comes to its end.\<close>

definition kept :: "context_state \<Rightarrow> context_state \<Rightarrow> bool" where
  "kept c d \<longleftrightarrow> reachedLeaf d = reachedLeaf c \<and> subcaseStack d = subcaseStack c \<and> nextSubcaseStack d = nextSubcaseStack c \<and>
     currentSubcaseDepth d = currentSubcaseDepth c \<and> currentTest d = currentTest c \<and> settings d = settings c"

lemma check_returns:
  assumes "never_aborts c"
  shows "\<exists>d. as_statement (binary_assert True [] (DT Check Eq) src line expr ok decomp) c = Inr (Returned, d) \<and> kept c d"
proof -
  have "DT Check Eq AND is_require = 0" by code_simp
  then have no_throw: "\<not> checkIfShouldThrow (DT Check Eq) d" if "ctx_options d = ctx_options c" for d
    using assms that by (auto simp: checkIfShouldThrow_def never_aborts_def word_sless_alt word_sle_eq)
  show ?thesis
    by (simp add: as_statement_def binary_assert_def ASSERT_IN_TESTS_def ResultBuilder_log_def Let_def no_throw
        addAssert_def addFailedAssert_def iterate_reporters_def kept_def settings_def)
qed

lemma sample_turn:
  assumes "never_aborts c" and "nextSubcaseStack c = []" and "filters c ! 6 = []" and "filters c ! 7 = []"
  shows "\<exists>d. run_once reporting_environment tc c = Inr (False, d) \<and> currentTest d = currentTest c \<and> nextSubcaseStack d = [] \<and>
    settings d = settings c"
proof -
  let ?sig = "\<lparr>sig_name = ''a & b'', sig_file = ''a.cpp'', sig_line = 8\<rparr>"
  define e where "e = iterate_reporters (Subcase_start ?sig)
    ((prepare_run c)\<lparr>subcaseStack := [?sig], currentSubcaseDepth := 1\<rparr>)"
  have enter: "Subcase ?sig (prepare_run c) = Inr (True, e)"
    using assms by (simp add: Subcase_def e_def prepare_run_def checkFilters_def matchesAny_def)
  have "never_aborts e" using assms(1) by (simp add: e_def never_aborts_def prepare_run_def iterate_reporters_def)
  then obtain d where d: "as_statement (binary_assert True [] (DT Check Eq) ''a.cpp'' 9 ''a == b'' False ''1 < 2'') e = Inr (Returned, d)"
      "kept e d"
    using check_returns by blast
  define f where "f = Subcase_destroy False d"
  have f: "currentTest f = currentTest c" "nextSubcaseStack f = []" "settings f = settings c"
    using d(2) assms(2) by (auto simp: f_def kept_def e_def Subcase_destroy_def Let_def iterate_reporters_def prepare_run_def settings_def)
  have "never_aborts f" using f(3) assms(1) by (simp add: never_aborts_def settings_def)
  moreover have "run_items sample_body (prepare_run c) = Inr (Returned, f)"
    using enter d(1) by (simp add: sample_body_def f_def)
  ultimately have "run_once reporting_environment tc c = Inr (False, f)"
    using f(2) by (simp add: run_once_def reporting_environment_def sample_environment_def catch_outcome_def Let_def never_enough)
  with f show ?thesis by blast
qed

lemma sample_test_ends:
  assumes "never_aborts c" and "nextSubcaseStack c = []" and "filters c ! 6 = []" and "filters c ! 7 = []"
  shows "\<exists>d. run_test_case reporting_environment tc c = Some (Inr d) \<and> settings d = settings c"
proof -
  let ?s = "start_test reporting_environment tc c"
  have s: "currentTest ?s = Some tc" "settings ?s = settings c" by (simp_all add: start_test_def Let_def settings_def iterate_reporters_def)
  obtain d where d: "run_once reporting_environment tc ?s = Inr (False, d)" "currentTest d = Some tc" "settings d = settings c"
    using sample_turn [of ?s tc] assms s by (auto simp: start_test_fields never_aborts_def)
  then have "test_loop reporting_environment tc ?s = Some (Inr d)" by (subst test_loop.simps) simp
  with d(2,3) show ?thesis
    by (auto simp: run_test_case_def end_test_def finalizeTestCaseData_def Let_def settings_def iterate_reporters_def)
qed

lemma sample_run_ends:
  "\<exists>code g' d. Context_run reporting_environment [sample_case] ([xml_key], []) 0 no_globals reporting_context = Some (Inr (code, g', d))"
proof -
  define c where "c = prepare_all ([xml_key], []) reporting_context"
  have opts: "ctx_options c = sample_options" "filters c ! 6 = []" "filters c ! 7 = []" "nextSubcaseStack c = []"
    unfolding c_def by code_simp+
  have sample: "opt_no_run sample_options = False" "opt_version sample_options = False" "opt_help sample_options = False"
    "opt_list_reporters sample_options = False" "query_mode sample_options = False" "opt_abort_after sample_options = 0"
    by (simp_all add: sample_options_def query_mode_def)
  have order: "order_tests (env_rand reporting_environment) sample_options [sample_case] = [sample_case]"
    by (simp add: order_tests_def sample_options_def std_sort_def)
  define e where "e = iterate_reporters Test_run_start (c\<lparr>run_data := (run_data c)\<lparr>numTestCases := 1\<rparr>\<rparr>)"
  have e: "settings e = settings c" "nextSubcaseStack e = []"
    using opts by (simp_all add: e_def settings_def iterate_reporters_def)
  define e1 where "e1 = (if skip_me sample_case e then e else count_passing e)"
  have e1: "settings e1 = settings c" "nextSubcaseStack e1 = []" using e by (simp_all add: e1_def count_passing_def settings_def)
  then obtain d where d: "run_test_case reporting_environment sample_case e1 = Some (Inr d)"
    using sample_test_ends [of e1 sample_case] opts sample(6) by (auto simp: settings_def never_aborts_def)
  have "ctx_options e1 = sample_options" using e1 opts(1) by (simp add: settings_def)
  then have "\<exists>f. run_tests reporting_environment [sample_case] [] [] e = Some (Inr ([], f))"
    using d sample(5) unfolding run_tests.simps Let_def e1_def [symmetric] by (simp add: query_mode_def)
  then show ?thesis
    using order sample(1-5) opts(1)
    unfolding Context_run_def Let_def c_def [symmetric] by (auto simp: e_def cleanup_and_return_def)
qed

text \<open>A context whose query for the version also counts.\<close>

definition asking_context :: context_state where
  "asking_context = reporting_context\<lparr>ctx_options := sample_options\<lparr>opt_version := True, opt_count := True\<rparr>\<rparr>"

theorem run_follows_protocol_witness:
  "\<exists>code g' d calls. Context_run reporting_environment [sample_case] ([xml_key], []) 0 no_globals reporting_context =
       Some (Inr (code, g', d)) \<and>
     heard xml_key d = calls \<and> protocol_run Idle calls = Some Finished \<and>
     (\<exists>middle st. calls = Test_run_start # middle @ [Test_run_end st])"
proof -
  obtain code g' d where run: "Context_run reporting_environment [sample_case] ([xml_key], []) 0 no_globals reporting_context =
      Some (Inr (code, g', d))" using sample_run_ends by blast
  have tests: "\<forall>tc \<in> set [sample_case]. env_call reporting_environment tc = run_items sample_body \<and> items_behave xml_key sample_body"
    by (simp add: reporting_environment_def sample_body_behaves)
  have used: "used_reporters ([xml_key], []) reporting_context = [xml_key]" by code_simp
  have opts: "normal_run (ctx_options reporting_context)" "query_mode (ctx_options reporting_context) = False"
    "heard xml_key reporting_context = []"
    by (simp_all add: normal_run_def query_mode_def heard_def reporting_context_def sample_context_def sample_options_def)
  show ?thesis
    using run_follows_protocol [of "[sample_case]" reporting_environment "\<lambda>tc. sample_body" xml_key "([xml_key], [])" reporting_context, unfolded used,
        OF tests _ _ run] opts run
    by (fastforce simp: run_shape_def)
qed

theorem reports_of_a_run_witness:
  "\<exists>code g' d es. Context_run reporting_environment [sample_case] ([xml_key], []) 0 no_globals reporting_context =
       Some (Inr (code, g', d)) \<and>
     map snd es = heard xml_key d \<and>
     returns (report_all (xr_call sample_env sample_options) es (XmlReporter [])) (\<lambda>x. tags_of (m_os (xr_xml x)) = Content []) \<and>
     returns (report_all (jr_call sample_env sample_options ''now'') es (JUnitReporter [])) (\<lambda>j.
       map case_summary (testcases (jr_data j)) = map (segment_summary sample_options True) (segments (map snd es)))"
proof -
  obtain code g' d where run: "Context_run reporting_environment [sample_case] ([xml_key], []) 0 no_globals reporting_context =
      Some (Inr (code, g', d))" using sample_run_ends by blast
  have env: "tests_behave xml_key reporting_environment [sample_case]"
    using run_items_says sample_body_behaves by (fastforce simp: tests_behave_def behaves_def reporting_environment_def)
  have used: "used_reporters ([xml_key], []) reporting_context = [xml_key]" by code_simp
  have opts: "normal_run sample_options" "query_mode sample_options = False" "sample_options = ctx_options reporting_context"
    "heard xml_key reporting_context = []"
    by (simp_all add: normal_run_def query_mode_def heard_def reporting_context_def sample_context_def sample_options_def)
  define es where "es = map (Pair sample_call) (heard xml_key d)"
  have calls: "map snd es = heard xml_key d" by (simp add: es_def comp_def)
  note reports = reports_of_a_run [of xml_key reporting_environment "[sample_case]" "([xml_key], [])" reporting_context, unfolded used,
      OF env _ _ run opts(3), of es sample_env "''now''", unfolded calls]
  have "returns (report_all (xr_call sample_env sample_options) es (XmlReporter [])) (\<lambda>x. tags_of (m_os (xr_xml x)) = Content [])"
    "returns (report_all (jr_call sample_env sample_options ''now'') es (JUnitReporter [])) (\<lambda>j. tags_of (m_os (jr_xml j)) = Content [] \<and>
       map case_summary (testcases (jr_data j)) = map (segment_summary sample_options True) (segments (heard xml_key d)))"
    using reports opts(1,2,4) by simp_all
  then have "returns (report_all (xr_call sample_env sample_options) es (XmlReporter [])) (\<lambda>x. tags_of (m_os (xr_xml x)) = Content [])"
    "returns (report_all (jr_call sample_env sample_options ''now'') es (JUnitReporter [])) (\<lambda>j.
       map case_summary (testcases (jr_data j)) = map (segment_summary sample_options True) (segments (map snd es)))"
    by (simp, elim returns_mono) (simp add: calls)
  with run calls show ?thesis by blast
qed

theorem xml_query_dereferences_null_witness:
  "\<exists>g' d. Context_run reporting_environment [sample_case] ([xml_key], []) 0 no_globals asking_context = Some (Inr (0, g', d)) \<and>
     heard xml_key d = [Report_query None []] \<and>
     xr_call sample_env (ctx_options asking_context) sample_call (Report_query None []) (XmlReporter []) = Inl Null_deref"
proof -
  have opts: "opt_version (ctx_options asking_context)" "query_mode (ctx_options asking_context)"
    "\<not> opt_list_reporters (ctx_options asking_context)" "heard xml_key asking_context = []"
    by (simp_all add: asking_context_def reporting_context_def query_mode_def heard_def sample_context_def sample_options_def)
  have used: "used_reporters ([xml_key], []) asking_context = [xml_key]" by code_simp
  show ?thesis
    using xml_query_dereferences_null [of asking_context "([xml_key], [])" xml_key, unfolded used] opts by simp
qed

end
