(* ===== verification/Doctest_Signals.thy ===== *)
theory Doctest_Signals
  imports Doctest_Protocol Doctest_Console
begin

unbundle bit_operations_syntax

text \<open>
  The handlers of fatal signals: \<open>FatalConditionHandler\<close>, which takes the signals over while a test runs and gives them
  back, and what the reporters are told when one arrives in the middle of a test.
\<close>

section \<open>Signals of the system\<close>

text \<open>What a process does at a signal; \<open>Handle_signal\<close> is the handler of the framework, other functions have numbers.\<close>

datatype disposition = Sig_default | Sig_ignore | Other_handler nat | Handle_signal

record sig_action =
  sa_handler :: disposition
  sa_flags :: u32

record sig_stack =
  ss_sp :: "nat option"
  ss_size :: u64
  ss_flags :: u32

text \<open>\<open>sigaction\<close> and \<open>sigaltstack\<close>, with what they store in the place given for the old value.\<close>

record 'os signal_api =
  os_sigaction :: "int \<Rightarrow> sig_action \<Rightarrow> 'os \<Rightarrow> sig_action \<times> 'os"
  os_sigaltstack :: "sig_stack \<Rightarrow> 'os \<Rightarrow> sig_stack \<times> 'os"

definition SIGKILL :: int where "SIGKILL = 9"
definition SIGSTOP :: int where "SIGSTOP = 19"
definition SA_ONSTACK :: u32 where "SA_ONSTACK = 0x08000000"
definition SS_DISABLE :: u32 where "SS_DISABLE = 2"
definition MINSIGSTKSZ :: u64 where "MINSIGSTKSZ = 2048"
definition SIGSTKSZ :: u64 where "SIGSTKSZ = 8192"

definition stack_ok :: "sig_stack \<Rightarrow> bool" where
  "stack_ok st \<longleftrightarrow> ss_flags st AND SS_DISABLE \<noteq> 0 \<or> MINSIGSTKSZ \<le> ss_size st"

text \<open>
  What they are documented to do, for the standard signals and for what is no number of a signal (\<open>EINVAL\<close>); the real-time
  signals between are left open. A process that runs on its alternate stack cannot change it.
\<close>

definition settable :: "int \<Rightarrow> bool" where
  "settable sig \<longleftrightarrow> 1 \<le> sig \<and> sig \<le> 31 \<and> sig \<noteq> SIGKILL \<and> sig \<noteq> SIGSTOP"

definition unsettable :: "int \<Rightarrow> bool" where
  "unsettable sig \<longleftrightarrow> sig < 1 \<or> 64 < sig \<or> sig = SIGKILL \<or> sig = SIGSTOP"

locale posix_signals =
  fixes api :: "'os signal_api"
    and action_of :: "'os \<Rightarrow> int \<Rightarrow> sig_action"
    and stack_of :: "'os \<Rightarrow> sig_stack"
    and on_stack :: "'os \<Rightarrow> bool"
  assumes sigaction: "settable sig \<Longrightarrow> os_sigaction api sig act os = (old, os') \<Longrightarrow>
      old = action_of os sig \<and> action_of os' = (action_of os)(sig := act) \<and> stack_of os' = stack_of os \<and> on_stack os' = on_stack os"
    and sigaction_invalid: "unsettable sig \<Longrightarrow> os_sigaction api sig act os = (old, os') \<Longrightarrow> os' = os"
    and sigaltstack: "\<not> on_stack os \<Longrightarrow> stack_ok st \<Longrightarrow> os_sigaltstack api st os = (prev, os') \<Longrightarrow>
      prev = stack_of os \<and> stack_of os' = st \<and> action_of os' = action_of os \<and> \<not> on_stack os'"
    and sigaltstack_busy: "on_stack os \<Longrightarrow> os_sigaltstack api st os = (prev, os') \<Longrightarrow> os' = os"
    and stack_kept_ok: "stack_ok (stack_of os)"

section \<open>FatalConditionHandler\<close>

definition signalDefs :: "(int \<times> string) list" where
  "signalDefs =
     [(2, ''SIGINT - Terminal interrupt signal''),
      (4, ''SIGILL - Illegal instruction signal''),
      (8, ''SIGFPE - Floating point error signal''),
      (11, ''SIGSEGV - Segmentation violation signal''),
      (15, ''SIGTERM - Termination request signal''),
      (6, ''SIGABRT - Abort (abnormal termination) signal'')]"

record fatal_handler =
  isSet :: bool
  oldSigActions :: "sig_action list"
  oldSigStack :: sig_stack
  altStackSize :: u64
  altStackMem :: "nat option"

definition fatal_handler_statics :: fatal_handler where
  "fatal_handler_statics = \<lparr>isSet = False, oldSigActions = replicate 6 \<lparr>sa_handler = Sig_default, sa_flags = 0\<rparr>,
     oldSigStack = \<lparr>ss_sp = None, ss_size = 0, ss_flags = 0\<rparr>, altStackSize = 4 * SIGSTKSZ, altStackMem = None\<rparr>"

definition allocateAltStackMem :: "nat \<Rightarrow> fatal_handler \<Rightarrow> fatal_handler" where
  "allocateAltStackMem fresh h = h\<lparr>altStackMem := Some fresh\<rparr>"

text \<open>The memory freed, if any; the pointer stays.\<close>

definition freeAltStackMem :: "fatal_handler \<Rightarrow> nat option" where
  "freeAltStackMem h = altStackMem h"

text \<open>The loop that takes the signals over, with the old actions it stores.\<close>

fun take_signals :: "'os signal_api \<Rightarrow> (int \<times> string) list \<Rightarrow> 'os \<Rightarrow> sig_action list \<times> 'os" where
  "take_signals api [] os = ([], os)"
| "take_signals api (def # defs) os =
     (let (old, os) = os_sigaction api (fst def) \<lparr>sa_handler = Handle_signal, sa_flags = SA_ONSTACK\<rparr> os;
          (olds, os) = take_signals api defs os
      in (old # olds, os))"

definition FatalConditionHandler :: "'os signal_api \<Rightarrow> fatal_handler \<Rightarrow> 'os \<Rightarrow> fatal_handler \<times> 'os" where
  "FatalConditionHandler api h os =
     (let (old, os) = os_sigaltstack api \<lparr>ss_sp = altStackMem h, ss_size = altStackSize h, ss_flags = 0\<rparr> os;
          (olds, os) = take_signals api signalDefs os
      in (h\<lparr>isSet := True, oldSigStack := old, oldSigActions := olds\<rparr>, os))"

fun give_back :: "'os signal_api \<Rightarrow> ((int \<times> string) \<times> sig_action) list \<Rightarrow> 'os \<Rightarrow> 'os" where
  "give_back api [] os = os"
| "give_back api ((def, old) # rest) os = give_back api rest (snd (os_sigaction api (fst def) old os))"

definition handler_reset :: "'os signal_api \<Rightarrow> fatal_handler \<Rightarrow> 'os \<Rightarrow> fatal_handler \<times> 'os" where
  "handler_reset api h os =
     (if isSet h
      then (h\<lparr>isSet := False\<rparr>,
        snd (os_sigaltstack api (oldSigStack h) (give_back api (zip signalDefs (oldSigActions h)) os)))
      else (h, os))"

definition FatalConditionHandler_destroy :: "'os signal_api \<Rightarrow> fatal_handler \<Rightarrow> 'os \<Rightarrow> fatal_handler \<times> 'os" where
  "FatalConditionHandler_destroy api h os = handler_reset api h os"

text \<open>
  An entry of a test in \<open>Context::run\<close>: the guard, the function of the test, which may do anything to the system, and
  the reset if the test returns; the destructor of the guard comes after it, or in its place when the test throws.
\<close>

definition guarded_test :: "'os signal_api \<Rightarrow> ('os \<Rightarrow> bool \<times> 'os) \<Rightarrow> fatal_handler \<Rightarrow> 'os \<Rightarrow> fatal_handler \<times> 'os" where
  "guarded_test api test h os =
     (let (h, os) = FatalConditionHandler api h os;
          (returned, os) = test os;
          (h, os) = (if returned then handler_reset api h os else (h, os))
      in FatalConditionHandler_destroy api h os)"

fun guarded_tests :: "'os signal_api \<Rightarrow> ('os \<Rightarrow> bool \<times> 'os) list \<Rightarrow> fatal_handler \<Rightarrow> 'os \<Rightarrow> fatal_handler \<times> 'os" where
  "guarded_tests api [] h os = (h, os)"
| "guarded_tests api (test # tests) h os = (let (h, os) = guarded_test api test h os in guarded_tests api tests h os)"

text \<open>
  The handler of the framework: the name of the signal, the signals given back, the report. Its last statement is \<open>raise\<close>:
  the result is the number it is called with, if the report comes to an end; what becomes of the process is not modelled.
\<close>

fun signal_name :: "int \<Rightarrow> (int \<times> string) list \<Rightarrow> string" where
  "signal_name sig [] = ''<unknown signal>''"
| "signal_name sig (def # defs) = (if sig = fst def then snd def else signal_name sig defs)"

definition handleSignal :: "'os signal_api \<Rightarrow> fp_ops \<Rightarrow> ticks \<Rightarrow> int \<Rightarrow> fatal_handler \<Rightarrow> 'os \<Rightarrow> context_state \<Rightarrow>
    fatal_handler \<times> 'os \<times> (failure + int \<times> context_state)" where
  "handleSignal api fp now sig h os c =
     (let name = signal_name sig signalDefs;
          (h, os) = handler_reset api h os
      in (h, os, res_bind (reportFatal fp now name c) (\<lambda>c. Inr (sig, c))))"

section \<open>The signals are given back\<close>

definition fatal :: "int \<Rightarrow> bool" where
  "fatal sig \<longleftrightarrow> sig \<in> fst ` set signalDefs"

lemma signalDefs_numbers: "distinct (map fst signalDefs)" "\<forall>d \<in> set signalDefs. settable (fst d)"
  by (simp_all add: signalDefs_def settable_def SIGKILL_def SIGSTOP_def)

context posix_signals
begin

lemma take_signals_spec:
  "distinct (map fst defs) \<Longrightarrow> \<forall>d \<in> set defs. settable (fst d) \<Longrightarrow> take_signals api defs os = (olds, os') \<Longrightarrow>
   olds = map (\<lambda>d. action_of os (fst d)) defs \<and> stack_of os' = stack_of os \<and> on_stack os' = on_stack os \<and>
   action_of os' = (\<lambda>s. if s \<in> fst ` set defs then \<lparr>sa_handler = Handle_signal, sa_flags = SA_ONSTACK\<rparr> else action_of os s)"
proof (induction defs arbitrary: os olds)
  case (Cons d defs)
  obtain old os1 where one: "os_sigaction api (fst d) \<lparr>sa_handler = Handle_signal, sa_flags = SA_ONSTACK\<rparr> os = (old, os1)"
    by (metis surj_pair)
  obtain olds1 where rest: "take_signals api defs os1 = (olds1, os')" "olds = old # olds1"
    using Cons.prems(3) one by (auto split: prod.splits)
  have d: "settable (fst d)" using Cons.prems(2) by simp
  note os1 = sigaction [OF d one]
  have new: "fst d \<notin> fst ` set defs" using Cons.prems(1) by simp
  then have "map (\<lambda>e. action_of os1 (fst e)) defs = map (\<lambda>e. action_of os (fst e)) defs"
    using os1 by (intro map_cong) (auto simp: image_iff)
  then show ?case
    using Cons.IH [OF _ _ rest(1)] Cons.prems(1,2) os1 rest(2) new by (simp add: fun_eq_iff)
qed (simp add: fun_eq_iff)

lemma give_back_spec:
  "distinct (map fst defs) \<Longrightarrow> \<forall>d \<in> set defs. settable (fst d) \<Longrightarrow>
   os' = give_back api (zip defs (map (\<lambda>d. f (fst d)) defs)) os \<Longrightarrow>
   stack_of os' = stack_of os \<and> on_stack os' = on_stack os \<and>
   action_of os' = (\<lambda>s. if s \<in> fst ` set defs then f s else action_of os s)"
proof (induction defs arbitrary: os)
  case (Cons d defs)
  obtain old os1 where one: "os_sigaction api (fst d) (f (fst d)) os = (old, os1)"
    by (metis surj_pair)
  have d: "settable (fst d)" using Cons.prems(2) by simp
  note os1 = sigaction [OF d one]
  have "os' = give_back api (zip defs (map (\<lambda>d. f (fst d)) defs)) os1" using Cons.prems(3) one by simp
  then show ?case using Cons.IH [of os1] Cons.prems(1,2) os1 by (simp add: fun_eq_iff)
qed (simp add: fun_eq_iff)

lemma installed:
  assumes "\<not> on_stack os" and "MINSIGSTKSZ \<le> altStackSize h" and "FatalConditionHandler api h os = (h1, os1)"
  shows "isSet h1" and "oldSigStack h1 = stack_of os" and "oldSigActions h1 = map (\<lambda>d. action_of os (fst d)) signalDefs"
    and "action_of os1 = (\<lambda>s. if fatal s then \<lparr>sa_handler = Handle_signal, sa_flags = SA_ONSTACK\<rparr> else action_of os s)"
    and "stack_of os1 = \<lparr>ss_sp = altStackMem h, ss_size = altStackSize h, ss_flags = 0\<rparr>" and "\<not> on_stack os1"
proof -
  let ?st = "\<lparr>ss_sp = altStackMem h, ss_size = altStackSize h, ss_flags = 0\<rparr>"
  obtain old os2 where alt: "os_sigaltstack api ?st os = (old, os2)" by (metis surj_pair)
  have ok: "stack_ok ?st" using assms(2) by (simp add: stack_ok_def)
  note os2 = sigaltstack [OF assms(1) ok alt]
  obtain olds where sigs: "take_signals api signalDefs os2 = (olds, os1)" "h1 = h\<lparr>isSet := True, oldSigStack := old, oldSigActions := olds\<rparr>"
    using assms(3) alt by (auto simp: FatalConditionHandler_def split: prod.splits)
  note taken = take_signals_spec [OF signalDefs_numbers sigs(1)]
  show "isSet h1" "oldSigStack h1 = stack_of os" "oldSigActions h1 = map (\<lambda>d. action_of os (fst d)) signalDefs"
    "stack_of os1 = ?st" "\<not> on_stack os1"
    "action_of os1 = (\<lambda>s. if fatal s then \<lparr>sa_handler = Handle_signal, sa_flags = SA_ONSTACK\<rparr> else action_of os s)"
    using os2 taken sigs(2) by (simp_all add: fatal_def fun_eq_iff)
qed

lemma reset_gives_back:
  assumes "isSet h1" and "oldSigStack h1 = stack_of os" and "oldSigActions h1 = map (\<lambda>d. action_of os (fst d)) signalDefs"
    and "handler_reset api h1 os2 = (h2, os3)"
  shows "\<not> isSet h2" and "action_of os3 = (\<lambda>s. if fatal s then action_of os s else action_of os2 s)"
    and "stack_of os3 = (if on_stack os2 then stack_of os2 else stack_of os)" and "on_stack os3 = on_stack os2"
    and "altStackSize h2 = altStackSize h1"
proof -
  define osm where "osm = give_back api (zip signalDefs (map (\<lambda>d. action_of os (fst d)) signalDefs)) os2"
  note osm = give_back_spec [OF signalDefs_numbers osm_def]
  have out: "h2 = h1\<lparr>isSet := False\<rparr>" "os3 = snd (os_sigaltstack api (stack_of os) osm)"
    using assms by (simp_all add: handler_reset_def osm_def)
  obtain old where alt: "os_sigaltstack api (stack_of os) osm = (old, os3)" using out(2) by (metis prod.collapse)
  have "action_of os3 = action_of osm \<and> stack_of os3 = (if on_stack osm then stack_of osm else stack_of os) \<and>
      on_stack os3 = on_stack osm"
    using sigaltstack [OF _ stack_kept_ok alt] sigaltstack_busy [OF _ alt] by auto
  then show "\<not> isSet h2" "action_of os3 = (\<lambda>s. if fatal s then action_of os s else action_of os2 s)"
    "stack_of os3 = (if on_stack os2 then stack_of os2 else stack_of os)" "on_stack os3 = on_stack os2"
    "altStackSize h2 = altStackSize h1"
    using osm out(1) by (simp_all add: fatal_def)
qed

text \<open>
  So a test leaves the six signals and the stack as it found them, whether it returns or throws; and so do all tests of
  a run together.
\<close>

lemma guarded_test_keeps:
  assumes "\<not> on_stack os" and "MINSIGSTKSZ \<le> altStackSize h" and "\<And>os. on_stack (snd (test os)) = on_stack os"
    and "guarded_test api test h os = (h', os')"
  shows "\<not> isSet h'" and "altStackSize h' = altStackSize h" and "\<forall>sig. fatal sig \<longrightarrow> action_of os' sig = action_of os sig"
    and "stack_of os' = stack_of os" and "\<not> on_stack os'"
proof -
  obtain h1 os1 where one: "FatalConditionHandler api h os = (h1, os1)" by (metis surj_pair)
  obtain returned os2 where two: "test os1 = (returned, os2)" by (metis surj_pair)
  obtain h2 os3 where three: "handler_reset api h1 os2 = (h2, os3)" by (metis surj_pair)
  note inst = installed [OF assms(1,2) one]
  note given = reset_gives_back [OF inst(1-3) three]
  have "handler_reset api h2 os3 = (h2, os3)" using given(1) by (simp add: handler_reset_def)
  then have out: "h' = h2" "os' = os3"
    using assms(4) one two three by (auto simp: guarded_test_def FatalConditionHandler_destroy_def split: if_splits)
  have size: "altStackSize h1 = altStackSize h"
    using one by (auto simp: FatalConditionHandler_def split: prod.splits)
  have off: "\<not> on_stack os2" using inst(6) assms(3) [of os1] two by simp
  show "\<not> isSet h'" "altStackSize h' = altStackSize h" "\<forall>sig. fatal sig \<longrightarrow> action_of os' sig = action_of os sig"
    "stack_of os' = stack_of os" "\<not> on_stack os'"
    using given size off out by simp_all
qed

lemma guarded_tests_keep:
  assumes "\<not> on_stack os" and "MINSIGSTKSZ \<le> altStackSize h" and "\<forall>test \<in> set tests. \<forall>os. on_stack (snd (test os)) = on_stack os"
    and "guarded_tests api tests h os = (h', os')"
  shows "(\<forall>sig. fatal sig \<longrightarrow> action_of os' sig = action_of os sig) \<and> stack_of os' = stack_of os \<and> (tests \<noteq> [] \<longrightarrow> \<not> isSet h')"
  using assms
proof (induction tests arbitrary: h os)
  case (Cons test tests)
  obtain h1 os1 where one: "guarded_test api test h os = (h1, os1)" by (metis surj_pair)
  have here: "on_stack (snd (test os)) = on_stack os" for os using Cons.prems(3) by simp
  note kept = guarded_test_keeps [OF Cons.prems(1,2) here one]
  have rest: "guarded_tests api tests h1 os1 = (h', os')" using Cons.prems(4) one by simp
  have later: "\<forall>test \<in> set tests. \<forall>os. on_stack (snd (test os)) = on_stack os" using Cons.prems(3) by simp
  have "MINSIGSTKSZ \<le> altStackSize h1" using Cons.prems(2) kept(2) by simp
  from Cons.IH [OF kept(5) this later rest] kept rest show ?case by (cases tests) simp_all
qed simp

end

text \<open>
  (C32) The constructor of the guard of a test, on a system whose alternate stack is not in use, installs the handler of the
  framework for the six fatal signals and for no other, and a stack for it. The reset, and the destructor that follows,
  give each of the six back its action from before the constructor, whatever the test did to it, and leave the actions of all
  others as the test left them. The stack is given back too, unless the reset runs on it: from within the handler it is not.
\<close>

theorem signals_given_back:
  assumes "posix_signals api action_of stack_of on_stack" and "\<not> on_stack os" and "MINSIGSTKSZ \<le> altStackSize h"
    and "FatalConditionHandler api h os = (h1, os1)" and "handler_reset api h1 os2 = (h2, os3)"
  shows "action_of os1 = (\<lambda>sig. if sig \<in> fst ` set signalDefs then \<lparr>sa_handler = Handle_signal, sa_flags = SA_ONSTACK\<rparr>
        else action_of os sig) \<and>
    stack_of os1 = \<lparr>ss_sp = altStackMem h, ss_size = altStackSize h, ss_flags = 0\<rparr> \<and>
    action_of os3 = (\<lambda>sig. if sig \<in> fst ` set signalDefs then action_of os sig else action_of os2 sig) \<and>
    stack_of os3 = (if on_stack os2 then stack_of os2 else stack_of os) \<and>
    FatalConditionHandler_destroy api h2 os3 = (h2, os3)"
proof -
  note inst = posix_signals.installed [OF assms(1-4)]
  note given = posix_signals.reset_gives_back [OF assms(1) inst(1-3) assms(5)]
  show ?thesis
    using inst(4,5) given by (auto simp: fatal_def FatalConditionHandler_destroy_def handler_reset_def)
qed

text \<open>A system with signals.\<close>

record posix_os =
  po_actions :: "int \<Rightarrow> sig_action"
  po_stack :: sig_stack
  po_on_stack :: bool

definition po_stack_of :: "posix_os \<Rightarrow> sig_stack" where
  "po_stack_of os = (if stack_ok (po_stack os) then po_stack os else \<lparr>ss_sp = None, ss_size = 0, ss_flags = SS_DISABLE\<rparr>)"

definition posix_api :: "posix_os signal_api" where
  "posix_api = \<lparr>os_sigaction = (\<lambda>sig act os. (po_actions os sig,
       if settable sig then os\<lparr>po_actions := (po_actions os)(sig := act)\<rparr> else os)),
     os_sigaltstack = (\<lambda>st os. if po_on_stack os \<or> \<not> stack_ok st then (po_stack_of os, os) else (po_stack_of os, os\<lparr>po_stack := st\<rparr>))\<rparr>"

interpretation posix: posix_signals posix_api po_actions po_stack_of po_on_stack
  by unfold_locales (auto simp: posix_api_def po_stack_of_def stack_ok_def SS_DISABLE_def settable_def unsettable_def)

definition sample_signals :: posix_os where
  "sample_signals = \<lparr>po_actions = (\<lambda>sig. \<lparr>sa_handler = (if sig = 2 then Sig_ignore else Sig_default), sa_flags = 0\<rparr>),
     po_stack = \<lparr>ss_sp = None, ss_size = 0, ss_flags = SS_DISABLE\<rparr>, po_on_stack = False\<rparr>"

theorem signals_given_back_witness:
  "(let (h1, os1) = FatalConditionHandler posix_api (allocateAltStackMem 7 fatal_handler_statics) sample_signals;
        os2 = os1\<lparr>po_actions := (po_actions os1)(15 := \<lparr>sa_handler = Other_handler 3, sa_flags = 0\<rparr>)\<rparr>;
        (h2, os3) = handler_reset posix_api h1 os2
    in sa_handler (po_actions os1 11) = Handle_signal \<and> po_actions os1 13 = po_actions sample_signals 13 \<and> ss_sp (po_stack_of os1) = Some 7 \<and>
       po_actions os3 = po_actions sample_signals \<and> po_stack_of os3 = po_stack_of sample_signals)"
proof -
  obtain h1 os1 where one: "FatalConditionHandler posix_api (allocateAltStackMem 7 fatal_handler_statics) sample_signals = (h1, os1)"
    by (metis surj_pair)
  define os2 where "os2 = os1\<lparr>po_actions := (po_actions os1)(15 := \<lparr>sa_handler = Other_handler 3, sa_flags = 0\<rparr>)\<rparr>"
  obtain h2 os3 where two: "handler_reset posix_api h1 os2 = (h2, os3)" by (metis surj_pair)
  have size: "MINSIGSTKSZ \<le> altStackSize (allocateAltStackMem 7 fatal_handler_statics)"
    by (simp add: MINSIGSTKSZ_def allocateAltStackMem_def fatal_handler_statics_def SIGSTKSZ_def)
  have free: "\<not> po_on_stack sample_signals" by (simp add: sample_signals_def)
  note given = signals_given_back [OF posix.posix_signals_axioms free size one two]
  have other: "\<not> po_on_stack os2"
    using posix.installed(6) [OF free size one] by (simp add: os2_def)
  have same: "po_actions os2 s = po_actions sample_signals s" if "s \<notin> fst ` set signalDefs" for s
    using posix.installed(4) [OF free size one] that by (auto simp: os2_def fatal_def signalDefs_def)
  have "po_actions os3 = po_actions sample_signals" using given same by auto
  moreover have "sa_handler (po_actions os1 11) = Handle_signal" "po_actions os1 13 = po_actions sample_signals 13"
    using given by (simp_all add: signalDefs_def)
  moreover have "ss_sp (po_stack_of os1) = Some 7" using given by (simp add: allocateAltStackMem_def)
  moreover have "po_stack_of os3 = po_stack_of sample_signals" using given other by simp
  ultimately show ?thesis using one two by (simp add: os2_def [symmetric] Let_def)
qed

section \<open>A crash in the middle of a test\<close>

text \<open>
  The points a run of the body reaches, with how many subcases are open there: before each of its statements, inside
  a subcase or behind one.
\<close>

inductive visits :: "item list \<Rightarrow> context_state \<Rightarrow> nat \<Rightarrow> context_state \<Rightarrow> bool" where
  here: "visits (Act f # rest) c 0 c"
| behind: "f c = Inr (Returned, c1) \<Longrightarrow> visits rest c1 n d \<Longrightarrow> visits (Act f # rest) c n d"
| inside: "Subcase sig c = Inr (True, c1) \<Longrightarrow> visits body c1 n d \<Longrightarrow> visits (Sub sig body # rest) c (Suc n) d"
| left: "Subcase sig c = Inr (True, c1) \<Longrightarrow> run_items body c1 = Inr (Returned, c2) \<Longrightarrow>
    visits rest (Subcase_destroy False c2) n d \<Longrightarrow> visits (Sub sig body # rest) c n d"
| passed: "Subcase sig c = Inr (False, c1) \<Longrightarrow> visits rest c1 n d \<Longrightarrow> visits (Sub sig body # rest) c n d"

text \<open>Statements that leave the bookkeeping of the subcases alone.\<close>

definition neutral :: "(context_state \<Rightarrow> failure + body_outcome \<times> context_state) \<Rightarrow> bool" where
  "neutral f \<longleftrightarrow> (\<forall>c out d. f c = Inr (out, d) \<longrightarrow> currentSubcaseDepth d = currentSubcaseDepth c \<and>
     subcaseStack d = subcaseStack c \<and> reachedLeaf d = reachedLeaf c)"

fun items_neutral :: "item list \<Rightarrow> bool" where
  "items_neutral [] = True"
| "items_neutral (Act f # rest) = (neutral f \<and> items_neutral rest)"
| "items_neutral (Sub sig body # rest) = (items_neutral body \<and> items_neutral rest)"

text \<open>Before the leaf the stack is the open subcases; behind it the stack keeps the path to the leaf.\<close>

definition stack_open :: "context_state \<Rightarrow> bool" where
  "stack_open c \<longleftrightarrow> (\<not> reachedLeaf c \<longrightarrow> length (subcaseStack c) = currentSubcaseDepth c)"

lemma Subcase_depth:
  assumes "Subcase sig c = Inr (entered, d)"
  shows "currentSubcaseDepth d = (if entered then Suc (currentSubcaseDepth c) else currentSubcaseDepth c)"
    and "stack_open c \<Longrightarrow> stack_open d"
  using assms by (auto simp: Subcase_def stack_open_def iterate_reporters_def split: if_splits)

lemma Subcase_destroy_depth:
  "currentSubcaseDepth (Subcase_destroy u c) = currentSubcaseDepth c - 1" "reachedLeaf (Subcase_destroy u c)"
  by (simp_all add: Subcase_destroy_def Let_def iterate_reporters_def)

lemma run_items_depth:
  "items_neutral items \<Longrightarrow> run_items items c = Inr (out, d) \<Longrightarrow> currentSubcaseDepth d = currentSubcaseDepth c"
proof (induction items c arbitrary: out d rule: run_items.induct)
  case (2 f rest c)
  then obtain out1 c1 where f: "f c = Inr (out1, c1)" "(if out1 = Returned then run_items rest c1 else Inr (out1, c1)) = Inr (out, d)"
    by (auto simp: res_bind_eq_Inr split: if_splits)
  have "currentSubcaseDepth c1 = currentSubcaseDepth c" using f(1) "2.prems"(1) by (auto simp: neutral_def)
  then show ?case using "2.IH" [of "(out1, c1)"] "2.prems"(1) f(2) by (auto split: if_splits)
next
  case (3 sig body rest c)
  then obtain entered c1 where s: "Subcase sig c = Inr (entered, c1)" by (auto simp: res_bind_eq_Inr)
  note d1 = Subcase_depth(1) [OF s]
  show ?case
  proof (cases entered)
    case False
    then show ?thesis using "3.IH"(3) [of "(entered, c1)"] "3.prems" s d1 by simp
  next
    case True
    then obtain out2 c2 where b: "run_items body c1 = Inr (out2, c2)" using "3.prems"(2) s by (auto simp: res_bind_eq_Inr)
    have "currentSubcaseDepth c2 = Suc (currentSubcaseDepth c)"
      using "3.IH"(1) [of "(entered, c1)"] True "3.prems"(1) b d1 by simp
    then show ?thesis
      using "3.IH"(2) [of "(entered, c1)" "(out2, c2)"] True "3.prems" s b by (auto simp: Subcase_destroy_depth split: if_splits)
  qed
qed simp

lemma visits_depth:
  "visits items c n d \<Longrightarrow> items_neutral items \<Longrightarrow> stack_open c \<Longrightarrow>
   currentSubcaseDepth d = currentSubcaseDepth c + n \<and> stack_open d"
proof (induction rule: visits.induct)
  case (behind f c c1 rest n d)
  then show ?case by (auto simp: neutral_def stack_open_def)
next
  case (inside sig c c1 body n d rest)
  then show ?case using Subcase_depth [OF inside.hyps(1)] by simp
next
  case (left sig c c1 body c2 rest n d)
  have "currentSubcaseDepth c2 = Suc (currentSubcaseDepth c)"
    using run_items_depth [OF _ left.hyps(2)] Subcase_depth [OF left.hyps(1)] left.prems(1) by simp
  then show ?case using left.IH left.prems(1) by (simp add: Subcase_destroy_depth stack_open_def)
next
  case (passed sig c c1 rest n d body)
  then show ?case using Subcase_depth [OF passed.hyps(1)] by simp
qed simp

lemma visits_says:
  "visits items c n d \<Longrightarrow> items_behave r items \<Longrightarrow> listens r c \<Longrightarrow> says r (In_case k) (In_case (k + n)) c d"
proof (induction arbitrary: k rule: visits.induct)
  case (behind f c c1 rest n d)
  have one: "says r (In_case k) (In_case k) c c1" using behind by (auto simp: behaves_def)
  show ?case using behind says_listens [OF one] by (auto intro: says_trans [OF one])
next
  case (inside sig c c1 body n d rest)
  have one: "says r (In_case k) (In_case (Suc k)) c c1" using Subcase_says [OF inside.prems(2) inside.hyps(1), of k] by simp
  have "says r (In_case (Suc k)) (In_case (Suc k + n)) c1 d"
    using inside.IH [of "Suc k"] inside.prems says_listens [OF one] by simp
  then show ?case using says_trans [OF one] by simp
next
  case (left sig c c1 body c2 rest n d)
  have one: "says r (In_case k) (In_case (Suc k)) c c1" using Subcase_says [OF left.prems(2) left.hyps(1), of k] by simp
  have two: "says r (In_case (Suc k)) (In_case (Suc k)) c1 c2"
    using run_items_says [OF _ _ left.hyps(2)] left.prems(1) says_listens [OF one left.prems(2)] by simp
  note both = says_trans [OF one two]
  have three: "says r (In_case k) (In_case k) c (Subcase_destroy False c2)"
    by (rule says_trans [OF both Subcase_destroy_says [OF says_listens [OF both left.prems(2)]]])
  show ?case using left.IH [of k] left.prems(1) says_listens [OF three left.prems(2)] by (auto intro: says_trans [OF three])
next
  case (passed sig c c1 rest n d body)
  have one: "says r (In_case k) (In_case k) c c1" using Subcase_says [OF passed.prems(2) passed.hyps(1), of k] by simp
  show ?case using passed.IH [of k] passed.prems(1) says_listens [OF one passed.prems(2)] by (auto intro: says_trans [OF one])
qed simp

text \<open>The calls of \<open>reportFatal\<close>, which ends as many subcases as are on the stack.\<close>

definition crash_calls :: "string \<Rightarrow> nat \<Rightarrow> test_case_stats \<Rightarrow> run_stats \<Rightarrow> reporter_call list" where
  "crash_calls message k st rs =
     [Test_case_exception message True] @ replicate k Subcase_end @ [Test_case_end st, Test_run_end rs]"

lemma heard_snoc: "listens r c \<Longrightarrow> heard r (iterate_reporters e c) = heard r c @ [e]"
  by (simp add: heard_def iterate_reporters_def listens_def filter_single)

lemma listens_iterate: "listens r c \<Longrightarrow> listens r (iterate_reporters e c)"
  by (simp add: listens_def iterate_reporters_def)

lemma end_subcases_hears:
  "listens r c \<Longrightarrow> heard r (end_subcases k c) = heard r c @ replicate k Subcase_end \<and> listens r (end_subcases k c) \<and>
   failure_flags (case_data (end_subcases k c)) = failure_flags (case_data c)"
proof (induction k arbitrary: c)
  case (Suc k)
  define b where "b = c\<lparr>subcaseStack := butlast (subcaseStack c)\<rparr>"
  have b: "listens r b" "heard r b = heard r c" "case_data b = case_data c"
    using Suc.prems by (simp_all add: b_def listens_def heard_def)
  show ?case
    using Suc.IH [OF listens_iterate [OF b(1)], of Subcase_end] heard_snoc [OF b(1), of Subcase_end] b
    by (simp add: b_def [symmetric]) (simp add: iterate_reporters_def)
qed simp

lemma crash_flag: "final_flags tc n t (flags OR Crash) AND Crash \<noteq> 0"
proof -
  define P where "P x \<longleftrightarrow> x AND Crash \<noteq> 0" for x :: i32
  have keep: "P (x OR y)" if "P x" for x y
  proof -
    have "(x OR y) AND Crash = (x AND Crash) OR (y AND Crash)" by (simp add: bit.conj_disj_distrib2)
    with that show ?thesis unfolding P_def by (metis or_eq_0_iff)
  qed
  have P_if: "P (if b then x else y)" if "P x" "P y" for b x y using that by simp
  have "(flags OR Crash) AND Crash = Crash" by (simp add: bit.conj_disj_distrib2)
  then have "P (flags OR Crash)" by (simp add: P_def Crash_def)
  moreover have "P (final_flags tc n t x)" if "P x" for x
    unfolding final_flags_def Let_def using that by (intro P_if keep)
  ultimately show ?thesis by (simp add: P_def)
qed

lemma reportFatal_hears:
  assumes "listens r c" and "reportFatal fp now message c = Inr e"
  shows "\<exists>st rs. heard r e = heard r c @ crash_calls (c_str message) (length (subcaseStack c)) st rs \<and> failure_flags st AND Crash \<noteq> 0"
proof -
  define c1 where "c1 = iterate_reporters (Test_case_exception (c_str message) True)
    (c\<lparr>case_data := (case_data c)\<lparr>failure_flags := failure_flags (case_data c) OR Crash\<rparr>\<rparr>)"
  have l0: "listens r (c\<lparr>case_data := (case_data c)\<lparr>failure_flags := failure_flags (case_data c) OR Crash\<rparr>\<rparr>)"
    using assms(1) by (simp add: listens_def)
  have c1: "listens r c1" "heard r c1 = heard r c @ [Test_case_exception (c_str message) True]" "subcaseStack c1 = subcaseStack c"
    "failure_flags (case_data c1) = failure_flags (case_data c) OR Crash"
    using heard_snoc [OF l0] listens_iterate [OF l0] by (simp_all add: c1_def heard_def) (simp_all add: iterate_reporters_def)
  define c2 where "c2 = end_subcases (length (subcaseStack c)) c1"
  note c2 = end_subcases_hears [OF c1(1), of "length (subcaseStack c)", folded c2_def]
  obtain c3 where c3: "finalizeTestCaseData fp now c2 = Inr c3"
      "e = iterate_reporters (Test_run_end (run_data (iterate_reporters (Test_case_end (case_data c3)) c3)))
         (iterate_reporters (Test_case_end (case_data c3)) c3)"
    using assms(2) unfolding reportFatal_def Let_def c1_def [symmetric] c1(3) c2_def [symmetric] res_bind_eq_Inr by auto
  have l3: "listens r c3" and h3: "heard r c3 = heard r c2" and f3: "failure_flags (case_data c3) AND Crash \<noteq> 0"
    using c3(1) c2 c1(4) crash_flag by (auto simp: finalizeTestCaseData_def Let_def listens_def heard_def split: option.splits)
  show ?thesis
    using c3(2) heard_snoc [OF l3] heard_snoc [OF listens_iterate [OF l3]] h3 c2 c1(2) f3
    by (intro exI [of _ "case_data c3"]) (auto simp: crash_calls_def)
qed

lemma crash_protocol:
  "protocol_run (In_case n) (crash_calls message k st rs) = (if k = n then Some Finished else None)"
proof -
  have "protocol_run (In_case n) (replicate k Subcase_end @ [Test_case_end st, Test_run_end rs]) =
      (if k = n then Some Finished else None)"
    by (induction k arbitrary: n) (auto split: nat.splits)
  then show ?thesis by (simp add: crash_calls_def)
qed

lemma end_subcases_test: "currentTest (end_subcases k c) = currentTest c"
  by (induction k arbitrary: c) (simp_all add: iterate_reporters_def)

lemma reportFatal_returns: "currentTest c = Some tc \<Longrightarrow> \<exists>e. reportFatal fp now message c = Inr e"
  by (simp add: reportFatal_def Let_def finalizeTestCaseData_def end_subcases_test iterate_reporters_def)

lemma handleSignal_returns:
  "currentTest c = Some tc \<Longrightarrow> \<exists>h' os' e. handleSignal api fp now sig h os c = (h', os', Inr (sig, e)) \<and>
     (h', os') = handler_reset api h os \<and> reportFatal fp now (signal_name sig signalDefs) c = Inr e"
  using reportFatal_returns [of c tc fp now "signal_name sig signalDefs"]
  by (auto simp: handleSignal_def Let_def split: prod.splits)

text \<open>
  (C31) A fatal signal at some point of a test body: the handler gives the signals back, tells the reporters of the crash,
  of the end of subcases, of the test case and of the run, and comes to its last statement, which raises the signal anew. What
  it tells completes the protocol exactly if as many subcases are open as \<open>subcaseStack\<close> has entries; as long as the run
  has not left a subcase, this is so.
\<close>

theorem crash_completes_protocol:
  assumes "items_behave r items" and "items_neutral items" and "listens r c"
    and "visits items (prepare_run c) n d" and "currentTest d = Some tc"
  shows "\<exists>h' os' e calls. handleSignal api fp now sig h os d = (h', os', Inr (sig, e)) \<and>
    (h', os') = handler_reset api h os \<and> heard r e = heard r c @ calls \<and>
    protocol_run (In_case 0) calls = (if length (subcaseStack d) = currentSubcaseDepth d then Some Finished else None) \<and>
    (\<not> reachedLeaf d \<longrightarrow> length (subcaseStack d) = currentSubcaseDepth d)"
proof -
  have open0: "stack_open (prepare_run c)" "currentSubcaseDepth (prepare_run c) = 0" by (simp_all add: stack_open_def prepare_run_def)
  have lp: "listens r (prepare_run c)" "heard r (prepare_run c) = heard r c" using assms(3) by (simp_all add: listens_def heard_def prepare_run_def)
  have depth: "currentSubcaseDepth d = n" "stack_open d"
    using visits_depth [OF assms(4,2) open0(1)] open0(2) by auto
  have said: "says r (In_case 0) (In_case n) (prepare_run c) d"
    using visits_says [OF assms(4,1) lp(1), of 0] by simp
  then obtain calls where calls: "heard r d = heard r c @ calls" "protocol_run (In_case 0) calls = Some (In_case n)"
    using lp(2) by (auto simp: says_def)
  obtain h' os' e where e: "handleSignal api fp now sig h os d = (h', os', Inr (sig, e))"
      "(h', os') = handler_reset api h os" "reportFatal fp now (signal_name sig signalDefs) d = Inr e"
    using handleSignal_returns [OF assms(5), where api = api and fp = fp and now = now and sig = sig and h = h and os = os] by blast
  obtain st rs where crash: "heard r e = heard r d @ crash_calls (c_str (signal_name sig signalDefs)) (length (subcaseStack d)) st rs"
    using reportFatal_hears [OF says_listens [OF said lp(1)] e(3)] by blast
  show ?thesis
    using calls crash depth e(1,2) crash_protocol [of n]
    by (intro exI [of _ h'] exI [of _ os'] exI [of _ e]
        exI [of _ "calls @ crash_calls (c_str (signal_name sig signalDefs)) (length (subcaseStack d)) st rs"])
      (simp add: protocol_run_append stack_open_def)
qed


section \<open>A crash behind a subcase\<close>

text \<open>The points behind a subcase that was left in the same block, with the subcases open there.\<close>

inductive visits_behind :: "item list \<Rightarrow> context_state \<Rightarrow> nat \<Rightarrow> context_state \<Rightarrow> bool" where
  beyond: "Subcase sig c = Inr (True, c1) \<Longrightarrow> run_items body c1 = Inr (Returned, c2) \<Longrightarrow>
    visits rest (Subcase_destroy False c2) 0 d \<Longrightarrow> visits_behind (Sub sig body # rest) c 0 d"
| behind: "f c = Inr (Returned, c1) \<Longrightarrow> visits_behind rest c1 n d \<Longrightarrow> visits_behind (Act f # rest) c n d"
| inside: "Subcase sig c = Inr (True, c1) \<Longrightarrow> visits_behind body c1 n d \<Longrightarrow> visits_behind (Sub sig body # rest) c (Suc n) d"
| left: "Subcase sig c = Inr (True, c1) \<Longrightarrow> run_items body c1 = Inr (Returned, c2) \<Longrightarrow>
    visits_behind rest (Subcase_destroy False c2) n d \<Longrightarrow> visits_behind (Sub sig body # rest) c n d"
| passed: "Subcase sig c = Inr (False, c1) \<Longrightarrow> visits_behind rest c1 n d \<Longrightarrow> visits_behind (Sub sig body # rest) c n d"

lemma visits_behind_visits: "visits_behind items c n d \<Longrightarrow> visits items c n d"
  by (induction rule: visits_behind.induct) (auto intro: visits.intros)

text \<open>Once a subcase was left its name stays on the stack, which never is shorter than the subcases that are open.\<close>

lemma Subcase_leaf:
  assumes "Subcase sig c = Inr (entered, d)"
  shows "reachedLeaf c \<Longrightarrow> reachedLeaf d \<and> subcaseStack d = subcaseStack c"
    and "currentSubcaseDepth c \<le> length (subcaseStack c) \<Longrightarrow> currentSubcaseDepth d \<le> length (subcaseStack d)"
  using assms by (auto simp: Subcase_def iterate_reporters_def split: if_splits)

lemma Subcase_destroy_stack: "subcaseStack (Subcase_destroy u c) = subcaseStack c"
  by (simp add: Subcase_destroy_def Let_def iterate_reporters_def)

lemma run_items_stack:
  "items_neutral items \<Longrightarrow> run_items items c = Inr (out, d) \<Longrightarrow>
   (reachedLeaf c \<longrightarrow> reachedLeaf d \<and> subcaseStack d = subcaseStack c) \<and>
   (currentSubcaseDepth c \<le> length (subcaseStack c) \<longrightarrow> currentSubcaseDepth d \<le> length (subcaseStack d))"
proof (induction items c arbitrary: out d rule: run_items.induct)
  case (2 f rest c)
  then obtain out1 c1 where f: "f c = Inr (out1, c1)" "(if out1 = Returned then run_items rest c1 else Inr (out1, c1)) = Inr (out, d)"
    by (auto simp: res_bind_eq_Inr split: if_splits)
  have "currentSubcaseDepth c1 = currentSubcaseDepth c \<and> subcaseStack c1 = subcaseStack c \<and> reachedLeaf c1 = reachedLeaf c"
    using f(1) "2.prems"(1) by (auto simp: neutral_def)
  then show ?case using "2.IH" [of "(out1, c1)"] "2.prems"(1) f by (auto split: if_splits)
next
  case (3 sig body rest c)
  then obtain entered c1 where s: "Subcase sig c = Inr (entered, c1)" by (auto simp: res_bind_eq_Inr)
  note c1 = Subcase_leaf [OF s]
  show ?case
  proof (cases entered)
    case False
    then show ?thesis using "3.IH"(3) [of "(entered, c1)"] "3.prems" s c1 by simp
  next
    case True
    then obtain out2 c2 where b: "run_items body c1 = Inr (out2, c2)" using "3.prems"(2) s by (auto simp: res_bind_eq_Inr)
    have c2: "(reachedLeaf c1 \<longrightarrow> reachedLeaf c2 \<and> subcaseStack c2 = subcaseStack c1) \<and>
        (currentSubcaseDepth c1 \<le> length (subcaseStack c1) \<longrightarrow> currentSubcaseDepth c2 \<le> length (subcaseStack c2))"
      using "3.IH"(1) [of "(entered, c1)"] True "3.prems"(1) s b by simp
    note out = Subcase_destroy_depth Subcase_destroy_stack
    show ?thesis
    proof (cases "out2 = Returned")
      case True
      then have "run_items rest (Subcase_destroy False c2) = Inr (out, d)" using "3.prems"(2) s b \<open>entered\<close> by simp
      then show ?thesis
        using "3.IH"(2) [of "(entered, c1)" "(out2, c2)"] True \<open>entered\<close> "3.prems"(1) s b c1 c2 by (auto simp: out)
    next
      case False
      then have "d = Subcase_destroy True c2" using "3.prems"(2) s b \<open>entered\<close> by simp
      then show ?thesis using c1 c2 by (auto simp: out)
    qed
  qed
qed simp

lemma visits_leaf: "visits items c n d \<Longrightarrow> items_neutral items \<Longrightarrow> reachedLeaf c \<Longrightarrow> subcaseStack d = subcaseStack c"
proof (induction rule: visits.induct)
  case (behind f c c1 rest n d)
  then show ?case by (auto simp: neutral_def)
next
  case (inside sig c c1 body n d rest)
  then show ?case using Subcase_leaf [OF inside.hyps(1)] by simp
next
  case (left sig c c1 body c2 rest n d)
  have "reachedLeaf c1 \<and> subcaseStack c1 = subcaseStack c" using Subcase_leaf [OF left.hyps(1)] left.prems(2) by simp
  then have "subcaseStack c2 = subcaseStack c" using run_items_stack [OF _ left.hyps(2)] left.prems(1) by simp
  then show ?case using left.IH left.prems(1) by (simp add: Subcase_destroy_depth Subcase_destroy_stack)
next
  case (passed sig c c1 rest n d body)
  then show ?case using Subcase_leaf [OF passed.hyps(1)] by simp
qed simp

lemma visits_behind_less:
  "visits_behind items c n d \<Longrightarrow> items_neutral items \<Longrightarrow> stack_open c \<Longrightarrow> currentSubcaseDepth c \<le> length (subcaseStack c) \<Longrightarrow>
   currentSubcaseDepth d = currentSubcaseDepth c + n \<and> currentSubcaseDepth d < length (subcaseStack d)"
proof (induction rule: visits_behind.induct)
  case (beyond sig c c1 body c2 rest d)
  note one = Subcase_depth [OF beyond.hyps(1)] Subcase_leaf(2) [OF beyond.hyps(1)]
  have two: "currentSubcaseDepth c2 = Suc (currentSubcaseDepth c)" "currentSubcaseDepth c2 \<le> length (subcaseStack c2)"
    using run_items_depth [OF _ beyond.hyps(2)] run_items_stack [OF _ beyond.hyps(2)] one beyond.prems by simp_all
  have three: "reachedLeaf (Subcase_destroy False c2)" "stack_open (Subcase_destroy False c2)"
    by (simp_all add: Subcase_destroy_depth stack_open_def)
  have "subcaseStack d = subcaseStack c2"
    using visits_leaf [OF beyond.hyps(3) _ three(1)] beyond.prems(1) by (simp add: Subcase_destroy_stack)
  moreover have "currentSubcaseDepth d = currentSubcaseDepth c"
    using visits_depth [OF beyond.hyps(3) _ three(2)] beyond.prems(1) two(1) by (simp add: Subcase_destroy_depth)
  ultimately show ?case using two by simp
next
  case (behind f c c1 rest n d)
  then show ?case by (auto simp: neutral_def stack_open_def)
next
  case (inside sig c c1 body n d rest)
  then show ?case using Subcase_depth [OF inside.hyps(1)] Subcase_leaf(2) [OF inside.hyps(1)] by simp
next
  case (left sig c c1 body c2 rest n d)
  have "currentSubcaseDepth c2 = Suc (currentSubcaseDepth c) \<and> currentSubcaseDepth c2 \<le> length (subcaseStack c2)"
    using run_items_depth [OF _ left.hyps(2)] run_items_stack [OF _ left.hyps(2)] Subcase_depth [OF left.hyps(1)]
      Subcase_leaf(2) [OF left.hyps(1)] left.prems by simp
  then show ?case using left.IH left.prems(1) by (simp add: Subcase_destroy_depth Subcase_destroy_stack stack_open_def)
next
  case (passed sig c c1 rest n d body)
  then show ?case using Subcase_depth [OF passed.hyps(1)] Subcase_leaf(2) [OF passed.hyps(1)] by simp
qed

lemma report_all_append: "report_all step (es @ fs) s = res_bind (report_all step es s) (report_all step fs)"
proof (induction es arbitrary: s)
  case (Cons e es)
  then show ?case by (cases "step (fst e) (snd e) s") simp_all
qed simp

lemma console_ends:
  "map snd es = replicate k Subcase_end \<Longrightarrow> currentSubcaseLevel x < 2 ^ 64 \<Longrightarrow>
   \<exists>y. report_all (console_call env opts) es x = Inr y \<and> cr_tc y = cr_tc x \<and> subcasesStack y = subcasesStack x \<and>
     (k \<noteq> 0 \<longrightarrow> \<not> hasLoggedCurrentTestStart y) \<and> int (currentSubcaseLevel y) = (int (currentSubcaseLevel x) - int k) mod 2 ^ 64"
proof (induction k arbitrary: es x)
  case (Suc k)
  then obtain e fs where es: "es = e # fs" "snd e = Subcase_end" "map snd fs = replicate k Subcase_end"
    by (cases es) auto
  define x1 where "x1 = console_subcase_end x"
  have x1: "currentSubcaseLevel x1 < 2 ^ 64" "int (currentSubcaseLevel x1) = (int (currentSubcaseLevel x) - 1) mod 2 ^ 64"
    using Suc.prems(2) by (auto simp: x1_def console_subcase_end_def zmod_minus1 of_nat_diff)
  obtain y where y: "report_all (console_call env opts) fs x1 = Inr y" "cr_tc y = cr_tc x1" "subcasesStack y = subcasesStack x1"
      "k \<noteq> 0 \<longrightarrow> \<not> hasLoggedCurrentTestStart y" "int (currentSubcaseLevel y) = (int (currentSubcaseLevel x1) - int k) mod 2 ^ 64"
    using Suc.IH [OF es(3) x1(1)] by blast
  have "(int (currentSubcaseLevel x1) - int k) mod 2 ^ 64 = (int (currentSubcaseLevel x) - int (Suc k)) mod 2 ^ 64"
    unfolding x1(2) by (simp add: mod_diff_left_eq algebra_simps)
  moreover have "k = 0 \<longrightarrow> \<not> hasLoggedCurrentTestStart y"
    using y(1) es(3) by (auto simp: x1_def console_subcase_end_def)
  ultimately show ?case
    using y es by (intro exI [of _ y]) (auto simp: x1_def console_subcase_end_def)
qed simp

lemma console_crash:
  assumes "map snd es = crash_calls message k st rs" and "failure_flags st AND Crash \<noteq> 0"
    and "console_inv (In_case n) x" and "cr_tc x = Some tc" and "\<not> m_no_output tc"
    and "n < k" and "k < 2 ^ 63" and "length (subcasesStack x) < 2 ^ 63"
  shows "\<exists>front back z. es = front @ back \<and> report_all (console_call env opts) front x = Inr z \<and>
    currentSubcaseLevel z = n + 2 ^ 64 - k \<and> length (subcasesStack z) < currentSubcaseLevel z \<and>
    report_all (console_call env opts) es x = Inl Out_of_bounds"
proof -
  obtain e1 fs e2 e3 where es: "es = e1 # fs @ [e2, e3]" "snd e1 = Test_case_exception message True" "map snd fs = replicate k Subcase_end"
      "snd e2 = Test_case_end st"
    using assms(1) unfolding crash_calls_def
    by (auto simp: map_eq_append_conv map_eq_Cons_conv append_eq_Cons_conv)
  have lvl: "currentSubcaseLevel x = n" "n \<le> length (subcasesStack x)" using assms(3) by (simp_all add: console_inv_In_case)
  have tc: "deref_tc x = Inr tc" using assms(4) by (simp add: deref_tc_def)
  obtain w where w: "logTestStart opts (color_text env opts) x = Inr w" "cr_tc w = Some tc" "subcasesStack w = subcasesStack x"
      "currentSubcaseLevel w = n"
    using assms(4) lvl tc by (cases "hasLoggedCurrentTestStart x") (simp_all add: logTestStart_def)
  then obtain y where y: "console_call env opts (fst e1) (snd e1) x = Inr y" "cr_tc y = Some tc" "subcasesStack y = subcasesStack x"
      "currentSubcaseLevel y = n"
    using assms(5) tc by (simp add: es(2) console_test_case_exception_def)
  obtain z where z: "report_all (console_call env opts) fs y = Inr z" "cr_tc z = Some tc" "subcasesStack z = subcasesStack x"
      "\<not> hasLoggedCurrentTestStart z" "int (currentSubcaseLevel z) = (int n - int k) mod 2 ^ 64"
    using console_ends [OF es(3), of y env opts] y assms(6-8) lvl by force
  have small: "int n < int k" "int k < 2 ^ 63" "int (length (subcasesStack x)) < 2 ^ 63" "(2 :: int) ^ 64 = 2 * 2 ^ 63"
    using assms(6-8) by simp_all
  have "(int n - int k) mod 2 ^ 64 = (int n - int k + 2 ^ 64) mod 2 ^ 64" by (simp only: mod_add_self2)
  also have "\<dots> = int n - int k + 2 ^ 64" using small by (intro mod_pos_pos_trivial) linarith+
  finally have wrap: "(int n - int k) mod 2 ^ 64 = int n - int k + 2 ^ 64" .
  have "int (n + 2 ^ 64 - k) = int n - int k + 2 ^ 64" using small by (simp add: of_nat_diff)
  then have level: "currentSubcaseLevel z = n + 2 ^ 64 - k" using z(5) unfolding wrap by linarith
  from wrap have "int (length (subcasesStack z)) < int (currentSubcaseLevel z)" unfolding z(3,5) using small by linarith
  then have "length (subcasesStack z) < currentSubcaseLevel z" by linarith
  moreover have "failure_flags st \<noteq> 0 \<and> failure_flags st \<noteq> AssertFailure"
    using assms(2) by (auto simp: AssertFailure_def Crash_def)
  ultimately have "console_call env opts (fst e2) (snd e2) z = Inl Out_of_bounds" and "length (subcasesStack z) < currentSubcaseLevel z"
    using z(2,4) assms(5) by (simp_all add: es(4) console_test_case_end_def deref_tc_def logTestStart_def)
  then show ?thesis using es(1) y(1) z(1) level
    by (intro exI [of _ "e1 # fs"] exI [of _ "[e2, e3]"] exI [of _ z]) (simp add: report_all_append)
qed

lemma xml_call_needs: "xml_call a w = Inr v \<Longrightarrow> ops_stack [a] (m_tags w) = Some (m_tags v)"
  by (cases a) (auto simp: startElement_def newlineIfNecessary_def ensureTagClosed_def endElement_def Let_def res_bind_eq_Inr
        writeAttribute_def writeAttribute_c_def writeAttribute_bool_def writeText_def split: option.splits if_splits)

lemma xml_ops_needs: "xml_ops ops w = Inr v \<Longrightarrow> ops_stack ops (m_tags w) = Some (m_tags v)"
proof (induction ops arbitrary: w)
  case (Cons a ops)
  then obtain u where u: "xml_call a w = Inr u" "xml_ops ops u = Inr v" by (auto simp: res_bind_eq_Inr)
  show ?case
    using ops_stack_append [of "[a]" ops "m_tags w"] xml_call_needs [OF u(1)] Cons.IH [OF u(2)] by simp
qed simp

fun tag_balance :: "xml_op list \<Rightarrow> int" where
  "tag_balance [] = 0"
| "tag_balance (Start n # ops) = 1 + tag_balance ops"
| "tag_balance (End # ops) = tag_balance ops - 1"
| "tag_balance (_ # ops) = tag_balance ops"

lemma tag_balance_append: "tag_balance (xs @ ys) = tag_balance xs + tag_balance ys"
  by (induction xs rule: tag_balance.induct) simp_all

lemma ops_stack_balance: "ops_stack ops ts = Some us \<Longrightarrow> int (length us) = int (length ts) + tag_balance ops"
proof (induction ops ts rule: ops_stack.induct)
  case (3 ops ts)
  then have "ts \<noteq> []" "int (length us) = int (length (butlast ts)) + tag_balance ops" by (auto split: if_splits)
  then show ?case by (cases ts rule: rev_cases) simp_all
qed auto

lemma xr_emit_balance:
  "xr_emit ops x = Inr y \<Longrightarrow>
   int (length (m_tags (xr_xml y))) = int (length (m_tags (xr_xml x))) + tag_balance ops \<and> xr_tc y = xr_tc x"
  by (auto simp: xr_emit_def res_bind_eq_Inr dest!: xml_ops_needs ops_stack_balance)

text \<open>The writer fails only where an element is ended that is not open.\<close>

lemma XmlEncode_bind: "res_bind (XmlEncode w t) (\<lambda>u. Inr (g u)) \<noteq> Inl f"
  using encode_loop_safe [of w t 0] by (auto simp: XmlEncode_def returns_def)

lemma xml_call_fails: "xml_call a w = Inl f \<Longrightarrow> a = End \<and> m_tags w = [] \<and> f = Out_of_bounds"
  by (cases a) (auto simp: endElement_def Let_def writeAttribute_def writeAttribute_c_def writeText_def XmlEncode_bind
      split: option.splits if_splits)

lemma xr_emit_fails: "xr_emit ops x = Inl f \<Longrightarrow> f = Out_of_bounds"
proof -
  have "xml_ops ops w = Inl f \<Longrightarrow> f = Out_of_bounds" for w
  proof (induction ops arbitrary: w)
    case (Cons a ops)
    then show ?case by (cases "xml_call a w") (auto dest: xml_call_fails)
  qed simp
  then show "xr_emit ops x = Inl f \<Longrightarrow> f = Out_of_bounds"
    by (cases "xml_ops ops (xr_xml x)") (auto simp: xr_emit_def)
qed

definition closing_call :: "reporter_call \<Rightarrow> bool" where
  "closing_call call = (case call of
     Test_case_exception m crash \<Rightarrow> True | Subcase_end \<Rightarrow> True | Test_case_end st \<Rightarrow> True | Test_run_end rs \<Rightarrow> True | _ \<Rightarrow> False)"

lemma closing_calls_fail:
  "list_all closing_call (map snd es) \<Longrightarrow> xr_tc x \<noteq> None \<Longrightarrow> report_all (xr_call env opts) es x = Inl f \<Longrightarrow> f = Out_of_bounds"
proof (induction es arbitrary: x)
  case (Cons e es)
  show ?case
  proof (cases "xr_call env opts (fst e) (snd e) x")
    case (Inl f')
    then have "f' = Out_of_bounds"
      using Cons.prems(1,2) xr_emit_fails
      by (auto simp: closing_call_def xr_test_case_exception_def xr_subcase_end_def xr_test_case_end_def xr_test_run_end_def
          split: reporter_call.splits)
    then show ?thesis using Cons.prems(3) Inl by simp
  next
    case (Inr y)
    then have "xr_tc y = xr_tc x"
      using Cons.prems(1,2)
      by (auto simp: closing_call_def xr_test_case_exception_def xr_subcase_end_def xr_test_case_end_def xr_test_run_end_def
          split: reporter_call.splits dest!: xr_emit_balance)
    then show ?thesis using Cons.IH [of y] Cons.prems Inr by simp
  qed
qed simp

lemma xml_ends:
  "map snd es = replicate k Subcase_end \<Longrightarrow> report_all (xr_call env opts) es x = Inr y \<Longrightarrow>
   int (length (m_tags (xr_xml y))) = int (length (m_tags (xr_xml x))) - int k \<and> xr_tc y = xr_tc x"
proof (induction k arbitrary: es x)
  case (Suc k)
  then obtain e fs where es: "es = e # fs" "snd e = Subcase_end" "map snd fs = replicate k Subcase_end"
    by (cases es) auto
  then obtain z where z: "xr_emit [End] x = Inr z" "report_all (xr_call env opts) fs z = Inr y"
    using Suc.prems(2) by (auto simp: res_bind_eq_Inr xr_subcase_end_def)
  then show ?case using xr_emit_balance [OF z(1)] Suc.IH [OF es(3) z(2)] by simp
qed simp

lemma xml_crash:
  assumes "map snd es = crash_calls message k st rs" and "xr_inv (In_case n) x" and "n < k"
  shows "report_all (xr_call env opts) es x = Inl Out_of_bounds"
proof (rule ccontr)
  have "list_all closing_call (map snd es)" "xr_tc x \<noteq> None"
    using assms(1,2) by (auto simp: crash_calls_def closing_call_def list_all_iff xr_inv_def)
  note fails = closing_calls_fail [OF this]
  assume "\<not> ?thesis"
  then obtain y where y: "report_all (xr_call env opts) es x = Inr y" using fails by (cases "report_all (xr_call env opts) es x") auto
  obtain e1 fs e2 e3 where es: "es = e1 # fs @ [e2, e3]" "snd e1 = Test_case_exception message True" "map snd fs = replicate k Subcase_end"
      "snd e2 = Test_case_end st" "snd e3 = Test_run_end rs"
    using assms(1) unfolding crash_calls_def
    by (auto simp: map_eq_append_conv map_eq_Cons_conv append_eq_Cons_conv)
  from y obtain x1 x2 x3 where run: "xr_test_case_exception message True x = Inr x1" "report_all (xr_call env opts) fs x1 = Inr x2"
      "xr_test_case_end env opts st x2 = Inr x3" "xr_test_run_end opts rs x3 = Inr y"
    by (auto simp: es report_all_append res_bind_eq_Inr)
  have start: "length (m_tags (xr_xml x)) = 3 + n" "xr_tc x \<noteq> None" using assms(2) by (simp_all add: xr_inv_def)
  have one: "int (length (m_tags (xr_xml x1))) = int (length (m_tags (xr_xml x))) \<and> xr_tc x1 = xr_tc x"
    using xr_emit_balance [OF run(1) [unfolded xr_test_case_exception_def]] by simp
  note two = xml_ends [OF es(3) run(2)]
  from run(3) have three: "int (length (m_tags (xr_xml x3))) = int (length (m_tags (xr_xml x2))) - 1 \<and> xr_tc x3 = xr_tc x2"
    unfolding xr_test_case_end_def
    by (cases "xr_tc x2") (auto simp: tag_balance_append dest!: xr_emit_balance)
  have "int (length (m_tags (xr_xml y))) = int (length (m_tags (xr_xml x3))) - 2"
    using xr_emit_balance [OF run(4) [unfolded xr_test_run_end_def]] three two one start(2) by (simp add: tag_balance_append)
  then show False using three two one start(1) assms(3) by linarith
qed

text \<open>
  (C40) A fatal signal behind a subcase that was left in the same block, with \<open>n\<close> subcases open: \<open>subcaseStack\<close> still has the
  path to the leaf, and \<open>reportFatal\<close> ends all of it, more subcases than are open. The XML reporter closes elements that are
  not open and in the end takes one from its empty stack of tags. The level of the console reporter wraps around below zero, and
  with it the reporter reads behind the end of its stack of subcases.
\<close>

theorem crash_behind_subcase:
  assumes "items_neutral items" and "visits_behind items (prepare_run c) n d" and "listens r d"
    and "reportFatal fp now message d = Inr e" and "heard r e = heard r d @ map snd es" and "length (subcaseStack d) < 2 ^ 63"
    and "xr_inv (In_case n) x"
    and "console_inv (In_case n) y" and "cr_tc y = Some tc" and "\<not> m_no_output tc" and "length (subcasesStack y) < 2 ^ 63"
  shows "length (filter (\<lambda>call. call = Subcase_end) (map snd es)) = length (subcaseStack d) \<and> n < length (subcaseStack d) \<and>
    report_all (xr_call env opts) es x = Inl Out_of_bounds \<and>
    (\<exists>front back z. es = front @ back \<and> report_all (console_call env opts) front y = Inr z \<and>
      currentSubcaseLevel z = n + 2 ^ 64 - length (subcaseStack d) \<and> length (subcasesStack z) < currentSubcaseLevel z \<and>
      report_all (console_call env opts) es y = Inl Out_of_bounds)"
proof -
  obtain st rs where crash: "map snd es = crash_calls (c_str message) (length (subcaseStack d)) st rs" "failure_flags st AND Crash \<noteq> 0"
    using reportFatal_hears [OF assms(3,4)] assms(5) by auto
  have less: "n < length (subcaseStack d)"
    using visits_behind_less [OF assms(2,1)] by (simp add: stack_open_def prepare_run_def)
  have "length (filter (\<lambda>call. call = Subcase_end) (map snd es)) = length (subcaseStack d)"
    unfolding crash(1) by (simp add: crash_calls_def)
  then show ?thesis
    using less xml_crash [OF crash(1) assms(7) less, of env opts] console_crash [OF crash assms(8-10) less assms(6,11), of env opts]
    by (intro conjI) assumption+
qed

section \<open>Witnesses\<close>

definition left_sig :: subcase_signature where
  "left_sig = \<lparr>sig_name = ''a'', sig_file = ''a.cpp'', sig_line = 8\<rparr>"

definition crashing_body :: "item list" where
  "crashing_body = [Sub left_sig [Act (\<lambda>c. Inr (Returned, c))], Act (\<lambda>c. Inr (Returned, c))]"

definition crash_context :: context_state where
  "crash_context = sample_context\<lparr>reporters_currently_used := [(0, ''xml'')]\<rparr>"

text \<open>Within the subcase, and behind it.\<close>

definition within :: context_state where
  "within = iterate_reporters (Subcase_start left_sig)
     ((prepare_run crash_context)\<lparr>subcaseStack := [left_sig], currentSubcaseDepth := 1\<rparr>)"

definition behind :: context_state where
  "behind = Subcase_destroy False within"

lemma crash_points: "visits crashing_body (prepare_run crash_context) 1 within" "visits crashing_body (prepare_run crash_context) 0 behind"
proof -
  have enter: "Subcase left_sig (prepare_run crash_context) = Inr (True, within)"
    by (simp add: Subcase_def within_def prepare_run_def checkFilters_def matchesAny_def crash_context_def sample_context_def)
  show "visits crashing_body (prepare_run crash_context) 1 within"
    using visits.inside [OF enter visits.here] by (simp add: crashing_body_def)
  show "visits crashing_body (prepare_run crash_context) 0 behind"
    using visits.left [OF enter _ visits.here, of "[Act (\<lambda>c. Inr (Returned, c))]" within] by (simp add: crashing_body_def behind_def)
qed

lemma crash_body: "items_behave r crashing_body" "items_neutral crashing_body" "listens (0, ''xml'') crash_context"
  by (simp_all add: crashing_body_def behaves_def neutral_def listens_def crash_context_def)

lemma crash_fields:
  "reachedLeaf within = False" "subcaseStack within = [left_sig]" "currentTest within = Some sample_case"
  "subcaseStack behind = [left_sig]" "currentSubcaseDepth behind = 0" "currentTest behind = Some sample_case"
  "reporters_currently_used behind = [(0, ''xml'')]"
  by (simp_all add: behind_def within_def Subcase_destroy_def Let_def iterate_reporters_def prepare_run_def crash_context_def sample_context_def)

theorem crash_completes_protocol_witness:
  "(\<exists>h os e. handleSignal posix_api sample_fp 0 11 fatal_handler_statics sample_signals within = (h, os, Inr (11, e)) \<and>
      protocol_run (In_case 0) (heard (0, ''xml'') e) = Some Finished) \<and>
   (\<exists>h os e. handleSignal posix_api sample_fp 0 11 fatal_handler_statics sample_signals behind = (h, os, Inr (11, e)) \<and>
      protocol_run (In_case 0) (heard (0, ''xml'') e) = None)"
proof -
  have "heard (0, ''xml'') crash_context = []" by (simp add: heard_def crash_context_def sample_context_def)
  then show ?thesis
    using crash_completes_protocol [OF crash_body crash_points(1) crash_fields(3), of posix_api sample_fp 0 11 fatal_handler_statics sample_signals]
      crash_completes_protocol [OF crash_body crash_points(2) crash_fields(6), of posix_api sample_fp 0 11 fatal_handler_statics sample_signals]
      crash_fields by auto
qed

lemma crash_beyond: "visits_behind crashing_body (prepare_run crash_context) 0 behind"
proof -
  have enter: "Subcase left_sig (prepare_run crash_context) = Inr (True, within)"
    by (simp add: Subcase_def within_def prepare_run_def checkFilters_def matchesAny_def crash_context_def sample_context_def)
  show ?thesis
    using visits_behind.beyond [OF enter _ visits.here, of "[Act (\<lambda>c. Inr (Returned, c))]" within]
    by (simp add: crashing_body_def behind_def)
qed

theorem crash_behind_subcase_witness:
  "\<exists>e x y es. reportFatal sample_fp 0 ''SIGSEGV'' behind = Inr e \<and> map snd es = drop 2 (heard (0, ''xml'') e) \<and>
     report_all (xr_call sample_env sample_options) (map (Pair sample_call) [Test_run_start, Test_case_start sample_case]) (XmlReporter []) = Inr x \<and>
     report_all (xr_call sample_env sample_options) es x = Inl Out_of_bounds \<and>
     report_all (console_call sample_env sample_options) (map (Pair sample_call) [Test_run_start, Test_case_start sample_case]) (ConsoleReporter False 0 []) = Inr y \<and>
     (\<exists>front back z. es = front @ back \<and> report_all (console_call sample_env sample_options) front y = Inr z \<and>
       currentSubcaseLevel z = 2 ^ 64 - 1) \<and>
     report_all (console_call sample_env sample_options) es y = Inl Out_of_bounds"
proof -
  let ?start = "map (Pair sample_call) [Test_run_start, Test_case_start sample_case]"
  obtain e where e: "reportFatal sample_fp 0 ''SIGSEGV'' behind = Inr e" using reportFatal_returns crash_fields(6) by metis
  have l: "listens (0, ''xml'') behind" by (simp add: listens_def crash_fields)
  have h: "heard (0, ''xml'') behind = [Subcase_start left_sig, Subcase_end]"
    by (simp add: heard_def behind_def within_def Subcase_destroy_def Let_def iterate_reporters_def prepare_run_def crash_context_def sample_context_def)
  define es where "es = map (Pair sample_call) (drop 2 (heard (0, ''xml'') e))"
  have es: "map snd es = drop 2 (heard (0, ''xml'') e)" by (simp add: es_def comp_def)
  obtain st rs where "heard (0, ''xml'') e = heard (0, ''xml'') behind @ crash_calls (c_str ''SIGSEGV'') (length (subcaseStack behind)) st rs"
    using reportFatal_hears [OF l e] by blast
  then have heard: "heard (0, ''xml'') e = heard (0, ''xml'') behind @ map snd es" using h es by simp
  have run: "protocol_run Idle (map snd ?start) = Some (In_case 0)" by simp
  have ok: "list_all (xr_acceptable sample_options) (map snd ?start)" by (simp add: xr_acceptable_def)
  obtain x where x: "report_all (xr_call sample_env sample_options) ?start (XmlReporter []) = Inr x" "xr_inv (In_case 0) x"
    using xml.keeps [OF XmlReporter_inv run ok, of sample_env] by (auto simp: returns_def)
  obtain y where y: "report_all (console_call sample_env sample_options) ?start (ConsoleReporter False 0 []) = Inr y"
      "cr_tc y = Some sample_case" "subcasesStack y = []" "console_inv (In_case 0) y"
    by (simp add: console_test_case_start_def console_inv_In_case)
  have "\<not> m_no_output sample_case" by (simp add: sample_case_def)
  then have "report_all (xr_call sample_env sample_options) es x = Inl Out_of_bounds \<and>
      (\<exists>front back z. es = front @ back \<and> report_all (console_call sample_env sample_options) front y = Inr z \<and>
        currentSubcaseLevel z = 2 ^ 64 - 1 \<and> report_all (console_call sample_env sample_options) es y = Inl Out_of_bounds)"
    using crash_behind_subcase [OF crash_body(2) crash_beyond l e heard _ x(2) y(4,2), of sample_env sample_options]
      crash_fields(4) y(3) by (auto simp del: One_nat_def)
  then show ?thesis using e es x(1) y(1) by blast
qed

end
