(* ===== verification/Doctest_Macros.thy ===== *)
theory Doctest_Macros
  imports Doctest_Expression
begin

unbundle bit_operations_syntax

text \<open>
  The assertion macros of doctest.h: 45 of them, for three levels and fifteen kinds, and as many with a message. Each names
  the kind of its assertion and the implementation that builds it; the theorem shows that they belong together.
\<close>

section \<open>The macros\<close>

text \<open>
  What stands between the parentheses: a value, two values, a comparison of two or an expression that may throw; the
  operators and texts of their types; the type and the message of the exception that is asked for.
\<close>

record ('l, 'r) arguments =
  arg_value :: "exn + 'l"
  arg_pair :: "exn + 'l \<times> 'r"
  arg_comparison :: "comparison option"
  arg_throws :: "exn option"
  arg_operators :: "('l, 'r) operators"
  arg_bool :: "'l \<Rightarrow> bool"
  arg_left_text :: "'l \<Rightarrow> string"
  arg_right_text :: "'r \<Rightarrow> string"
  arg_type :: string
  arg_has_type :: "exn \<Rightarrow> bool"
  arg_message :: string_contains

text \<open>Where a macro is written, and the text of its expression.\<close>

record place =
  pl_file :: string
  pl_line :: int
  pl_expr :: string

definition ASSERT_IMPLEMENT_1 :: "translators \<Rightarrow> string list \<Rightarrow> place \<Rightarrow> assert_type \<Rightarrow> ('l, 'r) arguments \<Rightarrow>
    context_state \<Rightarrow> failure + body_outcome \<times> context_state" where
  "ASSERT_IMPLEMENT_1 ts status pl at a =
     (case arg_comparison a of
        None \<Rightarrow> ASSERT_truth ts status at (pl_file pl) (pl_line pl) (pl_expr pl) (arg_bool a) (arg_left_text a) (arg_value a)
      | Some cmp \<Rightarrow> ASSERT_comparison ts status at (pl_file pl) (pl_line pl) (pl_expr pl) (arg_operators a) (arg_left_text a)
          (arg_right_text a) cmp (arg_pair a))"

definition binary_macro :: "translators \<Rightarrow> string list \<Rightarrow> place \<Rightarrow> assert_type \<Rightarrow> comparison \<Rightarrow> ('l, 'r) arguments \<Rightarrow>
    context_state \<Rightarrow> failure + body_outcome \<times> context_state" where
  "binary_macro ts status pl at cmp a =
     BINARY_ASSERT ts status at (pl_file pl) (pl_line pl) (pl_expr pl) (arg_operators a) (arg_left_text a) (arg_right_text a) cmp (arg_pair a)"

definition unary_macro :: "translators \<Rightarrow> string list \<Rightarrow> place \<Rightarrow> assert_type \<Rightarrow> ('l, 'r) arguments \<Rightarrow>
    context_state \<Rightarrow> failure + body_outcome \<times> context_state" where
  "unary_macro ts status pl at a =
     UNARY_ASSERT ts status at (pl_file pl) (pl_line pl) (pl_expr pl) (arg_bool a) (arg_left_text a) (arg_value a)"

definition throws_as_macro :: "translators \<Rightarrow> string list \<Rightarrow> place \<Rightarrow> assert_type \<Rightarrow> string_contains \<Rightarrow> ('l, 'r) arguments \<Rightarrow>
    context_state \<Rightarrow> failure + body_outcome \<times> context_state" where
  "throws_as_macro ts status pl at message a =
     ASSERT_THROWS_AS ts status at (pl_file pl) (pl_line pl) (pl_expr pl) (arg_type a) message (arg_has_type a) (arg_throws a)"

definition throws_with_macro :: "translators \<Rightarrow> string list \<Rightarrow> place \<Rightarrow> assert_type \<Rightarrow> string_contains \<Rightarrow> ('l, 'r) arguments \<Rightarrow>
    context_state \<Rightarrow> failure + body_outcome \<times> context_state" where
  "throws_with_macro ts status pl at message a =
     ASSERT_THROWS_WITH ts status at (pl_file pl) (pl_line pl) (pl_expr pl) message (arg_throws a)"

definition no_message :: string_contains where
  "no_message = \<lparr>sc_string = [], isContains = False\<rparr>"

text \<open>The macro whose name is that of the level and the kind: \<open>WARN\<close>, \<open>CHECK_FALSE\<close>, \<open>REQUIRE_THROWS_WITH_AS\<close>.\<close>

fun assertion_macro :: "translators \<Rightarrow> string list \<Rightarrow> place \<Rightarrow> assert_level \<Rightarrow> assert_what \<Rightarrow> ('l, 'r) arguments \<Rightarrow>
    context_state \<Rightarrow> failure + body_outcome \<times> context_state" where
  "assertion_macro ts status pl lv Plain a = ASSERT_IMPLEMENT_1 ts status pl (DT lv Plain) a"
| "assertion_macro ts status pl lv Is_False a = ASSERT_IMPLEMENT_1 ts status pl (DT lv Is_False) a"
| "assertion_macro ts status pl lv Eq a = binary_macro ts status pl (DT lv Eq) Cmp_eq a"
| "assertion_macro ts status pl lv Ne a = binary_macro ts status pl (DT lv Ne) Cmp_ne a"
| "assertion_macro ts status pl lv Gt a = binary_macro ts status pl (DT lv Gt) Cmp_gt a"
| "assertion_macro ts status pl lv Lt a = binary_macro ts status pl (DT lv Lt) Cmp_lt a"
| "assertion_macro ts status pl lv Ge a = binary_macro ts status pl (DT lv Ge) Cmp_ge a"
| "assertion_macro ts status pl lv Le a = binary_macro ts status pl (DT lv Le) Cmp_le a"
| "assertion_macro ts status pl lv Unary a = unary_macro ts status pl (DT lv Unary) a"
| "assertion_macro ts status pl lv Unary_false a = unary_macro ts status pl (DT lv Unary_false) a"
| "assertion_macro ts status pl lv Throws a = throws_with_macro ts status pl (DT lv Throws) no_message a"
| "assertion_macro ts status pl lv Throws_as a = throws_as_macro ts status pl (DT lv Throws_as) no_message a"
| "assertion_macro ts status pl lv Throws_with a = throws_with_macro ts status pl (DT lv Throws_with) (arg_message a) a"
| "assertion_macro ts status pl lv Throws_with_as a = throws_as_macro ts status pl (DT lv Throws_with_as) (arg_message a) a"
| "assertion_macro ts status pl lv Nothrow a =
     ASSERT_NOTHROW ts status (DT lv Nothrow) (pl_file pl) (pl_line pl) (pl_expr pl) (arg_throws a)"

text \<open>The macros with \<open>_MESSAGE\<close> in their name. There are none for comparisons and single values.\<close>

definition message_macro :: "translators \<Rightarrow> string list \<Rightarrow> place \<Rightarrow> assert_level \<Rightarrow> assert_what \<Rightarrow> string \<Rightarrow> ('l, 'r) arguments \<Rightarrow>
    context_state \<Rightarrow> failure + body_outcome \<times> context_state" where
  "message_macro ts status pl lv w t a = with_info t (assertion_macro ts status pl lv w a)"

section \<open>What they assert\<close>

definition value_is :: "('a \<Rightarrow> bool) \<Rightarrow> exn + 'a \<Rightarrow> bool" where
  "value_is p v = (case v of Inl ex \<Rightarrow> False | Inr a \<Rightarrow> p a)"

definition expression_is :: "bool \<Rightarrow> ('l, 'r) arguments \<Rightarrow> bool" where
  "expression_is b a =
     (case arg_comparison a of
        None \<Rightarrow> value_is (\<lambda>l. arg_bool a l = b) (arg_value a)
      | Some cmp \<Rightarrow> value_is (\<lambda>(l, r). arg_operators a cmp l r = b) (arg_pair a))"

definition pair_is :: "comparison \<Rightarrow> ('l, 'r) arguments \<Rightarrow> bool" where
  "pair_is cmp a = value_is (\<lambda>(l, r). arg_operators a cmp l r) (arg_pair a)"

text \<open>The text of what is thrown, which is empty if nothing is.\<close>

definition text_thrown :: "translators \<Rightarrow> exn option \<Rightarrow> string" where
  "text_thrown ts thrown = (case thrown of None \<Rightarrow> [] | Some ex \<Rightarrow> translateActiveException ts ex)"

definition throws_type :: "('l, 'r) arguments \<Rightarrow> bool" where
  "throws_type a = (case arg_throws a of None \<Rightarrow> False | Some ex \<Rightarrow> arg_has_type a ex)"

definition message_fits :: "string_contains \<Rightarrow> string \<Rightarrow> bool" where
  "message_fits m t \<longleftrightarrow> (if isContains m then \<exists>u v. t = u @ sc_string m @ v else t = sc_string m)"

definition throws_message :: "translators \<Rightarrow> ('l, 'r) arguments \<Rightarrow> bool" where
  "throws_message ts a = (case arg_throws a of None \<Rightarrow> False | Some ex \<Rightarrow> message_fits (arg_message a) (translateActiveException ts ex))"

fun asserts :: "translators \<Rightarrow> assert_what \<Rightarrow> ('l, 'r) arguments \<Rightarrow> bool" where
  "asserts ts Plain a = expression_is True a"
| "asserts ts Is_False a = expression_is False a"
| "asserts ts Eq a = pair_is Cmp_eq a"
| "asserts ts Ne a = pair_is Cmp_ne a"
| "asserts ts Gt a = pair_is Cmp_gt a"
| "asserts ts Lt a = pair_is Cmp_lt a"
| "asserts ts Ge a = pair_is Cmp_ge a"
| "asserts ts Le a = pair_is Cmp_le a"
| "asserts ts Unary a = value_is (arg_bool a) (arg_value a)"
| "asserts ts Unary_false a = value_is (\<lambda>l. \<not> arg_bool a l) (arg_value a)"
| "asserts ts Throws a = (arg_throws a \<noteq> None)"
| "asserts ts Throws_as a = throws_type a"
| "asserts ts Throws_with a = throws_message ts a"
| "asserts ts Throws_with_as a = (throws_type a \<and> throws_message ts a)"
| "asserts ts Nothrow a = (arg_throws a = None)"

text \<open>
  Where the macros depart from it: an empty text, or one that is to be contained and is empty, is found in what is thrown
  though nothing is. \<open>CHECK_THROWS_WITH(f(), "")\<close> holds of an \<open>f\<close> that throws nothing.
\<close>

definition overlooked :: "assert_what \<Rightarrow> ('l, 'r) arguments \<Rightarrow> bool" where
  "overlooked w a \<longleftrightarrow> w = Throws_with \<and> arg_throws a = None \<and> sc_string (arg_message a) = []"

definition holds :: "translators \<Rightarrow> assert_what \<Rightarrow> ('l, 'r) arguments \<Rightarrow> bool" where
  "holds ts w a \<longleftrightarrow> asserts ts w a \<or> overlooked w a"

text \<open>The texts are texts of C: no NUL in them.\<close>

definition c_message :: "translators \<Rightarrow> ('l, 'r) arguments \<Rightarrow> bool" where
  "c_message ts a \<longleftrightarrow> CHR 0x00 \<notin> set (sc_string (arg_message a)) \<and> CHR 0x00 \<notin> set (text_thrown ts (arg_throws a))"

lemma holds_message:
  assumes "c_message ts a"
  shows "holds ts Throws_with a = StringContains_check (arg_message a) (text_thrown ts (arg_throws a))"
    "throws_type a \<Longrightarrow> throws_message ts a = StringContains_check (arg_message a) (text_thrown ts (arg_throws a))"
  using assms
  by (auto simp: holds_def overlooked_def throws_message_def message_fits_def text_thrown_def throws_type_def StringContains_check_def
      Contains_checkWith_iff c_message_def strcmp_eq split: option.splits)

lemma holds_others: "w \<noteq> Throws_with \<Longrightarrow> holds ts w a = asserts ts w a"
  by (simp add: holds_def overlooked_def)

section \<open>The macros assert it\<close>

lemma verdict_stable: "exception_verdict (rb\<lparr>m_failed := exception_verdict rb\<rparr>) = exception_verdict rb"
  by (simp add: exception_verdict_def)

lemma log_with_verdict:
  assumes "m_at rb = DT lv w" and "failed = exception_verdict rb"
  shows "\<exists>r. m_at r = DT lv w \<and> m_failed r = failed \<and> a_file r = a_file rb \<and> a_line r = a_line rb \<and> m_expr r = m_expr rb \<and>
    log_and_react status rb c = Inr (fst (assert_effect lv failed c), reported r c (snd (assert_effect lv failed c)))"
proof -
  let ?rb = "rb\<lparr>m_failed := exception_verdict rb\<rparr>"
  have "log_and_react status rb c = log_and_react status ?rb c"
    by (simp add: log_and_react_def ResultBuilder_log_def verdict_stable)
  moreover have "m_at ?rb = DT lv w" using assms(1) by simp
  ultimately show ?thesis
    using log_and_react_effect [of ?rb lv w status c] assms(2) verdict_stable [of rb]
    by (intro exI [of _ "with_quotes ?rb"]) (simp add: with_quotes_def)
qed

definition skipped_macro :: "assert_what \<Rightarrow> context_state \<Rightarrow> bool" where
  "skipped_macro w c \<longleftrightarrow> about_exceptions w \<and> w \<noteq> Nothrow \<and> opt_no_throw (ctx_options c)"

text \<open>What a macro comes to: an entry in the log and the reaction to it.\<close>

definition logs :: "place \<Rightarrow> assert_level \<Rightarrow> assert_what \<Rightarrow> bool \<Rightarrow> context_state \<Rightarrow> failure + body_outcome \<times> context_state \<Rightarrow> bool" where
  "logs pl lv w failed c run \<longleftrightarrow>
     (\<exists>r. m_at r = DT lv w \<and> m_failed r = failed \<and> a_file r = pl_file pl \<and> a_line r = pl_line pl \<and> m_expr r = pl_expr pl \<and>
       run = Inr (fst (assert_effect lv failed c), reported r c (snd (assert_effect lv failed c))))"

lemma logs_intro:
  assumes "m_at rb = DT lv w" and "a_file rb = pl_file pl" and "a_line rb = pl_line pl" and "m_expr rb = pl_expr pl"
    and "failed = exception_verdict rb" and "run = log_and_react status rb c"
  shows "logs pl lv w failed c run"
  using log_with_verdict [OF assms(1,5), of status c] assms(2-4,6) by (auto simp: logs_def)

lemmas builders = ResultBuilder_def AssertData_def translateException_def setResult_def Expression_compare_def Expression_result_def
  ExpressionDecomposer_def Result_def Let_def DT_what ResultBuilder_binary_assert_def ResultBuilder_unary_assert_def
  RelationalComparator_def value_is_def

lemma expression_logs:
  assumes "w \<in> {Plain, Is_False}"
  shows "logs pl lv w (\<not> expression_is (w = Plain) a) c (ASSERT_IMPLEMENT_1 ts status pl (DT lv w) a c)"
  using assms
  by (cases "arg_comparison a"; cases "arg_value a"; cases "arg_pair a"; cases w)
    (auto intro!: logs_intro [OF _ _ _ _ _ refl] simp: ASSERT_IMPLEMENT_1_def ASSERT_truth_def ASSERT_comparison_def wrap_in_try_def
      expression_is_def verdict_plain about_exceptions_def builders split: if_splits)

lemma binary_logs:
  assumes "\<not> about_exceptions w"
  shows "logs pl lv w (\<not> pair_is cmp a) c (binary_macro ts status pl (DT lv w) cmp a c)"
  using assms
  by (cases "arg_pair a") (auto intro!: logs_intro [OF _ _ _ _ _ refl] simp: binary_macro_def BINARY_ASSERT_def wrap_in_try_def
      pair_is_def verdict_plain builders split: if_splits)

lemma unary_logs:
  assumes "w \<in> {Unary, Unary_false}"
  shows "logs pl lv w (\<not> value_is (\<lambda>l. arg_bool a l = (w = Unary)) (arg_value a)) c (unary_macro ts status pl (DT lv w) a c)"
  using assms
  by (cases "arg_value a"; cases w) (auto intro!: logs_intro [OF _ _ _ _ _ refl] simp: unary_macro_def UNARY_ASSERT_def wrap_in_try_def
      verdict_plain about_exceptions_def builders split: if_splits)

lemma throws_as_logs:
  assumes "\<not> opt_no_throw (ctx_options c)" and "w \<in> {Throws_as, Throws_with_as}"
  shows "logs pl lv w (\<not> (throws_type a \<and> (w = Throws_with_as \<longrightarrow> StringContains_check message (text_thrown ts (arg_throws a))))) c
    (throws_as_macro ts status pl (DT lv w) message a c)"
  using assms
  by (cases "arg_throws a") (auto intro!: logs_intro [OF _ _ _ _ _ refl] simp: throws_as_macro_def ASSERT_THROWS_AS_def
      exception_verdict_def throws_type_def text_thrown_def builders split: if_splits)

lemma throws_with_logs:
  assumes "\<not> opt_no_throw (ctx_options c)" and "w \<in> {Throws, Throws_with}"
  shows "logs pl lv w (\<not> (if w = Throws then arg_throws a \<noteq> None else StringContains_check message (text_thrown ts (arg_throws a)))) c
    (throws_with_macro ts status pl (DT lv w) message a c)"
  using assms
  by (cases "arg_throws a") (auto intro!: logs_intro [OF _ _ _ _ _ refl] simp: throws_with_macro_def ASSERT_THROWS_WITH_def
      exception_verdict_def text_thrown_def builders split: if_splits)

lemma nothrow_logs:
  "logs pl lv Nothrow (arg_throws a \<noteq> None) c
    (ASSERT_NOTHROW ts status (DT lv Nothrow) (pl_file pl) (pl_line pl) (pl_expr pl) (arg_throws a) c)"
  by (cases "arg_throws a") (auto intro!: logs_intro [OF _ _ _ _ _ refl] simp: ASSERT_NOTHROW_def
      exception_verdict_def builders split: if_splits)

lemma macro_logs:
  assumes "\<not> skipped_macro w c" and "c_message ts a"
  shows "logs pl lv w (\<not> holds ts w a) c (assertion_macro ts status pl lv w a c)"
proof (cases w)
  case Throws
  then show ?thesis using throws_with_logs [of c Throws pl lv a no_message ts status] assms by (simp add: skipped_macro_def about_exceptions_def holds_others)
next
  case Throws_as
  then show ?thesis using throws_as_logs [of c Throws_as pl lv a no_message ts status] assms by (simp add: skipped_macro_def about_exceptions_def holds_others)
next
  case Throws_with
  then show ?thesis using throws_with_logs [of c Throws_with pl lv a "arg_message a" ts status] assms
    by (simp add: skipped_macro_def about_exceptions_def holds_message [OF assms(2)])
next
  case Throws_with_as
  have "(throws_type a \<and> StringContains_check (arg_message a) (text_thrown ts (arg_throws a))) = holds ts Throws_with_as a"
    using holds_message(2) [OF assms(2)] by (auto simp: holds_others)
  then show ?thesis using throws_as_logs [of c Throws_with_as pl lv a "arg_message a" ts status] assms Throws_with_as
    by (simp add: skipped_macro_def about_exceptions_def)
next
  case Nothrow
  then show ?thesis using nothrow_logs by (simp add: holds_others)
next
  case Unary
  then show ?thesis using unary_logs [of Unary] by (simp add: holds_others)
next
  case Unary_false
  then show ?thesis using unary_logs [of Unary_false] by (simp add: holds_others)
next
  case Plain
  then show ?thesis using expression_logs [of Plain] by (simp add: holds_others)
next
  case Is_False
  then show ?thesis using expression_logs [of Is_False] by (simp add: holds_others)
qed (simp_all add: binary_logs about_exceptions_def holds_others)

lemma macro_skipped:
  "skipped_macro w c \<Longrightarrow> assertion_macro ts status pl lv w a c = Inr (Returned, c)"
  by (cases w) (auto simp: skipped_macro_def about_exceptions_def throws_with_macro_def ASSERT_THROWS_WITH_def throws_as_macro_def
      ASSERT_THROWS_AS_def)

lemma effect_counts:
  assumes "tls_lane c < length (numAssertsCurrentTest_atomic c)" and "tls_lane c < length (numAssertsFailedCurrentTest_atomic c)"
    and "d = snd (assert_effect lv failed c)"
  shows "lanes_load (numAssertsCurrentTest_atomic d) = lanes_load (numAssertsCurrentTest_atomic c) + (if lv = Warn then 0 else 1)"
    and "lanes_load (numAssertsFailedCurrentTest_atomic d) =
      lanes_load (numAssertsFailedCurrentTest_atomic c) + (if lv = Warn \<or> \<not> failed then 0 else 1)"
    and "fst (assert_effect lv failed c) = (if failed \<and> (lv = Require \<or> lv = Check \<and> 0 <s opt_abort_after (ctx_options c) \<and>
        opt_abort_after (ctx_options c) \<le>s numAssertsFailed (run_data c) + lanes_load (numAssertsFailedCurrentTest_atomic d))
      then Test_failure else Returned)"
  using assms(1,2) lane_add(1) [of "tls_lane c"]
  by (cases lv; auto simp: assert_bits assms(3) assert_effect_def Let_def addAssert_def addFailedAssert_def throwException_def
      lane_postincrement_def checkIfShouldThrow_def)+


definition sample_arguments :: "(int, int) arguments" where
  "sample_arguments = \<lparr>arg_value = Inr 2, arg_pair = Inr (2, 1), arg_comparison = Some Cmp_lt, arg_throws = None,
     arg_operators = int_operators, arg_bool = (\<lambda>l. l \<noteq> 0), arg_left_text = toString_int, arg_right_text = toString_int,
     arg_type = ''std::exception'', arg_has_type = (\<lambda>ex. True), arg_message = \<lparr>sc_string = [], isContains = True\<rparr>\<rparr>"

definition sample_place :: place where
  "sample_place = \<lparr>pl_file = ''a.cpp'', pl_line = 9, pl_expr = ''f()''\<rparr>"


end
