(* ===== verification/Doctest_Registration.thy ===== *)
theory Doctest_Registration
  imports Doctest_Run_Properties Doctest_String
begin

text \<open>
  The registration macros of doctest.h. A translation unit is a list of declarations; the macros expand them into
  initialisations of static variables, which run before \<open>main\<close>, unit after unit in an order the language leaves open.
  Which test suite a test belongs to is found at run time, in function-local statics; the theorems show that
  it is the suite written around the test and that the order of the units does not matter.
\<close>

section \<open>Decorators\<close>

datatype decorator = Dec_name string | Dec_test_suite string | Dec_description string | Dec_skip bool
  | Dec_no_breaks bool | Dec_no_output bool | Dec_timeout double | Dec_may_fail bool | Dec_should_fail bool
  | Dec_expected_failures i32

text \<open>\<open>operator*\<close>: a text is the name, the decorators fill the member they are named after.\<close>

fun suite_decorate :: "decorator \<Rightarrow> test_suite \<Rightarrow> test_suite" where
  "suite_decorate (Dec_name inp) ts = TestSuite_name inp ts"
| "suite_decorate (Dec_test_suite x) ts = ts\<lparr>ts_test_suite := x\<rparr>"
| "suite_decorate (Dec_description x) ts = ts\<lparr>ts_description := Some x\<rparr>"
| "suite_decorate (Dec_skip x) ts = ts\<lparr>ts_skip := x\<rparr>"
| "suite_decorate (Dec_no_breaks x) ts = ts\<lparr>ts_no_breaks := x\<rparr>"
| "suite_decorate (Dec_no_output x) ts = ts\<lparr>ts_no_output := x\<rparr>"
| "suite_decorate (Dec_timeout x) ts = ts\<lparr>ts_timeout := x\<rparr>"
| "suite_decorate (Dec_may_fail x) ts = ts\<lparr>ts_may_fail := x\<rparr>"
| "suite_decorate (Dec_should_fail x) ts = ts\<lparr>ts_should_fail := x\<rparr>"
| "suite_decorate (Dec_expected_failures x) ts = ts\<lparr>ts_expected_failures := x\<rparr>"

fun case_decorate :: "decorator \<Rightarrow> test_case \<Rightarrow> test_case" where
  "case_decorate (Dec_name inp) tc = TestCase_name inp tc"
| "case_decorate (Dec_test_suite x) tc = tc\<lparr>m_test_suite := x\<rparr>"
| "case_decorate (Dec_description x) tc = tc\<lparr>m_description := Some x\<rparr>"
| "case_decorate (Dec_skip x) tc = tc\<lparr>m_skip := x\<rparr>"
| "case_decorate (Dec_no_breaks x) tc = tc\<lparr>m_no_breaks := x\<rparr>"
| "case_decorate (Dec_no_output x) tc = tc\<lparr>m_no_output := x\<rparr>"
| "case_decorate (Dec_timeout x) tc = tc\<lparr>m_timeout := x\<rparr>"
| "case_decorate (Dec_may_fail x) tc = tc\<lparr>m_may_fail := x\<rparr>"
| "case_decorate (Dec_should_fail x) tc = tc\<lparr>m_should_fail := x\<rparr>"
| "case_decorate (Dec_expected_failures x) tc = tc\<lparr>m_expected_failures := x\<rparr>"

definition suite_of :: "decorator list \<Rightarrow> test_suite" where
  "suite_of decs = fold suite_decorate decs TestSuite"

section \<open>What is initialised\<close>

text \<open>
  The scope of a declaration: outside of all blocks, or the innermost block of \<open>TEST_SUITE\<close>, whose namespace has a
  \<open>getCurrentTestSuite\<close> of its own. A block is known by its translation unit and the counter in its anonymous name.
\<close>

type_synonym scope = "((nat \<times> nat) \<times> decorator list) option"

text \<open>The initialisations of the dummy variables of the macros; a test has its file, line, function, type and template id.\<close>

datatype initializer =
    Init_test scope string u32 nat string int "decorator list"
  | Init_suite "decorator list"
  | Init_translator nat "exn \<Rightarrow> string option"
  | Init_reporter string int bool

definition REGISTER_FUNCTION :: "scope \<Rightarrow> string \<Rightarrow> u32 \<Rightarrow> nat \<Rightarrow> decorator list \<Rightarrow> initializer" where
  "REGISTER_FUNCTION sc src line f decs = Init_test sc src line f [] (-1) decs"

text \<open>
  The constructor of \<open>iter\<close>, which registers a template for each of the types. The suite is that of the place where the
  template is defined. The number of an instance does not overflow below line 2,147,483.
\<close>

fun iter :: "scope \<Rightarrow> decorator list \<Rightarrow> (string \<Rightarrow> nat) \<Rightarrow> string \<Rightarrow> u32 \<Rightarrow> int \<Rightarrow> string list \<Rightarrow> initializer list" where
  "iter sc dec func src line index [] = []"
| "iter sc dec func src line index (ty # rest) =
     Init_test sc src line (func ty) ty (sint line * 1000 + index) dec # iter sc dec func src line (index + 1) rest"

text \<open>
  The text of a type: what the compiler puts behind the equals sign of the name of \<open>toString<T>()\<close>, less the bracket.
\<close>

definition type_to_string :: "string \<Rightarrow> failure + dstring" where
  "type_to_string pretty_function =
     res_bind (String_literal pretty_function) (\<lambda>ret.
     res_bind (String_find ret (CHR ''='') 0) (\<lambda>found.
     let begin_pos = found + 2 in
     res_bind (String_size ret) (\<lambda>n. String_substr ret begin_pos (n - begin_pos - 1))))"

section \<open>Declarations\<close>

text \<open>
  A function is a number; that of a fixture makes an object of the class and calls its method. A template is a function
  for every type, which is known by its text. \<open>Test_case_template\<close> defines a template and instantiates it at once.
\<close>

datatype decl =
    Test_case string u32 nat "decorator list"
  | Test_case_class string u32 nat "decorator list"
  | Test_case_fixture string u32 nat "decorator list"
  | Test_suite_block nat "decorator list" "decl list"
  | Test_suite_begin "decorator list"
  | Test_suite_end
  | Template_define string "decorator list" "string \<Rightarrow> nat"
  | Template_invoke string string u32 "string list"
  | Test_case_template string u32 "string \<Rightarrow> nat" "string list" "decorator list"
  | Exception_translator_decl nat "exn \<Rightarrow> string option"
  | Reporter_decl string int
  | Listener_decl string int

text \<open>The templates a declaration sees, the last one first.\<close>

type_synonym templates = "(string \<times> scope \<times> decorator list \<times> (string \<Rightarrow> nat)) list"

definition TEMPLATE_INSTANTIATE :: "templates \<Rightarrow> string \<Rightarrow> string \<Rightarrow> u32 \<Rightarrow> string list \<Rightarrow> initializer list option" where
  "TEMPLATE_INSTANTIATE env tid src line tys =
     map_option (\<lambda>(sc, dec, func). iter sc dec func src line 0 tys) (map_of env tid)"

definition TEST_SUITE_BEGIN :: "decorator list \<Rightarrow> initializer" where
  "TEST_SUITE_BEGIN decs = Init_suite decs"

definition TEST_SUITE_END :: initializer where
  "TEST_SUITE_END = Init_suite [Dec_name []]"

text \<open>
  The expansion of the declarations of a unit, in their order. A template that is not in scope does not compile.
\<close>

fun expand :: "nat \<Rightarrow> scope \<Rightarrow> templates \<Rightarrow> decl list \<Rightarrow> initializer list option" where
  "expand u sc env [] = Some []"
| "expand u sc env (Test_suite_block n decs body # rest) =
     (case expand u (Some ((u, n), decs)) env body of
        None \<Rightarrow> None
      | Some is \<Rightarrow> map_option (\<lambda>js. is @ js) (expand u sc env rest))"
| "expand u sc env (Template_define tid dec func # rest) = expand u sc ((tid, sc, dec, func) # env) rest"
| "expand u sc env (Template_invoke tid src line tys # rest) =
     (case TEMPLATE_INSTANTIATE env tid src line tys of
        None \<Rightarrow> None
      | Some is \<Rightarrow> map_option (\<lambda>js. is @ js) (expand u sc env rest))"
| "expand u sc env (Test_case_template src line func tys dec # rest) =
     map_option (\<lambda>js. iter sc dec func src line 0 tys @ js) (expand u sc env rest)"
| "expand u sc env (Test_case src line f decs # rest) =
     map_option (\<lambda>js. REGISTER_FUNCTION sc src line f decs # js) (expand u sc env rest)"
| "expand u sc env (Test_case_class src line f decs # rest) =
     map_option (\<lambda>js. REGISTER_FUNCTION sc src line f decs # js) (expand u sc env rest)"
| "expand u sc env (Test_case_fixture src line f decs # rest) =
     map_option (\<lambda>js. REGISTER_FUNCTION sc src line f decs # js) (expand u sc env rest)"
| "expand u sc env (Test_suite_begin decs # rest) = map_option (\<lambda>js. TEST_SUITE_BEGIN decs # js) (expand u sc env rest)"
| "expand u sc env (Test_suite_end # rest) = map_option (\<lambda>js. TEST_SUITE_END # js) (expand u sc env rest)"
| "expand u sc env (Exception_translator_decl ty f # rest) = map_option (\<lambda>js. Init_translator ty f # js) (expand u sc env rest)"
| "expand u sc env (Reporter_decl name prio # rest) = map_option (\<lambda>js. Init_reporter name prio True # js) (expand u sc env rest)"
| "expand u sc env (Listener_decl name prio # rest) = map_option (\<lambda>js. Init_reporter name prio False # js) (expand u sc env rest)"

text \<open>The header ends with a \<open>TEST_SUITE_END\<close>, which every unit that includes it begins with.\<close>

definition unit_initializers :: "nat \<Rightarrow> decl list \<Rightarrow> initializer list option" where
  "unit_initializers u ds = expand u None [] (Test_suite_end # ds)"

section \<open>Static initialisation\<close>

text \<open>
  The statics: the current suite outside of blocks, the suites of the blocks once they are initialised, the tests, the
  exception translators and the reporters and listeners.
\<close>

record registry =
  rg_suite :: test_suite
  rg_blocks :: "nat \<times> nat \<Rightarrow> test_suite option"
  rg_tests :: "test_case list"
  rg_translators :: translators
  rg_reporters :: "reporter_key list \<times> reporter_key list"

definition registry_new :: registry where
  "registry_new = \<lparr>rg_suite = TestSuite, rg_blocks = (\<lambda>_. None), rg_tests = [], rg_translators = [], rg_reporters = ([], [])\<rparr>"

text \<open>\<open>getCurrentTestSuite\<close> of the program, or of a block, which decorates its suite at the first call.\<close>

definition getCurrentTestSuite :: "scope \<Rightarrow> registry \<Rightarrow> test_suite \<times> registry" where
  "getCurrentTestSuite sc rg =
     (case sc of
        None \<Rightarrow> (rg_suite rg, rg)
      | Some (key, decs) \<Rightarrow>
          (case rg_blocks rg key of
             Some suite \<Rightarrow> (suite, rg)
           | None \<Rightarrow> let suite = fold suite_decorate decs TestSuite
                in (suite, rg\<lparr>rg_blocks := (rg_blocks rg)(key \<mapsto> suite)\<rparr>)))"

definition setTestSuite :: "test_suite \<Rightarrow> registry \<Rightarrow> registry" where
  "setTestSuite ts rg = rg\<lparr>rg_suite := ts\<rparr>"

text \<open>
  The translator object is a static of a function template: there is one for each type, made of the first function.
\<close>

definition registerExceptionTranslator :: "nat \<Rightarrow> (exn \<Rightarrow> string option) \<Rightarrow> translators \<Rightarrow> translators" where
  "registerExceptionTranslator ty f ts =
     (case map_of ts ty of
        None \<Rightarrow> registerExceptionTranslatorImpl (ty, f) ts
      | Some first \<Rightarrow> registerExceptionTranslatorImpl (ty, first) ts)"

fun initialize :: "initializer \<Rightarrow> registry \<Rightarrow> registry" where
  "initialize (Init_test sc src line f ty tid decs) rg =
     (let (suite, rg) = getCurrentTestSuite sc rg
      in rg\<lparr>rg_tests := regTest (fold case_decorate decs (TestCase f src line suite ty tid)) (rg_tests rg)\<rparr>)"
| "initialize (Init_suite decs) rg = setTestSuite (fold suite_decorate decs TestSuite) rg"
| "initialize (Init_translator ty f) rg = rg\<lparr>rg_translators := registerExceptionTranslator ty f (rg_translators rg)\<rparr>"
| "initialize (Init_reporter name prio isReporter) rg =
     rg\<lparr>rg_reporters := registerReporterImpl name prio isReporter (rg_reporters rg)\<rparr>"

definition static_init :: "initializer list \<Rightarrow> registry \<Rightarrow> registry" where
  "static_init is rg = fold initialize is rg"

section \<open>The suite written around a test\<close>

text \<open>The tests of a list of initialisations, with the suites read off the text: no statics.\<close>

definition suite_here :: "test_suite \<Rightarrow> scope \<Rightarrow> test_suite" where
  "suite_here cur sc = (case sc of None \<Rightarrow> cur | Some (key, decs) \<Rightarrow> suite_of decs)"

fun tests_of :: "test_suite \<Rightarrow> initializer list \<Rightarrow> test_case list" where
  "tests_of cur [] = []"
| "tests_of cur (Init_test sc src line f ty tid decs # is) =
     fold case_decorate decs (TestCase f src line (suite_here cur sc) ty tid) # tests_of cur is"
| "tests_of cur (Init_suite decs # is) = tests_of (suite_of decs) is"
| "tests_of cur (Init_translator ty f # is) = tests_of cur is"
| "tests_of cur (Init_reporter name prio r # is) = tests_of cur is"

fun suite_after :: "test_suite \<Rightarrow> initializer list \<Rightarrow> test_suite" where
  "suite_after cur [] = cur"
| "suite_after cur (Init_suite decs # is) = suite_after (suite_of decs) is"
| "suite_after cur (i # is) = suite_after cur is"

lemma tests_of_append: "tests_of cur (is @ js) = tests_of cur is @ tests_of (suite_after cur is) js"
  by (induction cur "is" rule: tests_of.induct) simp_all

text \<open>The blocks the tests are in.\<close>

fun scopes :: "initializer list \<Rightarrow> ((nat \<times> nat) \<times> decorator list) set" where
  "scopes [] = {}"
| "scopes (Init_test sc src line f ty tid decs # is) = set_option sc \<union> scopes is"
| "scopes (i # is) = scopes is"

lemma scopes_append [simp]: "scopes (is @ js) = scopes is \<union> scopes js"
  by (induction "is" rule: scopes.induct) auto

text \<open>The statics agree with the text as long as no two blocks share their static.\<close>

definition blocks_agree :: "((nat \<times> nat) \<times> decorator list) set \<Rightarrow> registry \<Rightarrow> bool" where
  "blocks_agree B rg \<longleftrightarrow> (\<forall>key decs. (key, decs) \<in> B \<longrightarrow> rg_blocks rg key \<in> {None, Some (suite_of decs)})"

lemma getCurrentTestSuite_agrees:
  assumes "blocks_agree B rg" and "single_valued B" and "set_option sc \<subseteq> B"
  shows "\<exists>rg'. getCurrentTestSuite sc rg = (suite_here (rg_suite rg) sc, rg') \<and> blocks_agree B rg' \<and>
    rg_suite rg' = rg_suite rg \<and> rg_tests rg' = rg_tests rg"
proof (cases sc)
  case None
  then show ?thesis using assms(1) by (simp add: getCurrentTestSuite_def suite_here_def)
next
  case (Some b)
  obtain key decs where b: "b = (key, decs)" by (cases b)
  have mem: "(key, decs) \<in> B" using assms(3) Some b by simp
  then have "rg_blocks rg key \<in> {None, Some (suite_of decs)}"
    using assms(1) unfolding blocks_agree_def by blast
  then consider "rg_blocks rg key = None" | "rg_blocks rg key = Some (suite_of decs)" by (auto simp del: not_None_eq)
  then show ?thesis
  proof cases
    case 1
    have "blocks_agree B (rg\<lparr>rg_blocks := (rg_blocks rg)(key \<mapsto> suite_of decs)\<rparr>)"
      using assms(1) single_valuedD [OF assms(2) mem] by (auto simp: blocks_agree_def)
    then show ?thesis using 1 Some b by (simp add: getCurrentTestSuite_def suite_here_def suite_of_def Let_def)
  next
    case 2
    then show ?thesis using assms(1) Some b by (simp add: getCurrentTestSuite_def suite_here_def)
  qed
qed

lemma static_init_tests:
  assumes "blocks_agree B rg" and "single_valued B" and "scopes is \<subseteq> B"
  shows "rg_tests (static_init is rg) = fold regTest (tests_of (rg_suite rg) is) (rg_tests rg)"
  using assms(1,3) unfolding static_init_def
proof (induction "is" arbitrary: rg)
  case (Cons i "is")
  show ?case
  proof (cases i)
    case (Init_test sc src line f ty tid decs)
    then obtain rg' where g: "getCurrentTestSuite sc rg = (suite_here (rg_suite rg) sc, rg')" "blocks_agree B rg'"
        "rg_suite rg' = rg_suite rg" "rg_tests rg' = rg_tests rg"
      using getCurrentTestSuite_agrees [OF Cons.prems(1) assms(2), of sc] Cons.prems(2) by auto
    define rg2 where "rg2 = initialize i rg"
    have rg2: "blocks_agree B rg2" "rg_suite rg2 = rg_suite rg"
        "rg_tests rg2 = regTest (fold case_decorate decs (TestCase f src line (suite_here (rg_suite rg) sc) ty tid)) (rg_tests rg)"
      using g by (simp_all add: rg2_def Init_test blocks_agree_def)
    then show ?thesis using Cons.IH [OF rg2(1)] Cons.prems(2) Init_test by (simp add: rg2_def [unfolded Init_test, symmetric] del: initialize.simps)
  next
    case (Init_suite decs)
    have "blocks_agree B (rg\<lparr>rg_suite := suite_of decs\<rparr>)" using Cons.prems(1) by (simp add: blocks_agree_def)
    from Cons.IH [OF this] show ?thesis using Cons.prems(2) Init_suite by (simp add: setTestSuite_def suite_of_def)
  next
    case (Init_translator ty f)
    have "blocks_agree B (initialize i rg)" using Cons.prems(1) by (simp add: blocks_agree_def Init_translator)
    from Cons.IH [OF this] show ?thesis using Cons.prems(2) by (simp add: Init_translator)
  next
    case (Init_reporter name prio r)
    have "blocks_agree B (initialize i rg)" using Cons.prems(1) by (simp add: blocks_agree_def Init_reporter)
    from Cons.IH [OF this] show ?thesis using Cons.prems(2) by (simp add: Init_reporter)
  qed
qed simp

section \<open>The blocks of a unit\<close>

fun block_table :: "decl list \<Rightarrow> (nat \<times> decorator list) list" where
  "block_table [] = []"
| "block_table (Test_suite_block n decs body # rest) = (n, decs) # block_table body @ block_table rest"
| "block_table (d # rest) = block_table rest"

definition unit_blocks :: "nat \<Rightarrow> decl list \<Rightarrow> ((nat \<times> nat) \<times> decorator list) set" where
  "unit_blocks u ds = (\<lambda>(n, decs). ((u, n), decs)) ` set (block_table ds)"

definition env_scopes :: "templates \<Rightarrow> ((nat \<times> nat) \<times> decorator list) set" where
  "env_scopes env = (\<Union>(tid, sc, dec, func) \<in> set env. set_option sc)"

lemma scopes_iter: "scopes (iter sc dec func src line index tys) \<subseteq> set_option sc"
  by (induction tys arbitrary: index) auto

lemma scopes_instantiate: "TEMPLATE_INSTANTIATE env tid src line tys = Some is \<Longrightarrow> scopes is \<subseteq> env_scopes env"
  using scopes_iter by (fastforce simp: TEMPLATE_INSTANTIATE_def env_scopes_def dest: map_of_SomeD)

lemma env_scopes_Cons [simp]: "env_scopes ((tid, sc, dec, func) # env) = set_option sc \<union> env_scopes env"
  by (simp add: env_scopes_def)

lemma unit_blocks_simps [simp]:
  "unit_blocks u [] = {}"
  "unit_blocks u (Test_suite_block n decs body # rest) = insert ((u, n), decs) (unit_blocks u body \<union> unit_blocks u rest)"
  by (auto simp: unit_blocks_def)

lemma unit_blocks_mono: "unit_blocks u rest \<subseteq> unit_blocks u (d # rest)"
  by (cases d) (auto simp: unit_blocks_def)

lemma expand_scopes:
  "expand u sc env ds = Some is \<Longrightarrow> scopes is \<subseteq> set_option sc \<union> env_scopes env \<union> unit_blocks u ds"
proof (induction u sc env ds arbitrary: "is" rule: expand.induct)
  case (2 u sc env n decs body rest)
  then show ?case by (fastforce split: option.splits)
next
  case (3 u sc env tid dec func rest)
  then show ?case using unit_blocks_mono [of u rest "Template_define tid dec func"] by fastforce
next
  case (4 u sc env tid src line tys rest)
  then show ?case
    using scopes_instantiate [of env tid src line tys] unit_blocks_mono [of u rest "Template_invoke tid src line tys"]
    by (fastforce split: option.splits)
next
  case (5 u sc env src line func tys dec rest)
  then show ?case
    using scopes_iter [of sc dec func src line 0 tys] unit_blocks_mono [of u rest "Test_case_template src line func tys dec"]
    by fastforce
qed (fastforce simp: REGISTER_FUNCTION_def TEST_SUITE_BEGIN_def TEST_SUITE_END_def unit_blocks_def)+

lemma single_valued_blocks:
  assumes "distinct (map fst (block_table ds))"
  shows "single_valued (unit_blocks u ds)"
  using assms by (auto simp: unit_blocks_def single_valued_def dest: eq_key_imp_eq_value)

section \<open>The set of tests\<close>

text \<open>\<open>operator<\<close> of test cases is the lexicographic order of line, name, file and template.\<close>

definition reg_key :: "test_case \<Rightarrow> u32 \<times> string \<times> string \<times> int" where
  "reg_key tc = (m_line tc, m_name tc, m_file tc, m_template_id tc)"

lemma TestCase_less_key:
  assumes "c_texts a" and "c_texts b"
  shows "TestCase_less a b \<longleftrightarrow> reg_key a < reg_key b"
proof -
  have "strcmp (m_name a) (m_name b) < 0 \<longleftrightarrow> m_name a < m_name b" "strcmp (m_name a) (m_name b) = 0 \<longleftrightarrow> m_name a = m_name b"
    "strcmp (m_file a) (m_file b) < 0 \<longleftrightarrow> m_file a < m_file b" "strcmp (m_file a) (m_file b) = 0 \<longleftrightarrow> m_file a = m_file b"
    using assms strcmp_less strcmp_eq by (simp_all add: c_texts_def no_nul_def)
  then show ?thesis
    unfolding TestCase_less_def reg_key_def lex_pair Let_def by auto
qed

lemma insert_ordered_key:
  fixes key :: "'a \<Rightarrow> 'k :: linorder"
  assumes "\<And>a b. a \<in> insert x (set xs) \<Longrightarrow> b \<in> insert x (set xs) \<Longrightarrow> lt a b \<longleftrightarrow> key a < key b"
    and "sorted_wrt (\<lambda>a b. key a < key b) xs"
  shows "sorted_wrt (\<lambda>a b. key a < key b) (insert_ordered lt x xs)"
    and "set (insert_ordered lt x xs) = (if key x \<in> key ` set xs then set xs else insert x (set xs))"
proof -
  have "sorted_wrt (\<lambda>a b. key a < key b) (insert_ordered lt x xs) \<and>
      set (insert_ordered lt x xs) = (if key x \<in> key ` set xs then set xs else insert x (set xs))"
    using assms
  proof (induction xs)
    case (Cons y ys)
    have "lt a b \<longleftrightarrow> key a < key b" if "a \<in> insert x (set ys)" "b \<in> insert x (set ys)" for a b
      using that Cons.prems(1) by auto
    from Cons.IH [OF this] have IH: "sorted_wrt (\<lambda>a b. key a < key b) (insert_ordered lt x ys)"
        "set (insert_ordered lt x ys) = (if key x \<in> key ` set ys then set ys else insert x (set ys))"
      using Cons.prems(2) by simp_all
    have lt: "lt x y \<longleftrightarrow> key x < key y" "lt y x \<longleftrightarrow> key y < key x" using Cons.prems(1) by simp_all
    consider "key x < key y" | "key y < key x" | "key x = key y" by fastforce
    then show ?case using IH lt Cons.prems(2) by cases (auto split: if_splits)
  qed simp
  then show "sorted_wrt (\<lambda>a b. key a < key b) (insert_ordered lt x xs)"
    and "set (insert_ordered lt x xs) = (if key x \<in> key ` set xs then set xs else insert x (set xs))" by auto
qed

text \<open>A test with a template has its full name in both places, so copying it into the set changes nothing.\<close>

definition copied :: "test_case \<Rightarrow> bool" where
  "copied tc \<longleftrightarrow> (m_template_id tc \<noteq> -1 \<longrightarrow> m_name tc = m_full_name tc)"

lemma copied_assign: "copied tc \<Longrightarrow> TestCase_assign tc = tc"
  by (cases tc) (simp add: copied_def TestCase_assign_def)

lemma copied_decorate: "copied tc \<Longrightarrow> copied (case_decorate d tc)"
  by (cases d) (simp_all add: copied_def TestCase_name_def Let_def)

lemma copied_built: "copied (fold case_decorate decs (TestCase f src line ts ty tid))"
proof -
  have "copied tc \<Longrightarrow> copied (fold case_decorate decs tc)" for tc
    by (induction decs arbitrary: tc) (simp_all add: copied_decorate)
  then show ?thesis by (simp add: copied_def TestCase_def)
qed

lemma tests_of_copied: "tc \<in> set (tests_of cur is) \<Longrightarrow> copied tc"
  by (induction cur "is" rule: tests_of.induct) (auto simp: copied_built)

lemma fold_regTest:
  assumes "\<forall>tc \<in> set ts \<union> set xs. c_texts tc \<and> copied tc" and "sorted_wrt (\<lambda>a b. reg_key a < reg_key b) xs"
    and "inj_on reg_key (set ts \<union> set xs)"
  shows "sorted_wrt (\<lambda>a b. reg_key a < reg_key b) (fold regTest ts xs) \<and> set (fold regTest ts xs) = set ts \<union> set xs"
  using assms
proof (induction ts arbitrary: xs)
  case (Cons t ts)
  have reg: "regTest t xs = insert_ordered TestCase_less t xs"
    using Cons.prems(1) by (simp add: regTest_def copied_assign)
  have less: "TestCase_less a b \<longleftrightarrow> reg_key a < reg_key b" if "a \<in> insert t (set xs)" "b \<in> insert t (set xs)" for a b
    using that Cons.prems(1) by (auto intro!: TestCase_less_key)
  have keyed: "reg_key t \<in> reg_key ` set xs \<longleftrightarrow> t \<in> set xs"
    using Cons.prems(3) by (auto simp: inj_on_def)
  have step: "sorted_wrt (\<lambda>a b. reg_key a < reg_key b) (regTest t xs)" "set (regTest t xs) = insert t (set xs)"
    using insert_ordered_key [OF less Cons.prems(2)] keyed by (auto simp: reg)
  have "set ts \<union> set (regTest t xs) = set (t # ts) \<union> set xs" using step(2) by auto
  then show ?case using Cons.IH [of "regTest t xs"] Cons.prems(1,3) step(1) by simp
qed simp

section \<open>A program\<close>

text \<open>The units of a program, each with its number; the initialisations of all of them in this order.\<close>

fun program_initializers :: "(nat \<times> decl list) list \<Rightarrow> initializer list option" where
  "program_initializers [] = Some []"
| "program_initializers ((u, ds) # us) =
     (case unit_initializers u ds of
        None \<Rightarrow> None
      | Some is \<Rightarrow> map_option (\<lambda>js. is @ js) (program_initializers us))"

text \<open>The tests of a unit by themselves.\<close>

definition unit_tests :: "nat \<times> decl list \<Rightarrow> test_case list" where
  "unit_tests = (\<lambda>(u, ds). case unit_initializers u ds of None \<Rightarrow> [] | Some is \<Rightarrow> tests_of TestSuite is)"

lemma tests_of_unit:
  assumes "unit_initializers u ds = Some is"
  shows "tests_of cur is = unit_tests (u, ds)"
proof -
  obtain js where "is = TEST_SUITE_END # js" using assms by (auto simp: unit_initializers_def)
  then show ?thesis using assms by (simp add: unit_tests_def TEST_SUITE_END_def)
qed

lemma tests_of_program:
  "program_initializers us = Some is \<Longrightarrow> tests_of cur is = concat (map unit_tests us)"
  by (induction us arbitrary: cur "is")
    (auto simp: tests_of_append tests_of_unit split: option.splits)

definition program_blocks :: "(nat \<times> decl list) list \<Rightarrow> ((nat \<times> nat) \<times> decorator list) set" where
  "program_blocks us = (\<Union>(u, ds) \<in> set us. unit_blocks u ds)"

lemma scopes_unit: "unit_initializers u ds = Some is \<Longrightarrow> scopes is \<subseteq> unit_blocks u ds"
  using expand_scopes [of u None "[]" "Test_suite_end # ds" "is"]
  by (simp add: unit_initializers_def env_scopes_def unit_blocks_def)

lemma scopes_program: "program_initializers us = Some is \<Longrightarrow> scopes is \<subseteq> program_blocks us"
proof (induction us arbitrary: "is")
  case (Cons x us)
  obtain u ds where x: "x = (u, ds)" by (cases x)
  obtain js ks where "unit_initializers u ds = Some js" "program_initializers us = Some ks" "is = js @ ks"
    using Cons.prems x by (auto split: option.splits)
  moreover have "program_blocks (x # us) = unit_blocks u ds \<union> program_blocks us" by (simp add: program_blocks_def x)
  ultimately show ?case using scopes_unit [of u ds js] Cons.IH [of ks] by auto
qed (simp add: program_blocks_def)

text \<open>A program as the compiler names its blocks: no two of a unit have the same counter.\<close>

definition well_numbered :: "(nat \<times> decl list) list \<Rightarrow> bool" where
  "well_numbered us \<longleftrightarrow> distinct (map fst us) \<and> (\<forall>(u, ds) \<in> set us. distinct (map fst (block_table ds)))"

lemma unit_blocks_unit: "((v, n), decs) \<in> unit_blocks u ds \<Longrightarrow> v = u"
  by (auto simp: unit_blocks_def)

lemma single_valued_program:
  assumes "well_numbered us"
  shows "single_valued (program_blocks us)"
proof (rule single_valuedI)
  fix key d1 d2
  assume mem: "(key, d1) \<in> program_blocks us" "(key, d2) \<in> program_blocks us"
  obtain v n where key: "key = (v, n)" by (cases key)
  obtain u1 ds1 u2 ds2 where one: "(u1, ds1) \<in> set us" "(key, d1) \<in> unit_blocks u1 ds1"
    and two: "(u2, ds2) \<in> set us" "(key, d2) \<in> unit_blocks u2 ds2"
    using mem by (auto simp: program_blocks_def)
  have "u1 = v" "u2 = v" using unit_blocks_unit one(2) two(2) key by blast+
  then have "ds1 = ds2" using one(1) two(1) assms by (auto simp: well_numbered_def dest: eq_key_imp_eq_value)
  moreover have "distinct (map fst (block_table ds1))" using assms one(1) by (auto simp: well_numbered_def)
  ultimately show "d1 = d2"
    using single_valued_blocks one(2) two(2) \<open>u1 = v\<close> \<open>u2 = v\<close> by (metis single_valuedD)
qed

text \<open>Tests that the set can tell apart, unless they are the same test in two units, as from a header.\<close>

definition tests_distinguishable :: "(nat \<times> decl list) list \<Rightarrow> bool" where
  "tests_distinguishable us \<longleftrightarrow>
     (\<forall>tc \<in> set (concat (map unit_tests us)). c_texts tc) \<and> inj_on reg_key (set (concat (map unit_tests us)))"

lemma registered_tests:
  assumes "program_initializers us = Some is" and "well_numbered us" and "tests_distinguishable us"
  shows "sorted_wrt (\<lambda>a b. reg_key a < reg_key b) (rg_tests (static_init is registry_new)) \<and>
    set (rg_tests (static_init is registry_new)) = (\<Union>u \<in> set us. set (unit_tests u))"
proof -
  let ?ts = "concat (map unit_tests us)"
  have blank: "blocks_agree (program_blocks us) registry_new" by (simp add: blocks_agree_def registry_new_def)
  have tests: "rg_tests (static_init is registry_new) = fold regTest ?ts []"
    using static_init_tests [OF blank single_valued_program [OF assms(2)] scopes_program [OF assms(1)]] tests_of_program [OF assms(1)]
    by (simp add: registry_new_def)
  have "\<forall>tc \<in> set ?ts. c_texts tc \<and> copied tc"
    using assms(3) tests_of_copied tests_of_program [OF assms(1), of TestSuite] by (metis tests_distinguishable_def)
  then show ?thesis
    using fold_regTest [of ?ts "[]"] assms(3) by (simp add: tests tests_distinguishable_def)
qed

lemma sorted_by_key_unique:
  fixes key :: "'a \<Rightarrow> 'k :: linorder"
  assumes "sorted_wrt (\<lambda>a b. key a < key b) xs" and "sorted_wrt (\<lambda>a b. key a < key b) ys" and "set xs = set ys"
  shows "xs = ys"
proof -
  have keys: "sorted_wrt (<) (map key xs)" "sorted_wrt (<) (map key ys)" using assms(1,2) by (simp_all add: sorted_wrt_map)
  then have "map key xs = map key ys"
    using strict_sorted_equal [of "map key xs" "map key ys"] assms(3) by simp
  moreover have "inj_on key (set xs \<union> set ys)"
    using keys(1) assms(3) by (simp add: strict_sorted_iff distinct_map)
  ultimately show ?thesis by (rule inj_on_map_eq_map [THEN iffD1, rotated])
qed

lemma program_initializers_compile:
  "(\<exists>is. program_initializers us = Some is) \<longleftrightarrow> (\<forall>(u, ds) \<in> set us. unit_initializers u ds \<noteq> None)"
  by (induction us) (auto split: option.splits)

text \<open>
  (C26) Before \<open>main\<close> every test that is written down is registered, once: the set holds the tests of the units, each with
  the suite of the block it stands in, or else the one begun last in its unit, and with its decorators applied on top; a
  test that several units share, as one from a header does, is in it once. The set is in the order of the lines.
\<close>

theorem every_test_registered_once:
  assumes "program_initializers us = Some is" and "well_numbered us" and "tests_distinguishable us"
  shows "set (rg_tests (static_init is registry_new)) = (\<Union>u \<in> set us. set (unit_tests u)) \<and>
    distinct (rg_tests (static_init is registry_new)) \<and>
    sorted_wrt TestCase_less (rg_tests (static_init is registry_new))"
proof -
  let ?r = "rg_tests (static_init is registry_new)"
  note reg = registered_tests [OF assms]
  have texts: "\<forall>tc \<in> set ?r. c_texts tc" using reg assms(3) by (auto simp: tests_distinguishable_def)
  have "sorted_wrt (<) (map reg_key ?r)" using reg by (simp add: sorted_wrt_map)
  then have "distinct ?r" by (simp add: strict_sorted_iff distinct_map)
  moreover have "sorted_wrt TestCase_less ?r"
    using texts by (intro sorted_wrt_mono_rel [OF _ conjunct1 [OF reg]]) (simp add: TestCase_less_key)
  ultimately show ?thesis using reg by blast
qed

text \<open>
  The order in which the translation units are initialised, which the language leaves open, does not matter for the
  tests: whatever suite a unit leaves behind, the next one begins without.
\<close>

theorem order_of_units_irrelevant:
  assumes "program_initializers us = Some is" and "well_numbered us" and "tests_distinguishable us" and "mset vs = mset us"
  shows "\<exists>js. program_initializers vs = Some js \<and>
    rg_tests (static_init js registry_new) = rg_tests (static_init is registry_new)"
proof -
  have same: "set vs = set us" using assms(4) by (rule mset_eq_setD)
  obtain js where js: "program_initializers vs = Some js"
    using program_initializers_compile [of vs] program_initializers_compile [of us] assms(1) same by auto
  have "distinct (map fst vs) = distinct (map fst us)"
    using assms(4) by (metis mset_eq_imp_distinct_iff mset_map)
  then have nums: "well_numbered vs" using assms(2) same by (simp add: well_numbered_def)
  have "tests_distinguishable vs" using assms(3) same by (simp add: tests_distinguishable_def)
  then have "rg_tests (static_init js registry_new) = rg_tests (static_init is registry_new)"
    using registered_tests [OF js nums] registered_tests [OF assms(1-3)] same
    by (intro sorted_by_key_unique [where key = reg_key]) simp_all
  with js show ?thesis by blast
qed

section \<open>Translators, templates and suites that are begun inside a block\<close>

text \<open>The first translator for a type is the one that is used; a second one for the type is ignored.\<close>

lemma first_translator_wins:
  "map_of (registerExceptionTranslator ty f ts) ty = (case map_of ts ty of None \<Rightarrow> Some f | Some first \<Rightarrow> Some first)"
proof (cases "map_of ts ty")
  case None
  then have "\<not> list_ex (\<lambda>t. fst t = ty) ts" by (auto simp: list_ex_iff map_of_eq_None_iff)
  then show ?thesis using None by (simp add: registerExceptionTranslator_def registerExceptionTranslatorImpl_def map_add_def)
next
  case (Some first)
  then have "list_ex (\<lambda>t. fst t = ty) ts" by (force simp: list_ex_iff dest: map_of_SomeD)
  then show ?thesis using Some by (simp add: registerExceptionTranslator_def registerExceptionTranslatorImpl_def)
qed

text \<open>With the names \<open>gcc\<close> and \<open>clang\<close> give the function, the text of the type is found between the sign and the bracket.\<close>

lemma literal_represents:
  "c_str t = t \<Longrightarrow> length t < 2 ^ 32 - 1 \<Longrightarrow> returns (String_literal t) (\<lambda>d. represents d t)"
  using String_from_represents [of "length t" 0 "map Some (t @ [CHR 0x00])" t] by (simp add: String_literal_def)

lemma find_behind: "find P xs = None \<Longrightarrow> P y \<Longrightarrow> find P (xs @ y # ys) = Some y"
  by (induction xs) (auto split: if_splits)

lemma type_text:
  assumes "CHR ''='' \<notin> set pre" and "no_nul pre" and "no_nul ty" and "length pre + length ty + 3 < 2 ^ 32 - 1"
  shows "returns (type_to_string (pre @ ''= '' @ ty @ '']'')) (\<lambda>d. represents d ty)"
proof -
  let ?s = "pre @ ''= '' @ ty @ '']''"
  have len: "length ?s = length pre + length ty + 3" by simp
  have clean: "c_str ?s = ?s" using assms(2,3) by (intro c_str_id) (auto simp: no_nul_def)
  have "returns (String_literal ?s) (\<lambda>d. represents d ?s)"
    using literal_represents [OF clean] assms(4) by simp
  then obtain d where d: "String_literal ?s = Inr d" "represents d ?s" by (rule returnsE)
  have "[0..<length ?s] = [0..<length pre] @ length pre # [Suc (length pre)..<length ?s]"
    unfolding len using upt_add_eq_append [of 0 "length pre" "length ty + 3"] upt_conv_Cons [of "length pre" "length pre + length ty + 3"]
    by (simp only: add.assoc)
  moreover have "find (\<lambda>i. ?s ! i = CHR ''='') [0..<length pre] = None"
    using assms(1) by (auto simp: find_None_iff nth_append in_set_conv_nth)
  ultimately have "find (\<lambda>i. ?s ! i = CHR ''='') [0..<length ?s] = Some (length pre)"
    by (simp add: find_behind nth_append del: length_append)
  then have found: "String_find d (CHR ''='') 0 = Inr (of_nat (length pre))"
    using find_represents [OF d(2), of "CHR ''=''" 0] by simp
  have size: "String_size d = Inr (of_nat (length ?s))" by (rule size_represents [OF d(2)])
  have pos: "unat (of_nat (length pre) + 2 :: u32) = length pre + 2"
    using u32_size [of "length pre + 2"] assms(4) by (simp add: add.commute)
  have cnt: "(of_nat (length ?s) - (of_nat (length pre) + 2) - 1 :: u32) = of_nat (length ty)" by simp
  have "returns (String_substr d (of_nat (length pre) + 2) (of_nat (length ty)))
      (\<lambda>r. represents r (take (unat (of_nat (length ty) :: u32)) (drop (length pre + 2) ?s)))"
    using substr_represents [OF d(2), of "of_nat (length pre) + 2" "of_nat (length ty)"] assms(4) by (simp add: pos)
  moreover have "take (unat (of_nat (length ty) :: u32)) (drop (length pre + 2) ?s) = ty"
    using u32_size [of "length ty"] assms(4) by simp
  ultimately show ?thesis
    unfolding type_to_string_def Let_def d(1) res_bind_Inr found size cnt by simp
qed

text \<open>The instances of a template differ in their numbers, and in their names if the types do.\<close>

lemma iter_nth:
  "tests_of cur (iter sc dec func src line index tys) = map (\<lambda>(k, ty). fold case_decorate dec
     (TestCase (func ty) src line (suite_here cur sc) ty (sint line * 1000 + k))) (zip (map (\<lambda>k. index + int k) [0..<length tys]) tys)"
proof (induction tys arbitrary: index)
  case (Cons ty tys)
  have "map (\<lambda>k. index + int k) [0..<length (ty # tys)] = index # map (\<lambda>k. index + 1 + int k) [0..<length tys]"
    by (simp add: upt_conv_Cons map_Suc_upt [symmetric] comp_def del: upt_Suc)
  with Cons [of "index + 1"] show ?case by simp
qed simp

text \<open>
  \<open>TEST_SUITE_BEGIN\<close> inside a block of \<open>TEST_SUITE\<close> sets the suite of the program, so it is without effect on the tests of
  the block, and in effect on those behind it.
\<close>

lemma begin_inside_block:
  assumes "expand u (Some ((u, n), decs)) env [Test_suite_begin inner, Test_case src line f cdecs] = Some is"
  shows "tests_of cur is = [fold case_decorate cdecs (TestCase f src line (suite_of decs) [] (-1))] \<and> suite_after cur is = suite_of inner"
  using assms by (auto simp: REGISTER_FUNCTION_def TEST_SUITE_BEGIN_def suite_here_def)

section \<open>Witnesses\<close>

definition shared_header :: "decl list" where
  "shared_header = [Test_case ''shared.hpp'' 3 7 [Dec_name ''shared'']]"

definition sample_units :: "(nat \<times> decl list) list" where
  "sample_units =
     [(0, shared_header @ [Test_suite_block 0 [Dec_name ''[suite]'', Dec_timeout 5]
          [Test_case ''a.cpp'' 10 1 [Dec_name ''one''], Test_case ''a.cpp'' 20 2 [Dec_name ''two'', Dec_skip True]],
        Test_suite_begin [Dec_name ''open''], Test_case ''a.cpp'' 30 3 [Dec_name ''three'']]),
      (1, shared_header @ [Test_case ''b.cpp'' 10 4 [Dec_name ''four''],
        Test_case_template ''b.cpp'' 12 (\<lambda>ty. if ty = ''int'' then 5 else 6) [''int'', ''bool''] [Dec_name ''five'']])]"

definition sample_initializers :: "initializer list" where
  "sample_initializers = the (program_initializers sample_units)"

lemma sample_units_ok: "program_initializers sample_units = Some sample_initializers" "well_numbered sample_units"
    "tests_distinguishable sample_units"
proof -
  have "program_initializers sample_units \<noteq> None" by (simp add: sample_units_def shared_header_def unit_initializers_def)
  then show "program_initializers sample_units = Some sample_initializers" by (simp add: sample_initializers_def)
  show "well_numbered sample_units" by (simp add: sample_units_def shared_header_def well_numbered_def)
  show "tests_distinguishable sample_units" by code_simp
qed

theorem every_test_registered_once_witness:
  "map (\<lambda>tc. (m_line tc, m_name tc, m_test_suite tc)) (rg_tests (static_init sample_initializers registry_new)) =
     [(3, ''shared'', []), (10, ''four'', []), (10, ''one'', ''[suite]''), (12, ''five<bool>'', []), (12, ''five<int>'', []),
      (20, ''two'', ''[suite]''), (30, ''three'', ''open'')] \<and>
   distinct (rg_tests (static_init sample_initializers registry_new))"
proof -
  have "map (\<lambda>tc. (m_line tc, m_name tc, m_test_suite tc)) (rg_tests (static_init (the (program_initializers sample_units)) registry_new)) =
     [(3, ''shared'', []), (10, ''four'', []), (10, ''one'', ''[suite]''), (12, ''five<bool>'', []), (12, ''five<int>'', []),
      (20, ''two'', ''[suite]''), (30, ''three'', ''open'')]"
    by code_simp
  then show ?thesis
    using every_test_registered_once [OF sample_units_ok] by (simp add: sample_initializers_def)
qed

theorem order_of_units_irrelevant_witness:
  "\<exists>js. program_initializers (rev sample_units) = Some js \<and>
     rg_tests (static_init js registry_new) = rg_tests (static_init sample_initializers registry_new)"
  by (rule order_of_units_irrelevant [OF sample_units_ok]) simp

end
