(* ===== verification/Doctest_Program.thy ===== *)
theory Doctest_Program
  imports Doctest_Reports Doctest_Registration
begin

text \<open>
  A test program: \<open>main\<close> (external/doctest/main.cpp), linked with the unit that holds the framework
  (external/doctest/lib.cpp) and registers its three reporters. \<open>Context_run\<close> records the calls made to the
  reporters; here they are played to the reporters themselves, so that a reporter that fails ends the program.
\<close>

section \<open>The unit of the framework\<close>

definition lib_decls :: "decl list" where
  "lib_decls = [Reporter_decl ''xml'' 0, Reporter_decl ''junit'' 0, Reporter_decl ''console'' 0]"

definition junit_key :: reporter_key where
  "junit_key = (0, ''junit'')"

definition console_key :: reporter_key where
  "console_key = (0, ''console'')"

lemma keys_distinct [simp]:
  "xml_key \<noteq> junit_key" "junit_key \<noteq> xml_key" "xml_key \<noteq> console_key" "console_key \<noteq> xml_key"
  "junit_key \<noteq> console_key" "console_key \<noteq> junit_key"
  by (simp_all add: xml_key_def junit_key_def console_key_def)

text \<open>The map of the reporters is ordered by their names.\<close>

definition lib_reporters :: "reporter_key list \<times> reporter_key list" where
  "lib_reporters = ([console_key, junit_key, xml_key], [])"

section \<open>The reporters of a run\<close>

text \<open>
  What the reporters read besides the options: their environment, a time stamp, the surroundings of each call, and the
  two members of the console reporter that its constructor leaves alone.
\<close>

record reporting =
  rp_env :: reporter_env
  rp_timestamp :: string
  rp_surroundings :: "nat \<Rightarrow> call_context"
  rp_logged :: bool
  rp_level :: nat

type_synonym reporter_objects = "xml_reporter \<times> junit_reporter \<times> console_reporter"

text \<open>The calls in the order they are made; a reporter of another name is not one of the framework.\<close>

fun play_reports :: "reporting \<Rightarrow> context_options \<Rightarrow> nat \<Rightarrow> (reporter_key \<times> reporter_call) list \<Rightarrow> reporter_objects \<Rightarrow>
    failure + reporter_objects" where
  "play_reports rp opts k [] (x, j, y) = Inr (x, j, y)"
| "play_reports rp opts k ((r, call) # es) (x, j, y) =
     (let cc = rp_surroundings rp k in
      if r = xml_key
      then res_bind (xr_call (rp_env rp) opts cc call x) (\<lambda>x. play_reports rp opts (Suc k) es (x, j, y))
      else if r = junit_key
      then res_bind (jr_call (rp_env rp) opts (rp_timestamp rp) cc call j) (\<lambda>j. play_reports rp opts (Suc k) es (x, j, y))
      else if r = console_key
      then res_bind (console_call (rp_env rp) opts cc call y) (\<lambda>y. play_reports rp opts (Suc k) es (x, j, y))
      else play_reports rp opts (Suc k) es (x, j, y))"

text \<open>
  \<open>main\<close>. The record of the calls starts empty, and only the reporters that are used have an object to be called. A run that
  fails by itself does so here before its reporters are looked at.
\<close>

definition doctest_main :: "test_environment \<Rightarrow> reporting \<Rightarrow> registry \<Rightarrow> nat \<Rightarrow> globals \<Rightarrow> context_state \<Rightarrow> string list \<Rightarrow>
    (failure + int \<times> globals) option" where
  "doctest_main env rp rg p g raw argv =
     (let context = (applyCommandLine argv (Context [] raw))\<lparr>reports := []\<rparr>;
          used = used_reporters (rg_reporters rg) context
      in case Context_run env (rg_tests rg) (rg_reporters rg) p g context of
           None \<Rightarrow> None
         | Some (Inl e) \<Rightarrow> Some (Inl e)
         | Some (Inr (code, g, c)) \<Rightarrow>
             Some (res_bind (play_reports rp (ctx_options context) 0 (filter (\<lambda>e. fst e \<in> set used) (reports c))
                 (XmlReporter [], JUnitReporter [], ConsoleReporter (rp_logged rp) (rp_level rp) []))
               (\<lambda>objs. Inr (code, Context_destroy p g))))"

section \<open>Whether a reporter fails\<close>

definition calls_of :: "reporter_key \<Rightarrow> (reporter_key \<times> reporter_call) list \<Rightarrow> reporter_call list" where
  "calls_of r es = map snd (filter (\<lambda>e. fst e = r) es)"

lemma calls_of_simps [simp]:
  "calls_of r [] = []" "calls_of r ((r, call) # es) = call # calls_of r es"
  "r' \<noteq> r \<Longrightarrow> calls_of r ((r', call) # es) = calls_of r es"
  by (simp_all add: calls_of_def)

text \<open>A reporter that takes its calls whatever its surroundings are.\<close>

definition takes :: "(call_context \<Rightarrow> reporter_call \<Rightarrow> 's \<Rightarrow> failure + 's) \<Rightarrow> reporter_call list \<Rightarrow> 's \<Rightarrow> bool" where
  "takes step calls s \<longleftrightarrow> (\<forall>es. map snd es = calls \<longrightarrow> returns (report_all step es s) (\<lambda>_. True))"

definition fails_with :: "failure \<Rightarrow> (call_context \<Rightarrow> reporter_call \<Rightarrow> 's \<Rightarrow> failure + 's) \<Rightarrow> reporter_call list \<Rightarrow> 's \<Rightarrow> bool" where
  "fails_with e step calls s \<longleftrightarrow> (\<forall>es. map snd es = calls \<longrightarrow> report_all step es s = Inl e)"

lemma some_surroundings: "\<exists>es :: event list. map snd es = calls"
  by (rule exI [of _ "map (Pair undefined) calls"]) (simp add: comp_def)

lemma takes_step:
  assumes "takes step (call # calls) s"
  obtains s' where "step cc call s = Inr s'" and "takes step calls s'"
proof -
  have all: "returns (report_all step ((cc, call) # es) s) (\<lambda>_. True)" if "map snd es = calls" for es
    using assms that unfolding takes_def by (metis list.simps(9) snd_conv)
  obtain es0 :: "event list" where es0: "map snd es0 = calls" using some_surroundings by blast
  obtain s' where s': "step cc call s = Inr s'"
    using all [OF es0] by (cases "step cc call s") (auto simp: returns_def)
  moreover have "takes step calls s'"
    unfolding takes_def
  proof (intro allI impI)
    fix es :: "event list" assume "map snd es = calls"
    then show "returns (report_all step es s') (\<lambda>_. True)" using all [of es] s' by simp
  qed
  ultimately show thesis using that by blast
qed

lemma fails_step:
  assumes "fails_with e step (call # calls) s"
  obtains "step cc call s = Inl e" | s' where "step cc call s = Inr s'" and "fails_with e step calls s'"
proof -
  have all: "report_all step ((cc, call) # es) s = Inl e" if "map snd es = calls" for es
    using assms that unfolding fails_with_def by (metis list.simps(9) snd_conv)
  obtain es0 :: "event list" where es0: "map snd es0 = calls" using some_surroundings by blast
  show thesis
  proof (cases "step cc call s")
    case (Inl e')
    then show thesis using all [OF es0] that(1) by simp
  next
    case (Inr s')
    have "fails_with e step calls s'"
      unfolding fails_with_def
    proof (intro allI impI)
      fix es :: "event list" assume "map snd es = calls"
      then show "report_all step es s' = Inl e" using all [of es] Inr by simp
    qed
    then show thesis using that(2) Inr by blast
  qed
qed

lemma play_all:
  assumes "takes (xr_call (rp_env rp) opts) (calls_of xml_key es) x"
    and "takes (jr_call (rp_env rp) opts (rp_timestamp rp)) (calls_of junit_key es) j"
    and "takes (console_call (rp_env rp) opts) (calls_of console_key es) y"
  shows "\<exists>objs. play_reports rp opts k es (x, j, y) = Inr objs"
  using assms
proof (induction es arbitrary: k x j y)
  case (Cons e es)
  obtain r call where e: "e = (r, call)" by (cases e)
  let ?cc = "rp_surroundings rp k"
  consider "r = xml_key" | "r = junit_key" | "r = console_key" | "r \<notin> {xml_key, junit_key, console_key}" by blast
  then show ?case
  proof cases
    case 1
    then obtain x' where "xr_call (rp_env rp) opts ?cc call x = Inr x'" "takes (xr_call (rp_env rp) opts) (calls_of xml_key es) x'"
      using Cons.prems(1) e by (auto elim: takes_step)
    then show ?thesis using 1 e Cons.IH [of x' j y "Suc k"] Cons.prems(2,3) by simp
  next
    case 2
    then obtain j' where "jr_call (rp_env rp) opts (rp_timestamp rp) ?cc call j = Inr j'"
        "takes (jr_call (rp_env rp) opts (rp_timestamp rp)) (calls_of junit_key es) j'"
      using Cons.prems(2) e by (auto elim: takes_step)
    then show ?thesis using 2 e Cons.IH [of x j' y "Suc k"] Cons.prems(1,3) by simp
  next
    case 3
    then obtain y' where "console_call (rp_env rp) opts ?cc call y = Inr y'"
        "takes (console_call (rp_env rp) opts) (calls_of console_key es) y'"
      using Cons.prems(3) e by (auto elim: takes_step)
    then show ?thesis using 3 e Cons.IH [of x j y' "Suc k"] Cons.prems(1,2) by simp
  next
    case 4
    then show ?thesis using e Cons.IH [of x j y "Suc k"] Cons.prems by simp
  qed
qed simp

lemma play_fails:
  assumes "fails_with f (xr_call (rp_env rp) opts) (calls_of xml_key es) x"
    and "takes (jr_call (rp_env rp) opts (rp_timestamp rp)) (calls_of junit_key es) j"
    and "takes (console_call (rp_env rp) opts) (calls_of console_key es) y"
  shows "play_reports rp opts k es (x, j, y) = Inl f"
  using assms
proof (induction es arbitrary: k x j y)
  case Nil
  then show ?case by (simp add: fails_with_def)
next
  case (Cons e es)
  obtain r call where e: "e = (r, call)" by (cases e)
  let ?cc = "rp_surroundings rp k"
  consider "r = xml_key" | "r = junit_key" | "r = console_key" | "r \<notin> {xml_key, junit_key, console_key}" by blast
  then show ?case
  proof cases
    case 1
    then have "fails_with f (xr_call (rp_env rp) opts) (call # calls_of xml_key es) x" using Cons.prems(1) e by simp
    then show ?thesis
    proof (cases rule: fails_step [where cc = ?cc])
      case 1
      then show ?thesis using \<open>r = xml_key\<close> e by simp
    next
      case (2 x')
      then show ?thesis using \<open>r = xml_key\<close> e Cons.IH [of x' j y "Suc k"] Cons.prems(2,3) by simp
    qed
  next
    case 2
    then obtain j' where "jr_call (rp_env rp) opts (rp_timestamp rp) ?cc call j = Inr j'"
        "takes (jr_call (rp_env rp) opts (rp_timestamp rp)) (calls_of junit_key es) j'"
      using Cons.prems(2) e by (auto elim: takes_step)
    then show ?thesis using 2 e Cons.IH [of x j' y "Suc k"] Cons.prems(1,3) by simp
  next
    case 3
    then obtain y' where "console_call (rp_env rp) opts ?cc call y = Inr y'"
        "takes (console_call (rp_env rp) opts) (calls_of console_key es) y'"
      using Cons.prems(3) e by (auto elim: takes_step)
    then show ?thesis using 3 e Cons.IH [of x j y' "Suc k"] Cons.prems(1,2) by simp
  next
    case 4
    then show ?thesis using e Cons.IH [of x j y "Suc k"] Cons.prems by simp
  qed
qed

section \<open>What the reporters take\<close>

text \<open>A command line that asks to count or list and, at the same time, for something that is answered without counters.\<close>

definition asks_without_counters :: "context_options \<Rightarrow> bool" where
  "asks_without_counters opts \<longleftrightarrow> (opt_version opts \<or> opt_help opts \<or> opt_no_run opts) \<and> query_mode opts \<and> \<not> opt_list_reporters opts"

lemma takes_nothing [simp]: "takes step [] s"
  by (simp add: takes_def returns_def)

lemma reporters_take:
  assumes "protocol_run Idle calls = Some Finished" and "run_shape opts calls"
  shows "\<not> asks_without_counters opts \<Longrightarrow> takes (xr_call env opts) calls (XmlReporter [])"
    and "asks_without_counters opts \<Longrightarrow> fails_with Null_deref (xr_call env opts) calls (XmlReporter [])"
    and "takes (jr_call env opts ts) calls (JUnitReporter [])"
    and "takes (console_call env opts) calls (ConsoleReporter logged level [])"
proof -
  have asks: "asks_without_counters opts \<longleftrightarrow> query_mode opts \<and> \<not> normal_run opts \<and> \<not> opt_list_reporters opts"
    by (auto simp: asks_without_counters_def normal_run_def)
  show "takes (xr_call env opts) calls (XmlReporter [])" if "\<not> asks_without_counters opts"
    using xml_written [OF _ _, of _ opts env] assms that unfolding asks takes_def
    by (metis (no_types, lifting) returns_mono)
  show "fails_with Null_deref (xr_call env opts) calls (XmlReporter [])" if "asks_without_counters opts"
    using xml_written [OF _ _, of _ opts env] assms that unfolding asks fails_with_def by metis
  show "takes (jr_call env opts ts) calls (JUnitReporter [])"
    using junit_written [OF _ _, of _ opts env ts] assms unfolding takes_def by (metis (no_types, lifting) returns_mono)
  show "takes (console_call env opts) calls (ConsoleReporter logged level [])"
    using console_written assms unfolding takes_def by blast
qed

end
