(* ===== verification/Doctest_Passing.thy ===== *)
theory Doctest_Passing
  imports Doctest_Program Doctest_Expression
begin

text \<open>
  A test program whose assertions hold: its \<open>main\<close> on whatever was registered, with any command line, comes to an end and
  exits with 0, unless the command line makes the XML reporter read through its null pointer.
\<close>

section \<open>Statements that pass\<close>

text \<open>What a passing statement leaves alone; it may count assertions and report them.\<close>

definition calm :: "context_state \<Rightarrow> context_state \<Rightarrow> bool" where
  "calm c d \<longleftrightarrow> ctx_options d = ctx_options c \<and> filters d = filters c \<and> currentTest d = currentTest c \<and> run_data d = run_data c \<and>
     failure_flags (case_data d) = failure_flags (case_data c) \<and> nextSubcaseStack d = nextSubcaseStack c \<and>
     infoContexts d = infoContexts c \<and> numAssertsFailedCurrentTest_atomic d = numAssertsFailedCurrentTest_atomic c"

lemma calm_refl [simp]: "calm c c"
  by (simp add: calm_def)

lemma calm_trans: "calm c d \<Longrightarrow> calm d e \<Longrightarrow> calm c e"
  by (simp add: calm_def)

definition passing :: "(context_state \<Rightarrow> failure + body_outcome \<times> context_state) \<Rightarrow> bool" where
  "passing f \<longleftrightarrow> (\<forall>c. \<exists>d. f c = Inr (Returned, d) \<and> calm c d) \<and> (\<forall>r. behaves r f)"

lemma passingI: "(\<And>c. \<exists>d. f c = Inr (Returned, d) \<and> calm c d) \<Longrightarrow> (\<And>r. behaves r f) \<Longrightarrow> passing f"
  by (simp add: passing_def)

lemma passing_returns:
  assumes "passing f"
  obtains d where "f c = Inr (Returned, d)" and "calm c d"
  using assms unfolding passing_def by blast

lemma passing_behaves: "passing f \<Longrightarrow> behaves r f"
  unfolding passing_def by blast

lemma acts_behave: "list_all (behaves r) fs \<Longrightarrow> behaves r (run_items (map Act fs))"
proof -
  assume "list_all (behaves r) fs"
  then have "items_behave r (map Act fs)" by (induction fs) auto
  then show ?thesis unfolding behaves_def using run_items_says by blast
qed

lemma passing_items:
  assumes "list_all passing fs"
  shows "passing (run_items (map Act fs))"
proof (rule passingI)
  show "behaves r (run_items (map Act fs))" for r
    by (rule acts_behave) (use assms in \<open>auto intro: passing_behaves simp: list_all_iff\<close>)
  show "\<exists>e. run_items (map Act fs) c = Inr (Returned, e) \<and> calm c e" for c
    using assms
  proof (induction fs arbitrary: c)
    case (Cons f fs)
    obtain d where d: "f c = Inr (Returned, d)" "calm c d" using Cons.prems by (auto elim: passing_returns)
    obtain e where "run_items (map Act fs) d = Inr (Returned, e)" "calm d e" using Cons by fastforce
    with d show ?case by (auto intro: calm_trans)
  qed simp
qed

lemma calm_assert: "calm c (reported rb c' (addAssert at c))"
  by (simp add: calm_def reported_def addAssert_def)

lemma passing_log:
  assumes "m_at rb = DT lv w" and "\<not> exception_verdict rb" and "\<not> exception_verdict (rb\<lparr>m_failed := False\<rparr>)"
  shows "\<exists>d. log_and_react status rb c = Inr (Returned, d) \<and> calm c d"
proof -
  let ?rb = "rb\<lparr>m_failed := False\<rparr>"
  have same: "log_and_react status rb c = log_and_react status ?rb c"
    using assms(2,3) by (simp add: log_and_react_def ResultBuilder_log_def)
  have "log_and_react status ?rb c = Inr (fst (assert_effect lv False c), reported (with_quotes ?rb) c (snd (assert_effect lv False c)))"
    using log_and_react_effect [of ?rb lv w status c] assms(1,3) by simp
  then show ?thesis
    using calm_assert by (simp add: same assert_effect_def Let_def)
qed

text \<open>The assertions, if what they assert holds.\<close>

lemma passing_comparison:
  "ops cmp l r \<Longrightarrow> passing (ASSERT_comparison ts status (DT lv Plain) src line expr ops strl strr cmp (Inr (l, r)))"
  by (intro passingI macros_behave)
    (auto intro!: passing_log [of _ lv Plain] simp: ASSERT_comparison_def wrap_in_try_def verdict_plain about_exceptions_def
      setResult_def ResultBuilder_def AssertData_def Expression_compare_def ExpressionDecomposer_def Result_def Let_def DT_what)

lemmas assertion_fields = verdict_plain about_exceptions_def setResult_def ResultBuilder_def AssertData_def
  Expression_result_def ExpressionDecomposer_def Result_def Let_def DT_what

lemma passing_truth: "to_bool l \<Longrightarrow> passing (ASSERT_truth ts status (DT lv Plain) src line expr to_bool strl (Inr l))"
  by (intro passingI macros_behave)
    (auto intro!: passing_log [of _ lv Plain] simp: ASSERT_truth_def wrap_in_try_def assertion_fields)

lemma passing_false: "\<not> to_bool l \<Longrightarrow> passing (ASSERT_truth ts status (DT lv Is_False) src line expr to_bool strl (Inr l))"
  by (intro passingI macros_behave)
    (auto intro!: passing_log [of _ lv Is_False] simp: ASSERT_truth_def wrap_in_try_def assertion_fields)

lemma passing_throws_as:
  "has_type ex \<Longrightarrow> passing (ASSERT_THROWS_AS ts status (DT lv Throws_as) src line expr ty msg has_type (Some ex))"
  by (intro passingI throw_macros_behave)
    (auto intro!: passing_log [of _ lv Throws_as]
      simp: ASSERT_THROWS_AS_def exception_verdict_def translateException_def AssertData_def Let_def DT_what)

lemma passing_with_info:
  assumes "passing f"
  shows "passing (with_info t f)"
proof (rule passingI)
  show "behaves r (with_info t f)" for r using assms by (intro with_info_behaves passing_behaves)
next
  fix c
  obtain d where d: "f (ContextScopeBase t c) = Inr (Returned, d)" "calm (ContextScopeBase t c) d"
    using assms by (rule passing_returns)
  define e where "e = d\<lparr>infoContexts := infoContexts c\<rparr>"
  have "infoContexts d = infoContexts c @ [t]" using d(2) by (simp add: calm_def ContextScopeBase_def)
  then have "with_info t f c = Inr (Returned, e)" by (simp add: with_info_def d(1) ContextScope_destroy_def e_def)
  moreover have "calm c e" using d(2) by (simp add: calm_def ContextScopeBase_def e_def)
  ultimately show "\<exists>d. with_info t f c = Inr (Returned, d) \<and> calm c d" by blast
qed

section \<open>A run of passing tests\<close>

definition expects_success :: "test_environment \<Rightarrow> test_case \<Rightarrow> bool" where
  "expects_success env tc \<longleftrightarrow> \<not> m_should_fail tc \<and> \<not> 0 <s m_expected_failures tc \<and>
     (\<forall>secs. \<not> timed_out (env_fp env) (m_timeout tc) secs)"

text \<open>The state between tests as long as nothing has failed.\<close>

definition unharmed :: "context_state \<Rightarrow> bool" where
  "unharmed c \<longleftrightarrow> numAssertsFailed (run_data c) = 0 \<and> numTestCasesFailed (run_data c) = 0 \<and> nextSubcaseStack c = []"

lemma unharmed_iterate [simp]: "unharmed (iterate_reporters e c) = unharmed c"
  by (simp add: unharmed_def iterate_reporters_def)

lemma load_stored_zero: "lanes_load (lanes_store 0 m) = 0"
  by (cases m) (simp_all add: lanes_load_sum lanes_store_def map_replicate_const sum_list_replicate)

lemma no_failures_enough: "\<not> enough_failures c 0"
  by (auto simp: enough_failures_def)

lemma passing_test_case:
  assumes "passing (env_call env tc)" and "expects_success env tc" and "unharmed c"
  shows "\<exists>d. run_test_case env tc c = Some (Inr d) \<and> unharmed d"
proof -
  define s where "s = start_test env tc c"
  have s: "unharmed s" "currentTest s = Some tc" "failure_flags (case_data s) = 0" "lanes_load (numAssertsFailedCurrentTest_atomic s) = 0"
    using assms(3) by (simp_all add: s_def start_test_def Let_def unharmed_def iterate_reporters_def load_stored_zero Reason_None_def)
  obtain d where d: "env_call env tc (prepare_run s) = Inr (Returned, d)" "calm (prepare_run s) d"
    using assms(1) by (rule passing_returns)
  have e: "unharmed d" "currentTest d = Some tc" "failure_flags (case_data d) = 0" "lanes_load (numAssertsFailedCurrentTest_atomic d) = 0"
    using d(2) s by (simp_all add: calm_def unharmed_def prepare_run_def)
  have "run_once env tc s = Inr (False, d)"
    using e no_failures_enough [of d] by (simp add: run_once_def d(1) catch_outcome_def unharmed_def)
  then have loop: "test_loop env tc s = Some (Inr d)" by (subst test_loop.simps) simp
  have "\<exists>f. end_test env tc d = Inr f \<and> unharmed f"
    using e assms(2) by (simp add: end_test_def finalizeTestCaseData_def Let_def unharmed_def iterate_reporters_def final_flags_def expects_success_def)
  then show ?thesis using loop by (auto simp: run_test_case_def s_def [symmetric])
qed

lemma passing_run_tests:
  assumes "\<forall>tc \<in> set ts. passing (env_call env tc) \<and> expects_success env tc" and "unharmed c"
  shows "\<exists>results d. run_tests env ts suites told c = Some (Inr (results, d)) \<and> unharmed d"
  using assms
proof (induction ts arbitrary: suites told c)
  case (Cons tc ts)
  define c1 where "c1 = (if skip_me tc c then c else count_passing c)"
  have c1: "unharmed c1" using Cons.prems(2) by (simp add: c1_def unharmed_def count_passing_def)
  have rest: "\<exists>results d. run_tests env ts suites' told' e = Some (Inr (results, d)) \<and> unharmed d" if "unharmed e" for suites' told' e
    using Cons.IH [OF _ that] Cons.prems(1) by simp
  define e where "e = (if query_mode (ctx_options c1) then c1 else iterate_reporters (Test_case_skipped tc) c1)"
  have e: "unharmed e" using c1 by (simp add: e_def)
  define f where "f = c1\<lparr>run_data := (run_data c1)\<lparr>numTestSuitesPassingFilters := numTestSuitesPassingFilters (run_data c1) + 1\<rparr>\<rparr>"
  have f: "unharmed f" using c1 by (simp add: f_def unharmed_def)
  obtain d where d: "run_test_case env tc c1 = Some (Inr d)" "unharmed d"
    using passing_test_case [OF _ _ c1, of env tc] Cons.prems(1) by auto
  have never: "\<not> enough_failures d (numAssertsFailed (run_data d))" using d(2) no_failures_enough by (simp add: unharmed_def)
  show ?case
    unfolding run_tests.simps Let_def c1_def [symmetric] e_def [symmetric] f_def [symmetric] d(1)
    using rest [OF c1] rest [OF e] rest [OF f] rest [OF d(2)] never by (simp add: if_split)
qed simp

lemma Context_run_passing:
  assumes "\<forall>tc \<in> set registered. passing (env_call env tc) \<and> expects_success env tc" and "nextSubcaseStack c = []"
  shows "\<exists>g' d. Context_run env registered maps p g c = Some (Inr (0, g', d)) \<and> numAssertsFailed (run_data d) = 0"
proof -
  define c0 where "c0 = prepare_all maps c"
  have c0: "unharmed c0"
    using assms(2) by (simp add: c0_def unharmed_def prepare_all_def choose_reporters_def choose_cout_def resetRunData_def Let_def)
  define c1 where "c1 = c0\<lparr>run_data := (run_data c0)\<lparr>numTestCases := of_nat (length registered)\<rparr>\<rparr>"
  define c2 where "c2 = (if query_mode (ctx_options c0) then c1 else iterate_reporters Test_run_start c1)"
  have c2: "unharmed c2" using c0 by (simp add: c2_def c1_def unharmed_def iterate_reporters_def)
  have "\<forall>tc \<in> set (order_tests (env_rand env) (ctx_options c0) registered). passing (env_call env tc) \<and> expects_success env tc"
    using assms(1) by (simp add: set_order_tests)
  from passing_run_tests [OF this c2] obtain results d
    where d: "run_tests env (order_tests (env_rand env) (ctx_options c0) registered) [] [] c2 = Some (Inr (results, d))" "unharmed d"
    by blast
  show ?thesis
    unfolding Context_run_def Let_def c0_def [symmetric] c1_def [symmetric] c2_def [symmetric] d(1)
    using c0 d(2) by (auto simp: cleanup_and_return_def unharmed_def iterate_reporters_def)
qed

definition start_context :: "context_state \<Rightarrow> string list \<Rightarrow> context_state" where
  "start_context raw argv = (applyCommandLine argv (Context [] raw))\<lparr>reports := []\<rparr>"

lemma start_fields: "nextSubcaseStack (start_context raw argv) = []" "reports (start_context raw argv) = []"
  "reporters_currently_used (start_context raw argv) = []"
  by (simp_all add: start_context_def applyCommandLine_def Context_def parseArgs_def Let_def)

lemma used_lib:
  assumes "reporters_currently_used c = []"
  shows "distinct (used_reporters lib_reporters c)" and "set (used_reporters lib_reporters c) \<subseteq> {console_key, junit_key, xml_key}"
  using assms by (auto simp: used_reporters_def prepare_all_def choose_reporters_def choose_cout_def resetRunData_def lib_reporters_def Let_def)

lemma calls_of_used: "calls_of r (filter (\<lambda>e. fst e \<in> U) es) = (if r \<in> U then calls_of r es else [])"
  by (induction es) (auto simp: calls_of_def)

text \<open>
  A test program in which every assertion holds: with whatever arguments, and so whatever filters, order, reporters or
  query, the run comes to an end and reports no failure, and no reporter fails but the XML reporter at the one kind of query.
\<close>

lemma main_exits_zero:
  fixes raw argv
  defines "c \<equiv> start_context raw argv"
  assumes passes: "\<forall>tc \<in> set (rg_tests rg). passing (env_call env tc) \<and> expects_success env tc" and lib: "rg_reporters rg = lib_reporters"
  shows "\<exists>g'. doctest_main env rp rg p g raw argv = Some
    (if asks_without_counters (ctx_options c) \<and> xml_key \<in> set (used_reporters lib_reporters c) then Inl Null_deref else Inr (0, g'))"
proof -
  note c = start_fields [of raw argv, folded c_def]
  obtain g1 d where run: "Context_run env (rg_tests rg) lib_reporters p g c = Some (Inr (0, g1, d))"
    using Context_run_passing [OF passes c(1)] by blast
  let ?used = "set (used_reporters lib_reporters c)"
  define es where "es = filter (\<lambda>e. fst e \<in> ?used) (reports d)"
  have calls: "protocol_run Idle (calls_of r es) = Some Finished \<and> run_shape (ctx_options c) (calls_of r es)" if "r \<in> ?used" for r
  proof -
    have "tests_behave r env (rg_tests rg)" using passes by (simp add: tests_behave_def passing_behaves del: split_paired_All)
    moreover have "heard r c = []" "heard r d = calls_of r (reports d)" using c(2) by (simp_all add: heard_def calls_of_def)
    ultimately show ?thesis
      using run_protocol [OF _ used_lib(1) [OF c(3)] that run] that by (simp add: es_def calls_of_used)
  qed
  have unused: "calls_of r es = []" if "r \<notin> ?used" for r using that by (simp add: es_def calls_of_used)
  have others: "takes (jr_call (rp_env rp) (ctx_options c) (rp_timestamp rp)) (calls_of junit_key es) (JUnitReporter [])"
    "takes (console_call (rp_env rp) (ctx_options c)) (calls_of console_key es) (ConsoleReporter (rp_logged rp) (rp_level rp) [])"
    using reporters_take(3,4) calls unused takes_nothing by (metis, metis)
  have main: "doctest_main env rp rg p g raw argv = Some (res_bind (play_reports rp (ctx_options c) 0 es
      (XmlReporter [], JUnitReporter [], ConsoleReporter (rp_logged rp) (rp_level rp) [])) (\<lambda>objs. Inr (0, Context_destroy p g1)))"
    using run by (simp add: doctest_main_def start_context_def [symmetric] c_def [symmetric] lib es_def)
  show ?thesis
  proof (cases "asks_without_counters (ctx_options c) \<and> xml_key \<in> ?used")
    case True
    then have "fails_with Null_deref (xr_call (rp_env rp) (ctx_options c)) (calls_of xml_key es) (XmlReporter [])"
      using reporters_take(2) calls by blast
    from play_fails [OF this others] show ?thesis using main True by simp
  next
    case False
    then have "takes (xr_call (rp_env rp) (ctx_options c)) (calls_of xml_key es) (XmlReporter [])"
      using reporters_take(1) calls unused takes_nothing by metis
    from play_all [OF this others, of 0] show ?thesis using main False by auto
  qed
qed

end
