(* ===== verification/Unit_Tests.thy ===== *)
theory Unit_Tests
  imports Doctest_Passing Inet_Reference Network_Address Network_Interface Ethernet_Address
begin

text \<open>
  The unit tests of the library (src/ethernet/Address.test.cpp, src/ip/Address.test.cpp, src/network/Address.test.cpp and
  src/network/Interface.test.cpp) as programs over the models of the classes they test, registered, run and reported by the
  model of doctest. The fifth file, the tests of the status tracker, depends on the order of its tests: see Tracker_Tests.
\<close>

section \<open>Assertions on the program\<close>

text \<open>
  What the tests run in: the C library, the translators of exceptions, the lines of the process status, and the text of an
  exception. Failures that are no exceptions, undefined behaviour and the end of the process, end the run.
\<close>

record unit_env =
  ut_inet :: inet_api
  ut_os :: if_api
  ut_translators :: translators
  ut_status :: "string list"
  ut_what :: "failure \<Rightarrow> string"

type_synonym statement = "context_state \<Rightarrow> failure + body_outcome \<times> context_state"

fun is_exception :: "failure \<Rightarrow> bool" where
  "is_exception Out_of_range = True"
| "is_exception (Invalid_argument _) = True"
| "is_exception (System_error _ _) = True"
| "is_exception _ = False"

fun is_invalid_argument :: "failure \<Rightarrow> bool" where
  "is_invalid_argument (Invalid_argument _) = True"
| "is_invalid_argument _ = False"

fun is_system_error :: "failure \<Rightarrow> bool" where
  "is_system_error (System_error _ _) = True"
| "is_system_error _ = False"

definition evaluated :: "unit_env \<Rightarrow> failure + 'a \<Rightarrow> (exn + 'a \<Rightarrow> statement) \<Rightarrow> statement" where
  "evaluated ue v k c =
     (case v of
        Inr a \<Rightarrow> k (Inr a) c
      | Inl e \<Rightarrow> if is_exception e then k (Inl (Std_exception (ut_what ue e))) c else Inl e)"

definition CHECK :: "unit_env \<Rightarrow> string \<Rightarrow> int \<Rightarrow> string \<Rightarrow> failure + bool \<Rightarrow> statement" where
  "CHECK ue src line expr v =
     evaluated ue v (ASSERT_truth (ut_translators ue) (ut_status ue) (DT Check Plain) src line expr id toString_bool)"

definition CHECK_compare :: "unit_env \<Rightarrow> string \<Rightarrow> int \<Rightarrow> string \<Rightarrow> ('l, 'r) operators \<Rightarrow> ('l \<Rightarrow> string) \<Rightarrow> ('r \<Rightarrow> string) \<Rightarrow>
    comparison \<Rightarrow> failure + 'l \<times> 'r \<Rightarrow> statement" where
  "CHECK_compare ue src line expr ops strl strr cmp v =
     evaluated ue v (ASSERT_comparison (ut_translators ue) (ut_status ue) (DT Check Plain) src line expr ops strl strr cmp)"

definition CHECK_THROWS_AS :: "unit_env \<Rightarrow> string \<Rightarrow> int \<Rightarrow> string \<Rightarrow> string \<Rightarrow> (failure \<Rightarrow> bool) \<Rightarrow> failure + 'a \<Rightarrow> statement" where
  "CHECK_THROWS_AS ue src line expr type is_type v =
     evaluated ue v (\<lambda>r. ASSERT_THROWS_AS (ut_translators ue) (ut_status ue) (DT Check Throws_as) src line expr type
       \<lparr>sc_string = [], isContains = False\<rparr> (\<lambda>_. case v of Inl e \<Rightarrow> is_type e | Inr _ \<Rightarrow> False)
       (case r of Inl ex \<Rightarrow> Some ex | Inr _ \<Rightarrow> None))"

text \<open>A block of statements, and a local variable with its initialiser.\<close>

definition block :: "statement list \<Rightarrow> statement" where
  "block ss = run_items (map Act ss)"

definition local_variable :: "unit_env \<Rightarrow> failure + 'a \<Rightarrow> ('a \<Rightarrow> statement) \<Rightarrow> statement" where
  "local_variable ue v k = evaluated ue v (\<lambda>r c. case r of Inl ex \<Rightarrow> Inr (Thrown ex, c) | Inr a \<Rightarrow> k a c)"

text \<open>The operators: of an ordered class, of an enumeration, and those that convert their operands.\<close>

fun ordered :: "('a :: linorder, 'a) operators" where
  "ordered Cmp_eq l r = (l = r)"
| "ordered Cmp_ne l r = (l \<noteq> r)"
| "ordered Cmp_gt l r = (l > r)"
| "ordered Cmp_lt l r = (l < r)"
| "ordered Cmp_ge l r = (l \<ge> r)"
| "ordered Cmp_le l r = (l \<le> r)"

definition by_key :: "('l \<Rightarrow> 'k :: linorder) \<Rightarrow> ('r \<Rightarrow> 'k) \<Rightarrow> ('l, 'r) operators" where
  "by_key f g cmp l r = ordered cmp (f l) (g r)"

fun if_ops :: "(interface, interface) operators" where
  "if_ops Cmp_eq a b = if_equal a b"
| "if_ops Cmp_ne a b = (\<not> if_equal a b)"
| "if_ops Cmp_lt a b = if_less a b"
| "if_ops Cmp_gt a b = if_less b a"
| "if_ops Cmp_ge a b = (\<not> if_less a b)"
| "if_ops Cmp_le a b = (\<not> if_less b a)"

definition literal_text :: "string \<Rightarrow> string" where
  "literal_text s = fill_chars (s @ [CHR 0x00])"

fun Family_underlying :: "Family \<Rightarrow> nat" where
  "Family_underlying IPv4 = 0"
| "Family_underlying IPv6 = 1"

definition family_ops :: "(Family, Family) operators" where
  "family_ops = by_key Family_underlying Family_underlying"

text \<open>A test is its line, its name and its body.\<close>

type_synonym unit_test = "nat \<times> string \<times> statement"

section \<open>src/ethernet/Address.test.cpp\<close>

definition eth_file :: string where "eth_file = ''src/ethernet/Address.test.cpp''"

definition eth_text :: "eth_address \<Rightarrow> string" where
  "eth_text a = (case eth_toString a of Inr t \<Rightarrow> t | Inl _ \<Rightarrow> [])"

definition eth_someAddress :: eth_address where "eth_someAddress = Eth_Address [1, 2, 3, 4, 5, 0x1A]"
definition eth_nullAddress :: eth_address where "eth_nullAddress = Eth_Address [0, 0, 0, 0, 0, 0]"

definition eth_tests :: "unit_env \<Rightarrow> unit_test list" where
  "eth_tests ue =
     [
      (21, ''default constructor'', block [
         CHECK ue eth_file 23 ''defaultAddress.allZeroes()'' (Inr (eth_allZeroes eth_default))]),
      (26, ''constructor with bytes'', block [
         CHECK ue eth_file 28 ''!someAddress.allZeroes()'' (Inr (\<not> eth_allZeroes eth_someAddress))]),
      (31, ''isBroadcast'', block [
         CHECK ue eth_file 33 ''!someAddress.isBroadcast()'' (Inr (\<not> eth_isBroadcast eth_someAddress)),
         CHECK ue eth_file 34 ''!nullAddress.isBroadcast()'' (Inr (\<not> eth_isBroadcast eth_nullAddress)),
         CHECK ue eth_file 35 ''!defaultAddress.isBroadcast()'' (Inr (\<not> eth_isBroadcast eth_default))]),
      (38, ''toString'', block [
         CHECK_compare ue eth_file 40 (''nullAddress.toString() == '' @ quoted ''00:00:00:00:00:00'')
           ordered id literal_text Cmp_eq
           (res_bind (eth_toString eth_nullAddress) (\<lambda>t. Inr (t, ''00:00:00:00:00:00''))),
         CHECK_compare ue eth_file 41 (''someAddress.toString() == '' @ quoted ''01:02:03:04:05:1a'')
           ordered id literal_text Cmp_eq
           (res_bind (eth_toString eth_someAddress) (\<lambda>t. Inr (t, ''01:02:03:04:05:1a'')))]),
      (44, ''operator =='', block [
         CHECK_compare ue eth_file 46 ''someAddress == someAddress'' ordered eth_text eth_text Cmp_eq
           (Inr (eth_someAddress, eth_someAddress)),
         CHECK_compare ue eth_file 47 ''nullAddress == nullAddress'' ordered eth_text eth_text Cmp_eq
           (Inr (eth_nullAddress, eth_nullAddress))]),
      (50, ''operator !='', block [
         CHECK_compare ue eth_file 52 ''nullAddress != someAddress'' ordered eth_text eth_text Cmp_ne
           (Inr (eth_nullAddress, eth_someAddress))]),
      (55, ''operator <'', block [
         CHECK_compare ue eth_file 57 ''nullAddress < someAddress'' ordered eth_text eth_text Cmp_lt
           (Inr (eth_nullAddress, eth_someAddress))])]"

section \<open>src/ip/Address.test.cpp\<close>

definition ip_file :: string where "ip_file = ''src/ip/Address.test.cpp''"

definition ip_any4 :: ip_address where "ip_any4 = V4 [0, 0, 0, 0]"
definition ip_any6 :: ip_address where "ip_any6 = V6 (replicate 16 0)"
definition ip_localhost4 :: ip_address where "ip_localhost4 = V4 [127, 0, 0, 1]"
definition ip_localhost4OtherSubnet :: ip_address where "ip_localhost4OtherSubnet = V4 [127, 0, 1, 1]"
definition ip_localHost6 :: ip_address where "ip_localHost6 = V6 [0, 0, 0, 0, 0, 0, 0, 0, 0, 0, 0, 0, 0, 0, 0, 1]"
definition ip_countUpV4 :: ip_address where "ip_countUpV4 = V4 [1, 2, 3, 4]"
definition ip_countDownV4 :: ip_address where "ip_countDownV4 = V4 [4, 3, 2, 1]"
definition ip_countUpV6 :: ip_address where "ip_countUpV6 = V6 [1, 2, 3, 4, 5, 6, 7, 8, 9, 10, 11, 12, 13, 14, 15, 16]"
definition ip_countDownV6 :: ip_address where "ip_countDownV6 = V6 [16, 15, 14, 13, 12, 11, 10, 9, 8, 7, 6, 5, 4, 3, 2, 1]"

lemmas ip_objects = ip_any4_def ip_any6_def ip_localhost4_def ip_localhost4OtherSubnet_def ip_localHost6_def ip_countUpV4_def
  ip_countDownV4_def ip_countUpV6_def ip_countDownV6_def

definition ip_compare :: "unit_env \<Rightarrow> int \<Rightarrow> string \<Rightarrow> comparison \<Rightarrow> ip_address \<Rightarrow> ip_address \<Rightarrow> statement" where
  "ip_compare ue line expr cmp a b =
     CHECK_compare ue ip_file line expr ordered (ip_toString (ut_inet ue)) (ip_toString (ut_inet ue)) cmp (Inr (a, b))"

text \<open>\<open>CHECK(Address::fromString("...").isP())\<close>\<close>

definition ip_parsed :: "unit_env \<Rightarrow> int \<Rightarrow> string \<Rightarrow> string \<Rightarrow> (ip_address \<Rightarrow> bool) \<Rightarrow> statement" where
  "ip_parsed ue line t member p =
     CHECK ue ip_file line (''Address::fromString('' @ quoted t @ '').'' @ member @ ''()'')
       (res_bind (ip_fromString (ut_inet ue) t) (\<lambda>a. Inr (p a)))"

definition ip_text_tests :: "unit_env \<Rightarrow> unit_test list" where
  "ip_text_tests ue =
     [
      (37, ''toString'', block [
         CHECK_compare ue ip_file 39 (''localhost4.toString() == '' @ quoted ''127.0.0.1'') ordered id literal_text Cmp_eq
           (Inr (ip_toString (ut_inet ue) ip_localhost4, ''127.0.0.1'')),
         CHECK_compare ue ip_file 40 (''localHost6.toString() == '' @ quoted ''::1'') ordered id literal_text Cmp_eq
           (Inr (ip_toString (ut_inet ue) ip_localHost6, ''::1''))]),
      (43, ''fromString'', block [
         CHECK_compare ue ip_file 45 (''Address::fromString('' @ quoted ''127.0.0.1'' @ '').toString() == '' @ quoted ''127.0.0.1'')
           ordered id literal_text Cmp_eq (res_bind (ip_fromString (ut_inet ue) ''127.0.0.1'') (\<lambda>a. Inr (ip_toString (ut_inet ue) a, ''127.0.0.1''))),
         CHECK_compare ue ip_file 46 (''Address::fromString('' @ quoted ''::1'' @ '').toString() == '' @ quoted ''::1'')
           ordered id literal_text Cmp_eq
           (res_bind (ip_fromString (ut_inet ue) ''::1'') (\<lambda>a. Inr (ip_toString (ut_inet ue) a, ''::1''))),
         CHECK_THROWS_AS ue ip_file 47 (''Address::fromString('' @ quoted ''garbage'' @ '')'') ''std::invalid_argument''
           is_invalid_argument (ip_fromString (ut_inet ue) ''garbage'')]),
      (50, ''addressFamily'', block [
         CHECK_compare ue ip_file 52 ''localhost4.family() == Family::IPv4'' family_ops Family_text Family_text Cmp_eq
           (Inr (ip_family ip_localhost4, IPv4)),
         CHECK_compare ue ip_file 53 ''localHost6.family() == Family::IPv6'' family_ops Family_text Family_text Cmp_eq
           (Inr (ip_family ip_localHost6, IPv6))]),
      (56, ''isV4'', block [
         CHECK ue ip_file 58 ''localhost4.isV4()'' (Inr (ip_isV4 ip_localhost4)),
         CHECK ue ip_file 59 ''!localHost6.isV4()'' (Inr (\<not> ip_isV4 ip_localHost6))]),
      (62, ''isV6'', block [
         CHECK ue ip_file 64 ''!localhost4.isV6()'' (Inr (\<not> ip_isV6 ip_localhost4)),
         CHECK ue ip_file 65 ''localHost6.isV6()'' (Inr (ip_isV6 ip_localHost6))])]"

definition ip_class_tests :: "unit_env \<Rightarrow> unit_test list" where
  "ip_class_tests ue =
     [
      (67, ''isMulticast'', block [
         ip_parsed ue 69 ''224.0.0.1'' ''isMulticast'' ip_isMulticast,
         ip_parsed ue 70 ''239.255.255.253'' ''isMulticast'' ip_isMulticast,
         ip_parsed ue 71 ''ff02::1'' ''isMulticast'' ip_isMulticast,
         ip_parsed ue 72 ''ff02::2'' ''isMulticast'' ip_isMulticast,
         ip_parsed ue 73 ''ff02::3'' ''isMulticast'' ip_isMulticast,
         ip_parsed ue 74 ''ff02::4'' ''isMulticast'' ip_isMulticast,
         CHECK ue ip_file 75 ''!defaultCtor.isMulticast()'' (Inr (\<not> ip_isMulticast ip_default)),
         CHECK ue ip_file 76 ''!localhost4.isMulticast()'' (Inr (\<not> ip_isMulticast ip_localhost4)),
         CHECK ue ip_file 77 ''!localHost6.isMulticast()'' (Inr (\<not> ip_isMulticast ip_localHost6)),
         CHECK ue ip_file 78 ''!any4.isMulticast()'' (Inr (\<not> ip_isMulticast ip_any4)),
         CHECK ue ip_file 79 ''!any6.isMulticast()'' (Inr (\<not> ip_isMulticast ip_any6))]),
      (82, ''isUnicastLinkLocal'', block [
         ip_parsed ue 84 ''169.254.0.1'' ''isUnicastLinkLocal'' ip_isUnicastLinkLocal,
         ip_parsed ue 85 ''169.254.255.255'' ''isUnicastLinkLocal'' ip_isUnicastLinkLocal,
         ip_parsed ue 86 ''fe80::1'' ''isUnicastLinkLocal'' ip_isUnicastLinkLocal,
         ip_parsed ue 87 ''fe80::2'' ''isUnicastLinkLocal'' ip_isUnicastLinkLocal,
         ip_parsed ue 88 ''fe80::3'' ''isUnicastLinkLocal'' ip_isUnicastLinkLocal,
         CHECK ue ip_file 89 ''!defaultCtor.isUnicastLinkLocal()'' (Inr (\<not> ip_isUnicastLinkLocal ip_default)),
         CHECK ue ip_file 90 ''!localhost4.isUnicastLinkLocal()'' (Inr (\<not> ip_isUnicastLinkLocal ip_localhost4)),
         CHECK ue ip_file 91 ''!localHost6.isUnicastLinkLocal()'' (Inr (\<not> ip_isUnicastLinkLocal ip_localHost6)),
         CHECK ue ip_file 92 ''!any4.isUnicastLinkLocal()'' (Inr (\<not> ip_isUnicastLinkLocal ip_any4)),
         CHECK ue ip_file 93 ''!any6.isUnicastLinkLocal()'' (Inr (\<not> ip_isUnicastLinkLocal ip_any6))]),
      (96, ''isUniqueLocal'', block [
         ip_parsed ue 98 ''fc00::1'' ''isUniqueLocal'' ip_isUniqueLocal,
         ip_parsed ue 99 ''fd00::1'' ''isUniqueLocal'' ip_isUniqueLocal,
         ip_parsed ue 100 ''fc00:1234:5678:9abc:def0:1234:5678:9abc'' ''isUniqueLocal'' ip_isUniqueLocal,
         CHECK ue ip_file 101 ''!defaultCtor.isUniqueLocal()'' (Inr (\<not> ip_isUniqueLocal ip_default)),
         CHECK ue ip_file 102 ''!localhost4.isUniqueLocal()'' (Inr (\<not> ip_isUniqueLocal ip_localhost4)),
         CHECK ue ip_file 103 ''!localHost6.isUniqueLocal()'' (Inr (\<not> ip_isUniqueLocal ip_localHost6)),
         CHECK ue ip_file 104 ''!any4.isUniqueLocal()'' (Inr (\<not> ip_isUniqueLocal ip_any4)),
         CHECK ue ip_file 105 ''!any6.isUniqueLocal()'' (Inr (\<not> ip_isUniqueLocal ip_any6))]),
      (108, ''isBroadcast'', block [
         ip_parsed ue 110 ''255.255.255.255'' ''isBroadcast'' ip_isBroadcast,
         CHECK ue ip_file 111 (''!Address::fromString('' @ quoted ''192.168.1.1'' @ '').isBroadcast()'')
           (res_bind (ip_fromString (ut_inet ue) ''192.168.1.1'') (\<lambda>a. Inr (\<not> ip_isBroadcast a))),
         CHECK ue ip_file 112 ''!localhost4.isBroadcast()'' (Inr (\<not> ip_isBroadcast ip_localhost4)),
         CHECK ue ip_file 113 ''!localHost6.isBroadcast()'' (Inr (\<not> ip_isBroadcast ip_localHost6)),
         CHECK ue ip_file 114 ''!any4.isBroadcast()'' (Inr (\<not> ip_isBroadcast ip_any4)),
         CHECK ue ip_file 115 ''!any6.isBroadcast()'' (Inr (\<not> ip_isBroadcast ip_any6))]),
      (118, ''isLoopback'', block [
         CHECK ue ip_file 120 ''localhost4.isLoopback()'' (Inr (ip_isLoopback ip_localhost4)),
         CHECK ue ip_file 121 ''localHost6.isLoopback()'' (Inr (ip_isLoopback ip_localHost6)),
         ip_parsed ue 122 ''127.253.253.123'' ''isLoopback'' ip_isLoopback])]"

definition ip_order_tests :: "unit_env \<Rightarrow> unit_test list" where
  "ip_order_tests ue =
     [
      (125, ''operator =='', block [
         ip_compare ue 127 ''defaultCtor == any4'' Cmp_eq ip_default ip_any4,
         ip_compare ue 128 ''defaultCtor == defaultCtor'' Cmp_eq ip_default ip_default,
         ip_compare ue 129 ''localhost4 == localhost4'' Cmp_eq ip_localhost4 ip_localhost4,
         ip_compare ue 130 ''localHost6 == localHost6'' Cmp_eq ip_localHost6 ip_localHost6]),
      (133, ''operator !='', block [
         ip_compare ue 135 ''defaultCtor != any6'' Cmp_ne ip_default ip_any6,
         ip_compare ue 136 ''any6 != any4'' Cmp_ne ip_any6 ip_any4,
         ip_compare ue 137 ''localhost4 != localHost6'' Cmp_ne ip_localhost4 ip_localHost6,
         ip_compare ue 138 ''defaultCtor != localhost4'' Cmp_ne ip_default ip_localhost4,
         ip_compare ue 139 ''defaultCtor != localHost6'' Cmp_ne ip_default ip_localHost6]),
      (142, ''operator <'', block [
         ip_compare ue 144 ''defaultCtor < localhost4'' Cmp_lt ip_default ip_localhost4,
         ip_compare ue 145 ''countUpV4 < countDownV4'' Cmp_lt ip_countUpV4 ip_countDownV4,
         ip_compare ue 146 ''countUpV6 < countDownV6'' Cmp_lt ip_countUpV6 ip_countDownV6,
         ip_compare ue 147 ''localhost4 < localhost4OtherSubnet'' Cmp_lt ip_localhost4 ip_localhost4OtherSubnet,
         ip_compare ue 148 ''localhost4 < localHost6'' Cmp_lt ip_localhost4 ip_localHost6]),
      (151, ''operator <='', block [
         ip_compare ue 153 ''defaultCtor <= defaultCtor'' Cmp_le ip_default ip_default,
         ip_compare ue 154 ''defaultCtor <= localhost4'' Cmp_le ip_default ip_localhost4,
         ip_compare ue 155 ''countUpV6 <= countDownV6'' Cmp_le ip_countUpV6 ip_countDownV6,
         ip_compare ue 156 ''countUpV4 <= countDownV4'' Cmp_le ip_countUpV4 ip_countDownV4,
         ip_compare ue 157 ''localhost4 <= localhost4'' Cmp_le ip_localhost4 ip_localhost4,
         ip_compare ue 158 ''localhost4 <= localHost6'' Cmp_le ip_localhost4 ip_localHost6]),
      (161, ''operator >'', block [
         ip_compare ue 163 ''countDownV4 > countUpV4'' Cmp_gt ip_countDownV4 ip_countUpV4,
         ip_compare ue 164 ''countDownV6 > countUpV6'' Cmp_gt ip_countDownV6 ip_countUpV6,
         ip_compare ue 165 ''localHost6 > defaultCtor'' Cmp_gt ip_localHost6 ip_default,
         ip_compare ue 166 ''localhost4 > defaultCtor'' Cmp_gt ip_localhost4 ip_default,
         ip_compare ue 167 ''localhost4OtherSubnet > localhost4'' Cmp_gt ip_localhost4OtherSubnet ip_localhost4,
         ip_compare ue 168 ''localHost6 > localhost4'' Cmp_gt ip_localHost6 ip_localhost4]),
      (171, ''operator >='', block [
         ip_compare ue 173 ''countDownV4 >= countUpV4'' Cmp_ge ip_countDownV4 ip_countUpV4,
         ip_compare ue 174 ''countDownV6 >= countUpV6'' Cmp_ge ip_countDownV6 ip_countUpV6,
         ip_compare ue 175 ''localHost6 >= defaultCtor'' Cmp_ge ip_localHost6 ip_default,
         ip_compare ue 176 ''localhost4 >= defaultCtor'' Cmp_ge ip_localhost4 ip_default,
         ip_compare ue 177 ''localhost4OtherSubnet >= localhost4'' Cmp_ge ip_localhost4OtherSubnet ip_localhost4,
         ip_compare ue 178 ''localHost6 >= localhost4'' Cmp_ge ip_localHost6 ip_localhost4])]"

section \<open>src/network/Address.test.cpp\<close>

text \<open>The initialiser of \<open>someV6\<close> is an argument: it is computed before \<open>main\<close>.\<close>

definition net_file :: string where "net_file = ''src/network/Address.test.cpp''"

definition net_someV4 :: ip_address where "net_someV4 = V4 [192, 168, 17, 1]"
definition net_someBroadcastV4 :: ip_address where "net_someBroadcastV4 = V4 [192, 168, 17, 255]"

definition net_addrV6 :: "ip_address \<Rightarrow> net_address" where
  "net_addrV6 v6 = \<lparr>m_ip = v6, m_brd = None, m_prefixlen = 24, m_scope = Global, m_flags = fs_from_u32 5,
     m_prot = Prot_Unspecified\<rparr>"

definition net_addrV4 :: net_address where
  "net_addrV4 = \<lparr>m_ip = net_someV4, m_brd = Some net_someBroadcastV4, m_prefixlen = 24, m_scope = Global,
     m_flags = fs_from_u32 10, m_prot = Prot_KernelLinkLocal\<rparr>"

definition net_compare :: "unit_env \<Rightarrow> int \<Rightarrow> string \<Rightarrow> comparison \<Rightarrow> net_address \<Rightarrow> net_address \<Rightarrow> statement" where
  "net_compare ue line expr cmp a b =
     CHECK_compare ue net_file line expr ordered (net_toString (ut_inet ue)) (net_toString (ut_inet ue)) cmp (Inr (a, b))"

definition net_tests :: "unit_env \<Rightarrow> ip_address \<Rightarrow> unit_test list" where
  "net_tests ue v6 =
     [
      (29, ''family'', block [
         CHECK_compare ue net_file 31 ''addrV4.family() == someV4.family()'' family_ops Family_text Family_text Cmp_eq
           (Inr (net_family net_addrV4, ip_family net_someV4)),
         CHECK_compare ue net_file 32 ''defaultAddress.family() == network::Family::IPv4'' family_ops Family_text Family_text Cmp_eq
           (Inr (net_family net_default, IPv4))]),
      (35, ''isV4'', block [
         CHECK ue net_file 37 ''addrV4.isV4()'' (Inr (net_isV4 net_addrV4)),
         CHECK ue net_file 38 ''defaultAddress.isV4()'' (Inr (net_isV4 net_default))]),
      (41, ''isV6'', block [
         CHECK ue net_file 43 ''!addrV4.isV6()'' (Inr (\<not> net_isV6 net_addrV4)),
         CHECK ue net_file 44 ''addrV6.isV6()'' (Inr (net_isV6 (net_addrV6 v6))),
         CHECK ue net_file 45 ''!defaultAddress.isV6()'' (Inr (\<not> net_isV6 net_default))]),
      (48, ''ip'', block [
         CHECK_compare ue net_file 50 ''addrV4.ip() == someV4'' ordered
           (ip_toString (ut_inet ue)) (ip_toString (ut_inet ue)) Cmp_eq
           (Inr (m_ip net_addrV4, net_someV4)),
         CHECK_compare ue net_file 51 ''defaultAddress.ip() == ip::Address {}'' ordered
           (ip_toString (ut_inet ue)) (ip_toString (ut_inet ue)) Cmp_eq
           (Inr (m_ip net_default, ip_default))]),
      (54, ''broadcast'', block [
         CHECK_compare ue net_file 56 ''addrV4.broadcast() == someBroadcastV4''
           (by_key id Some) (\<lambda>_. unprintable) (ip_toString (ut_inet ue)) Cmp_eq (Inr (m_brd net_addrV4, net_someBroadcastV4)),
         CHECK_compare ue net_file 57 ''defaultAddress.broadcast() == std::nullopt''
           ordered (\<lambda>_. unprintable) (\<lambda>_. unprintable) Cmp_eq (Inr (m_brd net_default, None))]),
      (60, ''prefixLength'', block [
         CHECK_compare ue net_file 62 ''addrV4.prefixLength() == 24''
           (by_key uint sint) toString_unsigned toString_signed Cmp_eq (Inr (m_prefixlen net_addrV4, (24 :: i32))),
         CHECK_compare ue net_file 63 ''defaultAddress.prefixLength() == 0''
           (by_key uint sint) toString_unsigned toString_signed Cmp_eq (Inr (m_prefixlen net_default, (0 :: i32)))]),
      (66, ''scope'', block [
         CHECK_compare ue net_file 68 ''addrV4.scope() == scope''
           (by_key Scope_underlying Scope_underlying) Scope_text Scope_text Cmp_eq
           (Inr (m_scope net_addrV4, Global)),
         CHECK_compare ue net_file 69 ''defaultAddress.scope() == network::Scope::Nowhere''
           (by_key Scope_underlying Scope_underlying) Scope_text Scope_text Cmp_eq
           (Inr (m_scope net_default, Nowhere))]),
      (72, ''flags'', with_info (''Address flags '' @ AddressFlags_text (m_flags net_addrV4)) (block [
         CHECK ue net_file 75 ''addrV4.flags().test(AddressFlag::HomeAddress)''
           (fs_test (AddressFlag_underlying AFlag_HomeAddress) (m_flags net_addrV4)),
         CHECK ue net_file 76 ''addrV4.flags().test(AddressFlag::NoDuplicateAddressDetection)''
           (fs_test (AddressFlag_underlying AFlag_NoDuplicateAddressDetection) (m_flags net_addrV4)),
         CHECK ue net_file 77 ''defaultAddress.flags().none()'' (Inr (fs_none (m_flags net_default)))])),
      (80, ''proto'', block [
         CHECK_compare ue net_file 82 ''addrV4.addressAssignmentProtocol() == AddressAssignmentProtocol::KernelLinkLocal''
           (by_key Protocol_underlying Protocol_underlying) Protocol_text Protocol_text Cmp_eq
           (Inr (m_prot net_addrV4, Prot_KernelLinkLocal)),
         CHECK_compare ue net_file 83 ''addrV6.addressAssignmentProtocol() == AddressAssignmentProtocol::Unspecified''
           (by_key Protocol_underlying Protocol_underlying) Protocol_text Protocol_text Cmp_eq
           (Inr (m_prot (net_addrV6 v6), Prot_Unspecified)),
         CHECK_compare ue net_file 84 ''defaultAddress.addressAssignmentProtocol() == AddressAssignmentProtocol::Unspecified''
           (by_key Protocol_underlying Protocol_underlying) Protocol_text Protocol_text Cmp_eq
           (Inr (m_prot net_default, Prot_Unspecified))]),
      (87, ''operator =='', block [
         net_compare ue 89 ''defaultAddress == defaultAddress'' Cmp_eq net_default net_default,
         net_compare ue 90 ''addrV4 == addrV4'' Cmp_eq net_addrV4 net_addrV4]),
      (93, ''operator !='', block [
         net_compare ue 95 ''defaultAddress != addrV4'' Cmp_ne net_default net_addrV4]),
      (98, ''operator <'', block [
         net_compare ue 100 ''defaultAddress < addrV4'' Cmp_lt net_default net_addrV4,
         net_compare ue 101 ''addrV4 >= defaultAddress'' Cmp_ge net_addrV4 net_default]),
      (104, ''operator >='', block [
         net_compare ue 106 ''addrV4 >= defaultAddress'' Cmp_ge net_addrV4 net_default])]"

section \<open>src/network/Interface.test.cpp\<close>

definition if_file :: string where "if_file = ''src/network/Interface.test.cpp''"

definition if_defaultInterface :: interface where "if_defaultInterface = \<lparr>if_index = 0, if_name = ''default''\<rparr>"
definition if_someInterface :: interface where "if_someInterface = \<lparr>if_index = 1, if_name = ''some''\<rparr>"
definition if_renamedSomeInterface :: interface where "if_renamedSomeInterface = \<lparr>if_index = 1, if_name = ''renamed''\<rparr>"

definition if_compare :: "unit_env \<Rightarrow> int \<Rightarrow> string \<Rightarrow> comparison \<Rightarrow> interface \<Rightarrow> interface \<Rightarrow> statement" where
  "if_compare ue line expr cmp a b = CHECK_compare ue if_file line expr if_ops if_text if_text cmp (Inr (a, b))"

definition if_tests :: "unit_env \<Rightarrow> unit_test list" where
  "if_tests ue =
     [
      (22, ''from name'', local_variable ue (if_fromName (ut_os ue) ''lo'') (\<lambda>iface. block [
         CHECK_compare ue if_file 25 ''iface.index() != 0'' ordered toString_unsigned toString_signed Cmp_ne
           (Inr (if_index iface, 0 :: i32)),
         CHECK_compare ue if_file 26 (''iface.name() == '' @ quoted ''lo'') ordered id literal_text Cmp_eq
           (Inr (if_name iface, ''lo'')),
         CHECK_THROWS_AS ue if_file 27 (''std::ignore = Interface::fromName('' @ quoted ''nonexistent'' @ '')'')
           ''std::system_error'' is_system_error (if_fromName (ut_os ue) ''nonexistent'')])),
      (30, ''from index'', local_variable ue (if_fromName (ut_os ue) ''lo'') (\<lambda>lo.
         local_variable ue (if_fromIndex (ut_os ue) (if_index lo)) (\<lambda>iface. block [
         CHECK_compare ue if_file 34 ''iface.index() == lo.index()'' ordered toString_unsigned toString_unsigned Cmp_eq
           (Inr (if_index iface, if_index lo)),
         CHECK_compare ue if_file 35 (''iface.name() == '' @ quoted ''lo'') ordered id literal_text Cmp_eq
           (Inr (if_name iface, ''lo'')),
         CHECK_THROWS_AS ue if_file 36 ''std::ignore = Interface::fromIndex(0)''
           ''std::system_error'' is_system_error (if_fromIndex (ut_os ue) 0)]))),
      (39, ''operator =='', block [
         if_compare ue 41 ''defaultInterface == defaultInterface'' Cmp_eq if_defaultInterface if_defaultInterface,
         if_compare ue 42 ''someInterface == someInterface'' Cmp_eq if_someInterface if_someInterface,
         if_compare ue 43 ''someInterface == renamedSomeInterface'' Cmp_eq if_someInterface if_renamedSomeInterface]),
      (46, ''operator !='', block [
         if_compare ue 48 ''defaultInterface != someInterface'' Cmp_ne if_defaultInterface if_someInterface,
         if_compare ue 49 ''someInterface != defaultInterface'' Cmp_ne if_someInterface if_defaultInterface,
         if_compare ue 50 ''defaultInterface != renamedSomeInterface'' Cmp_ne if_defaultInterface if_renamedSomeInterface]),
      (53, ''operator <'', block [
         if_compare ue 55 ''defaultInterface < someInterface'' Cmp_lt if_defaultInterface if_someInterface,
         if_compare ue 56 ''defaultInterface < renamedSomeInterface'' Cmp_lt if_defaultInterface if_renamedSomeInterface]),
      (59, ''operator >='', block [
         if_compare ue 61 ''someInterface >= defaultInterface'' Cmp_ge if_someInterface if_defaultInterface,
         if_compare ue 62 ''renamedSomeInterface >= defaultInterface'' Cmp_ge if_renamedSomeInterface if_defaultInterface])]"

section \<open>The program\<close>

definition ip_tests :: "unit_env \<Rightarrow> unit_test list" where
  "ip_tests ue = ip_text_tests ue @ ip_class_tests ue @ ip_order_tests ue"

text \<open>A file holds one suite; its functions are numbered through the files.\<close>

definition unit_decls :: "string \<Rightarrow> string \<Rightarrow> nat \<Rightarrow> (nat \<times> string \<times> 'b) list \<Rightarrow> decl list" where
  "unit_decls src suite base ts =
     [Test_suite_block 0 [Dec_name suite]
        (map (\<lambda>(f, line, name, body). Test_case src (of_nat line) f [Dec_name name]) (enumerate base ts))]"

definition test_units :: "unit_env \<Rightarrow> ip_address \<Rightarrow> (nat \<times> decl list) list" where
  "test_units ue v6 =
     [(0, unit_decls eth_file ''[ethernet::Address]'' 0 (eth_tests ue)),
      (1, unit_decls ip_file ''[ip::Address]'' 7 (ip_tests ue)),
      (2, unit_decls net_file ''[network::Address]'' 23 (net_tests ue v6)),
      (3, unit_decls if_file ''[network::Interface]'' 36 (if_tests ue)),
      (4, lib_decls),
      (5, [])]"

definition test_bodies :: "unit_env \<Rightarrow> ip_address \<Rightarrow> statement list" where
  "test_bodies ue v6 = map (\<lambda>(line, name, body). body) (eth_tests ue @ ip_tests ue @ net_tests ue v6 @ if_tests ue)"

text \<open>
  The test program, its units in some order: the static objects, of which only the address that is parsed can fail, the
  tests, and \<open>main\<close>. An exception of an initialiser ends the process.
\<close>

definition unit_test_program :: "unit_env \<Rightarrow> test_environment \<Rightarrow> reporting \<Rightarrow> (ip_address \<Rightarrow> (nat \<times> decl list) list) \<Rightarrow> nat \<Rightarrow>
    globals \<Rightarrow> context_state \<Rightarrow> string list \<Rightarrow> (failure + int \<times> globals) option" where
  "unit_test_program ue env rp units p g raw argv =
     (case ip_fromString (ut_inet ue) ''2001:db8::1'' of
        Inl e \<Rightarrow> Some (Inl (Abort (ut_what ue e)))
      | Inr v6 \<Rightarrow>
          (case program_initializers (units v6) of
             None \<Rightarrow> None
           | Some is \<Rightarrow> doctest_main (env\<lparr>env_call := (\<lambda>tc. test_bodies ue v6 ! m_test tc)\<rparr>) rp (static_init is registry_new) p g raw argv))"

section \<open>The tests pass\<close>

lemma evaluated_Inr [simp]: "evaluated ue (Inr a) k = k (Inr a)"
  by (simp add: evaluated_def fun_eq_iff)

lemma evaluated_exception [simp]: "is_exception e \<Longrightarrow> evaluated ue (Inl e) k = k (Inl (Std_exception (ut_what ue e)))"
  by (simp add: evaluated_def fun_eq_iff)

named_theorems passes \<open>statements that pass\<close>

lemma passing_CHECK [passes]: "v = Inr True \<Longrightarrow> passing (CHECK ue src line expr v)"
  by (simp add: CHECK_def passing_truth)

lemma passing_CHECK_compare [passes]:
  "(case v of Inl e \<Rightarrow> False | Inr (l, r) \<Rightarrow> ops cmp l r) \<Longrightarrow> passing (CHECK_compare ue src line expr ops strl strr cmp v)"
  by (auto simp: CHECK_compare_def passing_comparison split: sum.splits)

lemma passing_CHECK_THROWS_AS [passes]:
  "(case v of Inl e \<Rightarrow> is_exception e \<and> is_type e | Inr a \<Rightarrow> False) \<Longrightarrow> passing (CHECK_THROWS_AS ue src line expr type is_type v)"
  by (auto simp: CHECK_THROWS_AS_def passing_throws_as split: sum.splits)

lemma passing_block [passes]: "list_all passing ss \<Longrightarrow> passing (block ss)"
  by (simp add: block_def passing_items)

lemma passing_local [passes]:
  "(case v of Inl e \<Rightarrow> False | Inr a \<Rightarrow> passing (k a)) \<Longrightarrow> passing (local_variable ue v k)"
  by (cases v) (simp_all add: local_variable_def)

declare passing_with_info [passes]

text \<open>What the tests ask of the C library: these texts, and no other, have to be known.\<close>

definition texts4 :: "(string \<times> u8 list) list" where
  "texts4 =
     [(''127.0.0.1'', [127, 0, 0, 1]), (''224.0.0.1'', [224, 0, 0, 1]), (''239.255.255.253'', [239, 255, 255, 253]),
      (''169.254.0.1'', [169, 254, 0, 1]), (''169.254.255.255'', [169, 254, 255, 255]),
      (''255.255.255.255'', [255, 255, 255, 255]), (''192.168.1.1'', [192, 168, 1, 1]),
      (''127.253.253.123'', [127, 253, 253, 123])]"

definition short6 :: "u8 list \<Rightarrow> u8 \<Rightarrow> u8 list" where
  "short6 front b = front @ replicate (15 - length front) 0 @ [b]"

definition texts6 :: "(string \<times> u8 list) list" where
  "texts6 =
     [(''::1'', short6 [] 1), (''ff02::1'', short6 [0xff, 2] 1), (''ff02::2'', short6 [0xff, 2] 2),
      (''ff02::3'', short6 [0xff, 2] 3), (''ff02::4'', short6 [0xff, 2] 4), (''fe80::1'', short6 [0xfe, 0x80] 1),
      (''fe80::2'', short6 [0xfe, 0x80] 2), (''fe80::3'', short6 [0xfe, 0x80] 3), (''fc00::1'', short6 [0xfc, 0] 1),
      (''fd00::1'', short6 [0xfd, 0] 1), (''2001:db8::1'', short6 [0x20, 1, 0xd, 0xb8] 1),
      (''fc00:1234:5678:9abc:def0:1234:5678:9abc'',
       [0xfc, 0, 0x12, 0x34, 0x56, 0x78, 0x9a, 0xbc, 0xde, 0xf0, 0x12, 0x34, 0x56, 0x78, 0x9a, 0xbc])]"

definition inet_knows :: "inet_api \<Rightarrow> bool" where
  "inet_knows I \<longleftrightarrow>
     list_all (\<lambda>(t, b). inet_pton I AF_INET t = Some b) texts4 \<and>
     list_all (\<lambda>(t, b). inet_pton I AF_INET t = None \<and> inet_pton I AF_INET6 t = Some b) texts6 \<and>
     inet_pton I AF_INET ''garbage'' = None \<and> inet_pton I AF_INET6 ''garbage'' = None \<and>
     inet_ntop I AF_INET [127, 0, 0, 1] INET_ADDRSTRLEN = Some ''127.0.0.1'' \<and>
     inet_ntop I AF_INET6 (short6 [] 1) INET6_ADDRSTRLEN = Some ''::1''"

definition os_knows :: "if_api \<Rightarrow> bool" where
  "os_knows os \<longleftrightarrow> if_api_consistent os \<and> fst (if_nametoindex os ''lo'') \<noteq> 0 \<and>
     fst (if_nametoindex os ''nonexistent'') = 0 \<and> (\<exists>err. if_indextoname os 0 = Inl err)"

lemma known4: "inet_knows I \<Longrightarrow> (t, b) \<in> set texts4 \<Longrightarrow> c_str t = t \<Longrightarrow> ip_fromString I t = Inr (V4 b)"
  by (auto simp: inet_knows_def list_all_iff ip_fromString_def)

lemma known6: "inet_knows I \<Longrightarrow> (t, b) \<in> set texts6 \<Longrightarrow> c_str t = t \<Longrightarrow> ip_fromString I t = Inr (V6 b)"
  by (fastforce simp: inet_knows_def list_all_iff ip_fromString_def)

text \<open>The tests, file by file.\<close>

lemma eth_tests_pass: "list_all (\<lambda>(line, name, body). passing body) (eth_tests ue)"
proof -
  have d: "eth_default = eth_nullAddress" by (simp add: eth_default_def eth_nullAddress_def ADDR_LEN_def eval_nat_numeral)
  have c: "eth_allZeroes eth_nullAddress" "\<not> eth_allZeroes eth_someAddress" "\<not> eth_isBroadcast eth_someAddress"
    "\<not> eth_isBroadcast eth_nullAddress" "eth_nullAddress \<noteq> eth_someAddress" "eth_nullAddress < eth_someAddress"
    by (simp_all add: eth_allZeroes_def eth_isBroadcast_def eth_nullAddress_def eth_someAddress_def less_eth_address_def eth_less_def)
  have t: "eth_toString eth_nullAddress = Inr ''00:00:00:00:00:00''" "eth_toString eth_someAddress = Inr ''01:02:03:04:05:1a''"
    by code_simp+
  show ?thesis
    by (simp add: eth_tests_def passes t c d)
qed

lemma ip_text_tests_pass:
  assumes "inet_knows (ut_inet ue)"
  shows "list_all (\<lambda>(line, name, body). passing body) (ip_text_tests ue)"
proof -
  have t: "ip_toString (ut_inet ue) (V4 [127, 0, 0, 1]) = ''127.0.0.1''" "ip_toString (ut_inet ue) (V6 (short6 [] 1)) = ''::1''"
    using assms by (simp_all add: inet_knows_def ntop_text_def c_str_def)
  have b: "V6 [0, 0, 0, 0, 0, 0, 0, 0, 0, 0, 0, 0, 0, 0, 0, 1] = V6 (short6 [] 1)" by (simp add: short6_def eval_nat_numeral)
  have f: "ip_fromString (ut_inet ue) ''127.0.0.1'' = Inr (V4 [127, 0, 0, 1])" "ip_fromString (ut_inet ue) ''::1'' = Inr (V6 (short6 [] 1))"
    by (rule known4 [OF assms] known6 [OF assms]; simp add: texts4_def texts6_def c_str_def)+
  have g: "case ip_fromString (ut_inet ue) ''garbage'' of Inl e \<Rightarrow> is_exception e \<and> is_invalid_argument e | Inr a \<Rightarrow> False"
    using assms by (simp add: inet_knows_def ip_fromString_def c_str_def)
  show ?thesis
    using g by (simp add: ip_text_tests_def passes t f ip_localhost4_def ip_localHost6_def b ip_isV4_def ip_isV6_def family_ops_def by_key_def
        del: ip_toString.simps)
qed

lemma parsed4:
  assumes "inet_knows (ut_inet ue)" and "map_of texts4 t = Some b" and "c_str t = t" and "p (V4 b)"
  shows "passing (ip_parsed ue line t member p)"
  using known4 [OF assms(1) map_of_SomeD [OF assms(2)] assms(3)] assms(4) by (simp add: ip_parsed_def passes)

lemma parsed6:
  assumes "inet_knows (ut_inet ue)" and "map_of texts6 t = Some b" and "c_str t = t" and "p (V6 b)"
  shows "passing (ip_parsed ue line t member p)"
  using known6 [OF assms(1) map_of_SomeD [OF assms(2)] assms(3)] assms(4) by (simp add: ip_parsed_def passes)

definition parses_well :: "string \<Rightarrow> (ip_address \<Rightarrow> bool) \<Rightarrow> bool" where
  "parses_well t p \<longleftrightarrow> c_str t = t \<and>
     (case map_of texts4 t of Some b \<Rightarrow> p (V4 b) | None \<Rightarrow> (case map_of texts6 t of Some b \<Rightarrow> p (V6 b) | None \<Rightarrow> False))"

lemma ip_class_tests_pass:
  assumes "inet_knows (ut_inet ue)"
  shows "list_all (\<lambda>(line, name, body). passing body) (ip_class_tests ue)"
proof -
  have parsed: "passing (ip_parsed ue line t member p)" if "parses_well t p" for line t member p
    using that parsed4 [OF assms] parsed6 [OF assms] by (auto simp: parses_well_def split: option.splits)
  have local4: "ip_fromString (ut_inet ue) ''192.168.1.1'' = Inr (V4 [192, 168, 1, 1])"
    by (rule known4 [OF assms]; simp add: texts4_def c_str_def)
  have facts: "parses_well ''224.0.0.1'' ip_isMulticast" "parses_well ''239.255.255.253'' ip_isMulticast"
    "parses_well ''ff02::1'' ip_isMulticast" "parses_well ''ff02::2'' ip_isMulticast" "parses_well ''ff02::3'' ip_isMulticast"
    "parses_well ''ff02::4'' ip_isMulticast" "parses_well ''169.254.0.1'' ip_isUnicastLinkLocal"
    "parses_well ''169.254.255.255'' ip_isUnicastLinkLocal" "parses_well ''fe80::1'' ip_isUnicastLinkLocal"
    "parses_well ''fe80::2'' ip_isUnicastLinkLocal" "parses_well ''fe80::3'' ip_isUnicastLinkLocal"
    "parses_well ''fc00::1'' ip_isUniqueLocal" "parses_well ''fd00::1'' ip_isUniqueLocal"
    "parses_well ''fc00:1234:5678:9abc:def0:1234:5678:9abc'' ip_isUniqueLocal"
    "parses_well ''255.255.255.255'' ip_isBroadcast" "parses_well ''127.253.253.123'' ip_isLoopback"
    by code_simp+
  have classes: "list_all (\<lambda>a. \<not> ip_isMulticast a \<and> \<not> ip_isUnicastLinkLocal a \<and> \<not> ip_isUniqueLocal a \<and> \<not> ip_isBroadcast a)
      [ip_default, ip_localhost4, ip_localHost6, ip_any4, ip_any6]" "ip_isLoopback ip_localhost4 \<and> ip_isLoopback ip_localHost6"
    "\<not> ip_isBroadcast (V4 [192, 168, 1, 1])"
    by code_simp+
  show ?thesis
    using classes by (simp add: ip_class_tests_def passes parsed facts local4)
qed

lemma ip_order_tests_pass: "list_all (\<lambda>(line, name, body). passing body) (ip_order_tests ue)"
proof -
  have eq: "ip_any4 = ip_default" by (simp add: ip_any4_def ip_default_def IPV4_ADDR_LEN_def eval_nat_numeral)
  have ne: "ip_default \<noteq> ip_any6" "ip_any6 \<noteq> ip_default" "ip_localhost4 \<noteq> ip_localHost6"
    "ip_default \<noteq> ip_localhost4" "ip_default \<noteq> ip_localHost6"
    by (simp_all add: ip_objects ip_default_def IPV4_ADDR_LEN_def eval_nat_numeral)
  have less: "ip_default < ip_localhost4" "ip_countUpV4 < ip_countDownV4" "ip_countUpV6 < ip_countDownV6"
    "ip_localhost4 < ip_localhost4OtherSubnet" "ip_localhost4 < ip_localHost6" "ip_default < ip_localHost6"
    by code_simp+
  show ?thesis
    using less by (simp add: ip_order_tests_def ip_compare_def passes eq ne less order.strict_implies_order)
qed

lemma net_tests_pass:
  assumes "ip_isV6 v6"
  shows "list_all (\<lambda>(line, name, body). passing body) (net_tests ue v6)"
proof -
  have flags: "fs_test (AddressFlag_underlying AFlag_HomeAddress) (fs_from_u32 10 :: AddressFlags) = Inr True"
    "fs_test (AddressFlag_underlying AFlag_NoDuplicateAddressDetection) (fs_from_u32 10 :: AddressFlags) = Inr True"
    "fs_none (fs_empty :: AddressFlags)"
    by code_simp+
  have less: "net_default < net_addrV4"
    by (simp add: net_order_defs net_key_def net_default_def net_addrV4_def ip_default_def net_someV4_def less_ip_address_def ip_less_def
        IPV4_ADDR_LEN_def eval_nat_numeral)
  note fields = net_addrV4_def net_addrV6_def net_default_def net_family_def net_isV4_def net_isV6_def ip_isV4_def
    family_ops_def by_key_def net_someV4_def ip_default_def
  have v6: "net_isV6 (net_addrV6 v6)" "m_prot (net_addrV6 v6) = Prot_Unspecified" using assms by (simp_all add: net_isV6_def net_addrV6_def)
  have v4: "m_ip net_addrV4 = net_someV4" "m_brd net_addrV4 = Some net_someBroadcastV4" "m_prefixlen net_addrV4 = 24"
    "m_scope net_addrV4 = Global" "m_flags net_addrV4 = fs_from_u32 10" "m_prot net_addrV4 = Prot_KernelLinkLocal"
    "net_family net_addrV4 = IPv4" "ip_family net_someV4 = IPv4" "net_isV4 net_addrV4" "\<not> net_isV6 net_addrV4"
    by (simp_all add: net_addrV4_def net_family_def net_isV4_def net_isV6_def net_someV4_def ip_isV4_def ip_isV6_def)
  have d: "m_ip net_default = ip_default" "m_brd net_default = None" "m_prefixlen net_default = 0" "m_scope net_default = Nowhere"
    "m_flags net_default = fs_empty" "m_prot net_default = Prot_Unspecified" "net_family net_default = IPv4" "net_isV4 net_default"
    "\<not> net_isV6 net_default"
    by (simp_all add: net_default_def net_family_def net_isV4_def net_isV6_def ip_default_def ip_isV4_def ip_isV6_def)
  show ?thesis
    using less by (simp add: net_tests_def net_compare_def passes flags v4 v6 d family_ops_def by_key_def less_imp_neq
        order.strict_implies_order del: AddressFlag_underlying.simps)
qed

lemma if_tests_pass:
  assumes "os_knows (ut_os ue)"
  shows "list_all (\<lambda>(line, name, body). passing body) (if_tests ue)"
proof -
  obtain idx e where lo: "if_nametoindex (ut_os ue) ''lo'' = (idx, e)" "idx \<noteq> 0" "if_indextoname (ut_os ue) idx = Inr ''lo''"
    using assms by (cases "if_nametoindex (ut_os ue) ''lo''") (auto simp: os_knows_def if_api_consistent_def)
  obtain err e' where none: "if_indextoname (ut_os ue) 0 = Inl err" "if_nametoindex (ut_os ue) ''nonexistent'' = (0, e')"
    using assms by (cases "if_nametoindex (ut_os ue) ''nonexistent''") (auto simp: os_knows_def)
  have f: "if_fromName (ut_os ue) ''lo'' = Inr \<lparr>if_index = idx, if_name = ''lo''\<rparr>"
    "if_fromIndex (ut_os ue) idx = Inr \<lparr>if_index = idx, if_name = ''lo''\<rparr>"
    using lo by (simp_all add: if_fromName_def if_fromIndex_def c_str_def)
  have n: "\<exists>t. if_fromName (ut_os ue) ''nonexistent'' = Inl (System_error e' t)" "\<exists>t. if_fromIndex (ut_os ue) 0 = Inl (System_error err t)"
    using none by (simp_all add: if_fromName_def if_fromIndex_def c_str_def)
  show ?thesis
    using n lo(2) by (auto simp: if_tests_def if_compare_def passes f if_equal_def if_less_def if_defaultInterface_def
        if_someInterface_def if_renamedSomeInterface_def)
qed

section \<open>The tests are registered\<close>

definition unit_case :: "string \<Rightarrow> string \<Rightarrow> nat \<times> nat \<times> string \<times> 'b \<Rightarrow> test_case" where
  "unit_case src suite =
     (\<lambda>(f, line, name, body). TestCase_name name (TestCase f src (of_nat line) (suite_of [Dec_name suite]) [] (-1)))"

lemma expand_cases:
  "expand u sc env (map (\<lambda>(f, line, name, body). Test_case src (of_nat line) f [Dec_name name]) xs) =
     Some (map (\<lambda>(f, line, name, body). REGISTER_FUNCTION sc src (of_nat line) f [Dec_name name]) xs)"
  by (induction xs) auto

lemma tests_of_cases:
  "tests_of cur (map (\<lambda>(f, line, name, body). REGISTER_FUNCTION (Some (key, [Dec_name suite])) src (of_nat line) f [Dec_name name]) xs) =
     map (unit_case src suite) xs"
  by (induction xs) (auto simp: REGISTER_FUNCTION_def unit_case_def suite_here_def)

lemma unit_of_cases:
  "unit_initializers u (unit_decls src suite base ts) \<noteq> None"
  "unit_tests (u, unit_decls src suite base ts) = map (unit_case src suite) (enumerate base ts)"
  by (simp_all add: unit_tests_def unit_initializers_def unit_decls_def expand_cases TEST_SUITE_END_def tests_of_cases)

lemma lib_unit [simp]:
  "unit_initializers u lib_decls \<noteq> None" "unit_tests (u, lib_decls) = []" "unit_initializers u [] \<noteq> None" "unit_tests (u, []) = []"
  "block_table lib_decls = []"
  by (simp_all add: unit_tests_def unit_initializers_def lib_decls_def TEST_SUITE_END_def)

text \<open>The reporters that a list of initialisations registers.\<close>

fun reporters_of :: "initializer list \<Rightarrow> (string \<times> int \<times> bool) list" where
  "reporters_of [] = []"
| "reporters_of (Init_reporter name prio r # is) = (name, prio, r) # reporters_of is"
| "reporters_of (i # is) = reporters_of is"

lemma reporters_of_append: "reporters_of (is @ js) = reporters_of is @ reporters_of js"
  by (induction "is" rule: reporters_of.induct) simp_all

lemma initialize_reporters:
  "rg_reporters (initialize i rg) =
    (case i of Init_reporter name prio r \<Rightarrow> registerReporterImpl name prio r (rg_reporters rg) | _ \<Rightarrow> rg_reporters rg)"
  by (cases i) (auto simp: setTestSuite_def getCurrentTestSuite_def Let_def split: option.splits prod.splits)

lemma static_init_reporters:
  "rg_reporters (static_init is rg) = fold (\<lambda>(name, prio, r). registerReporterImpl name prio r) (reporters_of is) (rg_reporters rg)"
  unfolding static_init_def
  by (induction "is" arbitrary: rg rule: reporters_of.induct) (simp_all add: initialize_reporters del: initialize.simps)

definition unit_reporters :: "nat \<times> decl list \<Rightarrow> (string \<times> int \<times> bool) list" where
  "unit_reporters = (\<lambda>(u, ds). case unit_initializers u ds of None \<Rightarrow> [] | Some is \<Rightarrow> reporters_of is)"

lemma reporters_of_program: "program_initializers us = Some is \<Longrightarrow> reporters_of is = concat (map unit_reporters us)"
  by (induction us arbitrary: "is" rule: program_initializers.induct)
    (auto simp: unit_reporters_def reporters_of_append split: option.splits)

lemma reporters_of_cases:
  "reporters_of (map (\<lambda>(f, line, name, body). REGISTER_FUNCTION sc src (of_nat line) f [Dec_name name]) xs) = []"
  by (induction xs) (auto simp: REGISTER_FUNCTION_def)

lemma unit_reporters_simps:
  "unit_reporters (u, unit_decls src suite base ts) = []" "unit_reporters (u, []) = []"
  "unit_reporters (u, lib_decls) = [(''xml'', 0, True), (''junit'', 0, True), (''console'', 0, True)]"
  by (simp_all add: unit_reporters_def unit_initializers_def unit_decls_def expand_cases TEST_SUITE_END_def reporters_of_append
      reporters_of_cases lib_decls_def)

lemma concat_single:
  assumes "filter (\<lambda>x. f x \<noteq> []) xs = [x]"
  shows "concat (map f xs) = f x"
proof -
  have "concat (map f xs) = concat (map f (filter (\<lambda>x. f x \<noteq> []) xs))" by (induction xs) auto
  then show ?thesis by (simp add: assms)
qed

text \<open>In whatever order the units are linked, the three reporters of the framework are registered.\<close>

lemma registered_reporters:
  assumes "mset us = mset (test_units ue v6)" and "program_initializers us = Some is"
  shows "rg_reporters (static_init is registry_new) = lib_reporters"
proof -
  let ?P = "\<lambda>u. unit_reporters u \<noteq> []"
  have "filter ?P (test_units ue v6) = [(4, lib_decls)]" by (simp add: test_units_def unit_reporters_simps)
  moreover have "mset (filter ?P us) = mset (filter ?P (test_units ue v6))" using assms(1) by (simp add: mset_filter)
  ultimately have "filter ?P us = [(4, lib_decls)]" by (metis mset.simps mset_single_iff)
  then have "reporters_of is = unit_reporters (4, lib_decls)"
    unfolding reporters_of_program [OF assms(2)] by (rule concat_single)
  then have registered: "reporters_of is = [(''xml'', 0, True), (''junit'', 0, True), (''console'', 0, True)]"
    by (simp only: unit_reporters_simps)
  show ?thesis
    unfolding static_init_reporters registered by code_simp
qed

lemma unit_case_expects:
  assumes "\<forall>secs. \<not> timed_out (env_fp env) 0 secs"
  shows "expects_success env (unit_case src suite x)"
  using assms
  by (cases x) (simp add: expects_success_def unit_case_def TestCase_name_def TestCase_def suite_of_def TestSuite_name_def TestSuite_def Let_def)

lemma unit_case_fields: "m_test (unit_case src suite (f, line, name, body)) = f"
  by (simp add: unit_case_def TestCase_name_def TestCase_def Let_def)

lemma unit_case_key: "reg_key (unit_case src suite (f, line, name, body)) = (of_nat line, name, src, -1)"
  by (simp add: unit_case_def TestCase_name_def TestCase_def Let_def reg_key_def)

lemma unit_case_texts: "no_nul name \<Longrightarrow> no_nul src \<Longrightarrow> no_nul suite \<Longrightarrow> c_texts (unit_case src suite (f, line, name, body))"
  by (simp add: c_texts_def unit_case_def TestCase_name_def TestCase_def suite_of_def TestSuite_name_def no_nul_def Let_def)

text \<open>The names and lines of the tests; the bodies do not matter for the registration.\<close>

definition test_heads :: "unit_env \<Rightarrow> ip_address \<Rightarrow> (string \<times> (nat \<times> string) list) list" where
  "test_heads ue v6 =
     [(eth_file, map (\<lambda>(line, name, body). (line, name)) (eth_tests ue)),
      (ip_file, map (\<lambda>(line, name, body). (line, name)) (ip_tests ue)),
      (net_file, map (\<lambda>(line, name, body). (line, name)) (net_tests ue v6)),
      (if_file, map (\<lambda>(line, name, body). (line, name)) (if_tests ue))]"

lemma heads:
  "test_heads ue v6 =
     [(''src/ethernet/Address.test.cpp'', [(21, ''default constructor''), (26, ''constructor with bytes''), (31, ''isBroadcast''),
        (38, ''toString''), (44, ''operator ==''), (50, ''operator !=''), (55, ''operator <'')]),
      (''src/ip/Address.test.cpp'', [(37, ''toString''), (43, ''fromString''), (50, ''addressFamily''), (56, ''isV4''), (62, ''isV6''),
        (67, ''isMulticast''), (82, ''isUnicastLinkLocal''), (96, ''isUniqueLocal''), (108, ''isBroadcast''), (118, ''isLoopback''),
        (125, ''operator ==''), (133, ''operator !=''), (142, ''operator <''), (151, ''operator <=''), (161, ''operator >''),
        (171, ''operator >='')]),
      (''src/network/Address.test.cpp'', [(29, ''family''), (35, ''isV4''), (41, ''isV6''), (48, ''ip''), (54, ''broadcast''),
        (60, ''prefixLength''), (66, ''scope''), (72, ''flags''), (80, ''proto''), (87, ''operator ==''), (93, ''operator !=''),
        (98, ''operator <''), (104, ''operator >='')]),
      (''src/network/Interface.test.cpp'', [(22, ''from name''), (30, ''from index''), (39, ''operator ==''), (46, ''operator !=''),
        (53, ''operator <''), (59, ''operator >='')])]"
  by (simp add: test_heads_def eth_tests_def ip_tests_def ip_text_tests_def ip_class_tests_def ip_order_tests_def net_tests_def
      if_tests_def eth_file_def ip_file_def net_file_def if_file_def)

definition head_key :: "string \<Rightarrow> nat \<times> string \<Rightarrow> u32 \<times> string \<times> string \<times> int" where
  "head_key src = (\<lambda>(line, name). (of_nat line, name, src, -1))"

lemma unit_keys:
  "map reg_key (map (unit_case src suite) (enumerate base ts)) = map (head_key src) (map (\<lambda>(line, name, body). (line, name)) ts)"
  by (induction ts arbitrary: base) (auto simp: unit_case_key head_key_def)

lemma program_keys:
  "map reg_key (concat (map unit_tests (test_units ue v6))) = concat (map (\<lambda>(src, hs). map (head_key src) hs) (test_heads ue v6))"
  by (simp add: test_units_def test_heads_def unit_of_cases unit_keys del: map_map)

lemma distinct_keys: "distinct (map reg_key (concat (map unit_tests (test_units ue v6))))"
  unfolding program_keys heads by (simp add: head_key_def)

lemma cases_texts:
  "no_nul src \<Longrightarrow> no_nul suite \<Longrightarrow> list_all (\<lambda>(line, name). no_nul name) (map (\<lambda>(line, name, body). (line, name)) ts) \<Longrightarrow>
   list_all c_texts (map (unit_case src suite) (enumerate base ts))"
  by (induction ts arbitrary: base) (auto simp: unit_case_texts)

lemma program_texts: "list_all c_texts (concat (map unit_tests (test_units ue v6)))"
proof -
  have "list_all (\<lambda>(src, hs). no_nul src \<and> list_all (\<lambda>(line, name). no_nul name) hs) (test_heads ue v6)"
    by (simp add: heads no_nul_def)
  moreover have "list_all no_nul [''[ethernet::Address]'', ''[ip::Address]'', ''[network::Address]'', ''[network::Interface]'']"
    by (simp add: no_nul_def)
  ultimately show ?thesis
    by (simp add: test_units_def test_heads_def unit_of_cases cases_texts)
qed

lemma test_units_ok:
  assumes "mset us = mset (test_units ue v6)"
  shows "\<exists>is. program_initializers us = Some is" and "well_numbered us" and "tests_distinguishable us"
proof -
  let ?ts = "concat (map unit_tests (test_units ue v6))"
  have same: "set us = set (test_units ue v6)" using assms by (rule mset_eq_setD)
  show "\<exists>is. program_initializers us = Some is"
    unfolding program_initializers_compile same
    by (simp add: test_units_def unit_of_cases(1) del: not_None_eq)
  have "distinct (map fst us) = distinct (map fst (test_units ue v6))"
    using assms by (metis mset_eq_imp_distinct_iff mset_map)
  moreover have "block_table (map (\<lambda>(f, line, name, body). Test_case src (of_nat line) f [Dec_name name]) xs) = []"
    for src and xs :: "(nat \<times> nat \<times> string \<times> statement) list"
    by (induction xs) auto
  ultimately show "well_numbered us"
    unfolding well_numbered_def same by (simp add: test_units_def unit_decls_def)
  have "set (concat (map unit_tests us)) = set ?ts" using same by simp
  moreover have "inj_on reg_key (set ?ts)" using distinct_keys [of ue v6] by (simp only: distinct_map)
  ultimately show "tests_distinguishable us"
    using program_texts [of ue v6] unfolding tests_distinguishable_def by (simp only: list_all_iff)
qed

text \<open>Every registered test has its body, and passes.\<close>

lemma bodies_pass:
  assumes "inet_knows (ut_inet ue)" and "os_knows (ut_os ue)" and "ip_isV6 v6"
  shows "list_all passing (test_bodies ue v6)"
proof -
  have "list_all (\<lambda>(line, name, body). passing body) (eth_tests ue @ ip_tests ue @ net_tests ue v6 @ if_tests ue)"
    using eth_tests_pass ip_text_tests_pass ip_class_tests_pass ip_order_tests_pass net_tests_pass if_tests_pass assms
    by (simp add: ip_tests_def)
  then show ?thesis by (simp only: test_bodies_def list.pred_map comp_def split_def)
qed

lemma lengths: "length (eth_tests ue) = 7" "length (ip_tests ue) = 16" "length (net_tests ue v6) = 13" "length (if_tests ue) = 6"
  by (simp_all add: eth_tests_def ip_tests_def ip_text_tests_def ip_class_tests_def ip_order_tests_def net_tests_def if_tests_def)

lemma program_cases:
  assumes "\<forall>secs. \<not> timed_out (env_fp env) 0 secs" and "tc \<in> set (concat (map unit_tests (test_units ue v6)))"
  shows "expects_success env tc \<and> m_test tc < length (test_bodies ue v6)"
proof -
  have cases: "tc \<in> set (map (unit_case eth_file ''[ethernet::Address]'') (enumerate 0 (eth_tests ue))) \<or>
      tc \<in> set (map (unit_case ip_file ''[ip::Address]'') (enumerate 7 (ip_tests ue))) \<or>
      tc \<in> set (map (unit_case net_file ''[network::Address]'') (enumerate 23 (net_tests ue v6))) \<or>
      tc \<in> set (map (unit_case if_file ''[network::Interface]'') (enumerate 36 (if_tests ue)))"
    using assms(2) by (simp only: test_units_def unit_of_cases lib_unit list.map list.set concat.simps set_append Un_iff append_Nil2
        empty_iff simp_thms)
  have "length (test_bodies ue v6) = 42" by (simp add: test_bodies_def lengths)
  moreover have "m_test tc < 42"
    using cases by (auto simp: lengths in_set_enumerate_eq unit_case_fields)
  moreover have "expects_success env tc"
    using cases unit_case_expects [OF assms(1)] by auto
  ultimately show ?thesis by simp
qed

section \<open>The claim\<close>

text \<open>
  (C24) The unit tests of the addresses and the interface hold of their models. In a program of these four files, of the unit
  that holds the framework with its three reporters, and of that with \<open>main\<close>, linked in any order, all 42 tests are
  registered before \<open>main\<close>; and with any command line, so in any order, under any filters and with any of the reporters, the
  program ends, and it exits with 0, on any system that knows the texts and the interfaces the tests name. One kind of command
  line is the exception, and there the program reads through a null pointer: the XML reporter is chosen, and a query is
  asked for together with an option that is answered before there are counters.
\<close>

theorem unit_tests_exit_zero:
  assumes "inet_knows (ut_inet ue)" and "os_knows (ut_os ue)" and "\<forall>secs. \<not> timed_out (env_fp env) 0 secs"
    and "\<And>v6. mset (units v6) = mset (test_units ue v6)"
  shows "(\<exists>v6 is. ip_fromString (ut_inet ue) ''2001:db8::1'' = Inr v6 \<and> program_initializers (units v6) = Some is \<and>
      length (rg_tests (static_init is registry_new)) = 42) \<and>
    (\<exists>g'. unit_test_program ue env rp units p g raw argv = Some
      (if asks_without_counters (ctx_options (start_context raw argv)) \<and>
         xml_key \<in> set (used_reporters lib_reporters (start_context raw argv)) then Inl Null_deref else Inr (0, g')))"
proof -
  define v6 where "v6 = V6 (short6 [0x20, 1, 0xd, 0xb8] 1)"
  have v6: "ip_fromString (ut_inet ue) ''2001:db8::1'' = Inr v6" "ip_isV6 v6"
    using known6 [OF assms(1), of "''2001:db8::1''"] by (simp_all add: texts6_def c_str_def v6_def ip_isV6_def)
  let ?ts = "concat (map unit_tests (test_units ue v6))"
  obtain "is" where "is": "program_initializers (units v6) = Some is" using test_units_ok(1) [OF assms(4)] by blast
  define rg where "rg = static_init is registry_new"
  have reg: "sorted_wrt (\<lambda>a b. reg_key a < reg_key b) (rg_tests rg)" "set (rg_tests rg) = set ?ts"
    using registered_tests [OF "is" test_units_ok(2,3) [OF assms(4)]] mset_eq_setD [OF assms(4), of v6] by (simp_all add: rg_def)
  have "distinct (rg_tests rg)" using reg(1) by (simp add: sorted_wrt_map [symmetric] strict_sorted_iff distinct_map)
  moreover have "distinct ?ts" using distinct_keys [of ue v6] by (simp only: distinct_map)
  moreover have "length ?ts = 42" by (simp add: test_units_def unit_of_cases lengths)
  ultimately have count: "length (rg_tests rg) = 42" using reg(2) by (metis distinct_card)
  let ?env = "env\<lparr>env_call := (\<lambda>tc. test_bodies ue v6 ! m_test tc)\<rparr>"
  have "passing (env_call ?env tc) \<and> expects_success ?env tc" if "tc \<in> set (rg_tests rg)" for tc
    using program_cases [of ?env tc ue v6] bodies_pass [OF assms(1,2) v6(2)] assms(3) that reg(2)
    by (simp add: list_all_length del: set_concat set_map)
  moreover have "rg_reporters rg = lib_reporters" using registered_reporters [OF assms(4) "is"] by (simp add: rg_def)
  ultimately have "\<exists>g'. doctest_main ?env rp rg p g raw argv = Some
      (if asks_without_counters (ctx_options (start_context raw argv)) \<and>
         xml_key \<in> set (used_reporters lib_reporters (start_context raw argv)) then Inl Null_deref else Inr (0, g'))"
    by (intro main_exits_zero) simp_all
  then show ?thesis
    using v6(1) "is" count by (simp add: unit_test_program_def rg_def)
qed

text \<open>A C library that knows the abbreviated texts too.\<close>

definition abbreviating_inet :: inet_api where
  "abbreviating_inet =
     \<lparr>inet_pton = (\<lambda>af t. case map_of texts6 t of
          Some b \<Rightarrow> if af = AF_INET6 then Some b else None
        | None \<Rightarrow> inet_pton ref_inet af t),
      inet_ntop = (\<lambda>af b n. if af = AF_INET6 \<and> b = short6 [] 1 then Some ''::1'' else inet_ntop ref_inet af b n)\<rparr>"

definition sample_unit_env :: unit_env where
  "sample_unit_env = \<lparr>ut_inet = abbreviating_inet, ut_os = ref_if_api, ut_translators = [], ut_status = [], ut_what = (\<lambda>e. [])\<rparr>"

definition sample_program :: "string list \<Rightarrow> (failure + int \<times> globals) option" where
  "sample_program argv = unit_test_program sample_unit_env (sample_environment\<lparr>env_fp := sample_fp\<lparr>fp_mul := (\<lambda>a b. 1)\<rparr>\<rparr>)
     \<lparr>rp_env = sample_env, rp_timestamp = [], rp_surroundings = (\<lambda>k. sample_call), rp_logged = True, rp_level = 7\<rparr>
     (\<lambda>v6. rev (test_units sample_unit_env v6)) 0 \<lparr>g_cs = None, is_running_in_test = False, g_no_colors = False\<rparr> sample_context argv"

theorem unit_tests_exit_zero_witness:
  "(\<exists>g'. sample_program [''tests'', ''--order-by=rand'', ''--test-case=*operator*'', ''-r=xml''] = Some (Inr (0, g'))) \<and>
   sample_program [''tests'', ''--version'', ''--count'', ''-r=xml''] = Some (Inl Null_deref)"
proof -
  have known: "inet_knows (ut_inet sample_unit_env)" unfolding sample_unit_env_def by code_simp
  have os: "os_knows (ut_os sample_unit_env)"
    by (auto simp: sample_unit_env_def os_knows_def if_api_consistent_def ref_if_api_def split: if_splits)
  have in_time: "\<not> timed_out (sample_fp\<lparr>fp_mul := (\<lambda>a b. 1)\<rparr>) 0 secs" for secs by (simp add: timed_out_def) code_simp
  have time: "\<forall>secs. \<not> timed_out (env_fp (sample_environment\<lparr>env_fp := sample_fp\<lparr>fp_mul := (\<lambda>a b. 1)\<rparr>\<rparr>)) 0 secs"
    using in_time by simp
  have exits: "\<exists>g'. sample_program argv = Some (if asks_without_counters (ctx_options (start_context sample_context argv)) \<and>
      xml_key \<in> set (used_reporters lib_reporters (start_context sample_context argv)) then Inl Null_deref else Inr (0, g'))" for argv
    unfolding sample_program_def
    by (rule conjunct2 [OF unit_tests_exit_zero [OF known os time]]) simp
  have "\<not> asks_without_counters (ctx_options (start_context sample_context
      [''tests'', ''--order-by=rand'', ''--test-case=*operator*'', ''-r=xml'']))"
    by code_simp
  then have one: "\<exists>g'. sample_program [''tests'', ''--order-by=rand'', ''--test-case=*operator*'', ''-r=xml''] = Some (Inr (0, g'))"
    using exits [of "[''tests'', ''--order-by=rand'', ''--test-case=*operator*'', ''-r=xml'']"] by simp
  have "asks_without_counters (ctx_options (start_context sample_context [''tests'', ''--version'', ''--count'', ''-r=xml''])) \<and>
      xml_key \<in> set (used_reporters lib_reporters (start_context sample_context [''tests'', ''--version'', ''--count'', ''-r=xml'']))"
    by code_simp
  then have "sample_program [''tests'', ''--version'', ''--count'', ''-r=xml''] = Some (Inl Null_deref)"
    using exits [of "[''tests'', ''--version'', ''--count'', ''-r=xml'']"] by simp
  with one show ?thesis by (rule conjI)
qed

end
