(* ===== verification/Tracker_Tests.thy ===== *)
theory Tracker_Tests
  imports Unit_Tests Status_Tracker
begin

text \<open>
  The unit tests of the tracker (src/monitor/NetworkInterfaceStatusTracker.test.cpp). They share one tracker, which each test
  finds as the ones before it have left it: the order in which doctest runs them decides whether they hold.
\<close>

section \<open>The tests\<close>

text \<open>A test changes the tracker and notes what its assertions find, by their lines.\<close>

type_synonym test_state = "(nat \<times> bool) list \<times> tracker"

definition do_step :: "(tracker \<Rightarrow> failure + tracker) \<Rightarrow> test_state \<Rightarrow> failure + test_state" where
  "do_step f = (\<lambda>(vs, t). res_bind (f t) (\<lambda>t. Inr (vs, t)))"

definition check_step :: "nat \<Rightarrow> (tracker \<Rightarrow> failure + bool \<times> tracker) \<Rightarrow> test_state \<Rightarrow> failure + test_state" where
  "check_step line f = (\<lambda>(vs, t). res_bind (f t) (\<lambda>(b, t). Inr (vs @ [(line, b)], t)))"

definition pure_check :: "nat \<Rightarrow> (tracker \<Rightarrow> bool) \<Rightarrow> test_state \<Rightarrow> failure + test_state" where
  "pure_check line f = check_step line (\<lambda>t. Inr (f t, t))"

fun steps :: "(test_state \<Rightarrow> failure + test_state) list \<Rightarrow> test_state \<Rightarrow> failure + test_state" where
  "steps [] s = Inr s"
| "steps (f # fs) s = res_bind (f s) (steps fs)"

text \<open>The clock stands at \<open>now\<close> when a test changes the tracker, and at \<open>later\<close> when its age is asked for.\<close>

definition tracker_file :: string where "tracker_file = ''src/monitor/NetworkInterfaceStatusTracker.test.cpp''"

definition test_name :: "string \<Rightarrow> string" where
  "test_name s = ''NetworkInterfaceStatusTracker '' @ s"

definition tracker_tests :: "int \<Rightarrow> int \<Rightarrow> (nat \<times> string \<times> (test_state \<Rightarrow> failure + test_state)) list" where
  "tracker_tests now later =
     [(20, test_name ''default state'', steps [
         pure_check 22 (\<lambda>t. hasName t = False),
         pure_check 23 (\<lambda>t. m_name t = []),
         check_step 24 (\<lambda>t. let (b, t) = hasChanges t in Inr (b = False, t))]),
      (27, test_name ''set and check name'', steps [
         do_step (setName now ''eth0''),
         pure_check 30 hasName,
         pure_check 31 (\<lambda>t. m_name t = ''eth0''),
         check_step 32 (\<lambda>t. Inr (hasChanges t)),
         check_step 33 (isChanged Changed_Name)]),
      (36, test_name ''operational state'', steps [
         do_step (setOperationalState now Oper_Up),
         pure_check 39 (\<lambda>t. m_operationalState t = Oper_Up),
         check_step 40 (isChanged Changed_OperationalState)]),
      (43, test_name ''MAC address'', steps [
         do_step (setMacAddress now eth_default),
         pure_check 47 (\<lambda>t. m_macAddress t = eth_default),
         check_step 48 (isChanged Changed_MacAddress)]),
      (51, test_name ''broadcast address'', steps [
         do_step (setBroadcastAddress now eth_default),
         pure_check 55 (\<lambda>t. m_broadcastAddress t = eth_default),
         check_step 56 (isChanged Changed_BroadcastAddress)]),
      (59, test_name ''clearFlag'', steps [
         do_step (setName now ''eth0''),
         check_step 62 (isChanged Changed_Name),
         do_step (clearFlag Changed_Name),
         check_step 64 (\<lambda>t. res_bind (isChanged Changed_Name t) (\<lambda>(b, t). Inr (\<not> b, t)))]),
      (67, test_name ''age'', steps [
         do_step (setName now ''eth0''),
         pure_check 71 (\<lambda>t. 0 \<le> age later t)])]"

text \<open>The tests in an order that is given by their numbers, on the tracker that was made at \<open>born\<close>.\<close>

fun run_tracker_tests :: "(test_state \<Rightarrow> failure + test_state) list \<Rightarrow> nat list \<Rightarrow> test_state \<Rightarrow> failure + test_state" where
  "run_tracker_tests bodies [] s = Inr s"
| "run_tracker_tests bodies (k # ks) s = res_bind ((bodies ! k) s) (run_tracker_tests bodies ks)"

definition tracker_registered :: "int \<Rightarrow> int \<Rightarrow> test_case list" where
  "tracker_registered now later =
     rg_tests (static_init (the (unit_initializers 0
       (unit_decls tracker_file ''[monitor::NetworkInterfaceStatusTracker]'' 0 (tracker_tests now later)))) registry_new)"

definition tracker_test_run :: "(u32 \<Rightarrow> nat \<Rightarrow> nat) \<Rightarrow> context_options \<Rightarrow> int \<Rightarrow> int \<Rightarrow> int \<Rightarrow> failure + test_state" where
  "tracker_test_run rnd opts born now later =
     run_tracker_tests (map (\<lambda>(line, name, body). body) (tracker_tests now later))
       (map m_test (order_tests rnd opts (tracker_registered now later))) ([], tracker_new born)"

definition failing_lines :: "failure + test_state \<Rightarrow> nat list option" where
  "failing_lines r = (case r of Inl e \<Rightarrow> None | Inr (vs, t) \<Rightarrow> Some (map fst (filter (\<lambda>v. \<not> snd v) vs)))"

section \<open>The order of the tests\<close>

lemma tracker_orders:
  "map m_test (order_tests rnd (sample_options\<lparr>opt_order_by := ''file''\<rparr>) (tracker_registered now later)) = [0, 1, 2, 3, 4, 5, 6]"
  "map m_test (order_tests rnd (sample_options\<lparr>opt_order_by := ''name''\<rparr>) (tracker_registered now later)) = [3, 6, 4, 5, 0, 2, 1]"
  by code_simp+

lemma zero_address: "eth_allZeroes eth_default"
  by (simp add: eth_allZeroes_def eth_default_def list_all_iff)

lemmas tracker_steps = tracker_tests_def do_step_def check_step_def pure_check_def setName_def setOperationalState_def
  setMacAddress_def setBroadcastAddress_def touch_def fs_test_def fs_set_def fs_reset_def clearFlag_def isChanged_def hasChanges_def
  bump_def tracker_new_def fs_empty_def hasName_def fs_any_def zero_address age_def failing_lines_def set_bit_eq_or
  unset_bit_eq_and_not pos_imp_zdiv_nonneg_iff Let_def Oper_Unknown_def Oper_Up_def

text \<open>
  The tests of the tracker hold in the order in which they are written, which is doctest's default, and depend on it: in the
  order of their names, which an option asks for, the assertions on the default state fail, and so does the one that
  the name has changed, since the tests share their tracker.
\<close>

theorem tracker_tests_depend_on_order:
  assumes "now \<le> later"
  shows "failing_lines (tracker_test_run rnd (sample_options\<lparr>opt_order_by := ''file''\<rparr>) born now later) = Some [] \<and>
    failing_lines (tracker_test_run rnd (sample_options\<lparr>opt_order_by := ''name''\<rparr>) born now later) = Some [22, 23, 24, 33]"
proof -
  have "0 \<le> later - now" using assms by simp
  then show ?thesis
    unfolding tracker_test_run_def tracker_orders by (simp add: tracker_steps)
qed

theorem tracker_tests_depend_on_order_witness:
  "failing_lines (tracker_test_run (\<lambda>_ k. k) (sample_options\<lparr>opt_order_by := ''name''\<rparr>) 0 5 9) = Some [22, 23, 24, 33]"
  using tracker_tests_depend_on_order [of 5 9] by simp

end
