(* ===== verification/Spec2Isabelle.thy ===== *)
theory Spec2Isabelle
  imports Ethernet_Address Inet_Reference Network_Interface Netlink_Wire Notification_Properties Message_Properties Protocol_Properties
    Command_Line_Properties Statistics_Log Doctest_String Doctest_Reports Doctest_Signals
    Doctest_Macros Tracker_Tests
begin

text \<open>
  A verification development for \<open>monkas\<close>, a C++ library that monitors network interfaces over rtnetlink,
  with its command line program and the test framework it bundles. File names are relative to the
  root of the repository; headers are under include/monkas.

  \<^bold>\<open>The program.\<close> A \<open>NetworkMonitor\<close> owns a netlink socket. It asks the kernel for all links, then all
  addresses, then all routes, and from then on receives what changes. Every message is parsed into
  attributes and applied to the \<open>NetworkInterfaceStatusTracker\<close> of its interface, which holds what is
  known of the interface and a flag for each aspect that has changed. After every datagram the monitor
  tells its subscribers the changed aspects of the interfaces they subscribed to and clears the flags.

  \<^bold>\<open>Values.\<close> \<open>Flag_Set\<close> (util/FlagSet.hpp) is a word of as many bits as there are flags; the locale
  \<open>flag_store\<close> states what its users rely on, a finite set of positions. \<open>Ethernet_Address\<close> (ethernet/Address), \<open>IP_Address\<close>
  (ip/Address) with \<open>Inet_Reference\<close>, \<open>Network_Address\<close> (network/Address) and \<open>Network_Interface\<close>
  (network/Interface) are the values with their orders, classification, printing and parsing; what the
  code relies on of \<open>inet_pton\<close> and \<open>inet_ntop\<close> is the locale \<open>inet_text\<close>, interpreted on an implementation of
  the two. \<open>Std_Containers\<close> holds \<open>std::set\<close> and \<open>std::map\<close> as ordered lists with the locales \<open>keyed_set\<close> and
  \<open>keyed_map\<close>. \<open>Monkas_Prelude\<close> holds the machine integers, the failures the code can end in (exceptions,
  \<open>abort\<close>, null dereference, access out of bounds) and the sequencing of fallible steps.

  \<^bold>\<open>Messages.\<close> \<open>Netlink_Attributes\<close> (src/monitor/Attributes) parses attributes into a vector and reads
  them; libmnl is a parameter whose documented laws are the locale \<open>mnl_attributes\<close>, interpreted in
  \<open>Netlink_Wire\<close> on the little-endian wire format. The lemmas show that no slot outside the vector is written,
  and that the getters of addresses read no byte outside a payload. The other getters of libmnl are total parameters: that the
  code checks the lengths of integers is in the model, but that a text ends within its payload is not checked by the code
  and not told by the model, and neither is how much of a message its headers take.

  \<^bold>\<open>The tracker.\<close> \<open>Status_Tracker\<close> (monitor/NetworkInterfaceStatusTracker) is the record with all
  setters, queries and texts. \<open>Tracker_Facts\<close> and \<open>Tracker_Operations\<close> show the contract the setters
  share (locale \<open>tracked_setter\<close>, interpreted seven times), that every sequence of operations keeps the
  invariant and implements an abstract view, and that what changed is flagged.

  \<^bold>\<open>The monitor.\<close> (monitor/NetworkMonitor) \<open>Monitor_State\<close>: the members with the world around them: the
  receptions still to come (\<open>inbox\<close>), the clock, and the requests and notifications made so far (\<open>events\<close>).
  \<open>Monitor_Notify\<close>: the notifications and the subscriptions. \<open>Monitor_Messages\<close>: the handlers of link, address
  and route messages. \<open>Monitor_Loop\<close>: requests, sequence numbers, retries, the receive loop,
  \<open>enumerateInterfaces\<close>, \<open>run\<close>, \<open>stop\<close> and the constructor. \<open>Message_Meaning\<close> and \<open>Message_Properties\<close>
  relate the handlers to the changes a message means. \<open>Observer\<close> defines what a subscriber believes that
  applies the notifications it receives, and \<open>Monitor_Invariant\<close>, \<open>Subscriptions\<close> and
  \<open>Notification_Properties\<close> show that these beliefs are right in every reachable state. \<open>Monitor_Protocol\<close>,
  \<open>Monitor_Runs\<close>, \<open>Enumeration\<close> and \<open>Protocol_Properties\<close> are about the control flow: reachability by
  small steps, the enumeration as an abstract protocol, termination, errors. \<open>Sample_World\<close> is a
  concrete host, libmnl and kernel for the witnesses. \<open>Statistics_Log\<close> holds the statistics as they are printed;
  printing them cannot fail in a reachable state. \<open>Command_Line\<close> and \<open>Command_Line_Properties\<close> are the
  program of examples/cli/main.cpp on top of it.

  \<^bold>\<open>The test framework.\<close> (external/doctest/doctest/doctest.h) \<open>Doctest_Text\<close>: comparison, the wildcards of the
  filters, hashes, file names. \<open>Doctest_String\<close>: the class \<open>String\<close> on the stack and on the heap,
  shown to implement texts. \<open>Doctest_Types\<close>: the enumerations and records. \<open>Doctest_State\<close>: counters with
  lanes, \<open>Approx\<close>, the context and the verdict on a test case. \<open>Doctest_Options\<close>: the command line.
  \<open>Doctest_Xml\<close>: the XML encoder, with a reader of XML 1.0 to state what it preserves, and the writer. \<open>Doctest_Subcases\<close>: the traversal of the tree of subcases.
  \<open>Doctest_Asserts\<close>: assertions, messages, exceptions. \<open>Doctest_Expression\<close>: the texts of values, the decomposition
  of an expression and the assertion macros, with the theorem that the ways to assert a comparison agree;
  \<open>Doctest_Macros\<close>: the macros by level and kind, which do what their names say, with one exception.
  \<open>Doctest_Run\<close> and \<open>Doctest_Run_Properties\<close>:
  registration, order, and \<open>Context::run\<close>, with the theorems that the loop over subcases ends and takes
  every leaf once, and that a run accounts for every test. \<open>Doctest_Registration\<close>: the macros that register tests, suites,
  templates, translators and reporters, as declarations of translation units that expand to initialisations of statics, and
  those initialisations before \<open>main\<close>; every test is registered once, in the suite that is written around it, and
  the order of the units, which the language leaves open, does not matter.

  \<^bold>\<open>The unit tests.\<close> \<open>Doctest_Program\<close> (external/doctest/lib.cpp and main.cpp): the unit that registers the three reporters, and
  \<open>main\<close>. \<open>Context_run\<close> only records the calls to the reporters; here they are played to the reporters, so that one that
  fails ends the program. \<open>Doctest_Passing\<close>: a test program whose assertions hold exits with 0 under every command line but
  those at which the XML reporter reads a null pointer. \<open>Unit_Tests\<close> (src/*/*.test.cpp): the tests of the addresses and the
  interface, as assertions of the modelled framework on the modelled classes; they are registered and pass on every system
  that knows the texts and interfaces they name. \<open>Tracker_Tests\<close>: the tests of the tracker, which share one tracker and hold only in the order in which
  they are written.

  \<^bold>\<open>The reports.\<close> The virtual calls of \<open>IReporter\<close> follow a protocol: the run starts, its test cases start and end
  with their subcases nested within, the run ends; or there is one query. \<open>Doctest_Reporting\<close> states it as a run of a
  small machine, with the locale \<open>reporter\<close>: an operation per call, an invariant over the calls heard and the phase,
  and the lemma that it holds along the protocol. \<open>Doctest_Xml_Reporter\<close>, \<open>Doctest_Junit_Reporter\<close> and
  \<open>Doctest_Console\<close>, with the help text of \<open>Doctest_Help\<close>, are the three reporters; each interprets the locale
  (\<open>xml\<close>, \<open>junit\<close>, \<open>console\<close> and \<open>silence\<close>). \<open>Doctest_Protocol\<close> shows that a run makes its calls along the protocol if
  the statements of the tests behave, and \<open>Doctest_Reports\<close> that assertions, messages and the scopes of \<open>INFO\<close> do, and
  what the reports of a run come to.

  \<^bold>\<open>A crash.\<close> \<open>Doctest_Signals\<close>: the guard that installs handlers for the fatal signals around a test and gives the
  former ones back, so that no test of a run changes them for the next, and what its handler does in the middle of a test. What it relies on of \<open>sigaction\<close> and
  \<open>sigaltstack\<close> is the locale \<open>posix_signals\<close>, interpreted on an implementation of the two. A crash before
  any subcase has been left completes the protocol; one behind a subcase that has been left does not, and makes two of the
  reporters fail. What the signal that is raised at the end does to the process is not modelled.

  \<^bold>\<open>Loops.\<close> The loops of the monitor that wait for input take fuel. On the blocking socket a run on a finite inbox either
  blocks in \<open>recvfrom\<close>, which is a result of its own, or ends; as many turns as there are receptions and one more
  are enough, and the theorems that the code gets to a point say so for every such fuel. On the socket of the option
  \<open>NonBlocking\<close> the empty inbox is a failed reception, and \<open>run\<close> turns for ever: it runs out of any fuel. The loop of the
  command line program takes as many turns as enumerations are asked for, and for ever if 0 are. The loop
  over the subcases of a test is a partial function whose value \<open>None\<close> means that it does not end; that
  it ends is proved. The loops of \<open>String::rfind\<close> and \<open>wildcmp\<close> end by measures given with them.

  \<^bold>\<open>Parameters.\<close> Code that is not in the repository is a parameter: libmnl and the kernel (\<open>environment\<close>,
  \<open>socket_api\<close>), \<open>inet_pton\<close> and \<open>inet_ntop\<close>, \<open>if_nametoindex\<close> and \<open>if_indextoname\<close>, the arithmetic of \<open>double\<close>, the
  clock and its time stamps, the printed form of a \<open>double\<close>, the random numbers, the functions of the tests and the
  exception translators, the comparison and the printing of user types, \<open>sigaction\<close> and \<open>sigaltstack\<close>.
  Subscribers may call \<open>stop()\<close> from a callback and change nothing else of the monitor there, because it iterates over the
  subscribers while it calls them.

  \<^bold>\<open>Not modelled.\<close> Log output other than the statistics, and the dump of packets, which change no state.
  The clock is read once per datagram. Of the test framework: the templates that select overloads by the traits of
  a type; that a run installs the guard for signals, so that a crash ends the run, is told by
  \<open>Doctest_Signals\<close> only; and the branches for other platforms than Linux, the reporter for the debug window of
  Windows among them. The state the tests of the tracker share is outside of the context of doctest, so their run is told apart from
  \<open>Context::run\<close>, in the order that gives. A failed allocation ends the program in the code and does not happen in the model.
\<close>

end
